(* ===== verification/Prelude.thy ===== *)
theory Prelude
  imports Main "HOL-Library.AList"
begin

text \<open>
  Shared vocabulary of the development: the insertion-ordered map of the JavaScript
  runtime, the result type for code that throws, JavaScript truthiness of optional
  strings, and the generic lemmas on them that the component theories use.
\<close>

named_theorems op_defs \<open>definitions of the operations of the modelled components\<close>
named_theorems map_simps \<open>rewriting of look-ups after updates, deletions and filters\<close>

subsection \<open>Insertion-ordered maps\<close>

text \<open>
  A JavaScript \<open>Map\<close> iterates in insertion order; \<open>set\<close> on a present key keeps the
  key's position, \<open>set\<close> on a new key appends it. That is the update of an
  association list with distinct keys. \<open>get\<close> is the library's \<open>map_of\<close>.
\<close>

type_synonym ('k, 'v) jsmap = "('k \<times> 'v) list"

definition jset :: "'k \<Rightarrow> 'v \<Rightarrow> ('k, 'v) jsmap \<Rightarrow> ('k, 'v) jsmap" where
  "jset k v m = AList.update k v m"

definition jdel :: "'k \<Rightarrow> ('k, 'v) jsmap \<Rightarrow> ('k, 'v) jsmap" where
  "jdel k m = filter (\<lambda>p. fst p \<noteq> k) m"

definition jhas :: "('k, 'v) jsmap \<Rightarrow> 'k \<Rightarrow> bool" where
  "jhas m k \<longleftrightarrow> map_of m k \<noteq> None"

abbreviation jkeys :: "('k, 'v) jsmap \<Rightarrow> 'k list" where
  "jkeys m \<equiv> map fst m"

abbreviation jvalues :: "('k, 'v) jsmap \<Rightarrow> 'v list" where
  "jvalues m \<equiv> map snd m"

definition jwf :: "('k, 'v) jsmap \<Rightarrow> bool" where
  "jwf m \<longleftrightarrow> distinct (map fst m)"

lemma jset_Nil [simp]: "jset k v [] = [(k, v)]"
  by (simp add: jset_def)

lemma jset_Cons [simp]: "jset k v (p # ps) = (if fst p = k then (k, v) # ps else p # jset k v ps)"
  by (simp add: jset_def)

lemma jdel_Nil [simp]: "jdel k [] = []"
  by (simp add: jdel_def)

lemma jdel_Cons [simp]: "jdel k (p # ps) = (if fst p = k then jdel k ps else p # jdel k ps)"
  by (simp add: jdel_def)

lemma jget_jset [simp, map_simps]: "map_of (jset k v m) = (map_of m)(k \<mapsto> v)"
  by (simp add: jset_def update_conv')

lemma jget_jdel [simp, map_simps]: "map_of (jdel k m) = (map_of m)(k := None)"
  by (induction m) (auto simp: fun_eq_iff)

lemma jkeys_jset: "map fst (jset k v m) = (if k \<in> set (map fst m) then map fst m else map fst m @ [k])"
  by (simp add: jset_def update_keys)

lemma jset_keys_set [simp]: "fst ` set (jset k v m) = insert k (fst ` set m)"
  by (simp add: jset_def dom_update)

lemma jdel_keys_set [simp]: "fst ` set (jdel k m) = fst ` set m - {k}"
  by (induction m) auto

lemma jwf_Nil [simp, intro]: "jwf []"
  by (simp add: jwf_def)

lemma jwf_jset [simp, intro]: "jwf m \<Longrightarrow> jwf (jset k v m)"
  by (simp add: jwf_def jset_def distinct_update)

lemma jwf_filter [simp, intro]: "jwf m \<Longrightarrow> jwf (filter P m)"
  by (simp add: jwf_def distinct_map_filter)

lemma jwf_jdel [simp, intro]: "jwf m \<Longrightarrow> jwf (jdel k m)"
  by (simp add: jdel_def)

lemma jwf_Cons: "jwf (p # m) \<longleftrightarrow> fst p \<notin> fst ` set m \<and> jwf m"
  by (auto simp: jwf_def)

lemma jhas_iff: "jhas m k \<longleftrightarrow> k \<in> fst ` set m"
  by (simp add: jhas_def map_of_eq_None_iff)

lemma jget_mem: "jwf m \<Longrightarrow> (k, v) \<in> set m \<longleftrightarrow> map_of m k = Some v"
  by (simp add: jwf_def map_of_eq_Some_iff)

lemma jget_memD: "map_of m k = Some v \<Longrightarrow> (k, v) \<in> set m"
  by (rule map_of_SomeD)

lemma in_jvalues: "jwf m \<Longrightarrow> v \<in> set (map snd m) \<longleftrightarrow> (\<exists>k. map_of m k = Some v)"
  by (force simp: jget_mem [symmetric])

lemma map_of_filter [map_simps]:
  "jwf m \<Longrightarrow> map_of (filter P m) k =
     (case map_of m k of None \<Rightarrow> None | Some v \<Rightarrow> if P (k, v) then Some v else None)"
proof (induction m)
  case (Cons p m)
  then show ?case
    by (cases p) (auto simp: jwf_Cons map_of_eq_None_iff image_iff split: option.splits)
qed simp

lemma set_jset: "jwf m \<Longrightarrow> set (jset k v m) = insert (k, v) {p \<in> set m. fst p \<noteq> k}"
  by (induction m) (auto simp: jwf_Cons image_iff)

lemma set_jdel [simp]: "set (jdel k m) = {p \<in> set m. fst p \<noteq> k}"
  by (auto simp: jdel_def)

lemma jset_same: "map_of m k = Some v \<Longrightarrow> jset k v m = m"
  by (simp add: jset_def update_triv)

lemma jset_fresh: "k \<notin> fst ` set m \<Longrightarrow> jset k v m = m @ [(k, v)]"
  by (induction m) auto

lemma jdel_absent: "map_of m k = None \<Longrightarrow> jdel k m = m"
  by (induction m) (auto split: if_splits)

text \<open>\<open>new Map(pairs)\<close> and a sequence of \<open>set\<close> calls: the last value of a key wins.\<close>

definition jset_all :: "('k \<times> 'v) list \<Rightarrow> ('k, 'v) jsmap \<Rightarrow> ('k, 'v) jsmap" where
  "jset_all kvs m = fold (\<lambda>(k, v). jset k v) kvs m"

lemma jset_all_Nil [simp]: "jset_all [] m = m"
  by (simp add: jset_all_def)

lemma jset_all_Cons [simp]: "jset_all (p # ps) m = jset_all ps (jset (fst p) (snd p) m)"
  by (simp add: jset_all_def case_prod_beta)

text \<open>\<open>new Set(xs)\<close> in iteration order: the first occurrence of each element.\<close>

definition new_set :: "'a list \<Rightarrow> 'a list" where
  "new_set xs = rev (remdups (rev xs))"

lemma set_new_set [simp]: "set (new_set xs) = set xs"
  by (simp add: new_set_def)

lemma distinct_new_set [simp]: "distinct (new_set xs)"
  by (simp add: new_set_def)

text \<open>\<open>Set.add\<close>; \<open>Set.delete\<close> is \<open>removeAll\<close>.\<close>

definition set_add :: "'a \<Rightarrow> 'a list \<Rightarrow> 'a list" where
  "set_add x xs = (if x \<in> set xs then xs else xs @ [x])"

lemma set_set_add [simp]: "set (set_add x xs) = insert x (set xs)"
  by (auto simp: set_add_def)

lemma jget_jset_all [map_simps]:
  "map_of (jset_all kvs m) k = (case map_of (rev kvs) k of None \<Rightarrow> map_of m k | Some v \<Rightarrow> Some v)"
  by (induction kvs arbitrary: m) (auto simp: map_add_def split: option.splits)

lemma jwf_jset_all [simp, intro]: "jwf m \<Longrightarrow> jwf (jset_all kvs m)"
  by (induction kvs arbitrary: m) auto

lemma map_of_map_key:
  "map_of (map (\<lambda>x. (f x, x)) xs) k = find (\<lambda>x. f x = k) xs"
  by (induction xs) auto

subsection \<open>Results of code that throws\<close>

type_synonym ('e, 'a) result = "'e + 'a"

definition ok :: "('e, 'a) result \<Rightarrow> bool" where
  "ok r \<longleftrightarrow> (case r of Inl _ \<Rightarrow> False | Inr _ \<Rightarrow> True)"

lemma ok_simps [simp]: "ok (Inr a)" "\<not> ok (Inl e)"
  by (simp_all add: ok_def)

lemma ok_iff: "ok r \<longleftrightarrow> (\<exists>a. r = Inr a)"
  by (cases r) auto

subsection \<open>Truthiness of optional strings\<close>

text \<open>\<open>Boolean(s)\<close> for \<open>s : string | undefined\<close>: the empty string is falsy.\<close>

fun truthy :: "string option \<Rightarrow> bool" where
  "truthy None = False"
| "truthy (Some s) = (s \<noteq> [])"

lemma truthy_iff: "truthy x \<longleftrightarrow> (\<exists>s. x = Some s \<and> s \<noteq> [])"
  by (cases x) auto

text \<open>The same for strings over any alphabet: \<open>x || undefined\<close>.\<close>

definition present :: "'a list option \<Rightarrow> 'a list option" where
  "present x = (case x of None \<Rightarrow> None | Some s \<Rightarrow> if s = [] then None else Some s)"

lemma present_Some: "present x = Some a \<longleftrightarrow> x = Some a \<and> a \<noteq> []"
  by (cases x) (auto simp: present_def)

lemma present_None: "present x = None \<longleftrightarrow> x = None \<or> x = Some []"
  by (cases x) (auto simp: present_def)

text \<open>\<open>...(x ? { x } : {})\<close>: an empty string is dropped.\<close>

definition if_truthy :: "string option \<Rightarrow> string option" where
  "if_truthy x = (if truthy x then x else None)"

lemma if_truthy_Some [simp]: "if_truthy x = Some y \<longleftrightarrow> x = Some y \<and> y \<noteq> []"
  by (cases x) (auto simp: if_truthy_def)

text \<open>\<open>{ ...old, ...(x ? { field: x } : {}) }\<close>.\<close>

definition override :: "string option \<Rightarrow> string option \<Rightarrow> string option" where
  "override x old = (if truthy x then x else old)"

text \<open>\<open>s.startsWith(p)\<close>.\<close>

definition startsWith :: "'a list \<Rightarrow> 'a list \<Rightarrow> bool" where
  "startsWith p s \<longleftrightarrow> take (length p) s = p"

lemma startsWith_iff: "startsWith p s \<longleftrightarrow> (\<exists>r. s = p @ r)"
  unfolding startsWith_def by (metis append_eq_conv_conj append_take_drop_id)

subsection \<open>Lists\<close>

lemma find_SomeD: "find P xs = Some x \<Longrightarrow> P x \<and> x \<in> set xs"
  by (induction xs) (auto split: if_splits)

lemma find_NoneD: "find P xs = None \<longleftrightarrow> (\<forall>x \<in> set xs. \<not> P x)"
  by (induction xs) auto

text \<open>\<open>for (let i = n - 1; i >= 0; i--)\<close>: the invariant of a loop that counts down.\<close>

lemma fold_down:
  "P n s \<Longrightarrow> (\<And>k s. k < n \<Longrightarrow> P (Suc k) s \<Longrightarrow> P k (f k s)) \<Longrightarrow> P 0 (fold f (rev [0..<n]) s)"
  by (induction n arbitrary: s) auto

lemma fold_inv_rule:
  "(\<And>x s. x \<in> set xs \<Longrightarrow> I s \<Longrightarrow> I (f x s)) \<Longrightarrow> I s \<Longrightarrow> I (fold f xs s)"
  by (induction xs arbitrary: s) auto

end
