(* ===== verification/Bytes.thy ===== *)
theory Bytes
  imports Prelude "HOL-Library.Word"
begin

unbundle bit_operations_syntax

text \<open>
  Bytes and big-endian 32-bit numbers, as \<open>Uint8Array\<close> and \<open>DataView\<close> hold them, and the
  interface of a self-delimiting frame format: a partial parser that asks for more bytes, the
  laws that make it a parser for an encoder, and the reading of a whole byte stream with it.
\<close>

type_synonym byte = "8 word"

subsection \<open>Big-endian numbers\<close>

definition be32 :: "32 word \<Rightarrow> byte list" where
  "be32 w = [ucast (drop_bit 24 w AND 0xff), ucast (drop_bit 16 w AND 0xff),
     ucast (drop_bit 8 w AND 0xff), ucast (w AND 0xff)]"

definition u32_be :: "byte \<Rightarrow> byte \<Rightarrow> byte \<Rightarrow> byte \<Rightarrow> 32 word" where
  "u32_be a b c d = push_bit 24 (ucast a) OR push_bit 16 (ucast b) OR push_bit 8 (ucast c) OR ucast d"

lemma length_be32 [simp]: "length (be32 w) = 4"
  by (simp add: be32_def)

lemma mask_ff: "(0xff :: 32 word) = mask 8"
  by (simp add: mask_eq_exp_minus_1)

lemma u32_be_be32: "be32 w = [a, b, c, d] \<Longrightarrow> u32_be a b c d = w"
proof -
  assume "be32 w = [a, b, c, d]"
  then have "a = ucast (drop_bit 24 w AND 0xff)" "b = ucast (drop_bit 16 w AND 0xff)"
    "c = ucast (drop_bit 8 w AND 0xff)" "d = ucast (w AND 0xff)"
    by (simp_all add: be32_def)
  moreover have "bit (u32_be (ucast (drop_bit 24 w AND 0xff)) (ucast (drop_bit 16 w AND 0xff))
      (ucast (drop_bit 8 w AND 0xff)) (ucast (w AND 0xff))) n = bit w n" if "n < 32" for n
  proof -
    consider "n < 8" | k where "n = 8 + k" "k < 8" | k where "n = 16 + k" "k < 8"
      | k where "n = 24 + k" "k < 8"
    proof -
      have "n < 8 \<or> n = 8 + (n - 8) \<and> n - 8 < 8 \<or> n = 16 + (n - 16) \<and> n - 16 < 8 \<or>
          n = 24 + (n - 24) \<and> n - 24 < 8"
        using \<open>n < 32\<close> by arith
      then show thesis using that by blast
    qed
    then show ?thesis
      unfolding u32_be_def mask_ff by cases (simp_all add: bit_simps)
  qed
  ultimately show "u32_be a b c d = w" by (auto intro: bit_word_eqI)
qed

lemma be32_u32_be: "be32 (u32_be a b c d) = [a, b, c, d]"
proof -
  have high: "\<not> bit x (8 + n)" "\<not> bit x (16 + n)" "\<not> bit x (24 + n)" for x :: byte and n
    by (auto dest: bit_imp_le_length)
  show ?thesis
    unfolding be32_def u32_be_def mask_ff
    by (auto intro!: bit_word_eqI simp: bit_simps high)
qed

lemma be32_inject: "be32 v = be32 w \<longleftrightarrow> v = w"
proof
  assume "be32 v = be32 w"
  moreover obtain a b c d where "be32 w = [a, b, c, d]" by (simp add: be32_def)
  ultimately show "v = w" using u32_be_be32 by metis
qed simp

lemma unat_of_nat32: "n < 2 ^ 32 \<Longrightarrow> unat (of_nat n :: 32 word) = n"
  by (simp add: unat_of_nat take_bit_nat_eq_self)

subsection \<open>Self-delimiting formats\<close>

text \<open>
  A parser takes one message from the front of a byte stream: an error, nothing yet (the
  message is still incomplete), or a message with the bytes after it. \<open>parse_all\<close> takes
  messages as long as it can.
\<close>

type_synonym ('e, 'm) parser = "byte list \<Rightarrow> 'e + ('m \<times> byte list) option"

function parse_all :: "('e, 'm) parser \<Rightarrow> byte list \<Rightarrow> 'm list \<times> 'e option \<times> byte list" where
  "parse_all p bs =
     (case p bs of
        Inl e \<Rightarrow> ([], Some e, bs)
      | Inr None \<Rightarrow> ([], None, bs)
      | Inr (Some (m, r)) \<Rightarrow>
          if length r < length bs
          then (let (ms, rest) = parse_all p r in (m # ms, rest))
          else ([], None, bs))"
  by pat_completeness auto
termination by (relation "measure (\<lambda>(p, bs). length bs)") auto

declare parse_all.simps [simp del]

locale frame_format =
  fixes enc :: "'m \<Rightarrow> byte list" and p :: "('e, 'm) parser" and valid :: "'m \<Rightarrow> bool"
  assumes parse_enc: "valid m \<Longrightarrow> p (enc m @ r) = Inr (Some (m, r))"
    and parse_more: "p bs = Inr (Some (m, r)) \<Longrightarrow> p (bs @ x) = Inr (Some (m, r @ x))"
    and parse_fail: "p bs = Inl e \<Longrightarrow> p (bs @ x) = Inl e"
    and parse_progress: "p bs = Inr (Some (m, r)) \<Longrightarrow> length r < length bs"
    and parse_empty: "p [] = Inr None"
begin

lemma parse_all_step:
  "p bs = Inr (Some (m, r)) \<Longrightarrow> parse_all p bs = (m # fst (parse_all p r), snd (parse_all p r))"
  by (simp add: parse_all.simps [of p bs] parse_progress case_prod_beta)

lemma parse_all_stop:
  "p bs = Inl e \<Longrightarrow> parse_all p bs = ([], Some e, bs)"
  "p bs = Inr None \<Longrightarrow> parse_all p bs = ([], None, bs)"
  by (simp_all add: parse_all.simps [of p bs])

text \<open>Reading a stream in two pieces gives what reading it at once gives.\<close>

lemma parse_all_append:
  "parse_all p bs = (ms, err, rest) \<Longrightarrow>
     fst (parse_all p (bs @ x)) = (if err = None then ms @ fst (parse_all p (rest @ x)) else ms) \<and>
     fst (snd (parse_all p (bs @ x))) = (if err = None then fst (snd (parse_all p (rest @ x))) else err) \<and>
     snd (snd (parse_all p (bs @ x))) = (if err = None then snd (snd (parse_all p (rest @ x))) else rest @ x)"
proof (induction bs arbitrary: ms rule: measure_induct_rule [where f = length])
  case (less bs)
  show ?case
  proof (cases "p bs")
    case (Inl e)
    then show ?thesis
      using less.prems parse_all_stop(1) [OF Inl] parse_all_stop(1) [OF parse_fail [OF Inl]] by auto
  next
    case (Inr step)
    show ?thesis
    proof (cases step)
      case None
      then show ?thesis
        using less.prems Inr parse_all_stop(2) by auto
    next
      case (Some mr)
      obtain m r where mr: "p bs = Inr (Some (m, r))" using Inr Some by (cases mr) simp
      obtain ms' where ms: "ms = m # ms'" "parse_all p r = (ms', err, rest)"
        using less.prems parse_all_step [OF mr] by (cases "parse_all p r") auto
      show ?thesis
        using less.IH [OF parse_progress [OF mr] ms(2)] parse_all_step [OF parse_more [OF mr]] ms(1)
        by simp
    qed
  qed
qed

text \<open>What is left over holds no message.\<close>

lemma parse_all_rest:
  "parse_all p bs = (ms, err, r) \<Longrightarrow> p r = (case err of None \<Rightarrow> Inr None | Some e \<Rightarrow> Inl e)"
proof (induction bs arbitrary: ms rule: measure_induct_rule [where f = length])
  case (less bs)
  show ?case
  proof (cases "p bs")
    case (Inl e)
    then show ?thesis using less.prems parse_all_stop(1) [OF Inl] by auto
  next
    case (Inr step)
    show ?thesis
    proof (cases step)
      case None
      then show ?thesis using less.prems Inr parse_all_stop(2) by auto
    next
      case (Some mr)
      obtain m r' where mr: "p bs = Inr (Some (m, r'))" using Inr Some by (cases mr) simp
      then show ?thesis
        using less.IH [OF parse_progress [OF mr]] less.prems parse_all_step [OF mr]
        by (cases "parse_all p r'") auto
    qed
  qed
qed

text \<open>The encodings of valid messages are read back, whatever follows them.\<close>

lemma parse_all_encoded:
  "\<forall>m \<in> set ms. valid m \<Longrightarrow>
     parse_all p (concat (map enc ms) @ r) = (ms @ fst (parse_all p r), snd (parse_all p r))"
  by (induction ms) (auto simp: parse_all_step [OF parse_enc])

text \<open>A prefix of encoded messages parses into whole messages and part of the next one.\<close>

lemma parse_prefix:
  "xs @ ys = concat (map enc ms) \<Longrightarrow> \<forall>m \<in> set ms. valid m \<Longrightarrow>
     \<exists>k r. parse_all p xs = (take k ms, None, r) \<and> xs = concat (map enc (take k ms)) @ r \<and>
       (r = [] \<or> k < length ms \<and> length r < length (enc (ms ! k)))"
proof (induction ms arbitrary: xs)
  case Nil
  then show ?case by (simp add: parse_all_stop(2) parse_empty)
next
  case (Cons m ms)
  let ?c = "concat (map enc ms)"
  have all: "p (xs @ ys) = Inr (Some (m, ?c))" using Cons.prems by (simp add: parse_enc)
  show ?case
  proof (cases "length xs < length (enc m)")
    case True
    have len: "length xs + length ys = length (enc m) + length ?c"
      using arg_cong [OF Cons.prems(1), of length] by simp
    have "p xs = Inr None"
    proof (cases "p xs")
      case (Inl e)
      then show ?thesis using parse_fail [OF Inl] all by simp
    next
      case (Inr step)
      show ?thesis
      proof (cases step)
        case (Some mr)
        obtain m' r where r: "p xs = Inr (Some (m', r))" using Inr Some by (cases mr) simp
        then have "r @ ys = ?c" using parse_more [OF r] all by simp
        then have "length r + length ys = length ?c" by (metis length_append)
        then show ?thesis using True len by linarith
      qed (simp add: Inr)
    qed
    then show ?thesis using True by (intro exI [of _ 0]) (simp add: parse_all_stop(2))
  next
    case False
    define xs' where "xs' = drop (length (enc m)) xs"
    have "take (length (enc m)) (xs @ ys) = enc m" using Cons.prems(1) by simp
    then have "take (length (enc m)) xs = enc m" using False by simp
    then have front: "xs = enc m @ xs'"
      using append_take_drop_id [of "length (enc m)" xs] by (simp add: xs'_def)
    then have xs: "xs = enc m @ xs'" "xs' @ ys = ?c" using Cons.prems(1) by simp_all
    obtain k r where "parse_all p xs' = (take k ms, None, r)" "xs' = concat (map enc (take k ms)) @ r"
        "r = [] \<or> k < length ms \<and> length r < length (enc (ms ! k))"
      using Cons.IH [OF xs(2)] Cons.prems by auto
    then show ?thesis
      using Cons.prems(2) parse_all_step [OF parse_enc, of m xs']
      by (intro exI [of _ "Suc k"] exI [of _ r]) (simp add: xs(1))
  qed
qed

lemma enc_inject:
  assumes "valid m" and "valid n"
  shows "enc m @ r = enc n @ s \<longleftrightarrow> m = n \<and> r = s"
proof
  assume "enc m @ r = enc n @ s"
  then have "p (enc m @ r) = p (enc n @ s)" by simp
  then show "m = n \<and> r = s" using assms by (simp add: parse_enc)
qed simp

lemma encodings_inject:
  "\<forall>m \<in> set ms. valid m \<Longrightarrow> \<forall>m \<in> set ns. valid m \<Longrightarrow> length ms = length ns \<Longrightarrow>
     concat (map enc ms) @ r = concat (map enc ns) @ s \<longleftrightarrow> ms = ns \<and> r = s"
proof (induction ms arbitrary: ns)
  case (Cons m ms)
  then obtain n ns' where ns: "ns = n # ns'" by (cases ns) simp_all
  have "valid m" "valid n" using Cons.prems ns by simp_all
  then have "concat (map enc (m # ms)) @ r = concat (map enc ns) @ s \<longleftrightarrow>
      m = n \<and> concat (map enc ms) @ r = concat (map enc ns') @ s"
    unfolding ns list.map concat.simps append_assoc by (rule enc_inject)
  then show ?case
    using Cons.IH [of ns'] Cons.prems ns by simp
qed simp

end

end
