(* ===== verification/Utf16.thy ===== *)
theory Utf16
  imports Bytes "HOL-Library.List_Lexorder" "HOL-Library.Multiset"
begin

text \<open>
  JavaScript strings as sequences of UTF-16 code units: their order and sort keys
  (\<^verbatim>\<open>packages/content-addressing/src/canonical-order.ts\<close>), the digits of numbers in
  \<open>toString\<close>, and the UTF-8 bytes that \<open>TextEncoder\<close> gives.
\<close>

type_synonym code_unit = "16 word"
type_synonym ustring = "code_unit list"

text \<open>A literal of the source.\<close>

definition ascii :: "string \<Rightarrow> ustring" where
  "ascii s = map of_char s"

subsection \<open>Order\<close>

text \<open>\<open>left < right\<close> on strings: the first differing code unit decides, a prefix is smaller.\<close>

fun js_less :: "'a :: linorder list \<Rightarrow> 'a list \<Rightarrow> bool" where
  "js_less xs [] = False"
| "js_less [] (y # ys) = True"
| "js_less (x # xs) (y # ys) = (if x < y then True else if y < x then False else js_less xs ys)"

definition compareUtf16CodeUnits :: "ustring \<Rightarrow> ustring \<Rightarrow> int" where
  "compareUtf16CodeUnits left right = (if js_less left right then -1 else if js_less right left then 1 else 0)"

lemma js_less_iff: "js_less xs ys \<longleftrightarrow> xs < ys"
  by (induction xs ys rule: js_less.induct) auto

lemma js_less_irrefl [simp]: "\<not> js_less xs xs"
  by (simp add: js_less_iff)

lemma js_less_linear: "js_less xs ys \<or> xs = ys \<or> js_less ys xs"
  by (auto simp: js_less_iff)

lemma js_less_append:
  "length xs = length ys \<Longrightarrow> js_less (xs @ s) (ys @ t) \<longleftrightarrow> js_less xs ys \<or> xs = ys \<and> js_less s t"
  by (induction xs ys rule: list_induct2) auto

lemma js_less_map:
  "(\<And>x y. x \<in> A \<Longrightarrow> y \<in> A \<Longrightarrow> f x < f y \<longleftrightarrow> x < y) \<Longrightarrow> set xs \<subseteq> A \<Longrightarrow> set ys \<subseteq> A \<Longrightarrow>
     js_less (map f xs) (map f ys) \<longleftrightarrow> js_less xs ys"
  by (induction xs ys rule: js_less.induct) auto

subsection \<open>Digits\<close>

text \<open>\<open>n.toString(base)\<close> for a natural number, most significant digit first.\<close>

function number_digits :: "nat \<Rightarrow> nat \<Rightarrow> nat list" where
  "number_digits base n =
     (if n < base \<or> base < 2 then [n] else number_digits base (n div base) @ [n mod base])"
  by pat_completeness auto
termination by (relation "measure (\<lambda>(_, n). n)") (auto simp: not_less)

declare number_digits.simps [simp del]

definition digit_char :: "nat \<Rightarrow> code_unit" where
  "digit_char d = (if d < 10 then of_nat (48 + d) else of_nat (87 + d))"

definition padStart :: "nat \<Rightarrow> 'a \<Rightarrow> 'a list \<Rightarrow> 'a list" where
  "padStart n c xs = replicate (n - length xs) c @ xs"

definition hex_text :: "nat \<Rightarrow> nat \<Rightarrow> ustring" where
  "hex_text width n = padStart width (digit_char 0) (map digit_char (number_digits 16 n))"

definition utf16CodeUnitSortKey :: "ustring \<Rightarrow> ustring" where
  "utf16CodeUnitSortKey value = concat (map (\<lambda>u. hex_text 4 (unat u)) value)"

lemma unat_of_nat16: "n < 65536 \<Longrightarrow> unat (of_nat n :: code_unit) = n"
  by (simp add: unat_of_nat take_bit_nat_eq_self)

lemma unat_digit_char: "d < 16 \<Longrightarrow> unat (digit_char d) = (if d < 10 then 48 + d else 87 + d)"
  unfolding digit_char_def using unat_of_nat16 [of "48 + d"] unat_of_nat16 [of "87 + d"]
  by (cases "d < 10") (simp_all del: of_nat_add)

lemma digit_char_less: "a < 16 \<Longrightarrow> b < 16 \<Longrightarrow> digit_char a < digit_char b \<longleftrightarrow> a < b"
  by (auto simp: word_less_nat_alt unat_digit_char)

text \<open>The digits of a number below \<open>16 ^ k\<close>, padded to \<open>k\<close> of them.\<close>

fun fixed_digits :: "nat \<Rightarrow> nat \<Rightarrow> nat list" where
  "fixed_digits 0 n = []"
| "fixed_digits (Suc k) n = fixed_digits k (n div 16) @ [n mod 16]"

lemma fixed_digits_basics [simp]: "length (fixed_digits k n) = k" "set (fixed_digits k n) \<subseteq> {..<16}"
  by (induction k arbitrary: n) auto

lemma fixed_digits_0: "fixed_digits k 0 = replicate k 0"
  by (induction k) (auto simp: replicate_append_same)

lemma fixed_digits_pad: "0 < k \<Longrightarrow> n < 16 ^ k \<Longrightarrow> fixed_digits k n = padStart k 0 (number_digits 16 n)"
proof (induction k arbitrary: n)
  case (Suc k)
  show ?case
  proof (cases "n < 16")
    case True
    then show ?thesis
      by (simp add: number_digits.simps [of 16 n] fixed_digits_0 padStart_def)
  next
    case False
    then have "0 < k" using Suc.prems by (cases k) auto
    moreover have "n div 16 < 16 ^ k" using Suc.prems by (simp add: less_mult_imp_div_less mult.commute)
    ultimately have "fixed_digits k (n div 16) = padStart k 0 (number_digits 16 (n div 16))" using Suc.IH by blast
    then show ?thesis
      using False by (simp add: number_digits.simps [of 16 n] padStart_def)
  qed
qed simp

lemma fixed_digits_less:
  "m < 16 ^ k \<Longrightarrow> n < 16 ^ k \<Longrightarrow> js_less (fixed_digits k m) (fixed_digits k n) \<longleftrightarrow> m < n"
proof (induction k arbitrary: m n)
  case (Suc k)
  have "m div 16 < 16 ^ k" "n div 16 < 16 ^ k"
    using Suc.prems by (simp_all add: less_mult_imp_div_less mult.commute)
  note IH = Suc.IH [OF this] Suc.IH [OF this(2,1)]
  have eq: "fixed_digits k (m div 16) = fixed_digits k (n div 16) \<longleftrightarrow> m div 16 = n div 16"
    using IH js_less_linear [of "fixed_digits k (m div 16)" "fixed_digits k (n div 16)"] by auto
  have "m = 16 * (m div 16) + m mod 16" "n = 16 * (n div 16) + n mod 16" "m mod 16 < 16" "n mod 16 < 16"
    by simp_all
  then have "m < n \<longleftrightarrow> m div 16 < n div 16 \<or> m div 16 = n div 16 \<and> m mod 16 < n mod 16"
    by linarith
  then show ?case using IH eq by (simp add: js_less_append)
qed simp

lemma hex_text_fixed: "0 < k \<Longrightarrow> n < 16 ^ k \<Longrightarrow> hex_text k n = map digit_char (fixed_digits k n)"
  by (simp add: hex_text_def fixed_digits_pad padStart_def)

lemma hex_text_less:
  assumes "0 < k" and "m < 16 ^ k" and "n < 16 ^ k"
  shows "js_less (hex_text k m) (hex_text k n) \<longleftrightarrow> m < n"
proof -
  have "js_less (map digit_char (fixed_digits k m)) (map digit_char (fixed_digits k n)) \<longleftrightarrow>
      js_less (fixed_digits k m) (fixed_digits k n)"
    by (rule js_less_map [where A = "{..<16}"]) (auto simp: digit_char_less)
  then show ?thesis using assms by (simp add: hex_text_fixed fixed_digits_less)
qed

lemma hex_text_inject:
  "0 < k \<Longrightarrow> m < 16 ^ k \<Longrightarrow> n < 16 ^ k \<Longrightarrow> hex_text k m = hex_text k n \<longleftrightarrow> m = n"
  using hex_text_less [of k m n] hex_text_less [of k n m] by (metis js_less_irrefl linorder_neqE_nat)

lemma length_hex_text [simp]: "0 < k \<Longrightarrow> n < 16 ^ k \<Longrightarrow> length (hex_text k n) = k"
  by (simp add: hex_text_fixed)

lemma unit_hex [simp]:
  "length (hex_text 4 (unat (u :: code_unit))) = 4"
  "js_less (hex_text 4 (unat u)) (hex_text 4 (unat (v :: code_unit))) \<longleftrightarrow> u < v"
  "hex_text 4 (unat u) = hex_text 4 (unat v) \<longleftrightarrow> u = v"
proof -
  have lt: "unat w < 16 ^ 4" for w :: code_unit using unsigned_less [of w, where ?'a = nat] by simp
  show "length (hex_text 4 (unat u)) = 4" using length_hex_text [OF _ lt] by simp
  show "js_less (hex_text 4 (unat u)) (hex_text 4 (unat v)) \<longleftrightarrow> u < v"
    using hex_text_less [OF _ lt lt] by (simp add: word_less_nat_alt)
  show "hex_text 4 (unat u) = hex_text 4 (unat v) \<longleftrightarrow> u = v"
    using hex_text_inject [OF _ lt lt] by (simp add: word_unat_eq_iff)
qed

lemma sort_key_less: "js_less (utf16CodeUnitSortKey a) (utf16CodeUnitSortKey b) \<longleftrightarrow> js_less a b"
proof (induction a b rule: js_less.induct)
  case (1 xs)
  then show ?case by (simp add: utf16CodeUnitSortKey_def)
next
  case (2 y ys)
  have "hex_text 4 (unat y) \<noteq> []" by (metis unit_hex(1) length_0_conv zero_neq_numeral)
  then show ?case by (cases "hex_text 4 (unat y)") (auto simp: utf16CodeUnitSortKey_def)
next
  case (3 x xs y ys)
  then show ?case by (auto simp: utf16CodeUnitSortKey_def js_less_append)
qed

text \<open>
  \<open>Array.sort\<close> with this comparator: \<open>sort\<close> is stable, and so is \<open>sort_key\<close> of the library for
  the lexicographic order of lists.
\<close>

definition sort_utf16 :: "('a \<Rightarrow> ustring) \<Rightarrow> 'a list \<Rightarrow> 'a list" where
  "sort_utf16 key xs = sort_key key xs"

lemma sort_utf16_sorted: "sorted_wrt (\<lambda>x y. compareUtf16CodeUnits (key x) (key y) \<le> 0) (sort_utf16 key xs)"
proof -
  have "compareUtf16CodeUnits a b \<le> 0 \<longleftrightarrow> a \<le> b" for a b
    by (auto simp: compareUtf16CodeUnits_def js_less_iff)
  then show ?thesis
    using sorted_sort_key [of key xs] by (simp add: sort_utf16_def sorted_map)
qed

lemma sort_utf16_perm: "mset (sort_utf16 key xs) = mset xs"
  by (simp add: sort_utf16_def)

lemma set_sort_utf16 [simp]: "set (sort_utf16 key xs) = set xs"
  by (simp add: sort_utf16_def)

lemma distinct_map_mset: "mset xs = mset ys \<Longrightarrow> distinct (map f xs) \<longleftrightarrow> distinct (map f ys)"
  by (rule mset_eq_imp_distinct_iff) simp

lemma distinct_sort_utf16 [simp]: "distinct (map f (sort_utf16 key xs)) \<longleftrightarrow> distinct (map f xs)"
  by (rule distinct_map_mset) (simp add: sort_utf16_perm)

lemma sort_utf16_unique:
  "inj_on key (set xs) \<Longrightarrow> mset xs = mset ys \<Longrightarrow> sort_utf16 key xs = sort_utf16 key ys"
  unfolding sort_utf16_def by (rule sort_key_inj_key_eq) simp_all

lemma of_char_16: "of_char c = (of_char d :: code_unit) \<longleftrightarrow> c = d"
proof
  assume "of_char c = (of_char d :: code_unit)"
  then have "(of_nat (of_char c) :: code_unit) = of_nat (of_char d)" by (simp only: of_nat_of_char)
  moreover have "(of_char e :: nat) < 65536" for e
  proof -
    have "(of_char e :: nat) mod 256 < 256" by (rule mod_less_divisor) simp
    then have "(of_char e :: nat) < 256" by (simp only: of_char_mod_256)
    then show ?thesis by linarith
  qed
  ultimately have "(of_char c :: nat) = of_char d" using unat_of_nat16 by metis
  then show "c = d" by simp
qed simp

lemma ascii_inject: "ascii s = ascii t \<longleftrightarrow> s = t"
  by (simp add: ascii_def inj_map_eq_map inj_def of_char_16)

subsection \<open>White space\<close>

text \<open>White space and line terminators, as \<open>trim\<close> strips them.\<close>

definition js_space :: "code_unit \<Rightarrow> bool" where
  "js_space u \<longleftrightarrow> u \<in> {9, 10, 11, 12, 13, 32, 160, 5760, 8232, 8233, 8239, 8287, 12288, 65279} \<or> 8192 \<le> u \<and> u \<le> 8202"

definition js_trim :: "ustring \<Rightarrow> ustring" where
  "js_trim s = rev (dropWhile js_space (rev (dropWhile js_space s)))"

subsection \<open>UTF-8\<close>

text \<open>
  \<open>TextEncoder.encode\<close>: a surrogate pair is one scalar value, a lone surrogate is replaced by
  \<open>U+FFFD\<close>.
\<close>

definition high_surrogate :: "code_unit \<Rightarrow> bool" where
  "high_surrogate u \<longleftrightarrow> 0xD800 \<le> u \<and> u \<le> 0xDBFF"

definition low_surrogate :: "code_unit \<Rightarrow> bool" where
  "low_surrogate u \<longleftrightarrow> 0xDC00 \<le> u \<and> u \<le> 0xDFFF"

fun scalar_values :: "ustring \<Rightarrow> nat list" where
  "scalar_values [] = []"
| "scalar_values [u] = [if high_surrogate u \<or> low_surrogate u then 0xFFFD else unat u]"
| "scalar_values (u # v # us) =
     (if high_surrogate u \<and> low_surrogate v
      then (0x10000 + (unat u - 0xD800) * 0x400 + (unat v - 0xDC00)) # scalar_values us
      else (if high_surrogate u \<or> low_surrogate u then 0xFFFD else unat u) # scalar_values (v # us))"

definition utf8_scalar :: "nat \<Rightarrow> byte list" where
  "utf8_scalar c =
     (if c < 0x80 then [of_nat c]
      else if c < 0x800 then [of_nat (0xC0 + c div 64), of_nat (0x80 + c mod 64)]
      else if c < 0x10000
      then [of_nat (0xE0 + c div 4096), of_nat (0x80 + c div 64 mod 64), of_nat (0x80 + c mod 64)]
      else [of_nat (0xF0 + c div 262144), of_nat (0x80 + c div 4096 mod 64),
            of_nat (0x80 + c div 64 mod 64), of_nat (0x80 + c mod 64)])"

definition utf8 :: "ustring \<Rightarrow> byte list" where
  "utf8 s = concat (map utf8_scalar (scalar_values s))"

text \<open>Strings without lone surrogates.\<close>

fun well_formed :: "ustring \<Rightarrow> bool" where
  "well_formed [] \<longleftrightarrow> True"
| "well_formed [u] \<longleftrightarrow> \<not> high_surrogate u \<and> \<not> low_surrogate u"
| "well_formed (u # v # us) \<longleftrightarrow>
     (if high_surrogate u \<and> low_surrogate v then well_formed us
      else \<not> high_surrogate u \<and> \<not> low_surrogate u \<and> well_formed (v # us))"

text \<open>The inverse: a UTF-8 sequence off the front of the bytes.\<close>

definition utf8_parser :: "(unit, nat) parser" where
  "utf8_parser bs =
     (case bs of
        [] \<Rightarrow> Inr None
      | b # r \<Rightarrow>
          if unat b < 0x80 then Inr (Some (unat b, r))
          else if unat b < 0xE0
          then (case r of
                  c # r' \<Rightarrow> Inr (Some ((unat b - 0xC0) * 64 + (unat c - 0x80), r'))
                | _ \<Rightarrow> Inr None)
          else if unat b < 0xF0
          then (case r of
                  c # d # r' \<Rightarrow>
                    Inr (Some ((unat b - 0xE0) * 4096 + (unat c - 0x80) * 64 + (unat d - 0x80), r'))
                | _ \<Rightarrow> Inr None)
          else (case r of
                  c # d # e # r' \<Rightarrow>
                    Inr (Some ((unat b - 0xF0) * 262144 + (unat c - 0x80) * 4096 + (unat d - 0x80) * 64
                      + (unat e - 0x80), r'))
                | _ \<Rightarrow> Inr None))"

lemma unat_byte: "n < 256 \<Longrightarrow> unat (of_nat n :: byte) = n"
  by (simp add: unat_of_nat take_bit_nat_eq_self)

lemma split64: "(c :: nat) div 4096 * 4096 + c div 64 mod 64 * 64 + c mod 64 = c"
  "(c :: nat) div 262144 * 262144 + c div 4096 mod 64 * 4096 + c div 64 mod 64 * 64 + c mod 64 = c"
proof -
  have 1: "c div 64 = c div 4096 * 64 + c div 64 mod 64"
    using div_mult_mod_eq [of "c div 64" 64] by (simp add: div_mult2_eq [symmetric])
  have 2: "c div 4096 = c div 262144 * 64 + c div 4096 mod 64"
    using div_mult_mod_eq [of "c div 4096" 64] by (simp add: div_mult2_eq [symmetric])
  have 0: "c = c div 64 * 64 + c mod 64" by simp
  show "c div 4096 * 4096 + c div 64 mod 64 * 64 + c mod 64 = c"
    using 0 1 by linarith
  show "c div 262144 * 262144 + c div 4096 mod 64 * 4096 + c div 64 mod 64 * 64 + c mod 64 = c"
    using 0 1 2 by linarith
qed

lemma utf8_parse_scalar: "c < 0x110000 \<Longrightarrow> utf8_parser (utf8_scalar c @ r) = Inr (Some (c, r))"
proof -
  assume c: "c < 0x110000"
  consider "c < 0x80" | "0x80 \<le> c" "c < 0x800" | "0x800 \<le> c" "c < 0x10000" | "0x10000 \<le> c" by linarith
  then show ?thesis
  proof cases
    case 1
    then show ?thesis by (simp add: utf8_scalar_def utf8_parser_def unat_byte)
  next
    case 2
    have "c div 64 < 32" using 2 by simp
    then show ?thesis
      using 2 unat_byte [of "0xC0 + c div 64"] unat_byte [of "0x80 + c mod 64"]
      by (simp del: of_nat_add add: utf8_scalar_def utf8_parser_def)
  next
    case 3
    have "c div 4096 < 16" using 3 by simp
    then show ?thesis
      using 3 unat_byte [of "0xE0 + c div 4096"] unat_byte [of "0x80 + c div 64 mod 64"] unat_byte [of "0x80 + c mod 64"]
        split64(1) [of c]
      by (simp del: of_nat_add add: utf8_scalar_def utf8_parser_def)
  next
    case 4
    have lt: "x mod 64 < 128" for x :: nat using mod_less_divisor [of 64 x] by linarith
    have "c div 262144 < 8" using c by simp
    then show ?thesis
      using 4 lt unat_byte [of "0xF0 + c div 262144"] unat_byte [of "0x80 + c div 4096 mod 64"]
        unat_byte [of "0x80 + c div 64 mod 64"] unat_byte [of "0x80 + c mod 64"] split64(2) [of c]
      by (simp del: of_nat_add add: utf8_scalar_def utf8_parser_def)
  qed
qed

interpretation utf8: frame_format utf8_scalar utf8_parser "\<lambda>c. c < 0x110000"
proof
  fix m r assume "m < (0x110000 :: nat)"
  then show "utf8_parser (utf8_scalar m @ r) = Inr (Some (m, r))" by (rule utf8_parse_scalar)
qed (auto simp: utf8_parser_def split: list.splits if_splits)

lemma surrogate_bounds:
  "high_surrogate u \<longleftrightarrow> 0xD800 \<le> unat u \<and> unat u \<le> 0xDBFF"
  "low_surrogate u \<longleftrightarrow> 0xDC00 \<le> unat u \<and> unat u \<le> 0xDFFF"
  by (simp_all add: high_surrogate_def low_surrogate_def word_le_nat_alt)

lemma unit_bound: "unat (u :: code_unit) < 65536"
  using unsigned_less [of u, where ?'a = nat] by simp

lemma scalar_values_bound: "c \<in> set (scalar_values s) \<Longrightarrow> c < 0x110000"
proof (induction s rule: scalar_values.induct)
  case (2 u)
  then show ?case using unit_bound [of u] by (auto split: if_splits)
next
  case (3 u v us)
  then show ?case
    using unit_bound [of u] by (auto simp: surrogate_bounds split: if_splits)
qed simp

text \<open>The code units of a scalar value.\<close>

definition scalar_units :: "nat \<Rightarrow> ustring" where
  "scalar_units c =
     (if c < 0x10000 then [of_nat c]
      else [of_nat (0xD800 + (c - 0x10000) div 0x400), of_nat (0xDC00 + (c - 0x10000) mod 0x400)])"

lemma scalar_units_values: "well_formed s \<Longrightarrow> concat (map scalar_units (scalar_values s)) = s"
proof (induction s rule: scalar_values.induct)
  case (2 u)
  then show ?case using unit_bound [of u] by (simp add: scalar_units_def)
next
  case (3 u v us)
  show ?case
  proof (cases "high_surrogate u \<and> low_surrogate v")
    case True
    define b where "b = unat v - 0xDC00"
    have "unat v = 0xDC00 + b" "b < 0x400" using True by (auto simp: b_def surrogate_bounds)
    moreover have "0xD800 \<le> unat u" using True by (simp add: surrogate_bounds)
    ultimately have "scalar_units (0x10000 + (unat u - 0xD800) * 0x400 + (unat v - 0xDC00)) =
        [of_nat (0xD800 + (unat u - 0xD800)), of_nat (0xDC00 + b)]"
      by (simp del: of_nat_add add: scalar_units_def)
    also have "\<dots> = [u, v]"
      using \<open>unat v = 0xDC00 + b\<close> [symmetric] \<open>0xD800 \<le> unat u\<close> by (simp del: of_nat_add)
    finally have "scalar_units (0x10000 + (unat u - 0xD800) * 0x400 + (unat v - 0xDC00)) = [u, v]" .
    then show ?thesis using 3 True by simp
  next
    case False
    then show ?thesis using 3 unit_bound [of u] by (auto simp: scalar_units_def split: if_splits)
  qed
qed simp

lemma utf8_scalar_values: "utf8 s = utf8 t \<longleftrightarrow> scalar_values s = scalar_values t"
proof
  assume eq: "utf8 s = utf8 t"
  have parse: "parse_all utf8_parser (utf8 x) = (scalar_values x, None, [])" for x
    using utf8.parse_all_encoded [of "scalar_values x" "[]"] scalar_values_bound utf8.parse_all_stop(2) [of "[]"]
    by (simp add: utf8_def utf8_parser_def)
  show "scalar_values s = scalar_values t"
    using parse [of s] parse [of t] eq by simp
qed (simp add: utf8_def)

lemma utf8_inject: "well_formed s \<Longrightarrow> well_formed t \<Longrightarrow> utf8 s = utf8 t \<longleftrightarrow> s = t"
  by (metis utf8_scalar_values scalar_units_values)

section \<open>Properties\<close>

text \<open>
  The sort key orders as the strings do. For any two strings, surrogates included, comparing
  their ASCII keys gives what comparing them by code units gives, so an index that sorts the
  keys bytewise sorts the strings canonically; distinct strings have distinct keys, and a key has
  four characters per code unit. The comparison itself is a total order: antisymmetric and zero
  only on equal strings.
\<close>

theorem sort_key_preserves_order:
  shows "compareUtf16CodeUnits (utf16CodeUnitSortKey a) (utf16CodeUnitSortKey b) = compareUtf16CodeUnits a b \<and>
    (utf16CodeUnitSortKey a = utf16CodeUnitSortKey b \<longleftrightarrow> a = b) \<and>
    length (utf16CodeUnitSortKey a) = 4 * length a \<and>
    compareUtf16CodeUnits b a = - compareUtf16CodeUnits a b \<and>
    (compareUtf16CodeUnits a b = 0 \<longleftrightarrow> a = b)"
proof -
  have "length (utf16CodeUnitSortKey a) = 4 * length a"
    by (induction a) (simp_all add: utf16CodeUnitSortKey_def)
  moreover have "utf16CodeUnitSortKey a = utf16CodeUnitSortKey b \<longleftrightarrow> a = b"
    using sort_key_less js_less_linear js_less_irrefl by metis
  ultimately show ?thesis
    using js_less_linear [of a b]
    by (auto simp: compareUtf16CodeUnits_def sort_key_less [unfolded js_less_iff] js_less_iff)
qed

end
