(* ===== verification/EntityCache.thy ===== *)
theory EntityCache
  imports Prelude Utf16
begin

text \<open>
  The host-side mirror of the active runtime entities
  (\<^verbatim>\<open>packages/shared/src/runtime/entityCache.ts\<close>): the cached records, the bootstrap
  records that outlive a hydration, the revision of the last change of each id, and the
  registered change listeners with the calls they received. A fenced hydration installs a
  snapshot that was requested at an earlier revision without losing later changes.
\<close>

subsection \<open>Entity records\<close>

text \<open>
  The kinds, the source and the fields of \<^verbatim>\<open>EntityRecord\<close> that the modelled code reads.
  The authority manifest is opaque to this code, which only tests its presence; it is kept
  as its serialised text. Context ids are strings of code units, the other ids byte strings.
  \<open>contextId\<close> is an option because the look-ups handle its
  absence (\<open>?? null\<close>).
\<close>

datatype entity_kind = Panel | Client | Worker | DO | Session | Shell | Server

datatype entity_status = Preparing | Active | Retired

record entity_source =
  repoPath :: string
  effectiveVersion :: string

record agent_binding =
  ab_entityId :: string
  ab_contextId :: ustring
  ab_channelId :: string

record entity_record =
  er_id :: string
  er_kind :: entity_kind
  er_source :: entity_source
  activeBuildKey :: "string option"
  activeExecutionDigest :: "string option"
  activeAuthority :: "string option"
  contextId :: "ustring option"
  className :: "string option"
  er_key :: string
  agentBinding :: "agent_binding option"
  createdAt :: int
  authoritySessionId :: "string option"
  er_status :: entity_status
  cleanupComplete :: bool

datatype entity_change = ChActivate | ChRetire | ChDelete | ChInvalidate

subsection \<open>The cache\<close>

text \<open>
  \<open>ec_calls\<close> is the log of listener calls \<open>(listener, id, change)\<close>, newest last.
\<close>

record entity_cache =
  records :: "(string, entity_record) jsmap"
  bootstrapRecords :: "(string, entity_record) jsmap"
  recordRevisions :: "(string, nat) jsmap"
  listeners :: "nat list"
  revision :: nat
  ec_calls :: "(nat \<times> string \<times> entity_change) list"

definition empty_cache :: entity_cache where
  "empty_cache = \<lparr>records = [], bootstrapRecords = [], recordRevisions = [], listeners = [],
     revision = 0, ec_calls = []\<rparr>"

definition beginHydration :: "entity_cache \<Rightarrow> nat" where
  "beginHydration c = revision c"

text \<open>\<open>for (const record of records) map.set(record.id, record)\<close>.\<close>

definition install :: "entity_record list \<Rightarrow> (string, entity_record) jsmap \<Rightarrow> (string, entity_record) jsmap" where
  "install rs m = jset_all (map (\<lambda>r. (er_id r, r)) rs) m"

definition by_id :: "entity_record list \<Rightarrow> (string, entity_record) jsmap" where
  "by_id rs = install rs []"

definition revision_of :: "entity_cache \<Rightarrow> string \<Rightarrow> nat" where
  "revision_of c i = (case map_of (recordRevisions c) i of None \<Rightarrow> 0 | Some n \<Rightarrow> n)"

text \<open>The ids a fenced hydration visits: those cached, then those of the snapshot.\<close>

definition hydrate_fenced ::
  "entity_cache \<Rightarrow> entity_record list \<Rightarrow> nat \<Rightarrow> (string, entity_record) jsmap" where
  "hydrate_fenced c rs fence =
     (let snapshot = by_id rs;
          ids = new_set (jkeys (records c) @ jkeys snapshot)
      in fold (\<lambda>i m. if revision_of c i > fence then m
                     else case map_of snapshot i of Some r \<Rightarrow> jset i r m | None \<Rightarrow> jdel i m)
           ids (records c))"

definition hydrate :: "entity_cache \<Rightarrow> entity_record list \<Rightarrow> nat option \<Rightarrow> entity_cache" where
  "hydrate c rs fence =
     (let base = (case fence of None \<Rightarrow> by_id rs | Some f \<Rightarrow> hydrate_fenced c rs f)
      in c\<lparr>records := install (jvalues (bootstrapRecords c)) base\<rparr>)"

definition ec_emit :: "string \<Rightarrow> entity_change \<Rightarrow> entity_cache \<Rightarrow> entity_cache" where
  "ec_emit i ch c = c\<lparr>ec_calls := ec_calls c @ map (\<lambda>l. (l, i, ch)) (listeners c)\<rparr>"

definition bump_revision :: "string \<Rightarrow> entity_cache \<Rightarrow> entity_cache" where
  "bump_revision i c = c\<lparr>revision := Suc (revision c),
     recordRevisions := jset i (Suc (revision c)) (recordRevisions c)\<rparr>"

definition onActivate :: "entity_record \<Rightarrow> entity_cache \<Rightarrow> entity_cache" where
  "onActivate r c =
     ec_emit (er_id r) ChActivate (bump_revision (er_id r)
       (c\<lparr>bootstrapRecords := jdel (er_id r) (bootstrapRecords c),
          records := jset (er_id r) r (records c)\<rparr>))"

definition onRetire :: "entity_record \<Rightarrow> entity_cache \<Rightarrow> entity_cache" where
  "onRetire r c =
     ec_emit (er_id r) ChRetire (bump_revision (er_id r) (c\<lparr>records := jset (er_id r) r (records c)\<rparr>))"

definition onDelete :: "string \<Rightarrow> entity_cache \<Rightarrow> entity_cache" where
  "onDelete i c =
     ec_emit i ChDelete (bump_revision i
       (c\<lparr>bootstrapRecords := jdel i (bootstrapRecords c), records := jdel i (records c)\<rparr>))"

definition invalidate :: "string \<Rightarrow> entity_cache \<Rightarrow> entity_cache" where
  "invalidate i c =
     ec_emit i ChInvalidate (bump_revision i
       (c\<lparr>bootstrapRecords := jdel i (bootstrapRecords c), records := jdel i (records c)\<rparr>))"

subsection \<open>Look-ups\<close>

definition resolve :: "entity_cache \<Rightarrow> string \<Rightarrow> entity_record option" where
  "resolve c i = map_of (records c) i"

definition resolveActive :: "entity_cache \<Rightarrow> string \<Rightarrow> entity_record option" where
  "resolveActive c i =
     (case map_of (records c) i of
        None \<Rightarrow> None
      | Some r \<Rightarrow> if er_status r \<noteq> Active then None else Some r)"

definition resolveActiveBySource :: "entity_cache \<Rightarrow> string \<Rightarrow> entity_record option" where
  "resolveActiveBySource c path =
     find (\<lambda>r. er_status r = Active \<and> repoPath (er_source r) = path) (jvalues (records c))"

definition resolveContext :: "entity_cache \<Rightarrow> string \<Rightarrow> ustring option" where
  "resolveContext c i = Option.bind (resolveActive c i) contextId"

definition resolveSource :: "entity_cache \<Rightarrow> string \<Rightarrow> entity_source option" where
  "resolveSource c i = map_option er_source (resolveActive c i)"

definition resolveKind :: "entity_cache \<Rightarrow> string \<Rightarrow> entity_kind option" where
  "resolveKind c i = map_option er_kind (resolveActive c i)"

definition sealed_incarnation :: "entity_record \<Rightarrow> bool" where
  "sealed_incarnation r \<longleftrightarrow>
     truthy (activeBuildKey r) \<and> truthy (activeExecutionDigest r) \<and> activeAuthority r \<noteq> None"

definition listExecutionOwners :: "entity_cache \<Rightarrow> entity_record list" where
  "listExecutionOwners c =
     filter (\<lambda>r. er_status r \<noteq> Retired \<and> er_kind r \<noteq> Client \<and> sealed_incarnation r)
       (jvalues (records c))"

definition listActive :: "entity_cache \<Rightarrow> entity_record list" where
  "listActive c = filter (\<lambda>r. er_status r = Active) (jvalues (records c))"

subsection \<open>Bootstrap registrations and listeners\<close>

text \<open>
  The records they make. \<open>now\<close> is \<open>Date.now()\<close>; \<open>session\<close> the fresh \<open>crypto.randomUUID()\<close>.
\<close>

definition bootstrap_entry ::
  "string \<Rightarrow> entity_kind \<Rightarrow> entity_source option \<Rightarrow> ustring option \<Rightarrow> int \<Rightarrow> entity_record" where
  "bootstrap_entry i k src ctx now =
     \<lparr>er_id = i, er_kind = k,
      er_source = (case src of None \<Rightarrow> \<lparr>repoPath = [], effectiveVersion = []\<rparr> | Some s \<Rightarrow> s),
      activeBuildKey = None, activeExecutionDigest = None, activeAuthority = None,
      contextId = Some (case ctx of None \<Rightarrow> [] | Some x \<Rightarrow> x), className = None, er_key = i,
      agentBinding = None, createdAt = now, authoritySessionId = None,
      er_status = Active, cleanupComplete = True\<rparr>"

definition bootstrap_service_entry ::
  "string \<Rightarrow> entity_source \<Rightarrow> string \<Rightarrow> string \<Rightarrow> string \<Rightarrow> ustring \<Rightarrow> string \<Rightarrow> string \<Rightarrow>
   string \<Rightarrow> int \<Rightarrow> entity_record" where
  "bootstrap_service_entry i src bk dig auth ctx cls k session now =
     \<lparr>er_id = i, er_kind = DO, er_source = src,
      activeBuildKey = Some bk, activeExecutionDigest = Some dig, activeAuthority = Some auth,
      contextId = Some ctx, className = Some cls, er_key = k,
      agentBinding = None, createdAt = now, authoritySessionId = Some session,
      er_status = Active, cleanupComplete = True\<rparr>"

lemma entry_id [simp]:
  "er_id (bootstrap_entry i k src ctx now) = i"
  "er_id (bootstrap_service_entry i s bk dig auth cx cls ky session now) = i"
  by (simp_all add: bootstrap_entry_def bootstrap_service_entry_def)

definition registerBootstrap ::
  "string \<Rightarrow> entity_kind \<Rightarrow> entity_source option \<Rightarrow> ustring option \<Rightarrow> int \<Rightarrow> entity_cache \<Rightarrow> entity_cache" where
  "registerBootstrap i k src ctx now c =
     ec_emit i ChActivate (bump_revision i
       (c\<lparr>records := jset i (bootstrap_entry i k src ctx now) (records c)\<rparr>))"

definition registerBootstrapEntity ::
  "string \<Rightarrow> entity_source \<Rightarrow> string \<Rightarrow> string \<Rightarrow> string \<Rightarrow> ustring \<Rightarrow> string \<Rightarrow> string \<Rightarrow>
   string \<Rightarrow> int \<Rightarrow> entity_cache \<Rightarrow> entity_cache" where
  "registerBootstrapEntity i src bk dig auth ctx cls k session now c =
     (let entry = bootstrap_service_entry i src bk dig auth ctx cls k session now
      in ec_emit i ChActivate (bump_revision i
           (c\<lparr>bootstrapRecords := jset i entry (bootstrapRecords c),
              records := jset i entry (records c)\<rparr>)))"

definition onChange :: "nat \<Rightarrow> entity_cache \<Rightarrow> entity_cache" where
  "onChange l c = c\<lparr>listeners := (if l \<in> set (listeners c) then listeners c else listeners c @ [l])\<rparr>"

definition offChange :: "nat \<Rightarrow> entity_cache \<Rightarrow> entity_cache" where
  "offChange l c = c\<lparr>listeners := removeAll l (listeners c)\<rparr>"

definition ec_clear :: "entity_cache \<Rightarrow> entity_cache" where
  "ec_clear c = c\<lparr>records := [], bootstrapRecords := [], recordRevisions := [], revision := 0\<rparr>"

definition callerRuntimeContextId :: "entity_cache \<Rightarrow> string \<Rightarrow> ustring option" where
  "callerRuntimeContextId c i =
     (case resolveContext c i of
        Some x \<Rightarrow> Some x
      | None \<Rightarrow> Option.bind (resolveActive c i) (\<lambda>r. map_option ab_contextId (agentBinding r)))"

definition callerBuildContextId :: "entity_cache \<Rightarrow> string \<Rightarrow> ustring option" where
  "callerBuildContextId c i =
     (if map_option er_kind (resolveActive c i) = Some Client then None
      else callerRuntimeContextId c i)"

lemmas entity_cache_ops =
  onActivate_def onRetire_def onDelete_def invalidate_def registerBootstrap_def
  registerBootstrapEntity_def ec_emit_def bump_revision_def onChange_def offChange_def

subsection \<open>Well-formed caches\<close>

text \<open>Both record maps are keyed by the record's own id and have no duplicate key.\<close>

definition keyed :: "(string, entity_record) jsmap \<Rightarrow> bool" where
  "keyed m \<longleftrightarrow> jwf m \<and> (\<forall>i r. map_of m i = Some r \<longrightarrow> er_id r = i)"

definition cache_wf :: "entity_cache \<Rightarrow> bool" where
  "cache_wf c \<longleftrightarrow> keyed (records c) \<and> keyed (bootstrapRecords c) \<and> jwf (recordRevisions c)
     \<and> (\<forall>i n. map_of (recordRevisions c) i = Some n \<longrightarrow> 0 < n \<and> n \<le> revision c)"

lemma keyed_Nil [simp]: "keyed []"
  by (simp add: keyed_def)

lemma keyed_jset [simp]: "keyed m \<Longrightarrow> keyed (jset (er_id r) r m)"
  by (auto simp: keyed_def)

lemma keyed_jset': "keyed m \<Longrightarrow> er_id r = i \<Longrightarrow> keyed (jset i r m)"
  by auto

lemma keyed_jdel [simp]: "keyed m \<Longrightarrow> keyed (jdel i m)"
  by (auto simp: keyed_def)

lemma keyed_install [simp]: "keyed m \<Longrightarrow> keyed (install rs m)"
  by (induction rs arbitrary: m) (auto simp: install_def)

lemma keyed_by_id [simp]: "keyed (by_id rs)"
  by (simp add: by_id_def)

lemma keyed_id: "keyed m \<Longrightarrow> map_of m i = Some r \<Longrightarrow> er_id r = i"
  by (simp add: keyed_def)

lemma jget_keyed_all:
  "map_of (install rs m) i =
     (case find (\<lambda>r. er_id r = i) (rev rs) of None \<Rightarrow> map_of m i | Some r \<Rightarrow> Some r)"
  by (simp add: install_def jget_jset_all rev_map map_of_map_key)

lemma jget_by_id: "map_of (by_id rs) i = find (\<lambda>r. er_id r = i) (rev rs)"
  by (simp add: by_id_def jget_keyed_all split: option.splits)

lemma find_keyed_values:
  "keyed m \<Longrightarrow> find (\<lambda>r. er_id r = i) (rev (jvalues m)) = map_of m i"
proof -
  assume k: "keyed m"
  then have inj: "\<And>r. r \<in> set (jvalues m) \<Longrightarrow> er_id r = i \<Longrightarrow> map_of m i = Some r"
    by (auto simp: keyed_def jget_mem)
  show ?thesis
  proof (cases "find (\<lambda>r. er_id r = i) (rev (jvalues m))")
    case None
    then have "\<forall>r \<in> set (jvalues m). er_id r \<noteq> i"
      by (simp add: find_NoneD)
    then have "map_of m i = None"
      using k by (metis imageI jget_memD keyed_id option.exhaust set_map snd_conv)
    with None show ?thesis by simp
  next
    case (Some r)
    then have "r \<in> set (jvalues m)" and "er_id r = i"
      using find_SomeD by fastforce+
    then show ?thesis using inj Some by simp
  qed
qed

lemma hydrate_step_other:
  "i \<notin> set ids \<Longrightarrow>
   map_of (fold (\<lambda>j m. if R j then m else case S j of Some r \<Rightarrow> jset j r m | None \<Rightarrow> jdel j m) ids m) i
     = map_of m i"
  by (induction ids arbitrary: m) (auto split: option.splits)

lemma hydrate_fold:
  "map_of (fold (\<lambda>j m. if R j then m else case S j of Some r \<Rightarrow> jset j r m | None \<Rightarrow> jdel j m) ids m) i
     = (if i \<in> set ids \<and> \<not> R i then S i else map_of m i)"
proof (induction ids arbitrary: m)
  case (Cons j ids)
  then show ?case by (auto split: option.splits)
qed simp

lemma jget_hydrate_fenced:
  "map_of (hydrate_fenced c rs f) i =
     (if revision_of c i > f then map_of (records c) i else map_of (by_id rs) i)"
proof -
  have "i \<notin> set (jkeys (records c) @ jkeys (by_id rs)) \<Longrightarrow>
      map_of (records c) i = None \<and> map_of (by_id rs) i = None"
    by (auto simp: map_of_eq_None_iff)
  then show ?thesis
    by (auto simp: hydrate_fenced_def Let_def hydrate_fold)
qed

lemma keyed_hydrate_fenced:
  "cache_wf c \<Longrightarrow> keyed (hydrate_fenced c rs f)"
  unfolding hydrate_fenced_def Let_def
proof (rule fold_inv_rule)
  assume "cache_wf c"
  then show "keyed (records c)" by (simp add: cache_wf_def)
next
  fix i m
  assume "keyed m"
  then show "keyed (if revision_of c i > f then m
      else case map_of (by_id rs) i of Some r \<Rightarrow> jset i r m | None \<Rightarrow> jdel i m)"
    by (auto split: option.splits intro: keyed_jset' keyed_id [OF keyed_by_id])
qed

text \<open>Every operation keeps the cache well formed.\<close>

lemma revisions_bump:
  "(\<forall>i n. map_of m i = Some n \<longrightarrow> 0 < n \<and> n \<le> v) \<Longrightarrow>
   (\<forall>i n. map_of (jset j (Suc v) m) i = Some n \<longrightarrow> 0 < n \<and> n \<le> Suc v)"
  by (auto simp: le_Suc_eq)

lemma cache_wf_empty [simp]: "cache_wf empty_cache"
  by (simp add: cache_wf_def empty_cache_def)

lemma cache_wf_bump: "cache_wf c \<Longrightarrow> cache_wf (bump_revision i c)"
  unfolding cache_wf_def bump_revision_def using revisions_bump [of "recordRevisions c"] by simp

lemma cache_wf_emit [simp]: "cache_wf (ec_emit i ch c) = cache_wf c"
  by (simp add: cache_wf_def ec_emit_def)

lemma cache_wf_records: "cache_wf c \<Longrightarrow> keyed m \<Longrightarrow> cache_wf (c\<lparr>records := m\<rparr>)"
  by (simp add: cache_wf_def)

lemma cache_wf_both:
  "cache_wf c \<Longrightarrow> keyed m \<Longrightarrow> keyed b \<Longrightarrow> cache_wf (c\<lparr>bootstrapRecords := b, records := m\<rparr>)"
  by (simp add: cache_wf_def)

lemma cache_wf_keyed:
  "cache_wf c \<Longrightarrow> keyed (records c)" "cache_wf c \<Longrightarrow> keyed (bootstrapRecords c)"
  by (simp_all add: cache_wf_def)

lemma cache_wf_onActivate: "cache_wf c \<Longrightarrow> cache_wf (onActivate r c)"
  by (simp add: onActivate_def cache_wf_bump cache_wf_both cache_wf_keyed)

lemma cache_wf_onRetire: "cache_wf c \<Longrightarrow> cache_wf (onRetire r c)"
  by (simp add: onRetire_def cache_wf_bump cache_wf_records cache_wf_keyed)

lemma cache_wf_onDelete: "cache_wf c \<Longrightarrow> cache_wf (onDelete i c)"
  by (simp add: onDelete_def cache_wf_bump cache_wf_both cache_wf_keyed)

lemma cache_wf_invalidate: "cache_wf c \<Longrightarrow> cache_wf (invalidate i c)"
  by (simp add: invalidate_def cache_wf_bump cache_wf_both cache_wf_keyed)

lemma cache_wf_registerBootstrap: "cache_wf c \<Longrightarrow> cache_wf (registerBootstrap i k src ctx now c)"
  by (simp add: registerBootstrap_def cache_wf_bump cache_wf_records keyed_jset' cache_wf_keyed)

lemma cache_wf_registerBootstrapEntity:
  "cache_wf c \<Longrightarrow> cache_wf (registerBootstrapEntity i src bk dig auth ctx cls k session now c)"
  by (simp add: registerBootstrapEntity_def Let_def cache_wf_bump cache_wf_both keyed_jset' cache_wf_keyed)

lemma cache_wf_hydrate: "cache_wf c \<Longrightarrow> cache_wf (hydrate c rs f)"
  unfolding hydrate_def Let_def
  by (rule cache_wf_records) (auto simp: keyed_hydrate_fenced split: option.splits)

lemma cache_wf_listeners [simp]:
  "cache_wf (onChange l c) = cache_wf c" "cache_wf (offChange l c) = cache_wf c"
  by (simp_all add: cache_wf_def onChange_def offChange_def)

subsection \<open>Runs of the cache\<close>

inductive cache_step :: "entity_cache \<Rightarrow> entity_cache \<Rightarrow> bool" where
  step_activate: "cache_step c (onActivate r c)"
| step_retire: "er_status r = Retired \<Longrightarrow> cache_step c (onRetire r c)"
| step_delete: "cache_step c (onDelete i c)"
| step_invalidate: "cache_step c (invalidate i c)"
| step_hydrate: "cache_step c (hydrate c rs f)"
| step_bootstrap: "k \<in> {Server, Shell} \<Longrightarrow> cache_step c (registerBootstrap i k src ctx now c)"
| step_bootstrap_entity:
    "cache_step c (registerBootstrapEntity i src bk dig auth x cls k session now c)"
| step_listen: "cache_step c (onChange l c)"
| step_unlisten: "cache_step c (offChange l c)"

inductive cache_reachable :: "entity_cache \<Rightarrow> bool" where
  reach_empty: "cache_reachable empty_cache"
| reach_step: "cache_reachable c \<Longrightarrow> cache_step c c' \<Longrightarrow> cache_reachable c'"
| reach_clear: "cache_reachable c \<Longrightarrow> cache_reachable (ec_clear c)"

lemma cache_wf_clear: "cache_wf (ec_clear c)"
  by (simp add: cache_wf_def ec_clear_def)

lemmas cache_wf_ops =
  cache_wf_onActivate cache_wf_onRetire cache_wf_onDelete cache_wf_invalidate cache_wf_hydrate
  cache_wf_registerBootstrap cache_wf_registerBootstrapEntity cache_wf_clear

lemma cache_step_wf: "cache_step c c' \<Longrightarrow> cache_wf c \<Longrightarrow> cache_wf c'"
  by (induction rule: cache_step.induct) (simp_all add: cache_wf_ops)

lemma cache_reachable_wf_lemma: "cache_reachable c \<Longrightarrow> cache_wf c"
  by (induction rule: cache_reachable.induct) (auto dest: cache_step_wf intro: cache_wf_clear)

subsection \<open>What the look-ups return after each operation\<close>

lemma records_emit [simp]: "records (ec_emit i ch c) = records c"
  by (simp add: ec_emit_def)

lemma records_bump [simp]: "records (bump_revision i c) = records c"
  by (simp add: bump_revision_def)

lemma resolveActive_records: "records c = records c' \<Longrightarrow> resolveActive c = resolveActive c'"
  by (simp add: resolveActive_def fun_eq_iff)

lemma resolveActive_onActivate:
  "resolveActive (onActivate r c) i =
     (if i = er_id r then (if er_status r = Active then Some r else None) else resolveActive c i)"
  by (simp add: resolveActive_def onActivate_def)

lemma resolveActive_onRetire:
  "resolveActive (onRetire r c) i =
     (if i = er_id r then (if er_status r = Active then Some r else None) else resolveActive c i)"
  by (simp add: resolveActive_def onRetire_def)

lemma resolveActive_onDelete:
  "resolveActive (onDelete i c) j = (if j = i then None else resolveActive c j)"
  by (simp add: resolveActive_def onDelete_def)

lemma resolveActive_invalidate:
  "resolveActive (invalidate i c) j = (if j = i then None else resolveActive c j)"
  by (simp add: resolveActive_def invalidate_def)

lemma resolveActive_Active: "resolveActive c i = Some r \<Longrightarrow> er_status r = Active"
  by (auto simp: resolveActive_def split: option.splits if_splits)

lemma resolveActive_id:
  assumes "cache_wf c" and "resolveActive c i = Some r"
  shows "er_id r = i"
  using assms(2) by (auto simp: resolveActive_def keyed_id [OF cache_wf_keyed(1) [OF assms(1)]]
      split: option.splits if_splits)

lemma resolve_hydrate:
  assumes "cache_wf c"
  shows "resolve (hydrate c rs f) i =
     (case map_of (bootstrapRecords c) i of
        Some b \<Rightarrow> Some b
      | None \<Rightarrow>
          (case f of
             None \<Rightarrow> map_of (by_id rs) i
           | Some n \<Rightarrow> if revision_of c i > n then resolve c i else map_of (by_id rs) i))"
  using assms
  by (auto simp: cache_wf_keyed resolve_def hydrate_def Let_def jget_keyed_all find_keyed_values jget_hydrate_fenced
      split: option.splits)

subsection \<open>The interface the authority services use\<close>

text \<open>
  Connection grants and task authority see the cache through \<open>resolveActive\<close> alone
  (\<^verbatim>\<open>Pick<EntityCache, "resolveActive">\<close>). Its contract: what it returns is active and carries
  the id asked for, and a retired, deleted or invalidated id is no longer returned.
\<close>

locale entity_mirror =
  fixes look :: "'c \<Rightarrow> string \<Rightarrow> entity_record option"
    and retire :: "entity_record \<Rightarrow> 'c \<Rightarrow> 'c"
    and forget :: "string \<Rightarrow> 'c \<Rightarrow> 'c"
    and good :: "'c \<Rightarrow> bool"
  assumes look_active: "look c i = Some r \<Longrightarrow> er_status r = Active"
    and look_id: "good c \<Longrightarrow> look c i = Some r \<Longrightarrow> er_id r = i"
    and look_retire: "er_status r \<noteq> Active \<Longrightarrow>
          look (retire r c) i = (if i = er_id r then None else look c i)"
    and look_forget: "look (forget i c) j = (if j = i then None else look c j)"
    and good_retire: "good c \<Longrightarrow> good (retire r c)"
    and good_forget: "good c \<Longrightarrow> good (forget i c)"
begin

lemma retired_gone: "er_status r \<noteq> Active \<Longrightarrow> look (retire r c) (er_id r) = None"
  by (simp add: look_retire)

lemma forgotten_gone: "look (forget i c) i = None"
  by (simp add: look_forget)

end

interpretation mirror: entity_mirror resolveActive onRetire onDelete cache_wf
proof unfold_locales
  show "resolveActive c i = Some r \<Longrightarrow> er_status r = Active" for c i r
    by (rule resolveActive_Active)
  show "cache_wf c \<Longrightarrow> resolveActive c i = Some r \<Longrightarrow> er_id r = i" for c i r
    by (rule resolveActive_id)
qed (simp_all add: resolveActive_onRetire resolveActive_onDelete cache_wf_onRetire cache_wf_onDelete)

interpretation mirror_inv: entity_mirror resolveActive onRetire invalidate cache_wf
  by unfold_locales
    (simp_all add: mirror.look_active mirror.look_id mirror.look_retire resolveActive_invalidate
      cache_wf_onRetire cache_wf_invalidate)


subsection \<open>Changes made while a snapshot is being fetched\<close>

text \<open>
  The operations of a running host as data. \<open>OpHydrate\<close> is a fenced hydration, with its
  snapshot and fence.
\<close>

datatype cache_op =
    OpActivate entity_record
  | OpRetire entity_record
  | OpDelete string
  | OpInvalidate string
  | OpBootstrap string entity_kind "entity_source option" "ustring option" int
  | OpBootstrapEntity string entity_source string string string ustring string string string int
  | OpListen nat
  | OpUnlisten nat
  | OpHydrate "entity_record list" nat

fun apply_op :: "cache_op \<Rightarrow> entity_cache \<Rightarrow> entity_cache" where
  "apply_op (OpActivate r) c = onActivate r c"
| "apply_op (OpRetire r) c = onRetire r c"
| "apply_op (OpDelete i) c = onDelete i c"
| "apply_op (OpInvalidate i) c = invalidate i c"
| "apply_op (OpBootstrap i k src ctx now) c = registerBootstrap i k src ctx now c"
| "apply_op (OpBootstrapEntity i src bk dig auth ctx cls k session now) c =
     registerBootstrapEntity i src bk dig auth ctx cls k session now c"
| "apply_op (OpListen l) c = onChange l c"
| "apply_op (OpUnlisten l) c = offChange l c"
| "apply_op (OpHydrate rs f) c = hydrate c rs (Some f)"

definition run_ops :: "cache_op list \<Rightarrow> entity_cache \<Rightarrow> entity_cache" where
  "run_ops ops c = fold apply_op ops c"

text \<open>
  What an operation leaves behind for an entity it changes: the id, and the record (none
  after a deletion or an invalidation). The other operations change no entity.
\<close>

fun change_of :: "cache_op \<Rightarrow> (string \<times> entity_record option) option" where
  "change_of (OpActivate r) = Some (er_id r, Some r)"
| "change_of (OpRetire r) = Some (er_id r, Some r)"
| "change_of (OpDelete i) = Some (i, None)"
| "change_of (OpInvalidate i) = Some (i, None)"
| "change_of (OpBootstrap i k src ctx now) = Some (i, Some (bootstrap_entry i k src ctx now))"
| "change_of (OpBootstrapEntity i src bk dig auth ctx cls k session now) =
     Some (i, Some (bootstrap_service_entry i src bk dig auth ctx cls k session now))"
| "change_of _ = None"

text \<open>
  A bootstrap service is pinned from its registration until its own entity is activated,
  deleted or invalidated; retiring it does not unpin it.
\<close>

fun pin_of :: "cache_op \<Rightarrow> (string \<times> entity_record option) option" where
  "pin_of (OpRetire r) = None"
| "pin_of (OpActivate r) = Some (er_id r, None)"
| "pin_of (OpBootstrap i k src ctx now) = None"
| "pin_of op = change_of op"

text \<open>What the last of the operations that say something of \<open>i\<close> says; none if none does.\<close>

fun last_word :: "(cache_op \<Rightarrow> (string \<times> entity_record option) option) \<Rightarrow> string \<Rightarrow> cache_op list \<Rightarrow>
    entity_record option option" where
  "last_word says i [] = None"
| "last_word says i (op # ops) =
     (case last_word says i ops of
        Some x \<Rightarrow> Some x
      | None \<Rightarrow> (case says op of Some (j, x) \<Rightarrow> if j = i then Some x else None | None \<Rightarrow> None))"

text \<open>The operations that may overlap a fetch: any but a hydration of a newer snapshot.\<close>

fun overlaps :: "nat \<Rightarrow> cache_op \<Rightarrow> bool" where
  "overlaps f (OpHydrate rs f') = (f' \<le> f)"
| "overlaps f op = True"

lemma last_word_snoc:
  "last_word says i (ops @ [op]) =
     (case says op of Some (j, x) \<Rightarrow> if j = i then Some x else last_word says i ops
                    | None \<Rightarrow> last_word says i ops)"
  by (induction ops) (auto split: option.splits)

lemma run_ops_snoc [simp]: "run_ops (ops @ [op]) c = apply_op op (run_ops ops c)"
  by (simp add: run_ops_def)

lemma run_ops_Nil [simp]: "run_ops [] c = c"
  by (simp add: run_ops_def)

lemma cache_wf_apply_op: "cache_wf c \<Longrightarrow> cache_wf (apply_op op c)"
  by (cases op) (simp_all add: cache_wf_ops)

lemma cache_wf_run_ops: "cache_wf c \<Longrightarrow> cache_wf (run_ops ops c)"
  by (induction ops rule: rev_induct) (simp_all add: cache_wf_apply_op)

lemma revision_bump [simp]: "revision (bump_revision i c) = Suc (revision c)"
  by (simp add: bump_revision_def)

lemma revision_emit [simp]: "revision (ec_emit i ch c) = revision c"
  by (simp add: ec_emit_def)

lemma revision_of_bump [simp]:
  "revision_of (bump_revision i c) j = (if j = i then Suc (revision c) else revision_of c j)"
  by (simp add: revision_of_def bump_revision_def)

lemma revision_of_emit [simp]: "revision_of (ec_emit i ch c) j = revision_of c j"
  by (simp add: revision_of_def ec_emit_def)

lemma revision_of_records [simp]:
  "revision_of (c\<lparr>records := m\<rparr>) = revision_of c"
  "revision_of (c\<lparr>bootstrapRecords := b\<rparr>) = revision_of c"
  "revision_of (c\<lparr>listeners := ls\<rparr>) = revision_of c"
  by (simp_all add: revision_of_def fun_eq_iff)

lemma bootstrap_emit [simp]: "bootstrapRecords (ec_emit i ch c) = bootstrapRecords c"
  by (simp add: ec_emit_def)

lemma bootstrap_bump [simp]: "bootstrapRecords (bump_revision i c) = bootstrapRecords c"
  by (simp add: bump_revision_def)

lemmas cache_op_defs =
  onActivate_def onRetire_def onDelete_def invalidate_def registerBootstrap_def
  registerBootstrapEntity_def onChange_def offChange_def

lemma apply_op_revision: "revision c \<le> revision (apply_op op c)"
  by (cases op) (simp_all add: cache_op_defs hydrate_def Let_def)

lemma run_ops_revision: "revision c \<le> revision (run_ops ops c)"
  by (induction ops rule: rev_induct) (auto intro: order_trans apply_op_revision)

text \<open>The revision of an id is the moment of its last change.\<close>

lemma apply_op_revision_of:
  "revision_of (apply_op op c) i =
     (case change_of op of Some (j, x) \<Rightarrow> if i = j then Suc (revision c) else revision_of c i
                         | None \<Rightarrow> revision_of c i)"
  by (cases op) (simp_all add: cache_op_defs hydrate_def Let_def)

text \<open>The pins after an operation.\<close>

lemma apply_op_bootstrap:
  "map_of (bootstrapRecords (apply_op op c)) i =
     (case pin_of op of Some (j, x) \<Rightarrow> if j = i then x else map_of (bootstrapRecords c) i
                      | None \<Rightarrow> map_of (bootstrapRecords c) i)"
  by (cases op) (auto simp: cache_op_defs hydrate_def Let_def)

lemma run_ops_bootstrap:
  "map_of (bootstrapRecords (run_ops ops c)) i =
     (case last_word pin_of i ops of Some x \<Rightarrow> x | None \<Rightarrow> map_of (bootstrapRecords c) i)"
  by (induction ops rule: rev_induct)
    (auto simp: apply_op_bootstrap last_word_snoc split: option.splits)

text \<open>The record after an operation that is not a hydration.\<close>

lemma apply_op_resolve:
  assumes "\<And>rs f. op \<noteq> OpHydrate rs f"
  shows "resolve (apply_op op c) i =
     (case change_of op of Some (j, x) \<Rightarrow> if j = i then x else resolve c i
                         | None \<Rightarrow> resolve c i)"
  using assms by (cases op) (auto simp: resolve_def cache_op_defs Let_def)

text \<open>
  Since the fence: a changed entity has a revision after it and, unless it is pinned, the
  record its last change left; an unchanged one has a revision up to it.
\<close>

definition since_fence :: "nat \<Rightarrow> cache_op list \<Rightarrow> string \<Rightarrow> entity_cache \<Rightarrow> bool" where
  "since_fence f ops i c \<longleftrightarrow>
     (case last_word change_of i ops of
        None \<Rightarrow> revision_of c i \<le> f
      | Some x \<Rightarrow> f < revision_of c i \<and> (map_of (bootstrapRecords c) i = None \<longrightarrow> resolve c i = x))"

lemma since_fence_hydrate:
  assumes "cache_wf c" and "f' \<le> f" and "since_fence f ops i c"
  shows "since_fence f ops i (hydrate c rs (Some f'))"
proof -
  have "revision_of (hydrate c rs (Some f')) i = revision_of c i"
    "bootstrapRecords (hydrate c rs (Some f')) = bootstrapRecords c"
    by (simp_all add: hydrate_def Let_def)
  with assms show ?thesis
    by (auto simp: since_fence_def resolve_hydrate split: option.splits)
qed

lemma since_fence_other:
  assumes no_hyd: "\<And>rs f. op \<noteq> OpHydrate rs f"
    and rev: "f \<le> revision c" and inv: "since_fence f ops i c"
    and pin: "last_word pin_of i [op] = None \<or> last_word change_of i [op] \<noteq> None"
  shows "since_fence f (ops @ [op]) i (apply_op op c)"
proof (cases "last_word change_of i [op]")
  case None
  then have "last_word pin_of i [op] = None" using pin by simp
  then have "map_of (bootstrapRecords (apply_op op c)) i = map_of (bootstrapRecords c) i"
    by (auto simp: apply_op_bootstrap split: option.splits if_splits)
  with None inv show ?thesis
    by (auto simp: since_fence_def last_word_snoc apply_op_revision_of apply_op_resolve no_hyd
        split: option.splits if_splits prod.splits)
next
  case (Some x)
  with rev show ?thesis
    by (auto simp: since_fence_def last_word_snoc apply_op_revision_of apply_op_resolve no_hyd
        split: option.splits if_splits prod.splits)
qed

lemma pin_is_change: "last_word pin_of i [op] = None \<or> last_word change_of i [op] \<noteq> None"
  by (cases op) auto

lemma since_fence_run:
  assumes "cache_wf c" and "\<forall>op \<in> set ops. overlaps (revision c) op"
  shows "since_fence (revision c) ops i (run_ops ops c)"
  using assms(2)
proof (induction ops rule: rev_induct)
  case Nil
  then show ?case
    using assms(1) by (auto simp: since_fence_def cache_wf_def revision_of_def split: option.splits)
next
  case (snoc op ops)
  then have inv: "since_fence (revision c) ops i (run_ops ops c)" by simp
  show ?case
  proof (cases "\<exists>rs f'. op = OpHydrate rs f'")
    case True
    then obtain rs f' where op: "op = OpHydrate rs f'" by blast
    then have "since_fence (revision c) ops i (hydrate (run_ops ops c) rs (Some f'))"
      using since_fence_hydrate [OF cache_wf_run_ops [OF assms(1)] _ inv] snoc.prems by simp
    then show ?thesis
      by (simp add: op since_fence_def last_word_snoc)
  next
    case False
    then show ?thesis
      using since_fence_other [OF _ run_ops_revision inv pin_is_change] by simp
  qed
qed

section \<open>Properties\<close>

text \<open>
  C25. A snapshot requested at \<open>c0\<close> and installed after any sequence of operations (with other
  fenced hydrations among them, of snapshots requested no later) leaves for every id exactly:
  the bootstrap service pinned under that id, if one is; otherwise what the last operation that
  changed the id left (the record of an activation, a retirement or a registration, nothing
  after a deletion or an invalidation); and for an id no operation changed, what the snapshot
  says of it. The pin is the one the last activation, deletion, invalidation or service
  registration of the id left. The test-only \<open>_clear\<close> and hydrations without a fence are not
  among the operations.
\<close>

theorem hydration_keeps_later_changes:
  assumes "cache_reachable c0"
    and "\<forall>op \<in> set ops. overlaps (beginHydration c0) op"
  shows "resolve (hydrate (run_ops ops c0) rs (Some (beginHydration c0))) i =
    (case (case last_word pin_of i ops of Some p \<Rightarrow> p | None \<Rightarrow> map_of (bootstrapRecords c0) i) of
       Some b \<Rightarrow> Some b
     | None \<Rightarrow>
         (case last_word change_of i ops of
            Some x \<Rightarrow> x
          | None \<Rightarrow> find (\<lambda>r. er_id r = i) (rev rs)))"
proof -
  have wf: "cache_wf c0"
    using assms(1) by (rule cache_reachable_wf_lemma)
  have "since_fence (revision c0) ops i (run_ops ops c0)"
    using since_fence_run [OF wf] assms(2) by (simp add: beginHydration_def)
  then show ?thesis
    by (auto simp: resolve_hydrate cache_wf_run_ops wf beginHydration_def since_fence_def
        run_ops_bootstrap jget_by_id split: option.splits)
qed

definition sample_entity :: "string \<Rightarrow> entity_kind \<Rightarrow> entity_status \<Rightarrow> entity_record" where
  "sample_entity i k st = \<lparr>er_id = i, er_kind = k,
     er_source = \<lparr>repoPath = ''apps/x'', effectiveVersion = ''v1''\<rparr>,
     activeBuildKey = Some ''b1'', activeExecutionDigest = Some ''d1'', activeAuthority = Some ''a1'',
     contextId = Some (ascii ''ctx''), className = None, er_key = i, agentBinding = None, createdAt = 0,
     authoritySessionId = Some ''s1'', er_status = st, cleanupComplete = True\<rparr>"

theorem hydration_keeps_later_changes_witness:
  "resolve (hydrate (run_ops [OpRetire (sample_entity ''p'' Panel Retired),
        OpActivate (sample_entity ''q'' Panel Active)] empty_cache)
      [sample_entity ''p'' Panel Active] (Some (beginHydration empty_cache))) ''p''
    = Some (sample_entity ''p'' Panel Retired)"
  using hydration_keeps_later_changes [OF reach_empty,
      of "[OpRetire (sample_entity ''p'' Panel Retired), OpActivate (sample_entity ''q'' Panel Active)]"
         "[sample_entity ''p'' Panel Active]" "''p''"]
  by (simp add: sample_entity_def empty_cache_def)

text \<open>
  Every reachable cache maps an id to the record of that id, \<open>resolveActive\<close> returns
  active records only, and no change revision lies in the future of the cache's own.
\<close>

theorem reachable_cache_sound:
  assumes "cache_reachable c"
  shows "cache_wf c \<and> revision_of c i \<le> revision c \<and>
    (\<forall>r. resolveActive c i = Some r \<longrightarrow>
       er_status r = Active \<and> er_id r = i \<and> r \<in> set (listActive c))"
proof -
  have wf: "cache_wf c"
    using assms by (rule cache_reachable_wf_lemma)
  have "er_status r = Active \<and> er_id r = i \<and> r \<in> set (listActive c)"
    if res: "resolveActive c i = Some r" for r
  proof -
    have "map_of (records c) i = Some r"
      using res by (auto simp: resolveActive_def split: option.splits if_splits)
    then have "r \<in> set (jvalues (records c))"
      by (force dest: jget_memD)
    then show ?thesis
      using resolveActive_Active [OF res] resolveActive_id [OF wf res] by (simp add: listActive_def)
  qed
  moreover have "revision_of c i \<le> revision c"
    using wf by (auto simp: cache_wf_def revision_of_def split: option.splits)
  ultimately show ?thesis using wf by blast
qed

theorem reachable_cache_sound_witness:
  "er_status (sample_entity ''p'' Panel Active) = Active
   \<and> er_id (sample_entity ''p'' Panel Active) = ''p''
   \<and> sample_entity ''p'' Panel Active
      \<in> set (listActive (onActivate (sample_entity ''p'' Panel Active) empty_cache))"
proof -
  have reach: "cache_reachable (onActivate (sample_entity ''p'' Panel Active) empty_cache)"
    by (rule reach_step [OF reach_empty step_activate])
  have "resolveActive (onActivate (sample_entity ''p'' Panel Active) empty_cache) ''p''
      = Some (sample_entity ''p'' Panel Active)"
    by (simp add: resolveActive_onActivate sample_entity_def)
  then show ?thesis
    using reachable_cache_sound [OF reach] by blast
qed

end
