(* ===== verification/PrincipalKinds.thy ===== *)
theory PrincipalKinds
  imports Prelude
begin

text \<open>
  The registry of principal kinds (\<^verbatim>\<open>packages/shared/src/principalKinds.ts\<close>). The registry is
  an object literal, so the source's test \<open>value in PRINCIPAL_KIND_REGISTRY\<close> also succeeds
  for the names every object inherits from \<open>Object.prototype\<close>; reading such a name yields
  a function, which has no \<open>callerKind\<close> and no \<open>codeIdentity\<close>.
\<close>

datatype caller_kind =
  CkPanel | CkClient | CkWorker | CkDO | CkExtension | CkShell | CkServer | CkAgent

fun caller_kind_name :: "caller_kind \<Rightarrow> string" where
  "caller_kind_name CkPanel = ''panel''"
| "caller_kind_name CkClient = ''client''"
| "caller_kind_name CkWorker = ''worker''"
| "caller_kind_name CkDO = ''do''"
| "caller_kind_name CkExtension = ''extension''"
| "caller_kind_name CkShell = ''shell''"
| "caller_kind_name CkServer = ''server''"
| "caller_kind_name CkAgent = ''agent''"

definition PRINCIPAL_KIND_REGISTRY :: "(string \<times> caller_kind \<times> bool) list" where
  "PRINCIPAL_KIND_REGISTRY =
     [(''panel'', CkPanel, True), (''client'', CkClient, True), (''worker'', CkWorker, True),
      (''do'', CkDO, True), (''extension'', CkExtension, True), (''shell'', CkShell, False),
      (''server'', CkServer, False), (''agent'', CkAgent, False)]"

definition object_prototype :: "string list" where
  "object_prototype =
     [''constructor'', ''__defineGetter__'', ''__defineSetter__'', ''hasOwnProperty'',
      ''__lookupGetter__'', ''__lookupSetter__'', ''isPrototypeOf'', ''propertyIsEnumerable'',
      ''toString'', ''valueOf'', ''__proto__'', ''toLocaleString'']"

definition isPrincipalKind :: "string option \<Rightarrow> bool" where
  "isPrincipalKind v =
     (truthy v \<and> (jhas PRINCIPAL_KIND_REGISTRY (the v) \<or> the v \<in> set object_prototype))"

definition isCallerKind :: "string option \<Rightarrow> bool" where
  "isCallerKind v =
     (truthy v \<and> (\<exists>e \<in> set (jvalues PRINCIPAL_KIND_REGISTRY). caller_kind_name (fst e) = the v))"

text \<open>An undefined \<open>codeIdentity\<close> is falsy.\<close>

definition isCodeIdentityCallerKind :: "string option \<Rightarrow> bool" where
  "isCodeIdentityCallerKind v =
     (if \<not> isPrincipalKind v then False
      else (case map_of PRINCIPAL_KIND_REGISTRY (the v) of None \<Rightarrow> False | Some (_, ci) \<Rightarrow> ci))"

datatype kind_error = UnknownPrincipalKind "string option"

text \<open>\<open>Inr None\<close> is the value \<open>undefined\<close>, returned without an exception.\<close>

definition callerKindForPrincipalKind :: "string option \<Rightarrow> (kind_error, caller_kind option) result" where
  "callerKindForPrincipalKind v =
     (if \<not> isPrincipalKind v then Inl (UnknownPrincipalKind v)
      else Inr (map_option fst (map_of PRINCIPAL_KIND_REGISTRY (the v))))"

lemma registry_values: "fst ` set (jvalues PRINCIPAL_KIND_REGISTRY) = UNIV"
proof -
  have "k \<in> fst ` set (jvalues PRINCIPAL_KIND_REGISTRY)" for k
    by (cases k) (simp_all add: PRINCIPAL_KIND_REGISTRY_def)
  then show ?thesis by blast
qed

lemma caller_kind_name_ne [simp]: "caller_kind_name k \<noteq> []"
  by (cases k) simp_all

lemma isCallerKind_iff: "isCallerKind v \<longleftrightarrow> (\<exists>k. v = Some (caller_kind_name k))"
proof
  assume "isCallerKind v"
  then show "\<exists>k. v = Some (caller_kind_name k)"
    unfolding isCallerKind_def truthy_iff by fastforce
next
  assume "\<exists>k. v = Some (caller_kind_name k)"
  then obtain k where v: "v = Some (caller_kind_name k)" ..
  have "k \<in> fst ` set (jvalues PRINCIPAL_KIND_REGISTRY)"
    unfolding registry_values by simp
  then obtain e where "e \<in> set (jvalues PRINCIPAL_KIND_REGISTRY)" and "fst e = k"
    by blast
  then show "isCallerKind v"
    unfolding isCallerKind_def v by auto
qed

lemma registry_get:
  "map_of PRINCIPAL_KIND_REGISTRY (caller_kind_name k) =
     Some (k, k \<in> {CkPanel, CkClient, CkWorker, CkDO, CkExtension})"
  by (cases k) (simp_all add: PRINCIPAL_KIND_REGISTRY_def)

lemma callerKind_known [simp]:
  "callerKindForPrincipalKind (Some (caller_kind_name k)) = Inr (Some k)"
  by (simp add: callerKindForPrincipalKind_def isPrincipalKind_def jhas_def registry_get)

lemma callerKind_name_inject: "caller_kind_name k = caller_kind_name k' \<longleftrightarrow> k = k'"
  by (cases k; cases k') simp_all

end
