(* ===== verification/TokenManager.thy ===== *)
theory TokenManager
  imports PrincipalKinds
begin

text \<open>
  The bearer tokens of non-panel callers and the admin token
  (\<^verbatim>\<open>packages/shared/src/tokenManager.ts\<close>): one token per caller, a reverse map from tokens
  to entries, and revocation listeners. Fresh random tokens are arguments of the
  operations that mint them.
\<close>

record identity_binding =
  ib_entityId :: string
  ib_contextId :: string
  ib_channelId :: string
  ib_agentId :: string

record token_entry =
  te_callerId :: string
  te_callerKind :: caller_kind
  te_agentBinding :: "identity_binding option"

text \<open>\<open>TokenMetadata\<close>: an absent \<open>agentBinding\<close> leaves an entry's binding unchanged.\<close>

record token_metadata =
  tmd_agentBinding :: "identity_binding option"

text \<open>\<open>tm_calls\<close> logs the calls of the revocation listeners, newest last.\<close>

record token_manager =
  tokenToEntry :: "(string, token_entry) jsmap"
  callerIdToToken :: "(string, string) jsmap"
  revokeListeners :: "nat list"
  adminToken :: "string option"
  tm_calls :: "(nat \<times> string) list"

datatype token_error =
    PanelTokensRemoved
  | TokenAlreadyExists string
  | NoTokenExists string

definition empty_tokens :: token_manager where
  "empty_tokens = \<lparr>tokenToEntry = [], callerIdToToken = [], revokeListeners = [],
     adminToken = None, tm_calls = []\<rparr>"

text \<open>\<open>timingSafeEqual\<close> on the UTF-8 bytes, after the length check.\<close>

fun timingSafeEqual :: "string \<Rightarrow> string \<Rightarrow> bool" where
  "timingSafeEqual [] [] = True"
| "timingSafeEqual (x # xs) (y # ys) = (let rest = timingSafeEqual xs ys in x = y \<and> rest)"
| "timingSafeEqual _ _ = False"

definition constantTimeStringEqual :: "string \<Rightarrow> string \<Rightarrow> bool" where
  "constantTimeStringEqual a b = (if length a \<noteq> length b then False else timingSafeEqual a b)"

definition spread_metadata :: "token_entry \<Rightarrow> token_metadata option \<Rightarrow> token_entry" where
  "spread_metadata e md =
     (case md of None \<Rightarrow> e
      | Some m \<Rightarrow> (case tmd_agentBinding m of None \<Rightarrow> e | Some b \<Rightarrow> e\<lparr>te_agentBinding := Some b\<rparr>))"

definition new_entry :: "string \<Rightarrow> caller_kind \<Rightarrow> token_metadata option \<Rightarrow> token_entry" where
  "new_entry c k md =
     spread_metadata \<lparr>te_callerId = c, te_callerKind = k, te_agentBinding = None\<rparr> md"

definition put_token :: "string \<Rightarrow> token_entry \<Rightarrow> token_manager \<Rightarrow> token_manager" where
  "put_token t e m = m\<lparr>tokenToEntry := jset t e (tokenToEntry m),
     callerIdToToken := jset (te_callerId e) t (callerIdToToken m)\<rparr>"

definition createToken ::
  "string \<Rightarrow> caller_kind \<Rightarrow> token_metadata option \<Rightarrow> string \<Rightarrow> token_manager \<Rightarrow>
   (token_error, string \<times> token_manager) result" where
  "createToken c k md fresh m =
     (if k = CkPanel then Inl PanelTokensRemoved
      else if jhas (callerIdToToken m) c then Inl (TokenAlreadyExists c)
      else Inr (fresh, put_token fresh (new_entry c k md) m))"

definition ensureToken ::
  "string \<Rightarrow> caller_kind \<Rightarrow> token_metadata option \<Rightarrow> string \<Rightarrow> token_manager \<Rightarrow>
   (token_error, string \<times> token_manager) result" where
  "ensureToken c k md fresh m =
     (if truthy (map_of (callerIdToToken m) c) then
        (let existing = the (map_of (callerIdToToken m) c)
         in Inr (existing,
              if md = None then m
              else (case map_of (tokenToEntry m) existing of
                      None \<Rightarrow> m
                    | Some e \<Rightarrow> m\<lparr>tokenToEntry := jset existing (spread_metadata e md) (tokenToEntry m)\<rparr>)))
      else createToken c k md fresh m)"

definition registerExistingToken ::
  "string \<Rightarrow> string \<Rightarrow> caller_kind \<Rightarrow> token_metadata option \<Rightarrow> token_manager \<Rightarrow> bool \<times> token_manager" where
  "registerExistingToken t c k md m =
     (if k = CkPanel then (False, m)
      else if jhas (callerIdToToken m) c then (False, m)
      else if jhas (tokenToEntry m) t then (False, m)
      else (True, put_token t (new_entry c k md) m))"

definition getToken :: "string \<Rightarrow> token_manager \<Rightarrow> (token_error, string) result" where
  "getToken c m =
     (if truthy (map_of (callerIdToToken m) c) then Inr (the (map_of (callerIdToToken m) c))
      else Inl (NoTokenExists c))"

definition validateToken :: "string \<Rightarrow> token_manager \<Rightarrow> token_entry option" where
  "validateToken t m = map_of (tokenToEntry m) t"

definition ensureWorkerBearer ::
  "string \<Rightarrow> string \<Rightarrow> token_manager \<Rightarrow> (token_error, string \<times> token_manager) result" where
  "ensureWorkerBearer c fresh m = ensureToken c CkWorker None fresh m"

definition validateWorkerBearer :: "string \<Rightarrow> token_manager \<Rightarrow> string option" where
  "validateWorkerBearer t m =
     (case validateToken t m of
        None \<Rightarrow> None
      | Some e \<Rightarrow> if te_callerKind e \<noteq> CkWorker then None else Some (te_callerId e))"

definition revokeToken :: "string \<Rightarrow> token_manager \<Rightarrow> bool \<times> token_manager" where
  "revokeToken c m =
     (if \<not> truthy (map_of (callerIdToToken m) c) then (False, m)
      else (True, m\<lparr>callerIdToToken := jdel c (callerIdToToken m),
                    tokenToEntry := jdel (the (map_of (callerIdToToken m) c)) (tokenToEntry m),
                    tm_calls := tm_calls m @ map (\<lambda>l. (l, c)) (revokeListeners m)\<rparr>))"

definition revokeWorkerBearer :: "string \<Rightarrow> token_manager \<Rightarrow> bool \<times> token_manager" where
  "revokeWorkerBearer c m = revokeToken c m"

definition onRevoke :: "nat \<Rightarrow> token_manager \<Rightarrow> token_manager" where
  "onRevoke l m =
     m\<lparr>revokeListeners := (if l \<in> set (revokeListeners m) then revokeListeners m else revokeListeners m @ [l])\<rparr>"

definition tm_clear :: "token_manager \<Rightarrow> token_manager" where
  "tm_clear m = m\<lparr>tokenToEntry := [], callerIdToToken := [],
     tm_calls := tm_calls m @
       concat (map (\<lambda>c. map (\<lambda>l. (l, c)) (revokeListeners m)) (jkeys (callerIdToToken m)))\<rparr>"

definition setAdminToken :: "string \<Rightarrow> token_manager \<Rightarrow> token_manager" where
  "setAdminToken t m = m\<lparr>adminToken := Some t\<rparr>"

definition validateAdminToken :: "string \<Rightarrow> token_manager \<Rightarrow> bool" where
  "validateAdminToken t m =
     (case adminToken m of
        None \<Rightarrow> False
      | Some a \<Rightarrow> if t = [] then False else constantTimeStringEqual t a)"

subsection \<open>Correctness\<close>

lemma timingSafeEqual_eq: "timingSafeEqual a b \<longleftrightarrow> a = b"
  by (induction a b rule: timingSafeEqual.induct) auto

lemma constantTimeStringEqual_eq: "constantTimeStringEqual a b \<longleftrightarrow> a = b"
  by (auto simp: constantTimeStringEqual_def timingSafeEqual_eq)

text \<open>The two maps are inverse to each other and no panel holds a token.\<close>

definition tm_wf :: "token_manager \<Rightarrow> bool" where
  "tm_wf m \<longleftrightarrow> jwf (tokenToEntry m) \<and> jwf (callerIdToToken m) \<and>
     (\<forall>c t. map_of (callerIdToToken m) c = Some t \<longleftrightarrow>
        (\<exists>e. map_of (tokenToEntry m) t = Some e \<and> te_callerId e = c)) \<and>
     (\<forall>t e. map_of (tokenToEntry m) t = Some e \<longrightarrow> te_callerKind e \<noteq> CkPanel)"

lemma spread_metadata_caller [simp]:
  "te_callerId (spread_metadata e md) = te_callerId e"
  "te_callerKind (spread_metadata e md) = te_callerKind e"
  by (auto simp: spread_metadata_def split: option.splits)

lemma new_entry_caller [simp]:
  "te_callerId (new_entry c k md) = c" "te_callerKind (new_entry c k md) = k"
  by (simp_all add: new_entry_def)

lemma tm_wf_empty: "tm_wf empty_tokens"
  by (simp add: tm_wf_def empty_tokens_def)

lemma tm_wfD:
  assumes "tm_wf m"
  shows "map_of (callerIdToToken m) c = Some t \<Longrightarrow>
      \<exists>e. map_of (tokenToEntry m) t = Some e \<and> te_callerId e = c"
    and "map_of (tokenToEntry m) t = Some e \<Longrightarrow> map_of (callerIdToToken m) (te_callerId e) = Some t"
  using assms by (auto simp: tm_wf_def)

lemma tm_wf_put:
  assumes wf: "tm_wf m" and new: "map_of (tokenToEntry m) t = None"
    and c: "map_of (callerIdToToken m) (te_callerId e) = None" and k: "te_callerKind e \<noteq> CkPanel"
  shows "tm_wf (put_token t e m)"
proof -
  have "te_callerId e' \<noteq> te_callerId e" if "map_of (tokenToEntry m) t' = Some e'" for t' e'
    using tm_wfD(2) [OF wf that] c by auto
  then show ?thesis
    using assms by (auto simp: tm_wf_def put_token_def)
qed

lemma tm_wf_createToken:
  "tm_wf m \<Longrightarrow> map_of (tokenToEntry m) fresh = None \<Longrightarrow>
   createToken c k md fresh m = Inr (t, m') \<Longrightarrow> tm_wf m'"
  by (auto simp: createToken_def jhas_def intro!: tm_wf_put split: if_splits)

lemma tm_wf_update_entry:
  assumes "tm_wf m" and "map_of (tokenToEntry m) t = Some e"
    and "te_callerId e' = te_callerId e" and "te_callerKind e' = te_callerKind e"
  shows "tm_wf (m\<lparr>tokenToEntry := jset t e' (tokenToEntry m)\<rparr>)"
  using assms by (auto simp: tm_wf_def)

lemma tm_wf_ensureToken:
  "tm_wf m \<Longrightarrow> map_of (tokenToEntry m) fresh = None \<Longrightarrow>
   ensureToken c k md fresh m = Inr (t, m') \<Longrightarrow> tm_wf m'"
  by (auto simp: ensureToken_def Let_def tm_wf_update_entry tm_wf_createToken
      split: if_splits option.splits)

lemma tm_wf_registerExistingToken:
  "tm_wf m \<Longrightarrow> registerExistingToken t c k md m = (b, m') \<Longrightarrow> tm_wf m'"
  by (auto simp: registerExistingToken_def jhas_def intro!: tm_wf_put split: if_splits)

lemma tm_wf_revoke:
  assumes wf: "tm_wf m" and "map_of (callerIdToToken m) c = Some t"
  shows "tm_wf (m\<lparr>callerIdToToken := jdel c (callerIdToToken m),
                  tokenToEntry := jdel t (tokenToEntry m), tm_calls := calls\<rparr>)"
proof -
  have "te_callerId e = c \<longleftrightarrow> t' = t" if "map_of (tokenToEntry m) t' = Some e" for t' e
    using tm_wfD [OF wf] that assms(2) by (metis option.inject)
  then show ?thesis
    using assms by (auto simp: tm_wf_def)
qed

lemma tm_wf_revokeToken: "tm_wf m \<Longrightarrow> revokeToken c m = (b, m') \<Longrightarrow> tm_wf m'"
  by (auto simp: revokeToken_def truthy_iff intro!: tm_wf_revoke split: if_splits)

lemma tm_wf_clear: "tm_wf (tm_clear m)"
  by (simp add: tm_wf_def tm_clear_def)

lemma tm_wf_other [simp]:
  "tm_wf (onRevoke l m) = tm_wf m" "tm_wf (setAdminToken t m) = tm_wf m"
  by (simp_all add: tm_wf_def onRevoke_def setAdminToken_def)

subsection \<open>Runs\<close>

text \<open>Minted tokens are fresh: 256 random bits do not collide with a stored token.\<close>

inductive token_step :: "token_manager \<Rightarrow> token_manager \<Rightarrow> bool" where
  step_create: "map_of (tokenToEntry m) fresh = None \<Longrightarrow>
     createToken c k md fresh m = Inr (t, m') \<Longrightarrow> token_step m m'"
| step_ensure: "map_of (tokenToEntry m) fresh = None \<Longrightarrow>
     ensureToken c k md fresh m = Inr (t, m') \<Longrightarrow> token_step m m'"
| step_register: "registerExistingToken t c k md m = (b, m') \<Longrightarrow> token_step m m'"
| step_revoke: "revokeToken c m = (b, m') \<Longrightarrow> token_step m m'"
| step_tm_clear: "token_step m (tm_clear m)"
| step_onRevoke: "token_step m (onRevoke l m)"
| step_admin: "token_step m (setAdminToken t m)"

inductive tokens_reachable :: "token_manager \<Rightarrow> bool" where
  tokens_start: "tokens_reachable empty_tokens"
| tokens_step: "tokens_reachable m \<Longrightarrow> token_step m m' \<Longrightarrow> tokens_reachable m'"

lemma token_step_wf: "token_step m m' \<Longrightarrow> tm_wf m \<Longrightarrow> tm_wf m'"
  by (induction rule: token_step.induct)
    (auto intro: tm_wf_createToken tm_wf_ensureToken tm_wf_registerExistingToken tm_wf_revokeToken
      tm_wf_clear)

lemma tokens_reachable_wf: "tokens_reachable m \<Longrightarrow> tm_wf m"
  by (induction rule: tokens_reachable.induct) (auto intro: tm_wf_empty token_step_wf)

lemma revokeToken_validate:
  assumes "tm_wf m" and "map_of (callerIdToToken m) c = Some t" and "t \<noteq> []"
  shows "validateToken t' (snd (revokeToken c m)) =
     (case validateToken t' m of
        None \<Rightarrow> None | Some e \<Rightarrow> if te_callerId e = c then None else Some e)"
proof -
  have "te_callerId e = c \<longleftrightarrow> t' = t" if "map_of (tokenToEntry m) t' = Some e" for e
    using tm_wfD [OF assms(1)] that assms(2) by (metis option.inject)
  then show ?thesis
    using assms(2,3) by (auto simp: revokeToken_def validateToken_def split: option.splits)
qed


section \<open>Properties\<close>

text \<open>
  Revoking a caller removes exactly the tokens of that caller: in every reachable state
  its token stops validating and every other token keeps the entry it had. (A caller that
  holds the empty token, which only \<open>registerExistingToken\<close> can create, is not revoked.)
\<close>

theorem revoke_isolates_caller:
  assumes "tokens_reachable m" and "map_of (callerIdToToken m) c = Some tok" and "tok \<noteq> []"
  shows "fst (revokeToken c m) \<and> getToken c (snd (revokeToken c m)) = Inl (NoTokenExists c) \<and>
    validateToken t (snd (revokeToken c m)) =
     (case validateToken t m of
        None \<Rightarrow> None | Some e \<Rightarrow> if te_callerId e = c then None else Some e)"
  using revokeToken_validate [OF tokens_reachable_wf [OF assms(1)] assms(2,3)] assms(2,3)
  by (simp add: revokeToken_def getToken_def)

lemma sample_created: "createToken ''w'' CkWorker None ''tok'' empty_tokens =
    Inr (''tok'', put_token ''tok'' (new_entry ''w'' CkWorker None) empty_tokens)"
  by (simp add: createToken_def empty_tokens_def jhas_def)

lemma sample_tokens_reachable:
  "tokens_reachable (put_token ''tok'' (new_entry ''w'' CkWorker None) empty_tokens)"
  by (rule tokens_step [OF tokens_start step_create [OF _ sample_created]])
    (simp add: empty_tokens_def)

theorem revoke_isolates_caller_witness:
  "validateToken ''tok'' (snd (revokeToken ''w''
     (put_token ''tok'' (new_entry ''w'' CkWorker None) empty_tokens))) = None"
  using revoke_isolates_caller [OF sample_tokens_reachable, of "''w''" "''tok''" "''tok''"]
  by (simp add: put_token_def empty_tokens_def new_entry_def spread_metadata_def validateToken_def)

text \<open>
  In every reachable token table a validated token is never a panel's, is the one token
  of its caller, and no two tokens validate to the same caller.
\<close>

theorem tokens_one_per_caller:
  assumes "tokens_reachable m" and "validateToken t m = Some e"
  shows "te_callerKind e \<noteq> CkPanel \<and> (t \<noteq> [] \<longrightarrow> getToken (te_callerId e) m = Inr t) \<and>
    (\<forall>t' e'. validateToken t' m = Some e' \<and> te_callerId e' = te_callerId e \<longrightarrow> t' = t)"
proof -
  have wf: "tm_wf m" using assms(1) by (rule tokens_reachable_wf)
  have held: "map_of (callerIdToToken m) (te_callerId e) = Some t"
    using tm_wfD(2) [OF wf] assms(2) by (simp add: validateToken_def)
  have "t' = t" if "validateToken t' m = Some e'" "te_callerId e' = te_callerId e" for t' e'
    using tm_wfD(2) [OF wf, of t' e'] that held by (simp add: validateToken_def)
  moreover have "te_callerKind e \<noteq> CkPanel"
    using wf assms(2) by (auto simp: tm_wf_def validateToken_def)
  ultimately show ?thesis
    using held by (auto simp: getToken_def)
qed

theorem tokens_one_per_caller_witness:
  "getToken ''w'' (put_token ''tok'' (new_entry ''w'' CkWorker None) empty_tokens) = Inr ''tok''"
  using tokens_one_per_caller [OF sample_tokens_reachable, of "''tok''" "new_entry ''w'' CkWorker None"]
  by (simp add: put_token_def empty_tokens_def new_entry_def spread_metadata_def validateToken_def)

end
