(* ===== verification/ConnectionGrants.thy ===== *)
theory ConnectionGrants
  imports EntityCache PrincipalKinds
begin

text \<open>
  Connection grants (\<^verbatim>\<open>packages/shared/src/connectionGrants.ts\<close>): one-time credentials that
  bind a connection to a principal and, for code principals, to the exact executable
  incarnation that was active when the grant was issued. The operations take the cache's
  \<open>resolveActive\<close> (\<open>look\<close>), the current time and the fresh random token as arguments.
\<close>

subsection \<open>Grants\<close>

record user_subject =
  us_userId :: string
  us_handle :: string

record connection_grant =
  cg_token :: string
  cg_principalId :: string
  cg_issuedBy :: string
  cg_remoteDeviceKey :: "string option"
  cg_subject :: "user_subject option"
  cg_expiresAt :: int
  cg_executionDigest :: "string option"
  cg_redeemed :: bool

record grant_redemption =
  gr_principalId :: string
  gr_issuedBy :: string
  gr_remoteDeviceKey :: "string option"
  gr_subject :: "user_subject option"

record grant_validation =
  gv_principalId :: string
  gv_principalKind :: caller_kind
  gv_issuedBy :: string
  gv_remoteDeviceKey :: "string option"
  gv_subject :: "user_subject option"

type_synonym grants = "(string, connection_grant) jsmap"

datatype grant_error =
    UnregisteredPrincipal string
  | UnsealedIncarnation string

fun entity_kind_name :: "entity_kind \<Rightarrow> string" where
  "entity_kind_name Panel = ''panel''"
| "entity_kind_name Client = ''client''"
| "entity_kind_name Worker = ''worker''"
| "entity_kind_name DO = ''do''"
| "entity_kind_name Session = ''session''"
| "entity_kind_name Shell = ''shell''"
| "entity_kind_name Server = ''server''"

text \<open>\<open>None\<close> where \<open>callerKindForPrincipalKind\<close> throws.\<close>

definition entity_caller_kind :: "entity_kind \<Rightarrow> caller_kind option" where
  "entity_caller_kind k =
     (case callerKindForPrincipalKind (Some (entity_kind_name k)) of Inl _ \<Rightarrow> None | Inr x \<Rightarrow> x)"

definition is_code_identity :: "entity_record \<Rightarrow> bool" where
  "is_code_identity r = isCodeIdentityCallerKind (Some (entity_kind_name (er_kind r)))"

definition hasSealedExecutableIncarnation :: "entity_record \<Rightarrow> bool" where
  "hasSealedExecutableIncarnation r =
     (\<not> (er_kind r = Panel \<and> startsWith ''browser:'' (repoPath (er_source r))))"

definition connectableExecutionDigest :: "entity_record \<Rightarrow> (grant_error, string option) result" where
  "connectableExecutionDigest r =
     (if \<not> is_code_identity r \<or> \<not> hasSealedExecutableIncarnation r then Inr None
      else if \<not> truthy (activeBuildKey r) \<or> \<not> truthy (activeExecutionDigest r)
           \<or> activeAuthority r = None
      then Inl (UnsealedIncarnation (er_id r))
      else Inr (activeExecutionDigest r))"

definition grantMatchesActiveIncarnation :: "connection_grant \<Rightarrow> entity_record \<Rightarrow> bool" where
  "grantMatchesActiveIncarnation g r =
     (if \<not> is_code_identity r \<or> \<not> hasSealedExecutableIncarnation r
      then cg_executionDigest g = None
      else activeAuthority r \<noteq> None \<and> activeBuildKey r \<noteq> None \<and>
           activeExecutionDigest r \<noteq> None \<and> cg_executionDigest g = activeExecutionDigest r)"

definition MAX_REDEEMED_GRANTS_PER_PRINCIPAL :: nat where
  "MAX_REDEEMED_GRANTS_PER_PRINCIPAL = 16"

definition grant ::
  "(string \<Rightarrow> entity_record option) \<Rightarrow> string \<Rightarrow> string \<Rightarrow> int option \<Rightarrow> user_subject option \<Rightarrow>
   string option \<Rightarrow> string \<Rightarrow> int \<Rightarrow> grants \<Rightarrow> (grant_error, (string \<times> int) \<times> grants) result" where
  "grant look principalId issuedBy ttlMs subject deviceKey fresh now g =
     (case look principalId of
        None \<Rightarrow> Inl (UnregisteredPrincipal principalId)
      | Some record \<Rightarrow>
          (case connectableExecutionDigest record of
             Inl e \<Rightarrow> Inl e
           | Inr digest \<Rightarrow>
               (let expiresAt = now + (case ttlMs of None \<Rightarrow> 60000 | Some t \<Rightarrow> t)
                in Inr ((fresh, expiresAt),
                     jset fresh
                       \<lparr>cg_token = fresh, cg_principalId = principalId, cg_issuedBy = issuedBy,
                        cg_remoteDeviceKey = if_truthy deviceKey, cg_subject = subject,
                        cg_expiresAt = expiresAt, cg_executionDigest = if_truthy digest,
                        cg_redeemed = False\<rparr> g))))"

definition redeemedTokens :: "string \<Rightarrow> grants \<Rightarrow> string list" where
  "redeemedTokens p g = map fst (filter (\<lambda>(t, x). cg_redeemed x \<and> cg_principalId x = p) g)"

definition pruneRedeemedForPrincipal :: "string \<Rightarrow> grants \<Rightarrow> grants" where
  "pruneRedeemedForPrincipal p g =
     (let ts = redeemedTokens p g;
          excess = length ts - MAX_REDEEMED_GRANTS_PER_PRINCIPAL
      in fold jdel (take excess ts) g)"

definition redeem ::
  "(string \<Rightarrow> entity_record option) \<Rightarrow> string \<Rightarrow> string option \<Rightarrow> int \<Rightarrow> grants \<Rightarrow>
   grant_redemption option \<times> grants" where
  "redeem look token deviceKey now g =
     (case map_of g token of
        None \<Rightarrow> (None, g)
      | Some x \<Rightarrow>
          if cg_redeemed x then (None, g)
          else if cg_remoteDeviceKey x \<noteq> deviceKey then (None, g)
          else if cg_expiresAt x \<le> now then (None, jdel token g)
          else
            (case look (cg_principalId x) of
               None \<Rightarrow> (None, jdel token g)
             | Some record \<Rightarrow>
                 if \<not> grantMatchesActiveIncarnation x record then (None, jdel token g)
                 else
                   (case entity_caller_kind (er_kind record) of
                      None \<Rightarrow> (None, jdel token g)
                    | Some _ \<Rightarrow>
                        (Some \<lparr>gr_principalId = cg_principalId x, gr_issuedBy = cg_issuedBy x,
                               gr_remoteDeviceKey = if_truthy (cg_remoteDeviceKey x),
                               gr_subject = cg_subject x\<rparr>,
                         pruneRedeemedForPrincipal (cg_principalId x)
                           (jset token (x\<lparr>cg_redeemed := True\<rparr>) g)))))"

definition validate ::
  "(string \<Rightarrow> entity_record option) \<Rightarrow> string \<Rightarrow> string option \<Rightarrow> int \<Rightarrow> grants \<Rightarrow>
   grant_validation option \<times> grants" where
  "validate look token deviceKey now g =
     (case map_of g token of
        None \<Rightarrow> (None, g)
      | Some x \<Rightarrow>
          if cg_remoteDeviceKey x \<noteq> deviceKey then (None, g)
          else if \<not> cg_redeemed x \<and> cg_expiresAt x \<le> now then (None, jdel token g)
          else
            (case look (cg_principalId x) of
               None \<Rightarrow> (None, jdel token g)
             | Some record \<Rightarrow>
                 if \<not> grantMatchesActiveIncarnation x record then (None, jdel token g)
                 else
                   (case entity_caller_kind (er_kind record) of
                      None \<Rightarrow> (None, jdel token g)
                    | Some k \<Rightarrow>
                        (Some \<lparr>gv_principalId = cg_principalId x, gv_principalKind = k,
                               gv_issuedBy = cg_issuedBy x,
                               gv_remoteDeviceKey = if_truthy (cg_remoteDeviceKey x),
                               gv_subject = cg_subject x\<rparr>, g))))"

definition revokeForPrincipal :: "string \<Rightarrow> grants \<Rightarrow> nat \<times> grants" where
  "revokeForPrincipal p g =
     (length (filter (\<lambda>(t, x). cg_principalId x = p) g),
      filter (\<lambda>(t, x). cg_principalId x \<noteq> p) g)"

definition gcExpired :: "int \<Rightarrow> grants \<Rightarrow> grants" where
  "gcExpired now g = filter (\<lambda>(t, x). cg_redeemed x \<or> now < cg_expiresAt x) g"

subsection \<open>The bound on redeemed grants\<close>

definition grants_wf :: "grants \<Rightarrow> bool" where
  "grants_wf g \<longleftrightarrow> jwf g \<and>
     (\<forall>p. length (redeemedTokens p g) \<le> MAX_REDEEMED_GRANTS_PER_PRINCIPAL)"

lemma fold_jdel: "fold jdel ts g = filter (\<lambda>p. fst p \<notin> set ts) g"
proof (induction ts arbitrary: g)
  case (Cons t ts)
  then show ?case by (simp add: jdel_def filter_filter conj_commute)
qed simp

lemma filter_not_take: "distinct xs \<Longrightarrow> filter (\<lambda>x. x \<notin> set (take n xs)) xs = drop n xs"
proof (induction xs arbitrary: n)
  case (Cons x xs)
  show ?case
  proof (cases n)
    case (Suc m)
    then have "filter (\<lambda>y. y \<notin> set (take n (x # xs))) (x # xs) = filter (\<lambda>y. y \<notin> set (take m xs)) xs"
      using Cons.prems by (auto intro: filter_cong)
    then show ?thesis using Cons Suc by simp
  qed simp
qed simp

lemma redeemedTokens_filter_fst:
  "redeemedTokens p (filter (\<lambda>x. fst x \<notin> T) g) = filter (\<lambda>t. t \<notin> T) (redeemedTokens p g)"
  by (induction g) (auto simp: redeemedTokens_def)

lemma distinct_redeemedTokens: "jwf g \<Longrightarrow> distinct (redeemedTokens p g)"
  by (simp add: redeemedTokens_def jwf_def distinct_map_filter)

lemma redeemedTokens_prune:
  assumes "jwf g"
  shows "redeemedTokens p (pruneRedeemedForPrincipal p g) =
    drop (length (redeemedTokens p g) - MAX_REDEEMED_GRANTS_PER_PRINCIPAL) (redeemedTokens p g)"
  using filter_not_take [OF distinct_redeemedTokens [OF assms]]
  by (simp add: pruneRedeemedForPrincipal_def Let_def fold_jdel redeemedTokens_filter_fst)

lemma length_redeemedTokens_prune:
  assumes "jwf g"
  shows "length (redeemedTokens q (pruneRedeemedForPrincipal p g)) \<le>
    (if q = p then MAX_REDEEMED_GRANTS_PER_PRINCIPAL else length (redeemedTokens q g))"
proof (cases "q = p")
  case True
  then show ?thesis by (simp add: redeemedTokens_prune [OF assms])
next
  case False
  then show ?thesis
    by (simp add: pruneRedeemedForPrincipal_def Let_def fold_jdel redeemedTokens_filter_fst)
qed

lemma jwf_prune: "jwf g \<Longrightarrow> jwf (pruneRedeemedForPrincipal p g)"
  by (simp add: pruneRedeemedForPrincipal_def Let_def fold_jdel)

lemma length_redeemedTokens_filter:
  "length (redeemedTokens p (filter P g)) \<le> length (redeemedTokens p g)"
  by (induction g) (auto simp: redeemedTokens_def)

lemma redeemedTokens_jset_other:
  "cg_principalId x \<noteq> p \<or> \<not> cg_redeemed x \<Longrightarrow>
   length (redeemedTokens p (jset t x g)) \<le> length (redeemedTokens p g)"
  by (induction g) (auto simp: redeemedTokens_def)

lemma grants_wf_filter: "grants_wf g \<Longrightarrow> grants_wf (filter P g)"
  unfolding grants_wf_def using length_redeemedTokens_filter le_trans by blast

lemma grants_wf_jdel: "grants_wf g \<Longrightarrow> grants_wf (jdel t g)"
  by (simp add: jdel_def grants_wf_filter)

lemma grants_wf_grant:
  assumes "grants_wf g" and "grant look p iss ttl sub dk fresh now g = Inr (r, g')"
  shows "grants_wf g'"
proof -
  from assms(2) obtain x where "g' = jset fresh x g" and "\<not> cg_redeemed x"
    by (auto simp: grant_def Let_def split: option.splits sum.splits)
  then show ?thesis
    using assms(1) redeemedTokens_jset_other [of x _ fresh g] le_trans
    unfolding grants_wf_def by blast
qed

lemma grants_wf_mark_prune:
  assumes "grants_wf g"
  shows "grants_wf (pruneRedeemedForPrincipal (cg_principalId x) (jset t x g))"
proof -
  let ?g = "jset t x g"
  have wf: "jwf ?g" using assms by (simp add: grants_wf_def)
  have "length (redeemedTokens q (pruneRedeemedForPrincipal (cg_principalId x) ?g))
      \<le> MAX_REDEEMED_GRANTS_PER_PRINCIPAL" for q
  proof (cases "q = cg_principalId x")
    case True
    then show ?thesis using length_redeemedTokens_prune [OF wf, of q q] by simp
  next
    case False
    then have "length (redeemedTokens q ?g) \<le> length (redeemedTokens q g)"
      by (intro redeemedTokens_jset_other) auto
    also have "\<dots> \<le> MAX_REDEEMED_GRANTS_PER_PRINCIPAL"
      using assms by (simp add: grants_wf_def)
    finally show ?thesis
      using length_redeemedTokens_prune [OF wf, of q "cg_principalId x"] False by simp
  qed
  then show ?thesis using wf jwf_prune by (auto simp: grants_wf_def)
qed

text \<open>Each way a redemption can end: nothing changes, the grant is dropped, or it is redeemed.\<close>

lemma redeem_cases:
  obtains (none) "redeem look t dk now g = (None, g)"
  | (dropped) "redeem look t dk now g = (None, jdel t g)"
  | (redeemed) x r k where "map_of g t = Some x" and "\<not> cg_redeemed x"
      and "cg_remoteDeviceKey x = dk" and "now < cg_expiresAt x"
      and "look (cg_principalId x) = Some r" and "grantMatchesActiveIncarnation x r"
      and "entity_caller_kind (er_kind r) = Some k"
      and "redeem look t dk now g =
        (Some \<lparr>gr_principalId = cg_principalId x, gr_issuedBy = cg_issuedBy x,
               gr_remoteDeviceKey = if_truthy dk, gr_subject = cg_subject x\<rparr>,
         pruneRedeemedForPrincipal (cg_principalId x) (jset t (x\<lparr>cg_redeemed := True\<rparr>) g))"
proof (cases "map_of g t")
  case None
  then show ?thesis using none by (simp add: redeem_def)
next
  case (Some x)
  show ?thesis
  proof (cases "cg_redeemed x \<or> cg_remoteDeviceKey x \<noteq> dk")
    case True
    then show ?thesis using none Some by (auto simp: redeem_def)
  next
    case notearly: False
    show ?thesis
    proof (cases "now < cg_expiresAt x \<and> (\<exists>r k. look (cg_principalId x) = Some r
        \<and> grantMatchesActiveIncarnation x r \<and> entity_caller_kind (er_kind r) = Some k)")
      case True
      then show ?thesis using redeemed Some notearly by (auto simp: redeem_def)
    next
      case False
      then have "redeem look t dk now g = (None, jdel t g)"
        using Some notearly by (auto simp: redeem_def split: option.splits)
      then show ?thesis by (rule dropped)
    qed
  qed
qed

lemma grants_wf_redeem: "grants_wf g \<Longrightarrow> grants_wf (snd (redeem look t dk now g))"
proof (rule redeem_cases [of look t dk now g])
  fix x
  assume wf: "grants_wf g"
    and r: "redeem look t dk now g =
        (Some \<lparr>gr_principalId = cg_principalId x, gr_issuedBy = cg_issuedBy x,
               gr_remoteDeviceKey = if_truthy dk, gr_subject = cg_subject x\<rparr>,
         pruneRedeemedForPrincipal (cg_principalId x) (jset t (x\<lparr>cg_redeemed := True\<rparr>) g))"
  show "grants_wf (snd (redeem look t dk now g))"
    using grants_wf_mark_prune [OF wf, of "x\<lparr>cg_redeemed := True\<rparr>" t] by (simp add: r)
qed (simp_all add: grants_wf_jdel)

lemma validate_cases:
  obtains (none) "validate look t dk now g = (None, g)"
  | (dropped) "validate look t dk now g = (None, jdel t g)"
  | (valid) x r k where "map_of g t = Some x" and "cg_remoteDeviceKey x = dk"
      and "cg_redeemed x \<or> now < cg_expiresAt x"
      and "look (cg_principalId x) = Some r" and "grantMatchesActiveIncarnation x r"
      and "entity_caller_kind (er_kind r) = Some k"
      and "validate look t dk now g =
        (Some \<lparr>gv_principalId = cg_principalId x, gv_principalKind = k,
               gv_issuedBy = cg_issuedBy x, gv_remoteDeviceKey = if_truthy dk,
               gv_subject = cg_subject x\<rparr>, g)"
proof (cases "map_of g t")
  case None
  then show ?thesis using none by (simp add: validate_def)
next
  case (Some x)
  show ?thesis
  proof (cases "cg_remoteDeviceKey x = dk")
    case False
    then show ?thesis using none Some by (simp add: validate_def)
  next
    case dk: True
    show ?thesis
    proof (cases "(cg_redeemed x \<or> now < cg_expiresAt x) \<and> (\<exists>r k. look (cg_principalId x) = Some r
        \<and> grantMatchesActiveIncarnation x r \<and> entity_caller_kind (er_kind r) = Some k)")
      case True
      then show ?thesis using valid Some dk by (auto simp: validate_def)
    next
      case False
      then have "validate look t dk now g = (None, jdel t g)"
        using Some dk by (auto simp: validate_def split: option.splits)
      then show ?thesis by (rule dropped)
    qed
  qed
qed

lemma grants_wf_validate: "grants_wf g \<Longrightarrow> grants_wf (snd (validate look t dk now g))"
  by (rule validate_cases [of look t dk now g]) (simp_all add: grants_wf_jdel)

subsection \<open>Runs\<close>

text \<open>
  The cache's look-up (\<open>look\<close>) and the time may be different at every step; a step is
  labelled with the token it mints.
\<close>

inductive grants_step :: "string option \<Rightarrow> grants \<Rightarrow> grants \<Rightarrow> bool" where
  step_grant: "grant look p iss ttl sub dk fresh now g = Inr (r, g') \<Longrightarrow> grants_step (Some fresh) g g'"
| step_redeem: "grants_step None g (snd (redeem look t dk now g))"
| step_validate: "grants_step None g (snd (validate look t dk now g))"
| step_revoke_principal: "grants_step None g (snd (revokeForPrincipal p g))"
| step_gc: "grants_step None g (gcExpired now g)"

inductive grants_reachable :: "grants \<Rightarrow> bool" where
  grants_start: "grants_reachable []"
| grants_next: "grants_reachable g \<Longrightarrow> grants_step m g g' \<Longrightarrow> grants_reachable g'"

text \<open>A run in which the (random) token \<open>t\<close> is not minted again.\<close>

inductive grants_run :: "string \<Rightarrow> grants \<Rightarrow> grants \<Rightarrow> bool" where
  grants_run_refl: "grants_run t g g"
| grants_run_step: "grants_run t g h \<Longrightarrow> grants_step m h h' \<Longrightarrow> m \<noteq> Some t \<Longrightarrow> grants_run t g h'"

lemma grants_step_wf: "grants_step m g g' \<Longrightarrow> grants_wf g \<Longrightarrow> grants_wf g'"
  by (induction rule: grants_step.induct)
    (auto simp: revokeForPrincipal_def gcExpired_def
      intro: grants_wf_grant grants_wf_redeem grants_wf_validate grants_wf_filter)

lemma grants_reachable_wf: "grants_reachable g \<Longrightarrow> grants_wf g"
proof (induction rule: grants_reachable.induct)
  case grants_start
  show ?case by (simp add: grants_wf_def redeemedTokens_def)
qed (blast intro: grants_step_wf)

subsection \<open>Grants and the life of the entity\<close>

text \<open>A token that is unknown or already redeemed cannot be redeemed, and never becomes redeemable.\<close>

definition spent :: "string \<Rightarrow> grants \<Rightarrow> bool" where
  "spent t g \<longleftrightarrow> (case map_of g t of None \<Rightarrow> True | Some x \<Rightarrow> cg_redeemed x)"

lemma map_of_filter_fst: "map_of (filter (\<lambda>p. fst p \<notin> T) m) t = (if t \<in> T then None else map_of m t)"
  by (induction m) auto

lemma spent_prune: "spent t g \<Longrightarrow> spent t (pruneRedeemedForPrincipal p g)"
  by (simp add: spent_def pruneRedeemedForPrincipal_def Let_def fold_jdel map_of_filter_fst)

lemma spent_jset: "spent t g \<Longrightarrow> u \<noteq> t \<or> cg_redeemed x \<Longrightarrow> spent t (jset u x g)"
  by (auto simp: spent_def)

lemma spent_jdel: "spent t g \<Longrightarrow> spent t (jdel u g)"
  by (simp add: spent_def)

lemma spent_filter: "spent t g \<Longrightarrow> jwf g \<Longrightarrow> spent t (filter P g)"
  by (auto simp: spent_def map_of_filter split: option.splits)

lemma redeem_spends:
  assumes "fst (redeem look t dk now g) = Some v"
  shows "spent t (snd (redeem look t dk now g))"
  by (rule redeem_cases [of look t dk now g])
    (use assms in \<open>auto simp: spent_def intro!: spent_prune [unfolded spent_def]\<close>)

lemma spent_not_redeemed: "spent t g \<Longrightarrow> fst (redeem look t dk now g) = None"
  by (auto simp: spent_def redeem_def split: option.splits)

lemma spent_redeem: "spent t g \<Longrightarrow> spent t (snd (redeem look u dk now g))"
  by (rule redeem_cases [of look u dk now g]) (auto intro!: spent_jdel spent_prune spent_jset)

lemma spent_validate: "spent t g \<Longrightarrow> spent t (snd (validate look u dk now g))"
  by (rule validate_cases [of look u dk now g]) (auto intro: spent_jdel)

lemma spent_step:
  "grants_step m g g' \<Longrightarrow> m \<noteq> Some t \<Longrightarrow> grants_wf g \<Longrightarrow> spent t g \<Longrightarrow> spent t g'"
proof (induction rule: grants_step.induct)
  case (step_grant look p iss ttl sub dk fresh now g r g')
  then obtain x where "g' = jset fresh x g"
    by (auto simp: grant_def Let_def split: option.splits sum.splits)
  with step_grant show ?case by (auto intro: spent_jset)
qed (auto simp: revokeForPrincipal_def gcExpired_def grants_wf_def
    intro: spent_filter spent_redeem spent_validate)

lemma spent_run: "grants_run t g h \<Longrightarrow> grants_wf g \<Longrightarrow> spent t g \<Longrightarrow> grants_wf h \<and> spent t h"
  by (induction rule: grants_run.induct) (auto dest: spent_step grants_step_wf)

context entity_mirror
begin

lemma validate_active:
  assumes "good c" and "fst (validate (look c) t dk now g) = Some v"
  shows "\<exists>r. look c (gv_principalId v) = Some r \<and> er_status r = Active \<and> er_id r = gv_principalId v
           \<and> entity_caller_kind (er_kind r) = Some (gv_principalKind v)
           \<and> (\<exists>x. map_of g t = Some x \<and> grantMatchesActiveIncarnation x r)"
  using assms
  by (rule_tac validate_cases [of "look c" t dk now g]) (auto dest: look_active look_id)

lemma validate_retired:
  assumes "er_status r \<noteq> Active" and "map_of g t = Some x" and "cg_principalId x = er_id r"
  shows "fst (validate (look (retire r c)) t dk now g) = None"
    and "fst (redeem (look (retire r c)) t dk now g) = None"
  using assms by (simp_all add: validate_def redeem_def retired_gone)

lemma validate_forgotten:
  assumes "map_of g t = Some x" and "cg_principalId x = i"
  shows "fst (validate (look (forget i c)) t dk now g) = None"
    and "fst (redeem (look (forget i c)) t dk now g) = None"
  using assms by (simp_all add: validate_def redeem_def forgotten_gone)

end


text \<open>An instance: a shell principal, which is not a code identity and needs no sealed image.\<close>

definition shell_look :: "string \<Rightarrow> entity_record option" where
  "shell_look i = Some (sample_entity i Shell Active)"

definition open_grant :: "string \<Rightarrow> bool \<Rightarrow> string \<times> connection_grant" where
  "open_grant t b = (t, \<lparr>cg_token = t, cg_principalId = ''p'', cg_issuedBy = ''i'',
     cg_remoteDeviceKey = None, cg_subject = None, cg_expiresAt = 60, cg_executionDigest = None,
     cg_redeemed = b\<rparr>)"

lemmas grant_sample_simps = shell_look_def open_grant_def sample_entity_def
  grantMatchesActiveIncarnation_def is_code_identity_def isCodeIdentityCallerKind_def
  isPrincipalKind_def jhas_def PRINCIPAL_KIND_REGISTRY_def object_prototype_def
  entity_caller_kind_def callerKindForPrincipalKind_def if_truthy_def
  pruneRedeemedForPrincipal_def redeemedTokens_def Let_def MAX_REDEEMED_GRANTS_PER_PRINCIPAL_def
  connectableExecutionDigest_def hasSealedExecutableIncarnation_def

section \<open>Properties\<close>

text \<open>
  C24. A connection grant is redeemed at most once: once a redemption has succeeded, no later
  redemption of the token succeeds, after any run of grants, redemptions, validations,
  revocations and sweeps, with any state of the entity cache and at any time.
\<close>

theorem grant_redeems_once:
  assumes "grants_reachable g" and "fst (redeem look t dk now g) = Some v"
    and "grants_run t (snd (redeem look t dk now g)) h"
  shows "fst (redeem look' t dk' now' h) = None"
  using spent_run [OF assms(3) grants_wf_redeem [OF grants_reachable_wf [OF assms(1)]]
      redeem_spends [OF assms(2)]]
  by (auto intro: spent_not_redeemed)

lemma sample_granted: "grant shell_look ''p'' ''i'' (Some 60) None None ''t'' 0 []
    = Inr ((''t'', 60), [open_grant ''t'' False])"
  by (simp add: grant_def grant_sample_simps)

lemma sample_reachable: "grants_reachable [open_grant ''t'' False]"
  by (rule grants_next [OF grants_start step_grant [OF sample_granted]])

lemma sample_redeemed: "redeem shell_look ''t'' None 5 [open_grant ''t'' False]
    = (Some \<lparr>gr_principalId = ''p'', gr_issuedBy = ''i'', gr_remoteDeviceKey = None, gr_subject = None\<rparr>,
       [open_grant ''t'' True])"
  by (simp add: redeem_def grant_sample_simps)

theorem grant_redeems_once_witness:
  "fst (redeem shell_look ''t'' None 6 [open_grant ''t'' True]) = None"
  using grant_redeems_once [OF sample_reachable, of shell_look "''t''" None 5 _ "[open_grant ''t'' True]"]
  by (simp add: sample_redeemed grants_run_refl)

text \<open>
  In every reachable grant table each principal has at most
  \<open>MAX_REDEEMED_GRANTS_PER_PRINCIPAL\<close> redeemed grants, however often it reconnects.
\<close>

theorem redeemed_grants_bounded:
  assumes "grants_reachable g"
  shows "length (redeemedTokens p g) \<le> MAX_REDEEMED_GRANTS_PER_PRINCIPAL"
  using grants_reachable_wf [OF assms] by (simp add: grants_wf_def)

theorem redeemed_grants_bounded_witness:
  "length (redeemedTokens ''p'' [open_grant ''t'' True]) \<le> MAX_REDEEMED_GRANTS_PER_PRINCIPAL"
proof (rule redeemed_grants_bounded)
  show "grants_reachable [open_grant ''t'' True]"
    using grants_next [OF sample_reachable step_redeem, of shell_look "''t''" None 5]
    by (simp add: sample_redeemed)
qed

text \<open>
  What \<open>validate\<close> accepts: the principal is active in the entity cache, the returned
  kind is the caller kind of its entity, the presented device key is the one the grant was
  issued for, and for a sealed executable principal the grant carries exactly the execution
  digest that is active now. A grant whose principal has been retired, deleted or invalidated
  is neither validated nor redeemed.
\<close>

theorem validated_grant_is_current:
  assumes "cache_reachable c" and "map_of g t = Some x"
  shows "(\<forall>v. fst (validate (resolveActive c) t dk now g) = Some v \<longrightarrow>
      (\<exists>r. resolveActive c (gv_principalId v) = Some r \<and> er_status r = Active \<and>
        entity_caller_kind (er_kind r) = Some (gv_principalKind v) \<and> cg_remoteDeviceKey x = dk \<and>
        (is_code_identity r \<and> hasSealedExecutableIncarnation r \<longrightarrow>
          cg_executionDigest x = activeExecutionDigest r \<and> cg_executionDigest x \<noteq> None)))
    \<and> (\<forall>r. er_status r \<noteq> Active \<and> er_id r = cg_principalId x \<longrightarrow>
        fst (validate (resolveActive (onRetire r c)) t dk now g) = None \<and>
        fst (redeem (resolveActive (onRetire r c)) t dk now g) = None)
    \<and> fst (validate (resolveActive (onDelete (cg_principalId x) c)) t dk now g) = None
    \<and> fst (redeem (resolveActive (invalidate (cg_principalId x) c)) t dk now g) = None"
proof -
  have wf: "cache_wf c"
    using assms(1) by (rule cache_reachable_wf_lemma)
  have "\<exists>r. resolveActive c (gv_principalId v) = Some r \<and> er_status r = Active \<and>
        entity_caller_kind (er_kind r) = Some (gv_principalKind v) \<and> cg_remoteDeviceKey x = dk \<and>
        (is_code_identity r \<and> hasSealedExecutableIncarnation r \<longrightarrow>
          cg_executionDigest x = activeExecutionDigest r \<and> cg_executionDigest x \<noteq> None)"
    if v: "fst (validate (resolveActive c) t dk now g) = Some v" for v
  proof -
    have "cg_remoteDeviceKey x = dk"
      using v assms(2) by (auto simp: validate_def split: if_splits)
    then show ?thesis
      using mirror.validate_active [OF wf v] assms(2)
      by (auto simp: grantMatchesActiveIncarnation_def)
  qed
  then show ?thesis
    using mirror.validate_retired [OF _ assms(2)] mirror.validate_forgotten(1) [OF assms(2)]
      mirror_inv.validate_forgotten(2) [OF assms(2)] by auto
qed

theorem validated_grant_is_current_witness:
  "fst (redeem (resolveActive (invalidate ''p'' empty_cache)) ''t'' None 5 [open_grant ''t'' False]) = None"
proof -
  have "map_of [open_grant ''t'' False] ''t'' = Some (snd (open_grant ''t'' False))"
    by (simp add: open_grant_def)
  from validated_grant_is_current [OF reach_empty this, of None 5]
  show ?thesis by (simp add: open_grant_def)
qed

text \<open>
  The bound evicts by the order of issue, not of redemption: with sixteen grants of a
  principal already redeemed, redeeming one that was issued before them succeeds and evicts
  that very grant, so the connection's next validation fails.
\<close>

definition late_redemption :: grants where
  "late_redemption = open_grant ''t0'' False #
     map (\<lambda>t. open_grant t True)
       [''t1'', ''t2'', ''t3'', ''t4'', ''t5'', ''t6'', ''t7'', ''t8'', ''t9'', ''u0'', ''u1'',
        ''u2'', ''u3'', ''u4'', ''u5'', ''u6'']"

theorem late_redemption_evicts_itself:
  "fst (redeem shell_look ''t0'' None 5 late_redemption) \<noteq> None \<and>
   fst (validate shell_look ''t0'' None 6 (snd (redeem shell_look ''t0'' None 5 late_redemption))) = None"
  by (simp add: redeem_def validate_def late_redemption_def grant_sample_simps jdel_def)

end
