(* ===== verification/PanelTypes.thy ===== *)
theory PanelTypes
  imports Prelude
begin

text \<open>
  The vocabulary of the panel runtime: slot and entity ids
  (\<^verbatim>\<open>packages/shared/src/panel/idValues.ts\<close>), client registrations, leases, lease versions and
  lease events (\<^verbatim>\<open>packages/shared/src/panel/panelLease.ts\<close>), and the attempts, page and slot
  observations of \<^verbatim>\<open>packages/shared/src/panel/observation.ts\<close>.
\<close>

subsection \<open>Ids\<close>

definition PANEL_SLOT_PREFIX :: string where
  "PANEL_SLOT_PREFIX = ''panel:tree/''"

definition PANEL_ENTITY_PREFIX :: string where
  "PANEL_ENTITY_PREFIX = ''panel:nav-''"

datatype panel_error =
    NotPanelSlot string
  | NotPanelEntity string
  | UnknownClientSession string
  | PresentedByViewHost string

definition isPanelSlotId :: "string \<Rightarrow> bool" where
  "isPanelSlotId v = startsWith PANEL_SLOT_PREFIX v"

definition isPanelEntityId :: "string \<Rightarrow> bool" where
  "isPanelEntityId v = startsWith PANEL_ENTITY_PREFIX v"

definition asPanelSlotId :: "string \<Rightarrow> (panel_error, string) result" where
  "asPanelSlotId v = (if \<not> startsWith PANEL_SLOT_PREFIX v then Inl (NotPanelSlot v) else Inr v)"

definition asPanelEntityId :: "string \<Rightarrow> (panel_error, string) result" where
  "asPanelEntityId v = (if \<not> startsWith PANEL_ENTITY_PREFIX v then Inl (NotPanelEntity v) else Inr v)"

lemma asPanelSlotId_iff [simp]: "asPanelSlotId v = Inr w \<longleftrightarrow> isPanelSlotId v \<and> w = v"
  by (auto simp: asPanelSlotId_def isPanelSlotId_def)

lemma asPanelEntityId_iff [simp]: "asPanelEntityId v = Inr w \<longleftrightarrow> isPanelEntityId v \<and> w = v"
  by (auto simp: asPanelEntityId_def isPanelEntityId_def)

lemma asPanel_Inl_iff [simp]:
  "asPanelSlotId v = Inl e \<longleftrightarrow> \<not> isPanelSlotId v \<and> e = NotPanelSlot v"
  "asPanelEntityId v = Inl e \<longleftrightarrow> \<not> isPanelEntityId v \<and> e = NotPanelEntity v"
  by (auto simp: asPanelSlotId_def isPanelSlotId_def asPanelEntityId_def isPanelEntityId_def)

lemma asPanel_Inr [simp]:
  "isPanelSlotId v \<Longrightarrow> asPanelSlotId v = Inr v" "isPanelEntityId v \<Longrightarrow> asPanelEntityId v = Inr v"
  by simp_all

lemma slot_not_entity: "\<not> (isPanelSlotId v \<and> isPanelEntityId v)"
  by (auto simp: isPanelSlotId_def isPanelEntityId_def startsWith_iff PANEL_SLOT_PREFIX_def
      PANEL_ENTITY_PREFIX_def)

subsection \<open>Clients and leases\<close>

datatype client_platform = Desktop | Headless | Mobile

record host_registration =
  hr_clientSessionId :: string
  hr_hostConnectionId :: "string option"
  hr_ownerCallerId :: "string option"
  hr_label :: string
  hr_platform :: client_platform
  hr_supportsCdp :: "bool option"
  hr_loadOnLeaseAssignment :: "bool option"

definition createPanelHostRegistration :: "host_registration \<Rightarrow> host_registration" where
  "createPanelHostRegistration r = r\<lparr>hr_hostConnectionId :=
     Some (case hr_hostConnectionId r of None \<Rightarrow> hr_clientSessionId r | Some h \<Rightarrow> h)\<rparr>"

record client_session =
  cs_clientSessionId :: string
  cs_hostConnectionId :: "string option"
  cs_ownerCallerId :: "string option"
  cs_label :: string
  cs_platform :: client_platform
  cs_supportsCdp :: "bool option"
  cs_loadOnLeaseAssignment :: "bool option"
  cs_connectedAt :: int
  cs_lastSeenAt :: int

record lease_version =
  lv_epoch :: string
  lv_counter :: nat

record runtime_lease =
  l_slotId :: string
  l_runtimeEntityId :: string
  l_clientSessionId :: string
  l_hostConnectionId :: string
  l_connectionId :: string
  l_holderLabel :: string
  l_platform :: client_platform
  l_supportsCdp :: bool
  l_loadOnLeaseAssignment :: bool
  l_keepLoaded :: "bool option"
  l_acquiredAt :: int
  l_expiresAt :: "int option"

text \<open>\<open>Boolean(lease.keepLoaded)\<close>, also \<open>lease.keepLoaded ?? false\<close>.\<close>

definition keeps_loaded :: "runtime_lease \<Rightarrow> bool" where
  "keeps_loaded l \<longleftrightarrow> l_keepLoaded l = Some True"

record lease_request =
  lr_slotId :: string
  lr_clientSessionId :: string
  lr_connectionId :: string
  lr_hostConnectionId :: "string option"

definition createPanelRuntimeLeaseRequest ::
  "string \<Rightarrow> string \<Rightarrow> string \<Rightarrow> string option \<Rightarrow> lease_request" where
  "createPanelRuntimeLeaseRequest slot client conn host =
     \<lparr>lr_slotId = slot, lr_clientSessionId = client, lr_connectionId = conn,
      lr_hostConnectionId = (if truthy host then host else None)\<rparr>"

record lease_snapshot =
  ls_version :: lease_version
  ls_leases :: "runtime_lease list"

datatype lease_reason = Acquired | Released | Revoked | Expired | LeaseRetired

record lease_event =
  le_version :: lease_version
  le_slotId :: string
  le_runtimeEntityId :: string
  le_previous :: "runtime_lease option"
  le_next :: "runtime_lease option"
  le_reason :: lease_reason

record acquire_result =
  ar_acquired :: bool
  ar_lease :: runtime_lease
  ar_version :: lease_version

subsection \<open>Attempts and observations\<close>

datatype attempt_phase = Pending | Loading | Booting | Ready | Failed | Stopped

datatype attempt_reporter = ByCoordinator | ByBuild | ByMaterialization | ByRenderer | ByHost

datatype failure_stage =
    BuildStage | BundleLoad | ConfigStage | EntryStage | Navigation | RendererCrash
  | BootStall | MaterializationStage

datatype stop_reason = Superseded | RetiredStop | Unloaded | HostLost

datatype failure_code =
    UnitNotFound | RefNotFound | ManifestInvalid | DependencyResolutionFailed | CompileFailed
  | BuildIdentityInvalid | HostUnavailable | LeaseConflict | NavigationFailed | AssetUnavailable
  | AssetTransportFailed | EntryThrew | BootStalled | RenderCrashed | PanelNotFound | UnknownFailure

datatype stall_detail = NoProgress | Unobservable

record transport_failure =
  tf_url :: string
  tf_netError :: string

text \<open>The phases a page reports are \<open>Loading\<close>, \<open>Booting\<close>, \<open>Ready\<close> and \<open>Failed\<close>.\<close>

record boot_observation =
  bo_phase :: attempt_phase
  bo_runtimeEntityId :: "string option"
  bo_source :: "string option"
  bo_contextId :: "string option"
  bo_effectiveVersion :: "string option"
  bo_buildKey :: "string option"
  bo_message :: "string option"
  bo_errorName :: "string option"
  bo_stack :: "string option"
  bo_failureStage :: "failure_stage option"
  bo_transportFailure :: "transport_failure option"
  bo_updatedAt :: "int option"

datatype boot_probe = Observed boot_observation | Unavailable

record page_observation =
  po_url :: string
  po_loading :: bool
  po_boot :: boot_probe

text \<open>The diagnostics of a failure: the network evidence, or the counts of a stalled boot.\<close>

datatype failure_diagnostics =
    TransportDiagnostics string string
  | StallDiagnostics nat nat nat "page_observation option"

record attempt_failure =
  af_stage :: failure_stage
  af_code :: failure_code
  af_message :: "string option"
  af_stack :: "string option"
  af_detail :: "stall_detail option"
  af_diagnostics :: "failure_diagnostics option"

record panel_attempt =
  pa_epoch :: string
  pa_attemptId :: string
  pa_slotId :: string
  pa_runtimeEntityId :: string
  pa_buildKey :: "string option"
  pa_effectiveVersion :: "string option"
  pa_hostConnectionId :: "string option"
  pa_phase :: attempt_phase
  pa_revision :: nat
  pa_failure :: "attempt_failure option"
  pa_stopReason :: "stop_reason option"
  pa_reporter :: attempt_reporter
  pa_updatedAt :: int

datatype build_status = Building | BuildReady | BuildFailed

record build_state =
  bs_state :: build_status
  bs_buildKey :: "string option"

record slot_observation =
  so_attempt :: "panel_attempt option"
  so_reachable :: bool
  so_connectionId :: "string option"
  so_holder :: "(string \<times> client_platform \<times> bool) option"
  so_view :: "(string \<times> bool) option"
  so_build :: "build_state option"
  so_version :: lease_version

text \<open>\<open>attempt.phase === "failed" || attempt.phase === "stopped"\<close>.\<close>

definition terminal :: "attempt_phase \<Rightarrow> bool" where
  "terminal p \<longleftrightarrow> p = Failed \<or> p = Stopped"

lemma terminal_simps [simp]:
  "terminal Failed" "terminal Stopped" "\<not> terminal Pending" "\<not> terminal Loading"
  "\<not> terminal Booting" "\<not> terminal Ready"
  by (simp_all add: terminal_def)

end
