(* ===== verification/LeaseTracker.thy ===== *)
theory LeaseTracker
  imports PanelTypes
begin

text \<open>
  The lease state machine of a panel host (\<^verbatim>\<open>packages/shared/src/panel/leaseTracker.ts\<close>): it
  turns the coordinator's snapshots and lease events into load and unload intents, and
  remembers the leases this client session holds.
\<close>

subsection \<open>State and operations\<close>

datatype unload_reason = LeaseTransfer | ReleasedLease | StaleLease

datatype lease_intent =
    Load string string string  \<comment> \<open>slot, runtime entity, connection\<close>
  | Unload string unload_reason

datatype lease_disposition =
    Assigned runtime_lease
  | Unassigned string unload_reason runtime_lease
  | Unrelated

record held_lease =
  h_runtimeEntityId :: string
  h_connectionId :: string
  h_keepLoaded :: bool

record tracker =
  t_held :: "(string, held_lease) jsmap"
  t_version :: "lease_version option"
  t_clientSessionId :: string

definition new_tracker :: "string \<Rightarrow> tracker" where
  "new_tracker c = \<lparr>t_held = [], t_version = None, t_clientSessionId = c\<rparr>"

definition versionNewer :: "lease_version \<Rightarrow> lease_version option \<Rightarrow> bool" where
  "versionNewer a b =
     (case b of
        None \<Rightarrow> True
      | Some b \<Rightarrow> if lv_epoch a \<noteq> lv_epoch b then True else lv_counter a > lv_counter b)"

definition classifyRuntimeLeaseChange :: "string \<Rightarrow> lease_event \<Rightarrow> lease_disposition" where
  "classifyRuntimeLeaseChange c ev =
     (if map_option l_clientSessionId (le_next ev) = Some c then Assigned (the (le_next ev))
      else if map_option l_clientSessionId (le_previous ev) = Some c
      then Unassigned (le_slotId ev) (if le_next ev \<noteq> None then LeaseTransfer else ReleasedLease)
             (the (le_previous ev))
      else Unrelated)"

definition heldSlots :: "tracker \<Rightarrow> string list" where
  "heldSlots t = jkeys (t_held t)"

definition heldLease :: "string \<Rightarrow> tracker \<Rightarrow> held_lease option" where
  "heldLease s t = map_of (t_held t) s"

definition held_of :: "runtime_lease \<Rightarrow> held_lease" where
  "held_of l = \<lparr>h_runtimeEntityId = l_runtimeEntityId l, h_connectionId = l_connectionId l,
     h_keepLoaded = keeps_loaded l\<rparr>"

definition load_of :: "string \<Rightarrow> runtime_lease \<Rightarrow> lease_intent" where
  "load_of s l = Load s (l_runtimeEntityId l) (l_connectionId l)"

definition mine_of :: "string \<Rightarrow> runtime_lease list \<Rightarrow> (string, runtime_lease) jsmap" where
  "mine_of c ls = fold (\<lambda>l m. if l_clientSessionId l = c then jset (l_slotId l) l m else m) ls []"

text \<open>One round of the loop over the held leases.\<close>

definition reconcile_held ::
  "(string, runtime_lease) jsmap \<Rightarrow> string \<times> held_lease \<Rightarrow>
   (string, held_lease) jsmap \<times> lease_intent list \<Rightarrow> (string, held_lease) jsmap \<times> lease_intent list" where
  "reconcile_held mine = (\<lambda>(slot, current) (held, intents).
     case map_of mine slot of
       None \<Rightarrow>
         if h_keepLoaded current then (held, intents)
         else (jdel slot held, intents @ [Unload slot LeaseTransfer])
     | Some next \<Rightarrow>
         if l_connectionId next \<noteq> h_connectionId current
          \<or> l_runtimeEntityId next \<noteq> h_runtimeEntityId current
         then (jset slot (held_of next) held, intents @ [Unload slot StaleLease, load_of slot next])
         else if keeps_loaded next \<noteq> h_keepLoaded current
         then (jset slot (current\<lparr>h_keepLoaded := keeps_loaded next\<rparr>) held, intents)
         else (held, intents))"

definition reconcile_new ::
  "string \<times> runtime_lease \<Rightarrow> (string, held_lease) jsmap \<times> lease_intent list \<Rightarrow>
   (string, held_lease) jsmap \<times> lease_intent list" where
  "reconcile_new = (\<lambda>(slot, l) (held, intents).
     if \<not> jhas held slot then (jset slot (held_of l) held, intents @ [load_of slot l])
     else (held, intents))"

definition reconcile :: "lease_snapshot \<Rightarrow> tracker \<Rightarrow> lease_intent list \<times> tracker" where
  "reconcile snap t =
     (let mine = mine_of (t_clientSessionId t) (ls_leases snap);
          (held1, intents1) = fold (reconcile_held mine) (t_held t) (t_held t, []);
          (held2, intents2) = fold reconcile_new mine (held1, intents1)
      in (intents2, t\<lparr>t_version := Some (ls_version snap), t_held := held2\<rparr>))"

definition apply_event :: "lease_event \<Rightarrow> tracker \<Rightarrow> lease_intent list \<times> tracker" where
  "apply_event ev t =
     (if \<not> versionNewer (le_version ev) (t_version t) then ([], t)
      else
        (let t = t\<lparr>t_version := Some (le_version ev)\<rparr>;
             slot = le_slotId ev
         in case (classifyRuntimeLeaseChange (t_clientSessionId t) ev, map_of (t_held t) slot) of
              (Assigned l, None) \<Rightarrow>
                ([load_of slot l], t\<lparr>t_held := jset slot (held_of l) (t_held t)\<rparr>)
            | (Assigned l, Some current) \<Rightarrow>
                if h_connectionId current \<noteq> l_connectionId l
                 \<or> h_runtimeEntityId current \<noteq> l_runtimeEntityId l
                then ([Unload slot StaleLease, load_of slot l],
                      t\<lparr>t_held := jset slot (held_of l) (t_held t)\<rparr>)
                else if keeps_loaded l \<noteq> h_keepLoaded current
                then ([], t\<lparr>t_held := jset slot (current\<lparr>h_keepLoaded := keeps_loaded l\<rparr>) (t_held t)\<rparr>)
                else ([], t)
            | (Unassigned _ reason _, Some current) \<Rightarrow>
                if h_keepLoaded current then ([], t)
                else ([Unload slot reason], t\<lparr>t_held := jdel slot (t_held t)\<rparr>)
            | _ \<Rightarrow> ([], t)))"

definition drop_slot :: "string \<Rightarrow> tracker \<Rightarrow> tracker" where
  "drop_slot s t = t\<lparr>t_held := jdel s (t_held t)\<rparr>"


subsection \<open>What the intents do to the loaded pages\<close>

text \<open>
  The host's loaded pages, by slot. Loading a slot that is already loaded and unloading one
  that is not are failures.
\<close>

type_synonym pages = "string \<rightharpoonup> string \<times> string"

fun run_intent :: "lease_intent \<Rightarrow> pages \<Rightarrow> pages option" where
  "run_intent (Load s e c) p = (if p s = None then Some (p(s \<mapsto> (e, c))) else None)"
| "run_intent (Unload s r) p = (if p s = None then None else Some (p(s := None)))"

fun run_intents :: "lease_intent list \<Rightarrow> pages \<Rightarrow> pages option" where
  "run_intents [] p = Some p"
| "run_intents (i # is) p = Option.bind (run_intent i p) (run_intents is)"

definition page_of :: "held_lease \<Rightarrow> string \<times> string" where
  "page_of h = (h_runtimeEntityId h, h_connectionId h)"

definition pages_of :: "(string \<rightharpoonup> held_lease) \<Rightarrow> pages" where
  "pages_of m = (\<lambda>s. map_option page_of (m s))"

definition tracked_pages :: "tracker \<Rightarrow> pages" where
  "tracked_pages t = pages_of (map_of (t_held t))"

lemma run_intents_append:
  "run_intents (is @ js) p = Option.bind (run_intents is p) (run_intents js)"
  by (induction "is" arbitrary: p) (auto split: Option.bind_splits)

lemma pages_of_upd [simp]: "pages_of (m(s := v)) = (pages_of m)(s := map_option page_of v)"
  by (auto simp: pages_of_def)

lemma pages_of_app: "pages_of m s = map_option page_of (m s)"
  by (simp add: pages_of_def)

lemma page_of_held_of [simp]: "page_of (held_of l) = (l_runtimeEntityId l, l_connectionId l)"
  by (simp add: page_of_def held_of_def)

lemma held_of_same:
  "l_connectionId l = h_connectionId h \<Longrightarrow> l_runtimeEntityId l = h_runtimeEntityId h \<Longrightarrow>
   held_of l = h\<lparr>h_keepLoaded := keeps_loaded l\<rparr>"
  by (simp add: held_of_def)

lemma page_of_keep [simp]: "page_of (h\<lparr>h_keepLoaded := b\<rparr>) = page_of h"
  by (simp add: page_of_def)

subsection \<open>Reconciling with a snapshot\<close>

definition reconciled :: "runtime_lease option \<Rightarrow> held_lease option \<Rightarrow> held_lease option" where
  "reconciled mine old =
     (case mine of
        Some l \<Rightarrow> Some (held_of l)
      | None \<Rightarrow> (case old of Some h \<Rightarrow> if h_keepLoaded h then Some h else None | None \<Rightarrow> None))"

lemma reconcile_held_step:
  assumes "map_of H s = Some h" and "reconcile_held mine (s, h) (H, I) = (H', I')"
  shows "map_of H' = (map_of H)(s := reconciled (map_of mine s) (Some h))"
    and "\<exists>J. I' = I @ J \<and> run_intents J (pages_of (map_of H)) = Some (pages_of (map_of H'))"
proof -
  show "map_of H' = (map_of H)(s := reconciled (map_of mine s) (Some h))"
    using assms by (auto simp: reconcile_held_def reconciled_def held_of_same held_of_def fun_eq_iff
        split: option.splits if_splits)
  show "\<exists>J. I' = I @ J \<and> run_intents J (pages_of (map_of H)) = Some (pages_of (map_of H'))"
    using assms by (auto simp: reconcile_held_def load_of_def pages_of_app fun_upd_idem
        split: option.splits if_splits)
qed

lemma reconcile_held_fold:
  assumes "jwf hs" and "\<And>s h. (s, h) \<in> set hs \<Longrightarrow> map_of H s = Some h"
    and "fold (reconcile_held mine) hs (H, I) = (H', I')"
  shows "map_of H' s = (if s \<in> fst ` set hs then reconciled (map_of mine s) (map_of H s) else map_of H s)
    \<and> (\<exists>J. I' = I @ J \<and> run_intents J (pages_of (map_of H)) = Some (pages_of (map_of H')))"
  using assms
proof (induction hs arbitrary: H I)
  case (Cons p hs)
  obtain k h where p: "p = (k, h)" by fastforce
  obtain H1 I1 where one: "reconcile_held mine (k, h) (H, I) = (H1, I1)" by fastforce
  have k: "map_of H k = Some h" using Cons.prems(2) p by simp
  note step = reconcile_held_step [OF k one]
  have rest: "jwf hs" "k \<notin> fst ` set hs" using Cons.prems(1) p by (simp_all add: jwf_Cons)
  have keep: "map_of H1 s = Some v" if "(s, v) \<in> set hs" for s v
    using that rest(2) Cons.prems(2) step(1) by (force simp: image_iff)
  obtain J where J: "I1 = I @ J" "run_intents J (pages_of (map_of H)) = Some (pages_of (map_of H1))"
    using step(2) by blast
  from Cons.IH [OF rest(1) keep] Cons.prems(3) one p
  obtain J' where "map_of H' s = (if s \<in> fst ` set hs then reconciled (map_of mine s) (map_of H1 s) else map_of H1 s)"
    and "I' = I1 @ J'" "run_intents J' (pages_of (map_of H1)) = Some (pages_of (map_of H'))"
    by auto
  then show ?case
    using J step(1) rest(2) k p by (auto simp: run_intents_append)
qed simp

lemma reconcile_new_step:
  assumes "reconcile_new (s, l) (H, I) = (H', I')"
  shows "map_of H' = (map_of H)(s := (case map_of H s of None \<Rightarrow> Some (held_of l) | Some h \<Rightarrow> Some h))"
    and "\<exists>J. I' = I @ J \<and> run_intents J (pages_of (map_of H)) = Some (pages_of (map_of H'))"
  using assms by (auto simp: reconcile_new_def jhas_def load_of_def pages_of_app fun_upd_idem
      split: if_splits)

lemma reconcile_new_fold:
  assumes "jwf ms" and "fold reconcile_new ms (H, I) = (H', I')"
  shows "map_of H' s = (case map_of H s of None \<Rightarrow> map_option held_of (map_of ms s) | Some h \<Rightarrow> Some h)
    \<and> (\<exists>J. I' = I @ J \<and> run_intents J (pages_of (map_of H)) = Some (pages_of (map_of H')))"
  using assms
proof (induction ms arbitrary: H I)
  case (Cons p ms)
  obtain k l where p: "p = (k, l)" by fastforce
  obtain H1 I1 where one: "reconcile_new (k, l) (H, I) = (H1, I1)" by fastforce
  note step = reconcile_new_step [OF one]
  have rest: "jwf ms" "map_of ms k = None"
    using Cons.prems(1) p by (auto simp: jwf_Cons map_of_eq_None_iff)
  obtain J where J: "I1 = I @ J" "run_intents J (pages_of (map_of H)) = Some (pages_of (map_of H1))"
    using step(2) by blast
  from Cons.IH [OF rest(1)] Cons.prems(2) one p
  obtain J' where "map_of H' s = (case map_of H1 s of None \<Rightarrow> map_option held_of (map_of ms s) | Some h \<Rightarrow> Some h)"
    and "I' = I1 @ J'" "run_intents J' (pages_of (map_of H1)) = Some (pages_of (map_of H'))"
    by auto
  then show ?case
    using J step(1) rest(2) p by (auto simp: run_intents_append split: option.splits)
qed (simp split: option.splits)

lemma jwf_mine_of: "jwf (mine_of c ls)"
proof -
  have "jwf m \<Longrightarrow> jwf (fold (\<lambda>l m. if l_clientSessionId l = c then jset (l_slotId l) l m else m) ls m)" for m
    by (induction ls arbitrary: m) auto
  then show ?thesis by (simp add: mine_of_def)
qed

lemma map_of_mine_of:
  "map_of (mine_of c ls) s = find (\<lambda>l. l_clientSessionId l = c \<and> l_slotId l = s) (rev ls)"
proof (induction ls rule: rev_induct)
  case (snoc l ls)
  then show ?case by (auto simp: mine_of_def)
qed (simp add: mine_of_def)

lemma reconcile_lemma:
  assumes "jwf (t_held t)" and "reconcile snap t = (intents, t')"
  shows "map_of (t_held t') s =
      reconciled (map_of (mine_of (t_clientSessionId t) (ls_leases snap)) s) (map_of (t_held t) s)"
    and "run_intents intents (tracked_pages t) = Some (tracked_pages t')"
    and "t_version t' = Some (ls_version snap)" and "t_clientSessionId t' = t_clientSessionId t"
proof -
  let ?mine = "mine_of (t_clientSessionId t) (ls_leases snap)"
  obtain H1 I1 where one: "fold (reconcile_held ?mine) (t_held t) (t_held t, []) = (H1, I1)" by fastforce
  obtain H2 I2 where two: "fold reconcile_new ?mine (H1, I1) = (H2, I2)" by fastforce
  have t': "intents = I2" "t' = t\<lparr>t_version := Some (ls_version snap), t_held := H2\<rparr>"
    using assms(2) one two by (simp_all add: reconcile_def Let_def)
  have keys: "s \<in> fst ` set (t_held t) \<longleftrightarrow> map_of (t_held t) s \<noteq> None" for s
    by (simp add: map_of_eq_None_iff)
  have mem: "map_of (t_held t) s = Some h" if "(s, h) \<in> set (t_held t)" for s h
    using that assms(1) by (simp add: jget_mem)
  note L1 = reconcile_held_fold [OF assms(1) mem one]
  note L2 = reconcile_new_fold [OF jwf_mine_of two]
  have H2: "map_of H2 s = reconciled (map_of ?mine s) (map_of (t_held t) s)" for s
    using L1 [of s] L2 [of s] keys [of s] by (auto simp: reconciled_def split: option.splits if_splits)
  show "map_of (t_held t') s = reconciled (map_of ?mine s) (map_of (t_held t) s)"
    using H2 t' by simp
  have "run_intents I1 (pages_of (map_of (t_held t))) = Some (pages_of (map_of H1))"
    using L1 by auto
  moreover obtain J where "I2 = I1 @ J" "run_intents J (pages_of (map_of H1)) = Some (pages_of (map_of H2))"
    using L2 by blast
  ultimately show "run_intents intents (tracked_pages t) = Some (tracked_pages t')"
    by (simp add: t' tracked_pages_def run_intents_append)
qed (use assms(2) in \<open>auto simp: reconcile_def Let_def split: prod.splits\<close>)

subsection \<open>Applying one event\<close>

lemma apply_event_lemma:
  assumes "apply_event ev t = (intents, t')"
  shows "run_intents intents (tracked_pages t) = Some (tracked_pages t')"
    and "\<not> versionNewer (le_version ev) (t_version t) \<Longrightarrow> intents = [] \<and> t' = t"
    and "versionNewer (le_version ev) (t_version t) \<Longrightarrow>
      t_version t' = Some (le_version ev) \<and>
      map_of (t_held t') = (map_of (t_held t))(le_slotId ev :=
        (case classifyRuntimeLeaseChange (t_clientSessionId t) ev of
           Assigned l \<Rightarrow> Some (held_of l)
         | Unassigned _ _ _ \<Rightarrow> reconciled None (map_of (t_held t) (le_slotId ev))
         | Unrelated \<Rightarrow> map_of (t_held t) (le_slotId ev)))"
    and "t_clientSessionId t' = t_clientSessionId t"
  using assms
  by (auto simp: apply_event_def Let_def tracked_pages_def load_of_def pages_of_app held_of_same
      reconciled_def held_of_def fun_eq_iff page_of_def
      split: if_splits option.splits lease_disposition.splits)

lemma jwf_apply_event: "jwf (t_held t) \<Longrightarrow> jwf (t_held (snd (apply_event ev t)))"
  by (auto simp: apply_event_def Let_def split: option.splits lease_disposition.splits)

lemma jwf_reconcile: "jwf (t_held t) \<Longrightarrow> jwf (t_held (snd (reconcile snap t)))"
proof -
  assume w: "jwf (t_held t)"
  have A: "jwf (fst q) \<Longrightarrow> jwf (fst (fold (reconcile_held mine) hs q))"
    for q :: "(string, held_lease) jsmap \<times> lease_intent list" and hs mine
    by (induction hs arbitrary: q) (auto simp: reconcile_held_def split: option.splits if_splits)
  have B: "jwf (fst q) \<Longrightarrow> jwf (fst (fold reconcile_new ms q))"
    for q :: "(string, held_lease) jsmap \<times> lease_intent list" and ms
    by (induction ms arbitrary: q) (auto simp: reconcile_new_def split: if_splits)
  show ?thesis
    by (simp add: reconcile_def Let_def case_prod_beta A B w)
qed


subsection \<open>A host that carries the intents out\<close>

inductive hosted :: "tracker \<Rightarrow> pages \<Rightarrow> bool" where
  hosted_start: "hosted (new_tracker c) Map.empty"
| hosted_snapshot: "hosted t p \<Longrightarrow> run_intents (fst (reconcile snap t)) p = Some p' \<Longrightarrow>
     hosted (snd (reconcile snap t)) p'"
| hosted_event: "hosted t p \<Longrightarrow> run_intents (fst (apply_event ev t)) p = Some p' \<Longrightarrow>
     hosted (snd (apply_event ev t)) p'"
| hosted_drop: "hosted t p \<Longrightarrow> hosted (drop_slot slot t) (p(slot := None))"

lemma hosted_pages: "hosted t p \<Longrightarrow> jwf (t_held t) \<and> p = tracked_pages t"
proof (induction rule: hosted.induct)
  case (hosted_snapshot t p snap p')
  then show ?case
    using reconcile_lemma(2) [of t snap "fst (reconcile snap t)" "snd (reconcile snap t)"]
    by (simp add: jwf_reconcile)
next
  case (hosted_event t p ev p')
  then show ?case
    using apply_event_lemma(1) [of ev t "fst (apply_event ev t)" "snd (apply_event ev t)"]
    by (simp add: jwf_apply_event)
qed (auto simp: new_tracker_def tracked_pages_def pages_of_def drop_slot_def fun_eq_iff)

section \<open>Properties\<close>

text \<open>
  C19. A host that starts empty and carries out every intent its tracker returns, in order, for
  any sequence of snapshots, events and drops, never meets an intent it cannot carry out (no
  load of a slot that is loaded, no unload of one that is not), and at every moment its loaded
  pages are exactly the leases its tracker holds: slot, runtime entity and connection.
\<close>

theorem host_follows_tracker:
  assumes "hosted t p"
  shows "p = tracked_pages t \<and>
    run_intents (fst (reconcile snap t)) p = Some (tracked_pages (snd (reconcile snap t))) \<and>
    run_intents (fst (apply_event ev t)) p = Some (tracked_pages (snd (apply_event ev t)))"
  using hosted_pages [OF assms]
    reconcile_lemma(2) [of t snap "fst (reconcile snap t)" "snd (reconcile snap t)"]
    apply_event_lemma(1) [of ev t "fst (apply_event ev t)" "snd (apply_event ev t)"]
  by simp

definition sample_lease :: "string \<Rightarrow> string \<Rightarrow> bool \<Rightarrow> runtime_lease" where
  "sample_lease client conn keep = \<lparr>l_slotId = ''s'', l_runtimeEntityId = ''e'', l_clientSessionId = client,
     l_hostConnectionId = client, l_connectionId = conn, l_holderLabel = ''h'', l_platform = Desktop,
     l_supportsCdp = True, l_loadOnLeaseAssignment = True, l_keepLoaded = Some keep,
     l_acquiredAt = 0, l_expiresAt = None\<rparr>"

definition sample_snapshot :: lease_snapshot where
  "sample_snapshot = \<lparr>ls_version = \<lparr>lv_epoch = ''ep'', lv_counter = 1\<rparr>, ls_leases = [sample_lease ''me'' ''k'' False]\<rparr>"

theorem host_follows_tracker_witness:
  "run_intents [Load ''s'' ''e'' ''k''] Map.empty = Some (tracked_pages (snd (reconcile sample_snapshot (new_tracker ''me''))))"
proof -
  have "fst (reconcile sample_snapshot (new_tracker ''me'')) = [Load ''s'' ''e'' ''k'']"
    by (simp add: sample_snapshot_def sample_lease_def reconcile_def new_tracker_def mine_of_def
        reconcile_new_def jhas_def load_of_def)
  then show ?thesis
    using host_follows_tracker [OF hosted_start [of "''me''"], of sample_snapshot,
        THEN conjunct2, THEN conjunct1] by (simp only:)
qed

text \<open>
  After a snapshot the tracker holds exactly the leases the snapshot gives to its client
  session, with their current entity, connection and pin; the only other pages it still holds
  are those that were pinned when their lease disappeared. An event that is not newer than what
  the tracker has seen in its epoch changes nothing; a newer one changes only the slot it names:
  assignment to this session holds the new lease, loss of it lets the page go unless it was
  pinned, and an unrelated event changes nothing.
\<close>

theorem tracker_functional:
  assumes "jwf (t_held t)"
  shows "heldLease s (snd (reconcile snap t)) =
      (case find (\<lambda>l. l_clientSessionId l = t_clientSessionId t \<and> l_slotId l = s) (rev (ls_leases snap)) of
         Some l \<Rightarrow> Some (held_of l)
       | None \<Rightarrow> (case heldLease s t of Some h \<Rightarrow> if h_keepLoaded h then Some h else None | None \<Rightarrow> None)) \<and>
    (\<not> versionNewer (le_version ev) (t_version t) \<longrightarrow> apply_event ev t = ([], t)) \<and>
    (versionNewer (le_version ev) (t_version t) \<longrightarrow>
      heldLease s (snd (apply_event ev t)) =
        (if s \<noteq> le_slotId ev then heldLease s t
         else case classifyRuntimeLeaseChange (t_clientSessionId t) ev of
                Assigned l \<Rightarrow> Some (held_of l)
              | Unassigned _ _ _ \<Rightarrow>
                  (case heldLease s t of Some h \<Rightarrow> if h_keepLoaded h then Some h else None | None \<Rightarrow> None)
              | Unrelated \<Rightarrow> heldLease s t))"
proof -
  note R = reconcile_lemma(1) [OF assms prod.collapse [symmetric], of snap s]
  note E = apply_event_lemma [of ev t "fst (apply_event ev t)" "snd (apply_event ev t)"]
  have "heldLease s (snd (reconcile snap t)) =
      (case find (\<lambda>l. l_clientSessionId l = t_clientSessionId t \<and> l_slotId l = s) (rev (ls_leases snap)) of
         Some l \<Rightarrow> Some (held_of l)
       | None \<Rightarrow> (case heldLease s t of Some h \<Rightarrow> if h_keepLoaded h then Some h else None | None \<Rightarrow> None))"
    using R unfolding heldLease_def map_of_mine_of reconciled_def .
  moreover have "\<not> versionNewer (le_version ev) (t_version t) \<longrightarrow> apply_event ev t = ([], t)"
    using E(2) by (simp add: prod_eq_iff)
  moreover have "versionNewer (le_version ev) (t_version t) \<longrightarrow>
      heldLease s (snd (apply_event ev t)) =
        (if s \<noteq> le_slotId ev then heldLease s t
         else case classifyRuntimeLeaseChange (t_clientSessionId t) ev of
                Assigned l \<Rightarrow> Some (held_of l)
              | Unassigned _ _ _ \<Rightarrow>
                  (case heldLease s t of Some h \<Rightarrow> if h_keepLoaded h then Some h else None | None \<Rightarrow> None)
              | Unrelated \<Rightarrow> heldLease s t)"
    using E(3) by (simp add: heldLease_def reconciled_def split: lease_disposition.splits)
  ultimately show ?thesis by (intro conjI)
qed

theorem tracker_functional_witness:
  "heldLease ''s'' (snd (reconcile sample_snapshot (new_tracker ''me''))) = Some (held_of (sample_lease ''me'' ''k'' False))"
  using tracker_functional [of "new_tracker ''me''" "''s''" sample_snapshot]
  by (simp add: new_tracker_def sample_snapshot_def sample_lease_def)

end
