(* ===== verification/PanelAttempts.thy ===== *)
theory PanelAttempts
  imports PanelTypes
begin

text \<open>
  The panel runtime coordinator (\<^verbatim>\<open>src/server/panelRuntimeCoordinator.ts\<close>), first part: its
  state and the life of panel attempts. An attempt is one materialisation of a slot's panel;
  it moves \<open>Pending \<rightarrow> Loading \<rightarrow> Booting \<rightarrow> Ready\<close> and ends \<open>Failed\<close> or \<open>Stopped\<close>.

  Everything the coordinator emits (lease events, slot and attempt notifications, connection
  closes, rejected reports) is appended to one log, newest last. \<open>Date.now()\<close> reads the
  \<open>pc_clock\<close> of the state, and \<open>randomUUID()\<close> draws the next name of the stream \<open>pc_uuids\<close>.
  The rounds objects of the boot supervision are shared by reference in the code (a probe in
  flight keeps its object across the wait), so they live in a store of their own.
\<close>

subsection \<open>State\<close>

record held_entity =
  he_runtimeEntityId :: string
  he_connectionId :: string
  he_authorizedBy :: string
  he_holderLabel :: string

record stall_rounds =
  sr_revision :: nat
  sr_rounds :: nat
  sr_valid :: nat
  sr_unobservable :: nat

datatype coord_output =
    LeaseChanged lease_event
  | SlotObserved string
  | AttemptChanged string
  | ClosedConnection string string nat string
  | RejectedReport string string

record coord =
  pc_epoch :: string
  pc_counter :: nat
  pc_slotObservationCounters :: "(string, nat) jsmap"
  pc_leases :: "(string, runtime_lease) jsmap"
  pc_hostHeld :: "(string, held_entity) jsmap"
  pc_clients :: "(string, client_session) jsmap"
  pc_expiryTimers :: "(string, nat) jsmap"
  pc_defaultCdpLeaseConnections :: "string list"
  pc_attempts :: "(string, panel_attempt) jsmap"
  pc_currentAttemptBySlot :: "(string, string) jsmap"
  pc_terminalHistoryBySlot :: "(string, string list) jsmap"
  pc_routeBindings :: "(string, string) jsmap"
  pc_routeReachability :: "(string, bool) jsmap"
  pc_routeViews :: "(string, page_observation) jsmap"
  pc_buildStates :: "(string, build_state) jsmap"
  pc_supervisionTimers :: "string list"
  pc_supervisionInFlight :: "string list"
  pc_supervisionRounds :: "(string, nat) jsmap"
  pc_roundStore :: "(nat, stall_rounds) jsmap"
  pc_keptLoadedSlots :: "string list"
  pc_closeSet :: bool
  pc_clock :: int
  pc_uuids :: "nat \<Rightarrow> string"
  pc_drawn :: nat
  pc_objects :: nat
  pc_log :: "coord_output list"

definition new_coord :: "string \<Rightarrow> (nat \<Rightarrow> string) \<Rightarrow> int \<Rightarrow> coord" where
  "new_coord ep uuids now = \<lparr>pc_epoch = ep, pc_counter = 0, pc_slotObservationCounters = [],
     pc_leases = [], pc_hostHeld = [], pc_clients = [], pc_expiryTimers = [],
     pc_defaultCdpLeaseConnections = [], pc_attempts = [], pc_currentAttemptBySlot = [],
     pc_terminalHistoryBySlot = [], pc_routeBindings = [], pc_routeReachability = [],
     pc_routeViews = [], pc_buildStates = [], pc_supervisionTimers = [],
     pc_supervisionInFlight = [], pc_supervisionRounds = [], pc_roundStore = [],
     pc_keptLoadedSlots = [], pc_closeSet = False, pc_clock = now, pc_uuids = uuids,
     pc_drawn = 0, pc_objects = 0, pc_log = []\<rparr>"

definition out :: "coord_output \<Rightarrow> coord \<Rightarrow> coord" where
  "out x s = s\<lparr>pc_log := pc_log s @ [x]\<rparr>"

definition randomUUID :: "coord \<Rightarrow> string \<times> coord" where
  "randomUUID s = (pc_uuids s (pc_drawn s), s\<lparr>pc_drawn := Suc (pc_drawn s)\<rparr>)"

definition setCloseConnection :: "coord \<Rightarrow> coord" where
  "setCloseConnection s = s\<lparr>pc_closeSet := True\<rparr>"

subsection \<open>Constants\<close>

definition LEASE_RECONNECT_GRACE_MS :: int where "LEASE_RECONNECT_GRACE_MS = 3000"

definition ATTEMPT_HISTORY_LIMIT :: nat where "ATTEMPT_HISTORY_LIMIT = 8"

definition ATTEMPT_STALL_ROUNDS :: nat where "ATTEMPT_STALL_ROUNDS = 600"

text \<open>\<open>PHASE_RANK\<close> has no entry for \<open>Failed\<close>, which \<open>canAdvance\<close> never looks up.\<close>

fun PHASE_RANK :: "attempt_phase \<Rightarrow> nat option" where
  "PHASE_RANK Pending = Some 0"
| "PHASE_RANK Loading = Some 1"
| "PHASE_RANK Booting = Some 2"
| "PHASE_RANK Ready = Some 3"
| "PHASE_RANK Stopped = Some 4"
| "PHASE_RANK Failed = None"

fun STOP_CLOSE :: "stop_reason \<Rightarrow> nat \<times> string" where
  "STOP_CLOSE Superseded = (4091, ''Panel attempt superseded'')"
| "STOP_CLOSE RetiredStop = (4093, ''Panel runtime entity retired'')"
| "STOP_CLOSE Unloaded = (4094, ''Panel runtime unloaded'')"
| "STOP_CLOSE HostLost = (4095, ''Panel runtime host lost'')"

subsection \<open>Versions, look-ups and notifications\<close>

definition currentVersion :: "coord \<Rightarrow> lease_version" where
  "currentVersion s = \<lparr>lv_epoch = pc_epoch s, lv_counter = pc_counter s\<rparr>"

definition slotCounter :: "string \<Rightarrow> coord \<Rightarrow> nat" where
  "slotCounter slot s = (case map_of (pc_slotObservationCounters s) slot of None \<Rightarrow> 0 | Some n \<Rightarrow> n)"

definition observationVersion :: "string \<Rightarrow> coord \<Rightarrow> (panel_error, lease_version) result" where
  "observationVersion slot s =
     (case asPanelSlotId slot of
        Inl e \<Rightarrow> Inl e
      | Inr slot \<Rightarrow> Inr \<lparr>lv_epoch = pc_epoch s, lv_counter = slotCounter slot s\<rparr>)"

definition nextSlotObservationVersion :: "string \<Rightarrow> coord \<Rightarrow> coord" where
  "nextSlotObservationVersion slot s =
     s\<lparr>pc_slotObservationCounters := jset slot (slotCounter slot s + 1) (pc_slotObservationCounters s)\<rparr>"

definition emitSlotObservationChanged :: "string \<Rightarrow> coord \<Rightarrow> coord" where
  "emitSlotObservationChanged slot s = out (SlotObserved slot) s"

definition emitAttemptChanged :: "string \<Rightarrow> coord \<Rightarrow> coord" where
  "emitAttemptChanged a s = out (AttemptChanged a) s"

definition closeLeaseConnection :: "string \<Rightarrow> string \<Rightarrow> stop_reason \<Rightarrow> coord \<Rightarrow> coord" where
  "closeLeaseConnection entity conn reason s =
     (if pc_closeSet s then out (ClosedConnection entity conn (fst (STOP_CLOSE reason)) (snd (STOP_CLOSE reason))) s
      else s)"

definition rejectReport :: "string \<Rightarrow> string \<Rightarrow> coord \<Rightarrow> coord" where
  "rejectReport attemptId reason s = out (RejectedReport attemptId reason) s"

definition leaseForSlot :: "string \<Rightarrow> coord \<Rightarrow> runtime_lease option" where
  "leaseForSlot slot s = find (\<lambda>l. l_slotId l = slot) (jvalues (pc_leases s))"

definition currentAttempt :: "string \<Rightarrow> coord \<Rightarrow> panel_attempt option" where
  "currentAttempt slot s =
     Option.bind (if_truthy (map_of (pc_currentAttemptBySlot s) slot)) (map_of (pc_attempts s))"

definition hasPresentedView :: "panel_attempt \<Rightarrow> coord \<Rightarrow> bool" where
  "hasPresentedView a s =
     (case leaseForSlot (pa_slotId a) s of
        None \<Rightarrow> False
      | Some l \<Rightarrow> map_of (pc_routeBindings s) (l_connectionId l) = Some (pa_attemptId a)
               \<and> jhas (pc_routeViews s) (pa_attemptId a))"

subsection \<open>Boot supervision timers\<close>

definition stopSupervision :: "string \<Rightarrow> coord \<Rightarrow> coord" where
  "stopSupervision a s = s\<lparr>pc_supervisionTimers := removeAll a (pc_supervisionTimers s),
     pc_supervisionRounds := jdel a (pc_supervisionRounds s)\<rparr>"

definition startSupervision :: "panel_attempt \<Rightarrow> coord \<Rightarrow> coord" where
  "startSupervision a s =
     (let s = stopSupervision (pa_attemptId a) s
      in s\<lparr>pc_roundStore := jset (pc_objects s)
              \<lparr>sr_revision = pa_revision a, sr_rounds = 0, sr_valid = 0, sr_unobservable = 0\<rparr> (pc_roundStore s),
           pc_supervisionRounds := jset (pa_attemptId a) (pc_objects s) (pc_supervisionRounds s),
           pc_objects := Suc (pc_objects s),
           pc_supervisionTimers := pc_supervisionTimers s @ [pa_attemptId a]\<rparr>)"

definition resetSupervisionProgress :: "panel_attempt option \<Rightarrow> coord \<Rightarrow> coord" where
  "resetSupervisionProgress a s =
     (case a of
        None \<Rightarrow> s
      | Some a \<Rightarrow>
          (case map_of (pc_supervisionRounds s) (pa_attemptId a) of
             None \<Rightarrow> s
           | Some r \<Rightarrow> s\<lparr>pc_roundStore := jset r
                 \<lparr>sr_revision = pa_revision a, sr_rounds = 0, sr_valid = 0, sr_unobservable = 0\<rparr>
                 (pc_roundStore s)\<rparr>))"

definition ensureSupervision :: "panel_attempt \<Rightarrow> coord \<Rightarrow> coord" where
  "ensureSupervision a s =
     (if pa_attemptId a \<notin> set (pc_supervisionTimers s) then startSupervision a s
      else resetSupervisionProgress (Some a) s)"

definition startSupervisionIfAbsent :: "panel_attempt \<Rightarrow> coord \<Rightarrow> coord" where
  "startSupervisionIfAbsent a s =
     (if pa_attemptId a \<in> set (pc_supervisionTimers s) then s else startSupervision a s)"

subsection \<open>Transitions of an attempt\<close>

record attempt_report =
  ap_phase :: attempt_phase
  ap_reporter :: attempt_reporter
  ap_failure :: "attempt_failure option"
  ap_stopReason :: "stop_reason option"
  ap_buildKey :: "string option"
  ap_effectiveVersion :: "string option"

definition stop_report :: "stop_reason \<Rightarrow> attempt_report" where
  "stop_report r = \<lparr>ap_phase = Stopped, ap_reporter = ByCoordinator, ap_failure = None,
     ap_stopReason = Some r, ap_buildKey = None, ap_effectiveVersion = None\<rparr>"

definition failure_at :: "attempt_report \<Rightarrow> failure_stage \<Rightarrow> bool" where
  "failure_at r st \<longleftrightarrow> map_option af_stage (ap_failure r) = Some st"

fun reporterAuthorized :: "attempt_report \<Rightarrow> bool" where
  "reporterAuthorized r =
     (case ap_reporter r of
        ByCoordinator \<Rightarrow> ap_phase r = Stopped \<or> (ap_phase r = Failed \<and> failure_at r BootStall)
      | ByBuild \<Rightarrow> ap_phase r = Failed \<and> failure_at r BuildStage
      | ByMaterialization \<Rightarrow> ap_phase r = Failed \<and> failure_at r MaterializationStage
      | ByRenderer \<Rightarrow> ap_phase r = Loading \<or> ap_phase r = Booting \<or> ap_phase r = Ready \<or>
          (ap_phase r = Failed \<and>
            (failure_at r BundleLoad \<or> failure_at r ConfigStage \<or> failure_at r EntryStage))
      | ByHost \<Rightarrow> ap_phase r = Loading \<or> ap_phase r = Booting \<or> ap_phase r = Ready \<or>
          (ap_phase r = Failed \<and>
            (failure_at r BundleLoad \<or> failure_at r ConfigStage \<or> failure_at r EntryStage \<or>
             failure_at r Navigation \<or> failure_at r RendererCrash)))"

definition canAdvance :: "panel_attempt \<Rightarrow> attempt_phase \<Rightarrow> bool" where
  "canAdvance a next =
     (if pa_phase a = Failed \<or> pa_phase a = Stopped then False
      else if next = Failed then pa_phase a \<noteq> Ready
      else if next = Stopped then True
      else if pa_phase a = Ready then False
      else the (PHASE_RANK next) > the (PHASE_RANK (pa_phase a)))"

definition advanced :: "panel_attempt \<Rightarrow> attempt_report \<Rightarrow> int \<Rightarrow> panel_attempt" where
  "advanced a r now = a\<lparr>pa_phase := ap_phase r, pa_reporter := ap_reporter r,
     pa_revision := pa_revision a + 1, pa_updatedAt := now,
     pa_buildKey := override (ap_buildKey r) (pa_buildKey a),
     pa_effectiveVersion := override (ap_effectiveVersion r) (pa_effectiveVersion a),
     pa_failure := (case ap_failure r of None \<Rightarrow> pa_failure a | Some f \<Rightarrow> Some f),
     pa_stopReason := (case ap_stopReason r of None \<Rightarrow> pa_stopReason a | Some x \<Rightarrow> Some x)\<rparr>"

definition transitionAttempt :: "panel_attempt \<Rightarrow> attempt_report \<Rightarrow> coord \<Rightarrow> coord" where
  "transitionAttempt a r s =
     (let next = advanced a r (pc_clock s);
          s1 = s\<lparr>pc_attempts := jset (pa_attemptId next) next (pc_attempts s)\<rparr>;
          s2 = (if (pa_phase next = Loading \<or> pa_phase next = Booting) \<and> hasPresentedView next s1
                then ensureSupervision next s1
                else if pa_phase next = Failed \<or> pa_phase next = Stopped \<or> pa_phase next = Ready
                then stopSupervision (pa_attemptId next) s1
                else s1)
      in emitSlotObservationChanged (pa_slotId next)
           (nextSlotObservationVersion (pa_slotId next)
             (emitAttemptChanged (pa_attemptId next) s2)))"

text \<open>\<open>updateAttempt(attempt, attributes)\<close>: \<open>f\<close> sets the given attributes.\<close>

definition updateAttempt :: "panel_attempt \<Rightarrow> (panel_attempt \<Rightarrow> panel_attempt) \<Rightarrow> coord \<Rightarrow> coord" where
  "updateAttempt a f s =
     s\<lparr>pc_attempts := jset (pa_attemptId a) ((f a)\<lparr>pa_updatedAt := pc_clock s\<rparr>) (pc_attempts s)\<rparr>"

definition detachRoute :: "string \<Rightarrow> coord \<Rightarrow> coord" where
  "detachRoute conn s = s\<lparr>pc_routeBindings := jdel conn (pc_routeBindings s),
     pc_routeReachability := jdel conn (pc_routeReachability s)\<rparr>"

text \<open>\<open>next.splice(ATTEMPT_HISTORY_LIMIT)\<close> cuts the tail off the history and returns it.\<close>

definition evict_attempt :: "string \<Rightarrow> string \<Rightarrow> coord \<Rightarrow> coord" where
  "evict_attempt slot a s =
     (if map_of (pc_currentAttemptBySlot s) slot = Some a then s
      else emitAttemptChanged a
             (stopSupervision a
               (s\<lparr>pc_attempts := jdel a (pc_attempts s), pc_routeViews := jdel a (pc_routeViews s)\<rparr>)))"

definition rememberTerminal :: "panel_attempt \<Rightarrow> coord \<Rightarrow> coord" where
  "rememberTerminal a s =
     (let stored = (case map_of (pc_attempts s) (pa_attemptId a) of None \<Rightarrow> a | Some x \<Rightarrow> x)
      in if pa_phase stored \<noteq> Failed \<and> pa_phase stored \<noteq> Stopped then s
         else
           (let slot = pa_slotId stored;
                history = (case map_of (pc_terminalHistoryBySlot s) slot of None \<Rightarrow> [] | Some h \<Rightarrow> h);
                next = pa_attemptId stored # filter (\<lambda>i. i \<noteq> pa_attemptId stored) history
            in fold (evict_attempt slot) (drop ATTEMPT_HISTORY_LIMIT next)
                 (s\<lparr>pc_terminalHistoryBySlot :=
                      jset slot (take ATTEMPT_HISTORY_LIMIT next) (pc_terminalHistoryBySlot s)\<rparr>)))"

definition stopAttempt :: "string \<Rightarrow> stop_reason \<Rightarrow> coord \<Rightarrow> panel_attempt option \<times> coord" where
  "stopAttempt attemptId reason s =
     (case map_of (pc_attempts s) attemptId of
        None \<Rightarrow> (None, s)
      | Some a \<Rightarrow>
          (let s1 = (if pa_phase a \<noteq> Failed \<and> pa_phase a \<noteq> Stopped
                     then transitionAttempt a (stop_report reason) s else s);
               s2 = rememberTerminal a s1
           in (Some (case map_of (pc_attempts s2) attemptId of None \<Rightarrow> a | Some x \<Rightarrow> x), s2)))"

subsection \<open>Committing an attempt\<close>

record attempt_input =
  ai_runtimeEntityId :: string
  ai_hostConnectionId :: "string option"
  ai_connectionId :: "string option"
  ai_buildKey :: "string option"
  ai_effectiveVersion :: "string option"

definition attempt_input_for :: "string \<Rightarrow> attempt_input" where
  "attempt_input_for entity = \<lparr>ai_runtimeEntityId = entity, ai_hostConnectionId = None,
     ai_connectionId = None, ai_buildKey = None, ai_effectiveVersion = None\<rparr>"

text \<open>The loop over the routes of the superseded attempt; the caller's own route stays open.\<close>

definition detach_superseded :: "panel_attempt \<Rightarrow> string option \<Rightarrow> coord \<Rightarrow> coord" where
  "detach_superseded previous keep s =
     fold (\<lambda>(conn, bound) s.
            if bound \<noteq> pa_attemptId previous then s
            else (let s = detachRoute conn s
                  in if Some conn = keep then s
                     else closeLeaseConnection (pa_runtimeEntityId previous) conn Superseded s))
       (pc_routeBindings s) s"

definition supersede :: "string \<Rightarrow> string option \<Rightarrow> coord \<Rightarrow> coord" where
  "supersede slot keep s =
     (case currentAttempt slot s of
        None \<Rightarrow> s
      | Some previous \<Rightarrow>
          (let s1 = (if pa_phase previous \<noteq> Failed \<and> pa_phase previous \<noteq> Stopped
                     then transitionAttempt previous (stop_report Superseded) s else s);
               s2 = rememberTerminal previous (detach_superseded previous keep s1)
           in s2\<lparr>pc_buildStates := jdel slot (pc_buildStates s2)\<rparr>))"

text \<open>\<open>commitAttempt\<close> after its ids have been checked.\<close>

definition commit_attempt :: "string \<Rightarrow> attempt_input \<Rightarrow> coord \<Rightarrow> panel_attempt \<times> coord" where
  "commit_attempt slot inp s0 =
     (let (uuid, s) = randomUUID (supersede slot (ai_connectionId inp) s0);
          attempt = \<lparr>pa_epoch = pc_epoch s, pa_attemptId = uuid, pa_slotId = slot,
            pa_runtimeEntityId = ai_runtimeEntityId inp, pa_buildKey = if_truthy (ai_buildKey inp),
            pa_effectiveVersion = if_truthy (ai_effectiveVersion inp),
            pa_hostConnectionId = if_truthy (ai_hostConnectionId inp),
            pa_phase = Pending, pa_revision = 0, pa_failure = None, pa_stopReason = None,
            pa_reporter = ByCoordinator, pa_updatedAt = pc_clock s\<rparr>;
          s1 = s\<lparr>pc_attempts := jset uuid attempt (pc_attempts s),
                 pc_currentAttemptBySlot := jset slot uuid (pc_currentAttemptBySlot s)\<rparr>;
          s2 = (case if_truthy (ai_connectionId inp) of
                  None \<Rightarrow> s1
                | Some conn \<Rightarrow> s1\<lparr>pc_routeBindings := jset conn uuid (pc_routeBindings s1),
                                  pc_routeReachability := jset conn False (pc_routeReachability s1)\<rparr>)
      in (attempt, emitSlotObservationChanged slot (nextSlotObservationVersion slot s2)))"

definition commitAttempt ::
  "string \<Rightarrow> attempt_input \<Rightarrow> coord \<Rightarrow> (panel_error, panel_attempt) result \<times> coord" where
  "commitAttempt slot inp s =
     (case asPanelSlotId slot of
        Inl e \<Rightarrow> (Inl e, s)
      | Inr slot \<Rightarrow>
          (case asPanelEntityId (ai_runtimeEntityId inp) of
             Inl e \<Rightarrow> (Inl e, s)
           | Inr _ \<Rightarrow> (let (a, s') = commit_attempt slot inp s in (Inr a, s'))))"

definition ensureAttemptForSlot ::
  "string \<Rightarrow> string \<Rightarrow> coord \<Rightarrow> (panel_error, panel_attempt) result \<times> coord" where
  "ensureAttemptForSlot slot entity s =
     (case asPanelSlotId slot of
        Inl e \<Rightarrow> (Inl e, s)
      | Inr slot \<Rightarrow>
          (case asPanelEntityId entity of
             Inl e \<Rightarrow> (Inl e, s)
           | Inr entity \<Rightarrow>
               (case currentAttempt slot s of
                  Some current \<Rightarrow>
                    if pa_runtimeEntityId current = entity \<and> pa_phase current \<noteq> Stopped
                    then (Inr current, s)
                    else commitAttempt slot (attempt_input_for entity) s
                | None \<Rightarrow> commitAttempt slot (attempt_input_for entity) s)))"

datatype await_result = Report panel_attempt | UnknownAttempt string string

definition getAttempt :: "string \<Rightarrow> string \<Rightarrow> coord \<Rightarrow> await_result" where
  "getAttempt ep attemptId s =
     (if ep \<noteq> pc_epoch s then UnknownAttempt ep attemptId
      else (case map_of (pc_attempts s) attemptId of
              Some a \<Rightarrow> Report a
            | None \<Rightarrow> UnknownAttempt ep attemptId))"

definition currentAttemptForSlot :: "string \<Rightarrow> coord \<Rightarrow> (panel_error, panel_attempt option) result" where
  "currentAttemptForSlot slot s =
     (case asPanelSlotId slot of Inl e \<Rightarrow> Inl e | Inr slot \<Rightarrow> Inr (currentAttempt slot s))"

definition observeSlotLifecycle :: "string \<Rightarrow> coord \<Rightarrow> (panel_error, slot_observation) result" where
  "observeSlotLifecycle slot s =
     (case asPanelSlotId slot of
        Inl e \<Rightarrow> Inl e
      | Inr slot \<Rightarrow>
          (let attempt = currentAttempt slot s;
               lease = leaseForSlot slot s;
               conn = if_truthy (map_option l_connectionId lease);
               page = Option.bind attempt (\<lambda>a. map_of (pc_routeViews s) (pa_attemptId a))
           in Inr \<lparr>so_attempt = attempt,
                   so_reachable = (case conn of None \<Rightarrow> False
                     | Some c \<Rightarrow> map_of (pc_routeReachability s) c = Some True),
                   so_connectionId = conn,
                   so_holder = map_option (\<lambda>l. (l_holderLabel l, l_platform l, l_supportsCdp l)) lease,
                   so_view = map_option (\<lambda>p. (po_url p, po_loading p)) page,
                   so_build = map_of (pc_buildStates s) slot,
                   so_version = \<lparr>lv_epoch = pc_epoch s, lv_counter = slotCounter slot s\<rparr>\<rparr>))"

definition set_build_state :: "string \<Rightarrow> build_state \<Rightarrow> coord \<Rightarrow> coord" where
  "set_build_state slot build s =
     (if map_of (pc_buildStates s) slot = Some build then s
      else
        (let s1 = s\<lparr>pc_buildStates := jset slot build (pc_buildStates s)\<rparr>;
             attempt = currentAttempt slot s1;
             s2 = (case attempt of
                     None \<Rightarrow> s1
                   | Some a \<Rightarrow> if truthy (bs_buildKey build) \<and> \<not> truthy (pa_buildKey a)
                               then updateAttempt a (\<lambda>a. a\<lparr>pa_buildKey := bs_buildKey build\<rparr>) s1 else s1)
         in emitSlotObservationChanged slot
              (nextSlotObservationVersion slot (resetSupervisionProgress attempt s2))))"

definition setBuildState :: "string \<Rightarrow> build_state \<Rightarrow> coord \<Rightarrow> (panel_error, unit) result \<times> coord" where
  "setBuildState slot build s =
     (case asPanelSlotId slot of
        Inl e \<Rightarrow> (Inl e, s)
      | Inr slot \<Rightarrow> (Inr (), set_build_state slot build s))"

definition reportAttemptPhase :: "string \<Rightarrow> attempt_report \<Rightarrow> coord \<Rightarrow> bool \<times> coord" where
  "reportAttemptPhase attemptId r s =
     (case map_of (pc_attempts s) attemptId of
        None \<Rightarrow> (False, rejectReport attemptId ''unknown attempt'' s)
      | Some a \<Rightarrow>
          if \<not> reporterAuthorized r then (False, rejectReport attemptId ''unauthorized reporter'' s)
          else if \<not> canAdvance a (ap_phase r) then (False, s)
          else (True, transitionAttempt a r s))"

end
