(* ===== verification/PanelLeases.thy ===== *)
theory PanelLeases
  imports PanelAttempts
begin

text \<open>
  The panel runtime coordinator (\<^verbatim>\<open>src/server/panelRuntimeCoordinator.ts\<close>), second part: the
  runtime leases, the client registrations, the keep-loaded pins, the default CDP hosts, the
  host-held runtimes, disconnect grace and routing. An operation that can throw returns the
  error beside the state it leaves, which keeps what was changed before the throw.
\<close>

type_synonym 'a outcome = "(panel_error, 'a) result \<times> coord"

subsection \<open>Lease events\<close>

definition emitChange ::
  "string \<Rightarrow> string \<Rightarrow> runtime_lease option \<Rightarrow> runtime_lease option \<Rightarrow> lease_reason \<Rightarrow> coord \<Rightarrow>
   lease_version \<times> coord" where
  "emitChange entity slot previous next reason s =
     (let s1 = s\<lparr>pc_counter := pc_counter s + 1\<rparr>;
          ev = \<lparr>le_version = currentVersion s1, le_slotId = slot, le_runtimeEntityId = entity,
                le_previous = previous, le_next = next, le_reason = reason\<rparr>
      in (le_version ev,
          emitSlotObservationChanged slot (out (LeaseChanged ev) (nextSlotObservationVersion slot s1))))"

definition clearExpiry :: "string \<Rightarrow> coord \<Rightarrow> coord" where
  "clearExpiry entity s = s\<lparr>pc_expiryTimers := jdel entity (pc_expiryTimers s)\<rparr>"

text \<open>A lease leaves the map together with its expiry timer and its default-host mark.\<close>

definition removeLease :: "runtime_lease \<Rightarrow> string \<Rightarrow> coord \<Rightarrow> coord" where
  "removeLease l entity s =
     (let s = clearExpiry entity s
      in s\<lparr>pc_leases := jdel entity (pc_leases s),
           pc_defaultCdpLeaseConnections := removeAll (l_connectionId l) (pc_defaultCdpLeaseConnections s)\<rparr>)"

definition isDefaultCdpLease :: "runtime_lease \<Rightarrow> coord \<Rightarrow> bool" where
  "isDefaultCdpLease l s \<longleftrightarrow> l_connectionId l \<in> set (pc_defaultCdpLeaseConnections s)"

definition stopRouteAttempt :: "runtime_lease \<Rightarrow> stop_reason \<Rightarrow> bool \<Rightarrow> coord \<Rightarrow> coord" where
  "stopRouteAttempt l reason close s =
     (let attemptId = (case map_of (pc_routeBindings s) (l_connectionId l) of
                         Some b \<Rightarrow> Some b
                       | None \<Rightarrow> (case currentAttempt (l_slotId l) s of
                                   Some a \<Rightarrow> if pa_runtimeEntityId a = l_runtimeEntityId l
                                             then Some (pa_attemptId a) else None
                                 | None \<Rightarrow> None));
          s1 = (case if_truthy attemptId of None \<Rightarrow> s | Some i \<Rightarrow> snd (stopAttempt i reason s));
          s2 = detachRoute (l_connectionId l) s1
      in if close then closeLeaseConnection (l_runtimeEntityId l) (l_connectionId l) reason s2 else s2)"

subsection \<open>Writing a lease\<close>

definition fresh_lease :: "string \<Rightarrow> string \<Rightarrow> client_session \<Rightarrow> lease_request \<Rightarrow> coord \<Rightarrow> runtime_lease" where
  "fresh_lease slot entity client inp s =
     \<lparr>l_slotId = slot, l_runtimeEntityId = entity, l_clientSessionId = lr_clientSessionId inp,
      l_hostConnectionId = (case lr_hostConnectionId inp of Some h \<Rightarrow> h
        | None \<Rightarrow> (case cs_hostConnectionId client of Some h \<Rightarrow> h | None \<Rightarrow> lr_clientSessionId inp)),
      l_connectionId = lr_connectionId inp, l_holderLabel = cs_label client,
      l_platform = cs_platform client,
      l_supportsCdp = (case cs_supportsCdp client of Some b \<Rightarrow> b | None \<Rightarrow> cs_platform client \<noteq> Mobile),
      l_loadOnLeaseAssignment = (case cs_loadOnLeaseAssignment client of Some b \<Rightarrow> b | None \<Rightarrow> False),
      l_keepLoaded = Some (slot \<in> set (pc_keptLoadedSlots s)),
      l_acquiredAt = pc_clock s, l_expiresAt = None\<rparr>"

definition reusesCurrentMaterialization ::
  "panel_attempt option \<Rightarrow> string \<Rightarrow> bool \<Rightarrow> bool \<Rightarrow> bool" where
  "reusesCurrentMaterialization current entity sameRoute hadPrevious =
     (case current of
        None \<Rightarrow> False
      | Some a \<Rightarrow> pa_runtimeEntityId a = entity \<and> pa_phase a \<noteq> Failed \<and> pa_phase a \<noteq> Stopped
          \<and> (sameRoute \<or> (\<not> hadPrevious \<and> pa_phase a = Pending \<and> pa_hostConnectionId a = None)))"

text \<open>Give the lease's route to a new attempt, or to the one that is being materialised.\<close>

definition bind_route :: "string \<Rightarrow> runtime_lease \<Rightarrow> bool \<Rightarrow> bool \<Rightarrow> coord \<Rightarrow> coord" where
  "bind_route slot l sameRoute hadPrevious s =
     (let current = currentAttempt slot s
      in if \<not> reusesCurrentMaterialization current (l_runtimeEntityId l) sameRoute hadPrevious
         then snd (commit_attempt slot
                \<lparr>ai_runtimeEntityId = l_runtimeEntityId l, ai_hostConnectionId = Some (l_hostConnectionId l),
                 ai_connectionId = Some (l_connectionId l), ai_buildKey = None, ai_effectiveVersion = None\<rparr> s)
         else
           (let a = the current;
                s1 = updateAttempt a (\<lambda>a. a\<lparr>pa_hostConnectionId := Some (l_hostConnectionId l)\<rparr>) s;
                s2 = s1\<lparr>pc_routeBindings := jset (l_connectionId l) (pa_attemptId a) (pc_routeBindings s1)\<rparr>
            in if \<not> jhas (pc_routeReachability s2) (l_connectionId l)
               then s2\<lparr>pc_routeReachability := jset (l_connectionId l) False (pc_routeReachability s2)\<rparr>
               else s2))"

text \<open>The previous route of the entity gives way: its expiry, its binding and its default mark.\<close>

definition vacate_route :: "runtime_lease option \<Rightarrow> string \<Rightarrow> string \<Rightarrow> coord \<Rightarrow> coord" where
  "vacate_route previous entity conn s =
     (let s1 = clearExpiry entity s
      in case previous of
           None \<Rightarrow> s1
         | Some p \<Rightarrow>
             (let s2 = (if l_connectionId p \<noteq> conn then detachRoute (l_connectionId p) s1 else s1)
              in s2\<lparr>pc_defaultCdpLeaseConnections :=
                   removeAll (l_connectionId p) (pc_defaultCdpLeaseConnections s2)\<rparr>))"

definition writeLease ::
  "string \<Rightarrow> lease_request \<Rightarrow> lease_reason \<Rightarrow> bool \<Rightarrow> coord \<Rightarrow> (runtime_lease \<times> lease_version) outcome" where
  "writeLease entity inp reason defaultCdp s =
     (case map_of (pc_clients s) (lr_clientSessionId inp) of
        None \<Rightarrow> (Inl (UnknownClientSession (lr_clientSessionId inp)), s)
      | Some client \<Rightarrow>
          (case asPanelSlotId (lr_slotId inp) of
             Inl e \<Rightarrow> (Inl e, s)
           | Inr slot \<Rightarrow>
               (let previous = map_of (pc_leases s) entity;
                    sameRoute = (map_option l_connectionId previous = Some (lr_connectionId inp));
                    s3 = vacate_route previous entity (lr_connectionId inp) s;
                    lease = fresh_lease slot entity client inp s3;
                    s4 = s3\<lparr>pc_leases := jset entity lease (pc_leases s3)\<rparr>;
                    s5 = (if defaultCdp
                          then s4\<lparr>pc_defaultCdpLeaseConnections :=
                                 set_add (l_connectionId lease) (pc_defaultCdpLeaseConnections s4)\<rparr>
                          else s4);
                    s6 = bind_route slot lease sameRoute (previous \<noteq> None) s5;
                    (version, s7) = emitChange entity slot previous (Some lease) reason s6
                in (Inr (lease, version), s7))))"

subsection \<open>Default CDP hosts\<close>

record cdp_options =
  op_isHostAvailable :: "(string \<Rightarrow> bool) option"
  op_replaceUnavailableLease :: bool
  op_requiredPlatform :: "client_platform option"
  op_excludedHostConnectionId :: "string option"

definition no_options :: cdp_options where
  "no_options = \<lparr>op_isHostAvailable = None, op_replaceUnavailableLease = False,
     op_requiredPlatform = None, op_excludedHostConnectionId = None\<rparr>"

definition client_host :: "client_session \<Rightarrow> string" where
  "client_host c = (case cs_hostConnectionId c of Some h \<Rightarrow> h | None \<Rightarrow> cs_clientSessionId c)"

definition host_rank :: "client_platform option \<Rightarrow> client_session \<Rightarrow> nat" where
  "host_rank preferred c =
     (let defaultRank = (if cs_platform c = Headless then 0 else 1);
          rank = (case preferred of Some p \<Rightarrow> if cs_platform c = p then 0 else 1 | None \<Rightarrow> defaultRank)
      in 2 * rank + defaultRank)"

definition eligible_host :: "cdp_options \<Rightarrow> client_session \<Rightarrow> bool" where
  "eligible_host opts c \<longleftrightarrow>
     (case op_requiredPlatform opts of Some p \<Rightarrow> cs_platform c = p | None \<Rightarrow> True)
   \<and> Some (client_host c) \<noteq> op_excludedHostConnectionId opts
   \<and> cs_supportsCdp c \<noteq> Some False
   \<and> cs_loadOnLeaseAssignment c = Some True
   \<and> (case op_isHostAvailable opts of Some av \<Rightarrow> av (client_host c) | None \<Rightarrow> True)"

text \<open>\<open>Array.sort\<close> is stable, as \<open>sort_key\<close> is.\<close>

definition getDefaultCdpHostClient :: "cdp_options \<Rightarrow> client_platform option \<Rightarrow> coord \<Rightarrow> client_session option" where
  "getDefaultCdpHostClient opts preferred s =
     find (eligible_host opts) (sort_key (host_rank preferred) (jvalues (pc_clients s)))"

definition default_request :: "string \<Rightarrow> client_session \<Rightarrow> string \<Rightarrow> lease_request" where
  "default_request slot client uuid =
     \<lparr>lr_slotId = slot, lr_clientSessionId = cs_clientSessionId client,
      lr_connectionId = ''default-cdp-'' @ slot @ ''-'' @ uuid,
      lr_hostConnectionId = cs_hostConnectionId client\<rparr>"

definition assignDefaultCdpHost ::
  "string \<Rightarrow> string \<Rightarrow> string option \<Rightarrow> coord \<Rightarrow> runtime_lease option outcome" where
  "assignDefaultCdpHost entity slot excluded s =
     (case getDefaultCdpHostClient (no_options\<lparr>op_excludedHostConnectionId := excluded\<rparr>) None s of
        None \<Rightarrow> (Inr None, s)
      | Some client \<Rightarrow>
          (let (uuid, s1) = randomUUID s
           in (case writeLease entity (default_request slot client uuid) Acquired True s1 of
                 (Inl e, s2) \<Rightarrow> (Inl e, s2)
               | (Inr (l, _), s2) \<Rightarrow> (Inr (Some l), s2))))"

definition shouldReassignDefaultCdpLease :: "runtime_lease \<Rightarrow> bool \<Rightarrow> bool" where
  "shouldReassignDefaultCdpLease l was = (was \<and> l_platform l \<noteq> Headless)"

datatype not_assigned = AlreadyHeld | MobileHeld | NoDefaultCdpHost

datatype ensure_result = LeaseAssigned runtime_lease | LeaseNotAssigned not_assigned "runtime_lease option"

datatype host_selection = SamePlatform | PreferDefault

definition replaceCdpLease ::
  "string \<Rightarrow> runtime_lease \<Rightarrow> cdp_options \<Rightarrow> host_selection \<Rightarrow> coord \<Rightarrow> ensure_result outcome" where
  "replaceCdpLease entity existing opts selection s =
     (let was = isDefaultCdpLease existing s
      in case getDefaultCdpHostClient opts
                (if selection = PreferDefault \<and> was then None else Some (l_platform existing)) s of
           None \<Rightarrow> (Inr (LeaseNotAssigned NoDefaultCdpHost (Some existing)), s)
         | Some client \<Rightarrow>
             if \<not> was \<and> cs_platform client \<noteq> l_platform existing
             then (Inr (LeaseNotAssigned NoDefaultCdpHost (Some existing)), s)
             else
               (let s1 = removeLease existing (l_runtimeEntityId existing) s;
                    s2 = stopRouteAttempt existing Superseded True s1;
                    (_, s3) = emitChange (l_runtimeEntityId existing) (l_slotId existing) (Some existing) None Revoked s2;
                    (uuid, s4) = randomUUID s3
                in (case writeLease entity (default_request (l_slotId existing) client uuid) Acquired was s4 of
                      (Inl e, s5) \<Rightarrow> (Inl e, s5)
                    | (Inr (l, _), s5) \<Rightarrow> (Inr (LeaseAssigned l), s5))))"

subsection \<open>Moving a slot to another runtime entity\<close>

definition replace_runtime_entity :: "string \<Rightarrow> string \<Rightarrow> string \<Rightarrow> coord \<Rightarrow> runtime_lease option outcome" where
  "replace_runtime_entity slot previousEntity nextEntity s =
     (if previousEntity = nextEntity then (Inr (map_of (pc_leases s) previousEntity), s)
      else
        (case map_of (pc_leases s) previousEntity of
           None \<Rightarrow> (Inr (map_of (pc_leases s) nextEntity), s)
         | Some previous \<Rightarrow>
             if l_slotId previous \<noteq> slot then (Inr (map_of (pc_leases s) nextEntity), s)
             else
               (let was = isDefaultCdpLease previous s;
                    s1 = stopRouteAttempt previous Superseded True (removeLease previous previousEntity s)
                in case map_of (pc_leases s1) nextEntity of
                     Some existing \<Rightarrow>
                       (Inr (Some existing), snd (emitChange nextEntity slot (Some previous) (Some existing) Acquired s1))
                   | None \<Rightarrow>
                       if \<not> l_loadOnLeaseAssignment previous
                       then (let s2 = snd (commit_attempt slot (attempt_input_for nextEntity) s1)
                             in (Inr None, snd (emitChange nextEntity slot (Some previous) None Released s2)))
                       else
                         (let (uuid, s2) = randomUUID s1
                          in (case writeLease nextEntity
                                \<lparr>lr_slotId = slot, lr_clientSessionId = l_clientSessionId previous,
                                 lr_connectionId = uuid, lr_hostConnectionId = Some (l_hostConnectionId previous)\<rparr>
                                Acquired was s2 of
                                (Inl e, s3) \<Rightarrow> (Inl e, s3)
                              | (Inr (l, _), s3) \<Rightarrow> (Inr (Some l), s3))))))"

definition replaceRuntimeEntityForSlot ::
  "string \<Rightarrow> string \<Rightarrow> string \<Rightarrow> coord \<Rightarrow> runtime_lease option outcome" where
  "replaceRuntimeEntityForSlot slot previousEntity nextEntity s =
     (case (asPanelSlotId slot, asPanelEntityId previousEntity, asPanelEntityId nextEntity) of
        (Inr slot, Inr p, Inr n) \<Rightarrow> replace_runtime_entity slot p n s
      | (Inl e, _, _) \<Rightarrow> (Inl e, s)
      | (Inr _, Inl e, _) \<Rightarrow> (Inl e, s)
      | (Inr _, Inr _, Inl e) \<Rightarrow> (Inl e, s))"

definition advanceResidentSlotEntity :: "string \<Rightarrow> string \<Rightarrow> coord \<Rightarrow> runtime_lease option outcome" where
  "advanceResidentSlotEntity slot nextEntity s =
     (case (asPanelSlotId slot, asPanelEntityId nextEntity) of
        (Inl e, _) \<Rightarrow> (Inl e, s)
      | (Inr _, Inl e) \<Rightarrow> (Inl e, s)
      | (Inr slot, Inr nextEntity) \<Rightarrow>
          (case leaseForSlot slot s of
             None \<Rightarrow> (Inr None, s)
           | Some l \<Rightarrow>
               if l_runtimeEntityId l = nextEntity then (Inr (Some l), s)
               else replaceRuntimeEntityForSlot slot (l_runtimeEntityId l) nextEntity s))"

text \<open>\<open>available\<close> is \<open>!options.isHostAvailable || options.isHostAvailable(host)\<close>; a lease is
  \<open>stale_host\<close> when the caller asked to replace unavailable hosts and its host is one.\<close>

definition host_available :: "cdp_options \<Rightarrow> string \<Rightarrow> bool" where
  "host_available opts h = (case op_isHostAvailable opts of None \<Rightarrow> True | Some av \<Rightarrow> av h)"

definition stale_host :: "cdp_options \<Rightarrow> runtime_lease \<Rightarrow> bool" where
  "stale_host opts l = (op_replaceUnavailableLease opts \<and> op_isHostAvailable opts \<noteq> None
     \<and> \<not> host_available opts (l_hostConnectionId l))"

definition ensure_held ::
  "string \<Rightarrow> string \<Rightarrow> cdp_options \<Rightarrow> runtime_lease \<Rightarrow> coord \<Rightarrow> ensure_result outcome" where
  "ensure_held slot entity opts existing s =
     (if \<not> l_supportsCdp existing then (Inr (LeaseNotAssigned MobileHeld (Some existing)), s)
      else
        (let attempt = currentAttempt slot s
         in if (case attempt of None \<Rightarrow> False
                | Some a \<Rightarrow> pa_runtimeEntityId a = entity \<and> pa_phase a = Failed)
              \<and> (isDefaultCdpLease existing s \<or> l_platform existing = Headless)
            then replaceCdpLease entity existing opts PreferDefault s
            else if stale_host opts existing
            then replaceCdpLease entity existing opts SamePlatform s
            else if l_loadOnLeaseAssignment existing \<and> isDefaultCdpLease existing s
              \<and> \<not> jhas (pc_routeViews s) (case attempt of None \<Rightarrow> [] | Some a \<Rightarrow> pa_attemptId a)
            then (Inr (LeaseAssigned existing),
                  snd (emitChange entity slot (Some existing) (Some existing) Acquired s))
            else (Inr (LeaseNotAssigned AlreadyHeld (Some existing)), s)))"

definition ensure_other ::
  "string \<Rightarrow> string \<Rightarrow> cdp_options \<Rightarrow> runtime_lease \<Rightarrow> coord \<Rightarrow> ensure_result outcome" where
  "ensure_other slot entity opts l s =
     (if \<not> l_supportsCdp l then (Inr (LeaseNotAssigned MobileHeld (Some l)), s)
      else if l_runtimeEntityId l \<noteq> entity \<and> host_available opts (l_hostConnectionId l)
      then (case replaceRuntimeEntityForSlot slot (l_runtimeEntityId l) entity s of
              (Inl e, s') \<Rightarrow> (Inl e, s')
            | (Inr r, s') \<Rightarrow> (Inr (LeaseAssigned (case r of Some x \<Rightarrow> x | None \<Rightarrow> l)), s'))
      else if stale_host opts l then replaceCdpLease entity l opts SamePlatform s
      else (Inr (LeaseNotAssigned AlreadyHeld (Some l)), s))"

definition ensureDefaultCdpHostForSlot ::
  "string \<Rightarrow> string \<Rightarrow> cdp_options \<Rightarrow> coord \<Rightarrow> ensure_result outcome" where
  "ensureDefaultCdpHostForSlot slot entity opts s =
     (case (asPanelSlotId slot, asPanelEntityId entity) of
        (Inl e, _) \<Rightarrow> (Inl e, s)
      | (Inr _, Inl e) \<Rightarrow> (Inl e, s)
      | (Inr slot, Inr entity) \<Rightarrow>
          (case map_of (pc_leases s) entity of
             Some existing \<Rightarrow> ensure_held slot entity opts existing s
           | None \<Rightarrow>
               (case leaseForSlot slot s of
                  Some l \<Rightarrow> ensure_other slot entity opts l s
                | None \<Rightarrow>
                    (case getDefaultCdpHostClient opts None s of
                       None \<Rightarrow> (Inr (LeaseNotAssigned NoDefaultCdpHost None), s)
                     | Some client \<Rightarrow>
                         (let (uuid, s1) = randomUUID s
                          in (case writeLease entity (default_request slot client uuid) Acquired True s1 of
                                (Inl e, s2) \<Rightarrow> (Inl e, s2)
                              | (Inr (l, _), s2) \<Rightarrow> (Inr (LeaseAssigned l), s2)))))))"

subsection \<open>Acquiring, taking over, releasing\<close>

definition written :: "(runtime_lease \<times> lease_version) outcome \<Rightarrow> acquire_result outcome" where
  "written r = (case r of
     (Inl e, s) \<Rightarrow> (Inl e, s)
   | (Inr (l, v), s) \<Rightarrow> (Inr \<lparr>ar_acquired = True, ar_lease = l, ar_version = v\<rparr>, s))"

definition healthy_route :: "runtime_lease \<Rightarrow> string \<Rightarrow> panel_attempt option \<Rightarrow> bool" where
  "healthy_route existing entity attempt =
     (l_expiresAt existing = None \<and>
      (case attempt of None \<Rightarrow> False
       | Some a \<Rightarrow> pa_runtimeEntityId a = entity \<and> pa_phase a \<noteq> Failed \<and> pa_phase a \<noteq> Stopped))"

definition acquire :: "string \<Rightarrow> lease_request \<Rightarrow> coord \<Rightarrow> acquire_result outcome" where
  "acquire entity inp s =
     (case asPanelEntityId entity of
        Inl e \<Rightarrow> (Inl e, s)
      | Inr entity \<Rightarrow>
          (case map_of (pc_leases s) entity of
             None \<Rightarrow> written (writeLease entity inp Acquired False s)
           | Some existing \<Rightarrow>
               if l_clientSessionId existing \<noteq> lr_clientSessionId inp
               then (Inr \<lparr>ar_acquired = False, ar_lease = existing, ar_version = currentVersion s\<rparr>, s)
               else
                 (case asPanelSlotId (lr_slotId inp) of
                    Inl e \<Rightarrow> (Inl e, s)
                  | Inr slot \<Rightarrow>
                      if healthy_route existing entity (currentAttempt slot s)
                      then (Inr \<lparr>ar_acquired = True, ar_lease = existing, ar_version = currentVersion s\<rparr>, s)
                      else written (writeLease entity inp Acquired False s))))"

definition takeOver :: "string \<Rightarrow> lease_request \<Rightarrow> coord \<Rightarrow> acquire_result outcome" where
  "takeOver entity inp s =
     (case asPanelEntityId entity of
        Inl e \<Rightarrow> (Inl e, s)
      | Inr entity \<Rightarrow>
          (let s1 = (case map_of (pc_leases s) entity of
                       None \<Rightarrow> s
                     | Some existing \<Rightarrow>
                         if l_connectionId existing \<noteq> lr_connectionId inp
                         then snd (emitChange entity (l_slotId existing) (Some existing) None Revoked
                                (stopRouteAttempt existing Superseded True s))
                         else s)
           in written (writeLease entity inp Acquired False s1)))"

definition forget_result :: "'a outcome \<Rightarrow> unit outcome" where
  "forget_result r = (case r of (Inl e, s) \<Rightarrow> (Inl e, s) | (Inr _, s) \<Rightarrow> (Inr (), s))"

definition release_lease :: "string \<Rightarrow> string \<Rightarrow> lease_reason \<Rightarrow> coord \<Rightarrow> unit outcome" where
  "release_lease entity conn reason s =
     (case map_of (pc_leases s) entity of
        None \<Rightarrow> (Inr (), s)
      | Some existing \<Rightarrow>
          if l_connectionId existing \<noteq> conn then (Inr (), s)
          else if l_slotId existing \<in> set (pc_keptLoadedSlots s) then (Inr (), clearExpiry entity s)
          else
            (let was = isDefaultCdpLease existing s;
                 s1 = stopRouteAttempt existing (if reason = Expired then HostLost else Unloaded) False
                        (removeLease existing entity s);
                 s2 = snd (emitChange entity (l_slotId existing) (Some existing) None reason s1)
             in if (reason = Released \<or> reason = Expired) \<and> shouldReassignDefaultCdpLease existing was
                then forget_result (assignDefaultCdpHost entity (l_slotId existing) (Some (l_hostConnectionId existing)) s2)
                else (Inr (), s2)))"

definition release :: "string \<Rightarrow> string \<Rightarrow> lease_reason \<Rightarrow> coord \<Rightarrow> unit outcome" where
  "release entity conn reason s =
     (case asPanelEntityId entity of
        Inl e \<Rightarrow> (Inl e, s)
      | Inr entity \<Rightarrow> release_lease entity conn reason s)"

definition unloadSlot :: "string \<Rightarrow> coord \<Rightarrow> runtime_lease option outcome" where
  "unloadSlot slot s =
     (case asPanelSlotId slot of
        Inl e \<Rightarrow> (Inl e, s)
      | Inr slot \<Rightarrow>
          if slot \<in> set (pc_keptLoadedSlots s) then (Inr None, s)
          else
            (case find (\<lambda>(e, l). l_slotId l = slot) (pc_leases s) of
               Some (entity, l) \<Rightarrow>
                 (Inr (Some l),
                  snd (emitChange entity (l_slotId l) (Some l) None Released
                    (stopRouteAttempt l Unloaded True (removeLease l entity s))))
             | None \<Rightarrow>
                 (Inr None,
                  (case currentAttempt slot s of
                     None \<Rightarrow> s
                   | Some a \<Rightarrow> snd (stopAttempt (pa_attemptId a) Unloaded s)))))"

definition stop_entity_attempt :: "string \<Rightarrow> string \<Rightarrow> coord \<Rightarrow> coord" where
  "stop_entity_attempt entity attemptId s =
     (if map_option pa_runtimeEntityId (map_of (pc_attempts s) attemptId) = Some entity
      then snd (stopAttempt attemptId RetiredStop s) else s)"

definition retireRuntimeEntity :: "string \<Rightarrow> coord \<Rightarrow> coord" where
  "retireRuntimeEntity entity s =
     (if \<not> isPanelEntityId entity then s
      else
        (let s1 = (case map_of (pc_hostHeld s) entity of
                     None \<Rightarrow> s
                   | Some h \<Rightarrow> s\<lparr>pc_hostHeld := jdel entity (pc_hostHeld s),
                                 pc_routeReachability := jdel (he_connectionId h) (pc_routeReachability s)\<rparr>);
             s2 = (case map_of (pc_leases s1) entity of
                     None \<Rightarrow> s1
                   | Some l \<Rightarrow> snd (emitChange entity (l_slotId l) (Some l) None LeaseRetired
                        (stopRouteAttempt l RetiredStop True (removeLease l entity s1))))
         in fold (stop_entity_attempt entity) (jvalues (pc_currentAttemptBySlot s2)) s2))"

end
