(* ===== verification/PanelRoutes.thy ===== *)
theory PanelRoutes
  imports PanelLeases
begin

text \<open>
  The panel runtime coordinator (\<^verbatim>\<open>src/server/panelRuntimeCoordinator.ts\<close>), third part: client
  registrations, keep-loaded pins, host-held runtimes, connection authorisation, disconnect
  grace and its expiry, routing look-ups, the page reports and the boot supervision.
\<close>

subsection \<open>Pins\<close>

definition restamp ::
  "string \<Rightarrow> bool \<Rightarrow> string \<times> runtime_lease \<Rightarrow> coord \<Rightarrow> coord" where
  "restamp slot keep = (\<lambda>(entity, l) s.
     if l_slotId l \<noteq> slot then s
     else if keeps_loaded l = keep then s
     else (let next = l\<lparr>l_keepLoaded := Some keep\<rparr>
           in snd (emitChange entity slot (Some l) (Some next) Acquired
                (s\<lparr>pc_leases := jset entity next (pc_leases s)\<rparr>))))"

definition restampSlotKeepLoaded :: "string \<Rightarrow> bool \<Rightarrow> coord \<Rightarrow> coord" where
  "restampSlotKeepLoaded slot keep s = fold (restamp slot keep) (pc_leases s) s"

definition pinSlotLoaded :: "string \<Rightarrow> coord \<Rightarrow> unit outcome" where
  "pinSlotLoaded slot s =
     (case asPanelSlotId slot of
        Inl e \<Rightarrow> (Inl e, s)
      | Inr slot \<Rightarrow>
          if slot \<in> set (pc_keptLoadedSlots s) then (Inr (), s)
          else (Inr (), restampSlotKeepLoaded slot True
                 (s\<lparr>pc_keptLoadedSlots := set_add slot (pc_keptLoadedSlots s)\<rparr>)))"

definition unpinSlotLoaded :: "string \<Rightarrow> coord \<Rightarrow> unit outcome" where
  "unpinSlotLoaded slot s =
     (case asPanelSlotId slot of
        Inl e \<Rightarrow> (Inl e, s)
      | Inr slot \<Rightarrow>
          if slot \<notin> set (pc_keptLoadedSlots s) then (Inr (), s)
          else (Inr (), restampSlotKeepLoaded slot False
                 (s\<lparr>pc_keptLoadedSlots := removeAll slot (pc_keptLoadedSlots s)\<rparr>)))"

subsection \<open>Client registrations\<close>

definition registerClient :: "host_registration \<Rightarrow> coord \<Rightarrow> coord" where
  "registerClient r s =
     (let existing = map_of (pc_clients s) (hr_clientSessionId r);
          session = \<lparr>cs_clientSessionId = hr_clientSessionId r,
            cs_hostConnectionId = (case hr_hostConnectionId r of Some h \<Rightarrow> Some h
              | None \<Rightarrow> (case Option.bind existing cs_hostConnectionId of Some h \<Rightarrow> Some h
                          | None \<Rightarrow> Some (hr_clientSessionId r))),
            cs_ownerCallerId = (case hr_ownerCallerId r of Some c \<Rightarrow> Some c
              | None \<Rightarrow> Option.bind existing cs_ownerCallerId),
            cs_label = hr_label r, cs_platform = hr_platform r,
            cs_supportsCdp = Some (case hr_supportsCdp r of Some b \<Rightarrow> b | None \<Rightarrow> hr_platform r \<noteq> Mobile),
            cs_loadOnLeaseAssignment = Some (case hr_loadOnLeaseAssignment r of Some b \<Rightarrow> b | None \<Rightarrow> False),
            cs_connectedAt = (case existing of Some c \<Rightarrow> cs_connectedAt c | None \<Rightarrow> pc_clock s),
            cs_lastSeenAt = pc_clock s\<rparr>
      in s\<lparr>pc_clients := jset (hr_clientSessionId r) session (pc_clients s)\<rparr>)"

text \<open>The leases of a retired client leave the map; the marked ones are reassigned after all are gone.\<close>

definition release_retired ::
  "string list \<Rightarrow> string \<times> runtime_lease \<Rightarrow> coord \<times> (string \<times> runtime_lease \<times> bool) list \<Rightarrow>
   coord \<times> (string \<times> runtime_lease \<times> bool) list" where
  "release_retired retired = (\<lambda>(entity, l) (s, released).
     if l_clientSessionId l \<notin> set retired then (s, released)
     else
       (let was = isDefaultCdpLease l s;
            s1 = stopRouteAttempt l HostLost True (removeLease l entity s);
            s2 = snd (emitChange entity (l_slotId l) (Some l) None Released s1)
        in (s2, released @ [(entity, l, was)])))"

fun reassign_released :: "(string \<times> runtime_lease \<times> bool) list \<Rightarrow> coord \<Rightarrow> unit outcome" where
  "reassign_released [] s = (Inr (), s)"
| "reassign_released ((entity, l, was) # rest) s =
     (if shouldReassignDefaultCdpLease l was
      then (case assignDefaultCdpHost entity (l_slotId l) (Some (l_hostConnectionId l)) s of
              (Inl e, s') \<Rightarrow> (Inl e, s')
            | (Inr _, s') \<Rightarrow> reassign_released rest s')
      else reassign_released rest s)"

definition unregisterClients :: "string list \<Rightarrow> coord \<Rightarrow> unit outcome" where
  "unregisterClients ids s =
     (let s1 = s\<lparr>pc_clients := filter (\<lambda>p. fst p \<notin> set ids) (pc_clients s)\<rparr>;
          (s2, released) = fold (release_retired ids) (pc_leases s1) (s1, [])
      in reassign_released released s2)"

definition unregisterClient :: "string \<Rightarrow> coord \<Rightarrow> unit outcome" where
  "unregisterClient c s = unregisterClients [c] s"

definition unregisterClientsForCaller :: "string \<Rightarrow> coord \<Rightarrow> unit outcome" where
  "unregisterClientsForCaller owner s =
     unregisterClients
       (map cs_clientSessionId (filter (\<lambda>c. cs_ownerCallerId c = Some owner) (jvalues (pc_clients s)))) s"

subsection \<open>Look-ups\<close>

definition getSnapshot :: "coord \<Rightarrow> lease_snapshot" where
  "getSnapshot s = \<lparr>ls_version = currentVersion s, ls_leases = jvalues (pc_leases s)\<rparr>"

definition getLease :: "string \<Rightarrow> coord \<Rightarrow> runtime_lease option" where
  "getLease entity s = (if \<not> isPanelEntityId entity then None else map_of (pc_leases s) entity)"

definition hasClientHostConnection :: "string \<Rightarrow> string option \<Rightarrow> coord \<Rightarrow> bool" where
  "hasClientHostConnection host owner s =
     (case find (\<lambda>c. cs_hostConnectionId c = Some host) (jvalues (pc_clients s)) of
        None \<Rightarrow> False
      | Some c \<Rightarrow> \<not> (truthy owner \<and> truthy (cs_ownerCallerId c) \<and> cs_ownerCallerId c \<noteq> owner))"

definition ownsClientSession :: "string \<Rightarrow> string \<Rightarrow> coord \<Rightarrow> bool" where
  "ownsClientSession c owner s =
     (case map_of (pc_clients s) c of
        None \<Rightarrow> False
      | Some cl \<Rightarrow> cs_ownerCallerId cl = None \<or> cs_ownerCallerId cl = Some owner)"

definition resolveHostForSlot :: "string \<Rightarrow> coord \<Rightarrow> (panel_error, (string \<times> bool) option) result" where
  "resolveHostForSlot slot s =
     (case asPanelSlotId slot of
        Inl e \<Rightarrow> Inl e
      | Inr slot \<Rightarrow> Inr (map_option (\<lambda>l. (l_hostConnectionId l, l_supportsCdp l)) (leaseForSlot slot s)))"

definition clientForHostConnection :: "string \<Rightarrow> coord \<Rightarrow> client_session option" where
  "clientForHostConnection host s = find (\<lambda>c. client_host c = host) (jvalues (pc_clients s))"

definition observeSlot ::
  "string \<Rightarrow> coord \<Rightarrow> (panel_error, runtime_lease option \<times> page_observation option) result" where
  "observeSlot slot s =
     (case asPanelSlotId slot of
        Inl e \<Rightarrow> Inl e
      | Inr slot \<Rightarrow>
          (case leaseForSlot slot s of
             None \<Rightarrow> Inr (None, None)
           | Some l \<Rightarrow>
               Inr (Some l, Option.bind (if_truthy (map_of (pc_routeBindings s) (l_connectionId l)))
                              (map_of (pc_routeViews s)))))"

definition reportedViewForSlot ::
  "string \<Rightarrow> coord \<Rightarrow> (panel_error, (runtime_lease \<times> page_observation) option) result" where
  "reportedViewForSlot slot s =
     (case asPanelSlotId slot of
        Inl e \<Rightarrow> Inl e
      | Inr slot \<Rightarrow>
          (case leaseForSlot slot s of
             None \<Rightarrow> Inr None
           | Some l \<Rightarrow>
               Inr (map_option (\<lambda>p. (l, p))
                     (Option.bind (if_truthy (map_of (pc_routeBindings s) (l_connectionId l)))
                       (map_of (pc_routeViews s))))))"

definition resolvePresentationCallerForSlot :: "string \<Rightarrow> coord \<Rightarrow> (panel_error, string option) result" where
  "resolvePresentationCallerForSlot slot s =
     (case asPanelSlotId slot of
        Inl e \<Rightarrow> Inl e
      | Inr slot \<Rightarrow>
          Inr (Option.bind (leaseForSlot slot s) (\<lambda>l.
            Option.bind (clientForHostConnection (l_hostConnectionId l) s) cs_ownerCallerId)))"

definition resolvePresentationCallerForRuntime :: "string \<Rightarrow> coord \<Rightarrow> string option" where
  "resolvePresentationCallerForRuntime entity s =
     (if \<not> isPanelEntityId entity then None
      else Option.bind (map_of (pc_leases s) entity) (\<lambda>l.
            Option.bind (clientForHostConnection (l_hostConnectionId l) s) cs_ownerCallerId))"

definition adoptHostLeaseForSlot :: "string \<Rightarrow> string \<Rightarrow> string \<Rightarrow> coord \<Rightarrow> runtime_lease option outcome" where
  "adoptHostLeaseForSlot slot entity host s =
     (case (asPanelSlotId slot, asPanelEntityId entity) of
        (Inl e, _) \<Rightarrow> (Inl e, s)
      | (Inr _, Inl e) \<Rightarrow> (Inl e, s)
      | (Inr slot, Inr entity) \<Rightarrow>
          (case (case map_of (pc_leases s) entity of Some l \<Rightarrow> Some l | None \<Rightarrow> leaseForSlot slot s) of
             Some existing \<Rightarrow>
               (Inr (if l_hostConnectionId existing = host \<and> l_supportsCdp existing then Some existing else None), s)
           | None \<Rightarrow>
               (case clientForHostConnection host s of
                  None \<Rightarrow> (Inr None, s)
                | Some client \<Rightarrow>
                    if cs_supportsCdp client = Some False then (Inr None, s)
                    else
                      (let (uuid, s1) = randomUUID s
                       in (case writeLease entity
                             \<lparr>lr_slotId = slot, lr_clientSessionId = cs_clientSessionId client,
                              lr_connectionId = ''adopted-cdp-'' @ slot @ ''-'' @ uuid,
                              lr_hostConnectionId = Some host\<rparr> Acquired False s1 of
                             (Inl e, s2) \<Rightarrow> (Inl e, s2)
                           | (Inr (l, _), s2) \<Rightarrow> (Inr (Some l), s2))))))"

subsection \<open>Host-held runtimes\<close>

definition holdEntityForHost :: "held_entity \<Rightarrow> coord \<Rightarrow> held_entity outcome" where
  "holdEntityForHost inp s =
     (case asPanelEntityId (he_runtimeEntityId inp) of
        Inl e \<Rightarrow> (Inl e, s)
      | Inr entity \<Rightarrow>
          if jhas (pc_leases s) entity then (Inl (PresentedByViewHost entity), s)
          else
            (let s1 = (case map_of (pc_hostHeld s) entity of
                         None \<Rightarrow> s
                       | Some p \<Rightarrow> if he_connectionId p \<noteq> he_connectionId inp
                                   then s\<lparr>pc_routeReachability := jdel (he_connectionId p) (pc_routeReachability s)\<rparr>
                                   else s)
             in (Inr inp, s1\<lparr>pc_hostHeld := jset entity inp (pc_hostHeld s1)\<rparr>)))"

definition panelIdentityForRuntime :: "string \<Rightarrow> coord \<Rightarrow> string option" where
  "panelIdentityForRuntime entity s =
     (if \<not> isPanelEntityId entity then None
      else if jhas (pc_hostHeld s) entity then Some entity
      else map_option l_slotId (map_of (pc_leases s) entity))"

definition getHostHeldLease :: "string \<Rightarrow> coord \<Rightarrow> held_entity option" where
  "getHostHeldLease entity s = (if \<not> isPanelEntityId entity then None else map_of (pc_hostHeld s) entity)"

definition resolveAuthorizerForRuntime :: "string \<Rightarrow> coord \<Rightarrow> string option" where
  "resolveAuthorizerForRuntime entity s =
     (if \<not> isPanelEntityId entity then None
      else (case map_of (pc_hostHeld s) entity of
              Some h \<Rightarrow> Some (he_authorizedBy h)
            | None \<Rightarrow> resolvePresentationCallerForRuntime entity s))"

text \<open>\<open>{ ok: true }\<close> or the reason of the refusal.\<close>

datatype connection_verdict = Allowed | Refused string

definition authorizePanelConnection ::
  "string \<Rightarrow> string \<Rightarrow> string option \<Rightarrow> coord \<Rightarrow> (panel_error, connection_verdict) result" where
  "authorizePanelConnection entity conn authorizedBy s =
     (case asPanelEntityId entity of
        Inl e \<Rightarrow> Inl e
      | Inr entity \<Rightarrow>
          (case map_of (pc_hostHeld s) entity of
             Some h \<Rightarrow>
               if he_connectionId h \<noteq> conn
               then Inr (Refused (''Panel runtime is held by its '' @ he_holderLabel h))
               else if authorizedBy \<noteq> None \<and> Some (he_authorizedBy h) \<noteq> authorizedBy
               then Inr (Refused ''Panel runtime was launched by another caller'')
               else Inr Allowed
           | None \<Rightarrow>
               (case map_of (pc_leases s) entity of
                  None \<Rightarrow> Inr (Refused ''Panel runtime has no active lease'')
                | Some l \<Rightarrow>
                    if l_connectionId l \<noteq> conn
                    then Inr (Refused (''Panel runtime is leased by '' @ l_holderLabel l))
                    else if authorizedBy \<noteq> None \<and> resolvePresentationCallerForRuntime entity s \<noteq> authorizedBy
                    then Inr (Refused ''Panel runtime is leased by another caller'')
                    else Inr Allowed)))"

subsection \<open>Connects, disconnects and the reconnect grace\<close>

definition reachable :: "string \<Rightarrow> coord \<Rightarrow> bool" where
  "reachable conn s \<longleftrightarrow> map_of (pc_routeReachability s) conn = Some True"

definition set_reachable :: "string \<Rightarrow> bool \<Rightarrow> coord \<Rightarrow> coord" where
  "set_reachable conn b s = s\<lparr>pc_routeReachability := jset conn b (pc_routeReachability s)\<rparr>"

definition routedAttempt :: "string \<Rightarrow> coord \<Rightarrow> panel_attempt option" where
  "routedAttempt conn s =
     Option.bind (if_truthy (map_of (pc_routeBindings s) conn)) (map_of (pc_attempts s))"

definition mark_connected :: "string \<Rightarrow> string \<Rightarrow> coord \<Rightarrow> coord" where
  "mark_connected entity conn s =
     (case map_of (pc_hostHeld s) entity of
        Some h \<Rightarrow> if he_connectionId h = conn then set_reachable conn True s else s
      | None \<Rightarrow>
          (case map_of (pc_leases s) entity of
             None \<Rightarrow> s
           | Some l \<Rightarrow>
               if l_connectionId l \<noteq> conn then s
               else
                 (let was = reachable conn s;
                      s1 = set_reachable conn True (clearExpiry entity s);
                      s2 = (case routedAttempt conn s1 of
                              None \<Rightarrow> s1
                            | Some a \<Rightarrow>
                                if pa_phase a = Pending then startSupervisionIfAbsent a s1
                                else if pa_phase a = Loading \<or> pa_phase a = Booting then ensureSupervision a s1
                                else s1)
                  in if l_expiresAt l \<noteq> None
                     then (let next = l\<lparr>l_expiresAt := None\<rparr>
                           in snd (emitChange entity (l_slotId l) (Some l) (Some next) Acquired
                                (s2\<lparr>pc_leases := jset entity next (pc_leases s2)\<rparr>)))
                     else if \<not> was
                     then emitSlotObservationChanged (l_slotId l) (nextSlotObservationVersion (l_slotId l) s2)
                     else s2)))"

definition markConnected :: "string \<Rightarrow> string \<Rightarrow> coord \<Rightarrow> unit outcome" where
  "markConnected entity conn s =
     (case asPanelEntityId entity of
        Inl e \<Rightarrow> (Inl e, s) | Inr entity \<Rightarrow> (Inr (), mark_connected entity conn s))"

text \<open>The timer's identity is a fresh object; its callback is \<open>expire\<close> with that identity.\<close>

definition mark_disconnected :: "string \<Rightarrow> string \<Rightarrow> coord \<Rightarrow> coord" where
  "mark_disconnected entity conn s =
     (case map_of (pc_hostHeld s) entity of
        Some h \<Rightarrow> if he_connectionId h = conn then set_reachable conn False s else s
      | None \<Rightarrow>
          (case map_of (pc_leases s) entity of
             None \<Rightarrow> s
           | Some l \<Rightarrow>
               if l_connectionId l \<noteq> conn then s
               else
                 (let s1 = set_reachable conn False (clearExpiry entity s);
                      next = l\<lparr>l_expiresAt := Some (pc_clock s1 + LEASE_RECONNECT_GRACE_MS)\<rparr>;
                      s2 = snd (emitChange entity (l_slotId l) (Some l) (Some next) Released
                             (s1\<lparr>pc_leases := jset entity next (pc_leases s1)\<rparr>))
                  in s2\<lparr>pc_expiryTimers := jset entity (pc_objects s2) (pc_expiryTimers s2),
                        pc_objects := Suc (pc_objects s2)\<rparr>)))"

definition markDisconnected :: "string \<Rightarrow> string \<Rightarrow> coord \<Rightarrow> unit outcome" where
  "markDisconnected entity conn s =
     (case asPanelEntityId entity of
        Inl e \<Rightarrow> (Inl e, s) | Inr entity \<Rightarrow> (Inr (), mark_disconnected entity conn s))"

definition expire :: "string \<Rightarrow> string \<Rightarrow> nat \<Rightarrow> coord \<Rightarrow> unit outcome" where
  "expire entity conn timer s =
     (if map_of (pc_expiryTimers s) entity \<noteq> Some timer then (Inr (), s)
      else release entity conn Expired s)"

subsection \<open>Routing\<close>

definition resolveRouteLease :: "string \<Rightarrow> coord \<Rightarrow> runtime_lease option" where
  "resolveRouteLease target s =
     (case (if isPanelEntityId target then map_of (pc_leases s) target else None) of
        Some l \<Rightarrow> Some l
      | None \<Rightarrow> if isPanelSlotId target then leaseForSlot target s else None)"

definition resolveRouteConnection :: "string \<Rightarrow> coord \<Rightarrow> string option" where
  "resolveRouteConnection target s =
     (case (if isPanelEntityId target then map_of (pc_hostHeld s) target else None) of
        Some h \<Rightarrow> Some (he_connectionId h)
      | None \<Rightarrow> map_option l_connectionId (resolveRouteLease target s))"

definition resolveRouteRuntimeEntityId :: "string \<Rightarrow> coord \<Rightarrow> string option" where
  "resolveRouteRuntimeEntityId target s =
     (if isPanelEntityId target \<and> jhas (pc_hostHeld s) target then Some target
      else map_option l_runtimeEntityId (resolveRouteLease target s))"

end
