(* ===== verification/PanelViews.thy ===== *)
theory PanelViews
  imports PanelRoutes
begin

text \<open>
  The panel runtime coordinator (\<^verbatim>\<open>src/server/panelRuntimeCoordinator.ts\<close>), fourth part: page
  reports from hosts and renderers (\<open>reportView\<close>), and the boot supervision that turns ten
  minutes without progress into a typed failure. One supervision round is split at its await:
  \<open>superviseBegin\<close> runs when the interval fires, \<open>superviseEnd\<close> when the probe has answered.
  A page field that is \<open>null\<close> and one that is absent are the same \<open>None\<close>.
\<close>

subsection \<open>Page reports\<close>

record view_input =
  vi_url :: string
  vi_loading :: bool
  vi_boot :: boot_probe
  vi_failure :: "(attempt_reporter \<times> attempt_failure) option"

datatype view_evidence = RendererEvidence | HostedExternal | PresentationOnly

definition boot_differs :: "boot_observation \<Rightarrow> boot_observation \<Rightarrow> bool" where
  "boot_differs p q \<longleftrightarrow>
     bo_phase p \<noteq> bo_phase q \<or> bo_runtimeEntityId p \<noteq> bo_runtimeEntityId q \<or>
     bo_source p \<noteq> bo_source q \<or> bo_contextId p \<noteq> bo_contextId q \<or>
     bo_effectiveVersion p \<noteq> bo_effectiveVersion q \<or> bo_buildKey p \<noteq> bo_buildKey q \<or>
     bo_message p \<noteq> bo_message q \<or> bo_errorName p \<noteq> bo_errorName q \<or> bo_stack p \<noteq> bo_stack q \<or>
     bo_failureStage p \<noteq> bo_failureStage q \<or>
     map_option tf_netError (bo_transportFailure p) \<noteq> map_option tf_netError (bo_transportFailure q)"

definition page_changed :: "page_observation option \<Rightarrow> page_observation \<Rightarrow> bool" where
  "page_changed previous next =
     (case previous of
        None \<Rightarrow> True
      | Some p \<Rightarrow> po_url p \<noteq> po_url next \<or> po_loading p \<noteq> po_loading next \<or>
          (case (po_boot p, po_boot next) of
             (Observed a, Observed b) \<Rightarrow> boot_differs a b
           | (Unavailable, Unavailable) \<Rightarrow> False
           | _ \<Rightarrow> True))"

text \<open>The typed failure of a failed boot. Only the host can vouch for a transport failure.\<close>

definition boot_failure :: "view_evidence \<Rightarrow> boot_observation \<Rightarrow> attempt_failure option" where
  "boot_failure evidence b =
     (let stage = (case bo_failureStage b of Some st \<Rightarrow> st | None \<Rightarrow> EntryStage);
          transport = (if stage = BundleLoad \<and> evidence \<noteq> RendererEvidence then bo_transportFailure b else None)
      in if bo_phase b \<noteq> Failed then None
         else Some
           \<lparr>af_stage = stage,
            af_code = (if transport \<noteq> None then AssetTransportFailed
                       else if stage = BundleLoad then AssetUnavailable
                       else if stage = ConfigStage then UnknownFailure
                       else EntryThrew),
            af_message = (case transport of
                Some t \<Rightarrow> Some ((case bo_message b of Some m \<Rightarrow> m | None \<Rightarrow> ''The panel bundle could not be loaded'')
                            @ '': '' @ tf_netError t @ '' while loading '' @ tf_url t)
              | None \<Rightarrow> if_truthy (bo_message b)),
            af_stack = if_truthy (bo_stack b),
            af_detail = None,
            af_diagnostics = map_option (\<lambda>t. TransportDiagnostics (tf_netError t) (tf_url t)) transport\<rparr>)"

definition boot_report :: "view_evidence \<Rightarrow> boot_observation \<Rightarrow> attempt_report" where
  "boot_report evidence b =
     \<lparr>ap_phase = bo_phase b,
      ap_reporter = (if evidence = RendererEvidence then ByRenderer else ByHost),
      ap_failure = boot_failure evidence b, ap_stopReason = None,
      ap_buildKey = if_truthy (bo_buildKey b), ap_effectiveVersion = if_truthy (bo_effectiveVersion b)\<rparr>"

definition host_failure_report :: "attempt_reporter \<Rightarrow> attempt_failure \<Rightarrow> attempt_report" where
  "host_failure_report who f = \<lparr>ap_phase = Failed, ap_reporter = who, ap_failure = Some f,
     ap_stopReason = None, ap_buildKey = None, ap_effectiveVersion = None\<rparr>"

text \<open>The boot record of a report, stamped by the coordinator.\<close>

definition observed_boot :: "view_input \<Rightarrow> coord \<Rightarrow> boot_observation option" where
  "observed_boot inp s =
     (case vi_boot inp of Observed b \<Rightarrow> Some (b\<lparr>bo_updatedAt := Some (pc_clock s)\<rparr>) | Unavailable \<Rightarrow> None)"

definition page_of_view :: "view_input \<Rightarrow> coord \<Rightarrow> page_observation" where
  "page_of_view inp s = \<lparr>po_url = vi_url inp, po_loading = vi_loading inp,
     po_boot = (case observed_boot inp s of Some b \<Rightarrow> Observed b | None \<Rightarrow> Unavailable)\<rparr>"

definition observed_build_key :: "view_input \<Rightarrow> coord \<Rightarrow> string option" where
  "observed_build_key inp s = if_truthy (Option.bind (observed_boot inp s) bo_buildKey)"

definition build_changed :: "runtime_lease \<Rightarrow> view_input \<Rightarrow> coord \<Rightarrow> bool" where
  "build_changed l inp s =
     (observed_build_key inp s \<noteq> None \<and>
       (case map_of (pc_buildStates s) (l_slotId l) of
          None \<Rightarrow> True
        | Some p \<Rightarrow> bs_state p \<noteq> BuildReady \<or> bs_buildKey p \<noteq> observed_build_key inp s))"

text \<open>What every accepted report records: the build, the reachability and the page.\<close>

definition note_view ::
  "runtime_lease \<Rightarrow> panel_attempt \<Rightarrow> view_input \<Rightarrow> view_evidence \<Rightarrow> coord \<Rightarrow> coord" where
  "note_view l a inp evidence s =
     (let s1 = (if observed_build_key inp s \<noteq> None
                then s\<lparr>pc_buildStates := jset (l_slotId l)
                       \<lparr>bs_state = BuildReady, bs_buildKey = observed_build_key inp s\<rparr> (pc_buildStates s)\<rparr>
                else s);
          s2 = (if evidence \<noteq> PresentationOnly then set_reachable (l_connectionId l) True s1 else s1)
      in s2\<lparr>pc_routeViews := jset (pa_attemptId a) (page_of_view inp s) (pc_routeViews s2)\<rparr>)"

text \<open>Once a pending attempt has a presented view, missing progress is supervised.\<close>

definition supervise_pending :: "panel_attempt \<Rightarrow> coord \<Rightarrow> coord" where
  "supervise_pending a s =
     (case map_of (pc_attempts s) (pa_attemptId a) of
        None \<Rightarrow> s
      | Some current \<Rightarrow>
          if pa_phase current = Pending \<and> hasPresentedView current s
          then startSupervisionIfAbsent current s else s)"

text \<open>The report of a page whose route is bound to the attempt \<open>a\<close> of the lease \<open>l\<close>.\<close>

definition accept_view ::
  "runtime_lease \<Rightarrow> panel_attempt \<Rightarrow> view_input \<Rightarrow> view_evidence \<Rightarrow> coord \<Rightarrow> bool \<times> coord" where
  "accept_view l a inp evidence s =
     (let conn = l_connectionId l;
          wasReachable = reachable conn s;
          pageChanged = page_changed (map_of (pc_routeViews s) (pa_attemptId a)) (page_of_view inp s);
          buildChanged = build_changed l inp s;
          s3 = note_view l a inp evidence s
      in case (if evidence = RendererEvidence then None else vi_failure inp) of
           Some (who, f) \<Rightarrow>
             (let (reported, s4) = reportAttemptPhase (pa_attemptId a) (host_failure_report who f) s3
              in (reported,
                  if reported \<and> af_stage f = BuildStage
                  then set_build_state (pa_slotId a) \<lparr>bs_state = BuildFailed, bs_buildKey = None\<rparr> s4 else s4))
         | None \<Rightarrow>
             (let (advancd, s4) = (case observed_boot inp s of
                     Some b \<Rightarrow> if bo_phase b \<noteq> pa_phase a
                                then reportAttemptPhase (pa_attemptId a) (boot_report evidence b) s3
                                else (False, s3)
                   | None \<Rightarrow> (False, s3));
                  s5 = (if \<not> advancd \<and> (pageChanged \<or> buildChanged \<or> wasReachable \<noteq> reachable conn s4)
                        then emitSlotObservationChanged (l_slotId l) (nextSlotObservationVersion (l_slotId l) s4)
                        else s4)
              in (True, supervise_pending a s5)))"

definition report_view ::
  "string \<Rightarrow> string \<Rightarrow> view_input \<Rightarrow> view_evidence \<Rightarrow> coord \<Rightarrow> bool \<times> coord" where
  "report_view entity conn inp evidence s =
     (let bound = map_of (pc_routeBindings s) conn;
          rejected = (\<lambda>reason. (False, rejectReport (case bound of Some b \<Rightarrow> b | None \<Rightarrow> ''unbound-route'') reason s))
      in case map_of (pc_leases s) entity of
           None \<Rightarrow> rejected ''no lease for reporting entity''
         | Some l \<Rightarrow>
             if l_connectionId l \<noteq> conn then rejected ''stale connection for leased entity''
             else
               (case routedAttempt conn s of
                  None \<Rightarrow> rejected ''route is not bound to current attempt''
                | Some a \<Rightarrow>
                    if pa_runtimeEntityId a \<noteq> entity \<or> pa_slotId a \<noteq> l_slotId l
                    then rejected ''route is not bound to current attempt''
                    else accept_view l a inp evidence s))"

definition reportView ::
  "string \<Rightarrow> string \<Rightarrow> view_input \<Rightarrow> view_evidence \<Rightarrow> coord \<Rightarrow> bool outcome" where
  "reportView entity conn inp evidence s =
     (case asPanelEntityId entity of
        Inl e \<Rightarrow> (Inl e, s)
      | Inr entity \<Rightarrow> (let (b, s') = report_view entity conn inp evidence s in (Inr b, s')))"

subsection \<open>Boot supervision\<close>

definition settled :: "attempt_phase \<Rightarrow> bool" where
  "settled p \<longleftrightarrow> p = Ready \<or> p = Failed \<or> p = Stopped"

definition superviseBegin :: "string \<Rightarrow> coord \<Rightarrow> (panel_attempt \<times> nat) option \<times> coord" where
  "superviseBegin attemptId s =
     (case (map_of (pc_attempts s) attemptId, map_of (pc_supervisionRounds s) attemptId) of
        (Some a, Some r) \<Rightarrow>
          if settled (pa_phase a) then (None, stopSupervision attemptId s)
          else if attemptId \<in> set (pc_supervisionInFlight s) then (None, s)
          else (Some (a, r), s\<lparr>pc_supervisionInFlight := set_add attemptId (pc_supervisionInFlight s)\<rparr>)
      | _ \<Rightarrow> (None, stopSupervision attemptId s))"

text \<open>No probe is installed, the probe rejected, or it answered (with \<open>null\<close> or a report).\<close>

datatype probe_answer = NoProbe | ProbeRejected | ProbeAnswered "view_input option"

text \<open>The part that handles the answer: \<open>None\<close> when the round ends there, else whether a boot
  record was observed.\<close>

definition superviseProbe ::
  "string \<Rightarrow> panel_attempt \<Rightarrow> probe_answer \<Rightarrow> coord \<Rightarrow> bool option \<times> coord" where
  "superviseProbe attemptId a answer s =
     (case answer of
        NoProbe \<Rightarrow> (Some False, s)
      | ProbeRejected \<Rightarrow> (Some False, s)
      | ProbeAnswered report \<Rightarrow>
          (let current = map_of (pc_attempts s) attemptId
           in if (case current of None \<Rightarrow> True
                  | Some c \<Rightarrow> pa_revision c \<noteq> pa_revision a \<or> settled (pa_phase c))
              then (None, resetSupervisionProgress current s)
              else
                (case report of
                   None \<Rightarrow> (Some False, s)
                 | Some inp \<Rightarrow>
                     (let observed = (vi_boot inp \<noteq> Unavailable)
                      in case vi_failure inp of
                           Some (who, f) \<Rightarrow>
                             (let s1 = snd (reportAttemptPhase attemptId (host_failure_report who f) s)
                              in (None, if af_stage f = BuildStage
                                        then set_build_state (pa_slotId a) \<lparr>bs_state = BuildFailed, bs_buildKey = None\<rparr> s1
                                        else s1))
                         | None \<Rightarrow>
                             (Some observed,
                              (case leaseForSlot (pa_slotId a) s of
                                 None \<Rightarrow> s
                               | Some l \<Rightarrow>
                                   if map_of (pc_routeBindings s) (l_connectionId l) = Some attemptId
                                   then snd (report_view (pa_runtimeEntityId a) (l_connectionId l) inp PresentationOnly s)
                                   else s))))))"

definition stall_report :: "stall_rounds \<Rightarrow> page_observation option \<Rightarrow> attempt_report" where
  "stall_report r lastView = \<lparr>ap_phase = Failed, ap_reporter = ByCoordinator,
     ap_failure = Some \<lparr>af_stage = BootStall, af_code = BootStalled,
       af_message = Some ''Panel boot made no progress'', af_stack = None,
       af_detail = Some (if sr_unobservable r > sr_valid r then Unobservable else NoProgress),
       af_diagnostics = Some (StallDiagnostics (sr_rounds r) (sr_valid r) (sr_unobservable r) lastView)\<rparr>,
     ap_stopReason = None, ap_buildKey = None, ap_effectiveVersion = None\<rparr>"

definition countRound :: "string \<Rightarrow> nat \<Rightarrow> bool \<Rightarrow> coord \<Rightarrow> coord" where
  "countRound attemptId ref observed s =
     (case map_of (pc_roundStore s) ref of
        None \<Rightarrow> s
      | Some r \<Rightarrow>
          (let r' = r\<lparr>sr_rounds := sr_rounds r + 1,
                 sr_valid := (if observed then sr_valid r + 1 else sr_valid r),
                 sr_unobservable := (if observed then sr_unobservable r else sr_unobservable r + 1)\<rparr>;
               s1 = s\<lparr>pc_roundStore := jset ref r' (pc_roundStore s)\<rparr>
           in if sr_rounds r' < ATTEMPT_STALL_ROUNDS then s1
              else snd (reportAttemptPhase attemptId (stall_report r' (map_of (pc_routeViews s1) attemptId)) s1)))"

definition superviseAttemptRound ::
  "string \<Rightarrow> panel_attempt \<Rightarrow> nat \<Rightarrow> probe_answer \<Rightarrow> coord \<Rightarrow> coord" where
  "superviseAttemptRound attemptId a ref answer s =
     (case superviseProbe attemptId a answer s of
        (None, s1) \<Rightarrow> s1
      | (Some observed, s1) \<Rightarrow>
          (case map_of (pc_attempts s1) attemptId of
             None \<Rightarrow> s1
           | Some current \<Rightarrow>
               if pa_revision current \<noteq> pa_revision a
               then resetSupervisionProgress (Some current) s1
               else countRound attemptId ref observed s1))"

text \<open>\<open>finally { this.supervisionInFlight.delete(attemptId) }\<close>.\<close>

definition superviseEnd ::
  "string \<Rightarrow> panel_attempt \<Rightarrow> nat \<Rightarrow> probe_answer \<Rightarrow> coord \<Rightarrow> coord" where
  "superviseEnd attemptId a ref answer s =
     (let s1 = superviseAttemptRound attemptId a ref answer s
      in s1\<lparr>pc_supervisionInFlight := removeAll attemptId (pc_supervisionInFlight s1)\<rparr>)"

end
