(* ===== verification/AttemptLife.thy ===== *)
theory AttemptLife
  imports PanelViews
begin

text \<open>
  The life of attempts under every coordinator operation. \<open>coord_ok\<close> is the invariant of the
  coordinator's attempts and event log; \<open>evolves s t\<close> says how a later state \<open>t\<close> may differ from
  \<open>s\<close>. \<open>good s t\<close> (from an invariant state \<open>s\<close>, \<open>t\<close> is invariant and evolved) is proved for each
  primitive and composed for each operation.
\<close>

subsection \<open>The invariant\<close>

definition lease_events :: "coord_output list \<Rightarrow> lease_event list" where
  "lease_events outs = concat (map (\<lambda>x. case x of LeaseChanged e \<Rightarrow> [e] | _ \<Rightarrow> []) outs)"

lemma lease_events_simps [simp]:
  "lease_events [] = []"
  "lease_events (x # xs) = (case x of LeaseChanged e \<Rightarrow> e # lease_events xs | _ \<Rightarrow> lease_events xs)"
  "lease_events (xs @ ys) = lease_events xs @ lease_events ys"
  by (simp_all add: lease_events_def split: coord_output.splits)

text \<open>The events are numbered without gaps, in the coordinator's own epoch.\<close>

definition numbered :: "coord \<Rightarrow> bool" where
  "numbered s \<longleftrightarrow> map le_version (lease_events (pc_log s)) =
     map (\<lambda>n. \<lparr>lv_epoch = pc_epoch s, lv_counter = n\<rparr>) [1..<Suc (pc_counter s)]"

definition issued :: "coord \<Rightarrow> string set" where
  "issued s = pc_uuids s ` {..<pc_drawn s}"

definition history_ok :: "coord \<Rightarrow> string \<Rightarrow> string list \<Rightarrow> bool" where
  "history_ok s slot h \<longleftrightarrow> length h \<le> ATTEMPT_HISTORY_LIMIT \<and> distinct h \<and>
     (\<forall>i \<in> set h. i \<in> issued s \<and>
        (\<forall>a. map_of (pc_attempts s) i = Some a \<longrightarrow> terminal (pa_phase a) \<and> pa_slotId a = slot))"

definition attempts_ok :: "coord \<Rightarrow> bool" where
  "attempts_ok s \<longleftrightarrow>
     (\<forall>i a. map_of (pc_attempts s) i = Some a \<longrightarrow>
        pa_attemptId a = i \<and> pa_epoch a = pc_epoch s \<and> i \<in> issued s \<and>
        (map_of (pc_currentAttemptBySlot s) (pa_slotId a) \<noteq> Some i \<longrightarrow> terminal (pa_phase a))) \<and>
     (\<forall>slot i. map_of (pc_currentAttemptBySlot s) slot = Some i \<longrightarrow>
        (\<exists>a. map_of (pc_attempts s) i = Some a \<and> pa_slotId a = slot)) \<and>
     (\<forall>slot h. map_of (pc_terminalHistoryBySlot s) slot = Some h \<longrightarrow> history_ok s slot h)"

definition coord_ok :: "coord \<Rightarrow> bool" where
  "coord_ok s \<longleftrightarrow> inj (pc_uuids s) \<and> (\<forall>n. pc_uuids s n \<noteq> []) \<and> attempts_ok s \<and> numbered s"

subsection \<open>How an attempt changes\<close>

fun phase_order :: "attempt_phase \<Rightarrow> nat" where
  "phase_order Pending = 0"
| "phase_order Loading = 1"
| "phase_order Booting = 2"
| "phase_order Ready = 3"
| "phase_order Failed = 4"
| "phase_order Stopped = 4"

definition attempt_le :: "panel_attempt \<Rightarrow> panel_attempt \<Rightarrow> bool" where
  "attempt_le a b \<longleftrightarrow> pa_attemptId b = pa_attemptId a \<and> pa_epoch b = pa_epoch a \<and>
     pa_slotId b = pa_slotId a \<and> pa_runtimeEntityId b = pa_runtimeEntityId a \<and>
     pa_revision a \<le> pa_revision b \<and>
     (pa_phase b = pa_phase a \<or> phase_order (pa_phase a) < phase_order (pa_phase b)) \<and>
     (terminal (pa_phase a) \<longrightarrow> pa_phase b = pa_phase a \<and> pa_revision b = pa_revision a \<and>
        pa_failure b = pa_failure a \<and> pa_stopReason b = pa_stopReason a)"

lemma attempt_le_refl [simp]: "attempt_le a a"
  by (simp add: attempt_le_def)

lemma attempt_le_trans: "attempt_le a b \<Longrightarrow> attempt_le b c \<Longrightarrow> attempt_le a c"
  unfolding attempt_le_def by (elim conjE) (intro conjI impI; force)

lemma canAdvance_order:
  "canAdvance a p \<Longrightarrow> \<not> terminal (pa_phase a) \<and> phase_order (pa_phase a) < phase_order p"
  by (cases p; cases "pa_phase a") (simp_all add: canAdvance_def)

lemma attempt_le_advanced: "canAdvance a (ap_phase r) \<Longrightarrow> attempt_le a (advanced a r now)"
  using canAdvance_order [of a "ap_phase r"] by (simp add: attempt_le_def advanced_def)

lemma canAdvance_stop: "pa_phase a \<noteq> Failed \<Longrightarrow> pa_phase a \<noteq> Stopped \<Longrightarrow> canAdvance a Stopped"
  by (simp add: canAdvance_def)

subsection \<open>How the coordinator changes\<close>

definition evolves :: "coord \<Rightarrow> coord \<Rightarrow> bool" where
  "evolves s t \<longleftrightarrow> pc_epoch t = pc_epoch s \<and> pc_uuids t = pc_uuids s \<and> pc_drawn s \<le> pc_drawn t \<and>
     pc_counter s \<le> pc_counter t \<and> (\<exists>new. pc_log t = pc_log s @ new) \<and>
     (\<forall>slot. slotCounter slot s \<le> slotCounter slot t) \<and>
     (\<forall>i a b. map_of (pc_attempts s) i = Some a \<longrightarrow> map_of (pc_attempts t) i = Some b \<longrightarrow> attempt_le a b) \<and>
     (\<forall>i \<in> issued s. map_of (pc_attempts s) i = None \<longrightarrow> map_of (pc_attempts t) i = None)"

lemma evolves_refl [simp]: "evolves s s"
  by (simp add: evolves_def)

lemma issued_mono: "evolves s t \<Longrightarrow> issued s \<subseteq> issued t"
  by (auto simp: evolves_def issued_def)

lemma evolves_trans:
  assumes "evolves s t" and "evolves t u" and "coord_ok s"
  shows "evolves s u"
proof -
  have kept: "attempt_le a c" if a: "map_of (pc_attempts s) i = Some a" and c: "map_of (pc_attempts u) i = Some c" for i a c
  proof (cases "map_of (pc_attempts t) i")
    case None
    have "i \<in> issued s" using a assms(3) by (auto simp: coord_ok_def attempts_ok_def)
    then have "map_of (pc_attempts u) i = None"
      using None assms(2) issued_mono [OF assms(1)] by (auto simp: evolves_def)
    then show ?thesis using c by simp
  next
    case (Some b)
    then show ?thesis using assms(1,2) a c unfolding evolves_def by (meson attempt_le_trans)
  qed
  have gone: "map_of (pc_attempts u) i = None" if "i \<in> issued s" "map_of (pc_attempts s) i = None" for i
    using that assms(1,2) issued_mono [OF assms(1)] by (auto simp: evolves_def)
  have log: "\<exists>new. pc_log u = pc_log s @ new"
    using assms(1,2) by (auto simp: evolves_def)
  have cnt: "slotCounter slot s \<le> slotCounter slot u" for slot
    using assms(1,2) le_trans unfolding evolves_def by blast
  show ?thesis
    unfolding evolves_def using kept gone log cnt assms(1,2) by (simp add: evolves_def)
qed

definition good :: "coord \<Rightarrow> coord \<Rightarrow> bool" where
  "good s t \<longleftrightarrow> (coord_ok s \<longrightarrow> coord_ok t \<and> evolves s t)"

lemma good_refl [simp]: "good s s"
  by (simp add: good_def)

lemma good_trans: "good s t \<Longrightarrow> good t u \<Longrightarrow> good s u"
  unfolding good_def using evolves_trans by blast

lemma good_ok: "good s t \<Longrightarrow> coord_ok s \<Longrightarrow> coord_ok t"
  by (simp add: good_def)

subsection \<open>Updates outside the attempts\<close>

definition core where
  "core s = (pc_epoch s, pc_counter s, pc_slotObservationCounters s, pc_attempts s,
     pc_currentAttemptBySlot s, pc_terminalHistoryBySlot s, pc_uuids s, pc_drawn s, pc_log s)"

lemma good_core:
  assumes "core u = core t"
  shows "good t u"
proof -
  have eq: "pc_epoch u = pc_epoch t" "pc_counter u = pc_counter t"
    "pc_slotObservationCounters u = pc_slotObservationCounters t" "pc_attempts u = pc_attempts t"
    "pc_currentAttemptBySlot u = pc_currentAttemptBySlot t"
    "pc_terminalHistoryBySlot u = pc_terminalHistoryBySlot t" "pc_uuids u = pc_uuids t"
    "pc_drawn u = pc_drawn t" "pc_log u = pc_log t"
    using assms by (simp_all add: core_def)
  have "coord_ok u = coord_ok t"
    by (simp add: coord_ok_def attempts_ok_def history_ok_def issued_def numbered_def eq)
  moreover have "evolves t u"
    by (simp add: evolves_def slotCounter_def issued_def eq)
  ultimately show ?thesis by (simp add: good_def)
qed

lemma good_same: "core u = core t \<Longrightarrow> good s u = good s t"
  using good_core [of u t] good_core [of t u] good_trans by metis

lemma core_simps [simp]:
  "core (s\<lparr>pc_leases := x1\<rparr>) = core s"
  "core (s\<lparr>pc_hostHeld := x2\<rparr>) = core s"
  "core (s\<lparr>pc_clients := x3\<rparr>) = core s"
  "core (s\<lparr>pc_expiryTimers := x4\<rparr>) = core s"
  "core (s\<lparr>pc_defaultCdpLeaseConnections := x5\<rparr>) = core s"
  "core (s\<lparr>pc_routeBindings := x6\<rparr>) = core s"
  "core (s\<lparr>pc_routeReachability := x7\<rparr>) = core s"
  "core (s\<lparr>pc_routeViews := x8\<rparr>) = core s"
  "core (s\<lparr>pc_buildStates := x9\<rparr>) = core s"
  "core (s\<lparr>pc_supervisionTimers := x10\<rparr>) = core s"
  "core (s\<lparr>pc_supervisionInFlight := x11\<rparr>) = core s"
  "core (s\<lparr>pc_supervisionRounds := x12\<rparr>) = core s"
  "core (s\<lparr>pc_roundStore := x13\<rparr>) = core s"
  "core (s\<lparr>pc_keptLoadedSlots := x14\<rparr>) = core s"
  "core (s\<lparr>pc_closeSet := x15\<rparr>) = core s"
  "core (s\<lparr>pc_clock := x16\<rparr>) = core s"
  "core (s\<lparr>pc_objects := x17\<rparr>) = core s"
  by (simp_all add: core_def)

lemma core_ops [simp]:
  "core (stopSupervision i s) = core s"
  "core (startSupervision a s) = core s"
  "core (resetSupervisionProgress b s) = core s"
  "core (ensureSupervision a s) = core s"
  "core (startSupervisionIfAbsent a s) = core s"
  "core (detachRoute c s) = core s"
  "core (clearExpiry e s) = core s"
  "core (removeLease l e s) = core s"
  "core (set_reachable c v s) = core s"
  "core (setCloseConnection s) = core s"
  "core (registerClient r s) = core s"
  by (simp_all add: core_def stopSupervision_def startSupervision_def resetSupervisionProgress_def
      ensureSupervision_def startSupervisionIfAbsent_def detachRoute_def clearExpiry_def
      removeLease_def set_reachable_def setCloseConnection_def registerClient_def Let_def
      split: option.splits)


lemmas good_simps [simp] = core_simps [THEN good_same] core_ops [THEN good_same]

subsection \<open>Primitives\<close>

lemma good_frame:
  assumes "pc_attempts u = pc_attempts t" "pc_currentAttemptBySlot u = pc_currentAttemptBySlot t"
    "pc_terminalHistoryBySlot u = pc_terminalHistoryBySlot t" "pc_uuids u = pc_uuids t"
    "pc_drawn u = pc_drawn t" "pc_epoch u = pc_epoch t"
    and "numbered t \<Longrightarrow> numbered u" "pc_counter t \<le> pc_counter u" "pc_log u = pc_log t @ new"
    and "\<And>slot. slotCounter slot t \<le> slotCounter slot u"
  shows "good t u"
proof -
  have "attempts_ok u = attempts_ok t"
    by (simp add: attempts_ok_def history_ok_def issued_def assms(1-6))
  then show ?thesis
    using assms(7-10) by (simp add: good_def coord_ok_def evolves_def assms(1-6))
qed

lemma good_out_here: "\<forall>e. x \<noteq> LeaseChanged e \<Longrightarrow> good t (out x t)"
  by (rule good_frame [where new = "[x]"])
    (auto simp: out_def numbered_def slotCounter_def split: coord_output.splits)

lemma good_out: "good s t \<Longrightarrow> \<forall>e. x \<noteq> LeaseChanged e \<Longrightarrow> good s (out x t)"
  using good_out_here good_trans by blast

lemma good_emits [simp]:
  "good s t \<Longrightarrow> good s (emitSlotObservationChanged slot t)"
  "good s t \<Longrightarrow> good s (emitAttemptChanged i t)"
  "good s t \<Longrightarrow> good s (rejectReport i reason t)"
  "good s t \<Longrightarrow> good s (closeLeaseConnection e c r t)"
  by (simp_all add: emitSlotObservationChanged_def emitAttemptChanged_def rejectReport_def
      closeLeaseConnection_def good_out)

lemma good_next_here: "good t (nextSlotObservationVersion slot t)"
  by (rule good_frame [where new = "[]"])
    (auto simp: nextSlotObservationVersion_def numbered_def slotCounter_def)

lemma good_next [simp]: "good s t \<Longrightarrow> good s (nextSlotObservationVersion slot t)"
  using good_next_here good_trans by blast

lemma good_lease_event:
  "good t (out (LeaseChanged \<lparr>le_version = currentVersion (t\<lparr>pc_counter := pc_counter t + 1\<rparr>),
      le_slotId = slot, le_runtimeEntityId = e, le_previous = p, le_next = n, le_reason = r\<rparr>)
     (t\<lparr>pc_counter := pc_counter t + 1\<rparr>))" (is "good t (out ?x _)")
  by (rule good_frame [where new = "[?x]"])
    (auto simp: numbered_def slotCounter_def out_def currentVersion_def)

lemma out_next_commute:
  "out x (nextSlotObservationVersion slot t) = nextSlotObservationVersion slot (out x t)"
  by (simp add: out_def nextSlotObservationVersion_def slotCounter_def)

lemma good_emitChange [simp]: "good s t \<Longrightarrow> good s (snd (emitChange e slot p n r t))"
  using good_trans [OF _ good_lease_event]
  by (simp add: emitChange_def Let_def out_next_commute)

lemma attempts_okD:
  assumes "attempts_ok t"
  shows "map_of (pc_attempts t) i = Some a \<Longrightarrow> pa_attemptId a = i \<and> pa_epoch a = pc_epoch t \<and> i \<in> issued t"
    and "map_of (pc_attempts t) i = Some a \<Longrightarrow>
      map_of (pc_currentAttemptBySlot t) (pa_slotId a) \<noteq> Some i \<Longrightarrow> terminal (pa_phase a)"
    and "map_of (pc_currentAttemptBySlot t) slot = Some i \<Longrightarrow>
      \<exists>a. map_of (pc_attempts t) i = Some a \<and> pa_slotId a = slot"
    and "map_of (pc_terminalHistoryBySlot t) slot = Some h \<Longrightarrow> history_ok t slot h"
  using assms by (simp_all add: attempts_ok_def)

lemma attempts_okI:
  assumes "\<And>i a. map_of (pc_attempts t) i = Some a \<Longrightarrow> pa_attemptId a = i \<and> pa_epoch a = pc_epoch t \<and> i \<in> issued t"
    and "\<And>i a. map_of (pc_attempts t) i = Some a \<Longrightarrow>
      map_of (pc_currentAttemptBySlot t) (pa_slotId a) \<noteq> Some i \<Longrightarrow> terminal (pa_phase a)"
    and "\<And>slot i. map_of (pc_currentAttemptBySlot t) slot = Some i \<Longrightarrow>
      \<exists>a. map_of (pc_attempts t) i = Some a \<and> pa_slotId a = slot"
    and "\<And>slot h. map_of (pc_terminalHistoryBySlot t) slot = Some h \<Longrightarrow> history_ok t slot h"
  shows "attempts_ok t"
  using assms unfolding attempts_ok_def by blast

lemma good_attempts:
  assumes "pc_epoch u = pc_epoch t" "pc_uuids u = pc_uuids t" "pc_counter u = pc_counter t"
    "pc_log u = pc_log t" "pc_slotObservationCounters u = pc_slotObservationCounters t"
    and "pc_drawn t \<le> pc_drawn u"
    and "coord_ok t \<Longrightarrow> attempts_ok u"
    and "\<And>i a b. coord_ok t \<Longrightarrow> map_of (pc_attempts t) i = Some a \<Longrightarrow> map_of (pc_attempts u) i = Some b \<Longrightarrow>
      attempt_le a b"
    and "\<And>i. coord_ok t \<Longrightarrow> i \<in> issued t \<Longrightarrow> map_of (pc_attempts t) i = None \<Longrightarrow> map_of (pc_attempts u) i = None"
  shows "good t u"
  using assms(6-9) by (simp add: good_def coord_ok_def numbered_def evolves_def slotCounter_def assms(1-5))

text \<open>Replacing a stored attempt by a later state of itself.\<close>

lemma good_put:
  assumes i: "map_of (pc_attempts t) i = Some a" and le: "attempt_le a b"
  shows "good t (t\<lparr>pc_attempts := jset i b (pc_attempts t)\<rparr>)" (is "good t ?u")
proof (rule good_attempts)
  have same: "pa_attemptId b = pa_attemptId a" "pa_slotId b = pa_slotId a" "pa_epoch b = pa_epoch a"
    "terminal (pa_phase a) \<Longrightarrow> terminal (pa_phase b)"
    using le by (auto simp: attempt_le_def)
  assume ok: "coord_ok t"
  then have A: "attempts_ok t" by (simp add: coord_ok_def)
  have iss: "issued ?u = issued t" by (simp add: issued_def)
  show "attempts_ok ?u"
  proof (rule attempts_okI)
    show "pa_attemptId x = j \<and> pa_epoch x = pc_epoch ?u \<and> j \<in> issued ?u"
      if "map_of (pc_attempts ?u) j = Some x" for j x
      using that attempts_okD(1) [OF A] i same by (auto simp: iss split: if_splits)
    show "terminal (pa_phase x)" if "map_of (pc_attempts ?u) j = Some x"
        "map_of (pc_currentAttemptBySlot ?u) (pa_slotId x) \<noteq> Some j" for j x
      using that attempts_okD(2) [OF A] i same by (auto split: if_splits)
    show "\<exists>x. map_of (pc_attempts ?u) j = Some x \<and> pa_slotId x = slot"
      if "map_of (pc_currentAttemptBySlot ?u) slot = Some j" for slot j
      using attempts_okD(3) [OF A, of slot j] that i same by auto
    show "history_ok ?u slot h" if "map_of (pc_terminalHistoryBySlot ?u) slot = Some h" for slot h
      using attempts_okD(4) [OF A, of slot h] that i same by (auto simp: history_ok_def iss)
  qed
  show "attempt_le x y" if "map_of (pc_attempts t) j = Some x" "map_of (pc_attempts ?u) j = Some y" for j x y
    using that i le by (auto split: if_splits)
  show "map_of (pc_attempts ?u) j = None" if "map_of (pc_attempts t) j = None" for j
    using that i by auto
qed auto

lemma stored_id: "coord_ok t \<Longrightarrow> map_of (pc_attempts t) i = Some a \<Longrightarrow> pa_attemptId a = i"
  by (simp add: coord_ok_def attempts_ok_def)

lemma pa_advanced [simp]:
  "pa_attemptId (advanced a r now) = pa_attemptId a" "pa_slotId (advanced a r now) = pa_slotId a"
  "pa_phase (advanced a r now) = ap_phase r"
  "pa_runtimeEntityId (advanced a r now) = pa_runtimeEntityId a"
  by (simp_all add: advanced_def)

lemma goodI: "(coord_ok s \<Longrightarrow> good s t) \<Longrightarrow> good s t"
  by (auto simp: good_def)

lemma good_transition_here:
  assumes "map_of (pc_attempts t) i = Some a" and "canAdvance a (ap_phase r)"
  shows "good t (transitionAttempt a r t)"
proof (rule goodI)
  assume ok: "coord_ok t"
  let ?n = "advanced a r (pc_clock t)"
  have "good t (t\<lparr>pc_attempts := jset (pa_attemptId ?n) ?n (pc_attempts t)\<rparr>)"
    using good_put [OF assms(1) attempt_le_advanced [OF assms(2)]] stored_id [OF ok assms(1)] by simp
  then show "good t (transitionAttempt a r t)"
    by (simp add: transitionAttempt_def Let_def)
qed

lemma good_transition:
  "good s t \<Longrightarrow> map_of (pc_attempts t) i = Some a \<Longrightarrow> canAdvance a (ap_phase r) \<Longrightarrow>
   good s (transitionAttempt a r t)"
  using good_transition_here good_trans by blast

lemma good_update:
  assumes "good s t" and "map_of (pc_attempts t) (pa_attemptId a) = Some a"
    and "attempt_le a ((f a)\<lparr>pa_updatedAt := pc_clock t\<rparr>)"
  shows "good s (updateAttempt a f t)"
  using good_trans [OF assms(1) good_put [OF assms(2,3)]] by (simp add: updateAttempt_def)

lemma attempts_transition [simp]:
  "pc_attempts (transitionAttempt a r t) = jset (pa_attemptId a) (advanced a r (pc_clock t)) (pc_attempts t)"
  "pc_currentAttemptBySlot (transitionAttempt a r t) = pc_currentAttemptBySlot t"
  by (auto simp: transitionAttempt_def Let_def emitSlotObservationChanged_def out_def
      nextSlotObservationVersion_def emitAttemptChanged_def ensureSupervision_def startSupervision_def
      stopSupervision_def resetSupervisionProgress_def split: option.splits)

subsection \<open>Terminal history\<close>

lemma evict_fields [simp]:
  "pc_currentAttemptBySlot (evict_attempt slot i t) = pc_currentAttemptBySlot t"
  "pc_terminalHistoryBySlot (evict_attempt slot i t) = pc_terminalHistoryBySlot t"
  "pc_clock (evict_attempt slot i t) = pc_clock t"
  by (auto simp: evict_attempt_def emitAttemptChanged_def out_def stopSupervision_def)

lemma good_delete:
  assumes free: "\<And>a. map_of (pc_attempts t) i = Some a \<Longrightarrow> map_of (pc_currentAttemptBySlot t) (pa_slotId a) \<noteq> Some i"
  shows "good t (t\<lparr>pc_attempts := jdel i (pc_attempts t)\<rparr>)" (is "good t ?u")
proof (rule good_attempts)
  assume ok: "coord_ok t"
  then have A: "attempts_ok t" by (simp add: coord_ok_def)
  have iss: "issued ?u = issued t" by (simp add: issued_def)
  show "attempts_ok ?u"
  proof (rule attempts_okI)
    show "pa_attemptId x = j \<and> pa_epoch x = pc_epoch ?u \<and> j \<in> issued ?u"
      if "map_of (pc_attempts ?u) j = Some x" for j x
      using that attempts_okD(1) [OF A] by (auto simp: iss split: if_splits)
    show "terminal (pa_phase x)" if "map_of (pc_attempts ?u) j = Some x"
        "map_of (pc_currentAttemptBySlot ?u) (pa_slotId x) \<noteq> Some j" for j x
      using that attempts_okD(2) [OF A] by (auto split: if_splits)
    show "\<exists>x. map_of (pc_attempts ?u) j = Some x \<and> pa_slotId x = slot"
      if c: "map_of (pc_currentAttemptBySlot ?u) slot = Some j" for slot j
    proof -
      obtain x where x: "map_of (pc_attempts t) j = Some x" "pa_slotId x = slot"
        using attempts_okD(3) [OF A, of slot j] c by auto
      then have "j \<noteq> i" using free c by auto
      then show ?thesis using x by simp
    qed
    show "history_ok ?u slot h" if "map_of (pc_terminalHistoryBySlot ?u) slot = Some h" for slot h
      using attempts_okD(4) [OF A, of slot h] that by (auto simp: history_ok_def iss)
  qed
qed (auto split: if_splits)

lemma good_evict:
  assumes "good s t"
    and "\<forall>a. map_of (pc_attempts t) i = Some a \<longrightarrow> pa_slotId a = slot"
  shows "good s (evict_attempt slot i t)"
proof (cases "map_of (pc_currentAttemptBySlot t) slot = Some i")
  case True
  then show ?thesis using assms(1) by (simp add: evict_attempt_def)
next
  case False
  have "good t (t\<lparr>pc_attempts := jdel i (pc_attempts t)\<rparr>)"
  proof (rule good_delete)
    show "map_of (pc_currentAttemptBySlot t) (pa_slotId a) \<noteq> Some i" if "map_of (pc_attempts t) i = Some a" for a
      using that False assms(2) by auto
  qed
  then have "good s (t\<lparr>pc_attempts := jdel i (pc_attempts t)\<rparr>)"
    using assms(1) good_trans by blast
  then show ?thesis
    using False by (simp add: evict_attempt_def good_same [of "_\<lparr>pc_routeViews := _\<rparr>"] core_def)
qed

lemma attempts_evict: "map_of (pc_attempts (evict_attempt slot i t)) j = Some a \<Longrightarrow> map_of (pc_attempts t) j = Some a"
  by (auto simp: evict_attempt_def emitAttemptChanged_def out_def stopSupervision_def split: if_splits)

lemma good_evict_all:
  assumes "good s t"
    and "\<forall>i \<in> set is. \<forall>a. map_of (pc_attempts t) i = Some a \<longrightarrow> pa_slotId a = slot"
  shows "good s (fold (evict_attempt slot) is t)"
  using assms
proof (induction "is" arbitrary: t)
  case (Cons i js)
  then show ?case by (auto intro!: Cons.IH good_evict dest: attempts_evict)
qed simp

lemma good_history:
  assumes h: "history_ok t slot h"
  shows "good t (t\<lparr>pc_terminalHistoryBySlot := jset slot h (pc_terminalHistoryBySlot t)\<rparr>)" (is "good t ?u")
proof (rule good_attempts)
  assume ok: "coord_ok t"
  then have A: "attempts_ok t" by (simp add: coord_ok_def)
  have eq: "history_ok ?u s h' = history_ok t s h'" "issued ?u = issued t" for s h'
    by (simp_all add: history_ok_def issued_def)
  show "attempts_ok ?u"
  proof (rule attempts_okI)
    show "history_ok ?u s h'" if "map_of (pc_terminalHistoryBySlot ?u) s = Some h'" for s h'
      using that h attempts_okD(4) [OF A] unfolding eq by (simp split: if_splits)
    show "pa_attemptId x = j \<and> pa_epoch x = pc_epoch ?u \<and> j \<in> issued ?u"
      if "map_of (pc_attempts ?u) j = Some x" for j x
      using that attempts_okD(1) [OF A, of j x] by (simp add: eq)
    show "terminal (pa_phase x)" if "map_of (pc_attempts ?u) j = Some x"
        "map_of (pc_currentAttemptBySlot ?u) (pa_slotId x) \<noteq> Some j" for j x
      using that attempts_okD(2) [OF A, of j x] by simp
    show "\<exists>x. map_of (pc_attempts ?u) j = Some x \<and> pa_slotId x = s"
      if "map_of (pc_currentAttemptBySlot ?u) s = Some j" for s j
      using that attempts_okD(3) [OF A, of s j] by simp
  qed
qed auto

lemma good_rememberTerminal:
  assumes "good s t" and "map_of (pc_attempts t) (pa_attemptId a) = Some x"
  shows "good s (rememberTerminal a t)"
proof -
  have "good t (rememberTerminal a t)"
  proof (rule goodI)
    assume ok: "coord_ok t"
    show "good t (rememberTerminal a t)"
    proof (cases "terminal (pa_phase x)")
      case False
      then show ?thesis using assms(2) by (simp add: rememberTerminal_def terminal_def)
    next
      case True
      define slot where "slot = pa_slotId x"
      define h where "h = (case map_of (pc_terminalHistoryBySlot t) slot of None \<Rightarrow> [] | Some h \<Rightarrow> h)"
      define nxt where "nxt = pa_attemptId x # filter (\<lambda>i. i \<noteq> pa_attemptId x) h"
      have A: "attempts_ok t" using ok by (simp add: coord_ok_def)
      have x: "map_of (pc_attempts t) (pa_attemptId x) = Some x" "pa_attemptId x \<in> issued t"
        "pa_attemptId a = pa_attemptId x"
        using attempts_okD(1) [OF A assms(2)] assms(2) by auto
      have "history_ok t slot []" by (simp add: history_ok_def)
      then have h: "history_ok t slot h"
        using attempts_okD(4) [OF A, of slot] by (auto simp: h_def split: option.splits)
      have all: "\<forall>i \<in> set nxt. i \<in> issued t \<and> (\<forall>a. map_of (pc_attempts t) i = Some a \<longrightarrow> terminal (pa_phase a) \<and> pa_slotId a = slot)"
        using h x True by (auto simp: nxt_def history_ok_def slot_def)
      have "distinct nxt" using h by (auto simp: nxt_def history_ok_def)
      then have keep: "history_ok t slot (take ATTEMPT_HISTORY_LIMIT nxt)"
        using all by (auto simp: history_ok_def distinct_take dest: in_set_takeD)
      have eq: "rememberTerminal a t = fold (evict_attempt slot) (drop ATTEMPT_HISTORY_LIMIT nxt)
          (t\<lparr>pc_terminalHistoryBySlot := jset slot (take ATTEMPT_HISTORY_LIMIT nxt) (pc_terminalHistoryBySlot t)\<rparr>)"
        using True assms(2) by (auto simp: rememberTerminal_def Let_def terminal_def slot_def h_def nxt_def)
      show ?thesis
        unfolding eq by (rule good_evict_all [OF good_history [OF keep]])
          (use all in \<open>auto dest: in_set_dropD\<close>)
    qed
  qed
  then show ?thesis using assms(1) good_trans by blast
qed


subsection \<open>Stopping and superseding\<close>

lemma good_stopAttempt [simp]:
  assumes "good s t"
  shows "good s (snd (stopAttempt i r t))"
proof -
  have "good t (snd (stopAttempt i r t))"
  proof (rule goodI)
    assume ok: "coord_ok t"
    show "good t (snd (stopAttempt i r t))"
    proof (cases "map_of (pc_attempts t) i")
      case None
      then show ?thesis by (simp add: stopAttempt_def)
    next
      case (Some a)
      then have id: "pa_attemptId a = i" using stored_id [OF ok] by blast
      show ?thesis
      proof (cases "pa_phase a \<noteq> Failed \<and> pa_phase a \<noteq> Stopped")
        case True
        then have "good t (transitionAttempt a (stop_report r) t)"
          by (intro good_transition_here [OF Some]) (simp add: canAdvance_stop stop_report_def)
        then show ?thesis
          using True Some id
          by (auto simp: stopAttempt_def Let_def intro!: good_rememberTerminal)
      next
        case False
        then show ?thesis
          using Some id by (auto simp: stopAttempt_def Let_def intro!: good_rememberTerminal)
      qed
    qed
  qed
  then show ?thesis using assms good_trans by blast
qed

lemma close_fields [simp]:
  "pc_attempts (closeLeaseConnection e c r t) = pc_attempts t"
  "pc_currentAttemptBySlot (closeLeaseConnection e c r t) = pc_currentAttemptBySlot t"
  "pc_attempts (detachRoute c t) = pc_attempts t"
  "pc_currentAttemptBySlot (detachRoute c t) = pc_currentAttemptBySlot t"
  by (simp_all add: closeLeaseConnection_def out_def detachRoute_def)

lemma detach_superseded_lemma:
  "good s t \<Longrightarrow> good s (detach_superseded a keep t)"
  "pc_attempts (detach_superseded a keep t) = pc_attempts t"
  "pc_currentAttemptBySlot (detach_superseded a keep t) = pc_currentAttemptBySlot t"
proof -
  show "good s t \<Longrightarrow> good s (detach_superseded a keep t)"
    unfolding detach_superseded_def
    by (rule fold_inv_rule [where I = "\<lambda>u. good s u"]) (auto simp: Let_def split: prod.splits)
  show "pc_attempts (detach_superseded a keep t) = pc_attempts t"
    unfolding detach_superseded_def
    by (rule fold_inv_rule [where I = "\<lambda>u. pc_attempts u = pc_attempts t"])
      (auto simp: Let_def split: prod.splits)
  show "pc_currentAttemptBySlot (detach_superseded a keep t) = pc_currentAttemptBySlot t"
    unfolding detach_superseded_def
    by (rule fold_inv_rule [where I = "\<lambda>u. pc_currentAttemptBySlot u = pc_currentAttemptBySlot t"])
      (auto simp: Let_def split: prod.splits)
qed

lemma currentAttempt_stored:
  assumes "coord_ok t" and "currentAttempt slot t = Some a"
  shows "map_of (pc_attempts t) (pa_attemptId a) = Some a"
    and "map_of (pc_currentAttemptBySlot t) slot = Some (pa_attemptId a)" and "pa_slotId a = slot"
proof -
  obtain i where i: "map_of (pc_currentAttemptBySlot t) slot = Some i" "map_of (pc_attempts t) i = Some a"
    using assms(2) by (auto simp: currentAttempt_def bind_eq_Some_conv)
  then have "pa_attemptId a = i" using stored_id [OF assms(1)] by blast
  then show "map_of (pc_attempts t) (pa_attemptId a) = Some a"
    "map_of (pc_currentAttemptBySlot t) slot = Some (pa_attemptId a)"
    using i by simp_all
  show "pa_slotId a = slot"
    using i assms(1) attempts_okD(3) [of t slot i] by (auto simp: coord_ok_def)
qed

lemma current_rememberTerminal [simp]:
  "pc_currentAttemptBySlot (rememberTerminal a t) = pc_currentAttemptBySlot t"
proof -
  have "pc_currentAttemptBySlot (fold (evict_attempt slot) is u) = pc_currentAttemptBySlot u" for slot "is" u
    by (induction "is" arbitrary: u) auto
  then show ?thesis by (simp add: rememberTerminal_def Let_def)
qed

lemma attempts_rememberTerminal:
  "map_of (pc_attempts (rememberTerminal a t)) j = Some x \<Longrightarrow> map_of (pc_attempts t) j = Some x"
proof -
  have F: "map_of (pc_attempts (fold (evict_attempt slot) is u)) j = Some x \<Longrightarrow> map_of (pc_attempts u) j = Some x"
    for slot "is" u
    by (induction "is" arbitrary: u) (auto dest: attempts_evict)
  assume "map_of (pc_attempts (rememberTerminal a t)) j = Some x"
  then show ?thesis
    unfolding rememberTerminal_def Let_def by (simp split: if_splits) (drule F, simp)
qed

text \<open>After \<open>supersede\<close> no attempt of the slot is live.\<close>

lemma good_supersede_here: "good t (supersede slot keep t)"
proof (rule goodI)
  assume ok: "coord_ok t"
  show "good t (supersede slot keep t)"
  proof (cases "currentAttempt slot t")
    case None
    then show ?thesis by (simp add: supersede_def)
  next
    case (Some a)
    note st = currentAttempt_stored [OF ok Some]
    show ?thesis
    proof (cases "pa_phase a \<noteq> Failed \<and> pa_phase a \<noteq> Stopped")
      case True
      have "good t (transitionAttempt a (stop_report Superseded) t)"
        by (intro good_transition_here [OF st(1)]) (use True in \<open>simp add: canAdvance_stop stop_report_def\<close>)
      then show ?thesis
        using True Some by (auto simp: supersede_def Let_def detach_superseded_lemma
            intro!: good_rememberTerminal)
    next
      case False
      then show ?thesis
        using Some st by (auto simp: supersede_def Let_def detach_superseded_lemma
            intro!: good_rememberTerminal)
    qed
  qed
qed

lemma supersede_terminal:
  assumes ok: "coord_ok t" and x: "map_of (pc_attempts (supersede slot keep t)) i = Some x" "pa_slotId x = slot"
  shows "terminal (pa_phase x)"
proof -
  let ?u = "supersede slot keep t"
  have oku: "coord_ok ?u" using good_ok [OF good_supersede_here ok] .
  show ?thesis
  proof (rule ccontr)
    assume live: "\<not> terminal (pa_phase x)"
    then have cur: "map_of (pc_currentAttemptBySlot ?u) slot = Some i"
      using oku x attempts_okD(2) [of ?u i x] by (auto simp: coord_ok_def)
    have "pc_currentAttemptBySlot ?u = pc_currentAttemptBySlot t"
      by (simp add: supersede_def Let_def detach_superseded_lemma split: option.splits)
    then have cur': "map_of (pc_currentAttemptBySlot t) slot = Some i" using cur by simp
    have "i \<in> issued t" using ok cur' attempts_okD(1,3) by (fastforce simp: coord_ok_def)
    then have "i \<noteq> []" using ok by (auto simp: coord_ok_def issued_def)
    moreover obtain a where a: "map_of (pc_attempts t) i = Some a"
      using ok cur' attempts_okD(3) [of t slot i] by (auto simp: coord_ok_def)
    ultimately have cura: "currentAttempt slot t = Some a"
      using cur' by (simp add: currentAttempt_def if_truthy_def)
    have id: "pa_attemptId a = i" using stored_id [OF ok a] .
    show False
      using x live cura id a
      by (auto simp: supersede_def Let_def detach_superseded_lemma stop_report_def terminal_def
          dest!: attempts_rememberTerminal split: if_splits)
  qed
qed

subsection \<open>Committing\<close>

lemma good_randomUUID [simp]: "good s t \<Longrightarrow> good s (snd (randomUUID t))"
proof -
  have "good t (snd (randomUUID t))"
  proof (rule good_attempts)
    assume ok: "coord_ok t"
    have iss: "issued t \<subseteq> issued (snd (randomUUID t))"
      by (auto simp: issued_def randomUUID_def)
    have A: "attempts_ok t" using ok by (simp add: coord_ok_def)
    show "attempts_ok (snd (randomUUID t))"
    proof (rule attempts_okI)
      show "history_ok (snd (randomUUID t)) s h"
        if "map_of (pc_terminalHistoryBySlot (snd (randomUUID t))) s = Some h" for s h
        using that attempts_okD(4) [OF A, of s h] iss by (auto simp: history_ok_def randomUUID_def)
      show "pa_attemptId x = j \<and> pa_epoch x = pc_epoch (snd (randomUUID t)) \<and> j \<in> issued (snd (randomUUID t))"
        if "map_of (pc_attempts (snd (randomUUID t))) j = Some x" for j x
        using that attempts_okD(1) [OF A, of j x] iss by (auto simp: randomUUID_def)
      show "terminal (pa_phase x)" if "map_of (pc_attempts (snd (randomUUID t))) j = Some x"
          "map_of (pc_currentAttemptBySlot (snd (randomUUID t))) (pa_slotId x) \<noteq> Some j" for j x
        using that attempts_okD(2) [OF A, of j x] by (simp add: randomUUID_def)
      show "\<exists>x. map_of (pc_attempts (snd (randomUUID t))) j = Some x \<and> pa_slotId x = s"
        if "map_of (pc_currentAttemptBySlot (snd (randomUUID t))) s = Some j" for s j
        using that attempts_okD(3) [OF A, of s j] by (simp add: randomUUID_def)
    qed
  qed (auto simp: randomUUID_def)
  then show "good s t \<Longrightarrow> ?thesis" using good_trans by blast
qed


text \<open>Installing a new attempt under a fresh id, when no attempt of its slot is live.\<close>

lemma good_install:
  assumes fresh: "i \<in> issued u" "i \<notin> issued t"
    and u: "u = t\<lparr>pc_drawn := Suc (pc_drawn t)\<rparr>"
    and a: "pa_attemptId a = i" "pa_epoch a = pc_epoch t" "pa_slotId a = slot"
    and live: "\<And>j x. map_of (pc_attempts t) j = Some x \<Longrightarrow> pa_slotId x = slot \<Longrightarrow> terminal (pa_phase x)"
  shows "good t (u\<lparr>pc_attempts := jset i a (pc_attempts u),
                    pc_currentAttemptBySlot := jset slot i (pc_currentAttemptBySlot u)\<rparr>)" (is "good t ?v")
proof (rule good_attempts)
  assume ok: "coord_ok t"
  then have A: "attempts_ok t" by (simp add: coord_ok_def)
  have iss: "issued t \<subseteq> issued ?v" "issued ?v = issued u" by (auto simp: u issued_def)
  have new: "map_of (pc_attempts t) i = None"
  proof (cases "map_of (pc_attempts t) i")
    case (Some x)
    then show ?thesis using attempts_okD(1) [OF A Some] fresh(2) by simp
  qed
  show "attempts_ok ?v"
  proof (rule attempts_okI)
    show "pa_attemptId x = j \<and> pa_epoch x = pc_epoch ?v \<and> j \<in> issued ?v"
      if "map_of (pc_attempts ?v) j = Some x" for j x
    proof (cases "j = i")
      case True
      then show ?thesis using that a iss fresh(1) u by auto
    next
      case False
      then show ?thesis using that attempts_okD(1) [OF A, of j x] iss u by auto
    qed
    show "terminal (pa_phase x)" if "map_of (pc_attempts ?v) j = Some x"
        "map_of (pc_currentAttemptBySlot ?v) (pa_slotId x) \<noteq> Some j" for j x
    proof (cases "j = i")
      case True
      then show ?thesis using that a by auto
    next
      case False
      then show ?thesis
        using that live [of j x] attempts_okD(2) [OF A, of j x] u by (cases "pa_slotId x = slot") auto
    qed
    show "\<exists>x. map_of (pc_attempts ?v) j = Some x \<and> pa_slotId x = s"
      if c: "map_of (pc_currentAttemptBySlot ?v) s = Some j" for s j
    proof (cases "s = slot")
      case True
      then show ?thesis using c a by auto
    next
      case False
      then obtain x where "map_of (pc_attempts t) j = Some x" "pa_slotId x = s"
        using c u attempts_okD(3) [OF A, of s j] by auto
      then show ?thesis using new u by auto
    qed
    show "history_ok ?v s h" if "map_of (pc_terminalHistoryBySlot ?v) s = Some h" for s h
    proof -
      have h: "history_ok t s h" using that u attempts_okD(4) [OF A, of s h] by auto
      then have "i \<notin> set h" using fresh(2) by (auto simp: history_ok_def)
      then show ?thesis using h iss u by (auto simp: history_ok_def)
    qed
  qed
  show "attempt_le x y" if "map_of (pc_attempts t) j = Some x" "map_of (pc_attempts ?v) j = Some y" for j x y
    using that new u by (auto split: if_splits)
  show "map_of (pc_attempts ?v) j = None" if "j \<in> issued t" "map_of (pc_attempts t) j = None" for j
    using that fresh(2) u by auto
qed (auto simp: u)

lemma good_commit_here: "good t (snd (commit_attempt slot inp t))"
proof (rule goodI)
  assume ok: "coord_ok t"
  define w where "w = supersede slot (ai_connectionId inp) t"
  have gw: "good t w" by (simp add: w_def good_supersede_here)
  then have okw: "coord_ok w" using good_ok ok by blast
  define i where "i = pc_uuids w (pc_drawn w)"
  define u where "u = w\<lparr>pc_drawn := Suc (pc_drawn w)\<rparr>"
  have draw: "randomUUID w = (i, u)" by (simp add: randomUUID_def i_def u_def)
  have "i \<notin> issued w"
    using okw by (auto simp: i_def issued_def coord_ok_def inj_eq)
  moreover have "i \<in> issued u" by (auto simp: i_def u_def issued_def)
  moreover have "terminal (pa_phase x)" if "map_of (pc_attempts w) j = Some x" "pa_slotId x = slot" for j x
    using supersede_terminal [OF ok] that by (simp add: w_def)
  ultimately have "good w (u\<lparr>pc_attempts := jset i a (pc_attempts u),
      pc_currentAttemptBySlot := jset slot i (pc_currentAttemptBySlot u)\<rparr>)"
    if "pa_attemptId a = i" "pa_epoch a = pc_epoch w" "pa_slotId a = slot" for a
    using that good_install [of i u w a slot] u_def by blast
  note inst = good_trans [OF gw this]
  have ep: "pc_epoch u = pc_epoch w" by (simp add: u_def)
  show "good t (snd (commit_attempt slot inp t))"
    using inst by (auto simp: commit_attempt_def w_def [symmetric] draw Let_def ep split: option.splits)
qed

lemma good_commit [simp]: "good s t \<Longrightarrow> good s (snd (commit_attempt slot inp t))"
  using good_commit_here good_trans by blast

lemma good_commitAttempt [simp]: "good s t \<Longrightarrow> good s (snd (commitAttempt slot inp t))"
  by (simp add: commitAttempt_def Let_def case_prod_beta split: sum.splits)

lemma good_ensureAttempt [simp]: "good s t \<Longrightarrow> good s (snd (ensureAttemptForSlot slot e t))"
  by (auto simp: ensureAttemptForSlot_def split: sum.splits option.splits)

subsection \<open>Reports\<close>

lemma good_reportAttemptPhase [simp]: "good s t \<Longrightarrow> good s (snd (reportAttemptPhase i r t))"
  by (auto simp: reportAttemptPhase_def intro: good_transition split: option.splits)

lemma attempt_le_attributes:
  "attempt_le a (a\<lparr>pa_buildKey := k, pa_updatedAt := n\<rparr>)"
  "attempt_le a (a\<lparr>pa_hostConnectionId := h, pa_updatedAt := n\<rparr>)"
  by (simp_all add: attempt_le_def)

lemma good_set_build_here: "good t (set_build_state slot b t)"
proof (rule goodI)
  assume ok: "coord_ok t"
  let ?u = "t\<lparr>pc_buildStates := jset slot b (pc_buildStates t)\<rparr>"
  have gu: "good t ?u" by simp
  have upd: "good t (updateAttempt a (\<lambda>a. a\<lparr>pa_buildKey := bs_buildKey b\<rparr>) ?u)"
    if "currentAttempt slot ?u = Some a" for a
    using good_update [OF gu currentAttempt_stored(1) [OF good_ok [OF gu ok] that]]
    by (simp add: attempt_le_attributes)
  show "good t (set_build_state slot b t)"
    using upd by (auto simp: set_build_state_def Let_def split: option.splits)
qed

lemma good_set_build [simp]: "good s t \<Longrightarrow> good s (set_build_state slot b t)"
  using good_set_build_here good_trans by blast

lemma good_setBuildState [simp]: "good s t \<Longrightarrow> good s (snd (setBuildState slot b t))"
  by (simp add: setBuildState_def split: sum.splits)

lemma good_note_view [simp]: "good s t \<Longrightarrow> good s (note_view l a inp ev t)"
  by (simp add: note_view_def Let_def)

lemma good_supervise_pending [simp]: "good s t \<Longrightarrow> good s (supervise_pending a t)"
  by (simp add: supervise_pending_def split: option.splits)

lemma good_accept_view [simp]: "good s t \<Longrightarrow> good s (snd (accept_view l a inp ev t))"
proof -
  assume "good s t"
  then have "good s (note_view l a inp ev t)" by simp
  moreover define u where "u = note_view l a inp ev t"
  ultimately have "good s u" by simp
  then show ?thesis
    unfolding accept_view_def Let_def u_def [symmetric]
    by (simp add: case_prod_beta split: option.splits)
qed

lemma good_report_view [simp]: "good s t \<Longrightarrow> good s (snd (report_view e c inp ev t))"
  by (simp add: report_view_def Let_def split: option.splits)

lemma good_reportView [simp]: "good s t \<Longrightarrow> good s (snd (reportView e c inp ev t))"
  using good_report_view [of s t] by (simp add: reportView_def Let_def case_prod_beta split: sum.splits)


subsection \<open>Lease operations\<close>

lemma good_stopRoute [simp]: "good s t \<Longrightarrow> good s (stopRouteAttempt l r c t)"
  by (simp add: stopRouteAttempt_def Let_def split: option.splits)

lemma good_bind_route_here: "good t (bind_route slot l sr hp t)"
proof (rule goodI)
  assume ok: "coord_ok t"
  show "good t (bind_route slot l sr hp t)"
  proof (cases "reusesCurrentMaterialization (currentAttempt slot t) (l_runtimeEntityId l) sr hp")
    case False
    then show ?thesis by (simp add: bind_route_def Let_def)
  next
    case True
    then obtain a where a: "currentAttempt slot t = Some a"
      by (auto simp: reusesCurrentMaterialization_def split: option.splits)
    have "good t (updateAttempt a (\<lambda>a. a\<lparr>pa_hostConnectionId := Some (l_hostConnectionId l)\<rparr>) t)"
      using good_update [OF good_refl currentAttempt_stored(1) [OF ok a]]
      by (simp add: attempt_le_attributes)
    then show ?thesis using True a by (simp add: bind_route_def Let_def)
  qed
qed

lemma good_bind_route [simp]: "good s t \<Longrightarrow> good s (bind_route slot l sr hp t)"
  using good_bind_route_here good_trans by blast

lemma core_vacate [simp]: "core (vacate_route p e c s) = core s"
  by (simp add: vacate_route_def Let_def split: option.splits)

lemma good_vacate [simp]: "good s (vacate_route p e c t) = good s t"
  by (rule good_same) simp

lemma good_writeLease [simp]: "good s t \<Longrightarrow> good s (snd (writeLease e inp r d t))"
  by (simp add: writeLease_def Let_def case_prod_beta split: option.splits sum.splits)

lemma snd_outcome_simps:
  "snd (case r of (Inl e, s) \<Rightarrow> (Inl e, s) | (Inr (l, v), s) \<Rightarrow> (Inr (f l), s)) = snd r"
  "snd (case q of (Inl e, s) \<Rightarrow> (Inl e, s) | (Inr x, s) \<Rightarrow> (Inr (g x), s)) = snd q"
  by (auto split: prod.splits sum.splits)

lemma good_assign [simp]: "good s t \<Longrightarrow> good s (snd (assignDefaultCdpHost e slot x t))"
  by (simp add: assignDefaultCdpHost_def case_prod_beta [of _ "randomUUID _"] snd_outcome_simps split: option.splits)

lemma good_replaceCdp [simp]: "good s t \<Longrightarrow> good s (snd (replaceCdpLease e l opts sel t))"
  by (simp add: replaceCdpLease_def Let_def case_prod_beta [of _ "randomUUID _"]
      case_prod_beta [of _ "emitChange _ _ _ _ _ _"] snd_outcome_simps split: option.splits)

lemma good_replace_entity [simp]: "good s t \<Longrightarrow> good s (snd (replace_runtime_entity slot p n t))"
  by (simp add: replace_runtime_entity_def Let_def case_prod_beta [of _ "randomUUID _"]
      snd_outcome_simps split: option.splits)

lemma good_replaceEntity [simp]: "good s t \<Longrightarrow> good s (snd (replaceRuntimeEntityForSlot slot p n t))"
  by (simp add: replaceRuntimeEntityForSlot_def split: sum.splits)

lemma good_advance [simp]: "good s t \<Longrightarrow> good s (snd (advanceResidentSlotEntity slot n t))"
  by (simp add: advanceResidentSlotEntity_def split: sum.splits option.splits)

lemma good_ensure_held [simp]: "good s t \<Longrightarrow> good s (snd (ensure_held slot e opts l t))"
  by (simp add: ensure_held_def Let_def)

lemma good_ensure_other [simp]: "good s t \<Longrightarrow> good s (snd (ensure_other slot e opts l t))"
  by (simp add: ensure_other_def snd_outcome_simps)

lemma good_ensureDefault [simp]: "good s t \<Longrightarrow> good s (snd (ensureDefaultCdpHostForSlot slot e opts t))"
  by (simp add: ensureDefaultCdpHostForSlot_def case_prod_beta [of _ "randomUUID _"] snd_outcome_simps
      split: sum.splits option.splits)

lemma snd_written [simp]: "snd (written r) = snd r"
  by (auto simp: written_def split: prod.splits sum.splits)

lemma snd_forget_result [simp]: "snd (forget_result r) = snd r"
  by (auto simp: forget_result_def split: prod.splits sum.splits)

lemma good_acquire [simp]: "good s t \<Longrightarrow> good s (snd (acquire e inp t))"
  by (simp add: acquire_def split: sum.splits option.splits)

lemma good_takeOver [simp]: "good s t \<Longrightarrow> good s (snd (takeOver e inp t))"
  by (simp add: takeOver_def Let_def split: sum.splits option.splits)

lemma good_release_lease [simp]: "good s t \<Longrightarrow> good s (snd (release_lease e c r t))"
  by (simp add: release_lease_def Let_def split: option.splits)

lemma good_release [simp]: "good s t \<Longrightarrow> good s (snd (release e c r t))"
  by (simp add: release_def split: sum.splits)

lemma good_unloadSlot [simp]: "good s t \<Longrightarrow> good s (snd (unloadSlot slot t))"
  by (simp add: unloadSlot_def good_stopAttempt split: sum.splits option.splits prod.splits)

lemma good_stop_entity [simp]: "good s t \<Longrightarrow> good s (stop_entity_attempt e i t)"
  by (simp add: stop_entity_attempt_def good_stopAttempt)

lemma good_retire [simp]: "good s t \<Longrightarrow> good s (retireRuntimeEntity e t)"
  unfolding retireRuntimeEntity_def Let_def
  by (auto intro!: fold_inv_rule [where I = "good s"] split: option.splits)

subsection \<open>Pins, clients, connections\<close>

lemma good_restamp [simp]: "good s t \<Longrightarrow> good s (restampSlotKeepLoaded slot k t)"
  unfolding restampSlotKeepLoaded_def
  by (rule fold_inv_rule [where I = "good s"]) (auto simp: restamp_def Let_def split: prod.splits)

lemma good_pins [simp]:
  "good s t \<Longrightarrow> good s (snd (pinSlotLoaded slot t))"
  "good s t \<Longrightarrow> good s (snd (unpinSlotLoaded slot t))"
  by (simp_all add: pinSlotLoaded_def unpinSlotLoaded_def split: sum.splits)

lemma good_release_retired: "good s (fst q) \<Longrightarrow> good s (fst (release_retired ids p q))"
  by (auto simp: release_retired_def Let_def split: prod.splits)

lemma good_reassign [simp]: "good s t \<Longrightarrow> good s (snd (reassign_released rs t))"
proof (induction rs arbitrary: t)
  case (Cons p rs)
  obtain e l was where p: "p = (e, l, was)" by (cases p) auto
  obtain r u where q: "assignDefaultCdpHost e (l_slotId l) (Some (l_hostConnectionId l)) t = (r, u)"
    by fastforce
  have "good s u"
    using good_assign [OF Cons.prems, of e "l_slotId l" "Some (l_hostConnectionId l)"] by (simp add: q)
  then show ?case
    using Cons by (simp add: p q split: sum.splits)
qed simp

lemma good_unregisterClients [simp]: "good s t \<Longrightarrow> good s (snd (unregisterClients ids t))"
proof -
  assume g: "good s t"
  have "good s (fst (fold (release_retired ids) ls q))" if "good s (fst q)" for ls q
    by (rule fold_inv_rule [where I = "\<lambda>q. good s (fst q)"]) (use that in \<open>auto intro: good_release_retired\<close>)
  then show ?thesis
    using g by (simp add: unregisterClients_def Let_def case_prod_beta)
qed

lemma good_unregister [simp]:
  "good s t \<Longrightarrow> good s (snd (unregisterClient c t))"
  "good s t \<Longrightarrow> good s (snd (unregisterClientsForCaller c t))"
  by (simp_all add: unregisterClient_def unregisterClientsForCaller_def)

lemma good_adopt [simp]: "good s t \<Longrightarrow> good s (snd (adoptHostLeaseForSlot slot e h t))"
  by (simp add: adoptHostLeaseForSlot_def case_prod_beta [of _ "randomUUID _"] snd_outcome_simps
      split: sum.splits option.splits)

lemma good_hold [simp]: "good s t \<Longrightarrow> good s (snd (holdEntityForHost h t))"
  by (simp add: holdEntityForHost_def Let_def split: sum.splits option.splits)

lemma good_mark_connected [simp]: "good s t \<Longrightarrow> good s (mark_connected e c t)"
  by (simp add: mark_connected_def Let_def split: option.splits)

lemma good_mark_disconnected [simp]: "good s t \<Longrightarrow> good s (mark_disconnected e c t)"
  by (simp add: mark_disconnected_def Let_def split: option.splits)

lemma good_marks [simp]:
  "good s t \<Longrightarrow> good s (snd (markConnected e c t))"
  "good s t \<Longrightarrow> good s (snd (markDisconnected e c t))"
  by (simp_all add: markConnected_def markDisconnected_def split: sum.splits)

lemma good_expire [simp]: "good s t \<Longrightarrow> good s (snd (expire e c n t))"
  by (simp add: expire_def)

subsection \<open>Supervision\<close>

lemma good_superviseBegin [simp]: "good s t \<Longrightarrow> good s (snd (superviseBegin i t))"
  by (simp add: superviseBegin_def split: option.splits)

lemma good_superviseProbe [simp]: "good s t \<Longrightarrow> good s (snd (superviseProbe i a p t))"
  by (simp add: superviseProbe_def Let_def split: probe_answer.splits option.splits)

lemma good_countRound [simp]: "good s t \<Longrightarrow> good s (countRound i r ob t)"
  by (simp add: countRound_def Let_def split: option.splits)

lemma good_superviseRound [simp]: "good s t \<Longrightarrow> good s (superviseAttemptRound i a r p t)"
proof -
  assume g: "good s t"
  obtain b u where q: "superviseProbe i a p t = (b, u)" by fastforce
  have "good s u"
    using good_superviseProbe [OF g, of i a p] by (simp add: q)
  then show ?thesis
    by (simp add: superviseAttemptRound_def q split: option.splits)
qed

lemma good_superviseEnd [simp]: "good s t \<Longrightarrow> good s (superviseEnd i a r p t)"
  by (simp add: superviseEnd_def Let_def)

end
