(* ===== verification/PanelRuns.thy ===== *)
theory PanelRuns
  imports AttemptLife
begin

text \<open>
  Runs of the panel runtime coordinator: one step per public operation, timer callback and
  probe answer, and what holds of the attempts and of the event log in every run.
\<close>

subsection \<open>Steps\<close>

inductive coord_step :: "coord \<Rightarrow> coord \<Rightarrow> bool" where
  c_close: "coord_step s (setCloseConnection s)"
| c_tick: "0 \<le> d \<Longrightarrow> coord_step s (s\<lparr>pc_clock := pc_clock s + d\<rparr>)"
| c_commit: "coord_step s (snd (commitAttempt slot inp s))"
| c_stop: "coord_step s (snd (stopAttempt i r s))"
| c_ensure_attempt: "coord_step s (snd (ensureAttemptForSlot slot e s))"
| c_build: "coord_step s (snd (setBuildState slot b s))"
| c_report: "coord_step s (snd (reportAttemptPhase i rep s))"
| c_pin: "coord_step s (snd (pinSlotLoaded slot s))"
| c_unpin: "coord_step s (snd (unpinSlotLoaded slot s))"
| c_register: "coord_step s (registerClient reg s)"
| c_unregister: "coord_step s (snd (unregisterClient c s))"
| c_unregister_caller: "coord_step s (snd (unregisterClientsForCaller c s))"
| c_view: "coord_step s (snd (reportView e c inp_v ev s))"
| c_adopt: "coord_step s (snd (adoptHostLeaseForSlot slot e h s))"
| c_ensure: "coord_step s (snd (ensureDefaultCdpHostForSlot slot e opts s))"
| c_advance: "coord_step s (snd (advanceResidentSlotEntity slot e s))"
| c_replace: "coord_step s (snd (replaceRuntimeEntityForSlot slot e e' s))"
| c_acquire: "coord_step s (snd (acquire e req s))"
| c_takeOver: "coord_step s (snd (takeOver e req s))"
| c_release: "coord_step s (snd (release e c why s))"
| c_unload: "coord_step s (snd (unloadSlot slot s))"
| c_retire: "coord_step s (retireRuntimeEntity e s)"
| c_hold: "coord_step s (snd (holdEntityForHost h s))"
| c_connected: "coord_step s (snd (markConnected e c s))"
| c_disconnected: "coord_step s (snd (markDisconnected e c s))"
| c_expire: "coord_step s (snd (expire e c timer s))"
| c_supervise: "coord_step s (snd (superviseBegin i s))"
| c_probed: "coord_step s (superviseEnd i a ref answer s)"

text \<open>
  A coordinator starts empty. Of \<open>randomUUID()\<close> the runs assume what it documents: the names
  it returns are distinct and not empty.
\<close>

inductive coord_reachable :: "coord \<Rightarrow> bool" where
  coord_start: "inj uuids \<Longrightarrow> (\<And>n. uuids n \<noteq> []) \<Longrightarrow> coord_reachable (new_coord ep uuids now)"
| coord_next: "coord_reachable s \<Longrightarrow> coord_step s t \<Longrightarrow> coord_reachable t"

inductive coord_run :: "coord \<Rightarrow> coord \<Rightarrow> bool" where
  coord_run_refl: "coord_run s s"
| coord_run_step: "coord_run s t \<Longrightarrow> coord_step t u \<Longrightarrow> coord_run s u"

lemma coord_step_good: "coord_step s t \<Longrightarrow> good s t"
  by (induction rule: coord_step.induct) simp_all

lemma new_coord_ok: "inj uuids \<Longrightarrow> (\<And>n. uuids n \<noteq> []) \<Longrightarrow> coord_ok (new_coord ep uuids now)"
  by (simp add: coord_ok_def attempts_ok_def numbered_def new_coord_def)

lemma coord_reachable_ok: "coord_reachable s \<Longrightarrow> coord_ok s"
proof (induction rule: coord_reachable.induct)
  case (coord_next s t)
  then show ?case using coord_step_good good_ok by blast
qed (simp add: new_coord_ok)

lemma coord_run_good: "coord_run s t \<Longrightarrow> good s t"
  by (induction rule: coord_run.induct) (auto intro: good_trans dest: coord_step_good)

lemma coord_run_evolves: "coord_reachable s \<Longrightarrow> coord_run s t \<Longrightarrow> coord_ok t \<and> evolves s t"
  using coord_run_good coord_reachable_ok by (auto simp: good_def)

text \<open>A concrete coordinator for the instances below.\<close>

definition sample_uuids :: "nat \<Rightarrow> string" where
  "sample_uuids n = CHR ''u'' # replicate n CHR ''1''"

definition coord0 :: coord where
  "coord0 = new_coord ''ep'' sample_uuids 0"

lemma coord0_reachable: "coord_reachable coord0"
proof -
  have "inj sample_uuids"
    by (rule injI) (metis sample_uuids_def length_replicate list.inject)
  then show ?thesis
    unfolding coord0_def by (rule coord_start) (simp add: sample_uuids_def)
qed

definition coord1 :: coord where
  "coord1 = snd (commitAttempt ''panel:tree/a'' (attempt_input_for ''panel:nav-1'') coord0)"

lemma coord1_reachable: "coord_reachable coord1"
  unfolding coord1_def by (rule coord_next [OF coord0_reachable c_commit])

definition attempt1 :: panel_attempt where
  "attempt1 = \<lparr>pa_epoch = ''ep'', pa_attemptId = ''u'', pa_slotId = ''panel:tree/a'',
     pa_runtimeEntityId = ''panel:nav-1'', pa_buildKey = None, pa_effectiveVersion = None,
     pa_hostConnectionId = None, pa_phase = Pending, pa_revision = 0, pa_failure = None,
     pa_stopReason = None, pa_reporter = ByCoordinator, pa_updatedAt = 0\<rparr>"

lemmas coord_sample_simps = new_coord_def attempt1_def coord0_def sample_uuids_def
  commitAttempt_def commit_attempt_def supersede_def currentAttempt_def if_truthy_def
  randomUUID_def Let_def attempt_input_for_def asPanelSlotId_def asPanelEntityId_def
  startsWith_def PANEL_SLOT_PREFIX_def PANEL_ENTITY_PREFIX_def
  emitSlotObservationChanged_def nextSlotObservationVersion_def out_def slotCounter_def

lemma coord1_attempt: "map_of (pc_attempts coord1) ''u'' = Some attempt1"
  by (simp add: coord1_def coord_sample_simps)

lemma coord1_stopped:
  "map_of (pc_attempts (snd (stopAttempt ''u'' Unloaded coord1))) ''u'' =
     Some (attempt1\<lparr>pa_phase := Stopped, pa_revision := 1, pa_stopReason := Some Unloaded\<rparr>)"
  by (simp add: coord1_def coord_sample_simps stopAttempt_def transitionAttempt_def advanced_def
      stop_report_def override_def emitAttemptChanged_def stopSupervision_def rememberTerminal_def
      ATTEMPT_HISTORY_LIMIT_def)

section \<open>Properties\<close>

text \<open>
  C20. Over any run of the coordinator, from any reachable state and through any operations, an
  attempt that is still stored keeps its identity, slot and runtime entity, its revision never
  decreases, its phase only moves forward (pending, loading, booting, ready, then failed or
  stopped), and a failed or stopped attempt never changes phase, revision, failure or stop
  reason again.
\<close>

theorem attempt_lifecycle_monotone:
  assumes "coord_reachable s" and "coord_run s t"
    and "map_of (pc_attempts s) i = Some a" and "map_of (pc_attempts t) i = Some b"
  shows "pa_attemptId b = pa_attemptId a \<and> pa_slotId b = pa_slotId a \<and>
    pa_runtimeEntityId b = pa_runtimeEntityId a \<and> pa_revision a \<le> pa_revision b \<and>
    (pa_phase b = pa_phase a \<or> phase_order (pa_phase a) < phase_order (pa_phase b)) \<and>
    (terminal (pa_phase a) \<longrightarrow> pa_phase b = pa_phase a \<and> pa_revision b = pa_revision a \<and>
       pa_failure b = pa_failure a \<and> pa_stopReason b = pa_stopReason a)"
proof -
  have "attempt_le a b"
    using coord_run_evolves [OF assms(1,2)] assms(3,4) by (auto simp: evolves_def)
  then show ?thesis by (simp add: attempt_le_def)
qed

theorem attempt_lifecycle_monotone_witness:
  "phase_order (pa_phase attempt1) < phase_order Stopped"
  using attempt_lifecycle_monotone [OF coord1_reachable
      coord_run_step [OF coord_run_refl c_stop [of _ "''u''" Unloaded]] coord1_attempt coord1_stopped]
  by (simp add: attempt1_def)

text \<open>
  C21. In every reachable state a slot has at most one live attempt, the current one: two
  stored attempts of a slot that are neither failed nor stopped are the same attempt. The
  current attempt of a slot can always be retrieved (eviction of history never drops it),
  and the terminal history of a slot is a duplicate-free list of at most
  \<open>ATTEMPT_HISTORY_LIMIT\<close> attempts, none of them live.
\<close>

theorem one_live_attempt_per_slot:
  assumes "coord_reachable s"
  shows "(\<forall>i j a b. map_of (pc_attempts s) i = Some a \<and> map_of (pc_attempts s) j = Some b \<and>
      pa_slotId a = pa_slotId b \<and> \<not> terminal (pa_phase a) \<and> \<not> terminal (pa_phase b) \<longrightarrow>
      i = j \<and> currentAttempt (pa_slotId a) s = Some a) \<and>
    (\<forall>slot i. map_of (pc_currentAttemptBySlot s) slot = Some i \<longrightarrow>
      (\<exists>a. currentAttempt slot s = Some a \<and> getAttempt (pc_epoch s) i s = Report a)) \<and>
    (\<forall>slot h. map_of (pc_terminalHistoryBySlot s) slot = Some h \<longrightarrow>
      distinct h \<and> length h \<le> ATTEMPT_HISTORY_LIMIT \<and>
      (\<forall>i \<in> set h. \<forall>a. map_of (pc_attempts s) i = Some a \<longrightarrow> terminal (pa_phase a)))"
proof -
  have ok: "coord_ok s" using assms by (rule coord_reachable_ok)
  then have A: "attempts_ok s" by (simp add: coord_ok_def)
  have cur: "\<exists>a. currentAttempt slot s = Some a \<and> map_of (pc_attempts s) i = Some a"
    if c: "map_of (pc_currentAttemptBySlot s) slot = Some i" for slot i
  proof -
    obtain a where a: "map_of (pc_attempts s) i = Some a"
      using attempts_okD(3) [OF A c] by blast
    then have "i \<in> issued s" using attempts_okD(1) [OF A] by blast
    then have "i \<noteq> []" using ok by (auto simp: coord_ok_def issued_def)
    then show ?thesis using a c by (simp add: currentAttempt_def if_truthy_def)
  qed
  have live: "map_of (pc_currentAttemptBySlot s) (pa_slotId a) = Some i"
    if "map_of (pc_attempts s) i = Some a" "\<not> terminal (pa_phase a)" for i a
    using attempts_okD(2) [OF A] that by blast
  have "i = j \<and> currentAttempt (pa_slotId a) s = Some a"
    if "map_of (pc_attempts s) i = Some a" "map_of (pc_attempts s) j = Some b"
      "pa_slotId a = pa_slotId b" "\<not> terminal (pa_phase a)" "\<not> terminal (pa_phase b)" for i j a b
    using live [OF that(1,4)] live [OF that(2,5)] cur that(1,3) by fastforce
  moreover have "\<exists>a. currentAttempt slot s = Some a \<and> getAttempt (pc_epoch s) i s = Report a"
    if "map_of (pc_currentAttemptBySlot s) slot = Some i" for slot i
    using cur [OF that] by (auto simp: getAttempt_def)
  moreover have "distinct h \<and> length h \<le> ATTEMPT_HISTORY_LIMIT \<and>
      (\<forall>i \<in> set h. \<forall>a. map_of (pc_attempts s) i = Some a \<longrightarrow> terminal (pa_phase a))"
    if "map_of (pc_terminalHistoryBySlot s) slot = Some h" for slot h
    using attempts_okD(4) [OF A that] by (auto simp: history_ok_def)
  ultimately show ?thesis by blast
qed

theorem one_live_attempt_per_slot_witness:
  "currentAttempt (pa_slotId attempt1) coord1 = Some attempt1"
proof -
  have "\<not> terminal (pa_phase attempt1)" by (simp add: attempt1_def)
  then show ?thesis
    using one_live_attempt_per_slot [OF coord1_reachable, THEN conjunct1, rule_format,
        of "''u''" attempt1 "''u''" attempt1] coord1_attempt by blast
qed

text \<open>
  The lease events of a coordinator are numbered \<open>1, 2, 3, ...\<close> in its own epoch, in the
  order they are sent, without gaps or repetitions, and the version a snapshot carries is that
  of the last event. So a host that compares versions never drops an event that is news and
  never applies one twice. Over a run the log only grows, and no slot's observation version
  decreases.
\<close>

theorem lease_events_numbered:
  assumes "coord_reachable s" and "coord_run s t"
  shows "map le_version (lease_events (pc_log t)) =
      map (\<lambda>n. \<lparr>lv_epoch = pc_epoch t, lv_counter = n\<rparr>) [1..<Suc (pc_counter t)] \<and>
    ls_version (getSnapshot t) = \<lparr>lv_epoch = pc_epoch t, lv_counter = pc_counter t\<rparr> \<and>
    (\<exists>new. pc_log t = pc_log s @ new \<and>
       map le_version (lease_events new) =
         map (\<lambda>n. \<lparr>lv_epoch = pc_epoch s, lv_counter = n\<rparr>) [Suc (pc_counter s)..<Suc (pc_counter t)]) \<and>
    slotCounter slot s \<le> slotCounter slot t"
proof -
  have oks: "coord_ok s" using assms(1) by (rule coord_reachable_ok)
  have ev: "evolves s t" "coord_ok t" using coord_run_evolves [OF assms] by simp_all
  obtain new where new: "pc_log t = pc_log s @ new" using ev(1) by (auto simp: evolves_def)
  have le: "pc_counter s \<le> pc_counter t" and ep: "pc_epoch t = pc_epoch s"
    using ev(1) by (simp_all add: evolves_def)
  let ?v = "\<lambda>n. \<lparr>lv_epoch = pc_epoch s, lv_counter = n\<rparr>"
  have split: "[1..<Suc (pc_counter t)] = [1..<Suc (pc_counter s)] @ [Suc (pc_counter s)..<Suc (pc_counter t)]"
    using upt_add_eq_append [of 1 "Suc (pc_counter s)" "pc_counter t - pc_counter s"] le by simp
  have ns: "map le_version (lease_events (pc_log s)) = map ?v [1..<Suc (pc_counter s)]"
    using oks by (simp only: coord_ok_def numbered_def)
  have nt: "map le_version (lease_events (pc_log t)) = map ?v [1..<Suc (pc_counter t)]"
    using ev(2) ep by (simp only: coord_ok_def numbered_def)
  have "map ?v [1..<Suc (pc_counter s)] @ map le_version (lease_events new) =
      map ?v [1..<Suc (pc_counter s)] @ map ?v [Suc (pc_counter s)..<Suc (pc_counter t)]"
    using ns nt unfolding new split by (simp only: lease_events_simps map_append)
  then have "map le_version (lease_events new) = map ?v [Suc (pc_counter s)..<Suc (pc_counter t)]"
    by (simp only: same_append_eq)
  moreover have "ls_version (getSnapshot t) = \<lparr>lv_epoch = pc_epoch t, lv_counter = pc_counter t\<rparr>"
    by (simp add: getSnapshot_def currentVersion_def)
  moreover have "slotCounter slot s \<le> slotCounter slot t"
    using ev(1) by (simp only: evolves_def)
  ultimately show ?thesis
    using new nt ep by (simp only:) blast
qed

theorem lease_events_numbered_witness:
  "map le_version (lease_events (pc_log coord1)) =
     map (\<lambda>n. \<lparr>lv_epoch = pc_epoch coord1, lv_counter = n\<rparr>) [1..<Suc (pc_counter coord1)]"
  using lease_events_numbered [OF coord1_reachable coord_run_refl] by blast

end
