(* ===== verification/LeaseLife.thy ===== *)
theory LeaseLife
  imports PanelRuns LeaseTracker
begin

text \<open>
  The lease map of the coordinator under every operation: which fields the attempt operations
  leave alone, the invariant of the leases and registrations, what a pin protects, exclusivity
  of the leased connection, the reconnect grace, and the choice of the default CDP host.
\<close>

subsection \<open>Operations that leave the leases alone\<close>

definition lease_core :: "coord \<Rightarrow> (string, runtime_lease) jsmap \<times> string list \<times> (string, client_session) jsmap" where
  "lease_core s = (pc_leases s, pc_keptLoadedSlots s, pc_clients s)"

lemma lease_core_basic [simp]:
  "lease_core (out x s) = lease_core s"
  "lease_core (nextSlotObservationVersion slot s) = lease_core s"
  "lease_core (emitSlotObservationChanged slot s) = lease_core s"
  "lease_core (emitAttemptChanged i s) = lease_core s"
  "lease_core (rejectReport i m s) = lease_core s"
  "lease_core (closeLeaseConnection e c why s) = lease_core s"
  "lease_core (detachRoute c s) = lease_core s"
  "lease_core (clearExpiry e s) = lease_core s"
  "lease_core (stopSupervision i s) = lease_core s"
  "lease_core (startSupervision a s) = lease_core s"
  "lease_core (resetSupervisionProgress b s) = lease_core s"
  "lease_core (ensureSupervision a s) = lease_core s"
  "lease_core (startSupervisionIfAbsent a s) = lease_core s"
  "lease_core (set_reachable c v s) = lease_core s"
  "lease_core (updateAttempt a f s) = lease_core s"
  "lease_core (evict_attempt slot i s) = lease_core s"
  "lease_core (snd (randomUUID s)) = lease_core s"
  by (simp_all add: lease_core_def out_def nextSlotObservationVersion_def
      emitSlotObservationChanged_def emitAttemptChanged_def rejectReport_def
      closeLeaseConnection_def detachRoute_def clearExpiry_def stopSupervision_def
      startSupervision_def resetSupervisionProgress_def ensureSupervision_def
      startSupervisionIfAbsent_def set_reachable_def updateAttempt_def evict_attempt_def
      randomUUID_def Let_def split: option.splits)

lemma lease_core_upd [simp]:
  "lease_core (s\<lparr>pc_attempts := x1\<rparr>) = lease_core s"
  "lease_core (s\<lparr>pc_currentAttemptBySlot := x2\<rparr>) = lease_core s"
  "lease_core (s\<lparr>pc_terminalHistoryBySlot := x3\<rparr>) = lease_core s"
  "lease_core (s\<lparr>pc_routeBindings := x4\<rparr>) = lease_core s"
  "lease_core (s\<lparr>pc_routeReachability := x5\<rparr>) = lease_core s"
  "lease_core (s\<lparr>pc_routeViews := x6\<rparr>) = lease_core s"
  "lease_core (s\<lparr>pc_buildStates := x7\<rparr>) = lease_core s"
  "lease_core (s\<lparr>pc_supervisionInFlight := x8\<rparr>) = lease_core s"
  "lease_core (s\<lparr>pc_roundStore := x9\<rparr>) = lease_core s"
  "lease_core (s\<lparr>pc_hostHeld := x10\<rparr>) = lease_core s"
  "lease_core (s\<lparr>pc_counter := x11\<rparr>) = lease_core s"
  "lease_core (s\<lparr>pc_defaultCdpLeaseConnections := x12\<rparr>) = lease_core s"
  "lease_core (s\<lparr>pc_expiryTimers := x13\<rparr>) = lease_core s"
  "lease_core (s\<lparr>pc_objects := x14\<rparr>) = lease_core s"
  "lease_core (s\<lparr>pc_clock := x15\<rparr>) = lease_core s"
  "lease_core (s\<lparr>pc_closeSet := x16\<rparr>) = lease_core s"
  by (simp_all add: lease_core_def)

lemma lease_core_transition [simp]: "lease_core (transitionAttempt a r s) = lease_core s"
  by (simp add: transitionAttempt_def Let_def)

lemma lease_core_evict_all [simp]: "lease_core (fold (evict_attempt slot) is s) = lease_core s"
  by (induction "is" arbitrary: s) simp_all

lemma lease_core_attempt_ops [simp]:
  "lease_core (rememberTerminal a s) = lease_core s"
  by (simp add: rememberTerminal_def Let_def)

lemma lease_core_stop [simp]: "lease_core (snd (stopAttempt i r s)) = lease_core s"
  by (simp add: stopAttempt_def Let_def split: option.splits)

lemma lease_core_detach [simp]: "lease_core (detach_superseded a keep s) = lease_core s"
  unfolding detach_superseded_def
  by (rule fold_inv_rule [where I = "\<lambda>u. lease_core u = lease_core s"]) (auto simp: Let_def split: prod.splits)

lemma lease_core_supersede [simp]: "lease_core (supersede slot keep s) = lease_core s"
  by (simp add: supersede_def Let_def split: option.splits)

lemma lease_core_commit [simp]: "lease_core (snd (commit_attempt slot inp s)) = lease_core s"
  by (simp add: commit_attempt_def Let_def case_prod_beta split: option.splits)

lemma lease_core_stopRoute [simp]: "lease_core (stopRouteAttempt l r c s) = lease_core s"
  by (simp add: stopRouteAttempt_def Let_def split: option.splits)

lemma lease_core_bind_route [simp]: "lease_core (bind_route slot l sr hp s) = lease_core s"
  by (simp add: bind_route_def Let_def)

lemma lease_core_reports [simp]:
  "lease_core (snd (reportAttemptPhase i r s)) = lease_core s"
  "lease_core (set_build_state slot b s) = lease_core s"
  "lease_core (note_view l a inp ev s) = lease_core s"
  "lease_core (supervise_pending a s) = lease_core s"
  by (simp_all add: reportAttemptPhase_def set_build_state_def note_view_def supervise_pending_def
      Let_def split: option.splits)

lemma lease_core_accept_view [simp]: "lease_core (snd (accept_view l a inp ev s)) = lease_core s"
proof -
  define u where "u = note_view l a inp ev s"
  have "lease_core u = lease_core s" by (simp add: u_def)
  then show ?thesis
    unfolding accept_view_def Let_def u_def [symmetric]
    by (simp add: case_prod_beta split: option.splits)
qed

lemma lease_core_report_view [simp]: "lease_core (snd (report_view e c inp ev s)) = lease_core s"
  by (simp add: report_view_def Let_def split: option.splits)

lemma lease_core_supervise [simp]:
  "lease_core (snd (superviseBegin i s)) = lease_core s"
  "lease_core (snd (superviseProbe i a p s)) = lease_core s"
  "lease_core (countRound i ref ob s) = lease_core s"
  by (simp_all add: superviseBegin_def superviseProbe_def countRound_def Let_def
      split: option.splits probe_answer.splits)

lemma lease_core_superviseRound [simp]: "lease_core (superviseAttemptRound i a ref p s) = lease_core s"
proof -
  obtain b u where q: "superviseProbe i a p s = (b, u)" by fastforce
  have "lease_core u = lease_core s"
    using lease_core_supervise(2) [of i a p s] by (simp add: q)
  then show ?thesis
    by (simp add: superviseAttemptRound_def q split: option.splits)
qed

lemma lease_core_superviseEnd [simp]: "lease_core (superviseEnd i a ref p s) = lease_core s"
  by (simp add: superviseEnd_def Let_def)

lemma lease_core_emitChange [simp]: "lease_core (snd (emitChange e slot p n r s)) = lease_core s"
  by (simp add: emitChange_def Let_def)

lemma lease_coreD:
  assumes "lease_core t = lease_core s"
  shows "pc_leases t = pc_leases s" "pc_keptLoadedSlots t = pc_keptLoadedSlots s" "pc_clients t = pc_clients s"
  using assms by (simp_all add: lease_core_def)

lemmas lease_fields [simp] =
  lease_core_basic [THEN lease_coreD(1)] lease_core_basic [THEN lease_coreD(2)] lease_core_basic [THEN lease_coreD(3)]
  lease_core_stopRoute [THEN lease_coreD(1)] lease_core_stopRoute [THEN lease_coreD(2)] lease_core_stopRoute [THEN lease_coreD(3)]
  lease_core_bind_route [THEN lease_coreD(1)] lease_core_bind_route [THEN lease_coreD(2)] lease_core_bind_route [THEN lease_coreD(3)]
  lease_core_emitChange [THEN lease_coreD(1)] lease_core_emitChange [THEN lease_coreD(2)] lease_core_emitChange [THEN lease_coreD(3)]
  lease_core_commit [THEN lease_coreD(1)] lease_core_commit [THEN lease_coreD(2)] lease_core_commit [THEN lease_coreD(3)]
  lease_core_stop [THEN lease_coreD(1)] lease_core_stop [THEN lease_coreD(2)] lease_core_stop [THEN lease_coreD(3)]

lemma removeLease_fields [simp]:
  "pc_leases (removeLease l e s) = jdel e (pc_leases s)"
  "pc_keptLoadedSlots (removeLease l e s) = pc_keptLoadedSlots s"
  "pc_clients (removeLease l e s) = pc_clients s"
  by (simp_all add: removeLease_def clearExpiry_def Let_def)

lemma vacate_fields [simp]:
  "pc_leases (vacate_route p e c s) = pc_leases s"
  "pc_keptLoadedSlots (vacate_route p e c s) = pc_keptLoadedSlots s"
  "pc_clients (vacate_route p e c s) = pc_clients s"
  "pc_clock (vacate_route p e c s) = pc_clock s"
  by (simp_all add: vacate_route_def clearExpiry_def detachRoute_def Let_def split: option.splits)

subsection \<open>What \<open>writeLease\<close> writes\<close>

lemma fresh_lease_cong:
  "pc_keptLoadedSlots u = pc_keptLoadedSlots s \<Longrightarrow> pc_clock u = pc_clock s \<Longrightarrow>
   fresh_lease slot e cl inp u = fresh_lease slot e cl inp s"
  by (simp add: fresh_lease_def)

lemma fresh_vacate [simp]:
  "fresh_lease slot e cl inp (vacate_route p e' c s) = fresh_lease slot e cl inp s"
  by (rule fresh_lease_cong) simp_all

lemma writeLease_Inl:
  "fst (writeLease e inp r d s) = Inl x \<Longrightarrow> snd (writeLease e inp r d s) = s"
  by (auto simp: writeLease_def Let_def case_prod_beta split: option.splits sum.splits)

lemma writeLease_ok:
  assumes "fst (writeLease e inp r d s) = Inr (l, v)"
  shows "\<exists>cl. map_of (pc_clients s) (lr_clientSessionId inp) = Some cl \<and> isPanelSlotId (lr_slotId inp) \<and>
      l = fresh_lease (lr_slotId inp) e cl inp s \<and>
      pc_leases (snd (writeLease e inp r d s)) = jset e l (pc_leases s) \<and>
      pc_keptLoadedSlots (snd (writeLease e inp r d s)) = pc_keptLoadedSlots s \<and>
      pc_clients (snd (writeLease e inp r d s)) = pc_clients s"
  using assms
  by (auto simp: writeLease_def Let_def case_prod_beta split: option.splits sum.splits if_splits)


subsection \<open>The invariant of leases and registrations\<close>

text \<open>
  Leases are keyed by their runtime entity, live in panel slots, carry \<open>keepLoaded\<close> exactly
  when their slot is pinned, and belong to a registered client session.
\<close>

definition lease_ok :: "coord \<Rightarrow> string \<Rightarrow> runtime_lease \<Rightarrow> bool" where
  "lease_ok s e l \<longleftrightarrow> l_runtimeEntityId l = e \<and> isPanelSlotId (l_slotId l) \<and>
     (keeps_loaded l \<longleftrightarrow> l_slotId l \<in> set (pc_keptLoadedSlots s)) \<and>
     jhas (pc_clients s) (l_clientSessionId l)"

definition leases_ok :: "coord \<Rightarrow> bool" where
  "leases_ok s \<longleftrightarrow> jwf (pc_leases s) \<and> (\<forall>e l. map_of (pc_leases s) e = Some l \<longrightarrow> lease_ok s e l) \<and>
     jwf (pc_clients s) \<and> (\<forall>c cl. map_of (pc_clients s) c = Some cl \<longrightarrow> cs_clientSessionId cl = c)"

lemma leases_okD: "leases_ok s \<Longrightarrow> map_of (pc_leases s) e = Some l \<Longrightarrow> lease_ok s e l"
  by (simp add: leases_ok_def)

lemma lease_ok_cong:
  "pc_keptLoadedSlots t = pc_keptLoadedSlots s \<Longrightarrow> pc_clients t = pc_clients s \<Longrightarrow> lease_ok t e l = lease_ok s e l"
  by (simp add: lease_ok_def)

lemma leases_ok_cong: "lease_core t = lease_core s \<Longrightarrow> leases_ok t = leases_ok s"
  by (simp add: leases_ok_def lease_ok_def lease_core_def)

lemmas leases_ok_simps [simp] =
  lease_core_basic [THEN leases_ok_cong] lease_core_upd [THEN leases_ok_cong]
  lease_core_stop [THEN leases_ok_cong] lease_core_commit [THEN leases_ok_cong]
  lease_core_stopRoute [THEN leases_ok_cong] lease_core_reports [THEN leases_ok_cong]
  lease_core_report_view [THEN leases_ok_cong] lease_core_supervise [THEN leases_ok_cong]
  lease_core_superviseEnd [THEN leases_ok_cong] lease_core_emitChange [THEN leases_ok_cong]

lemma leases_ok_put:
  assumes "leases_ok s" and "lease_ok s e l"
    and "pc_leases t = jset e l (pc_leases s)" "pc_keptLoadedSlots t = pc_keptLoadedSlots s"
    and "pc_clients t = pc_clients s"
  shows "leases_ok t"
  using assms by (auto simp: leases_ok_def lease_ok_cong [OF assms(4,5)])

lemma leases_ok_del:
  assumes "leases_ok s" and "pc_leases t = jdel e (pc_leases s)"
    and "pc_keptLoadedSlots t = pc_keptLoadedSlots s" "pc_clients t = pc_clients s"
  shows "leases_ok t"
  using assms by (auto simp: leases_ok_def lease_ok_cong [OF assms(3,4)] split: if_splits)

lemma leases_ok_removeLease [simp]: "leases_ok s \<Longrightarrow> leases_ok (removeLease l e s)"
  by (rule leases_ok_del) simp_all

lemma lease_ok_fresh:
  "map_of (pc_clients s) (lr_clientSessionId inp) = Some cl \<Longrightarrow> isPanelSlotId slot \<Longrightarrow>
   lease_ok s e (fresh_lease slot e cl inp s)"
  by (simp add: lease_ok_def fresh_lease_def keeps_loaded_def jhas_def)

lemma leases_ok_writeLease [simp]: "leases_ok s \<Longrightarrow> leases_ok (snd (writeLease e inp r d s))"
proof (cases "fst (writeLease e inp r d s)")
  case (Inr lv)
  obtain l v where lv: "lv = (l, v)" by fastforce
  assume "leases_ok s"
  then show ?thesis
    using writeLease_ok [OF Inr [unfolded lv]] lease_ok_fresh leases_ok_put by blast
qed (simp add: writeLease_Inl)

lemma leases_ok_assign [simp]: "leases_ok s \<Longrightarrow> leases_ok (snd (assignDefaultCdpHost e slot x s))"
  by (simp add: assignDefaultCdpHost_def case_prod_beta [of _ "randomUUID _"] snd_outcome_simps split: option.splits)

lemma leases_ok_replaceCdp [simp]: "leases_ok s \<Longrightarrow> leases_ok (snd (replaceCdpLease e l opts sel s))"
  by (simp add: replaceCdpLease_def Let_def case_prod_beta [of _ "randomUUID _"]
      case_prod_beta [of _ "emitChange _ _ _ _ _ _"] snd_outcome_simps split: option.splits)

lemma leases_ok_replace_entity [simp]: "leases_ok s \<Longrightarrow> leases_ok (snd (replace_runtime_entity slot p n s))"
  by (simp add: replace_runtime_entity_def Let_def case_prod_beta [of _ "randomUUID _"]
      snd_outcome_simps split: option.splits)

lemma leases_ok_replaceEntity [simp]: "leases_ok s \<Longrightarrow> leases_ok (snd (replaceRuntimeEntityForSlot slot p n s))"
  by (simp add: replaceRuntimeEntityForSlot_def split: sum.splits)

lemma leases_ok_advance [simp]: "leases_ok s \<Longrightarrow> leases_ok (snd (advanceResidentSlotEntity slot n s))"
  by (simp add: advanceResidentSlotEntity_def split: sum.splits option.splits)

lemma leases_ok_ensure [simp]: "leases_ok s \<Longrightarrow> leases_ok (snd (ensureDefaultCdpHostForSlot slot e opts s))"
  by (simp add: ensureDefaultCdpHostForSlot_def ensure_held_def ensure_other_def Let_def
      case_prod_beta [of _ "randomUUID _"] snd_outcome_simps split: sum.splits option.splits)

lemma leases_ok_acquire [simp]: "leases_ok s \<Longrightarrow> leases_ok (snd (acquire e inp s))"
  by (simp add: acquire_def split: sum.splits option.splits)

lemma leases_ok_takeOver [simp]: "leases_ok s \<Longrightarrow> leases_ok (snd (takeOver e inp s))"
  by (simp add: takeOver_def Let_def split: sum.splits option.splits)

lemma leases_ok_release_lease [simp]: "leases_ok s \<Longrightarrow> leases_ok (snd (release_lease e c r s))"
  by (simp add: release_lease_def Let_def split: option.splits)

lemma leases_ok_release [simp]: "leases_ok s \<Longrightarrow> leases_ok (snd (release e c r s))"
  by (simp add: release_def split: sum.splits)

lemma leases_ok_unloadSlot [simp]: "leases_ok s \<Longrightarrow> leases_ok (snd (unloadSlot slot s))"
  by (simp add: unloadSlot_def split: sum.splits option.splits prod.splits)

lemma leases_ok_retire [simp]: "leases_ok s \<Longrightarrow> leases_ok (retireRuntimeEntity e s)"
  unfolding retireRuntimeEntity_def Let_def
  by (auto intro!: fold_inv_rule [where I = leases_ok] simp: stop_entity_attempt_def split: option.splits)

lemma leases_ok_adopt [simp]: "leases_ok s \<Longrightarrow> leases_ok (snd (adoptHostLeaseForSlot slot e h s))"
  by (simp add: adoptHostLeaseForSlot_def case_prod_beta [of _ "randomUUID _"] snd_outcome_simps
      split: sum.splits option.splits)

lemma leases_ok_hold [simp]: "leases_ok s \<Longrightarrow> leases_ok (snd (holdEntityForHost h s))"
  by (simp add: holdEntityForHost_def Let_def split: sum.splits option.splits)

lemma leases_ok_reassign [simp]: "leases_ok s \<Longrightarrow> leases_ok (snd (reassign_released rs s))"
proof (induction rs arbitrary: s)
  case (Cons p rs)
  obtain e l was where p: "p = (e, l, was)" by (cases p) auto
  obtain r u where q: "assignDefaultCdpHost e (l_slotId l) (Some (l_hostConnectionId l)) s = (r, u)"
    by fastforce
  have "leases_ok u"
    using leases_ok_assign [OF Cons.prems, of e "l_slotId l" "Some (l_hostConnectionId l)"] by (simp add: q)
  then show ?case
    using Cons by (simp add: p q split: sum.splits)
qed simp

subsection \<open>Pins and registrations\<close>

text \<open>\<open>restampSlotKeepLoaded\<close> sets the flag of exactly the leases of the slot.\<close>

lemma restamp_fold:
  assumes "jwf ls"
  shows "map_of (pc_leases (fold (restamp slot keep) ls s)) e =
      (case map_of ls e of
         Some l \<Rightarrow> if l_slotId l = slot \<and> keeps_loaded l \<noteq> keep then Some (l\<lparr>l_keepLoaded := Some keep\<rparr>)
                   else map_of (pc_leases s) e
       | None \<Rightarrow> map_of (pc_leases s) e)
    \<and> (jwf (pc_leases s) \<longrightarrow> jwf (pc_leases (fold (restamp slot keep) ls s)))
    \<and> pc_keptLoadedSlots (fold (restamp slot keep) ls s) = pc_keptLoadedSlots s
    \<and> pc_clients (fold (restamp slot keep) ls s) = pc_clients s"
  using assms
proof (induction ls arbitrary: s)
  case (Cons p ls)
  obtain e' l where p: "p = (e', l)" by fastforce
  have "map_of ls e' = None" "jwf ls"
    using Cons.prems p by (auto simp: jwf_Cons map_of_eq_None_iff)
  then show ?case
    using Cons.IH by (auto simp: p restamp_def Let_def split: option.splits)
qed simp

lemma restamp_keeps [simp]: "keeps_loaded (l\<lparr>l_keepLoaded := Some b\<rparr>) = b"
  by (simp add: keeps_loaded_def)

lemma leases_ok_restamp:
  assumes ok: "leases_ok s" and k: "\<And>slot'. slot' \<in> set kept \<longleftrightarrow> (if slot' = slot then keep else slot' \<in> set (pc_keptLoadedSlots s))"
  shows "leases_ok (restampSlotKeepLoaded slot keep (s\<lparr>pc_keptLoadedSlots := kept\<rparr>))"
proof -
  let ?s = "s\<lparr>pc_keptLoadedSlots := kept\<rparr>"
  let ?t = "restampSlotKeepLoaded slot keep ?s"
  have wf: "jwf (pc_leases ?s)" using ok by (simp add: leases_ok_def)
  note F = restamp_fold [OF wf, of slot keep ?s]
  have "lease_ok ?t e l" if l: "map_of (pc_leases ?t) e = Some l" for e l
  proof (cases "map_of (pc_leases s) e")
    case None
    then show ?thesis using l F [of e] by (simp add: restampSlotKeepLoaded_def)
  next
    case (Some l0)
    have "l = (if l_slotId l0 = slot \<and> keeps_loaded l0 \<noteq> keep then l0\<lparr>l_keepLoaded := Some keep\<rparr> else l0)"
      using l F [of e] Some by (auto simp: restampSlotKeepLoaded_def split: if_splits)
    then show ?thesis
      using leases_okD [OF ok Some] k [of "l_slotId l0"] F [of e]
      by (simp add: lease_ok_def restampSlotKeepLoaded_def split: if_splits)
  qed
  then show ?thesis
    using ok F by (auto simp: leases_ok_def restampSlotKeepLoaded_def)
qed

lemma leases_ok_pins [simp]:
  "leases_ok s \<Longrightarrow> leases_ok (snd (pinSlotLoaded slot s))"
  "leases_ok s \<Longrightarrow> leases_ok (snd (unpinSlotLoaded slot s))"
  by (auto simp: pinSlotLoaded_def unpinSlotLoaded_def intro!: leases_ok_restamp split: sum.splits if_splits)

lemma leases_ok_register [simp]: "leases_ok s \<Longrightarrow> leases_ok (registerClient r s)"
  by (auto simp: leases_ok_def registerClient_def Let_def lease_ok_def jhas_def)

lemma release_retired_fold:
  assumes "jwf ls"
  shows "map_of (pc_leases (fst (fold (release_retired ids) ls q))) e =
      (case map_of ls e of
         Some l \<Rightarrow> if l_clientSessionId l \<in> set ids then None else map_of (pc_leases (fst q)) e
       | None \<Rightarrow> map_of (pc_leases (fst q)) e)
    \<and> (jwf (pc_leases (fst q)) \<longrightarrow> jwf (pc_leases (fst (fold (release_retired ids) ls q))))
    \<and> pc_keptLoadedSlots (fst (fold (release_retired ids) ls q)) = pc_keptLoadedSlots (fst q)
    \<and> pc_clients (fst (fold (release_retired ids) ls q)) = pc_clients (fst q)"
  using assms
proof (induction ls arbitrary: q)
  case (Cons p ls)
  obtain e' l where p: "p = (e', l)" by fastforce
  obtain s rel where q: "q = (s, rel)" by fastforce
  have "map_of ls e' = None" "jwf ls"
    using Cons.prems p by (auto simp: jwf_Cons map_of_eq_None_iff)
  then show ?case
    using Cons.IH by (auto simp: p q release_retired_def Let_def split: option.splits)
qed simp

lemma leases_ok_unregisterClients [simp]:
  assumes ok: "leases_ok s"
  shows "leases_ok (snd (unregisterClients ids s))"
proof -
  let ?s = "s\<lparr>pc_clients := filter (\<lambda>p. fst p \<notin> set ids) (pc_clients s)\<rparr>"
  let ?t = "fst (fold (release_retired ids) (pc_leases s) (?s, []))"
  have wf: "jwf (pc_leases s)" using ok by (simp add: leases_ok_def)
  note F = release_retired_fold [OF wf, of ids "(?s, [])"]
  have cl: "map_of (filter (\<lambda>p. fst p \<notin> set ids) m) c = (if c \<in> set ids then None else map_of m c)"
    for m :: "(string, client_session) jsmap" and c
    by (induction m) auto
  have "lease_ok ?t e l" if "map_of (pc_leases ?t) e = Some l" for e l
  proof -
    have l: "map_of (pc_leases s) e = Some l" "l_clientSessionId l \<notin> set ids"
      using that F [of e] by (auto split: option.splits if_splits)
    show ?thesis
      using leases_okD [OF ok l(1)] l(2) F [of e] by (simp add: lease_ok_def jhas_def cl)
  qed
  then have "leases_ok ?t"
    using ok F by (auto simp: leases_ok_def cl split: if_splits)
  then show ?thesis
    by (simp add: unregisterClients_def Let_def case_prod_beta)
qed

lemma leases_ok_unregister [simp]:
  "leases_ok s \<Longrightarrow> leases_ok (snd (unregisterClient c s))"
  "leases_ok s \<Longrightarrow> leases_ok (snd (unregisterClientsForCaller c s))"
  by (simp_all add: unregisterClient_def unregisterClientsForCaller_def)

lemma leases_ok_same_entity:
  assumes "leases_ok s" and "map_of (pc_leases s) e = Some l"
    and "l_slotId n = l_slotId l" "l_runtimeEntityId n = l_runtimeEntityId l"
    "l_keepLoaded n = l_keepLoaded l" "l_clientSessionId n = l_clientSessionId l"
    and "pc_leases t = jset e n (pc_leases s)" "pc_keptLoadedSlots t = pc_keptLoadedSlots s"
    "pc_clients t = pc_clients s"
  shows "leases_ok t"
proof (rule leases_ok_put [OF assms(1) _ assms(7-9)])
  show "lease_ok s e n"
    using leases_okD [OF assms(1,2)] assms(3-6) by (simp add: lease_ok_def keeps_loaded_def)
qed

lemma leases_ok_connected [simp]: "leases_ok s \<Longrightarrow> leases_ok (mark_connected e c s)"
proof -
  assume ok: "leases_ok s"
  have put: "leases_ok (u\<lparr>pc_leases := jset e (l\<lparr>l_expiresAt := None\<rparr>) (pc_leases u)\<rparr>)"
    if "lease_core u = lease_core s" "map_of (pc_leases s) e = Some l" for u l
    by (rule leases_ok_same_entity [OF ok that(2)]) (simp_all add: lease_coreD [OF that(1)])
  show ?thesis
    by (auto simp: mark_connected_def Let_def ok put split: option.splits)
qed

lemma leases_ok_disconnected [simp]: "leases_ok s \<Longrightarrow> leases_ok (mark_disconnected e c s)"
proof -
  assume ok: "leases_ok s"
  have put: "leases_ok (u\<lparr>pc_leases := jset e (l\<lparr>l_expiresAt := x\<rparr>) (pc_leases s)\<rparr>)"
    if "lease_core u = lease_core s" "map_of (pc_leases s) e = Some l" for u l x
    by (rule leases_ok_same_entity [OF ok that(2)]) (simp_all add: lease_coreD [OF that(1)])
  show ?thesis
    by (simp add: mark_disconnected_def Let_def ok put split: option.splits)
qed

lemma leases_ok_ensureAttempt [simp]:
  "leases_ok s \<Longrightarrow> leases_ok (snd (commitAttempt slot inp s))"
  "leases_ok s \<Longrightarrow> leases_ok (snd (ensureAttemptForSlot slot e s))"
  by (simp_all add: commitAttempt_def ensureAttemptForSlot_def Let_def case_prod_beta
      split: sum.splits option.splits)

lemma coord_step_leases_ok: "coord_step s t \<Longrightarrow> leases_ok s \<Longrightarrow> leases_ok t"
  by (induction rule: coord_step.induct)
    (simp_all add: setBuildState_def reportView_def markConnected_def markDisconnected_def expire_def
      setCloseConnection_def Let_def case_prod_beta split: sum.splits)

lemma coord_reachable_leases_ok: "coord_reachable s \<Longrightarrow> leases_ok s"
proof (induction rule: coord_reachable.induct)
  case (coord_next s t)
  then show ?case using coord_step_leases_ok by blast
qed (simp add: leases_ok_def new_coord_def)


subsection \<open>The choice of the default host\<close>

lemma find_sorted_min:
  assumes "find P (sort_key k xs) = Some x" and "y \<in> set xs" and "P y"
  shows "k x \<le> k y"
proof -
  have "sorted (map k zs) \<Longrightarrow> find P zs = Some x \<Longrightarrow> y \<in> set zs \<Longrightarrow> P y \<Longrightarrow> k x \<le> k y" for zs
    by (induction zs) (auto split: if_splits)
  then show ?thesis using assms by (metis set_sort sorted_sort_key)
qed

lemma find_sort_key:
  "find P (sort_key k xs) = Some x \<Longrightarrow> x \<in> set xs \<and> P x"
  "find P (sort_key k xs) = None \<longleftrightarrow> (\<forall>x \<in> set xs. \<not> P x)"
  using find_SomeD [of P "sort_key k xs"] by (auto simp: find_NoneD)

lemma default_host_registered:
  assumes "leases_ok s" and "getDefaultCdpHostClient opts p s = Some cl"
  shows "map_of (pc_clients s) (cs_clientSessionId cl) = Some cl \<and> eligible_host opts cl"
proof -
  have "cl \<in> set (jvalues (pc_clients s))" "eligible_host opts cl"
    using assms(2) find_sort_key(1) by (fastforce simp: getDefaultCdpHostClient_def)+
  then show ?thesis
    using assms(1) by (auto simp: leases_ok_def jget_mem)
qed

subsection \<open>Steps that do not force a pinned lease\<close>

text \<open>
  Every step but: taking the lease of \<open>e\<close> over; retiring \<open>e\<close>; \<open>ensureDefaultCdpHostForSlot\<close>,
  \<open>replaceRuntimeEntityForSlot\<close> and \<open>advanceResidentSlotEntity\<close> (of any slot), which move slots to
  other hosts or entities; unregistering the holding session \<open>c\<close>, and \<open>unregisterCallerClients\<close>;
  an acquisition of \<open>e\<close> by the holding session for another slot or for a connection outside \<open>K\<close>;
  and unpinning the slot.
\<close>

inductive unforced :: "string \<Rightarrow> string \<Rightarrow> string \<Rightarrow> string set \<Rightarrow> coord \<Rightarrow> coord \<Rightarrow> bool" for e slot c K where
  u_commit: "unforced e slot c K s (snd (commitAttempt sl inp s))"
| u_stop: "unforced e slot c K s (snd (stopAttempt i r s))"
| u_report: "unforced e slot c K s (snd (reportAttemptPhase i rep s))"
| u_build: "unforced e slot c K s (snd (setBuildState sl b s))"
| u_view: "unforced e slot c K s (snd (reportView e' k inp_v ev s))"
| u_pin: "unforced e slot c K s (snd (pinSlotLoaded sl s))"
| u_unpin: "sl \<noteq> slot \<Longrightarrow> unforced e slot c K s (snd (unpinSlotLoaded sl s))"
| u_register: "unforced e slot c K s (registerClient reg s)"
| u_acquire: "e' \<noteq> e \<or> lr_clientSessionId req \<noteq> c \<or> lr_slotId req = slot \<and> lr_connectionId req \<in> K \<Longrightarrow> unforced e slot c K s (snd (acquire e' req s))"
| u_takeOver: "e' \<noteq> e \<Longrightarrow> unforced e slot c K s (snd (takeOver e' req s))"
| u_release: "unforced e slot c K s (snd (release e' k why s))"
| u_unload: "unforced e slot c K s (snd (unloadSlot sl s))"
| u_expire: "unforced e slot c K s (snd (expire e' k timer s))"
| u_retire: "e' \<noteq> e \<Longrightarrow> unforced e slot c K s (retireRuntimeEntity e' s)"
| u_connected: "unforced e slot c K s (snd (markConnected e' k s))"
| u_disconnected: "unforced e slot c K s (snd (markDisconnected e' k s))"
| u_supervise: "unforced e slot c K s (snd (superviseBegin i s))"
| u_probed: "unforced e slot c K s (superviseEnd i a ref answer s)"
| u_ensure_attempt: "unforced e slot c K s (snd (ensureAttemptForSlot sl e' s))"
| u_hold: "unforced e slot c K s (snd (holdEntityForHost h s))"
| u_adopt: "unforced e slot c K s (snd (adoptHostLeaseForSlot sl e' h' s))"
| u_unregister: "c' \<noteq> c \<Longrightarrow> unforced e slot c K s (snd (unregisterClient c' s))"
| u_close: "unforced e slot c K s (setCloseConnection s)"
| u_tick: "0 \<le> d \<Longrightarrow> unforced e slot c K s (s\<lparr>pc_clock := pc_clock s + d\<rparr>)"

inductive unforced_run :: "string \<Rightarrow> string \<Rightarrow> string \<Rightarrow> string set \<Rightarrow> coord \<Rightarrow> coord \<Rightarrow> bool" for e slot c K where
  unforced_refl: "unforced_run e slot c K s s"
| unforced_step: "unforced_run e slot c K s t \<Longrightarrow> unforced e slot c K t u \<Longrightarrow> unforced_run e slot c K s u"

lemma unforced_coord_step: "unforced e slot c K s t \<Longrightarrow> coord_step s t"
  by (induction rule: unforced.induct) (rule coord_step.intros)+

definition pin_holds :: "string \<Rightarrow> string \<Rightarrow> string \<Rightarrow> string set \<Rightarrow> coord \<Rightarrow> bool" where
  "pin_holds e slot c K s \<longleftrightarrow> slot \<in> set (pc_keptLoadedSlots s) \<and>
     (\<exists>l. map_of (pc_leases s) e = Some l \<and> l_slotId l = slot \<and> l_clientSessionId l = c \<and> l_connectionId l \<in> K)"

lemma pin_holds_cong:
  "pc_keptLoadedSlots t = pc_keptLoadedSlots s \<Longrightarrow> map_of (pc_leases t) e = map_of (pc_leases s) e \<Longrightarrow>
   pin_holds e slot c K t = pin_holds e slot c K s"
  by (simp add: pin_holds_def)

lemma pin_holds_core: "lease_core t = lease_core s \<Longrightarrow> pin_holds e slot c K t = pin_holds e slot c K s"
  by (rule pin_holds_cong) (simp_all add: lease_core_def)

lemma writeLease_leases:
  "pc_leases (snd (writeLease e inp r d s)) = pc_leases s \<or>
   (\<exists>l. pc_leases (snd (writeLease e inp r d s)) = jset e l (pc_leases s))"
  "pc_keptLoadedSlots (snd (writeLease e inp r d s)) = pc_keptLoadedSlots s"
  by (auto simp: writeLease_def Let_def case_prod_beta split: option.splits sum.splits)

lemma writeLease_other:
  "e' \<noteq> e \<Longrightarrow> map_of (pc_leases (snd (writeLease e' inp r d s))) e = map_of (pc_leases s) e"
  using writeLease_leases(1) [of e' inp r d s] by auto

lemma pin_writeLease_other:
  "e' \<noteq> e \<Longrightarrow> pin_holds e slot c K (snd (writeLease e' inp r d s)) = pin_holds e slot c K s"
  by (rule pin_holds_cong) (simp_all add: writeLease_other writeLease_leases)

lemma pin_assign_other:
  "e' \<noteq> e \<Longrightarrow> pin_holds e slot c K (snd (assignDefaultCdpHost e' sl x s)) = pin_holds e slot c K s"
  by (simp add: assignDefaultCdpHost_def case_prod_beta [of _ "randomUUID _"] snd_outcome_simps
      pin_writeLease_other pin_holds_core [of "snd (randomUUID s)" s] split: option.splits)

lemma pin_remove_other:
  "e' \<noteq> e \<Longrightarrow> pin_holds e slot c K (removeLease l e' s) = pin_holds e slot c K s"
  by (rule pin_holds_cong) simp_all

lemmas pin_holds_simps [simp] =
  lease_core_stopRoute [THEN pin_holds_core] lease_core_emitChange [THEN pin_holds_core]
  lease_core_basic [THEN pin_holds_core] lease_core_upd [THEN pin_holds_core]
  lease_core_stop [THEN pin_holds_core] lease_core_commit [THEN pin_holds_core]
  lease_core_reports [THEN pin_holds_core] lease_core_report_view [THEN pin_holds_core]
  lease_core_supervise [THEN pin_holds_core] lease_core_superviseEnd [THEN pin_holds_core]

lemma pin_acquire:
  assumes "pin_holds e slot c K s" and "e' \<noteq> e \<or> lr_clientSessionId req \<noteq> c \<or> lr_slotId req = slot \<and> lr_connectionId req \<in> K"
  shows "pin_holds e slot c K (snd (acquire e' req s))"
proof (cases "e' = e")
  case False
  then show ?thesis
    using assms by (simp add: acquire_def pin_writeLease_other split: sum.splits option.splits)
next
  case True
  obtain l where l: "map_of (pc_leases s) e = Some l" "l_slotId l = slot" "l_clientSessionId l = c"
    using assms(1) by (auto simp: pin_holds_def)
  have "pin_holds e slot c K (snd (writeLease e req Acquired False s))"
    if same: "l_clientSessionId l = lr_clientSessionId req"
  proof (cases "fst (writeLease e req Acquired False s)")
    case (Inl x)
    then show ?thesis using assms(1) by (simp add: writeLease_Inl)
  next
    case (Inr lv)
    obtain l' v where lv: "lv = (l', v)" by fastforce
    have req: "lr_slotId req = slot" "lr_connectionId req \<in> K" using assms(2) True same l(3) by auto
    show ?thesis
      using writeLease_ok [OF Inr [unfolded lv]] assms(1) req same l(3)
      by (auto simp: pin_holds_def fresh_lease_def)
  qed
  then show ?thesis
    using assms(1) l True by (auto simp: acquire_def split: sum.splits)
qed

lemma pin_takeOver: "e' \<noteq> e \<Longrightarrow> pin_holds e slot c K (snd (takeOver e' req s)) = pin_holds e slot c K s"
  by (simp add: takeOver_def Let_def pin_writeLease_other split: sum.splits option.splits)

lemma pin_release: "pin_holds e slot c K s \<Longrightarrow> pin_holds e slot c K (snd (release e' conn r s))"
proof (cases "e' = e")
  case True
  moreover assume "pin_holds e slot c K s"
  ultimately show ?thesis
    by (auto simp: release_def release_lease_def pin_holds_def split: sum.splits)
next
  case False
  moreover assume "pin_holds e slot c K s"
  ultimately show ?thesis
    by (simp add: release_def release_lease_def Let_def pin_assign_other pin_remove_other
        split: sum.splits option.splits)
qed

lemma pin_unload:
  assumes "pin_holds e slot c K s" and "leases_ok s"
  shows "pin_holds e slot c K (snd (unloadSlot sl s))"
proof (cases "sl = slot")
  case True
  then show ?thesis
    using assms(1) by (auto simp: unloadSlot_def pin_holds_def split: sum.splits)
next
  case False
  have "e' \<noteq> e" if "find (\<lambda>(e, l). l_slotId l = sl) (pc_leases s) = Some (e', l)" for e' l
    using find_SomeD [OF that] assms False by (auto simp: pin_holds_def leases_ok_def jget_mem)
  then show ?thesis
    using assms(1) by (simp add: unloadSlot_def pin_remove_other split: sum.splits option.splits prod.splits)
qed

lemma pin_retire:
  assumes "pin_holds e slot c K s" and "e' \<noteq> e"
  shows "pin_holds e slot c K (retireRuntimeEntity e' s)"
  unfolding retireRuntimeEntity_def Let_def
  using assms by (auto intro!: fold_inv_rule [where I = "pin_holds e slot c K"]
      simp: stop_entity_attempt_def pin_remove_other split: option.splits)

lemma pin_restamp:
  assumes "pin_holds e slot c K s" and "leases_ok s" and "slot \<in> set kept"
  shows "pin_holds e slot c K (restampSlotKeepLoaded sl keep (s\<lparr>pc_keptLoadedSlots := kept\<rparr>))"
proof -
  have wf: "jwf (pc_leases (s\<lparr>pc_keptLoadedSlots := kept\<rparr>))" using assms(2) by (simp add: leases_ok_def)
  from restamp_fold [OF wf, of sl keep "s\<lparr>pc_keptLoadedSlots := kept\<rparr>" e] show ?thesis
    using assms(1,3) by (auto simp: pin_holds_def restampSlotKeepLoaded_def)
qed

lemma pin_pins:
  "pin_holds e slot c K s \<Longrightarrow> leases_ok s \<Longrightarrow> pin_holds e slot c K (snd (pinSlotLoaded sl s))"
  "pin_holds e slot c K s \<Longrightarrow> leases_ok s \<Longrightarrow> sl \<noteq> slot \<Longrightarrow> pin_holds e slot c K (snd (unpinSlotLoaded sl s))"
  by (auto simp: pinSlotLoaded_def unpinSlotLoaded_def pin_holds_def [of _ _ _ _ s] intro!: pin_restamp
      split: sum.splits)

lemma pin_connected: "pin_holds e slot c K s \<Longrightarrow> pin_holds e slot c K (mark_connected e' conn s)"
proof -
  assume p: "pin_holds e slot c K s"
  have put: "pin_holds e slot c K (u\<lparr>pc_leases := jset e' (l\<lparr>l_expiresAt := None\<rparr>) (pc_leases u)\<rparr>)"
    if "lease_core u = lease_core s" "map_of (pc_leases s) e' = Some l" for u l
    using p that(2) by (auto simp: pin_holds_def lease_coreD [OF that(1)])
  show ?thesis
    by (auto simp: mark_connected_def Let_def p put split: option.splits)
qed

lemma pin_disconnected: "pin_holds e slot c K s \<Longrightarrow> pin_holds e slot c K (mark_disconnected e' conn s)"
proof -
  assume p: "pin_holds e slot c K s"
  have put: "pin_holds e slot c K (u\<lparr>pc_leases := jset e' (l\<lparr>l_expiresAt := x\<rparr>) (pc_leases s)\<rparr>)"
    if "lease_core u = lease_core s" "map_of (pc_leases s) e' = Some l" for u l x
    using p that(2) by (auto simp: pin_holds_def lease_coreD [OF that(1)])
  show ?thesis
    by (simp add: mark_disconnected_def Let_def p put split: option.splits)
qed

lemma pin_adopt: "pin_holds e slot c K s \<Longrightarrow> pin_holds e slot c K (snd (adoptHostLeaseForSlot sl e' h s))"
proof (cases "e' = e")
  case True
  moreover assume "pin_holds e slot c K s"
  ultimately show ?thesis by (auto simp: adoptHostLeaseForSlot_def pin_holds_def [of _ _ _ _ s] split: sum.splits)
next
  case False
  moreover assume "pin_holds e slot c K s"
  ultimately show ?thesis
    by (simp add: adoptHostLeaseForSlot_def Let_def case_prod_beta [of _ "randomUUID _"] snd_outcome_simps
        pin_writeLease_other pin_holds_core [of "snd (randomUUID s)" s] split: sum.splits option.splits)
qed

lemma pin_reassign:
  "pin_holds e slot c K s \<Longrightarrow> list_all (\<lambda>r. fst r \<noteq> e) rs \<Longrightarrow> pin_holds e slot c K (snd (reassign_released rs s))"
proof (induction rs s rule: reassign_released.induct)
  case (2 entity l was rest s)
  obtain x s' where a: "assignDefaultCdpHost entity (l_slotId l) (Some (l_hostConnectionId l)) s = (x, s')" by fastforce
  have "pin_holds e slot c K s'"
    using pin_assign_other [of entity e slot c K "l_slotId l" "Some (l_hostConnectionId l)" s] 2(3,4) a by simp
  then show ?case using 2 a by (auto split: sum.splits)
qed simp

lemma released_others:
  "list_all (\<lambda>(e', l). l_clientSessionId l \<in> set ids \<longrightarrow> e' \<noteq> e) ls \<Longrightarrow> list_all (\<lambda>r. fst r \<noteq> e) (snd q) \<Longrightarrow>
     list_all (\<lambda>r. fst r \<noteq> e) (snd (fold (release_retired ids) ls q))"
proof (induction ls arbitrary: q)
  case (Cons p ls)
  have "list_all (\<lambda>r. fst r \<noteq> e) (snd (release_retired ids p q))"
    using Cons.prems by (cases p; cases q) (auto simp: release_retired_def Let_def)
  then show ?case using Cons.IH Cons.prems by simp
qed simp

lemma pin_unregister:
  assumes "pin_holds e slot c K s" and "leases_ok s" and "c' \<noteq> c"
  shows "pin_holds e slot c K (snd (unregisterClient c' s))"
proof -
  let ?s = "s\<lparr>pc_clients := filter (\<lambda>p. fst p \<notin> set [c']) (pc_clients s)\<rparr>"
  let ?q = "fold (release_retired [c']) (pc_leases s) (?s, [])"
  have wf: "jwf (pc_leases s)" using assms(2) by (simp add: leases_ok_def)
  obtain l where l: "map_of (pc_leases s) e = Some l" "l_clientSessionId l = c" using assms(1) by (auto simp: pin_holds_def)
  have "pin_holds e slot c K (fst ?q)"
    using release_retired_fold [OF wf, of "[c']" "(?s, [])" e] l assms(1,3) by (auto simp: pin_holds_def)
  moreover have "list_all (\<lambda>(e', l). l_clientSessionId l \<in> set [c'] \<longrightarrow> e' \<noteq> e) (pc_leases s)"
    using l assms(3) jget_mem [OF wf] by (fastforce simp: list_all_iff)
  then have "list_all (\<lambda>r. fst r \<noteq> e) (snd ?q)" using released_others [of "[c']" e "pc_leases s" "(?s, [])"] by simp
  ultimately show ?thesis
    using pin_reassign by (simp add: unregisterClient_def unregisterClients_def Let_def case_prod_beta)
qed

lemma pin_commitAttempt: "pin_holds e slot c K (snd (commitAttempt sl inp s)) = pin_holds e slot c K s"
  by (simp add: commitAttempt_def case_prod_beta split: sum.splits)

lemma pin_others:
  "pin_holds e slot c K (snd (holdEntityForHost h s)) = pin_holds e slot c K s"
  "pin_holds e slot c K (setCloseConnection s) = pin_holds e slot c K s"
  "pin_holds e slot c K (snd (ensureAttemptForSlot sl e' s)) = pin_holds e slot c K s"
  by (simp_all add: holdEntityForHost_def setCloseConnection_def ensureAttemptForSlot_def Let_def pin_commitAttempt
      split: sum.splits option.splits)

lemma pin_unforced: "unforced e slot c K s t \<Longrightarrow> leases_ok s \<Longrightarrow> pin_holds e slot c K s \<Longrightarrow> pin_holds e slot c K t"
proof (induction rule: unforced.induct)
  case (u_register reg s)
  then show ?case by (auto simp: pin_holds_def registerClient_def Let_def)
qed (auto simp: commitAttempt_def setBuildState_def reportView_def expire_def Let_def case_prod_beta
      markConnected_def markDisconnected_def pin_takeOver pin_others
    intro: pin_adopt pin_unregister pin_acquire pin_release pin_unload pin_retire pin_pins pin_connected pin_disconnected
    split: sum.splits)

lemma pin_unforced_run:
  "unforced_run e slot c K s t \<Longrightarrow> coord_reachable s \<Longrightarrow> pin_holds e slot c K s \<Longrightarrow> coord_reachable t \<and> pin_holds e slot c K t"
  by (induction rule: unforced_run.induct)
    (auto intro: coord_next unforced_coord_step pin_unforced coord_reachable_leases_ok)

subsection \<open>Operations that leave host-held runtimes and the close callback alone\<close>

definition host_side :: "coord \<Rightarrow> (string, held_entity) jsmap \<times> bool" where
  "host_side s = (pc_hostHeld s, pc_closeSet s)"

lemma host_sideD:
  "host_side t = host_side s \<Longrightarrow> pc_hostHeld t = pc_hostHeld s"
  "host_side t = host_side s \<Longrightarrow> pc_closeSet t = pc_closeSet s"
  by (simp_all add: host_side_def)

lemma host_side_basic [simp]:
  "host_side (nextSlotObservationVersion slot s) = host_side s"
  "host_side (emitSlotObservationChanged slot s) = host_side s"
  "host_side (emitAttemptChanged i s) = host_side s"
  "host_side (closeLeaseConnection e c why s) = host_side s"
  "host_side (detachRoute c s) = host_side s"
  "host_side (stopSupervision i s) = host_side s"
  "host_side (ensureSupervision a s) = host_side s"
  "host_side (updateAttempt a f s) = host_side s"
  "host_side (evict_attempt slot i s) = host_side s"
  "host_side (snd (randomUUID s)) = host_side s"
  "host_side (vacate_route p e c s) = host_side s"
  "host_side (clearExpiry e s) = host_side s"
  "host_side (out x s) = host_side s"
  by (simp_all add: host_side_def out_def nextSlotObservationVersion_def emitSlotObservationChanged_def
      emitAttemptChanged_def closeLeaseConnection_def detachRoute_def stopSupervision_def
      startSupervision_def resetSupervisionProgress_def ensureSupervision_def updateAttempt_def
      evict_attempt_def randomUUID_def vacate_route_def clearExpiry_def Let_def split: option.splits)

lemma host_side_upd [simp]:
  "host_side (s\<lparr>pc_attempts := x1\<rparr>) = host_side s"
  "host_side (s\<lparr>pc_currentAttemptBySlot := x2\<rparr>) = host_side s"
  "host_side (s\<lparr>pc_terminalHistoryBySlot := x3\<rparr>) = host_side s"
  "host_side (s\<lparr>pc_routeBindings := x4\<rparr>) = host_side s"
  "host_side (s\<lparr>pc_routeReachability := x5\<rparr>) = host_side s"
  "host_side (s\<lparr>pc_buildStates := x6\<rparr>) = host_side s"
  "host_side (s\<lparr>pc_leases := x7\<rparr>) = host_side s"
  "host_side (s\<lparr>pc_counter := x8\<rparr>) = host_side s"
  "host_side (s\<lparr>pc_defaultCdpLeaseConnections := x9\<rparr>) = host_side s"
  by (simp_all add: host_side_def)

lemma host_side_detach_superseded [simp]: "host_side (detach_superseded a keep s) = host_side s"
  unfolding detach_superseded_def
  by (rule fold_inv_rule [where I = "\<lambda>u. host_side u = host_side s"])
    (auto simp: Let_def split: prod.splits)

lemma host_side_evict_all [simp]: "host_side (fold (evict_attempt slot) is s) = host_side s"
  by (induction "is" arbitrary: s) simp_all

lemma host_side_ops [simp]:
  "host_side (transitionAttempt a r s) = host_side s"
  "host_side (rememberTerminal a s) = host_side s"
  by (simp_all add: transitionAttempt_def rememberTerminal_def Let_def)

lemma host_side_stop [simp]:
  "host_side (snd (stopAttempt i r s)) = host_side s"
  "host_side (supersede slot keep s) = host_side s"
  by (simp_all add: stopAttempt_def supersede_def Let_def split: option.splits)

lemma host_side_commit [simp]: "host_side (snd (commit_attempt slot inp s)) = host_side s"
  by (simp add: commit_attempt_def Let_def case_prod_beta split: option.splits)

lemma host_side_route [simp]:
  "host_side (stopRouteAttempt l r c s) = host_side s"
  "host_side (bind_route slot l sr hp s) = host_side s"
  "host_side (snd (emitChange e slot p n why s)) = host_side s"
  by (simp_all add: stopRouteAttempt_def bind_route_def emitChange_def Let_def
      split: option.splits)

lemma host_side_writeLease [simp]: "host_side (snd (writeLease e inp r d s)) = host_side s"
  by (simp add: writeLease_def Let_def case_prod_beta split: option.splits sum.splits)

lemma host_side_takeOver [simp]: "host_side (snd (takeOver e inp s)) = host_side s"
  by (simp add: takeOver_def Let_def split: sum.splits option.splits)

section \<open>Properties\<close>

text \<open>
  C22. A pinned panel is not unloaded behind the automation's back. In every reachable state a
  lease carries \<open>keepLoaded\<close> exactly when its slot is pinned. From a state where the slot is pinned and entity
  \<open>e\<close> is leased there to a client session, let any steps follow but the explicit ones: taking \<open>e\<close> over, retiring \<open>e\<close>,
  unregistering its session or the clients of a caller, assigning a default host to a slot, moving a slot to
  another entity, unpinning the slot, and acquisitions of \<open>e\<close> by its own session for another slot or for a
  connection outside \<open>K\<close>. Then \<open>e\<close> is still leased in the slot to the same session, marked \<open>keepLoaded\<close>,
  and on its connection or one of \<open>K\<close>: without further acquisitions of its own session it keeps
  its connection, whatever was released, unloaded, disconnected or expired, and whoever else asked for it.
\<close>

theorem pinned_lease_survives:
  assumes "coord_reachable s" and "map_of (pc_leases s) e = Some l"
    and "l_slotId l \<in> set (pc_keptLoadedSlots s)"
    and "unforced_run e (l_slotId l) (l_clientSessionId l) (insert (l_connectionId l) K) s t"
  shows "keeps_loaded l \<and> (\<exists>l'. map_of (pc_leases t) e = Some l' \<and> l_slotId l' = l_slotId l \<and>
    l_clientSessionId l' = l_clientSessionId l \<and> l_runtimeEntityId l' = e \<and> keeps_loaded l' \<and>
    l_connectionId l' \<in> insert (l_connectionId l) K)"
proof -
  have "pin_holds e (l_slotId l) (l_clientSessionId l) (insert (l_connectionId l) K) s"
    using assms(2,3) by (simp add: pin_holds_def)
  then have t: "coord_reachable t" "pin_holds e (l_slotId l) (l_clientSessionId l) (insert (l_connectionId l) K) t"
    using pin_unforced_run [OF assms(4,1)] by simp_all
  then obtain l' where l': "map_of (pc_leases t) e = Some l'" "l_slotId l' = l_slotId l"
      "l_clientSessionId l' = l_clientSessionId l" "l_slotId l \<in> set (pc_keptLoadedSlots t)"
      "l_connectionId l' \<in> insert (l_connectionId l) K"
    by (auto simp: pin_holds_def)
  have "lease_ok s e l" "lease_ok t e l'"
    using leases_okD [OF coord_reachable_leases_ok] assms(1,2) t(1) l'(1) by blast+
  then show ?thesis
    using l' assms(3) by (simp add: lease_ok_def)
qed

text \<open>An instance: a desktop client, a panel it holds, and a pin on its slot.\<close>

definition desktop_registration :: "string \<Rightarrow> host_registration" where
  "desktop_registration c = \<lparr>hr_clientSessionId = c, hr_hostConnectionId = None, hr_ownerCallerId = None,
     hr_label = ''Desk'', hr_platform = Desktop, hr_supportsCdp = None, hr_loadOnLeaseAssignment = None\<rparr>"

definition lease_req :: "string \<Rightarrow> string \<Rightarrow> lease_request" where
  "lease_req client conn = \<lparr>lr_slotId = ''panel:tree/a'', lr_clientSessionId = client,
     lr_connectionId = conn, lr_hostConnectionId = None\<rparr>"

definition coord2 :: coord where
  "coord2 = snd (acquire ''panel:nav-1'' (lease_req ''desk'' ''k1'')
     (registerClient (desktop_registration ''desk'') (setCloseConnection coord0)))"

lemma coord2_reachable: "coord_reachable coord2"
  unfolding coord2_def
  by (rule coord_next [OF coord_next [OF coord_next [OF coord0_reachable c_close] c_register] c_acquire])

definition lease2 :: "string \<Rightarrow> string \<Rightarrow> bool \<Rightarrow> runtime_lease" where
  "lease2 client conn keep = \<lparr>l_slotId = ''panel:tree/a'', l_runtimeEntityId = ''panel:nav-1'',
     l_clientSessionId = client, l_hostConnectionId = client, l_connectionId = conn,
     l_holderLabel = ''Desk'', l_platform = Desktop, l_supportsCdp = True,
     l_loadOnLeaseAssignment = False, l_keepLoaded = Some keep, l_acquiredAt = 0, l_expiresAt = None\<rparr>"

lemma writeLease_total:
  "map_of (pc_clients s) (lr_clientSessionId inp) \<noteq> None \<Longrightarrow> isPanelSlotId (lr_slotId inp) \<Longrightarrow>
   \<exists>l v. fst (writeLease e inp r d s) = Inr (l, v)"
  by (auto simp: writeLease_def Let_def case_prod_beta)

definition coord_desk :: coord where
  "coord_desk = registerClient (desktop_registration ''desk'') (setCloseConnection coord0)"

lemma coord_desk_state:
  "pc_leases coord_desk = []" "pc_keptLoadedSlots coord_desk = []" "pc_closeSet coord_desk"
  "pc_hostHeld coord_desk = []" "pc_clock coord_desk = 0"
  "map_of (pc_clients coord_desk) ''desk'' = Some
     \<lparr>cs_clientSessionId = ''desk'', cs_hostConnectionId = Some ''desk'', cs_ownerCallerId = None,
      cs_label = ''Desk'', cs_platform = Desktop, cs_supportsCdp = Some True,
      cs_loadOnLeaseAssignment = Some False, cs_connectedAt = 0, cs_lastSeenAt = 0\<rparr>"
  by (simp_all add: coord_desk_def registerClient_def desktop_registration_def setCloseConnection_def
      coord0_def new_coord_def Let_def)

lemma sample_ids [simp]: "isPanelSlotId ''panel:tree/a''" "isPanelEntityId ''panel:nav-1''"
  by (simp_all add: isPanelSlotId_def isPanelEntityId_def startsWith_def PANEL_SLOT_PREFIX_def
      PANEL_ENTITY_PREFIX_def)

lemma coord2_eq: "coord2 = snd (writeLease ''panel:nav-1'' (lease_req ''desk'' ''k1'') Acquired False coord_desk)"
  by (simp add: coord2_def coord_desk_def [symmetric] acquire_def coord_desk_state)

lemma coord2_state:
  "pc_leases coord2 = [(''panel:nav-1'', lease2 ''desk'' ''k1'' False)]"
  "pc_keptLoadedSlots coord2 = []" "pc_closeSet coord2" "pc_hostHeld coord2 = []"
  "pc_clients coord2 = pc_clients coord_desk"
proof -
  let ?w = "writeLease ''panel:nav-1'' (lease_req ''desk'' ''k1'') Acquired False coord_desk"
  obtain l v where w: "fst ?w = Inr (l, v)"
    using writeLease_total [of coord_desk "lease_req ''desk'' ''k1''" "''panel:nav-1''" Acquired False]
    by (auto simp: lease_req_def coord_desk_state)
  show "pc_leases coord2 = [(''panel:nav-1'', lease2 ''desk'' ''k1'' False)]"
    "pc_keptLoadedSlots coord2 = []" "pc_clients coord2 = pc_clients coord_desk"
    using writeLease_ok [OF w]
    by (simp_all add: coord2_eq coord_desk_state lease_req_def fresh_lease_def lease2_def)
  show "pc_closeSet coord2" "pc_hostHeld coord2 = []"
    using host_sideD [OF host_side_writeLease, of "''panel:nav-1''" "lease_req ''desk'' ''k1''" Acquired False coord_desk]
    by (simp_all add: coord2_eq coord_desk_state)
qed

definition coord3 :: coord where
  "coord3 = snd (pinSlotLoaded ''panel:tree/a'' coord2)"

lemma coord3_reachable: "coord_reachable coord3"
  unfolding coord3_def by (rule coord_next [OF coord2_reachable c_pin])

lemma coord3_state:
  "pc_leases coord3 = [(''panel:nav-1'', lease2 ''desk'' ''k1'' True)]"
  "pc_keptLoadedSlots coord3 = [''panel:tree/a'']"
  by (simp_all add: coord3_def pinSlotLoaded_def restampSlotKeepLoaded_def restamp_def coord2_state
      lease2_def keeps_loaded_def set_add_def Let_def asPanelSlotId_def startsWith_def
      PANEL_SLOT_PREFIX_def emitChange_def emitSlotObservationChanged_def out_def
      nextSlotObservationVersion_def)

theorem pinned_lease_survives_witness:
  "keeps_loaded (lease2 ''desk'' ''k1'' True) \<and>
   (\<exists>l'. map_of (pc_leases (snd (unloadSlot ''panel:tree/a'' (snd (release ''panel:nav-1'' ''k1'' Released coord3)))))
      ''panel:nav-1'' = Some l' \<and> l_slotId l' = l_slotId (lease2 ''desk'' ''k1'' True) \<and>
      l_clientSessionId l' = l_clientSessionId (lease2 ''desk'' ''k1'' True) \<and>
      l_runtimeEntityId l' = ''panel:nav-1'' \<and> keeps_loaded l' \<and>
      l_connectionId l' \<in> insert (l_connectionId (lease2 ''desk'' ''k1'' True)) {})"
  by (rule pinned_lease_survives [OF coord3_reachable])
    (auto simp: coord3_state lease2_def intro: unforced_step [OF unforced_step [OF unforced_refl u_release] u_unload])

subsection \<open>The route of a written lease\<close>

definition unbound :: "string \<Rightarrow> coord \<Rightarrow> bool" where
  "unbound c s \<longleftrightarrow> map_of (pc_routeBindings s) c = None"

text \<open>The connection is bound to the current attempt of the slot, which is one of the entity.\<close>

definition routed :: "string \<Rightarrow> string \<Rightarrow> string \<Rightarrow> coord \<Rightarrow> bool" where
  "routed c slot e s \<longleftrightarrow> (\<exists>i a. map_of (pc_routeBindings s) c = Some i \<and>
     map_of (pc_currentAttemptBySlot s) slot = Some i \<and> map_of (pc_attempts s) i = Some a \<and>
     pa_runtimeEntityId a = e \<and> \<not> terminal (pa_phase a))"

lemma routes_emits [simp]:
  "pc_routeBindings (emitSlotObservationChanged sl s) = pc_routeBindings s"
  "pc_routeBindings (emitAttemptChanged i s) = pc_routeBindings s"
  "pc_routeBindings (nextSlotObservationVersion sl s) = pc_routeBindings s"
  "pc_routeBindings (closeLeaseConnection e c r s) = pc_routeBindings s"
  "pc_routeBindings (stopSupervision i s) = pc_routeBindings s"
  "pc_routeBindings (ensureSupervision a s) = pc_routeBindings s"
  "pc_routeBindings (snd (emitChange e sl p n w s)) = pc_routeBindings s"
  by (simp_all add: emitSlotObservationChanged_def emitAttemptChanged_def nextSlotObservationVersion_def
      closeLeaseConnection_def stopSupervision_def ensureSupervision_def startSupervision_def
      resetSupervisionProgress_def emitChange_def out_def Let_def split: option.splits)

lemma routes_transition [simp]: "pc_routeBindings (transitionAttempt a r s) = pc_routeBindings s"
  by (simp add: transitionAttempt_def Let_def)

lemma routes_evict [simp]: "pc_routeBindings (evict_attempt slot i s) = pc_routeBindings s"
  by (simp add: evict_attempt_def)

lemma routes_remember [simp]: "pc_routeBindings (rememberTerminal a s) = pc_routeBindings s"
proof -
  have "pc_routeBindings (fold (evict_attempt slot) is t) = pc_routeBindings t" for slot "is" t
    by (induction "is" arbitrary: t) simp_all
  then show ?thesis by (simp add: rememberTerminal_def Let_def)
qed

lemma unbound_frame: "pc_routeBindings t = pc_routeBindings s \<Longrightarrow> unbound c t = unbound c s"
  by (simp add: unbound_def)

lemma unbound_detach [simp]: "unbound c (detachRoute c' s) \<longleftrightarrow> c = c' \<or> unbound c s"
  by (auto simp: unbound_def detachRoute_def)

lemma unbound_superseded: "unbound c s \<Longrightarrow> unbound c (detach_superseded p k s)"
  unfolding detach_superseded_def
proof (rule fold_inv_rule)
  fix x t
  assume "unbound c t"
  then show "unbound c ((case x of (conn, bound) \<Rightarrow> \<lambda>s. if bound \<noteq> pa_attemptId p then s
      else (let s = detachRoute conn s in if Some conn = k then s
        else closeLeaseConnection (pa_runtimeEntityId p) conn Superseded s)) t)"
    by (cases x) (simp add: Let_def unbound_frame [of "closeLeaseConnection _ _ _ (detachRoute _ t)" "detachRoute _ t"])
qed

lemma unbound_supersede: "unbound c s \<Longrightarrow> unbound c (supersede slot k s)"
proof -
  assume c: "unbound c s"
  have "unbound c (detach_superseded p k (if x then transitionAttempt p r s else s))" for p x r
    using c by (intro unbound_superseded) (simp add: unbound_def)
  then show ?thesis
    using c by (simp add: supersede_def unbound_def Let_def split: option.splits)
qed

lemma unbound_commit:
  assumes "unbound c s" and "ai_connectionId inp \<noteq> Some c"
  shows "unbound c (snd (commit_attempt slot inp s))"
  using unbound_supersede [OF assms(1), of slot "ai_connectionId inp"] assms(2)
  by (simp add: commit_attempt_def randomUUID_def Let_def unbound_def split: option.splits) auto

lemma unbound_bind_route:
  assumes "unbound c s" and "c \<noteq> l_connectionId l"
  shows "unbound c (bind_route slot l same had s)"
proof (cases "reusesCurrentMaterialization (currentAttempt slot s) (l_runtimeEntityId l) same had")
  case True
  then show ?thesis using assms by (simp add: bind_route_def Let_def unbound_def updateAttempt_def)
next
  case False
  then show ?thesis using assms by (simp add: bind_route_def unbound_commit)
qed

lemma bind_route_routed:
  assumes "coord_ok s" and "l_connectionId l \<noteq> []"
  shows "routed (l_connectionId l) slot (l_runtimeEntityId l) (bind_route slot l same had s)"
proof (cases "reusesCurrentMaterialization (currentAttempt slot s) (l_runtimeEntityId l) same had")
  case True
  then obtain a where a: "currentAttempt slot s = Some a" "pa_runtimeEntityId a = l_runtimeEntityId l"
      "\<not> terminal (pa_phase a)"
    by (auto simp: reusesCurrentMaterialization_def terminal_def split: option.splits)
  then obtain i where i: "map_of (pc_currentAttemptBySlot s) slot = Some i" "map_of (pc_attempts s) i = Some a"
    by (auto simp: currentAttempt_def bind_eq_Some_conv)
  have "pa_attemptId a = i" using stored_id [OF assms(1) i(2)] .
  then show ?thesis
    using a i True by (auto simp: bind_route_def routed_def updateAttempt_def Let_def)
next
  case False
  have "pc_attempts (emitSlotObservationChanged sl (nextSlotObservationVersion sl t)) = pc_attempts t"
    "pc_currentAttemptBySlot (emitSlotObservationChanged sl (nextSlotObservationVersion sl t)) = pc_currentAttemptBySlot t"
    for sl t by (simp_all add: emitSlotObservationChanged_def nextSlotObservationVersion_def out_def)
  then show ?thesis
    using False assms(2)
    by (simp add: bind_route_def routed_def commit_attempt_def randomUUID_def if_truthy_def Let_def terminal_def)
qed

lemma routed_emitChange [simp]: "routed c slot e (snd (emitChange e' sl p n w s)) = routed c slot e s"
  by (simp add: routed_def emitChange_def Let_def emitSlotObservationChanged_def nextSlotObservationVersion_def out_def)

lemma writeLease_route:
  assumes "fst (writeLease e inp r d s) = Inr (l, v)" and "coord_ok s"
  shows "lr_connectionId inp \<noteq> [] \<Longrightarrow> routed (lr_connectionId inp) (lr_slotId inp) e (snd (writeLease e inp r d s))"
    and "c \<noteq> lr_connectionId inp \<Longrightarrow>
      unbound c s \<or> (\<exists>p. map_of (pc_leases s) e = Some p \<and> l_connectionId p = c) \<Longrightarrow>
      unbound c (snd (writeLease e inp r d s))"
proof -
  obtain cl where cl: "map_of (pc_clients s) (lr_clientSessionId inp) = Some cl" "isPanelSlotId (lr_slotId inp)"
    using writeLease_ok [OF assms(1)] by blast
  define s3 where "s3 = vacate_route (map_of (pc_leases s) e) e (lr_connectionId inp) s"
  define x where "x = fresh_lease (lr_slotId inp) e cl inp s3"
  define s4 where "s4 = s3\<lparr>pc_leases := jset e x (pc_leases s3)\<rparr>"
  define s5 where "s5 = (if d then s4\<lparr>pc_defaultCdpLeaseConnections :=
      set_add (l_connectionId x) (pc_defaultCdpLeaseConnections s4)\<rparr> else s4)"
  define sm where "sm = (map_option l_connectionId (map_of (pc_leases s) e) = Some (lr_connectionId inp))"
  have w: "snd (writeLease e inp r d s) = snd (emitChange e (lr_slotId inp) (map_of (pc_leases s) e) (Some x) r
      (bind_route (lr_slotId inp) x sm (map_of (pc_leases s) e \<noteq> None) s5))"
    using cl by (simp add: writeLease_def asPanelSlotId_def isPanelSlotId_def Let_def case_prod_beta s3_def x_def s4_def s5_def sm_def)
  have conn: "l_connectionId x = lr_connectionId inp" "l_runtimeEntityId x = e"
    by (simp_all add: x_def fresh_lease_def)
  have "core s3 = core s" by (simp add: s3_def vacate_route_def Let_def split: option.splits)
  then have "core s5 = core s" by (simp add: s4_def s5_def)
  then have ok: "coord_ok s5" using good_ok [OF good_core assms(2)] by simp
  show "routed (lr_connectionId inp) (lr_slotId inp) e (snd (writeLease e inp r d s))" if "lr_connectionId inp \<noteq> []"
    using bind_route_routed [OF ok, of x] that conn by (simp add: w)
  assume c: "c \<noteq> lr_connectionId inp"
    "unbound c s \<or> (\<exists>p. map_of (pc_leases s) e = Some p \<and> l_connectionId p = c)"
  then have "unbound c s3"
    by (auto simp: s3_def vacate_route_def Let_def clearExpiry_def unbound_frame [of "s\<lparr>pc_expiryTimers := _\<rparr>" s]
        unbound_frame [of "_\<lparr>pc_defaultCdpLeaseConnections := _\<rparr>"] split: option.splits)
  then have "unbound c s5" by (simp add: s4_def s5_def unbound_def)
  then show "unbound c (snd (writeLease e inp r d s))"
    using unbound_bind_route [of c s5 x] c(1) conn by (simp add: w unbound_def)
qed

lemma authorized_unique:
  assumes "authorizePanelConnection e c a s = Inr Allowed" and "authorizePanelConnection e c' a' s = Inr Allowed"
  shows "c = c'"
  using assms by (auto simp: authorizePanelConnection_def split: sum.splits option.splits if_splits)

lemma takeOver_ok:
  assumes "fst (takeOver e req s) = Inr r"
  shows "isPanelEntityId e \<and> map_of (pc_leases (snd (takeOver e req s))) e = Some (ar_lease r) \<and>
    l_connectionId (ar_lease r) = lr_connectionId req \<and> l_runtimeEntityId (ar_lease r) = e \<and>
    l_clientSessionId (ar_lease r) = lr_clientSessionId req"
proof -
  have e: "isPanelEntityId e" using assms by (auto simp: takeOver_def split: sum.splits)
  define u where "u = (case map_of (pc_leases s) e of
      None \<Rightarrow> s
    | Some existing \<Rightarrow> if l_connectionId existing \<noteq> lr_connectionId req
        then snd (emitChange e (l_slotId existing) (Some existing) None Revoked
                (stopRouteAttempt existing Superseded True s)) else s)"
  have eq: "takeOver e req s = written (writeLease e req Acquired False u)"
    using e by (simp add: takeOver_def Let_def u_def)
  then obtain l v where w: "fst (writeLease e req Acquired False u) = Inr (l, v)" "ar_lease r = l"
    using assms by (auto simp: written_def split: prod.splits sum.splits)
  show ?thesis
    using writeLease_ok [OF w(1)] w(2) e eq by (auto simp: fresh_lease_def)
qed

lemma closed_by_stopRoute:
  assumes "pc_closeSet s"
  shows "ClosedConnection (l_runtimeEntityId l) (l_connectionId l)
     (fst (STOP_CLOSE r)) (snd (STOP_CLOSE r)) \<in> set (pc_log (stopRouteAttempt l r True s))"
proof -
  have closeSet: "pc_closeSet (detachRoute (l_connectionId l) (snd (stopAttempt i r s)))"
    "pc_closeSet (detachRoute (l_connectionId l) s)" for i
    using assms host_sideD(2) [of "detachRoute (l_connectionId l) (snd (stopAttempt i r s))" s]
      host_sideD(2) [of "detachRoute (l_connectionId l) s" s] by simp_all
  then show ?thesis
    by (simp add: stopRouteAttempt_def Let_def closeLeaseConnection_def out_def split: option.splits)
qed

lemma log_grows: "good s t \<Longrightarrow> coord_ok s \<Longrightarrow> x \<in> set (pc_log s) \<Longrightarrow> x \<in> set (pc_log t)"
  by (auto simp: good_def evolves_def)

lemma takeOver_ok_state:
  assumes "fst (takeOver e req s) = Inr r"
  obtains u l v where "takeOver e req s = written (writeLease e req Acquired False u)"
    "fst (writeLease e req Acquired False u) = Inr (l, v)" "pc_leases u = pc_leases s" "good s u"
    "\<And>p. map_of (pc_leases s) e = Some p \<Longrightarrow> l_connectionId p \<noteq> lr_connectionId req \<Longrightarrow> unbound (l_connectionId p) u"
proof -
  have e: "isPanelEntityId e" using assms by (auto simp: takeOver_def split: sum.splits)
  define u where "u = (case map_of (pc_leases s) e of
      None \<Rightarrow> s
    | Some existing \<Rightarrow> if l_connectionId existing \<noteq> lr_connectionId req
        then snd (emitChange e (l_slotId existing) (Some existing) None Revoked
                (stopRouteAttempt existing Superseded True s)) else s)"
  have eq: "takeOver e req s = written (writeLease e req Acquired False u)"
    using e by (simp add: takeOver_def Let_def u_def)
  moreover obtain l v where "fst (writeLease e req Acquired False u) = Inr (l, v)"
    using assms eq by (auto simp: written_def split: prod.splits sum.splits)
  moreover have "pc_leases u = pc_leases s" "good s u"
    by (simp_all add: u_def split: option.splits)
  moreover have "unbound (l_connectionId p) u"
    if "map_of (pc_leases s) e = Some p" "l_connectionId p \<noteq> lr_connectionId req" for p
    using that by (simp add: u_def unbound_def stopRouteAttempt_def detachRoute_def Let_def split: option.splits)
  ultimately show ?thesis using that by blast
qed

lemma takeOver_route:
  assumes "fst (takeOver e req s) = Inr r" and "coord_ok s"
  shows "(lr_connectionId req \<noteq> [] \<longrightarrow> routed (lr_connectionId req) (lr_slotId req) e (snd (takeOver e req s))) \<and>
    (\<forall>l. map_of (pc_leases s) e = Some l \<and> l_connectionId l \<noteq> lr_connectionId req \<longrightarrow>
      unbound (l_connectionId l) (snd (takeOver e req s)))"
proof -
  obtain u l v where u: "takeOver e req s = written (writeLease e req Acquired False u)"
    "fst (writeLease e req Acquired False u) = Inr (l, v)" "pc_leases u = pc_leases s" "good s u"
    using takeOver_ok_state [OF assms(1)] by metis
  have "snd (takeOver e req s) = snd (writeLease e req Acquired False u)"
    by (simp add: u(1) written_def split: prod.splits sum.splits)
  then show ?thesis
    using writeLease_route [OF u(2) good_ok [OF u(4) assms(2)]] u(3) by auto
qed

text \<open>
  C23. One connection at a time. In every reachable state at most one connection of a panel
  runtime is authorised. A successful take-over of a runtime that no server-side host holds
  switches it, by a registered client: afterwards the new connection is authorised and every
  other one refused; the route of the runtime resolves to the new connection, which (if its name is not
  empty) is bound to the current attempt of the slot, a live one of this runtime; and the
  connection that held the lease before is bound to nothing and has been closed with code 4091
  (where connections can be closed).
\<close>

theorem takeover_switches_connection:
  assumes "coord_reachable s"
  shows "(\<forall>e c a c' a'. authorizePanelConnection e c a s = Inr Allowed \<and>
      authorizePanelConnection e c' a' s = Inr Allowed \<longrightarrow> c = c') \<and>
    (\<forall>e req r. fst (takeOver e req s) = Inr r \<and> map_of (pc_hostHeld s) e = None \<longrightarrow>
      (let t = snd (takeOver e req s); conn = lr_connectionId req in
        authorizePanelConnection e conn None t = Inr Allowed \<and>
        (\<forall>c a. c \<noteq> conn \<longrightarrow> authorizePanelConnection e c a t \<noteq> Inr Allowed) \<and>
        resolveRouteConnection e t = Some conn \<and> resolveRouteRuntimeEntityId e t = Some e \<and>
        (conn \<noteq> [] \<longrightarrow> routed conn (lr_slotId req) e t) \<and>
        (\<forall>l. map_of (pc_leases s) e = Some l \<and> l_connectionId l \<noteq> conn \<longrightarrow>
          unbound (l_connectionId l) t \<and>
          (pc_closeSet s \<longrightarrow> ClosedConnection e (l_connectionId l) 4091 ''Panel attempt superseded'' \<in> set (pc_log t)))))"
proof -
  have ok: "coord_ok s" and lok: "leases_ok s"
    using assms coord_reachable_ok coord_reachable_leases_ok by blast+
  have main: "authorizePanelConnection e (lr_connectionId req) None (snd (takeOver e req s)) = Inr Allowed \<and>
      resolveRouteConnection e (snd (takeOver e req s)) = Some (lr_connectionId req) \<and>
      resolveRouteRuntimeEntityId e (snd (takeOver e req s)) = Some e"
    if r: "fst (takeOver e req s) = Inr r" "map_of (pc_hostHeld s) e = None" for e req r
    using takeOver_ok [OF r(1)] r(2) host_sideD(1) [OF host_side_takeOver, of e req s]
    by (simp add: authorizePanelConnection_def resolveRouteConnection_def resolveRouteRuntimeEntityId_def
        resolveRouteLease_def jhas_def)
  have closed: "ClosedConnection e (l_connectionId l) 4091 ''Panel attempt superseded''
      \<in> set (pc_log (snd (takeOver e req s)))"
    if r: "fst (takeOver e req s) = Inr r" and l: "map_of (pc_leases s) e = Some l"
      "l_connectionId l \<noteq> lr_connectionId req" "pc_closeSet s" for e req r l
  proof -
    let ?u = "stopRouteAttempt l Superseded True s"
    have e: "isPanelEntityId e" "l_runtimeEntityId l = e"
      using takeOver_ok [OF r] leases_okD [OF lok l(1)] by (auto simp: lease_ok_def)
    have gu: "good s ?u" by simp
    have "good ?u (snd (takeOver e req s))"
      using e l by (simp add: takeOver_def)
    then show ?thesis
      using closed_by_stopRoute [OF l(3), of l Superseded] e(2) log_grows good_ok [OF gu ok] by auto
  qed
  show ?thesis
    unfolding Let_def using authorized_unique main closed takeOver_route [OF _ ok] by blast
qed

theorem takeover_switches_connection_witness:
  "authorizePanelConnection ''panel:nav-1'' ''k2'' None
      (snd (takeOver ''panel:nav-1'' (lease_req ''desk'' ''k2'') coord2)) = Inr Allowed \<and>
   ClosedConnection ''panel:nav-1'' ''k1'' 4091 ''Panel attempt superseded''
     \<in> set (pc_log (snd (takeOver ''panel:nav-1'' (lease_req ''desk'' ''k2'') coord2)))"
proof -
  have client: "map_of (pc_clients (snd (emitChange e sl p n w (stopRouteAttempt l r c coord2)))) ''desk'' \<noteq> None"
    for e sl p n w l r c
    by (simp add: coord2_state coord_desk_state)
  obtain r where r: "fst (takeOver ''panel:nav-1'' (lease_req ''desk'' ''k2'') coord2) = Inr r"
    using client
    by (auto simp: takeOver_def coord2_state written_def writeLease_def Let_def case_prod_beta
        asPanelEntityId_def asPanelSlotId_def startsWith_def PANEL_ENTITY_PREFIX_def
        PANEL_SLOT_PREFIX_def lease_req_def lease2_def split: option.splits)
  have held: "map_of (pc_hostHeld coord2) ''panel:nav-1'' = None"
    and l: "map_of (pc_leases coord2) ''panel:nav-1'' = Some (lease2 ''desk'' ''k1'' False)"
    by (simp_all add: coord2_state)
  show ?thesis
    using takeover_switches_connection [OF coord2_reachable, THEN conjunct2, rule_format, OF conjI, OF r held, unfolded Let_def]
      l coord2_state(3) by (simp add: lease2_def lease_req_def)
qed

end
