(* ===== verification/LeaseContracts.thy ===== *)
theory LeaseContracts
  imports LeaseLife
begin

text \<open>
  Further contracts of the coordinator's leases: unregistering clients, the choice of the
  default CDP host, the reconnect grace, and the failed take-over.
\<close>

subsection \<open>Reassignment never throws\<close>

lemma default_request_fields [simp]:
  "lr_slotId (default_request slot cl uuid) = slot"
  "lr_clientSessionId (default_request slot cl uuid) = cs_clientSessionId cl"
  by (simp_all add: default_request_def)

lemma assign_result:
  assumes "leases_ok s" and "isPanelSlotId slot"
  shows "\<exists>x. fst (assignDefaultCdpHost e slot h s) = Inr x"
proof (cases "getDefaultCdpHostClient (no_options\<lparr>op_excludedHostConnectionId := h\<rparr>) None s")
  case None
  then show ?thesis by (simp add: assignDefaultCdpHost_def)
next
  case (Some cl)
  let ?u = "snd (randomUUID s)"
  have reg: "map_of (pc_clients ?u) (cs_clientSessionId cl) \<noteq> None"
    using default_host_registered [OF assms(1) Some] by (simp add: randomUUID_def)
  obtain uuid where u: "randomUUID s = (uuid, ?u)" by (simp add: randomUUID_def)
  obtain l v where "fst (writeLease e (default_request slot cl uuid) Acquired True ?u) = Inr (l, v)"
    using writeLease_total [of ?u "default_request slot cl uuid" e Acquired True] reg assms(2)
    by auto
  then show ?thesis
    using Some u by (auto simp: assignDefaultCdpHost_def split: prod.splits)
qed

lemma assign_effect:
  "e' \<noteq> e \<Longrightarrow> map_of (pc_leases (snd (assignDefaultCdpHost e' slot h s))) e = map_of (pc_leases s) e"
  "pc_clients (snd (assignDefaultCdpHost e' slot h s)) = pc_clients s"
proof -
  have clients: "pc_clients (snd (writeLease e' inp r d t)) = pc_clients t" for inp r d t
    by (simp add: writeLease_def Let_def case_prod_beta split: option.splits sum.splits)
  show "e' \<noteq> e \<Longrightarrow> map_of (pc_leases (snd (assignDefaultCdpHost e' slot h s))) e = map_of (pc_leases s) e"
    by (simp add: assignDefaultCdpHost_def case_prod_beta [of _ "randomUUID _"] snd_outcome_simps
        writeLease_other split: option.splits)
  show "pc_clients (snd (assignDefaultCdpHost e' slot h s)) = pc_clients s"
    by (simp add: assignDefaultCdpHost_def case_prod_beta [of _ "randomUUID _"] snd_outcome_simps
        clients split: option.splits)
qed

lemma reassign_result:
  assumes "leases_ok s" and "\<forall>(e, l, was) \<in> set rs. isPanelSlotId (l_slotId l)"
  shows "fst (reassign_released rs s) = Inr () \<and>
    pc_clients (snd (reassign_released rs s)) = pc_clients s \<and>
    (e \<notin> fst ` set rs \<longrightarrow> map_of (pc_leases (snd (reassign_released rs s))) e = map_of (pc_leases s) e)"
  using assms
proof (induction rs arbitrary: s)
  case (Cons p rs)
  obtain e' l was where p: "p = (e', l, was)" by (cases p) auto
  let ?a = "assignDefaultCdpHost e' (l_slotId l) (Some (l_hostConnectionId l)) s"
  obtain x where x: "fst ?a = Inr x"
    using assign_result [OF Cons.prems(1)] Cons.prems(2) p by fastforce
  then obtain y where a: "?a = (Inr x, y)" by (cases ?a) auto
  have IH: "fst (reassign_released rs t) = Inr () \<and> pc_clients (snd (reassign_released rs t)) = pc_clients t \<and>
      (e \<notin> fst ` set rs \<longrightarrow> map_of (pc_leases (snd (reassign_released rs t))) e = map_of (pc_leases t) e)"
    if "leases_ok t" for t
    using Cons.IH [OF that] Cons.prems(2) by auto
  show ?case
  proof (cases "shouldReassignDefaultCdpLease l was")
    case True
    then have "reassign_released (p # rs) s = reassign_released rs (snd ?a)"
      by (simp add: p a)
    then show ?thesis
      using IH [OF leases_ok_assign [OF Cons.prems(1)]] assign_effect p by auto
  next
    case False
    then show ?thesis using IH [OF Cons.prems(1)] p by auto
  qed
qed simp

lemma released_list:
  "set (snd (fold (release_retired ids) ls q)) \<subseteq> set (snd q) \<union>
     {(e, l, was). (e, l) \<in> set ls \<and> l_clientSessionId l \<in> set ids}"
proof (induction ls arbitrary: q)
  case (Cons p ls)
  obtain e l where p: "p = (e, l)" by fastforce
  obtain s rel where q: "q = (s, rel)" by fastforce
  show ?case
    using Cons [of "release_retired ids p q"] by (auto simp: p q release_retired_def Let_def split: if_splits)
qed auto

lemma unregister_effect:
  assumes ok: "leases_ok s"
  shows "fst (unregisterClients ids s) = Inr ()"
    and "pc_clients (snd (unregisterClients ids s)) = filter (\<lambda>p. fst p \<notin> set ids) (pc_clients s)"
    and "map_of (pc_leases s) e = Some l \<Longrightarrow> l_clientSessionId l \<notin> set ids \<Longrightarrow>
      map_of (pc_leases (snd (unregisterClients ids s))) e = Some l"
proof -
  let ?s = "s\<lparr>pc_clients := filter (\<lambda>p. fst p \<notin> set ids) (pc_clients s)\<rparr>"
  obtain t rel where f: "fold (release_retired ids) (pc_leases s) (?s, []) = (t, rel)" by fastforce
  have eq: "unregisterClients ids s = reassign_released rel t"
    using f by (simp add: unregisterClients_def Let_def)
  have wf: "jwf (pc_leases s)" using ok by (simp add: leases_ok_def)
  note F = release_retired_fold [OF wf, of ids "(?s, [])", unfolded f fst_conv]
  have sub: "\<And>e l was. (e, l, was) \<in> set rel \<Longrightarrow> map_of (pc_leases s) e = Some l \<and> l_clientSessionId l \<in> set ids"
    using released_list [of ids "pc_leases s" "(?s, [])"] wf f by (auto simp: jget_mem)
  have slots: "\<forall>(e, l, was) \<in> set rel. isPanelSlotId (l_slotId l)"
    using sub leases_okD [OF ok] unfolding lease_ok_def by fast
  have cl: "map_of (filter (\<lambda>p. fst p \<notin> set ids) m) c = (if c \<in> set ids then None else map_of m c)"
    for m :: "(string, client_session) jsmap" and c
    by (induction m) auto
  have "lease_ok t e l" if "map_of (pc_leases t) e = Some l" for e l
  proof -
    have l: "map_of (pc_leases s) e = Some l" "l_clientSessionId l \<notin> set ids"
      using that F [of e] by (auto split: option.splits if_splits)
    show ?thesis
      using leases_okD [OF ok l(1)] l(2) F [of e] by (simp add: lease_ok_def jhas_def cl)
  qed
  then have okt: "leases_ok t"
    using ok F by (auto simp: leases_ok_def cl split: if_splits)
  note R = reassign_result [OF okt slots]
  show "fst (unregisterClients ids s) = Inr ()"
    "pc_clients (snd (unregisterClients ids s)) = filter (\<lambda>p. fst p \<notin> set ids) (pc_clients s)"
    using R F by (simp_all add: eq)
  show "map_of (pc_leases (snd (unregisterClients ids s))) e = Some l"
    if "map_of (pc_leases s) e = Some l" "l_clientSessionId l \<notin> set ids"
  proof -
    have "e \<notin> fst ` set rel" using sub that by fastforce
    then show ?thesis using R [of e] F [of e] that by (simp add: eq)
  qed
qed

subsection \<open>Connect after disconnect\<close>

lemma expiry_cleared: "map_of (pc_expiryTimers (clearExpiry e s)) e = None"
  by (simp add: clearExpiry_def)

lemma expiry_sup [simp]:
  "pc_expiryTimers (startSupervision a s) = pc_expiryTimers s"
  "pc_expiryTimers (startSupervisionIfAbsent a s) = pc_expiryTimers s"
  "pc_expiryTimers (ensureSupervision a s) = pc_expiryTimers s"
  "pc_expiryTimers (set_reachable c v s) = pc_expiryTimers s"
  "pc_expiryTimers (nextSlotObservationVersion slot s) = pc_expiryTimers s"
  "pc_expiryTimers (emitSlotObservationChanged slot s) = pc_expiryTimers s"
  "pc_expiryTimers (snd (emitChange e slot p n r s)) = pc_expiryTimers s"
  by (simp_all add: startSupervision_def stopSupervision_def startSupervisionIfAbsent_def
      ensureSupervision_def resetSupervisionProgress_def set_reachable_def
      nextSlotObservationVersion_def emitSlotObservationChanged_def out_def emitChange_def Let_def
      split: option.splits)

lemma hostHeld_sup [simp]:
  "pc_hostHeld (set_reachable c v s) = pc_hostHeld s"
  "pc_hostHeld (clearExpiry e s) = pc_hostHeld s"
  "pc_hostHeld (snd (emitChange e slot p n r s)) = pc_hostHeld s"
  by (simp_all add: set_reachable_def clearExpiry_def nextSlotObservationVersion_def
      emitSlotObservationChanged_def out_def emitChange_def Let_def)

lemma disconnected_state:
  assumes "isPanelEntityId e" and "map_of (pc_hostHeld s) e = None"
    and "map_of (pc_leases s) e = Some l" and "l_connectionId l = c"
  shows "map_of (pc_leases (snd (markDisconnected e c s))) e =
      Some (l\<lparr>l_expiresAt := Some (pc_clock s + LEASE_RECONNECT_GRACE_MS)\<rparr>)"
    and "map_of (pc_hostHeld (snd (markDisconnected e c s))) e = None"
    and "map_of (pc_expiryTimers (snd (markDisconnected e c s))) e \<noteq> None"
  using assms
  by (simp_all add: markDisconnected_def mark_disconnected_def Let_def clearExpiry_def set_reachable_def)

lemma connected_state:
  assumes "isPanelEntityId e" and "map_of (pc_hostHeld s) e = None"
    and "map_of (pc_leases s) e = Some l" and "l_connectionId l = c"
  shows "map_of (pc_leases (snd (markConnected e c s))) e = Some (l\<lparr>l_expiresAt := None\<rparr>)"
    and "map_of (pc_expiryTimers (snd (markConnected e c s))) e = None"
proof -
  have none: "l_expiresAt l = None \<Longrightarrow> l\<lparr>l_expiresAt := None\<rparr> = l" by simp
  show "map_of (pc_leases (snd (markConnected e c s))) e = Some (l\<lparr>l_expiresAt := None\<rparr>)"
    using assms none
    by (auto simp: markConnected_def mark_connected_def Let_def split: option.splits)
  show "map_of (pc_expiryTimers (snd (markConnected e c s))) e = None"
    using assms
    by (auto simp: markConnected_def mark_connected_def Let_def expiry_cleared split: option.splits)
qed

section \<open>Properties\<close>

text \<open>
  Unregistering a client session never throws, leaves no lease with that session, leaves
  the leases of every other session as they were, and every lease of the resulting state again
  belongs to a registered session (the programmatic panels it reassigned included).
\<close>

theorem unregister_leaves_no_lease:
  assumes "coord_reachable s" and "unregisterClient c s = (r, t)"
  shows "r = Inr () \<and>
    (\<forall>e l. map_of (pc_leases t) e = Some l \<longrightarrow> l_clientSessionId l \<noteq> c \<and>
       jhas (pc_clients t) (l_clientSessionId l)) \<and>
    (\<forall>e l. map_of (pc_leases s) e = Some l \<and> l_clientSessionId l \<noteq> c \<longrightarrow>
       map_of (pc_leases t) e = Some l)"
proof -
  have ok: "leases_ok s" using assms(1) by (rule coord_reachable_leases_ok)
  have t: "r = fst (unregisterClients [c] s)" "t = snd (unregisterClients [c] s)"
    using assms(2) by (simp_all add: unregisterClient_def)
  have okt: "leases_ok t" using ok t by simp
  have gone: "\<not> jhas (pc_clients t) c"
    using unregister_effect(2) [OF ok, where ids = "[c]"] t by (auto simp: jhas_iff)
  have "l_clientSessionId l \<noteq> c \<and> jhas (pc_clients t) (l_clientSessionId l)"
    if "map_of (pc_leases t) e = Some l" for e l
    using leases_okD [OF okt that] gone by (auto simp: lease_ok_def)
  then show ?thesis
    using unregister_effect(1,3) [OF ok, where ids = "[c]"] t by auto
qed

theorem unregister_leaves_no_lease_witness:
  "map_of (pc_leases (snd (unregisterClient ''other'' coord2))) ''panel:nav-1''
     = Some (lease2 ''desk'' ''k1'' False)"
proof -
  have l: "map_of (pc_leases coord2) ''panel:nav-1'' = Some (lease2 ''desk'' ''k1'' False)
      \<and> l_clientSessionId (lease2 ''desk'' ''k1'' False) \<noteq> ''other''"
    by (simp add: coord2_state lease2_def)
  show ?thesis
    using unregister_leaves_no_lease [OF coord2_reachable prod.collapse [symmetric],
        THEN conjunct2, THEN conjunct2, rule_format, OF l] .
qed

text \<open>
  The default host of a programmatic panel is a registered client that loads on assignment,
  supports CDP, is not the excluded host and passes the availability test; when some client
  qualifies one is found, and then a headless client is chosen whenever a headless one
  qualifies (an interactive desktop only when none does). With a preferred platform, that
  platform wins over every other.
\<close>

theorem default_host_prefers_headless:
  assumes "coord_reachable s"
  shows "(getDefaultCdpHostClient opts p s = None \<longleftrightarrow>
      (\<forall>c cl. map_of (pc_clients s) c = Some cl \<longrightarrow> \<not> eligible_host opts cl)) \<and>
    (\<forall>cl. getDefaultCdpHostClient opts p s = Some cl \<longrightarrow>
      map_of (pc_clients s) (cs_clientSessionId cl) = Some cl \<and>
      cs_loadOnLeaseAssignment cl = Some True \<and> cs_supportsCdp cl \<noteq> Some False \<and>
      Some (client_host cl) \<noteq> op_excludedHostConnectionId opts \<and>
      host_available opts (client_host cl) \<and>
      (\<forall>c cl'. map_of (pc_clients s) c = Some cl' \<and> eligible_host opts cl' \<longrightarrow>
        (p = None \<and> cs_platform cl' = Headless \<longrightarrow> cs_platform cl = Headless) \<and>
        (p = Some (cs_platform cl') \<longrightarrow> p = Some (cs_platform cl))))"
proof -
  have ok: "leases_ok s" using assms by (rule coord_reachable_leases_ok)
  have mem: "cl \<in> set (jvalues (pc_clients s)) \<longleftrightarrow> (\<exists>c. map_of (pc_clients s) c = Some cl)" for cl
    using ok in_jvalues [of "pc_clients s" cl] by (simp add: leases_ok_def)
  have none: "getDefaultCdpHostClient opts p s = None \<longleftrightarrow>
      (\<forall>c cl. map_of (pc_clients s) c = Some cl \<longrightarrow> \<not> eligible_host opts cl)"
    unfolding getDefaultCdpHostClient_def find_sort_key(2) using mem by blast
  have best: "(p = None \<and> cs_platform cl' = Headless \<longrightarrow> cs_platform cl = Headless) \<and>
        (p = Some (cs_platform cl') \<longrightarrow> p = Some (cs_platform cl))"
    if cl: "getDefaultCdpHostClient opts p s = Some cl"
      and cl': "map_of (pc_clients s) c = Some cl'" "eligible_host opts cl'" for cl c cl'
  proof -
    have "host_rank p cl \<le> host_rank p cl'"
      using find_sorted_min [OF cl [unfolded getDefaultCdpHostClient_def]] mem cl' by blast
    then show ?thesis
      by (cases p) (auto simp: host_rank_def Let_def split: if_splits)
  qed
  have sel: "map_of (pc_clients s) (cs_clientSessionId cl) = Some cl \<and>
      cs_loadOnLeaseAssignment cl = Some True \<and> cs_supportsCdp cl \<noteq> Some False \<and>
      Some (client_host cl) \<noteq> op_excludedHostConnectionId opts \<and> host_available opts (client_host cl)"
    if "getDefaultCdpHostClient opts p s = Some cl" for cl
    using default_host_registered [OF ok that]
    by (simp add: eligible_host_def host_available_def split: option.splits)
  show ?thesis
    using none sel best by blast
qed

theorem default_host_prefers_headless_witness:
  "getDefaultCdpHostClient no_options None coord0 = None \<longleftrightarrow>
     (\<forall>c cl. map_of (pc_clients coord0) c = Some cl \<longrightarrow> \<not> eligible_host no_options cl)"
  using default_host_prefers_headless [OF coord0_reachable] by blast

text \<open>
  A dropped connection is a grace period. A disconnect of the leased connection keeps the
  lease, marks it to expire \<open>LEASE_RECONNECT_GRACE_MS\<close> later and arms a timer; if the same
  connection comes back, the lease is exactly what it was before the disconnect and no timer
  that was armed earlier can end it: when such a callback fires it changes nothing.
\<close>

theorem reconnect_restores_lease:
  assumes "isPanelEntityId e" and "map_of (pc_hostHeld s) e = None"
    and "map_of (pc_leases s) e = Some l" and "l_connectionId l = c" and "l_expiresAt l = None"
  shows "map_of (pc_leases (snd (markDisconnected e c s))) e =
      Some (l\<lparr>l_expiresAt := Some (pc_clock s + LEASE_RECONNECT_GRACE_MS)\<rparr>) \<and>
    map_of (pc_expiryTimers (snd (markDisconnected e c s))) e \<noteq> None \<and>
    map_of (pc_leases (snd (markConnected e c (snd (markDisconnected e c s))))) e = Some l \<and>
    expire e c timer (snd (markConnected e c (snd (markDisconnected e c s)))) =
      (Inr (), snd (markConnected e c (snd (markDisconnected e c s))))"
proof -
  note d = disconnected_state [OF assms(1-4)]
  have "l_connectionId (l\<lparr>l_expiresAt := Some (pc_clock s + LEASE_RECONNECT_GRACE_MS)\<rparr>) = c"
    using assms(4) by simp
  note k = connected_state [OF assms(1) d(2) d(1) this]
  have "l\<lparr>l_expiresAt := None\<rparr> = l" using assms(5) by simp
  then show ?thesis
    using d k by (simp add: expire_def)
qed

theorem reconnect_restores_lease_witness:
  "map_of (pc_leases (snd (markConnected ''panel:nav-1'' ''k1''
      (snd (markDisconnected ''panel:nav-1'' ''k1'' coord2))))) ''panel:nav-1''
     = Some (lease2 ''desk'' ''k1'' False)"
  using reconnect_restores_lease [of "''panel:nav-1''" coord2 "lease2 ''desk'' ''k1'' False" "''k1''"]
  by (simp add: coord2_state lease2_def)

text \<open>
  A take-over by an unregistered client session fails after it has already acted: it throws,
  the previous holder has been told that its lease is revoked (a lease event with no next lease
  is in the log), and yet the lease is still in the map, so the next snapshot still gives it to
  the holder.
\<close>

theorem failed_takeover_leaves_revoked_lease:
  assumes "coord_reachable s" and "map_of (pc_leases s) e = Some l" and "isPanelEntityId e"
    and "l_connectionId l \<noteq> lr_connectionId req" and "map_of (pc_clients s) (lr_clientSessionId req) = None"
  shows "fst (takeOver e req s) = Inl (UnknownClientSession (lr_clientSessionId req)) \<and>
    pc_leases (snd (takeOver e req s)) = pc_leases s \<and>
    l \<in> set (ls_leases (getSnapshot (snd (takeOver e req s)))) \<and>
    (\<exists>ev \<in> set (lease_events (pc_log (snd (takeOver e req s)))).
       le_version ev = ls_version (getSnapshot (snd (takeOver e req s))) \<and>
       le_previous ev = Some l \<and> le_next ev = None \<and> le_reason ev = Revoked)"
proof -
  let ?u = "stopRouteAttempt l Superseded True s"
  let ?t = "snd (emitChange e (l_slotId l) (Some l) None Revoked ?u)"
  have eq: "takeOver e req s = (Inl (UnknownClientSession (lr_clientSessionId req)), ?t)"
    using assms(2-5) by (simp add: takeOver_def writeLease_def written_def)
  have "l \<in> set (jvalues (pc_leases s))"
    using assms(2) by (force dest: jget_memD)
  moreover have "\<exists>ev \<in> set (lease_events (pc_log ?t)). le_version ev = currentVersion ?t \<and>
      le_previous ev = Some l \<and> le_next ev = None \<and> le_reason ev = Revoked"
    by (simp add: emitChange_def Let_def emitSlotObservationChanged_def out_def
        nextSlotObservationVersion_def currentVersion_def)
  ultimately show ?thesis
    by (simp add: eq getSnapshot_def)
qed

theorem failed_takeover_leaves_revoked_lease_witness:
  "pc_leases (snd (takeOver ''panel:nav-1'' (lease_req ''ghost'' ''k9'') coord2)) = pc_leases coord2"
proof -
  have "map_of (pc_clients coord2) ''ghost'' = None"
    by (simp add: coord2_state coord_desk_def registerClient_def desktop_registration_def
        setCloseConnection_def coord0_def new_coord_def Let_def)
  then show ?thesis
    using failed_takeover_leaves_revoked_lease [OF coord2_reachable, of "''panel:nav-1''"
        "lease2 ''desk'' ''k1'' False" "lease_req ''ghost'' ''k9''"]
    by (simp add: coord2_state(1) lease2_def lease_req_def)
qed

end
