(* ===== verification/IrohFraming.thy ===== *)
theory IrohFraming
  imports Bytes
begin

text \<open>
  Length-prefixed frames and chunked payloads of an Iroh stream
  (\<^verbatim>\<open>packages/iroh-transport/src/framing.ts\<close>). The physical streams are interfaces of the
  source: a send stream collects the arrays written to it, a receive stream is an argument of
  the readers, with the laws of \<open>readExact\<close> and \<open>read\<close> as locales.
\<close>

subsection \<open>Frames\<close>

definition LENGTH_PREFIX_BYTES :: nat where "LENGTH_PREFIX_BYTES = 4"

definition MAX_SAFE_INTEGER :: int where "MAX_SAFE_INTEGER = 2 ^ 53 - 1"

datatype framing_error =
    FrameLimit nat nat    \<comment> \<open>declared bytes, maximum\<close>
  | BadFrameLength
  | BadChunkSize
  | PayloadTooLarge
  | StreamEnded

definition isSafeInteger :: "int \<Rightarrow> bool" where
  "isSafeInteger n \<longleftrightarrow> \<bar>n\<bar> \<le> MAX_SAFE_INTEGER"

definition encodeLengthPrefix :: "int \<Rightarrow> (framing_error, byte list) result" where
  "encodeLengthPrefix n =
     (if \<not> isSafeInteger n \<or> n < 0 \<or> n > 0xffffffff then Inl BadFrameLength
      else Inr (be32 (of_int n)))"

text \<open>The arrays passed to \<open>writeAll\<close>, in order.\<close>

definition writeFrame :: "byte list \<Rightarrow> nat \<Rightarrow> (framing_error, byte list list) result" where
  "writeFrame payload maximumBytes =
     (if length payload > maximumBytes then Inl (FrameLimit (length payload) maximumBytes)
      else (case encodeLengthPrefix (int (length payload)) of
              Inl e \<Rightarrow> Inl e
            | Inr prefix \<Rightarrow> Inr (prefix # (if length payload > 0 then [payload] else []))))"

fun getUint32 :: "byte list \<Rightarrow> nat" where
  "getUint32 [a, b, c, d] = unat (u32_be a b c d)"
| "getUint32 _ = 0"

definition readFrame ::
  "(nat \<Rightarrow> 's \<Rightarrow> (framing_error, byte list \<times> 's) result) \<Rightarrow> nat \<Rightarrow> 's \<Rightarrow>
   (framing_error, byte list \<times> 's) result" where
  "readFrame readExact maximumBytes s =
     (case readExact LENGTH_PREFIX_BYTES s of
        Inl e \<Rightarrow> Inl e
      | Inr (prefix, s1) \<Rightarrow>
          (let declaredBytes = getUint32 prefix
           in if declaredBytes > maximumBytes then Inl (FrameLimit declaredBytes maximumBytes)
              else if declaredBytes = 0 then Inr ([], s1)
              else readExact declaredBytes s1))"

subsection \<open>Chunked payloads\<close>

text \<open>
  The accumulating loop of \<open>readToEnd\<close>; it runs until the stream gives an empty chunk, so it
  is partial. The chunks are concatenated by position into one array of their total length.
\<close>

partial_function (option) read_chunks ::
  "(nat \<Rightarrow> 's \<Rightarrow> (framing_error, byte list \<times> 's) result) \<Rightarrow> nat \<Rightarrow> byte list list \<Rightarrow> int \<Rightarrow> 's \<Rightarrow>
   (framing_error, byte list \<times> 's) result option" where
  "read_chunks rd chunkBytes chunks totalBytes s =
     (case rd chunkBytes s of
        Inl e \<Rightarrow> Some (Inl e)
      | Inr (chunk, s') \<Rightarrow>
          if length chunk = 0 then Some (Inr (concat chunks, s'))
          else if \<not> isSafeInteger (totalBytes + int (length chunk)) then Some (Inl PayloadTooLarge)
          else read_chunks rd chunkBytes (chunks @ [chunk]) (totalBytes + int (length chunk)) s')"

definition readToEnd ::
  "(nat \<Rightarrow> 's \<Rightarrow> (framing_error, byte list \<times> 's) result) \<Rightarrow> int \<Rightarrow> 's \<Rightarrow>
   (framing_error, byte list \<times> 's) result option" where
  "readToEnd rd chunkBytes s =
     (if \<not> isSafeInteger chunkBytes \<or> chunkBytes \<le> 0 then Some (Inl BadChunkSize)
      else read_chunks rd (nat chunkBytes) [] 0 s)"

function chunks_from :: "nat \<Rightarrow> byte list \<Rightarrow> nat \<Rightarrow> byte list list" where
  "chunks_from chunkBytes payload offset =
     (if offset < length payload \<and> chunkBytes > 0
      then take (min (length payload) (offset + chunkBytes) - offset) (drop offset payload)
             # chunks_from chunkBytes payload (offset + chunkBytes)
      else [])"
  by pat_completeness auto
termination by (relation "measure (\<lambda>(_, payload, offset). length payload - offset)") auto

declare chunks_from.simps [simp del]

definition writeChunked :: "byte list \<Rightarrow> int \<Rightarrow> (framing_error, byte list list) result" where
  "writeChunked payload chunkBytes =
     (if \<not> isSafeInteger chunkBytes \<or> chunkBytes \<le> 0 then Inl BadChunkSize
      else Inr (chunks_from (nat chunkBytes) payload 0))"

subsection \<open>The laws of a receive stream\<close>

text \<open>
  \<open>bytes s\<close> are the bytes the peer has sent that \<open>s\<close> has not read yet. \<open>readExact\<close> gives the
  next ones, and fails only when there are fewer left.
\<close>

locale receive_stream =
  fixes rd :: "nat \<Rightarrow> 's \<Rightarrow> (framing_error, byte list \<times> 's) result" and bytes :: "'s \<Rightarrow> byte list"
  assumes rd_ok: "n \<le> length (bytes s) \<Longrightarrow> \<exists>s'. rd n s = Inr (take n (bytes s), s') \<and> bytes s' = drop n (bytes s)"
begin

lemma rd_next: "bytes s = x @ r \<Longrightarrow> length x = n \<Longrightarrow> \<exists>s'. rd n s = Inr (x, s') \<and> bytes s' = r"
  using rd_ok [of n s] by auto

lemma readFrame_written:
  assumes "writeFrame payload maximumBytes = Inr parts" and "bytes s = concat parts @ r"
  shows "\<exists>s'. readFrame rd maximumBytes s = Inr (payload, s') \<and> bytes s' = r"
proof -
  have len: "length payload \<le> maximumBytes" and n: "int (length payload) \<le> 0xffffffff"
    using assms(1) by (auto simp: writeFrame_def encodeLengthPrefix_def split: if_splits)
  let ?w = "of_nat (length payload) :: 32 word"
  obtain a b c d where be: "be32 ?w = [a, b, c, d]" by (simp add: be32_def)
  have bs: "bytes s = be32 ?w @ payload @ r"
    using assms len n by (auto simp: writeFrame_def encodeLengthPrefix_def isSafeInteger_def
        MAX_SAFE_INTEGER_def)
  have dec: "getUint32 (be32 ?w) = length payload"
    unfolding be getUint32.simps u32_be_be32 [OF be] using n by (simp add: unat_of_nat32)
  obtain s1 where s1: "rd LENGTH_PREFIX_BYTES s = Inr (be32 ?w, s1)" "bytes s1 = payload @ r"
    using rd_next [OF bs, of LENGTH_PREFIX_BYTES] by (auto simp: LENGTH_PREFIX_BYTES_def)
  have "readFrame rd maximumBytes s =
      (if length payload = 0 then Inr ([], s1) else rd (length payload) s1)"
    using s1(1) dec len by (simp add: readFrame_def)
  then show ?thesis
    using rd_next [OF s1(2), of "length payload"] s1(2) by auto
qed

end

text \<open>\<open>read\<close> gives at most what was asked for, and an empty chunk only at the end.\<close>

locale chunk_stream =
  fixes rd :: "nat \<Rightarrow> 's \<Rightarrow> (framing_error, byte list \<times> 's) result" and bytes :: "'s \<Rightarrow> byte list"
  assumes chunk_ok: "0 < n \<Longrightarrow> \<exists>x s'. rd n s = Inr (x, s') \<and> bytes s = x @ bytes s' \<and> length x \<le> n \<and>
      (x = [] \<longrightarrow> bytes s = [])"
begin

lemma read_chunks_all:
  "0 < n \<Longrightarrow> 0 \<le> tot \<Longrightarrow> tot + int (length (bytes s)) \<le> MAX_SAFE_INTEGER \<Longrightarrow>
     \<exists>s'. read_chunks rd n chunks tot s = Some (Inr (concat chunks @ bytes s, s')) \<and> bytes s' = []"
proof (induction "length (bytes s)" arbitrary: s chunks tot rule: less_induct)
  case less
  obtain x s' where x: "rd n s = Inr (x, s')" "bytes s = x @ bytes s'" "x = [] \<longrightarrow> bytes s = []"
    using chunk_ok [OF less.prems(1), of s] by blast
  show ?case
  proof (cases "x = []")
    case True
    then show ?thesis
      using x by (simp add: read_chunks.simps [of rd n chunks tot s])
  next
    case False
    have "isSafeInteger (tot + int (length x))"
      using less.prems x(2) by (simp add: isSafeInteger_def)
    then show ?thesis
      using less.hyps [of s' "tot + int (length x)" "chunks @ [x]"] less.prems x False
      by (simp add: read_chunks.simps [of rd n chunks tot s])
  qed
qed

end

subsection \<open>A stream of sent bytes\<close>

text \<open>What the peer wrote, read back in order: the streams of both locales.\<close>

definition exact_bytes :: "nat \<Rightarrow> byte list \<Rightarrow> (framing_error, byte list \<times> byte list) result" where
  "exact_bytes n bs = (if n \<le> length bs then Inr (take n bs, drop n bs) else Inl StreamEnded)"

definition some_bytes :: "nat \<Rightarrow> byte list \<Rightarrow> (framing_error, byte list \<times> byte list) result" where
  "some_bytes n bs = Inr (take n bs, drop n bs)"

interpretation sent: receive_stream exact_bytes "\<lambda>bs. bs"
  by unfold_locales (simp add: exact_bytes_def)

interpretation sent_chunks: chunk_stream some_bytes "\<lambda>bs. bs"
  by unfold_locales (auto simp: some_bytes_def)

text \<open>One frame off the front of the received bytes, as \<open>readFrame\<close> takes it.\<close>

definition iroh_parser :: "nat \<Rightarrow> (framing_error, byte list) parser" where
  "iroh_parser maximumBytes bs =
     (case readFrame exact_bytes maximumBytes bs of
        Inl StreamEnded \<Rightarrow> Inr None
      | Inl e \<Rightarrow> Inl e
      | Inr (payload, r) \<Rightarrow> Inr (Some (payload, r)))"

definition iroh_frame :: "byte list \<Rightarrow> byte list" where
  "iroh_frame payload = be32 (of_nat (length payload)) @ payload"

lemma writeFrame_iroh_frame:
  "length payload \<le> maximumBytes \<Longrightarrow> length payload < 2 ^ 32 \<Longrightarrow>
     \<exists>parts. writeFrame payload maximumBytes = Inr parts \<and> concat parts = iroh_frame payload"
  by (auto simp: writeFrame_def encodeLengthPrefix_def iroh_frame_def isSafeInteger_def MAX_SAFE_INTEGER_def)

lemma iroh_parser_cases:
  "iroh_parser mx bs =
     (if length bs < 4 then Inr None
      else (let n = getUint32 (take 4 bs)
            in if n > mx then Inl (FrameLimit n mx)
               else if length bs < 4 + n then Inr None
               else Inr (Some (take n (drop 4 bs), drop (4 + n) bs))))"
  by (auto simp: iroh_parser_def readFrame_def exact_bytes_def LENGTH_PREFIX_BYTES_def Let_def
      add.commute)

interpretation iroh: frame_format iroh_frame "iroh_parser mx" "\<lambda>m :: byte list. length m \<le> mx \<and> length m < 2 ^ 32"
proof
  fix m r :: "byte list"
  assume "length m \<le> mx \<and> length m < 2 ^ 32"
  then show "iroh_parser mx (iroh_frame m @ r) = Inr (Some (m, r))"
    using writeFrame_iroh_frame [of m mx] sent.readFrame_written [of m mx _ "iroh_frame m @ r" r]
    by (auto simp: iroh_parser_def)
next
  fix bs m r x
  assume "iroh_parser mx bs = Inr (Some (m, r))"
  then show "iroh_parser mx (bs @ x) = Inr (Some (m, r @ x))"
    by (auto simp: iroh_parser_cases Let_def split: if_splits)
next
  fix bs x and e :: framing_error
  assume "iroh_parser mx bs = Inl e"
  then show "iroh_parser mx (bs @ x) = Inl e"
    by (auto simp: iroh_parser_cases Let_def split: if_splits)
next
  fix bs m r
  assume "iroh_parser mx bs = Inr (Some (m, r))"
  then show "length r < length bs"
    by (auto simp: iroh_parser_cases Let_def split: if_splits)
qed (simp add: iroh_parser_cases)

lemma concat_chunks_from:
  "0 < n \<Longrightarrow> concat (chunks_from n payload off) = drop off payload"
proof (induction n payload off rule: chunks_from.induct)
  case (1 n payload off)
  show ?case
  proof (cases "off < length payload")
    case True
    have "take (min (length payload) (off + n) - off) (drop off payload) @ drop (off + n) payload
        = drop off payload"
      using append_take_drop_id [of n "drop off payload"] by (simp add: min_def add.commute)
    then show ?thesis
      using 1 True by (simp add: chunks_from.simps [of n payload off])
  qed (simp add: chunks_from.simps [of n payload off])
qed

lemma chunks_from_sizes: "x \<in> set (chunks_from n payload off) \<Longrightarrow> 0 < length x \<and> length x \<le> n"
proof (induction n payload off rule: chunks_from.induct)
  case (1 n payload off)
  show ?case
  proof (cases "off < length payload \<and> 0 < n")
    case True
    let ?c = "take (min (length payload) (off + n) - off) (drop off payload)"
    have unf: "chunks_from n payload off = ?c # chunks_from n payload (off + n)"
      using True by (subst chunks_from.simps) simp
    have IH: "x \<in> set (chunks_from n payload (off + n)) \<Longrightarrow> 0 < length x \<and> length x \<le> n"
      using 1(1) True by simp
    have c: "0 < length ?c \<and> length ?c \<le> n"
      using True by simp
    have "x = ?c \<or> x \<in> set (chunks_from n payload (off + n))"
      using 1(2) unfolding unf by simp
    then show ?thesis
    proof
      assume "x = ?c" then show ?thesis using c by (simp only:)
    qed (rule IH)
  next
    case False
    then have "chunks_from n payload off = []" by (subst chunks_from.simps) simp
    then show ?thesis using 1 by simp
  qed
qed

section \<open>Properties\<close>

text \<open>
  What is written to an Iroh stream is what is read from it. Any sequence of payloads
  accepted by \<open>writeFrame\<close> under a limit is read back frame by frame under the same limit,
  wherever the bytes of later frames end; a declared length above the limit is refused before
  any payload is read; and a payload written by \<open>writeChunked\<close> in chunks of any positive size
  is what \<open>readToEnd\<close> returns (it ends), provided the total is a safe integer. The chunks are
  never empty and never larger than asked.
\<close>

theorem iroh_frames_roundtrip:
  assumes "\<forall>m \<in> set ms. length m \<le> mx \<and> length m < 2 ^ 32"
    and "0 < n" and "int (length payload) \<le> MAX_SAFE_INTEGER" and "int n \<le> MAX_SAFE_INTEGER"
    and "0 < k" and "int k \<le> MAX_SAFE_INTEGER"
  shows "(\<forall>m \<in> set ms. \<exists>parts. writeFrame m mx = Inr parts \<and> concat parts = iroh_frame m) \<and>
    parse_all (iroh_parser mx) (concat (map iroh_frame ms)) = (ms, None, []) \<and>
    (\<forall>w s. unat w > mx \<longrightarrow> readFrame exact_bytes mx (be32 w @ s) = Inl (FrameLimit (unat w) mx)) \<and>
    (\<exists>chunks. writeChunked payload (int n) = Inr chunks \<and>
       (\<forall>x \<in> set chunks. 0 < length x \<and> length x \<le> n) \<and>
       readToEnd some_bytes (int k) (concat chunks) = Some (Inr (payload, [])))"
proof -
  have "parse_all (iroh_parser mx) [] = ([], None, [])"
    by (rule iroh.parse_all_stop(2)) (simp add: iroh_parser_cases)
  then have frames: "parse_all (iroh_parser mx) (concat (map iroh_frame ms)) = (ms, None, [])"
    using iroh.parse_all_encoded [of ms mx "[]"] assms(1) by simp
  have limit: "readFrame exact_bytes mx (be32 w @ s) = Inl (FrameLimit (unat w) mx)" if "unat w > mx" for w s
  proof -
    obtain a b c d where be: "be32 w = [a, b, c, d]" by (simp add: be32_def)
    then show ?thesis
      using that u32_be_be32 [OF be] by (simp add: readFrame_def exact_bytes_def LENGTH_PREFIX_BYTES_def)
  qed
  have "\<exists>s'. read_chunks some_bytes k [] 0 payload = Some (Inr (payload, s')) \<and> s' = []"
    using sent_chunks.read_chunks_all [of k 0 payload "[]"] assms(3,5) by simp
  then have chunks: "readToEnd some_bytes (int k) (concat (chunks_from n payload 0)) = Some (Inr (payload, []))"
    using assms(2,5,6) by (simp add: readToEnd_def concat_chunks_from isSafeInteger_def)
  have "writeChunked payload (int n) = Inr (chunks_from n payload 0)"
    using assms(2,4) by (simp add: writeChunked_def isSafeInteger_def)
  then show ?thesis
    using assms(1) writeFrame_iroh_frame frames limit chunks chunks_from_sizes by blast
qed

theorem iroh_frames_roundtrip_witness:
  "parse_all (iroh_parser 8) (concat (map iroh_frame [[1, 2], [], [3]])) = ([[1, 2], [], [3]], None, [])"
  using iroh_frames_roundtrip [of "[[1, 2], [], [3]]" 8 2 "[7, 8, 9]" 4]
  by (simp add: MAX_SAFE_INTEGER_def)

end
