(* ===== verification/StreamCodec.thy ===== *)
theory StreamCodec
  imports Bytes
begin

text \<open>
  The framed streaming RPC codec (\<^verbatim>\<open>packages/rpc/src/protocol/streamCodec.ts\<close>), first part: the
  frame encoder and the incremental \<open>FrameDecoder\<close> with its growing buffer, and the receive-side
  multiplexer. A decoder callback is an argument: it returns the error it throws, if any, and
  its new state.
\<close>

subsection \<open>Frames\<close>

definition FRAME_HEAD :: byte where "FRAME_HEAD = 0x01"
definition FRAME_DATA :: byte where "FRAME_DATA = 0x02"
definition FRAME_END :: byte where "FRAME_END = 0x03"
definition FRAME_ERROR :: byte where "FRAME_ERROR = 0x04"

lemmas frame_types = FRAME_HEAD_def FRAME_DATA_def FRAME_END_def FRAME_ERROR_def

definition frame_type :: "byte \<Rightarrow> bool" where
  "frame_type t \<longleftrightarrow> t = FRAME_HEAD \<or> t = FRAME_DATA \<or> t = FRAME_END \<or> t = FRAME_ERROR"

text \<open>\<open>len >>> n\<close> first takes the length modulo \<open>2 ^ 32\<close>.\<close>

definition encodeFrame :: "byte \<Rightarrow> byte list \<Rightarrow> byte list" where
  "encodeFrame t payload = t # be32 (of_nat (length payload)) @ payload"

subsection \<open>The incremental decoder\<close>

record frame_decoder =
  fd_buf :: "byte list"
  fd_offset :: nat
  fd_length :: nat

definition new_decoder :: frame_decoder where
  "new_decoder = \<lparr>fd_buf = [], fd_offset = 0, fd_length = 0\<rparr>"

text \<open>\<open>buf.set(bytes, at)\<close> within bounds.\<close>

definition set_bytes :: "nat \<Rightarrow> byte list \<Rightarrow> byte list \<Rightarrow> byte list" where
  "set_bytes at bytes buf = take at buf @ bytes @ drop (at + length bytes) buf"

definition subarray :: "nat \<Rightarrow> nat \<Rightarrow> byte list \<Rightarrow> byte list" where
  "subarray start stop buf = take (stop - start) (drop start buf)"

definition finished :: "frame_decoder \<Rightarrow> bool" where
  "finished d \<longleftrightarrow> fd_length d = fd_offset d"

text \<open>Make room for \<open>n\<close> more bytes: grow geometrically, or move the unread tail to the front.\<close>

definition make_room :: "nat \<Rightarrow> frame_decoder \<Rightarrow> frame_decoder" where
  "make_room n d =
     (if fd_length d + n > length (fd_buf d)
      then (let unread = fd_length d - fd_offset d;
                required = unread + n;
                tail = subarray (fd_offset d) (fd_length d) (fd_buf d);
                buf = (if required > length (fd_buf d)
                       then set_bytes 0 tail (replicate (max required (length (fd_buf d) * 2)) 0)
                       else set_bytes 0 tail (fd_buf d))
            in \<lparr>fd_buf = buf, fd_offset = 0, fd_length = unread\<rparr>)
      else d)"

definition append_chunk :: "byte list \<Rightarrow> frame_decoder \<Rightarrow> frame_decoder" where
  "append_chunk chunk d =
     (let d1 = make_room (length chunk) d
      in d1\<lparr>fd_buf := set_bytes (fd_length d1) chunk (fd_buf d1), fd_length := fd_length d1 + length chunk\<rparr>)"

definition byte_at :: "nat \<Rightarrow> frame_decoder \<Rightarrow> byte" where
  "byte_at i d = (if i < length (fd_buf d) then fd_buf d ! i else 0)"

definition frame_length :: "nat \<Rightarrow> frame_decoder \<Rightarrow> nat" where
  "frame_length at d =
     unat (u32_be (byte_at (at + 1) d) (byte_at (at + 2) d) (byte_at (at + 3) d) (byte_at (at + 4) d))"

text \<open>Consume the bytes before \<open>stop\<close>; a fully drained decoder releases its buffer.\<close>

definition consume :: "nat \<Rightarrow> frame_decoder \<Rightarrow> frame_decoder" where
  "consume stop d = (if stop = fd_length d then new_decoder else d\<lparr>fd_offset := stop\<rparr>)"

datatype 'e drain_error = UnknownFrame byte | FromCallback 'e

type_synonym ('e, 's) on_frame = "byte \<Rightarrow> byte list \<Rightarrow> 's \<Rightarrow> 'e option \<times> 's"

function drain ::
  "('e, 's) on_frame \<Rightarrow> frame_decoder \<Rightarrow> 's \<Rightarrow> 'e drain_error option \<times> frame_decoder \<times> 's" where
  "drain onFrame d s =
     (if fd_length d - fd_offset d < 5 then (None, d, s)
      else
        (let at = fd_offset d; t = byte_at at d
         in if \<not> frame_type t then (Some (UnknownFrame t), d, s)
            else
              (let total = 5 + frame_length at d
               in if fd_length d - at < total then (None, d, s)
                  else
                    (let payload = subarray (at + 5) (at + total) (fd_buf d);
                         d1 = consume (at + total) d
                     in case onFrame t payload s of
                          (Some e, s1) \<Rightarrow> (Some (FromCallback e), d1, s1)
                        | (None, s1) \<Rightarrow> drain onFrame d1 s1))))"
  by pat_completeness auto
termination
  by (relation "measure (\<lambda>(_, d, _). fd_length d - fd_offset d)") (auto simp: consume_def new_decoder_def)

declare drain.simps [simp del]

definition push ::
  "('e, 's) on_frame \<Rightarrow> byte list \<Rightarrow> frame_decoder \<Rightarrow> 's \<Rightarrow> 'e drain_error option \<times> frame_decoder \<times> 's" where
  "push onFrame chunk d s =
     (if length chunk = 0 then (None, d, s) else drain onFrame (append_chunk chunk d) s)"

subsection \<open>The decoder as a parser\<close>

text \<open>One frame off the front of the unread bytes.\<close>

definition frame_parser :: "(byte, byte \<times> byte list) parser" where
  "frame_parser bs =
     (if length bs < 5 then Inr None
      else if \<not> frame_type (bs ! 0) then Inl (bs ! 0)
      else (let n = unat (u32_be (bs ! 1) (bs ! 2) (bs ! 3) (bs ! 4))
            in if length bs < 5 + n then Inr None
               else Inr (Some ((bs ! 0, take n (drop 5 bs)), drop (5 + n) bs))))"

definition valid_frame :: "byte \<times> byte list \<Rightarrow> bool" where
  "valid_frame f \<longleftrightarrow> frame_type (fst f) \<and> length (snd f) < 2 ^ 32"

abbreviation frame_bytes :: "byte \<times> byte list \<Rightarrow> byte list" where
  "frame_bytes f \<equiv> encodeFrame (fst f) (snd f)"

lemma drop_header: "drop (5 + n) (a # b # c # d # e # xs) = drop n xs"
  by (simp add: numeral_eq_Suc)

interpretation stream_frames: frame_format frame_bytes frame_parser valid_frame
proof
  fix m :: "byte \<times> byte list" and r
  assume valid: "valid_frame m"
  obtain t payload where m: "m = (t, payload)" by (cases m)
  obtain a b c d where be: "be32 (of_nat (length payload)) = [a, b, c, d]" by (simp add: be32_def)
  have n: "unat (u32_be a b c d) = length payload"
    using valid m by (simp add: u32_be_be32 [OF be] unat_of_nat32 valid_frame_def)
  show "frame_parser (frame_bytes m @ r) = Inr (Some (m, r))"
    using valid by (simp add: frame_parser_def m encodeFrame_def be n valid_frame_def drop_header)
next
  fix bs m r x
  assume "frame_parser bs = Inr (Some (m, r))"
  then show "frame_parser (bs @ x) = Inr (Some (m, r @ x))"
    by (auto simp: frame_parser_def Let_def nth_append split: if_splits)
next
  fix bs x and e :: byte
  assume "frame_parser bs = Inl e"
  then show "frame_parser (bs @ x) = Inl e"
    by (auto simp: frame_parser_def Let_def nth_append split: if_splits)
next
  fix bs m r
  assume "frame_parser bs = Inr (Some (m, r))"
  then show "length r < length bs"
    by (auto simp: frame_parser_def Let_def split: if_splits)
qed (simp add: frame_parser_def)

definition unread :: "frame_decoder \<Rightarrow> byte list" where
  "unread d = subarray (fd_offset d) (fd_length d) (fd_buf d)"

definition decoder_wf :: "frame_decoder \<Rightarrow> bool" where
  "decoder_wf d \<longleftrightarrow> fd_offset d \<le> fd_length d \<and> fd_length d \<le> length (fd_buf d)"

lemma new_decoder_simps [simp]: "unread new_decoder = []" "decoder_wf new_decoder"
  by (simp_all add: new_decoder_def unread_def subarray_def decoder_wf_def)

lemma length_unread: "decoder_wf d \<Longrightarrow> length (unread d) = fd_length d - fd_offset d"
  by (auto simp: unread_def subarray_def decoder_wf_def min_def)

lemma finished_iff: "decoder_wf d \<Longrightarrow> finished d \<longleftrightarrow> unread d = []"
  using length_unread [of d] by (auto simp: finished_def decoder_wf_def simp flip: length_0_conv)

lemma set_bytes_length [simp]:
  "at + length bytes \<le> length buf \<Longrightarrow> length (set_bytes at bytes buf) = length buf"
  by (simp add: set_bytes_def)

lemma make_room_ok:
  assumes "decoder_wf d"
  shows "unread (make_room n d) = unread d" and "decoder_wf (make_room n d)"
    and "fd_length (make_room n d) + n \<le> length (fd_buf (make_room n d))"
proof -
  have len: "length (unread d) = fd_length d - fd_offset d" using assms by (rule length_unread)
  have take: "take (length xs) (set_bytes 0 xs buf) = xs" for xs and buf :: "byte list"
    by (simp add: set_bytes_def)
  show "unread (make_room n d) = unread d"
    using take [of "unread d"] len
    by (auto simp: make_room_def Let_def unread_def subarray_def)
  show "decoder_wf (make_room n d)" "fd_length (make_room n d) + n \<le> length (fd_buf (make_room n d))"
    using assms len
    by (auto simp: make_room_def Let_def decoder_wf_def unread_def set_bytes_def)
qed

lemma append_chunk_ok:
  assumes "decoder_wf d"
  shows "unread (append_chunk chunk d) = unread d @ chunk" and "decoder_wf (append_chunk chunk d)"
proof -
  note r = make_room_ok [OF assms, of "length chunk"]
  let ?d = "make_room (length chunk) d"
  show "decoder_wf (append_chunk chunk d)"
    using r by (simp add: append_chunk_def Let_def decoder_wf_def)
  have "fd_offset ?d \<le> fd_length ?d" "fd_length ?d \<le> length (fd_buf ?d)"
    using r(2) by (simp_all add: decoder_wf_def)
  then have "unread (append_chunk chunk d) = unread ?d @ chunk"
    by (simp add: append_chunk_def Let_def unread_def subarray_def set_bytes_def drop_take)
  then show "unread (append_chunk chunk d) = unread d @ chunk" by (simp add: r(1))
qed

lemma unread_nth: "decoder_wf d \<Longrightarrow> i < length (unread d) \<Longrightarrow> unread d ! i = byte_at (fd_offset d + i) d"
  by (auto simp: unread_def subarray_def byte_at_def decoder_wf_def)

lemma consume_ok:
  assumes "decoder_wf d" and "n \<le> length (unread d)"
  shows "unread (consume (fd_offset d + n) d) = drop n (unread d)"
    and "decoder_wf (consume (fd_offset d + n) d)"
  using assms
  by (auto simp: consume_def unread_def subarray_def decoder_wf_def new_decoder_def drop_take add.commute)

text \<open>One round of \<open>drain\<close>, in terms of the unread bytes.\<close>

lemma drain_round:
  assumes "decoder_wf d"
  shows "frame_parser (unread d) = Inr None \<Longrightarrow> drain h d s = (None, d, s)"
    and "frame_parser (unread d) = Inl t \<Longrightarrow> drain h d s = (Some (UnknownFrame t), d, s)"
    and "frame_parser (unread d) = Inr (Some ((t, payload), r)) \<Longrightarrow>
      \<exists>d1. unread d1 = r \<and> decoder_wf d1 \<and>
        drain h d s = (case h t payload s of
            (Some e, s1) \<Rightarrow> (Some (FromCallback e), d1, s1)
          | (None, s1) \<Rightarrow> drain h d1 s1)"
proof -
  note len = length_unread [OF assms]
  have at: "unread d ! i = byte_at (fd_offset d + i) d" if "5 \<le> length (unread d)" "i < 5" for i
    using unread_nth [OF assms] that by simp
  have n: "unat (u32_be (unread d ! 1) (unread d ! 2) (unread d ! 3) (unread d ! 4)) =
      frame_length (fd_offset d) d" if "5 \<le> length (unread d)"
    using at [OF that] by (simp add: frame_length_def)
  have t: "unread d ! 0 = byte_at (fd_offset d) d" if "5 \<le> length (unread d)"
    using at [OF that, of 0] by simp
  show "drain h d s = (None, d, s)" if "frame_parser (unread d) = Inr None"
    using that n t len by (subst drain.simps) (auto simp: frame_parser_def Let_def split: if_splits)
  show "drain h d s = (Some (UnknownFrame t), d, s)" if "frame_parser (unread d) = Inl t"
    using that t len by (subst drain.simps) (auto simp: frame_parser_def Let_def split: if_splits)
  show "\<exists>d1. unread d1 = r \<and> decoder_wf d1 \<and>
        drain h d s = (case h t payload s of
            (Some e, s1) \<Rightarrow> (Some (FromCallback e), d1, s1)
          | (None, s1) \<Rightarrow> drain h d1 s1)"
    if p: "frame_parser (unread d) = Inr (Some ((t, payload), r))"
  proof -
    let ?n = "frame_length (fd_offset d) d"
    have five: "5 \<le> length (unread d)" using p by (auto simp: frame_parser_def split: if_splits)
    have q: "frame_type (byte_at (fd_offset d) d)" "t = byte_at (fd_offset d) d"
        "5 + ?n \<le> length (unread d)" "payload = take ?n (drop 5 (unread d))" "r = drop (5 + ?n) (unread d)"
      using p five n [OF five] t [OF five] by (auto simp: frame_parser_def Let_def split: if_splits)
    have "subarray (fd_offset d + 5) (fd_offset d + (5 + ?n)) (fd_buf d) = payload"
      using q(3) len assms by (simp add: q(4) unread_def subarray_def decoder_wf_def drop_take
          min_def add.commute add.left_commute)
    then have "drain h d s = (case h t payload s of
            (Some e, s1) \<Rightarrow> (Some (FromCallback e), consume (fd_offset d + (5 + ?n)) d, s1)
          | (None, s1) \<Rightarrow> drain h (consume (fd_offset d + (5 + ?n)) d) s1)"
      using q(1,2,3) five len by (subst drain.simps) (simp add: Let_def add.assoc)
    then show ?thesis
      using consume_ok [OF assms q(3)] q(5) by blast
  qed
qed

subsection \<open>Any chunking\<close>

fun push_all ::
  "('e, 's) on_frame \<Rightarrow> byte list list \<Rightarrow> frame_decoder \<Rightarrow> 's \<Rightarrow> 'e drain_error option \<times> frame_decoder \<times> 's" where
  "push_all h [] d s = (None, d, s)"
| "push_all h (c # cs) d s =
     (case push h c d s of
        (None, d1, s1) \<Rightarrow> push_all h cs d1 s1
      | (Some e, d1, s1) \<Rightarrow> (Some e, d1, s1))"

text \<open>What a list of frames does to the callback's state.\<close>

fun feed :: "('e, 's) on_frame \<Rightarrow> (byte \<times> byte list) list \<Rightarrow> 's \<Rightarrow> 'e option \<times> 's" where
  "feed h [] s = (None, s)"
| "feed h ((t, payload) # fs) s =
     (case h t payload s of (Some e, s1) \<Rightarrow> (Some e, s1) | (None, s1) \<Rightarrow> feed h fs s1)"

lemma feed_append:
  "feed h (fs @ gs) s = (case feed h fs s of (None, s1) \<Rightarrow> feed h gs s1 | (Some e, s1) \<Rightarrow> (Some e, s1))"
  by (induction h fs s rule: feed.induct) (auto split: prod.splits option.splits)

definition outcome_of :: "'e option \<Rightarrow> byte option \<Rightarrow> 'e drain_error option" where
  "outcome_of thrown unknown =
     (case thrown of Some e \<Rightarrow> Some (FromCallback e) | None \<Rightarrow> map_option UnknownFrame unknown)"

lemma outcome_of_simps [simp]:
  "outcome_of (Some e) u = Some (FromCallback e)" "outcome_of None (Some t) = Some (UnknownFrame t)"
  "outcome_of None None = None" "outcome_of x u = None \<longleftrightarrow> x = None \<and> u = None"
  by (auto simp: outcome_of_def split: option.splits)

lemma drain_feeds:
  "decoder_wf d \<Longrightarrow> parse_all frame_parser (unread d) = (fs, unknown, r) \<Longrightarrow>
     fst (drain h d s) = outcome_of (fst (feed h fs s)) unknown \<and>
     snd (snd (drain h d s)) = snd (feed h fs s) \<and> decoder_wf (fst (snd (drain h d s))) \<and>
     (fst (drain h d s) = None \<longrightarrow> unread (fst (snd (drain h d s))) = r)"
proof (induction "length (unread d)" arbitrary: d s fs rule: less_induct)
  case less
  note round = drain_round [OF less.prems(1), where h = h and s = s]
  show ?case
  proof (cases "frame_parser (unread d)")
    case (Inl t)
    then show ?thesis
      using less.prems round(2) [OF Inl] stream_frames.parse_all_stop(1) [OF Inl] by auto
  next
    case (Inr step)
    show ?thesis
    proof (cases step)
      case None
      then show ?thesis
        using less.prems Inr round(1) stream_frames.parse_all_stop(2) by auto
    next
      case (Some mr)
      obtain t payload r' where p: "frame_parser (unread d) = Inr (Some ((t, payload), r'))"
        using Inr Some by (cases mr) auto
      obtain fs' where fs: "fs = (t, payload) # fs'" "parse_all frame_parser r' = (fs', unknown, r)"
        using less.prems(2) stream_frames.parse_all_step [OF p] by (cases "parse_all frame_parser r'") auto
      obtain d1 where d1: "unread d1 = r'" "decoder_wf d1"
        "drain h d s = (case h t payload s of
            (Some e, s1) \<Rightarrow> (Some (FromCallback e), d1, s1) | (None, s1) \<Rightarrow> drain h d1 s1)"
        using round(3) [OF p] by blast
      have "length (unread d1) < length (unread d)"
        using stream_frames.parse_progress [OF p] d1(1) by simp
      then show ?thesis
        using less.hyps [of d1 fs' "snd (h t payload s)"] d1 fs
        by (cases "h t payload s") (auto split: option.splits)
    qed
  qed
qed

lemma push_all_feeds:
  "decoder_wf d \<Longrightarrow> frame_parser (unread d) = Inr None \<Longrightarrow>
   parse_all frame_parser (unread d @ concat cs) = (fs, unknown, r) \<Longrightarrow>
     fst (push_all h cs d s) = outcome_of (fst (feed h fs s)) unknown \<and>
     snd (snd (push_all h cs d s)) = snd (feed h fs s) \<and> decoder_wf (fst (snd (push_all h cs d s))) \<and>
     (fst (push_all h cs d s) = None \<longrightarrow> unread (fst (snd (push_all h cs d s))) = r)"
proof (induction cs arbitrary: d s fs)
  case Nil
  then show ?case using stream_frames.parse_all_stop(2) by auto
next
  case (Cons c cs)
  show ?case
  proof (cases "c = []")
    case True
    then show ?thesis using Cons by (simp add: push_def)
  next
    case False
    let ?d = "append_chunk c d"
    note app = append_chunk_ok [OF Cons.prems(1), of c]
    obtain fs1 u1 r1 where p1: "parse_all frame_parser (unread d @ c) = (fs1, u1, r1)"
      by (cases "parse_all frame_parser (unread d @ c)")
    note drained = drain_feeds [OF app(2), of fs1 u1 r1 h s, unfolded app(1), OF p1]
    note split = stream_frames.parse_all_append [OF p1, of "concat cs"]
    obtain err d1 s1 where dr: "drain h ?d s = (err, d1, s1)" by (cases "drain h ?d s")
    have push: "push_all h (c # cs) d s =
        (case err of None \<Rightarrow> push_all h cs d1 s1 | Some e \<Rightarrow> (Some e, d1, s1))"
      using False by (simp add: push_def dr split: option.splits)
    show ?thesis
    proof (cases u1)
      case None
      then obtain fs2 where fs2: "fs = fs1 @ fs2" "parse_all frame_parser (r1 @ concat cs) = (fs2, unknown, r)"
        using split Cons.prems(3) by (cases "parse_all frame_parser (r1 @ concat cs)") auto
      have stuck: "frame_parser r1 = Inr None"
        using stream_frames.parse_all_rest [OF p1] None by simp
      show ?thesis
        using Cons.IH [of d1 fs2 s1] drained fs2 stuck None
        by (cases "feed h fs1 s") (auto simp del: push_all.simps simp: push dr feed_append split: option.splits)
    next
      case (Some t)
      then show ?thesis
        using split Cons.prems(3) drained
        by (cases "feed h fs1 s") (auto simp del: push_all.simps simp: push dr split: option.splits)
    qed
  qed
qed

lemma push_feeds:
  assumes "decoder_wf d"
  obtains fs unknown where "fst (push h c d s) = outcome_of (fst (feed h fs s)) unknown"
    "snd (snd (push h c d s)) = snd (feed h fs s)" "decoder_wf (fst (snd (push h c d s)))"
proof (cases "c = []")
  case True
  then show ?thesis using that [of "[]" None] assms by (simp add: push_def)
next
  case False
  obtain fs u r where "parse_all frame_parser (unread (append_chunk c d)) = (fs, u, r)"
    by (cases "parse_all frame_parser (unread (append_chunk c d))")
  then show ?thesis
    using that [of fs u] drain_feeds [OF append_chunk_ok(2) [OF assms, of c], of fs u r h s] False
    by (simp add: push_def)
qed

subsection \<open>The size of the buffer\<close>

lemma drain_buffer: "length (fd_buf (fst (snd (drain h d s)))) \<le> length (fd_buf d)"
proof (induction h d s rule: drain.induct)
  case (1 h d s)
  have c: "length (fd_buf (consume n d)) \<le> length (fd_buf d)" for n
    by (simp add: consume_def new_decoder_def)
  show ?case
  proof (cases "fd_length d - fd_offset d < 5 \<or> \<not> frame_type (byte_at (fd_offset d) d) \<or>
      fd_length d - fd_offset d < 5 + frame_length (fd_offset d) d")
    case True
    then show ?thesis by (subst drain.simps) (auto simp: Let_def)
  next
    case False
    let ?n = "fd_offset d + (5 + frame_length (fd_offset d) d)"
    obtain e s1 where h: "h (byte_at (fd_offset d) d) (subarray (fd_offset d + 5) ?n (fd_buf d)) s = (e, s1)"
      by fastforce
    have "drain h d s = (case e of Some e \<Rightarrow> (Some (FromCallback e), consume ?n d, s1)
        | None \<Rightarrow> drain h (consume ?n d) s1)"
      using False h by (subst drain.simps) (simp add: Let_def)
    moreover have "length (fd_buf (fst (snd (drain h (consume ?n d) s1)))) \<le> length (fd_buf (consume ?n d))"
      if "e = None"
      by (rule 1 [OF _ refl refl _ refl _ refl refl h [symmetric] that]) (use False in simp_all)
    ultimately show ?thesis
      using c [of ?n] by (cases e) (auto intro: order_trans)
  qed
qed

lemma append_chunk_buffer:
  assumes "decoder_wf d" and "length (unread d) + length c \<le> m" and "length (fd_buf d) \<le> 2 * m"
  shows "length (fd_buf (append_chunk c d)) \<le> 2 * m"
proof -
  note r = make_room_ok(3) [OF assms(1), of "length c"]
  have "length (fd_buf (make_room (length c) d)) \<le> 2 * m"
    using assms length_unread [OF assms(1)]
    by (auto simp: make_room_def Let_def set_bytes_def unread_def)
  then show ?thesis using r by (simp add: append_chunk_def Let_def)
qed

lemma push_all_buffer:
  "decoder_wf d \<Longrightarrow> frame_parser (unread d) = Inr None \<Longrightarrow> length (fd_buf d) \<le> 2 * (F + C) \<Longrightarrow>
   unread d @ concat cs @ ys = concat (map frame_bytes fs) \<Longrightarrow> length (unread d) \<le> F \<Longrightarrow>
   \<forall>f \<in> set fs. valid_frame f \<and> length (frame_bytes f) \<le> F \<Longrightarrow> \<forall>c \<in> set cs. length c \<le> C \<Longrightarrow>
     length (fd_buf (fst (snd (push_all h cs d s)))) \<le> 2 * (F + C)"
proof (induction cs arbitrary: d s fs)
  case (Cons c cs)
  show ?case
  proof (cases "c = []")
    case True
    then show ?thesis using Cons by (simp add: push_def)
  next
    case False
    let ?d = "append_chunk c d"
    note app = append_chunk_ok [OF Cons.prems(1), of c]
    have "(unread d @ c) @ (concat cs @ ys) = concat (map frame_bytes fs)" using Cons.prems(4) by simp
    then obtain k r where k: "parse_all frame_parser (unread d @ c) = (take k fs, None, r)"
        "unread d @ c = concat (map frame_bytes (take k fs)) @ r"
        "r = [] \<or> k < length fs \<and> length r < length (frame_bytes (fs ! k))"
      using stream_frames.parse_prefix Cons.prems(6) by blast
    note drained = drain_feeds [OF app(2), of "take k fs" None r h s, unfolded app(1), OF k(1)]
    have len: "length r \<le> F"
      using k(3) Cons.prems(6) nth_mem [of k fs] by fastforce
    have whole: "concat (map frame_bytes fs) =
        concat (map frame_bytes (take k fs)) @ concat (map frame_bytes (drop k fs))"
      by (simp flip: concat_append map_append)
    have rest: "r @ concat cs @ ys = concat (map frame_bytes (drop k fs))"
    proof -
      have "concat (map frame_bytes (take k fs)) @ r @ concat cs @ ys = (unread d @ c) @ concat cs @ ys"
        by (simp only: k(2) append_assoc)
      also have "\<dots> = concat (map frame_bytes fs)" using Cons.prems(4) by simp
      finally show ?thesis unfolding whole by (simp only: same_append_eq)
    qed
    have stuck: "frame_parser r = Inr None"
      using stream_frames.parse_all_rest [OF k(1)] by simp
    have buf: "length (fd_buf ?d) \<le> 2 * (F + C)"
      using append_chunk_buffer [OF Cons.prems(1) _ Cons.prems(3), of c] Cons.prems(5,7) by simp
    obtain err d1 s1 where dr: "drain h ?d s = (err, d1, s1)" by (cases "drain h ?d s")
    have buf1: "length (fd_buf d1) \<le> 2 * (F + C)"
      using drain_buffer [of h ?d s] buf dr by simp
    have sub: "\<forall>f \<in> set (drop k fs). valid_frame f \<and> length (frame_bytes f) \<le> F"
      using Cons.prems(6) by (auto dest: in_set_dropD)
    show ?thesis
    proof (cases err)
      case None
      then have "unread d1 = r" "decoder_wf d1" using drained dr by auto
      then show ?thesis
        using Cons.IH [of d1 "drop k fs" s1] buf1 rest sub len stuck Cons.prems(7) None False
        by (simp add: push_def dr)
    next
      case (Some e)
      then show ?thesis using buf1 False by (simp add: push_def dr)
    qed
  qed
qed simp

section \<open>Properties\<close>

definition collect :: "byte \<Rightarrow> byte list \<Rightarrow> (byte \<times> byte list) list \<Rightarrow> unit option \<times> (byte \<times> byte list) list" where
  "collect t payload fs = (None, fs @ [(t, payload)])"

lemma feed_collect: "feed collect fs gs = (None, gs @ fs)"
  by (induction fs arbitrary: gs) (auto simp: collect_def)

text \<open>
  C26. The decoder inverts the encoder under any chunking. However the bytes are cut into chunks,
  a callback sees the same frames and the decoder fails with the same error. If the bytes are
  (a prefix of) the encodings of frames of known types and 32-bit lengths, exactly the frames
  that are complete reach the callback, in order and unchanged; when they are all complete the
  decoder reports that it is finished. All along its buffer is at most twice the size of the
  largest frame plus the largest chunk.
\<close>

theorem decoder_inverts_encoder:
  assumes "\<forall>f \<in> set fs. valid_frame f" and "concat cs @ ys = concat (map frame_bytes fs)"
    and "\<forall>f \<in> set fs. length (frame_bytes f) \<le> F" and "\<forall>c \<in> set cs. length c \<le> C"
  shows "(\<exists>k d. push_all collect cs new_decoder [] = (None, d, take k fs) \<and>
       concat cs = concat (map frame_bytes (take k fs)) @ unread d \<and>
       (unread d = [] \<or> k < length fs \<and> length (unread d) < length (frame_bytes (fs ! k))) \<and>
       (finished d \<longleftrightarrow> unread d = [])) \<and>
    (concat cs' = concat cs \<longrightarrow>
       fst (push_all h cs' new_decoder s) = fst (push_all h cs new_decoder s) \<and>
       snd (snd (push_all h cs' new_decoder s)) = snd (snd (push_all h cs new_decoder s))) \<and>
    length (fd_buf (fst (snd (push_all h cs new_decoder s)))) \<le> 2 * (F + C)"
proof -
  have empty: "frame_parser (unread new_decoder) = Inr None" by (simp add: frame_parser_def)
  obtain k r where k: "parse_all frame_parser (concat cs) = (take k fs, None, r)"
      "concat cs = concat (map frame_bytes (take k fs)) @ r"
      "r = [] \<or> k < length fs \<and> length r < length (frame_bytes (fs ! k))"
    using stream_frames.parse_prefix [OF assms(2,1)] by blast
  note c = push_all_feeds [OF new_decoder_simps(2) empty, of _ "take k fs" None r collect "[]"]
  obtain d where "push_all collect cs new_decoder [] = (None, d, take k fs)" "unread d = r" "decoder_wf d"
    using c [of cs] k(1) by (cases "push_all collect cs new_decoder []") (auto simp: feed_collect)
  then have "\<exists>k d. push_all collect cs new_decoder [] = (None, d, take k fs) \<and>
       concat cs = concat (map frame_bytes (take k fs)) @ unread d \<and>
       (unread d = [] \<or> k < length fs \<and> length (unread d) < length (frame_bytes (fs ! k))) \<and>
       (finished d \<longleftrightarrow> unread d = [])"
    using k(2,3) finished_iff by blast
  moreover have "fst (push_all h cs' new_decoder s) = fst (push_all h cs new_decoder s) \<and>
       snd (snd (push_all h cs' new_decoder s)) = snd (snd (push_all h cs new_decoder s))"
    if "concat cs' = concat cs"
    using push_all_feeds [OF new_decoder_simps(2) empty, of cs' "take k fs" None r h s]
      push_all_feeds [OF new_decoder_simps(2) empty, of cs "take k fs" None r h s] k(1) that by simp
  moreover have "length (fd_buf (fst (snd (push_all h cs new_decoder s)))) \<le> 2 * (F + C)"
    using push_all_buffer [OF new_decoder_simps(2) empty, of F C cs ys fs h s] assms
    by (simp add: new_decoder_def unread_def subarray_def)
  ultimately show ?thesis by blast
qed

theorem decoder_inverts_encoder_witness:
  "\<exists>d. push_all collect [[2, 0, 0], [0, 1, 7, 3], [0, 0, 0, 0]] new_decoder [] =
     (None, d, [(FRAME_DATA, [7]), (FRAME_END, [])]) \<and> finished d"
proof -
  let ?fs = "[(FRAME_DATA, [7]), (FRAME_END, [])] :: (byte \<times> byte list) list"
  let ?cs = "[[2, 0, 0], [0, 1, 7, 3], [0, 0, 0, 0]] :: byte list list"
  have enc: "concat ?cs @ [] = concat (map frame_bytes ?fs)"
    by (simp add: encodeFrame_def be32_def frame_types)
  have valid: "\<forall>f \<in> set ?fs. valid_frame f"
    by (simp add: valid_frame_def frame_type_def)
  have F: "\<forall>f \<in> set ?fs. length (frame_bytes f) \<le> 9" and C: "\<forall>c \<in> set ?cs. length c \<le> 9"
    by (simp_all add: encodeFrame_def)
  obtain k d where k: "push_all collect ?cs new_decoder [] = (None, d, take k ?fs)"
      "concat ?cs = concat (map frame_bytes (take k ?fs)) @ unread d"
      "unread d = [] \<or> k < length ?fs \<and> length (unread d) < length (frame_bytes (?fs ! k))"
      "finished d \<longleftrightarrow> unread d = []"
    using decoder_inverts_encoder [OF valid enc F C, THEN conjunct1] by blast
  have "k \<ge> 2"
  proof (rule ccontr)
    assume "\<not> 2 \<le> k"
    then consider "k = 0" | "k = 1" by linarith
    then show False
      using arg_cong [OF k(2), of length] k(3) by cases (auto simp: encodeFrame_def be32_def)
  qed
  then show ?thesis using k enc by auto
qed

end
