(* ===== verification/FramedStream.thy ===== *)
theory FramedStream
  imports StreamCodec
begin

text \<open>
  The two ends of a framed streaming response (\<^verbatim>\<open>packages/rpc/src/protocol/streamCodec.ts\<close>,
  second part): \<open>createInboundStreamMux\<close>, which routes decoded frames to the bodies of the open
  streams, and \<open>decodeFramedStream\<close>, which turns a framed wire body into a head and a body.

  A \<open>ReadableStream\<close> is its queue and its state: \<open>close\<close> lets the queue be read to its end,
  \<open>error\<close> drops the queue. The JSON readers of the payloads are arguments.
\<close>

subsection \<open>Readable streams\<close>

datatype 'e stream_state = Readable | CloseRequested | Errored 'e

record 'e body =
  b_queue :: "byte list list"
  b_state :: "'e stream_state"

definition new_body :: "'e body" where
  "new_body = \<lparr>b_queue = [], b_state = Readable\<rparr>"

definition enqueue :: "byte list \<Rightarrow> 'e body \<Rightarrow> 'e body" where
  "enqueue x b = b\<lparr>b_queue := b_queue b @ [x]\<rparr>"

text \<open>\<open>controller.close()\<close> and \<open>controller.error(e)\<close>; both throw on a stream that is no longer
  readable, and the code swallows that.\<close>

definition close_stream :: "'e body \<Rightarrow> 'e body" where
  "close_stream b = (if b_state b = Readable then b\<lparr>b_state := CloseRequested\<rparr> else b)"

definition error_stream :: "'e \<Rightarrow> 'e body \<Rightarrow> 'e body" where
  "error_stream e b = (case b_state b of Errored _ \<Rightarrow> b | _ \<Rightarrow> \<lparr>b_queue = [], b_state = Errored e\<rparr>)"

definition buffered :: "'e body \<Rightarrow> nat" where
  "buffered b = sum_list (map length (b_queue b))"

subsection \<open>The inbound multiplexer\<close>

definition CLOSED_MAX :: nat where "CLOSED_MAX = 1024"

datatype mux_event =
    UnknownStream nat byte nat
  | StreamOverflow nat nat

text \<open>The open controllers in insertion order, the retired ids, oldest first, and the bodies
  handed out.\<close>

record 'e mux =
  mx_controllers :: "nat list"
  mx_closed :: "nat list"
  mx_bodies :: "(nat, 'e body) jsmap"
  mx_events :: "mux_event list"
  mx_cap :: "nat option"
  mx_onOverflow :: bool

definition new_mux :: "nat option \<Rightarrow> bool \<Rightarrow> 'e mux" where
  "new_mux cap over = \<lparr>mx_controllers = [], mx_closed = [], mx_bodies = [], mx_events = [],
     mx_cap = cap, mx_onOverflow = over\<rparr>"

definition markClosed :: "nat \<Rightarrow> nat list \<Rightarrow> nat list" where
  "markClosed i closed =
     (let closed = set_add i closed
      in if length closed > CLOSED_MAX then removeAll (hd closed) closed else closed)"

definition on_body :: "nat \<Rightarrow> ('e body \<Rightarrow> 'e body) \<Rightarrow> 'e mux \<Rightarrow> 'e mux" where
  "on_body i f m =
     (case map_of (mx_bodies m) i of
        None \<Rightarrow> m
      | Some b \<Rightarrow> m\<lparr>mx_bodies := jset i (f b) (mx_bodies m)\<rparr>)"

definition retire_stream :: "nat \<Rightarrow> 'e mux \<Rightarrow> 'e mux" where
  "retire_stream i m =
     m\<lparr>mx_controllers := removeAll i (mx_controllers m), mx_closed := markClosed i (mx_closed m)\<rparr>"

definition mux_close :: "nat \<Rightarrow> 'e mux \<Rightarrow> 'e mux" where
  "mux_close i m =
     (if i \<notin> set (mx_controllers m) then m else on_body i close_stream (retire_stream i m))"

definition mux_fail :: "nat \<Rightarrow> 'e \<Rightarrow> 'e mux \<Rightarrow> 'e mux" where
  "mux_fail i e m =
     (if i \<notin> set (mx_controllers m) then m else on_body i (error_stream e) (retire_stream i m))"

text \<open>\<open>None\<close>: the id is already in use.\<close>

definition mux_acquire :: "nat \<Rightarrow> 'e mux \<Rightarrow> 'e mux option" where
  "mux_acquire i m =
     (if i \<in> set (mx_controllers m) \<or> i \<in> set (mx_closed m) then None
      else Some (m\<lparr>mx_controllers := mx_controllers m @ [i], mx_bodies := jset i new_body (mx_bodies m)\<rparr>))"

text \<open>Cancelling a body reaches its source unless the body has been read to its end or failed.\<close>

definition cancellable :: "'e body \<Rightarrow> bool" where
  "cancellable b \<longleftrightarrow> b_state b = Readable \<or> b_state b = CloseRequested \<and> b_queue b \<noteq> []"

definition cancel_stream :: "'e body \<Rightarrow> 'e body" where
  "cancel_stream b = \<lparr>b_queue = [], b_state = CloseRequested\<rparr>"

definition mux_cancel :: "nat \<Rightarrow> 'e mux \<Rightarrow> 'e mux" where
  "mux_cancel i m =
     (case map_of (mx_bodies m) i of
        None \<Rightarrow> m
      | Some b \<Rightarrow> if cancellable b then on_body i cancel_stream (retire_stream i m) else m)"

definition mux_push :: "nat \<Rightarrow> byte \<Rightarrow> byte list \<Rightarrow> 'e mux \<Rightarrow> 'e mux" where
  "mux_push i t payload m =
     (if i \<notin> set (mx_controllers m)
      then m\<lparr>mx_events := mx_events m @ [UnknownStream i t (length payload)]\<rparr>
      else
        (let m1 = on_body i (enqueue (encodeFrame t payload)) m
         in if t = FRAME_END then mux_close i m1
            else if t = FRAME_ERROR then mux_close i m1
            else (case (mx_cap m1, map_of (mx_bodies m1) i) of
                    (Some cap, Some b) \<Rightarrow>
                      if mx_onOverflow m1 \<and> buffered b > cap
                      then m1\<lparr>mx_events := mx_events m1 @ [StreamOverflow i (buffered b)]\<rparr>
                      else m1
                  | _ \<Rightarrow> m1)))"

definition mux_closeAll :: "'e \<Rightarrow> 'e mux \<Rightarrow> 'e mux" where
  "mux_closeAll e m = fold (\<lambda>i. mux_fail i e) (mx_controllers m) m"

text \<open>The consumer takes the oldest queued chunk.\<close>

definition mux_read :: "nat \<Rightarrow> 'e mux \<Rightarrow> byte list option \<times> 'e mux" where
  "mux_read i m =
     (case map_of (mx_bodies m) i of
        None \<Rightarrow> (None, m)
      | Some b \<Rightarrow>
          (case b_queue b of
             [] \<Rightarrow> (None, m)
           | x # xs \<Rightarrow> (Some x, m\<lparr>mx_bodies := jset i (b\<lparr>b_queue := xs\<rparr>) (mx_bodies m)\<rparr>)))"

subsection \<open>Decoding one framed response\<close>

datatype framed_error =
    HeadTimeout
  | AbortedByCaller
  | LengthMismatch "int option" nat
  | RemoteFailure string
  | BadPayload string
  | BodyAlreadyClosed
  | UnknownFrameType byte
  | WireFailure string

record head =
  hd_status :: int
  hd_statusText :: string
  hd_headerPairs :: "(string \<times> string) list"
  hd_finalUrl :: string

datatype head_promise = HeadPending | HeadResolved "head option" | HeadRejected framed_error

text \<open>
  The readers of JSON payloads: a head, the declared number of body bytes (\<open>None\<close> when it is
  not a safe integer), the failure of an error frame.
\<close>

record payload_readers =
  readHead :: "byte list \<Rightarrow> (string, head) result"
  readEnd :: "byte list \<Rightarrow> (string, int option) result"
  readError :: "byte list \<Rightarrow> (string, string) result"

definition parseEndFrame :: "payload_readers \<Rightarrow> byte list \<Rightarrow> (string, int option) result" where
  "parseEndFrame R payload = (if length payload = 0 then Inr (Some 0) else readEnd R payload)"

record framed =
  fr_head :: head_promise
  fr_headTimer :: bool
  fr_headSeen :: bool
  fr_body :: "framed_error body"
  fr_delivered :: "byte list list"
  fr_bodyClosed :: bool
  fr_bytesReceived :: nat
  fr_cancelNotified :: bool
  fr_notifications :: nat
  fr_decoder :: frame_decoder
  fr_running :: bool

definition new_framed :: "bool \<Rightarrow> framed" where
  "new_framed timer = \<lparr>fr_head = HeadPending, fr_headTimer = timer, fr_headSeen = False,
     fr_body = new_body, fr_delivered = [], fr_bodyClosed = False, fr_bytesReceived = 0,
     fr_cancelNotified = False, fr_notifications = 0, fr_decoder = new_decoder, fr_running = True\<rparr>"

text \<open>A promise settles once; any settlement clears the head timer.\<close>

definition settle :: "head_promise \<Rightarrow> framed \<Rightarrow> framed" where
  "settle p s = s\<lparr>fr_headTimer := False, fr_head := (if fr_head s = HeadPending then p else fr_head s)\<rparr>"

definition resolveHead :: "head option \<Rightarrow> framed \<Rightarrow> framed" where
  "resolveHead h = settle (HeadResolved h)"

definition rejectHead :: "framed_error \<Rightarrow> framed \<Rightarrow> framed" where
  "rejectHead e = settle (HeadRejected e)"

definition closeBody :: "framed \<Rightarrow> framed" where
  "closeBody s = (if fr_bodyClosed s then s
     else s\<lparr>fr_bodyClosed := True, fr_body := close_stream (fr_body s)\<rparr>)"

definition errorBody :: "framed_error \<Rightarrow> framed \<Rightarrow> framed" where
  "errorBody e s = (if fr_bodyClosed s then s
     else s\<lparr>fr_bodyClosed := True, fr_body := error_stream e (fr_body s)\<rparr>)"

text \<open>The frame callback: the error it throws, if any, and the state it leaves.\<close>

definition on_frame :: "payload_readers \<Rightarrow> byte \<Rightarrow> byte list \<Rightarrow> framed \<Rightarrow> framed_error option \<times> framed" where
  "on_frame R t payload s =
     (if t = FRAME_HEAD
      then (None, case readHead R payload of
                    Inr h \<Rightarrow> resolveHead (Some h) (s\<lparr>fr_headSeen := True\<rparr>)
                  | Inl e \<Rightarrow> rejectHead (BadPayload e) (s\<lparr>fr_headSeen := True\<rparr>))
      else if t = FRAME_DATA
      then (let s1 = s\<lparr>fr_bytesReceived := fr_bytesReceived s + length payload\<rparr>
            in if b_state (fr_body s1) = Readable
               then (None, s1\<lparr>fr_body := enqueue payload (fr_body s1), fr_delivered := fr_delivered s1 @ [payload]\<rparr>)
               else (Some BodyAlreadyClosed, s1))
      else if t = FRAME_END
      then (case parseEndFrame R payload of
              Inl e \<Rightarrow> (Some (BadPayload e), s)
            | Inr n \<Rightarrow> (None, if n \<noteq> Some (int (fr_bytesReceived s))
                             then errorBody (LengthMismatch n (fr_bytesReceived s)) s
                             else closeBody s))
      else if t = FRAME_ERROR
      then (let e = (case readError R payload of
                       Inr f \<Rightarrow> RemoteFailure f
                     | Inl _ \<Rightarrow> RemoteFailure ''Malformed streaming RPC error'')
            in (None, if fr_headSeen s then errorBody e s else rejectHead e s))
      else (None, s))"

text \<open>The reading loop ends: \<open>resolveHead(null)\<close> and \<open>closeBody\<close>, or the \<open>catch\<close>.\<close>

definition wire_failed :: "framed_error \<Rightarrow> framed \<Rightarrow> framed" where
  "wire_failed e s =
     (let s1 = s\<lparr>fr_running := False\<rparr>
      in if \<not> fr_headSeen s1 then rejectHead e s1 else errorBody e s1)"

definition wire_done :: "framed \<Rightarrow> framed" where
  "wire_done s =
     (let s1 = s\<lparr>fr_running := False\<rparr>;
          s2 = (if \<not> fr_headSeen s1 then resolveHead None s1 else s1)
      in closeBody s2)"

definition framed_failure :: "framed_error drain_error \<Rightarrow> framed_error" where
  "framed_failure e = (case e of UnknownFrame t \<Rightarrow> UnknownFrameType t | FromCallback e \<Rightarrow> e)"

text \<open>One chunk of the wire body; the decoder is state of the closure.\<close>

definition wire_chunk :: "payload_readers \<Rightarrow> byte list \<Rightarrow> framed \<Rightarrow> framed" where
  "wire_chunk R chunk s =
     (case push (on_frame R) chunk (fr_decoder s) s of
        (None, d, s1) \<Rightarrow> s1\<lparr>fr_decoder := d\<rparr>
      | (Some e, d, s1) \<Rightarrow> wire_failed (framed_failure e) (s1\<lparr>fr_decoder := d\<rparr>))"

definition head_timeout :: "framed \<Rightarrow> framed" where
  "head_timeout s =
     (if \<not> fr_headTimer s then s
      else if \<not> fr_headSeen s then rejectHead HeadTimeout s else s\<lparr>fr_headTimer := False\<rparr>)"

definition caller_abort :: "framed_error \<Rightarrow> framed \<Rightarrow> framed" where
  "caller_abort e s =
     (let s1 = (if \<not> fr_headSeen s then rejectHead e s else s) in errorBody e s1)"

definition notifyBodyCancel :: "framed \<Rightarrow> framed" where
  "notifyBodyCancel s = (if fr_cancelNotified s \<or> fr_bodyClosed s then s
     else s\<lparr>fr_cancelNotified := True, fr_notifications := fr_notifications s + 1\<rparr>)"

text \<open>The consumer cancels the body: the stream becomes closed and drops its queue.\<close>

definition body_cancel :: "framed \<Rightarrow> framed" where
  "body_cancel s =
     (if cancellable (fr_body s)
      then (let s1 = notifyBodyCancel s
            in s1\<lparr>fr_bodyClosed := True, fr_body := cancel_stream (fr_body s1)\<rparr>)
      else s)"

definition NULL_BODY_STATUSES :: "int list" where
  "NULL_BODY_STATUSES = [204, 205, 304]"

text \<open>Status, status text, headers, final URL, and whether the response has a body.\<close>

definition decoded_head :: "head option \<Rightarrow> string \<Rightarrow> head" where
  "decoded_head h requestedUrl =
     (case h of
        None \<Rightarrow> \<lparr>hd_status = 502, hd_statusText = ''Bad Gateway'', hd_headerPairs = [], hd_finalUrl = requestedUrl\<rparr>
      | Some h \<Rightarrow> h\<lparr>hd_finalUrl := (if hd_finalUrl h = [] then requestedUrl else hd_finalUrl h)\<rparr>)"

definition responseFromDecodedStream :: "head \<Rightarrow> head \<times> bool" where
  "responseFromDecodedStream h =
     (let status = (if hd_status h \<ge> 200 \<and> hd_status h \<le> 599 then hd_status h else 502)
      in (h\<lparr>hd_status := status\<rparr>, status \<notin> set NULL_BODY_STATUSES))"

subsection \<open>Runs of the decoder\<close>

inductive framed_step :: "payload_readers \<Rightarrow> framed \<Rightarrow> framed \<Rightarrow> bool" for R where
  fs_chunk: "fr_running s \<Longrightarrow> framed_step R s (wire_chunk R chunk s)"
| fs_done: "fr_running s \<Longrightarrow> framed_step R s (wire_done s)"
| fs_error: "fr_running s \<Longrightarrow> framed_step R s (wire_failed e s)"
| fs_timeout: "framed_step R s (head_timeout s)"
| fs_abort: "framed_step R s (caller_abort e s)"
| fs_cancel: "framed_step R s (body_cancel s)"

inductive framed_reachable :: "payload_readers \<Rightarrow> framed \<Rightarrow> bool" for R where
  fr_start: "framed_reachable R (new_framed timer)"
| fr_step: "framed_reachable R s \<Longrightarrow> framed_step R s s' \<Longrightarrow> framed_reachable R s'"

text \<open>What holds of the closure's variables between events.\<close>

definition framed_ok :: "framed \<Rightarrow> bool" where
  "framed_ok s \<longleftrightarrow>
     (fr_headSeen s \<longrightarrow> fr_head s \<noteq> HeadPending) \<and>
     (fr_running s \<and> \<not> fr_headSeen s \<longrightarrow> (\<forall>h. fr_head s \<noteq> HeadResolved h)) \<and>
     (fr_bodyClosed s \<longleftrightarrow> b_state (fr_body s) \<noteq> Readable) \<and> decoder_wf (fr_decoder s) \<and>
     (\<not> fr_running s \<longrightarrow> fr_head s \<noteq> HeadPending \<and>
        ((\<exists>h. fr_head s = HeadResolved h) \<longrightarrow> fr_bodyClosed s))"

text \<open>What a settled head and a decided body keep.\<close>

definition framed_keeps :: "framed \<Rightarrow> framed \<Rightarrow> bool" where
  "framed_keeps s t \<longleftrightarrow>
     (fr_head s \<noteq> HeadPending \<longrightarrow> fr_head t = fr_head s) \<and>
     (fr_bodyClosed s \<longrightarrow> fr_bodyClosed t \<and> fr_delivered t = fr_delivered s) \<and>
     (\<exists>ps. fr_delivered t = fr_delivered s @ ps)"

lemma framed_keeps_refl [simp]: "framed_keeps s s"
  by (simp add: framed_keeps_def)

lemma framed_keeps_trans: "framed_keeps s t \<Longrightarrow> framed_keeps t u \<Longrightarrow> framed_keeps s u"
  by (auto simp: framed_keeps_def)

lemmas framed_ops = settle_def resolveHead_def rejectHead_def closeBody_def errorBody_def
  close_stream_def error_stream_def enqueue_def cancel_stream_def

lemma on_frame_ok:
  "framed_ok s \<Longrightarrow> fr_running s \<Longrightarrow>
     framed_ok (snd (on_frame R t payload s)) \<and> framed_keeps s (snd (on_frame R t payload s)) \<and>
     fr_running (snd (on_frame R t payload s))"
  by (auto simp: on_frame_def framed_ops Let_def framed_ok_def framed_keeps_def
      split: sum.splits stream_state.splits)

lemma feed_ok:
  "framed_ok s \<Longrightarrow> fr_running s \<Longrightarrow>
     framed_ok (snd (feed (on_frame R) fs s)) \<and> framed_keeps s (snd (feed (on_frame R) fs s)) \<and>
     fr_running (snd (feed (on_frame R) fs s))"
proof (induction fs arbitrary: s)
  case (Cons f fs)
  obtain t payload where f: "f = (t, payload)" by (cases f)
  obtain e s1 where h: "on_frame R t payload s = (e, s1)" by fastforce
  have "framed_ok s1" "framed_keeps s s1" "fr_running s1"
    using on_frame_ok [OF Cons.prems, of R t payload] h by simp_all
  then show ?case
    using Cons.IH [of s1] h framed_keeps_trans [of s s1] by (cases e) (auto simp: f)
qed simp

lemma wire_failed_ok:
  "framed_ok s \<Longrightarrow> fr_running s \<Longrightarrow> framed_ok (wire_failed e s) \<and> framed_keeps s (wire_failed e s)"
  by (auto simp: wire_failed_def framed_ops Let_def framed_ok_def framed_keeps_def
      split: stream_state.splits)

lemma wire_done_ok:
  "framed_ok s \<Longrightarrow> fr_running s \<Longrightarrow> framed_ok (wire_done s) \<and> framed_keeps s (wire_done s)"
  by (auto simp: wire_done_def framed_ops Let_def framed_ok_def framed_keeps_def)

lemma with_decoder:
  "framed_ok s \<Longrightarrow> decoder_wf d \<Longrightarrow> framed_ok (s\<lparr>fr_decoder := d\<rparr>)"
  "framed_keeps s t \<Longrightarrow> framed_keeps s (t\<lparr>fr_decoder := d\<rparr>)"
  by (auto simp: framed_ok_def framed_keeps_def)

lemma wire_chunk_ok:
  assumes "framed_ok s" and "fr_running s"
  shows "framed_ok (wire_chunk R c s) \<and> framed_keeps s (wire_chunk R c s)"
proof -
  have "decoder_wf (fr_decoder s)" using assms(1) by (simp add: framed_ok_def)
  then obtain fs u where p: "fst (push (on_frame R) c (fr_decoder s) s) = outcome_of (fst (feed (on_frame R) fs s)) u"
      "snd (snd (push (on_frame R) c (fr_decoder s) s)) = snd (feed (on_frame R) fs s)"
      "decoder_wf (fst (snd (push (on_frame R) c (fr_decoder s) s)))"
    by (rule push_feeds)
  obtain e d s1 where eq: "push (on_frame R) c (fr_decoder s) s = (e, d, s1)"
    by (cases "push (on_frame R) c (fr_decoder s) s")
  have s1: "framed_ok (s1\<lparr>fr_decoder := d\<rparr>)" "framed_keeps s (s1\<lparr>fr_decoder := d\<rparr>)"
      "fr_running (s1\<lparr>fr_decoder := d\<rparr>)"
    using feed_ok [OF assms, of R fs] p eq with_decoder by simp_all
  show ?thesis
    using s1 wire_failed_ok [OF s1(1,3)] framed_keeps_trans [OF s1(2)]
    by (auto simp: wire_chunk_def eq split: option.splits)
qed

lemma framed_step_ok:
  "framed_step R s s' \<Longrightarrow> framed_ok s \<Longrightarrow> framed_ok s' \<and> framed_keeps s s'"
proof (induction rule: framed_step.induct)
  case (fs_timeout s)
  then show ?case
    by (auto simp: head_timeout_def framed_ops framed_ok_def framed_keeps_def)
next
  case (fs_abort s e)
  then show ?case
    by (auto simp: caller_abort_def framed_ops Let_def framed_ok_def framed_keeps_def split: stream_state.splits)
next
  case (fs_cancel s)
  then show ?case
    by (auto simp: body_cancel_def notifyBodyCancel_def cancellable_def framed_ops Let_def framed_ok_def
        framed_keeps_def)
qed (use wire_chunk_ok wire_done_ok wire_failed_ok in blast)+

lemma framed_reachable_ok: "framed_reachable R s \<Longrightarrow> framed_ok s"
  by (induction rule: framed_reachable.induct)
    (use framed_step_ok in \<open>auto simp: framed_ok_def new_framed_def new_body_def\<close>)

subsection \<open>A whole response\<close>

text \<open>The reading loop over the chunks of a wire body.\<close>

definition wire_chunks :: "payload_readers \<Rightarrow> byte list list \<Rightarrow> framed \<Rightarrow> framed" where
  "wire_chunks R cs s = fold (\<lambda>c s. if fr_running s then wire_chunk R c s else s) cs s"

lemma on_frame_decoder:
  "on_frame R t payload (s\<lparr>fr_decoder := x\<rparr>) =
     (fst (on_frame R t payload s), (snd (on_frame R t payload s))\<lparr>fr_decoder := x\<rparr>)"
  by (simp add: on_frame_def framed_ops Let_def split: sum.splits stream_state.splits)

lemma drain_decoder:
  "drain (on_frame R) d (s\<lparr>fr_decoder := x\<rparr>) =
     (fst (drain (on_frame R) d s), fst (snd (drain (on_frame R) d s)),
      (snd (snd (drain (on_frame R) d s)))\<lparr>fr_decoder := x\<rparr>)"
proof (induction "on_frame R" d s rule: drain.induct)
  case (1 d s)
  show ?case
  proof (cases "fd_length d - fd_offset d < 5 \<or> \<not> frame_type (byte_at (fd_offset d) d) \<or>
      fd_length d - fd_offset d < 5 + frame_length (fd_offset d) d")
    case True
    then show ?thesis by (auto simp: drain.simps [of "on_frame R" d] Let_def)
  next
    case False
    let ?n = "fd_offset d + (5 + frame_length (fd_offset d) d)"
    let ?t = "byte_at (fd_offset d) d" and ?p = "subarray (fd_offset d + 5) ?n (fd_buf d)"
    obtain e s1 where h: "on_frame R ?t ?p s = (e, s1)" by fastforce
    have step: "drain (on_frame R) d s' = (case fst (on_frame R ?t ?p s') of
        Some e \<Rightarrow> (Some (FromCallback e), consume ?n d, snd (on_frame R ?t ?p s'))
        | None \<Rightarrow> drain (on_frame R) (consume ?n d) (snd (on_frame R ?t ?p s')))" for s'
      using False by (simp add: drain.simps [of "on_frame R" d] Let_def case_prod_beta)
    have IH: "drain (on_frame R) (consume ?n d) (s1\<lparr>fr_decoder := x\<rparr>) =
        (fst (drain (on_frame R) (consume ?n d) s1), fst (snd (drain (on_frame R) (consume ?n d) s1)),
         (snd (snd (drain (on_frame R) (consume ?n d) s1)))\<lparr>fr_decoder := x\<rparr>)" if "e = None"
      by (rule 1 [OF _ refl refl _ refl _ refl refl h [symmetric] that]) (use False in simp_all)
    show ?thesis
      unfolding step on_frame_decoder h using IH by (cases e) simp_all
  qed
qed

lemma push_all_decoder:
  "push_all (on_frame R) cs d (s\<lparr>fr_decoder := x\<rparr>) =
     (fst (push_all (on_frame R) cs d s), fst (snd (push_all (on_frame R) cs d s)),
      (snd (snd (push_all (on_frame R) cs d s)))\<lparr>fr_decoder := x\<rparr>)"
proof (induction cs arbitrary: d s)
  case (Cons c cs)
  have p: "push (on_frame R) c d (s\<lparr>fr_decoder := x\<rparr>) =
     (fst (push (on_frame R) c d s), fst (snd (push (on_frame R) c d s)),
      (snd (snd (push (on_frame R) c d s)))\<lparr>fr_decoder := x\<rparr>)"
    by (simp add: push_def drain_decoder)
  obtain e d1 s1 where eq: "push (on_frame R) c d s = (e, d1, s1)" by (cases "push (on_frame R) c d s")
  show ?case using Cons.IH [of d1 s1] by (simp add: p eq split: option.splits)
qed simp

lemma fr_running_on_frame [simp]: "fr_running (snd (on_frame R t payload s)) = fr_running s"
  by (auto simp: on_frame_def framed_ops Let_def split: sum.splits stream_state.splits)

lemma wire_chunks_stopped: "\<not> fr_running s \<Longrightarrow> wire_chunks R cs s = s"
  by (induction cs) (simp_all add: wire_chunks_def)

lemma not_running_failed: "\<not> fr_running (wire_failed e s)"
  by (simp add: wire_failed_def framed_ops Let_def)

lemma wire_chunks_push_all:
  "framed_ok s \<Longrightarrow> fr_running s \<Longrightarrow>
     wire_chunks R cs s =
       (case push_all (on_frame R) cs (fr_decoder s) s of
          (None, d, s1) \<Rightarrow> s1\<lparr>fr_decoder := d\<rparr>
        | (Some e, d, s1) \<Rightarrow> wire_failed (framed_failure e) (s1\<lparr>fr_decoder := d\<rparr>))"
proof (induction cs arbitrary: s)
  case Nil
  then show ?case by (simp add: wire_chunks_def)
next
  case (Cons c cs)
  have chunks: "wire_chunks R (c # cs) s = wire_chunks R cs (wire_chunk R c s)"
    using Cons.prems(2) by (simp add: wire_chunks_def)
  obtain e d1 s1 where eq: "push (on_frame R) c (fr_decoder s) s = (e, d1, s1)"
    by (cases "push (on_frame R) c (fr_decoder s) s")
  show ?case
  proof (cases e)
    case None
    let ?s = "s1\<lparr>fr_decoder := d1\<rparr>"
    have step: "wire_chunk R c s = ?s" by (simp add: wire_chunk_def eq None)
    have "decoder_wf (fr_decoder s)" using Cons.prems(1) by (simp add: framed_ok_def)
    then obtain fs u where "s1 = snd (feed (on_frame R) fs s)"
      by (rule push_feeds [of _ "on_frame R" c s]) (simp add: eq)
    then have run: "fr_running ?s" using feed_ok [OF Cons.prems, of R fs] by simp
    have ok: "framed_ok ?s" using wire_chunk_ok [OF Cons.prems, of R c] step by simp
    obtain e2 d2 s2 where p: "push_all (on_frame R) cs d1 s1 = (e2, d2, s2)"
      by (cases "push_all (on_frame R) cs d1 s1")
    show ?thesis
      unfolding chunks step Cons.IH [OF ok run]
      by (simp add: eq None p push_all_decoder split: option.splits)
  next
    case (Some err)
    then show ?thesis
      unfolding chunks
      by (simp add: wire_chunk_def eq wire_chunks_stopped not_running_failed)
  qed
qed

lemma new_framed_ok: "framed_ok (new_framed timer)" "fr_running (new_framed timer)"
  by (simp_all add: new_framed_def new_body_def framed_ok_def)

lemma new_framed_fields [simp]:
  "\<not> fr_bodyClosed (new_framed timer)" "fr_decoder (new_framed timer) = new_decoder"
  by (simp_all add: new_framed_def)

lemma feed_data:
  "b_state (fr_body s) = Readable \<Longrightarrow>
     feed (on_frame R) (map (Pair FRAME_DATA) ps) s =
       (None, s\<lparr>fr_bytesReceived := fr_bytesReceived s + sum_list (map length ps),
                fr_body := (fr_body s)\<lparr>b_queue := b_queue (fr_body s) @ ps\<rparr>,
                fr_delivered := fr_delivered s @ ps\<rparr>)"
  by (induction ps arbitrary: s) (auto simp: on_frame_def Let_def enqueue_def frame_types add.assoc)

text \<open>The state after a head frame and data frames, however they are chunked.\<close>

lemma after_data:
  assumes "frame_parser r = Inr None" and "valid_frame (FRAME_HEAD, hp)" and "readHead R hp = Inr h"
    and "\<forall>x \<in> set ps. valid_frame (FRAME_DATA, x)" and "\<forall>f \<in> set fs. valid_frame f"
    and "concat cs = concat (map frame_bytes ((FRAME_HEAD, hp) # map (Pair FRAME_DATA) ps @ fs)) @ r"
  shows "\<exists>d. wire_chunks R cs (new_framed timer) =
    (case feed (on_frame R) fs ((new_framed timer)\<lparr>fr_head := HeadResolved (Some h), fr_headTimer := False,
        fr_headSeen := True, fr_body := \<lparr>b_queue = ps, b_state = Readable\<rparr>, fr_delivered := ps,
        fr_bytesReceived := sum_list (map length ps)\<rparr>) of
       (None, s1) \<Rightarrow> s1\<lparr>fr_decoder := d\<rparr>
     | (Some e, s1) \<Rightarrow> wire_failed e (s1\<lparr>fr_decoder := d\<rparr>))"
proof -
  let ?fs = "(FRAME_HEAD, hp) # map (Pair FRAME_DATA) ps @ fs"
  have valid: "\<forall>f \<in> set ?fs. valid_frame f" using assms(2,4,5) by auto
  have parse: "parse_all frame_parser (unread new_decoder @ concat cs) = (?fs, None, r)"
    using stream_frames.parse_all_encoded [OF valid, of r] stream_frames.parse_all_stop(2) [OF assms(1)]
    by (simp add: assms(6))
  have empty: "frame_parser (unread new_decoder) = Inr None" by (simp add: frame_parser_def)
  note fed = push_all_feeds [OF new_decoder_simps(2) empty parse, of "on_frame R" "new_framed timer"]
  obtain e d s1 where eq: "push_all (on_frame R) cs new_decoder (new_framed timer) = (e, d, s1)"
    by (cases "push_all (on_frame R) cs new_decoder (new_framed timer)")
  let ?s = "(new_framed timer)\<lparr>fr_head := HeadResolved (Some h), fr_headTimer := False, fr_headSeen := True\<rparr>"
  have "on_frame R FRAME_HEAD hp (new_framed timer) = (None, ?s)"
    using assms(3) by (simp add: on_frame_def framed_ops new_framed_def)
  moreover have "b_state (fr_body ?s) = Readable" by (simp add: new_framed_def new_body_def)
  ultimately have feed: "feed (on_frame R) ?fs (new_framed timer) =
      feed (on_frame R) fs (?s\<lparr>fr_body := \<lparr>b_queue = ps, b_state = Readable\<rparr>, fr_delivered := ps,
        fr_bytesReceived := sum_list (map length ps)\<rparr>)"
    using feed_data [of ?s R ps] by (simp add: feed_append new_framed_def new_body_def)
  have "wire_chunks R cs (new_framed timer) =
       (case e of None \<Rightarrow> s1\<lparr>fr_decoder := d\<rparr>
        | Some e \<Rightarrow> wire_failed (framed_failure e) (s1\<lparr>fr_decoder := d\<rparr>))"
    using wire_chunks_push_all [OF new_framed_ok [of timer], where R = R and cs = cs] by (simp add: eq split: option.splits)
  moreover have "e = outcome_of (fst (feed (on_frame R) ?fs (new_framed timer))) None"
      "s1 = snd (feed (on_frame R) ?fs (new_framed timer))"
    using fed by (simp_all add: eq)
  ultimately show ?thesis
    unfolding feed
    by (intro exI [of _ d]) (auto simp: framed_failure_def split: prod.splits option.splits)
qed

section \<open>Properties\<close>

text \<open>
  C28. A caller of \<open>decodeFramedStream\<close> never hangs once the wire has ended, and gets one answer.
  In every reachable state of a response, whatever the order of chunks, wire end or failure,
  head deadline, abort and cancel: when the reading loop has ended the head promise is settled,
  and if it was resolved the body is no longer open; an event never changes a settled head, and
  never adds bytes to a body that was closed, failed or cancelled.
\<close>

theorem framed_response_settles:
  assumes "framed_reachable R s"
  shows "(\<not> fr_running s \<longrightarrow> fr_head s \<noteq> HeadPending \<and>
      ((\<exists>h. fr_head s = HeadResolved h) \<longrightarrow> b_state (fr_body s) \<noteq> Readable)) \<and>
    (\<forall>t. framed_step R s t \<longrightarrow>
      (fr_head s \<noteq> HeadPending \<longrightarrow> fr_head t = fr_head s) \<and>
      (b_state (fr_body s) \<noteq> Readable \<longrightarrow> b_state (fr_body t) \<noteq> Readable \<and> fr_delivered t = fr_delivered s) \<and>
      (\<exists>ps. fr_delivered t = fr_delivered s @ ps))"
proof -
  have ok: "framed_ok s" using assms by (rule framed_reachable_ok)
  have "(fr_head s \<noteq> HeadPending \<longrightarrow> fr_head t = fr_head s) \<and>
      (b_state (fr_body s) \<noteq> Readable \<longrightarrow> b_state (fr_body t) \<noteq> Readable \<and> fr_delivered t = fr_delivered s) \<and>
      (\<exists>ps. fr_delivered t = fr_delivered s @ ps)" if "framed_step R s t" for t
    using framed_step_ok [OF that ok] ok unfolding framed_ok_def framed_keeps_def by blast
  then show ?thesis using ok by (auto simp: framed_ok_def)
qed

definition sample_readers :: payload_readers where
  "sample_readers = \<lparr>readHead = (\<lambda>_. Inr \<lparr>hd_status = 200, hd_statusText = ''OK'', hd_headerPairs = [], hd_finalUrl = []\<rparr>),
     readEnd = (\<lambda>bs. Inr (Some (int (length bs)))), readError = (\<lambda>_. Inr ''failed'')\<rparr>"

theorem framed_response_settles_witness:
  "fr_head (wire_done (new_framed True)) \<noteq> HeadPending \<and> \<not> fr_running (wire_done (new_framed True))"
proof -
  have "\<not> fr_running (wire_done (new_framed True))"
    by (simp add: wire_done_def framed_ops Let_def)
  moreover have "framed_reachable sample_readers (wire_done (new_framed True))"
    by (rule fr_step [OF fr_start fs_done]) (rule new_framed_ok(2))
  ultimately show ?thesis
    using framed_response_settles by blast
qed

text \<open>
  C27. The body is what was sent, or the failure is reported. For a response that is a head
  frame, data frames and an end frame, cut into chunks in any way, the head is the one sent,
  the body delivers exactly the data payloads in order, and it then closes if the declared
  number of bytes is the number delivered and fails with a length mismatch otherwise.
\<close>

theorem framed_body_exact:
  assumes "valid_frame (FRAME_HEAD, hp)" and "\<forall>x \<in> set ps. valid_frame (FRAME_DATA, x)"
    and "valid_frame (FRAME_END, ep)" and "readHead R hp = Inr h" and "parseEndFrame R ep = Inr n"
    and "concat cs = concat (map frame_bytes ((FRAME_HEAD, hp) # map (Pair FRAME_DATA) ps @ [(FRAME_END, ep)]))"
    and "s = wire_done (wire_chunks R cs (new_framed timer))"
  shows "fr_head s = HeadResolved (Some h) \<and> fr_delivered s = ps \<and> \<not> fr_running s \<and>
    (if n = Some (int (length (concat ps)))
     then fr_body s = \<lparr>b_queue = ps, b_state = CloseRequested\<rparr>
     else b_state (fr_body s) = Errored (LengthMismatch n (length (concat ps))))"
proof -
  have "frame_parser [] = Inr None" by (simp add: frame_parser_def)
  then show ?thesis
    using after_data [of "[]" hp R h ps "[(FRAME_END, ep)]" cs timer] assms
    by (auto simp: on_frame_def frame_types framed_ops wire_done_def Let_def length_concat split: if_splits)
qed

theorem framed_body_exact_witness:
  "fr_body (wire_done (wire_chunks sample_readers [[1, 0, 0, 0, 0, 2, 0], [0, 0, 1, 9, 3, 0, 0, 0, 1, 0]]
     (new_framed False))) = \<lparr>b_queue = [[9]], b_state = CloseRequested\<rparr>"
proof -
  have valid: "valid_frame (t, x)" if "frame_type t" "length x \<le> 1" for t and x :: "byte list"
    using that by (simp add: valid_frame_def)
  have types: "frame_type FRAME_HEAD" "frame_type FRAME_DATA" "frame_type FRAME_END"
    by (simp_all add: frame_type_def)
  show ?thesis
    using framed_body_exact [OF valid [OF types(1), of "[]"] _ valid [OF types(3), of "[0]"] _ _ _ refl,
        of "[[9]]" sample_readers _ "Some 1" "[[1, 0, 0, 0, 0, 2, 0], [0, 0, 1, 9, 3, 0, 0, 0, 1, 0]]" False]
      valid [OF types(2), of "[9]"]
    by (simp add: sample_readers_def parseEndFrame_def encodeFrame_def be32_def frame_types)
qed

text \<open>
  A truncated body is not noticed. If the wire ends after the head and some of the data, even
  inside a frame, before any end frame, then the body closes normally with the bytes that
  arrived, as a complete one does: the missing end frame is no error, and neither are the bytes
  the decoder still holds.
\<close>

theorem framed_truncation_unnoticed:
  assumes "valid_frame (FRAME_HEAD, hp)" and "\<forall>x \<in> set ps. valid_frame (FRAME_DATA, x)"
    and "readHead R hp = Inr h" and "frame_parser r = Inr None"
    and "concat cs = concat (map frame_bytes ((FRAME_HEAD, hp) # map (Pair FRAME_DATA) ps)) @ r"
    and "s = wire_done (wire_chunks R cs (new_framed timer))"
  shows "fr_head s = HeadResolved (Some h) \<and> fr_body s = \<lparr>b_queue = ps, b_state = CloseRequested\<rparr>"
  using after_data [of r hp R h ps "[]" cs timer] assms
  by (auto simp: framed_ops wire_done_def Let_def)

theorem framed_truncation_unnoticed_witness:
  "fr_body (wire_done (wire_chunks sample_readers [[1, 0, 0, 0, 0, 2, 0], [0, 0, 1, 9, 2, 0, 0]]
     (new_framed False))) = \<lparr>b_queue = [[9]], b_state = CloseRequested\<rparr>"
proof -
  have types: "valid_frame (FRAME_HEAD, [])" "\<forall>x \<in> set [[9]]. valid_frame (FRAME_DATA, x)"
    by (simp_all add: frame_type_def valid_frame_def)
  have rest: "frame_parser [2, 0, 0] = Inr None" by (simp add: frame_parser_def)
  show ?thesis
    using framed_truncation_unnoticed [OF types _ rest _ refl, of sample_readers _
        "[[1, 0, 0, 0, 0, 2, 0], [0, 0, 1, 9, 2, 0, 0]]" False]
    by (simp add: sample_readers_def encodeFrame_def be32_def frame_types)
qed

end
