(* ===== verification/StreamMux.thy ===== *)
theory StreamMux
  imports FramedStream
begin

text \<open>
  The runs of the inbound multiplexer of \<^verbatim>\<open>packages/rpc/src/protocol/streamCodec.ts\<close>
  (\<open>createInboundStreamMux\<close>, modelled in \<open>FramedStream\<close>): its invariant and the routing of
  frames to stream bodies.
\<close>

inductive mux_step :: "'e mux \<Rightarrow> 'e mux \<Rightarrow> bool" where
  m_acquire: "mux_acquire i m = Some m' \<Longrightarrow> mux_step m m'"
| m_push: "mux_step m (mux_push i t payload m)"
| m_fail: "mux_step m (mux_fail i e m)"
| m_closeAll: "mux_step m (mux_closeAll e m)"
| m_cancel: "mux_step m (mux_cancel i m)"
| m_read: "mux_step m (snd (mux_read i m))"

inductive mux_reachable :: "'e mux \<Rightarrow> bool" where
  mux_start: "mux_reachable (new_mux cap over)"
| mux_next: "mux_reachable m \<Longrightarrow> mux_step m m' \<Longrightarrow> mux_reachable m'"

definition closed_ok :: "nat list \<Rightarrow> bool" where
  "closed_ok closed \<longleftrightarrow> distinct closed \<and> length closed \<le> CLOSED_MAX"

definition mux_ok :: "'e mux \<Rightarrow> bool" where
  "mux_ok m \<longleftrightarrow>
     distinct (mx_controllers m) \<and> set (mx_controllers m) \<inter> set (mx_closed m) = {} \<and>
     closed_ok (mx_closed m) \<and>
     (\<forall>i \<in> set (mx_controllers m). \<exists>b. map_of (mx_bodies m) i = Some b \<and> b_state b = Readable)"

lemma mux_okD:
  assumes "mux_ok m"
  shows "distinct (mx_controllers m)" and "set (mx_controllers m) \<inter> set (mx_closed m) = {}"
    and "closed_ok (mx_closed m)"
    and "i \<in> set (mx_controllers m) \<Longrightarrow> \<exists>b. map_of (mx_bodies m) i = Some b \<and> b_state b = Readable"
  using assms by (auto simp: mux_ok_def)

lemma markClosed_ok:
  assumes "closed_ok closed"
  shows "closed_ok (markClosed i closed)" and "i \<in> set (markClosed i closed)"
    and "set (markClosed i closed) \<subseteq> insert i (set closed)"
proof -
  have d: "distinct (set_add i closed)" and l: "length (set_add i closed) \<le> Suc CLOSED_MAX"
    using assms by (auto simp: closed_ok_def set_add_def)
  have tl: "removeAll (hd xs) xs = tl xs" if "distinct xs" for xs :: "nat list"
    using that by (cases xs) auto
  show "closed_ok (markClosed i closed)"
    using d l by (auto simp: markClosed_def Let_def closed_ok_def tl distinct_tl)
  show "set (markClosed i closed) \<subseteq> insert i (set closed)"
    by (auto simp: markClosed_def Let_def)
  have "hd (set_add i closed) \<noteq> i" if "length (set_add i closed) > CLOSED_MAX"
  proof -
    have "i \<notin> set closed" using that assms by (auto simp: set_add_def closed_ok_def split: if_splits)
    then show ?thesis
      using that by (cases closed) (auto simp: set_add_def CLOSED_MAX_def)
  qed
  then show "i \<in> set (markClosed i closed)"
    by (auto simp: markClosed_def Let_def)
qed

lemma on_body_fields [simp]:
  "mx_controllers (on_body i f m) = mx_controllers m" "mx_closed (on_body i f m) = mx_closed m"
  "mx_cap (on_body i f m) = mx_cap m" "mx_onOverflow (on_body i f m) = mx_onOverflow m"
  "map_of (mx_bodies (on_body i f m)) j =
     (if j = i then map_option f (map_of (mx_bodies m) i) else map_of (mx_bodies m) j)"
  by (auto simp: on_body_def split: option.splits)

lemma retire_stream_fields [simp]:
  "mx_controllers (retire_stream i m) = removeAll i (mx_controllers m)"
  "mx_closed (retire_stream i m) = markClosed i (mx_closed m)" "mx_bodies (retire_stream i m) = mx_bodies m"
  by (simp_all add: retire_stream_def)

text \<open>Retiring a stream, whatever is done to its body.\<close>

lemma mux_ok_retire: "mux_ok m \<Longrightarrow> mux_ok (on_body i f (retire_stream i m))"
  using markClosed_ok [of "mx_closed m" i]
  by (auto simp: mux_ok_def distinct_removeAll)

lemma mux_ok_ops:
  assumes "mux_ok m"
  shows "mux_ok (mux_close i m)" and "mux_ok (mux_fail i e m)" and "mux_ok (mux_cancel i m)"
    and "mux_acquire i m = Some m' \<Longrightarrow> mux_ok m'" and "mux_ok (snd (mux_read i m))"
    and "mux_ok (on_body i (enqueue x) m)"
proof -
  show "mux_ok (mux_close i m)" "mux_ok (mux_fail i e m)" "mux_ok (mux_cancel i m)"
    using assms mux_ok_retire
    by (auto simp: mux_close_def mux_fail_def mux_cancel_def split: option.splits)
  show "mux_ok m'" if "mux_acquire i m = Some m'"
    using assms that by (auto simp: mux_acquire_def mux_ok_def new_body_def split: if_splits)
  show "mux_ok (snd (mux_read i m))"
    using assms by (force simp: mux_read_def mux_ok_def split: option.splits list.splits)
  show "mux_ok (on_body i (enqueue x) m)"
    using assms by (force simp: mux_ok_def enqueue_def)
qed

lemma mux_ok_push: "mux_ok m \<Longrightarrow> mux_ok (mux_push i t payload m)"
proof -
  assume ok: "mux_ok m"
  have ev: "mux_ok (m'\<lparr>mx_events := es\<rparr>)" if "mux_ok m'" for m' :: "'e mux" and es
    using that by (simp add: mux_ok_def)
  show ?thesis
    using ok ev mux_ok_ops(1) [OF mux_ok_ops(6) [OF ok]] mux_ok_ops(6) [OF ok]
    by (auto simp: mux_push_def Let_def split: option.splits)
qed

lemma mux_ok_closeAll: "mux_ok m \<Longrightarrow> mux_ok (mux_closeAll e m)"
  unfolding mux_closeAll_def by (rule fold_inv_rule) (use mux_ok_ops(2) in auto)

lemma mux_reachable_ok: "mux_reachable m \<Longrightarrow> mux_ok m"
proof (induction rule: mux_reachable.induct)
  case (mux_start cap over)
  then show ?case by (simp add: new_mux_def mux_ok_def closed_ok_def)
next
  case (mux_next m m')
  from mux_next.hyps(2) show ?case
    by cases (use mux_next.IH mux_ok_ops mux_ok_push mux_ok_closeAll in auto)
qed

lemma fold_fail:
  "distinct is \<Longrightarrow> set is \<subseteq> set (mx_controllers m) \<Longrightarrow> distinct (mx_controllers m) \<Longrightarrow>
     mx_controllers (fold (\<lambda>i. mux_fail i e) is m) = filter (\<lambda>i. i \<notin> set is) (mx_controllers m) \<and>
     (\<forall>j. map_of (mx_bodies (fold (\<lambda>i. mux_fail i e) is m)) j =
        (if j \<in> set is then map_option (error_stream e) (map_of (mx_bodies m) j) else map_of (mx_bodies m) j))"
proof (induction "is" arbitrary: m)
  case (Cons i "is")
  have i: "i \<in> set (mx_controllers m)" using Cons.prems by simp
  have m: "mux_fail i e m = on_body i (error_stream e) (retire_stream i m)"
    using i by (simp add: mux_fail_def)
  have "set is \<subseteq> set (mx_controllers (mux_fail i e m))" "distinct (mx_controllers (mux_fail i e m))"
    using Cons.prems by (auto simp: m distinct_removeAll)
  then show ?case
    using Cons.IH [of "mux_fail i e m"] Cons.prems
    by (auto simp: m removeAll_filter_not_eq intro: filter_cong)
qed simp

section \<open>Properties\<close>

text \<open>
  Frames reach the body of their stream and no other. In every reachable state of the
  multiplexer, an open stream's id cannot be acquired again; a frame pushed for it is appended
  to its body as \<open>encodeFrame\<close> writes it and touches no other body, an end or error frame closes
  the body behind it and retires the id; a frame for an id that is not open touches no body; the
  retired ids are remembered, at most \<open>CLOSED_MAX\<close> of them; and \<open>closeAll\<close> fails the body of
  every open stream and leaves none open.
\<close>

theorem mux_routes_frames:
  assumes "mux_reachable m"
  shows "length (mx_closed m) \<le> CLOSED_MAX \<and>
    (\<forall>i t payload. i \<in> set (mx_controllers m) \<longrightarrow>
       mux_acquire i m = None \<and>
       (\<exists>b. map_of (mx_bodies m) i = Some b \<and> b_state b = Readable \<and>
          map_of (mx_bodies (mux_push i t payload m)) i =
            Some \<lparr>b_queue = b_queue b @ [encodeFrame t payload],
                  b_state = (if t = FRAME_END \<or> t = FRAME_ERROR then CloseRequested else Readable)\<rparr>) \<and>
       (\<forall>j. j \<noteq> i \<longrightarrow> map_of (mx_bodies (mux_push i t payload m)) j = map_of (mx_bodies m) j) \<and>
       (t = FRAME_END \<or> t = FRAME_ERROR \<longrightarrow> i \<notin> set (mx_controllers (mux_push i t payload m)) \<and>
          mux_acquire i (mux_push i t payload m) = None)) \<and>
    (\<forall>i t payload. i \<notin> set (mx_controllers m) \<longrightarrow>
       mx_bodies (mux_push i t payload m) = mx_bodies m) \<and>
    (\<forall>e. mx_controllers (mux_closeAll e m) = [] \<and>
       (\<forall>i \<in> set (mx_controllers m). \<exists>b. map_of (mx_bodies (mux_closeAll e m)) i = Some b \<and>
          b_state b = Errored e))"
proof -
  have ok: "mux_ok m" using assms by (rule mux_reachable_ok)
  note d = mux_okD [OF ok]
  have push: "\<exists>b. map_of (mx_bodies m) i = Some b \<and> b_state b = Readable \<and>
        map_of (mx_bodies (mux_push i t payload m)) i =
          Some \<lparr>b_queue = b_queue b @ [encodeFrame t payload],
                b_state = (if t = FRAME_END \<or> t = FRAME_ERROR then CloseRequested else Readable)\<rparr>"
    if open_i: "i \<in> set (mx_controllers m)" for i t payload
  proof -
    obtain b where "map_of (mx_bodies m) i = Some b" "b_state b = Readable" using d(4) [OF open_i] by blast
    then show ?thesis
      using open_i by (auto simp: mux_push_def mux_close_def Let_def enqueue_def close_stream_def split: option.splits)
  qed
  have other: "map_of (mx_bodies (mux_push i t payload m)) j = map_of (mx_bodies m) j" if "j \<noteq> i" for i j t payload
    using that by (auto simp: mux_push_def mux_close_def Let_def split: option.splits)
  have retired: "i \<notin> set (mx_controllers (mux_push i t payload m)) \<and> mux_acquire i (mux_push i t payload m) = None"
    if "i \<in> set (mx_controllers m)" "t = FRAME_END \<or> t = FRAME_ERROR" for i t payload
    using that markClosed_ok(2) [OF d(3), of i]
    by (auto simp: mux_push_def mux_close_def mux_acquire_def Let_def)
  have unknown: "mx_bodies (mux_push i t payload m) = mx_bodies m" if "i \<notin> set (mx_controllers m)" for i t payload
    using that by (simp add: mux_push_def)
  have none: "mx_controllers (mux_closeAll e m) = []" for e
    using fold_fail [OF d(1) subset_refl d(1), of e] by (auto simp: mux_closeAll_def filter_empty_conv)
  have failed: "\<exists>b. map_of (mx_bodies (mux_closeAll e m)) i = Some b \<and> b_state b = Errored e"
    if "i \<in> set (mx_controllers m)" for e i
    using fold_fail [OF d(1) subset_refl d(1), of e] d(4) [OF that] that
    by (auto simp: mux_closeAll_def error_stream_def)
  have bound: "length (mx_closed m) \<le> CLOSED_MAX" using d(3) by (simp add: closed_ok_def)
  have used: "mux_acquire i m = None" if "i \<in> set (mx_controllers m)" for i
    using that by (simp add: mux_acquire_def)
  show ?thesis
    by (intro conjI allI impI ballI;
        rule bound used push other unknown none failed retired [THEN conjunct1] retired [THEN conjunct2];
        assumption)
qed

lemma mux_open_reachable:
  "mux_reachable ((new_mux None False)\<lparr>mx_controllers := [7], mx_bodies := [(7, new_body)]\<rparr>)"
  by (rule mux_next [OF mux_start m_acquire [of 7 "new_mux None False"]])
    (simp add: mux_acquire_def new_mux_def)

theorem mux_routes_frames_witness:
  "map_of (mx_bodies (mux_push 7 FRAME_DATA [1] ((new_mux None False)
      \<lparr>mx_controllers := [7], mx_bodies := [(7, new_body)]\<rparr> :: unit mux))) 7 =
     Some \<lparr>b_queue = [encodeFrame FRAME_DATA [1]], b_state = Readable\<rparr>"
proof -
  let ?m = "(new_mux None False)\<lparr>mx_controllers := [7], mx_bodies := [(7, new_body)]\<rparr> :: unit mux"
  have "7 \<in> set (mx_controllers ?m)" by simp
  then have "\<exists>b. map_of (mx_bodies ?m) 7 = Some b \<and> b_state b = Readable \<and>
      map_of (mx_bodies (mux_push 7 FRAME_DATA [1] ?m)) 7 =
        Some \<lparr>b_queue = b_queue b @ [encodeFrame FRAME_DATA [1]],
              b_state = (if FRAME_DATA = FRAME_END \<or> FRAME_DATA = FRAME_ERROR then CloseRequested else Readable)\<rparr>"
    using mux_routes_frames [OF mux_open_reachable, THEN conjunct2, THEN conjunct1] by blast
  then show ?thesis by (auto simp: new_body_def frame_types)
qed

end
