(* ===== verification/RecoveryCoordinator.thy ===== *)
theory RecoveryCoordinator
  imports Prelude
begin

text \<open>
  The recovery coordinator of a client transport
  (\<^verbatim>\<open>packages/rpc/src/protocol/recoveryCoordinator.ts\<close>): named handlers that re-establish
  subscriptions after every reconnect. Handlers are asynchronous, so registrations, removals and
  further runs happen between the visits of a run. The iterator of a \<open>Map\<close> is live: it goes on
  to entries added after it started. An entry therefore carries the number of its insertion,
  which \<open>set\<close> on a present key keeps, and an iterator is the number it has reached.
\<close>

datatype recovery_kind = Resubscribe | ColdRecover

text \<open>A handler object: its identity, its name, whether it wants the current generation.\<close>

record handler =
  h_id :: nat
  h_name :: string
  h_includeCurrentGeneration :: bool

type_synonym handler_map = "(string, nat \<times> handler) jsmap"

datatype cursor = Live nat | Snapshot "handler list"

datatype recovery_call =
    Ran recovery_kind nat nat    \<comment> \<open>kind, generation, handler\<close>
  | Bootstrapped nat nat         \<comment> \<open>generation, handler\<close>

record recovery =
  rc_resubscribe :: handler_map
  rc_coldRecover :: handler_map
  rc_generation :: nat
  rc_completedResubscribe :: "nat option"
  rc_completedColdRecover :: "nat option"
  rc_queue :: "(recovery_kind \<times> nat) list"
  rc_active :: "(recovery_kind \<times> nat \<times> cursor) option"
  rc_microtasks :: "handler list"
  rc_calls :: "recovery_call list"
  rc_objects :: nat

definition new_recovery :: recovery where
  "new_recovery = \<lparr>rc_resubscribe = [], rc_coldRecover = [], rc_generation = 0,
     rc_completedResubscribe = None, rc_completedColdRecover = None, rc_queue = [], rc_active = None,
     rc_microtasks = [], rc_calls = [], rc_objects = 1\<rparr>"

definition handlers :: "recovery_kind \<Rightarrow> recovery \<Rightarrow> handler_map" where
  "handlers kind s = (case kind of Resubscribe \<Rightarrow> rc_resubscribe s | ColdRecover \<Rightarrow> rc_coldRecover s)"

definition set_handlers :: "recovery_kind \<Rightarrow> handler_map \<Rightarrow> recovery \<Rightarrow> recovery" where
  "set_handlers kind m s =
     (case kind of Resubscribe \<Rightarrow> s\<lparr>rc_resubscribe := m\<rparr> | ColdRecover \<Rightarrow> s\<lparr>rc_coldRecover := m\<rparr>)"

definition registered :: "recovery_kind \<Rightarrow> handler \<Rightarrow> recovery \<Rightarrow> bool" where
  "registered kind h s \<longleftrightarrow> map_option snd (map_of (handlers kind s) (h_name h)) = Some h"

text \<open>\<open>Map.set\<close>: a present key keeps its place.\<close>

definition place :: "string \<Rightarrow> nat \<Rightarrow> handler_map \<Rightarrow> nat" where
  "place name fresh m = (case map_of m name of Some (n, _) \<Rightarrow> n | None \<Rightarrow> fresh)"

definition register :: "recovery_kind \<Rightarrow> string \<Rightarrow> bool \<Rightarrow> recovery \<Rightarrow> handler \<times> recovery" where
  "register kind name include s =
     (let h = \<lparr>h_id = rc_objects s, h_name = name, h_includeCurrentGeneration = include\<rparr>;
          m = handlers kind s;
          s1 = set_handlers kind (jset name (place name (rc_objects s) m, h) m)
                 (s\<lparr>rc_objects := Suc (rc_objects s)\<rparr>);
          s2 = (if kind = Resubscribe \<and> include \<and> rc_completedResubscribe s1 = Some (rc_generation s1)
                then s1\<lparr>rc_microtasks := rc_microtasks s1 @ [h]\<rparr> else s1)
      in (h, s2))"

definition registerResubscribeHandler :: "string \<Rightarrow> bool option \<Rightarrow> recovery \<Rightarrow> handler \<times> recovery" where
  "registerResubscribeHandler name include s = register Resubscribe name (include \<noteq> Some False) s"

definition registerColdRecoverHandler :: "string \<Rightarrow> recovery \<Rightarrow> handler \<times> recovery" where
  "registerColdRecoverHandler name s = register ColdRecover name False s"

text \<open>The function that \<open>register\<close> returns.\<close>

definition unregister :: "recovery_kind \<Rightarrow> handler \<Rightarrow> recovery \<Rightarrow> recovery" where
  "unregister kind h s =
     (if registered kind h s then set_handlers kind (jdel (h_name h) (handlers kind s)) s else s)"

text \<open>The late bootstrap of a handler that was registered after its generation completed.\<close>

definition run_microtask :: "recovery \<Rightarrow> recovery" where
  "run_microtask s =
     (case rc_microtasks s of
        [] \<Rightarrow> s
      | h # hs \<Rightarrow>
          (let s1 = s\<lparr>rc_microtasks := hs\<rparr>
           in if registered Resubscribe h s1
              then s1\<lparr>rc_calls := rc_calls s1 @ [Bootstrapped (rc_generation s1) (h_id h)]\<rparr>
              else s1))"

definition run :: "recovery_kind \<Rightarrow> recovery \<Rightarrow> recovery" where
  "run kind s =
     (let s1 = (if kind = Resubscribe then s\<lparr>rc_generation := rc_generation s + 1\<rparr> else s)
      in s1\<lparr>rc_queue := rc_queue s1 @ [(kind, rc_generation s1)]\<rparr>)"

text \<open>The queue is a promise chain: a run starts when the one before it has settled.\<close>

definition start_run :: "recovery \<Rightarrow> recovery" where
  "start_run s =
     (case (rc_active s, rc_queue s) of
        (None, (kind, gen) # rest) \<Rightarrow>
          s\<lparr>rc_queue := rest,
            rc_active := Some (kind, gen,
              case kind of ColdRecover \<Rightarrow> Snapshot (map (snd \<circ> snd) (rc_coldRecover s)) | Resubscribe \<Rightarrow> Live 0)\<rparr>
      | _ \<Rightarrow> s)"

definition complete :: "recovery_kind \<Rightarrow> nat \<Rightarrow> recovery \<Rightarrow> recovery" where
  "complete kind gen s =
     (let s1 = s\<lparr>rc_active := None\<rparr>
      in case kind of Resubscribe \<Rightarrow> s1\<lparr>rc_completedResubscribe := Some gen\<rparr>
                    | ColdRecover \<Rightarrow> s1\<lparr>rc_completedColdRecover := Some gen\<rparr>)"

text \<open>One turn of the loop of \<open>runHandlers\<close>: the next handler is called, or the run completes.\<close>

definition visit :: "recovery \<Rightarrow> recovery" where
  "visit s =
     (case rc_active s of
        None \<Rightarrow> s
      | Some (kind, gen, Live reached) \<Rightarrow>
          (case find (\<lambda>(_, n, _). n > reached) (handlers kind s) of
             None \<Rightarrow> complete kind gen s
           | Some (_, n, h) \<Rightarrow>
               s\<lparr>rc_active := Some (kind, gen, Live n), rc_calls := rc_calls s @ [Ran kind gen (h_id h)]\<rparr>)
      | Some (kind, gen, Snapshot hs) \<Rightarrow>
          (case hs of
             [] \<Rightarrow> complete kind gen s
           | h # rest \<Rightarrow>
               (let s1 = s\<lparr>rc_active := Some (kind, gen, Snapshot rest)\<rparr>
                in if registered kind h s1
                   then s1\<lparr>rc_calls := rc_calls s1 @ [Ran kind gen (h_id h)]\<rparr> else s1)))"

text \<open>The handler that was called last rejects: the run rejects and does not complete.\<close>

definition handler_fails :: "recovery \<Rightarrow> recovery" where
  "handler_fails s = s\<lparr>rc_active := None\<rparr>"

subsection \<open>Runs\<close>

datatype recovery_op =
    Register recovery_kind string bool
  | Unregister recovery_kind handler
  | RunRecovery recovery_kind
  | StartRun
  | Visit
  | HandlerFails
  | RunMicrotask

fun exec :: "recovery_op \<Rightarrow> recovery \<Rightarrow> recovery" where
  "exec (Register kind name include) s = snd (register kind name include s)"
| "exec (Unregister kind h) s = unregister kind h s"
| "exec (RunRecovery kind) s = run kind s"
| "exec StartRun s = start_run s"
| "exec Visit s = visit s"
| "exec HandlerFails s = handler_fails s"
| "exec RunMicrotask s = run_microtask s"

definition resubscribing :: "recovery \<Rightarrow> bool" where
  "resubscribing s \<longleftrightarrow> (case rc_active s of Some (Resubscribe, _, _) \<Rightarrow> True | _ \<Rightarrow> False)"

text \<open>
  An operation is orderly unless it registers a resubscribe handler under a name that is taken
  while a resubscribe run is going on.
\<close>

fun orderly_op :: "recovery_op \<Rightarrow> recovery \<Rightarrow> bool" where
  "orderly_op (Register kind name include) s \<longleftrightarrow>
     \<not> (kind = Resubscribe \<and> jhas (rc_resubscribe s) name \<and> resubscribing s)"
| "orderly_op _ s \<longleftrightarrow> True"

inductive orderly :: "recovery \<Rightarrow> bool" where
  orderly_new: "orderly new_recovery"
| orderly_next: "orderly s \<Longrightarrow> orderly_op op s \<Longrightarrow> orderly (exec op s)"

text \<open>Handler \<open>h\<close> was called for generation \<open>g\<close>, by a run or by a late bootstrap.\<close>

definition called :: "nat \<Rightarrow> handler \<Rightarrow> recovery \<Rightarrow> bool" where
  "called g h s \<longleftrightarrow> Ran Resubscribe g (h_id h) \<in> set (rc_calls s) \<or> Bootstrapped g (h_id h) \<in> set (rc_calls s)"

text \<open>
  Places ascend in the map and are below the object counter, and names are the keys.
\<close>

definition map_ok :: "nat \<Rightarrow> handler_map \<Rightarrow> bool" where
  "map_ok fresh m \<longleftrightarrow> jwf m \<and> sorted_wrt (<) (map (\<lambda>e. fst (snd e)) m) \<and>
     (\<forall>e \<in> set m. 0 < fst (snd e) \<and> fst (snd e) < fresh \<and> h_name (snd (snd e)) = fst e)"

text \<open>The generations of the resubscribe runs that are active or queued.\<close>

definition resub_gens :: "recovery \<Rightarrow> nat list" where
  "resub_gens s =
     (case rc_active s of Some (Resubscribe, g, _) \<Rightarrow> [g] | _ \<Rightarrow> []) @
     map snd (filter (\<lambda>q. fst q = Resubscribe) (rc_queue s))"

definition gens_ok :: "recovery \<Rightarrow> bool" where
  "gens_ok s \<longleftrightarrow> sorted_wrt (<) (resub_gens s) \<and>
     (\<forall>d. rc_completedResubscribe s = Some d \<longrightarrow> d \<le> rc_generation s) \<and>
     (\<forall>g \<in> set (resub_gens s). g \<le> rc_generation s \<and> (\<forall>d. rc_completedResubscribe s = Some d \<longrightarrow> d < g))"

text \<open>A resubscribe run has called every handler up to the place it has reached.\<close>

definition visited_ok :: "recovery \<Rightarrow> bool" where
  "visited_ok s \<longleftrightarrow>
     (\<forall>g c. rc_active s = Some (Resubscribe, g, c) \<longrightarrow>
        (\<exists>n. c = Live n \<and> n < rc_objects s \<and>
          (\<forall>name p h. map_of (rc_resubscribe s) name = Some (p, h) \<and> p \<le> n \<longrightarrow> called g h s)))"

text \<open>When the current generation has completed, its handlers have been called or will be.\<close>

definition boot_ok :: "recovery \<Rightarrow> bool" where
  "boot_ok s \<longleftrightarrow>
     (rc_completedResubscribe s = Some (rc_generation s) \<longrightarrow>
       (\<forall>name p h. map_of (rc_resubscribe s) name = Some (p, h) \<and> h_includeCurrentGeneration h \<longrightarrow>
          called (rc_generation s) h s \<or> h \<in> set (rc_microtasks s)))"

definition recovery_ok :: "recovery \<Rightarrow> bool" where
  "recovery_ok s \<longleftrightarrow> 0 < rc_objects s \<and> map_ok (rc_objects s) (rc_resubscribe s) \<and> gens_ok s \<and>
     visited_ok s \<and> boot_ok s"

lemma map_ok_jset:
  assumes "map_ok k m" and "0 < k" and "h_name h = name"
  shows "map_ok (Suc k) (jset name (place name k m, h) m)"
proof -
  have places: "map (\<lambda>e. fst (snd e)) (jset name (place name k m, h) m) =
      (if jhas m name then map (\<lambda>e. fst (snd e)) m else map (\<lambda>e. fst (snd e)) m @ [k])"
    by (induction m) (auto simp: place_def jhas_def)
  have below: "\<forall>n \<in> set (map (\<lambda>e. fst (snd e)) m). n < k" and jwf: "jwf m"
    using assms(1) by (auto simp: map_ok_def)
  have "0 < place name k m \<and> place name k m < Suc k"
    using assms(1,2) by (force simp: place_def map_ok_def dest: jget_memD split: option.splits)
  then have "\<forall>e \<in> set (jset name (place name k m, h) m).
      0 < fst (snd e) \<and> fst (snd e) < Suc k \<and> h_name (snd (snd e)) = fst e"
    using assms(1,3) by (auto simp: set_jset [OF jwf] map_ok_def less_Suc_eq)
  moreover have "sorted_wrt (<) (map (\<lambda>e. fst (snd e)) (jset name (place name k m, h) m))"
    unfolding places using assms(1) below by (auto simp: map_ok_def sorted_wrt_append)
  ultimately show ?thesis using jwf by (simp add: map_ok_def)
qed

lemma map_ok_jdel: "map_ok k m \<Longrightarrow> map_ok k (jdel name m)"
  unfolding map_ok_def jdel_def by (auto simp: sorted_wrt_map intro: sorted_wrt_filter)

lemma map_ok_Suc: "map_ok k m \<Longrightarrow> map_ok (Suc k) m"
  by (auto simp: map_ok_def)

lemma find_ascending:
  "sorted_wrt (<) (map f xs) \<Longrightarrow> find (\<lambda>x. r < f x) xs = Some x \<Longrightarrow>
     y \<in> set xs \<Longrightarrow> f y \<le> f x \<Longrightarrow> f y \<le> r \<or> y = (x :: 'a)" for f :: "'a \<Rightarrow> nat"
  by (induction xs) (auto split: if_splits dest: find_SomeD)

lemma called_mono: "called g h s \<Longrightarrow> set (rc_calls s) \<subseteq> set (rc_calls t) \<Longrightarrow> called g h t"
  by (auto simp: called_def)

lemma recovery_okD:
  assumes "recovery_ok s"
  shows "0 < rc_objects s" and "map_ok (rc_objects s) (rc_resubscribe s)" and "gens_ok s"
    and "visited_ok s" and "boot_ok s"
  using assms by (simp_all add: recovery_ok_def)

lemma visited_okD:
  assumes "visited_ok s" and "rc_active s = Some (Resubscribe, g, c)"
  obtains n where "c = Live n" "n < rc_objects s"
    "\<And>name p h. map_of (rc_resubscribe s) name = Some (p, h) \<Longrightarrow> p \<le> n \<Longrightarrow> called g h s"
  using assms unfolding visited_ok_def by blast

lemma visited_okI:
  assumes "\<And>g c. rc_active s = Some (Resubscribe, g, c) \<Longrightarrow> \<exists>n. c = Live n \<and> n < rc_objects s \<and>
      (\<forall>name p h. map_of (rc_resubscribe s) name = Some (p, h) \<and> p \<le> n \<longrightarrow> called g h s)"
  shows "visited_ok s"
  using assms unfolding visited_ok_def by blast

lemma boot_okD:
  "boot_ok s \<Longrightarrow> rc_completedResubscribe s = Some (rc_generation s) \<Longrightarrow>
     map_of (rc_resubscribe s) name = Some (p, h) \<Longrightarrow> h_includeCurrentGeneration h \<Longrightarrow>
     called (rc_generation s) h s \<or> h \<in> set (rc_microtasks s)"
  unfolding boot_ok_def by blast

lemma boot_okI:
  assumes "\<And>name p h. rc_completedResubscribe s = Some (rc_generation s) \<Longrightarrow>
      map_of (rc_resubscribe s) name = Some (p, h) \<Longrightarrow> h_includeCurrentGeneration h \<Longrightarrow>
      called (rc_generation s) h s \<or> h \<in> set (rc_microtasks s)"
  shows "boot_ok s"
  using assms unfolding boot_ok_def by blast

text \<open>Operations that leave the resubscribe handlers, the runs and the microtasks alone, or end a run.\<close>

lemma ok_same:
  assumes "recovery_ok s" and "rc_resubscribe t = rc_resubscribe s" and "rc_objects s \<le> rc_objects t"
    and "rc_active t = rc_active s \<or> \<not> resubscribing t"
    and "rc_generation t = rc_generation s" and "rc_completedResubscribe t = rc_completedResubscribe s"
    and "rc_queue t = rc_queue s" and "set (rc_calls s) \<subseteq> set (rc_calls t)"
    and "set (rc_microtasks s) \<subseteq> set (rc_microtasks t)"
  shows "recovery_ok t"
proof -
  note d = recovery_okD [OF assms(1)]
  have "map_ok (rc_objects t) (rc_resubscribe t)"
    using d(2) assms(2,3) by (force simp: map_ok_def)
  moreover have "gens_ok t"
    using d(3) assms(4-7)
    by (auto simp: gens_ok_def resub_gens_def resubscribing_def split: option.splits recovery_kind.splits)
  moreover have "visited_ok t"
  proof (rule visited_okI)
    fix g c
    assume "rc_active t = Some (Resubscribe, g, c)"
    then have "rc_active s = Some (Resubscribe, g, c)" using assms(4) by (auto simp: resubscribing_def)
    then show "\<exists>n. c = Live n \<and> n < rc_objects t \<and>
        (\<forall>name p h. map_of (rc_resubscribe t) name = Some (p, h) \<and> p \<le> n \<longrightarrow> called g h t)"
      using assms(2,3) called_mono [OF _ assms(8)] by (elim visited_okD [OF d(4)]) auto
  qed
  moreover have "boot_ok t"
  proof (rule boot_okI)
    fix name p h
    assume "rc_completedResubscribe t = Some (rc_generation t)"
      "map_of (rc_resubscribe t) name = Some (p, h)" "h_includeCurrentGeneration h"
    then show "called (rc_generation t) h t \<or> h \<in> set (rc_microtasks t)"
      using boot_okD [OF d(5), of name p h] assms(2,5,6,9) called_mono [OF _ assms(8)] by auto
  qed
  ultimately show ?thesis using d(1) assms(3) by (simp add: recovery_ok_def)
qed

lemma run_ok:
  assumes "recovery_ok s"
  shows "recovery_ok (run kind s)"
proof -
  note d = recovery_okD [OF assms]
  have le: "rc_completedResubscribe s = Some c \<Longrightarrow> c \<le> rc_generation s" for c
    using d(3) by (simp add: gens_ok_def)
  have fields: "rc_resubscribe (run kind s) = rc_resubscribe s" "rc_objects (run kind s) = rc_objects s"
    "rc_active (run kind s) = rc_active s" "rc_completedResubscribe (run kind s) = rc_completedResubscribe s"
    "rc_calls (run kind s) = rc_calls s" "rc_microtasks (run kind s) = rc_microtasks s"
    "rc_generation (run kind s) = rc_generation s + (if kind = Resubscribe then 1 else 0)"
    by (simp_all add: run_def Let_def)
  have gens: "resub_gens (run kind s) = resub_gens s @ (if kind = Resubscribe then [rc_generation s + 1] else [])"
    by (simp add: run_def resub_gens_def)
  have "gens_ok (run kind s)"
    using d(3) unfolding gens_ok_def gens fields
    by (force simp: sorted_wrt_append dest: le)
  moreover have "visited_ok (run kind s)"
    using d(4) by (simp add: visited_ok_def fields called_def)
  moreover have "boot_ok (run kind s)"
    using boot_okD [OF d(5)] le
    by (intro boot_okI) (fastforce simp: fields called_def split: if_splits)
  ultimately show ?thesis using d(1,2) by (simp add: recovery_ok_def fields)
qed

lemma start_run_ok:
  assumes "recovery_ok s"
  shows "recovery_ok (start_run s)"
proof (cases "rc_active s = None \<and> rc_queue s \<noteq> []")
  case False
  then show ?thesis using assms by (auto simp: start_run_def split: option.splits list.splits)
next
  case True
  note d = recovery_okD [OF assms]
  obtain kind gen rest where q: "rc_queue s = (kind, gen) # rest" using True by (cases "rc_queue s") auto
  have "resub_gens (start_run s) = resub_gens s"
    using True q by (cases kind) (simp_all add: start_run_def resub_gens_def)
  then have "gens_ok (start_run s)"
    using d(3) True q by (simp add: gens_ok_def start_run_def)
  moreover have "visited_ok (start_run s)"
  proof (rule visited_okI)
    fix g c
    assume "rc_active (start_run s) = Some (Resubscribe, g, c)"
    then have "c = Live 0" using True q by (cases kind) (simp_all add: start_run_def)
    moreover have "0 < p" if "map_of (rc_resubscribe s) name = Some (p, h)" for name p h
      using d(2) jget_memD [OF that] by (auto simp: map_ok_def)
    ultimately show "\<exists>n. c = Live n \<and> n < rc_objects (start_run s) \<and>
        (\<forall>name p h. map_of (rc_resubscribe (start_run s)) name = Some (p, h) \<and> p \<le> n \<longrightarrow> called g h (start_run s))"
      using d(1) True q by (auto simp: start_run_def)
  qed
  moreover have "boot_ok (start_run s)"
    using boot_okD [OF d(5)] True q by (intro boot_okI) (simp add: start_run_def called_def)
  ultimately show ?thesis
    using d(1,2) True q by (simp add: recovery_ok_def start_run_def)
qed

lemma microtask_ok:
  assumes "recovery_ok s"
  shows "recovery_ok (run_microtask s)"
proof (cases "rc_microtasks s")
  case Nil
  then show ?thesis using assms by (simp add: run_microtask_def)
next
  case (Cons h hs)
  note d = recovery_okD [OF assms]
  let ?t = "run_microtask s"
  have fields: "rc_resubscribe ?t = rc_resubscribe s" "rc_objects ?t = rc_objects s" "rc_active ?t = rc_active s"
    "rc_completedResubscribe ?t = rc_completedResubscribe s" "rc_generation ?t = rc_generation s"
    "rc_queue ?t = rc_queue s" "rc_microtasks ?t = hs" "set (rc_calls s) \<subseteq> set (rc_calls ?t)"
    by (auto simp: run_microtask_def Cons Let_def)
  have "gens_ok ?t" using d(3) by (simp add: gens_ok_def resub_gens_def fields)
  moreover have "visited_ok ?t"
  proof (rule visited_okI)
    fix g c
    assume "rc_active ?t = Some (Resubscribe, g, c)"
    then have "rc_active s = Some (Resubscribe, g, c)" by (simp add: fields)
    then show "\<exists>n. c = Live n \<and> n < rc_objects ?t \<and>
        (\<forall>name p h. map_of (rc_resubscribe ?t) name = Some (p, h) \<and> p \<le> n \<longrightarrow> called g h ?t)"
      using called_mono [OF _ fields(8)] by (elim visited_okD [OF d(4)]) (auto simp: fields)
  qed
  moreover have "boot_ok ?t"
  proof (rule boot_okI)
    fix name p h'
    assume a: "rc_completedResubscribe ?t = Some (rc_generation ?t)"
      "map_of (rc_resubscribe ?t) name = Some (p, h')" "h_includeCurrentGeneration h'"
    have "h_name h' = name" using d(2) jget_memD [of _ name] a(2) by (force simp: map_ok_def fields)
    then have "registered Resubscribe h' (s\<lparr>rc_microtasks := hs\<rparr>)"
      using a(2) by (simp add: registered_def handlers_def fields)
    then have "called (rc_generation s) h' ?t" if "h' = h"
      using that by (simp add: run_microtask_def Cons Let_def called_def)
    then show "called (rc_generation ?t) h' ?t \<or> h' \<in> set (rc_microtasks ?t)"
      using boot_okD [OF d(5), of name p h'] a called_mono [OF _ fields(8)] by (auto simp: fields Cons)
  qed
  ultimately show ?thesis using d(1,2) by (simp add: recovery_ok_def fields)
qed

lemma set_handlers_fields [simp]:
  "rc_resubscribe (set_handlers kind m s) = (if kind = Resubscribe then m else rc_resubscribe s)"
  "rc_objects (set_handlers kind m s) = rc_objects s" "rc_active (set_handlers kind m s) = rc_active s"
  "rc_generation (set_handlers kind m s) = rc_generation s" "rc_queue (set_handlers kind m s) = rc_queue s"
  "rc_completedResubscribe (set_handlers kind m s) = rc_completedResubscribe s"
  "rc_calls (set_handlers kind m s) = rc_calls s" "rc_microtasks (set_handlers kind m s) = rc_microtasks s"
  by (cases kind; simp add: set_handlers_def)+

text \<open>Fewer resubscribe handlers.\<close>

lemma ok_fewer:
  assumes "recovery_ok s" and "map_ok (rc_objects s) m" and "map_of m \<subseteq>\<^sub>m map_of (rc_resubscribe s)"
  shows "recovery_ok (s\<lparr>rc_resubscribe := m\<rparr>)"
proof -
  note d = recovery_okD [OF assms(1)]
  have sub: "map_of (rc_resubscribe s) name = Some e" if "map_of m name = Some e" for name e
    using assms(3) that by (force simp: map_le_def)
  have "gens_ok (s\<lparr>rc_resubscribe := m\<rparr>)" using d(3) by (simp add: gens_ok_def resub_gens_def)
  moreover have "visited_ok (s\<lparr>rc_resubscribe := m\<rparr>)"
    using d(4) sub unfolding visited_ok_def called_def by fastforce
  moreover have "boot_ok (s\<lparr>rc_resubscribe := m\<rparr>)"
    using boot_okD [OF d(5) _ sub] by (intro boot_okI) (simp add: called_def)
  ultimately show ?thesis using d(1) assms(2) by (simp add: recovery_ok_def)
qed

lemma unregister_ok:
  assumes "recovery_ok s"
  shows "recovery_ok (unregister kind h s)"
proof (cases "kind = Resubscribe")
  case True
  have "recovery_ok (s\<lparr>rc_resubscribe := jdel (h_name h) (rc_resubscribe s)\<rparr>)"
    using map_ok_jdel [OF recovery_okD(2) [OF assms]]
    by (intro ok_fewer [OF assms]) (auto simp: map_le_def)
  then show ?thesis
    using assms True by (simp add: unregister_def set_handlers_def handlers_def)
next
  case False
  then show ?thesis
    by (intro ok_same [OF assms]) (auto simp: unregister_def)
qed

lemma register_ok:
  assumes "recovery_ok s" and "orderly_op (Register kind name include) s"
  shows "recovery_ok (snd (register kind name include s))"
proof (cases "kind = Resubscribe")
  case False
  then show ?thesis
    by (intro ok_same [OF assms(1)]) (auto simp: register_def Let_def)
next
  case True
  note d = recovery_okD [OF assms(1)]
  let ?h = "\<lparr>h_id = rc_objects s, h_name = name, h_includeCurrentGeneration = include\<rparr>"
  let ?p = "place name (rc_objects s) (rc_resubscribe s)"
  let ?t = "snd (register kind name include s)"
  have fields: "rc_resubscribe ?t = jset name (?p, ?h) (rc_resubscribe s)" "rc_objects ?t = Suc (rc_objects s)"
    "rc_active ?t = rc_active s" "rc_completedResubscribe ?t = rc_completedResubscribe s"
    "rc_generation ?t = rc_generation s" "rc_queue ?t = rc_queue s" "rc_calls ?t = rc_calls s"
    "rc_microtasks ?t = rc_microtasks s @
       (if include \<and> rc_completedResubscribe s = Some (rc_generation s) then [?h] else [])"
    using True by (simp_all add: register_def Let_def handlers_def)
  have "gens_ok ?t" using d(3) by (simp add: gens_ok_def resub_gens_def fields)
  moreover have "visited_ok ?t"
  proof (rule visited_okI)
    fix g c
    assume "rc_active ?t = Some (Resubscribe, g, c)"
    then have act: "rc_active s = Some (Resubscribe, g, c)" by (simp add: fields)
    then have "\<not> jhas (rc_resubscribe s) name" using assms(2) True by (simp add: resubscribing_def)
    then have "?p = rc_objects s"
      by (cases "map_of (rc_resubscribe s) name") (simp_all add: place_def jhas_def)
    then show "\<exists>n. c = Live n \<and> n < rc_objects ?t \<and>
        (\<forall>name p h. map_of (rc_resubscribe ?t) name = Some (p, h) \<and> p \<le> n \<longrightarrow> called g h ?t)"
      using act by (elim visited_okD [OF d(4)]) (auto simp: fields called_def)
  qed
  moreover have "boot_ok ?t"
    using boot_okD [OF d(5)] by (intro boot_okI) (auto simp: fields called_def split: if_splits)
  ultimately show ?thesis
    using d(1) map_ok_jset [OF d(2,1), of ?h name] by (simp add: recovery_ok_def fields)
qed

lemma visit_ok:
  assumes "recovery_ok s"
  shows "recovery_ok (visit s)"
proof (cases "rc_active s")
  case None
  then show ?thesis using assms by (simp add: visit_def)
next
  case (Some run)
  note d = recovery_okD [OF assms]
  obtain kind gen c where act: "rc_active s = Some (kind, gen, c)" using Some by (cases run) auto
  show ?thesis
  proof (cases kind)
    case ColdRecover
    show ?thesis
      by (rule ok_same [OF assms])
        (use act ColdRecover in \<open>auto simp: visit_def complete_def resubscribing_def Let_def
          split: cursor.splits option.splits list.splits\<close>)
  next
    case Resubscribe
    have act: "rc_active s = Some (Resubscribe, gen, c)" using act Resubscribe by simp
    then obtain n where c: "c = Live n" "n < rc_objects s"
      and up: "\<And>name p h. map_of (rc_resubscribe s) name = Some (p, h) \<Longrightarrow> p \<le> n \<Longrightarrow> called gen h s"
      using visited_okD [OF d(4)] by metis
    have gen: "gen \<le> rc_generation s" "sorted_wrt (<) (gen # map snd (filter (\<lambda>q. fst q = Resubscribe) (rc_queue s)))"
      "\<And>g d. g \<in> set (resub_gens s) \<Longrightarrow> g \<le> rc_generation s"
      using d(3) act by (auto simp: gens_ok_def resub_gens_def)
    show ?thesis
    proof (cases "find (\<lambda>(_, p, _). p > n) (rc_resubscribe s)")
      case None
      then have v: "visit s = s\<lparr>rc_active := None, rc_completedResubscribe := Some gen\<rparr>"
        by (simp add: visit_def act c complete_def handlers_def)
      have all: "called gen h s" if "map_of (rc_resubscribe s) name = Some (p, h)" for name p h
        using up [OF that] None jget_memD [OF that] by (auto simp: find_NoneD not_less)
      show ?thesis
        using d gen all act
        by (auto simp: v recovery_ok_def gens_ok_def visited_ok_def boot_ok_def resub_gens_def called_def)
    next
      case (Some e)
      obtain name p h where e: "find (\<lambda>(_, p, _). p > n) (rc_resubscribe s) = Some (name, p, h)"
        using Some by (cases e) auto
      then have v: "visit s = s\<lparr>rc_active := Some (Resubscribe, gen, Live p),
          rc_calls := rc_calls s @ [Ran Resubscribe gen (h_id h)]\<rparr>"
        by (simp add: visit_def act c handlers_def)
      have mem: "(name, p, h) \<in> set (rc_resubscribe s)" and p: "n < p"
        using find_SomeD [OF e] by auto
      have after: "(\<lambda>(_, p, _). p > n) = (\<lambda>e :: string \<times> nat \<times> handler. n < fst (snd e))"
        by (auto simp: fun_eq_iff)
      have seen: "called gen h' (visit s)" if "map_of (rc_resubscribe s) name' = Some (p', h')" "p' \<le> p" for name' p' h'
      proof -
        have "sorted_wrt (<) (map (\<lambda>e. fst (snd e)) (rc_resubscribe s))"
          using d(2) by (simp add: map_ok_def)
        then have "p' \<le> n \<or> (name', p', h') = (name, p, h)"
          using find_ascending [where f = "\<lambda>e. fst (snd e)", of "rc_resubscribe s" n "(name, p, h)" "(name', p', h')"]
            e [unfolded after] jget_memD [OF that(1)] that(2) by simp
        then show ?thesis
          using up [OF that(1)] by (auto simp: v called_def)
      qed
      have "p < rc_objects s" using d(2) mem by (auto simp: map_ok_def)
      moreover have "gens_ok (visit s)" using d(3) act by (simp add: v gens_ok_def resub_gens_def)
      moreover have "boot_ok (visit s)"
        using boot_okD [OF d(5)] by (intro boot_okI) (auto simp: v called_def)
      ultimately show ?thesis
        using d(1,2) seen by (auto simp: v recovery_ok_def visited_ok_def)
    qed
  qed
qed

lemma orderly_ok: "orderly s \<Longrightarrow> recovery_ok s"
proof (induction rule: orderly.induct)
  case orderly_new
  show ?case
    by (simp add: new_recovery_def recovery_ok_def map_ok_def gens_ok_def resub_gens_def visited_ok_def boot_ok_def)
next
  case (orderly_next s op)
  show ?case
  proof (cases op)
    case (Register kind name incl)
    then show ?thesis using orderly_next by (simp add: register_ok)
  next
    case HandlerFails
    have "recovery_ok (handler_fails s)"
      by (rule ok_same [OF orderly_next.IH]) (simp_all add: handler_fails_def resubscribing_def)
    then show ?thesis by (simp add: HandlerFails)
  qed (use orderly_next.IH in \<open>simp_all add: run_ok start_run_ok visit_ok microtask_ok unregister_ok\<close>)
qed

subsection \<open>Runs end\<close>

text \<open>The turns that are left of the active run while nothing is registered.\<close>

definition turns_left :: "recovery \<Rightarrow> nat" where
  "turns_left s =
     (case rc_active s of
        None \<Rightarrow> 0
      | Some (kind, _, Live n) \<Rightarrow> Suc (length (filter (\<lambda>(_, p, _). p > n) (handlers kind s)))
      | Some (_, _, Snapshot hs) \<Rightarrow> Suc (length hs))"

lemma handlers_unchanged [simp]:
  "handlers kind (s\<lparr>rc_active := x\<rparr>) = handlers kind s" "handlers kind (s\<lparr>rc_calls := cs\<rparr>) = handlers kind s"
  by (cases kind; simp add: handlers_def)+

lemma visit_shortens:
  assumes "rc_active s \<noteq> None"
  shows "turns_left (visit s) < turns_left s"
proof -
  obtain kind gen c where act: "rc_active s = Some (kind, gen, c)" using assms by auto
  have done_ [simp]: "turns_left (complete kind gen s) = 0"
    by (cases kind) (simp_all add: turns_left_def complete_def)
  show ?thesis
  proof (cases c)
    case (Live n)
    show ?thesis
    proof (cases "find (\<lambda>(_, p, _). p > n) (handlers kind s)")
      case None
      then show ?thesis by (simp add: visit_def act Live) (simp add: turns_left_def act Live)
    next
      case (Some e)
      obtain name p h where e: "find (\<lambda>(_, p, _). p > n) (handlers kind s) = Some (name, p, h)"
        using Some by (cases e) auto
      have mem: "(name, p, h) \<in> set (handlers kind s)" "n < p" using find_SomeD [OF e] by auto
      have "filter (\<lambda>(_, q, _). q > p) (handlers kind s) =
          filter (\<lambda>(_, q, _). q > p) (filter (\<lambda>(_, q, _). q > n) (handlers kind s))"
        using mem(2) by (auto intro!: filter_cong)
      moreover have "length (filter (\<lambda>(_, q, _). q > p) (filter (\<lambda>(_, q, _). q > n) (handlers kind s))) <
          length (filter (\<lambda>(_, q, _). q > n) (handlers kind s))"
        by (rule length_filter_less [of "(name, p, h)"]) (use mem in auto)
      ultimately show ?thesis by (simp add: visit_def act Live e turns_left_def)
    qed
  next
    case (Snapshot hs)
    then show ?thesis
      by (cases hs) (simp_all add: visit_def act turns_left_def complete_def Let_def split: recovery_kind.splits)
  qed
qed

lemma visits_end: "\<exists>k. rc_active ((visit ^^ k) s) = None"
proof (induction "turns_left s" arbitrary: s rule: less_induct)
  case less
  show ?case
  proof (cases "rc_active s = None")
    case True
    then show ?thesis by (intro exI [of _ 0]) simp
  next
    case False
    then obtain k where "rc_active ((visit ^^ k) (visit s)) = None"
      using less [OF visit_shortens [OF False]] by blast
    then show ?thesis by (intro exI [of _ "Suc k"]) (simp add: funpow_swap1)
  qed
qed

text \<open>A resubscribe run that completes has called every handler that is registered.\<close>

lemma run_calls_all:
  assumes "recovery_ok s" and "rc_active s = Some (Resubscribe, g, c)" and "rc_active (visit s) = None"
    and "registered Resubscribe h s"
  shows "called g h s"
proof -
  obtain n where c: "c = Live n"
    and up: "\<And>name p h. map_of (rc_resubscribe s) name = Some (p, h) \<Longrightarrow> p \<le> n \<Longrightarrow> called g h s"
    using visited_okD [OF recovery_okD(4) [OF assms(1)] assms(2)] by metis
  have "find (\<lambda>(_, p, _). p > n) (rc_resubscribe s) = None"
    using assms(2,3) by (auto simp: visit_def c handlers_def split: option.splits)
  moreover obtain p where p: "map_of (rc_resubscribe s) (h_name h) = Some (p, h)"
    using assms(4) by (cases "map_of (rc_resubscribe s) (h_name h)") (auto simp: registered_def handlers_def)
  ultimately show ?thesis
    using up [OF p] jget_memD [OF p] by (auto simp: find_NoneD not_less)
qed

section \<open>Properties\<close>

text \<open>
  C30. No subscription is forgotten, as long as no resubscribe handler is registered under a taken
  name while a resubscribe run is going on (\<open>orderly\<close>; \<open>replaced_handler_forgotten\<close> below shows
  what happens otherwise). When a resubscribe run reaches its end, every resubscribe handler that
  is then registered, whatever its options, has been called for the generation of the run. And
  when the current transport generation has completed and no late bootstrap is outstanding, every
  registered handler with \<open>includeCurrentGeneration\<close> has been called for it: by the run if it was
  registered before its end, by a late bootstrap if after. A run whose handlers return reaches its
  end after finitely many turns if nothing is registered meanwhile.
\<close>

theorem handlers_resubscribed:
  assumes "orderly s"
  shows "(\<forall>g c h. rc_active s = Some (Resubscribe, g, c) \<and> rc_active (visit s) = None \<and>
        registered Resubscribe h s \<longrightarrow> called g h s) \<and>
    (\<forall>h. rc_completedResubscribe s = Some (rc_generation s) \<and> rc_microtasks s = [] \<and>
        registered Resubscribe h s \<and> h_includeCurrentGeneration h \<longrightarrow> called (rc_generation s) h s) \<and>
    (\<exists>k. rc_active ((visit ^^ k) s) = None)"
proof (intro conjI allI impI; (elim conjE)?)
  have ok: "recovery_ok s" using assms by (rule orderly_ok)
  show "called g h s" if "rc_active s = Some (Resubscribe, g, c)" "rc_active (visit s) = None"
    "registered Resubscribe h s" for g c h
    using run_calls_all [OF ok that] .
  show "called (rc_generation s) h s" if complete: "rc_completedResubscribe s = Some (rc_generation s)"
    "rc_microtasks s = []" and reg: "registered Resubscribe h s" and incl: "h_includeCurrentGeneration h" for h
  proof -
    obtain p where "map_of (rc_resubscribe s) (h_name h) = Some (p, h)"
      using reg by (cases "map_of (rc_resubscribe s) (h_name h)") (auto simp: registered_def handlers_def)
    then show ?thesis
      using boot_okD [OF recovery_okD(5) [OF ok] complete(1)] complete(2) incl by auto
  qed
  show "\<exists>k. rc_active ((visit ^^ k) s) = None" by (rule visits_end)
qed

definition bootstrapped_run :: recovery where
  "bootstrapped_run = fold exec [RunRecovery Resubscribe, StartRun, Visit, Register Resubscribe ''a'' True, RunMicrotask]
     new_recovery"

lemma orderly_fold:
  "orderly s \<Longrightarrow> (\<forall>n < length ops. orderly_op (ops ! n) (fold exec (take n ops) s)) \<Longrightarrow> orderly (fold exec ops s)"
proof (induction ops arbitrary: s)
  case (Cons op ops)
  have "orderly_op op s" using Cons.prems(2) [rule_format, of 0] by simp
  then have "orderly (exec op s)" using Cons.prems(1) by (simp add: orderly_next)
  moreover have "orderly_op (ops ! n) (fold exec (take n ops) (exec op s))" if "n < length ops" for n
    using Cons.prems(2) [rule_format, of "Suc n"] that by simp
  ultimately show ?case using Cons.IH by simp
qed simp

lemmas recovery_run_simps = register_def run_def start_run_def visit_def run_microtask_def complete_def
  new_recovery_def handlers_def set_handlers_def registered_def place_def Let_def

theorem handlers_resubscribed_witness:
  "called 1 \<lparr>h_id = 1, h_name = ''a'', h_includeCurrentGeneration = True\<rparr> bootstrapped_run"
proof -
  have "orderly bootstrapped_run"
    unfolding bootstrapped_run_def
    by (rule orderly_fold [OF orderly_new])
      (auto simp: less_Suc_eq recovery_run_simps resubscribing_def jhas_def)
  moreover have "rc_completedResubscribe bootstrapped_run = Some (rc_generation bootstrapped_run) \<and>
      rc_generation bootstrapped_run = 1 \<and> rc_microtasks bootstrapped_run = [] \<and>
      registered Resubscribe \<lparr>h_id = 1, h_name = ''a'', h_includeCurrentGeneration = True\<rparr> bootstrapped_run"
    by (simp add: bootstrapped_run_def recovery_run_simps)
  ultimately show ?thesis
    using handlers_resubscribed [of bootstrapped_run, THEN conjunct2, THEN conjunct1, rule_format,
        of "\<lparr>h_id = 1, h_name = ''a'', h_includeCurrentGeneration = True\<rparr>"]
    by simp
qed

text \<open>
  A handler that replaces one of the same name during a run is forgotten. \<open>Map.set\<close> keeps the
  place of the name, so the live iterator has already passed it, and the generation is not
  complete yet, so no late bootstrap is queued: when the run completes, the registered handler
  has not been called for the generation and nothing is left that would call it.
\<close>

definition replaced_run :: recovery where
  "replaced_run = fold exec [Register Resubscribe ''a'' True, RunRecovery Resubscribe, StartRun, Visit,
     Register Resubscribe ''a'' True, Visit] new_recovery"

theorem replaced_handler_forgotten:
  "registered Resubscribe \<lparr>h_id = 2, h_name = ''a'', h_includeCurrentGeneration = True\<rparr> replaced_run \<and>
   rc_completedResubscribe replaced_run = Some (rc_generation replaced_run) \<and> rc_active replaced_run = None \<and>
   rc_queue replaced_run = [] \<and> rc_microtasks replaced_run = [] \<and>
   \<not> called (rc_generation replaced_run) \<lparr>h_id = 2, h_name = ''a'', h_includeCurrentGeneration = True\<rparr> replaced_run"
  by (simp add: replaced_run_def recovery_run_simps called_def)

end
