(* ===== verification/Sha256.thy ===== *)
theory Sha256
  imports Utf16
begin

unbundle bit_operations_syntax

text \<open>
  The synchronous SHA-256 under every content address
  (\<^verbatim>\<open>packages/content-addressing/src/worktree-hash.ts\<close>, \<open>sha256Hex\<close>), with JavaScript's numbers:
  a bitwise operator reads its operands modulo \<open>2 ^ 32\<close> and gives a signed 32-bit number, \<open>>>>\<close> an
  unsigned one, and sums are exact. Its specification is FIPS 180-4 on 32-bit words, with the
  constants computed from the roots of the first primes.
\<close>

subsection \<open>Bitwise operators\<close>

definition to32 :: "int \<Rightarrow> 32 word" where
  "to32 x = word_of_int x"

definition js_or :: "int \<Rightarrow> int \<Rightarrow> int" where
  "js_or x y = sint (to32 x OR to32 y)"

definition js_and :: "int \<Rightarrow> int \<Rightarrow> int" where
  "js_and x y = sint (to32 x AND to32 y)"

definition js_xor :: "int \<Rightarrow> int \<Rightarrow> int" where
  "js_xor x y = sint (to32 x XOR to32 y)"

definition js_not :: "int \<Rightarrow> int" where
  "js_not x = sint (NOT (to32 x))"

definition js_shl :: "int \<Rightarrow> nat \<Rightarrow> int" where
  "js_shl x n = sint (push_bit (n mod 32) (to32 x))"

definition js_shr :: "int \<Rightarrow> nat \<Rightarrow> int" where
  "js_shr x n = uint (drop_bit (n mod 32) (to32 x))"

subsection \<open>\<open>sha256Hex\<close>\<close>

text \<open>The tables of the source, which writes them in hexadecimal.\<close>

definition SHA256_K :: "int list" where
  "SHA256_K = [
  1116352408, 1899447441, 3049323471, 3921009573, 961987163, 1508970993, 2453635748, 2870763221,
  3624381080, 310598401, 607225278, 1426881987, 1925078388, 2162078206, 2614888103, 3248222580,
  3835390401, 4022224774, 264347078, 604807628, 770255983, 1249150122, 1555081692, 1996064986,
  2554220882, 2821834349, 2952996808, 3210313671, 3336571891, 3584528711, 113926993, 338241895,
  666307205, 773529912, 1294757372, 1396182291, 1695183700, 1986661051, 2177026350, 2456956037,
  2730485921, 2820302411, 3259730800, 3345764771, 3516065817, 3600352804, 4094571909, 275423344,
  430227734, 506948616, 659060556, 883997877, 958139571, 1322822218, 1537002063, 1747873779,
  1955562222, 2024104815, 2227730452, 2361852424, 2428436474, 2756734187, 3204031479, 3329325298]"

definition SHA256_H :: "int list" where
  "SHA256_H = [
  1779033703, 3144134277, 1013904242, 2773480762, 1359893119, 2600822924, 528734635, 1541459225]"

definition rotr32 :: "int \<Rightarrow> nat \<Rightarrow> int" where
  "rotr32 value shift = js_or (js_shr value shift) (js_shl value (32 - shift))"

text \<open>The padded buffer. \<open>Math.ceil((n + 9) / 64)\<close> is a division that rounds up.\<close>

definition total_length :: "nat \<Rightarrow> nat" where
  "total_length n = (n + 9 + 63) div 64 * 64"

definition set_uint32 :: "nat \<Rightarrow> int \<Rightarrow> byte list \<Rightarrow> byte list" where
  "set_uint32 p v bytes = take p bytes @ be32 (to32 v) @ drop (p + 4) bytes"

definition padded_buffer :: "byte list \<Rightarrow> byte list" where
  "padded_buffer data =
     (let bit_length = 8 * length data;
          total = total_length (length data);
          bytes = data @ replicate (total - length data) 0;
          bytes = bytes[length data := 0x80];
          bytes = set_uint32 (total - 8) (int (bit_length div 0x100000000)) bytes
      in set_uint32 (total - 4) (js_shr (int bit_length) 0) bytes)"

definition get_uint32 :: "byte list \<Rightarrow> nat \<Rightarrow> int" where
  "get_uint32 bytes p = uint (u32_be (bytes ! p) (bytes ! (p + 1)) (bytes ! (p + 2)) (bytes ! (p + 3)))"

text \<open>The message schedule in the \<open>Uint32Array\<close>, which is reused from block to block.\<close>

definition schedule_word :: "int list \<Rightarrow> nat \<Rightarrow> int" where
  "schedule_word w i =
     (let s0 = js_xor (js_xor (rotr32 (w ! (i - 15)) 7) (rotr32 (w ! (i - 15)) 18)) (js_shr (w ! (i - 15)) 3);
          s1 = js_xor (js_xor (rotr32 (w ! (i - 2)) 17) (rotr32 (w ! (i - 2)) 19)) (js_shr (w ! (i - 2)) 10)
      in js_shr (w ! (i - 16) + s0 + w ! (i - 7) + s1) 0)"

definition schedule :: "byte list \<Rightarrow> nat \<Rightarrow> int list \<Rightarrow> int list" where
  "schedule bytes offset w =
     (let w = fold (\<lambda>i w. w[i := get_uint32 bytes (offset + i * 4)]) [0..<16] w
      in fold (\<lambda>i w. w[i := schedule_word w i]) [16..<64] w)"

type_synonym working = "int \<times> int \<times> int \<times> int \<times> int \<times> int \<times> int \<times> int"

fun compress_round :: "int list \<Rightarrow> nat \<Rightarrow> working \<Rightarrow> working" where
  "compress_round w i (a, b, c, d, e, f, g, h) =
     (let s1 = js_xor (js_xor (rotr32 e 6) (rotr32 e 11)) (rotr32 e 25);
          ch = js_xor (js_and e f) (js_and (js_not e) g);
          temp1 = js_shr (h + s1 + ch + SHA256_K ! i + w ! i) 0;
          s0 = js_xor (js_xor (rotr32 a 2) (rotr32 a 13)) (rotr32 a 22);
          maj = js_xor (js_xor (js_and a b) (js_and a c)) (js_and b c);
          temp2 = js_shr (s0 + maj) 0
      in (js_shr (temp1 + temp2) 0, a, b, c, js_shr (d + temp1) 0, e, f, g))"

fun add_hash :: "int list \<Rightarrow> working \<Rightarrow> int list" where
  "add_hash hash (a, b, c, d, e, f, g, h) =
     map2 (\<lambda>x y. js_shr (x + y) 0) hash [a, b, c, d, e, f, g, h]"

definition working_of :: "int list \<Rightarrow> working" where
  "working_of hash = (hash ! 0, hash ! 1, hash ! 2, hash ! 3, hash ! 4, hash ! 5, hash ! 6, hash ! 7)"

definition process_block :: "byte list \<Rightarrow> nat \<Rightarrow> int list \<times> int list \<Rightarrow> int list \<times> int list" where
  "process_block bytes offset hw =
     (let w = schedule bytes offset (snd hw)
      in (add_hash (fst hw) (fold (compress_round w) [0..<64] (working_of (fst hw))), w))"

definition sha256_words :: "byte list \<Rightarrow> int list" where
  "sha256_words data =
     (let bytes = padded_buffer data
      in fst (fold (\<lambda>k. process_block bytes (k * 64)) [0..<total_length (length data) div 64]
           (SHA256_H, replicate 64 0)))"

definition sha256Hex :: "byte list \<Rightarrow> ustring" where
  "sha256Hex data = concat (map (\<lambda>word. hex_text 8 (nat word)) (sha256_words data))"

subsection \<open>The standard\<close>

text \<open>The integer root, one bit after the other.\<close>

definition iroot :: "nat \<Rightarrow> nat \<Rightarrow> nat" where
  "iroot n x = foldl (\<lambda>r b. if (r + 2 ^ b) ^ n \<le> x then r + 2 ^ b else r) 0 (rev [0..<37])"

text \<open>The first 32 bits of the fractional part of the \<open>n\<close>-th root of \<open>p\<close>.\<close>

definition root_bits :: "nat \<Rightarrow> nat \<Rightarrow> 32 word" where
  "root_bits n p = of_nat (iroot n (p * 2 ^ (32 * n)) mod 2 ^ 32)"

text \<open>The first 64 primes: below \<open>19 ^ 2\<close> it is enough to divide by the primes up to 17.\<close>

definition primes :: "nat list" where
  "primes = filter (\<lambda>n. \<forall>d \<in> {2, 3, 5, 7, 11, 13, 17}. d = n \<or> n mod d \<noteq> 0) [2..<312]"

definition SIGMA0 :: "32 word \<Rightarrow> 32 word" where
  "SIGMA0 x = word_rotr 2 x XOR word_rotr 13 x XOR word_rotr 22 x"

definition SIGMA1 :: "32 word \<Rightarrow> 32 word" where
  "SIGMA1 x = word_rotr 6 x XOR word_rotr 11 x XOR word_rotr 25 x"

definition sigma0 :: "32 word \<Rightarrow> 32 word" where
  "sigma0 x = word_rotr 7 x XOR word_rotr 18 x XOR drop_bit 3 x"

definition sigma1 :: "32 word \<Rightarrow> 32 word" where
  "sigma1 x = word_rotr 17 x XOR word_rotr 19 x XOR drop_bit 10 x"

definition Ch :: "32 word \<Rightarrow> 32 word \<Rightarrow> 32 word \<Rightarrow> 32 word" where
  "Ch x y z = (x AND y) XOR (NOT x AND z)"

definition Maj :: "32 word \<Rightarrow> 32 word \<Rightarrow> 32 word \<Rightarrow> 32 word" where
  "Maj x y z = (x AND y) XOR (x AND z) XOR (y AND z)"

text \<open>Padding: a one bit, the fewest zeros, the length in bits in eight bytes.\<close>

definition be64 :: "nat \<Rightarrow> byte list" where
  "be64 n = be32 (of_nat (n div 2 ^ 32)) @ be32 (of_nat n)"

definition pad :: "byte list \<Rightarrow> byte list" where
  "pad m = m @ 0x80 # replicate (nat ((55 - int (length m)) mod 64)) 0 @ be64 (8 * length m)"

fun words_of :: "byte list \<Rightarrow> 32 word list" where
  "words_of (a # b # c # d # r) = u32_be a b c d # words_of r"
| "words_of _ = []"

definition block :: "byte list \<Rightarrow> nat \<Rightarrow> nat \<Rightarrow> 32 word" where
  "block m k j = words_of (pad m) ! (16 * k + j)"

fun W :: "(nat \<Rightarrow> 32 word) \<Rightarrow> nat \<Rightarrow> 32 word" where
  "W M t = (if t < 16 then M t
     else sigma1 (W M (t - 2)) + W M (t - 7) + sigma0 (W M (t - 15)) + W M (t - 16))"

declare W.simps [simp del]

type_synonym words8 = "32 word \<times> 32 word \<times> 32 word \<times> 32 word \<times> 32 word \<times> 32 word \<times> 32 word \<times> 32 word"

fun sha_round :: "(nat \<Rightarrow> 32 word) \<Rightarrow> nat \<Rightarrow> words8 \<Rightarrow> words8" where
  "sha_round M t (a, b, c, d, e, f, g, h) =
     (let T1 = h + SIGMA1 e + Ch e f g + root_bits 3 (primes ! t) + W M t;
          T2 = SIGMA0 a + Maj a b c
      in (T1 + T2, a, b, c, d + T1, e, f, g))"

fun add8 :: "words8 \<Rightarrow> words8 \<Rightarrow> words8" where
  "add8 (a, b, c, d, e, f, g, h) (a', b', c', d', e', f', g', h') =
     (a + a', b + b', c + c', d + d', e + e', f + f', g + g', h + h')"

definition H0 :: words8 where
  "H0 = (root_bits 2 2, root_bits 2 3, root_bits 2 5, root_bits 2 7,
     root_bits 2 11, root_bits 2 13, root_bits 2 17, root_bits 2 19)"

fun list8 :: "words8 \<Rightarrow> 32 word list" where
  "list8 (a, b, c, d, e, f, g, h) = [a, b, c, d, e, f, g, h]"

definition SHA256 :: "byte list \<Rightarrow> 32 word list" where
  "SHA256 m = list8 (fold (\<lambda>k H. add8 H (fold (sha_round (block m k)) [0..<64] H)) [0..<length (pad m) div 64] H0)"

subsection \<open>Operators on words\<close>

lemma to32_simps [simp]:
  "to32 (x + y) = to32 x + to32 y" "to32 (js_or x y) = to32 x OR to32 y" "to32 (js_and x y) = to32 x AND to32 y"
  "to32 (js_xor x y) = to32 x XOR to32 y" "to32 (js_not x) = NOT (to32 x)"
  "to32 (uint w) = w" "to32 (sint w) = w"
  by (simp_all add: to32_def js_or_def js_and_def js_xor_def js_not_def)

lemma to32_shift [simp]:
  "n < 32 \<Longrightarrow> to32 (js_shr x n) = drop_bit n (to32 x)" "n < 32 \<Longrightarrow> to32 (js_shl x n) = push_bit n (to32 x)"
  by (simp_all add: to32_def js_shr_def js_shl_def)

lemma to32_rotr [simp]:
  assumes "0 < n" and "n < 32"
  shows "to32 (rotr32 x n) = word_rotr n (to32 x)"
proof (rule bit_word_eqI)
  fix m
  assume "m < LENGTH(32)"
  then show "bit (to32 (rotr32 x n)) m \<longleftrightarrow> bit (word_rotr n (to32 x)) m"
    using assms bit_imp_le_length [of "to32 x" "n + m"]
    by (cases "m + n < 32") (auto simp: rotr32_def bit_simps le_mod_geq add.commute)
qed

definition unsigned32 :: "int \<Rightarrow> bool" where
  "unsigned32 x \<longleftrightarrow> 0 \<le> x \<and> x < 2 ^ 32"

lemma unsigned32_shr [simp]: "unsigned32 (js_shr x 0)"
  using unsigned_less [where ?'a = int, of "to32 x"] by (simp add: unsigned32_def js_shr_def)

lemma unsigned32_nat: "unsigned32 x \<Longrightarrow> nat x = unat (to32 x)"
  by (simp add: unsigned32_def to32_def unsigned_of_int take_bit_int_eq_self)

subsection \<open>The schedule\<close>

declare upt_rec_numeral [simp del]

lemma schedule_word_to32:
  "to32 (schedule_word w i) = sigma1 (to32 (w ! (i - 2))) + to32 (w ! (i - 7)) + sigma0 (to32 (w ! (i - 15))) +
     to32 (w ! (i - 16))"
  by (simp add: schedule_word_def Let_def sigma0_def sigma1_def xor.assoc ac_simps)

lemma fold_update: "n \<le> length w \<Longrightarrow> length (fold (\<lambda>i w. w[i := f i]) [0..<n] w) = length w \<and>
    (\<forall>j < length w. fold (\<lambda>i w. w[i := f i]) [0..<n] w ! j = (if j < n then f j else w ! j))"
  by (induction n) (auto simp: nth_list_update less_Suc_eq)

lemma schedule_loop:
  assumes "length w = 64" and "\<forall>j < 16. to32 (w ! j) = M j" and "n \<le> 48"
  shows "length (fold (\<lambda>i w. w[i := schedule_word w i]) [16..<16 + n] w) = 64 \<and>
    (\<forall>j < 16 + n. to32 (fold (\<lambda>i w. w[i := schedule_word w i]) [16..<16 + n] w ! j) = W M j)"
  using assms(3)
proof (induction n)
  case 0
  then show ?case using assms by (simp add: W.simps)
next
  case (Suc n)
  let ?w = "fold (\<lambda>i w. w[i := schedule_word w i]) [16..<16 + n] w"
  have IH: "length ?w = 64" "\<And>j. j < 16 + n \<Longrightarrow> to32 (?w ! j) = W M j" using Suc by simp_all
  have "to32 (schedule_word ?w (16 + n)) = W M (16 + n)"
    using Suc.prems unfolding schedule_word_to32 by (simp add: IH W.simps [of M "16 + n"])
  then have "length (?w[16 + n := schedule_word ?w (16 + n)]) = 64 \<and>
      (\<forall>j < 16 + Suc n. to32 (?w[16 + n := schedule_word ?w (16 + n)] ! j) = W M j)"
    using IH Suc.prems by (auto simp: nth_list_update less_Suc_eq)
  moreover have "[16..<16 + Suc n] = [16..<16 + n] @ [16 + n]"
    using upt_Suc_append [of 16 "16 + n"] by simp
  ultimately show ?case by simp
qed

lemma schedule_correct:
  assumes "length w = 64" and "\<forall>j < 16. to32 (get_uint32 bytes (offset + j * 4)) = M j"
  shows "length (schedule bytes offset w) = 64" and "j < 64 \<Longrightarrow> to32 (schedule bytes offset w ! j) = W M j"
proof -
  let ?w = "fold (\<lambda>i w. w[i := get_uint32 bytes (offset + i * 4)]) [0..<16] w"
  have "length ?w = 64" "\<forall>j < 16. to32 (?w ! j) = M j"
    using fold_update [of 16 w "\<lambda>i. get_uint32 bytes (offset + i * 4)"] assms by simp_all
  note loop = schedule_loop [OF this, of 48]
  then show "length (schedule bytes offset w) = 64" by (simp add: schedule_def Let_def)
  show "to32 (schedule bytes offset w ! j) = W M j" if "j < 64"
    using loop that by (simp add: schedule_def Let_def)
qed

lemma W_cong: "(\<And>j. j < 16 \<Longrightarrow> M j = M' j) \<Longrightarrow> W M t = W M' t"
proof (induction t rule: less_induct)
  case (less t)
  then show ?case by (cases "t < 16") (simp_all add: W.simps [of _ t])
qed

subsection \<open>The compression function\<close>

fun to8 :: "working \<Rightarrow> words8" where
  "to8 (a, b, c, d, e, f, g, h) = (to32 a, to32 b, to32 c, to32 d, to32 e, to32 f, to32 g, to32 h)"

lemma compress_round_correct:
  assumes "to32 (w ! t) = W M t" and "to32 (SHA256_K ! t) = root_bits 3 (primes ! t)"
  shows "to8 (compress_round w t s) = sha_round M t (to8 s)"
  using assms
  by (cases s rule: to8.cases) (simp add: Let_def SIGMA0_def SIGMA1_def Ch_def Maj_def xor.assoc)

lemma rounds_correct:
  assumes "\<And>t. t < n \<Longrightarrow> to32 (w ! t) = W M t" and "\<And>t. t < n \<Longrightarrow> to32 (SHA256_K ! t) = root_bits 3 (primes ! t)"
  shows "to8 (fold (compress_round w) [0..<n] s) = fold (sha_round M) [0..<n] (to8 s)"
  using assms by (induction n) (simp_all add: compress_round_correct)

subsection \<open>The constants\<close>

lemma iroot_bits:
  "foldl (\<lambda>r b. if (r + 2 ^ b) ^ n \<le> x then r + 2 ^ b else r) r (rev [0..<k]) = q"
  if "r \<le> q" and "q < r + 2 ^ k" and "q ^ n \<le> x" and "x < (q + 1) ^ n" for r q x :: nat
  using that
proof (induction k arbitrary: r)
  case (Suc k)
  have "(r + 2 ^ k) ^ n \<le> x \<longleftrightarrow> r + 2 ^ k \<le> q"
  proof
    assume "(r + 2 ^ k) ^ n \<le> x"
    then have "(r + 2 ^ k) ^ n < (q + 1) ^ n" using Suc.prems(4) by simp
    then show "r + 2 ^ k \<le> q" using power_mono [of "q + 1" "r + 2 ^ k" n] by fastforce
  next
    assume "r + 2 ^ k \<le> q"
    then have "(r + 2 ^ k) ^ n \<le> q ^ n" by (rule power_mono) simp
    then show "(r + 2 ^ k) ^ n \<le> x" using Suc.prems(3) by simp
  qed
  then show ?case using Suc.IH Suc.prems by simp
qed simp

lemma root_bits_eq:
  assumes "q ^ n \<le> p * 2 ^ (32 * n)" and "p * 2 ^ (32 * n) < (q + 1) ^ n" and "q < 2 ^ 37" and "int q mod 2 ^ 32 = k"
  shows "root_bits n p = to32 k"
proof -
  have "iroot n (p * 2 ^ (32 * n)) = q"
    unfolding iroot_def using assms by (intro iroot_bits) simp_all
  then have "root_bits n p = of_int (int (q mod 2 ^ 32))"
    by (simp add: root_bits_def)
  also have "int (q mod 2 ^ 32) = int q mod 2 ^ 32" by (simp add: zmod_int)
  finally have "root_bits n p = of_int (int q mod 2 ^ 32)" .
  then show ?thesis using assms(4) by (simp add: to32_def)
qed

lemma primes_table: "primes =
  [2, 3, 5, 7, 11, 13, 17, 19, 23, 29, 31, 37, 41, 43, 47, 53, 59, 61, 67, 71, 73, 79, 83, 89, 97, 101,
   103, 107, 109, 113, 127, 131, 137, 139, 149, 151, 157, 163, 167, 173, 179, 181, 191, 193, 197, 199,
   211, 223, 227, 229, 233, 239, 241, 251, 257, 263, 269, 271, 277, 281, 283, 293, 307, 311]"
  unfolding primes_def by (simp add: upt_rec_numeral)

text \<open>A root is checked by its powers.\<close>

fun roots_ok :: "nat \<Rightarrow> nat list \<Rightarrow> nat list \<Rightarrow> int list \<Rightarrow> bool" where
  "roots_ok n (q # qs) (p # ps) (k # ks) \<longleftrightarrow>
     q ^ n \<le> p * 2 ^ (32 * n) \<and> p * 2 ^ (32 * n) < (q + 1) ^ n \<and> q < 2 ^ 37 \<and> int q mod 2 ^ 32 = k \<and>
     roots_ok n qs ps ks"
| "roots_ok n [] [] [] \<longleftrightarrow> True"
| "roots_ok n _ _ _ \<longleftrightarrow> False"

lemma roots_ok_map: "roots_ok n qs ps ks \<Longrightarrow> map to32 ks = map (root_bits n) ps"
  by (induction n qs ps ks rule: roots_ok.induct) (auto simp: root_bits_eq)

lemma SHA256_K_roots: "map to32 SHA256_K = map (root_bits 3) primes"
  unfolding SHA256_K_def primes_table
  by (rule roots_ok_map [where qs = "[
     0x1428a2f98, 0x171374491, 0x1b5c0fbcf, 0x1e9b5dba5, 0x23956c25b, 0x259f111f1,
     0x2923f82a4, 0x2ab1c5ed5, 0x2d807aa98, 0x312835b01, 0x3243185be, 0x3550c7dc3,
     0x372be5d74, 0x380deb1fe, 0x39bdc06a7, 0x3c19bf174, 0x3e49b69c1, 0x3efbe4786,
     0x40fc19dc6, 0x4240ca1cc, 0x42de92c6f, 0x44a7484aa, 0x45cb0a9dc, 0x476f988da,
     0x4983e5152, 0x4a831c66d, 0x4b00327c8, 0x4bf597fc7, 0x4c6e00bf3, 0x4d5a79147,
     0x506ca6351, 0x514292967, 0x527b70a85, 0x52e1b2138, 0x54d2c6dfc, 0x553380d13,
     0x5650a7354, 0x5766a0abb, 0x581c2c92e, 0x592722c85, 0x5a2bfe8a1, 0x5a81a664b,
     0x5c24b8b70, 0x5c76c51a3, 0x5d192e819, 0x5d6990624, 0x5f40e3585, 0x6106aa070,
     0x619a4c116, 0x61e376c08, 0x62748774c, 0x634b0bcb5, 0x6391c0cb3, 0x64ed8aa4a,
     0x65b9cca4f, 0x6682e6ff3, 0x6748f82ee, 0x678a5636f, 0x684c87814, 0x68cc70208,
     0x690befffa, 0x6a4506ceb, 0x6bef9a3f7, 0x6c67178f2] :: nat list"]) simp

lemma SHA256_H_roots: "map to32 SHA256_H = map (root_bits 2) [2, 3, 5, 7, 11, 13, 17, 19]"
  unfolding SHA256_H_def
  by (rule roots_ok_map [where qs = "[
     0x16a09e667, 0x1bb67ae85, 0x23c6ef372, 0x2a54ff53a, 0x3510e527f, 0x39b05688c,
     0x41f83d9ab, 0x45be0cd19] :: nat list"]) simp

lemma SHA256_K_nth: "t < 64 \<Longrightarrow> to32 (SHA256_K ! t) = root_bits 3 (primes ! t)"
proof -
  assume "t < 64"
  moreover have "length SHA256_K = 64" by (simp add: SHA256_K_def)
  moreover have "length primes = 64" by (simp add: primes_table)
  ultimately show ?thesis using arg_cong [OF SHA256_K_roots, of "\<lambda>xs. xs ! t"] by simp
qed

subsection \<open>Padding\<close>

lemma total_length_pad: "total_length n = n + 9 + nat ((55 - int n) mod 64)"
proof -
  have "int (total_length n) = (int n + 72) div 64 * 64" by (simp add: total_length_def zdiv_int)
  also have "\<dots> = int n + 72 - (int n + 72) mod 64"
    using div_mult_mod_eq [of "int n + 72" 64] by linarith
  also have "(int n + 72) mod 64 = 63 - (55 - int n) mod 64"
  proof (rule int_mod_pos_eq [where q = "1 - (55 - int n) div 64"])
    show "int n + 72 = 64 * (1 - (55 - int n) div 64) + (63 - (55 - int n) mod 64)"
      using div_mult_mod_eq [of "55 - int n" 64] by (simp add: algebra_simps)
    show "0 \<le> 63 - (55 - int n) mod 64" "63 - (55 - int n) mod 64 < 64"
      using pos_mod_bound [of 64 "55 - int n"] pos_mod_sign [of 64 "55 - int n"] by linarith+
  qed
  finally have "int (total_length n) = int n + 9 + (55 - int n) mod 64" by simp
  then show ?thesis by linarith
qed

lemma length_pad: "length (pad m) = total_length (length m)"
  by (simp add: pad_def be64_def total_length_pad)

lemma be32_of_int: "be32 (to32 (int n)) = be32 (of_nat n)"
  by (simp add: to32_def)

lemma padded_buffer_pad: "padded_buffer m = pad m"
proof -
  define z where "z = nat ((55 - int (length m)) mod 64)"
  have total: "total_length (length m) = length m + (z + 9)" by (simp add: total_length_pad z_def)
  have "replicate (z + 9) (0 :: byte) = 0 # replicate (z + 8) 0"
    using replicate_Suc [of "z + 8" "0 :: byte"] by (simp add: add.commute)
  then have "(m @ replicate (z + 9) 0)[length m := 0x80] = m @ 0x80 # replicate (z + 8) 0"
    by (simp add: list_update_append)
  moreover have "replicate (z + 8) (0 :: byte) = replicate z 0 @ replicate 4 0 @ replicate 4 0"
    by (simp flip: replicate_add)
  ultimately show ?thesis
    by (simp add: padded_buffer_def pad_def be64_def Let_def total set_uint32_def z_def be32_of_int)
qed

subsection \<open>The digest\<close>

lemma words_of_nth:
  "4 * i + 3 < length bs \<Longrightarrow>
     words_of bs ! i = u32_be (bs ! (4 * i)) (bs ! (4 * i + 1)) (bs ! (4 * i + 2)) (bs ! (4 * i + 3))"
proof (induction bs arbitrary: i rule: words_of.induct)
  case (1 a b c d r)
  then show ?case by (cases i) (simp_all add: add.commute)
qed auto

lemma get_uint32_block:
  assumes "k < total_length (length m) div 64" and "j < 16"
  shows "to32 (get_uint32 (pad m) (k * 64 + j * 4)) = block m k j"
proof -
  have "total_length (length m) div 64 * 64 = total_length (length m)" by (simp add: total_length_def)
  then have "k * 64 + 64 \<le> total_length (length m)" using assms(1) by linarith
  then have "4 * (16 * k + j) + 3 < length (pad m)" using assms(2) by (simp add: length_pad)
  then show ?thesis
    by (simp add: block_def words_of_nth get_uint32_def algebra_simps)
qed

text \<open>The hash words are unsigned and stand for the words of the standard.\<close>

definition hash_for :: "int list \<Rightarrow> words8 \<Rightarrow> bool" where
  "hash_for hash H \<longleftrightarrow> length hash = 8 \<and> to8 (working_of hash) = H \<and> (\<forall>x \<in> set hash. unsigned32 x)"

lemma hash_forE:
  assumes "hash_for hash H"
  obtains a b c d e f g h where "hash = [a, b, c, d, e, f, g, h]" "H = to8 (a, b, c, d, e, f, g, h)"
    "\<forall>x \<in> {a, b, c, d, e, f, g, h}. unsigned32 x"
proof -
  have "length hash = Suc (Suc (Suc (Suc (Suc (Suc (Suc (Suc 0)))))))" using assms by (simp add: hash_for_def)
  then obtain a b c d e f g h where "hash = [a, b, c, d, e, f, g, h]" by (auto simp: length_Suc_conv)
  then show thesis using assms by (intro that) (auto simp: hash_for_def working_of_def)
qed

lemma add_hash_correct:
  assumes "hash_for hash H" and "to8 s = S"
  shows "hash_for (add_hash hash s) (add8 H S)"
  using assms(2)
  by (rule_tac hash_forE [OF assms(1)], cases s rule: to8.cases) (auto simp: hash_for_def working_of_def)

lemma process_block_correct:
  assumes "hash_for (fst hw) H" and "length (snd hw) = 64" and "k < total_length (length m) div 64"
  shows "hash_for (fst (process_block (pad m) (k * 64) hw)) (add8 H (fold (sha_round (block m k)) [0..<64] H))"
    and "length (snd (process_block (pad m) (k * 64) hw)) = 64"
proof -
  note sched = schedule_correct [OF assms(2), where bytes = "pad m" and offset = "k * 64" and M = "block m k"]
  have ready: "\<forall>j < 16. to32 (get_uint32 (pad m) (k * 64 + j * 4)) = block m k j"
    using get_uint32_block [OF assms(3)] by simp
  have "to8 (fold (compress_round (schedule (pad m) (k * 64) (snd hw))) [0..<64] (working_of (fst hw))) =
      fold (sha_round (block m k)) [0..<64] H"
    using rounds_correct [of 64 _ "block m k"] sched(2) [OF ready] SHA256_K_nth assms(1) by (simp add: hash_for_def)
  then show "hash_for (fst (process_block (pad m) (k * 64) hw)) (add8 H (fold (sha_round (block m k)) [0..<64] H))"
    using assms(1) by (simp add: process_block_def Let_def add_hash_correct)
  show "length (snd (process_block (pad m) (k * 64) hw)) = 64"
    using sched(1) [OF ready] by (simp add: process_block_def Let_def)
qed

lemma blocks_correct:
  assumes "n \<le> total_length (length m) div 64"
  shows "hash_for (fst (fold (\<lambda>k. process_block (pad m) (k * 64)) [0..<n] (SHA256_H, replicate 64 0)))
      (fold (\<lambda>k H. add8 H (fold (sha_round (block m k)) [0..<64] H)) [0..<n] H0) \<and>
    length (snd (fold (\<lambda>k. process_block (pad m) (k * 64)) [0..<n] (SHA256_H, replicate 64 0))) = 64"
  using assms
proof (induction n)
  case 0
  have "hash_for SHA256_H H0"
    using SHA256_H_roots by (simp add: hash_for_def SHA256_H_def working_of_def H0_def unsigned32_def)
  then show ?case by simp
next
  case (Suc n)
  let ?hw = "fold (\<lambda>k. process_block (pad m) (k * 64)) [0..<n] (SHA256_H, replicate 64 0)"
  let ?H = "fold (\<lambda>k H. add8 H (fold (sha_round (block m k)) [0..<64] H)) [0..<n] H0"
  show ?case
    using process_block_correct [of ?hw ?H n m] Suc.IH Suc.prems by simp
qed

lemma sha256_words_correct: "map nat (sha256_words m) = map unat (SHA256 m)"
proof -
  have "hash_for (sha256_words m) (fold (\<lambda>k H. add8 H (fold (sha_round (block m k)) [0..<64] H)) [0..<length (pad m) div 64] H0)"
    using blocks_correct [of "total_length (length m) div 64" m]
    by (simp add: sha256_words_def Let_def padded_buffer_pad length_pad)
  then show ?thesis
    unfolding SHA256_def by (elim hash_forE) (simp add: unsigned32_nat)
qed

lemma sha256Hex_words: "sha256Hex data = concat (map (\<lambda>w. hex_text 8 (unat w)) (SHA256 data))"
proof -
  have "sha256Hex data = concat (map (hex_text 8) (map nat (sha256_words data)))"
    unfolding map_map by (simp add: sha256Hex_def comp_def)
  then show ?thesis
    by (simp only: sha256_words_correct map_map comp_def)
qed

lemma length_list8 [simp]: "length (list8 H) = 8"
  by (cases H rule: list8.cases) simp

declare upt_rec_numeral [simp]

section \<open>Properties\<close>

text \<open>
  C35. The code's SHA-256 is SHA-256. For every byte string, the hex text it gives is that of the
  eight words of FIPS 180-4: the padding is the shortest one, the signed and unsigned 32-bit
  numbers of JavaScript stand for the words of the standard through all rounds, the message
  schedule does not depend on what the reused array held, and the tables are the first 32 bits
  of the fractional parts of the cube and square roots of the first primes.
\<close>

theorem sha256_is_standard:
  "sha256Hex data = concat (map (\<lambda>w. hex_text 8 (unat w)) (SHA256 data))"
  by (rule sha256Hex_words)

end
