(* ===== verification/SnapshotDigest.thy ===== *)
theory SnapshotDigest
  imports Sha256
begin

text \<open>
  The digest of an external repository snapshot
  (\<^verbatim>\<open>packages/content-addressing/src/snapshot-digest.ts\<close>): a canonical binary encoding of a set of
  files under the content hash. A JavaScript number that is not an integer is \<open>NotInteger\<close>.
\<close>

datatype js_number = Integer int | NotInteger

fun isSafeInteger :: "js_number \<Rightarrow> bool" where
  "isSafeInteger (Integer n) \<longleftrightarrow> \<bar>n\<bar> \<le> 2 ^ 53 - 1"
| "isSafeInteger NotInteger \<longleftrightarrow> False"

record snapshot_entry =
  se_path :: ustring
  se_mode :: js_number
  se_size :: js_number
  se_contentHash :: ustring

datatype snapshot_error =
    OutsideUint32 js_number
  | InvalidLength js_number
  | NotASha256 ustring
  | DuplicatePath ustring
  | EmptyPath
  | NotAFileMode js_number

definition MAGIC :: "byte list" where
  "MAGIC = utf8 (ascii ''vibestudio-snapshot'' @ [0] @ ascii ''v1'' @ [0] @ ascii ''sha256'' @ [0])"

definition u32 :: "js_number \<Rightarrow> snapshot_error + byte list" where
  "u32 value =
     (case value of
        Integer n \<Rightarrow>
          if \<not> isSafeInteger value \<or> n < 0 \<or> n > 0xffffffff then Inl (OutsideUint32 value)
          else Inr (be32 (to32 n))
      | NotInteger \<Rightarrow> Inl (OutsideUint32 value))"

definition u64 :: "js_number \<Rightarrow> snapshot_error + byte list" where
  "u64 value =
     (case value of
        Integer n \<Rightarrow>
          if \<not> isSafeInteger value \<or> n < 0 then Inl (InvalidLength value)
          else Inr (be32 (to32 (n div 0x100000000)) @ be32 (to32 (js_shr n 0)))
      | NotInteger \<Rightarrow> Inl (InvalidLength value))"

definition lower_hex :: "code_unit \<Rightarrow> bool" where
  "lower_hex u \<longleftrightarrow> 48 \<le> u \<and> u \<le> 57 \<or> 97 \<le> u \<and> u \<le> 102"

definition SHA256_HEX :: "ustring \<Rightarrow> bool" where
  "SHA256_HEX s \<longleftrightarrow> length s = 64 \<and> list_all lower_hex s"

definition digit_value :: "code_unit \<Rightarrow> nat" where
  "digit_value u = (if u \<le> 57 then unat u - 48 else unat u - 87)"

fun hex_pairs :: "ustring \<Rightarrow> byte list" where
  "hex_pairs (u # v # r) = of_nat (16 * digit_value u + digit_value v) # hex_pairs r"
| "hex_pairs _ = []"

definition hexBytes :: "ustring \<Rightarrow> snapshot_error + byte list" where
  "hexBytes value = (if \<not> SHA256_HEX value then Inl (NotASha256 value) else Inr (hex_pairs value))"

text \<open>Evaluation of the arguments of \<open>push\<close>, left to right, where the first error is thrown.\<close>

fun sequence :: "('e + 'a list) list \<Rightarrow> 'e + 'a list" where
  "sequence [] = Inr []"
| "sequence (Inl e # _) = Inl e"
| "sequence (Inr x # rs) = map_sum (\<lambda>e. e) (\<lambda>y. x @ y) (sequence rs)"

definition entry_bytes :: "snapshot_entry \<Rightarrow> snapshot_error + byte list" where
  "entry_bytes e =
     (let pathBytes = utf8 (se_path e)
      in sequence [u32 (Integer (int (length pathBytes))), Inr pathBytes, u32 (se_mode e), u64 (se_size e),
           hexBytes (se_contentHash e)])"

definition file_mode :: "js_number \<Rightarrow> bool" where
  "file_mode m \<longleftrightarrow> m = Integer 33188 \<or> m = Integer 33261"

text \<open>The loop, with the set \<open>seen\<close>.\<close>

fun entries_bytes :: "ustring list \<Rightarrow> snapshot_entry list \<Rightarrow> snapshot_error + byte list" where
  "entries_bytes seen [] = Inr []"
| "entries_bytes seen (e # es) =
     (if se_path e \<in> set seen then Inl (DuplicatePath (se_path e))
      else if se_path e = [] then Inl EmptyPath
      else if \<not> file_mode (se_mode e) then Inl (NotAFileMode (se_mode e))
      else sequence [entry_bytes e, entries_bytes (se_path e # seen) es])"

definition snapshot_bytes :: "snapshot_entry list \<Rightarrow> snapshot_error + byte list" where
  "snapshot_bytes entries =
     sequence [Inr MAGIC, u32 (Integer (int (length entries))), entries_bytes [] (sort_utf16 se_path entries)]"

definition CANONICAL_SNAPSHOT_DIGEST_PREFIX :: ustring where
  "CANONICAL_SNAPSHOT_DIGEST_PREFIX = ascii ''v1-sha256:''"

definition canonicalSnapshotDigest :: "snapshot_entry list \<Rightarrow> snapshot_error + ustring" where
  "canonicalSnapshotDigest entries =
     map_sum (\<lambda>e. e) (\<lambda>bytes. CANONICAL_SNAPSHOT_DIGEST_PREFIX @ sha256Hex bytes) (snapshot_bytes entries)"

definition isCanonicalSnapshotDigest :: "ustring \<Rightarrow> bool" where
  "isCanonicalSnapshotDigest value \<longleftrightarrow>
     startsWith CANONICAL_SNAPSHOT_DIGEST_PREFIX value \<and> SHA256_HEX (drop (length CANONICAL_SNAPSHOT_DIGEST_PREFIX) value)"

definition assertCanonicalSnapshotDigest :: "ustring \<Rightarrow> ustring + unit" where
  "assertCanonicalSnapshotDigest value = (if \<not> isCanonicalSnapshotDigest value then Inl value else Inr ())"

subsection \<open>Numbers and hashes\<close>

lemma sequence_eq_Inr:
  "sequence (r # rs) = Inr y \<longleftrightarrow> (\<exists>a b. r = Inr a \<and> sequence rs = Inr b \<and> y = a @ b)"
  by (cases r; cases "sequence rs") auto

declare sequence.simps(2,3) [simp del]

lemma u32_Inr: "u32 v = Inr b \<longleftrightarrow> (\<exists>n. v = Integer n \<and> 0 \<le> n \<and> n < 2 ^ 32 \<and> b = be32 (to32 n))"
  by (cases v) (auto simp: u32_def)

lemma to32_inject: "0 \<le> m \<Longrightarrow> m < 2 ^ 32 \<Longrightarrow> 0 \<le> n \<Longrightarrow> n < 2 ^ 32 \<Longrightarrow> to32 m = to32 n \<longleftrightarrow> m = n"
  by (simp add: to32_def word_of_int_eq_iff take_bit_int_eq_self)

lemma u32_inject: "u32 v = Inr b \<Longrightarrow> u32 w = Inr b \<Longrightarrow> v = w"
  by (auto simp: u32_Inr be32_inject to32_inject)

lemma u32_length: "u32 v = Inr b \<Longrightarrow> length b = 4"
  by (auto simp: u32_Inr)

lemma u64_Inr: "u64 v = Inr b \<longleftrightarrow>
    (\<exists>n. v = Integer n \<and> 0 \<le> n \<and> n < 2 ^ 53 \<and> b = be32 (to32 (n div 2 ^ 32)) @ be32 (to32 n))"
  by (cases v) (auto simp: u64_def)

lemma u64_inject:
  assumes "u64 v = Inr b" and "u64 w = Inr b"
  shows "v = w"
proof -
  obtain m n where mn: "v = Integer m" "w = Integer n" "0 \<le> m" "m < 2 ^ 53" "0 \<le> n" "n < 2 ^ 53"
    and eq: "to32 (m div 2 ^ 32) = to32 (n div 2 ^ 32)" "to32 m = to32 n"
    using assms by (auto simp: u64_Inr be32_inject)
  have "m div 2 ^ 32 = n div 2 ^ 32" using eq(1) mn by (subst (asm) to32_inject) auto
  moreover have "m mod 2 ^ 32 = n mod 2 ^ 32"
    using eq(2) by (simp add: to32_def word_of_int_eq_iff take_bit_eq_mod)
  ultimately have "m = n" by (metis div_mult_mod_eq)
  then show ?thesis using mn by simp
qed

lemma u64_length: "u64 v = Inr b \<Longrightarrow> length b = 8"
  by (auto simp: u64_Inr)

lemma digit_value_inject: "lower_hex u \<Longrightarrow> lower_hex v \<Longrightarrow> digit_value u = digit_value v \<longleftrightarrow> u = v"
  by (auto simp: lower_hex_def digit_value_def word_le_nat_alt word_unat_eq_iff)

lemma digit_value_bound: "lower_hex u \<Longrightarrow> digit_value u < 16"
  by (auto simp: lower_hex_def digit_value_def word_le_nat_alt)

lemma hex_pairs_inject:
  "list_all lower_hex s \<Longrightarrow> list_all lower_hex t \<Longrightarrow> length s = length t \<Longrightarrow> even (length s) \<Longrightarrow>
     hex_pairs s = hex_pairs t \<longleftrightarrow> s = t"
proof (induction s arbitrary: t rule: hex_pairs.induct)
  case (1 u v r)
  then obtain u' v' r' where t: "t = u' # v' # r'"
    by (cases t; cases "tl t") auto
  have byte: "(of_nat m :: byte) = of_nat n \<longleftrightarrow> m = n" if "m < 256" "n < 256" for m n
    using that unat_byte by metis
  have "16 * digit_value u + digit_value v < 256" "16 * digit_value u' + digit_value v' < 256"
    using 1(2,3) digit_value_bound [of u] digit_value_bound [of v] digit_value_bound [of u'] digit_value_bound [of v'] t
    by simp_all
  moreover have "16 * digit_value u + digit_value v = 16 * digit_value u' + digit_value v' \<longleftrightarrow> u = u' \<and> v = v'"
    using 1(2,3) digit_value_bound [of v] digit_value_bound [of v'] digit_value_inject [of u u'] digit_value_inject [of v v'] t
    by auto
  ultimately show ?case using 1 t by (simp add: byte del: of_nat_add)
qed auto

lemma length_hex_pairs: "length (hex_pairs s) = length s div 2"
  by (induction s rule: hex_pairs.induct) auto

lemma hexBytes_Inr: "hexBytes s = Inr b \<longleftrightarrow> SHA256_HEX s \<and> b = hex_pairs s"
  by (auto simp: hexBytes_def)

lemma hexBytes_inject: "hexBytes s = Inr b \<Longrightarrow> hexBytes t = Inr b \<Longrightarrow> s = t"
  using hex_pairs_inject [of s t] by (auto simp: hexBytes_Inr SHA256_HEX_def)

lemma hexBytes_length: "hexBytes s = Inr b \<Longrightarrow> length b = 32"
  by (simp add: hexBytes_Inr SHA256_HEX_def length_hex_pairs)

subsection \<open>Entries\<close>

lemma entry_bytes_Inr:
  "entry_bytes e = Inr a \<longleftrightarrow> (\<exists>l m z h. u32 (Integer (int (length (utf8 (se_path e))))) = Inr l \<and>
     u32 (se_mode e) = Inr m \<and> u64 (se_size e) = Inr z \<and> hexBytes (se_contentHash e) = Inr h \<and>
     a = l @ utf8 (se_path e) @ m @ z @ h)"
  by (auto simp: entry_bytes_def Let_def sequence_eq_Inr)

text \<open>An encoded entry gives everything back but the lone surrogates of its path.\<close>

lemma entry_prefix:
  assumes "entry_bytes e = Inr a" and "entry_bytes f = Inr b" and "a @ r = b @ s"
  shows "utf8 (se_path e) = utf8 (se_path f) \<and> se_mode e = se_mode f \<and> se_size e = se_size f \<and>
    se_contentHash e = se_contentHash f \<and> r = s"
proof -
  obtain l m z h where e: "u32 (Integer (int (length (utf8 (se_path e))))) = Inr l" "u32 (se_mode e) = Inr m"
      "u64 (se_size e) = Inr z" "hexBytes (se_contentHash e) = Inr h" "a = l @ utf8 (se_path e) @ m @ z @ h"
    using assms(1) by (auto simp: entry_bytes_Inr)
  obtain l' m' z' h' where f: "u32 (Integer (int (length (utf8 (se_path f))))) = Inr l'" "u32 (se_mode f) = Inr m'"
      "u64 (se_size f) = Inr z'" "hexBytes (se_contentHash f) = Inr h'" "b = l' @ utf8 (se_path f) @ m' @ z' @ h'"
    using assms(2) by (auto simp: entry_bytes_Inr)
  have len: "length l = length l'" "length m = length m'" "length z = length z'" "length h = length h'"
    using e f by (auto dest!: u32_length u64_length hexBytes_length)
  then have "l = l'" using assms(3) e(5) f(5) by simp
  then have "length (utf8 (se_path e)) = length (utf8 (se_path f))" 
    using u32_inject [OF e(1), of "Integer (int (length (utf8 (se_path f))))"] f(1) by simp
  then have "utf8 (se_path e) = utf8 (se_path f) \<and> m = m' \<and> z = z' \<and> h = h' \<and> r = s"
    using assms(3) e(5) f(5) len by simp
  then show ?thesis
    using u32_inject [OF e(2)] u64_inject [OF e(3)] hexBytes_inject [OF e(4)] f by simp
qed

lemma entries_bytes_Cons_Inr:
  "entries_bytes seen (e # es) = Inr y \<longleftrightarrow>
     se_path e \<notin> set seen \<and> se_path e \<noteq> [] \<and> file_mode (se_mode e) \<and>
     (\<exists>a b. entry_bytes e = Inr a \<and> entries_bytes (se_path e # seen) es = Inr b \<and> y = a @ b)"
  by (auto simp: sequence_eq_Inr)

declare entries_bytes.simps(2) [simp del]

lemma entries_inject:
  "entries_bytes seen es = Inr a \<Longrightarrow> entries_bytes seen' fs = Inr b \<Longrightarrow> length es = length fs \<Longrightarrow> a @ r = b @ s \<Longrightarrow>
     list_all2 (\<lambda>e f. utf8 (se_path e) = utf8 (se_path f) \<and> se_mode e = se_mode f \<and> se_size e = se_size f \<and>
       se_contentHash e = se_contentHash f) es fs \<and> r = s"
proof (induction es arbitrary: fs seen seen' a b)
  case (Cons e es)
  then obtain f fs' where fs: "fs = f # fs'" by (cases fs) auto
  obtain x y where xy: "entry_bytes e = Inr x" "entries_bytes (se_path e # seen) es = Inr y" "a = x @ y"
    using Cons.prems(1) by (auto simp: entries_bytes_Cons_Inr)
  obtain x' y' where xy': "entry_bytes f = Inr x'" "entries_bytes (se_path f # seen') fs' = Inr y'" "b = x' @ y'"
    using Cons.prems(2) by (auto simp: fs entries_bytes_Cons_Inr)
  have "utf8 (se_path e) = utf8 (se_path f) \<and> se_mode e = se_mode f \<and> se_size e = se_size f \<and>
      se_contentHash e = se_contentHash f \<and> y @ r = y' @ s"
    using Cons.prems(4) xy xy' by (intro entry_prefix) simp_all
  then show ?case using Cons.IH [OF xy(2) xy'(2)] Cons.prems(3) by (simp add: fs)
qed simp

lemma entries_distinct: "entries_bytes seen es = Inr a \<Longrightarrow> distinct (map se_path es) \<and> set seen \<inter> set (map se_path es) = {}"
  by (induction es arbitrary: seen a) (auto simp: entries_bytes_Cons_Inr, fastforce+)

text \<open>The encoding is canonical: it depends on the set of entries only.\<close>

lemma entries_seen_cong: "set seen = set seen' \<Longrightarrow> entries_bytes seen es = entries_bytes seen' es"
  by (induction es arbitrary: seen seen') (auto simp: entries_bytes.simps(2), metis list.simps(15))

lemma snapshot_bytes_Inr:
  "snapshot_bytes es = Inr y \<longleftrightarrow> (\<exists>n a. u32 (Integer (int (length es))) = Inr n \<and>
     entries_bytes [] (sort_utf16 se_path es) = Inr a \<and> y = MAGIC @ n @ a)"
  by (auto simp: snapshot_bytes_def sequence_eq_Inr)

lemma snapshot_distinct:
  assumes "snapshot_bytes es = Inr y"
  shows "distinct (map se_path es)"
proof -
  have "distinct (map se_path (sort_utf16 se_path es))"
    using assms by (auto simp: snapshot_bytes_Inr dest: entries_distinct)
  then show ?thesis by simp
qed

subsection \<open>Admission\<close>

definition entry_valid :: "snapshot_entry \<Rightarrow> bool" where
  "entry_valid e \<longleftrightarrow> se_path e \<noteq> [] \<and> length (utf8 (se_path e)) < 2 ^ 32 \<and> file_mode (se_mode e) \<and>
     SHA256_HEX (se_contentHash e) \<and> (case se_size e of Integer n \<Rightarrow> 0 \<le> n \<and> n < 2 ^ 53 | NotInteger \<Rightarrow> False)"

lemma ok_fields:
  "ok (u32 v) \<longleftrightarrow> (case v of Integer n \<Rightarrow> 0 \<le> n \<and> n < 2 ^ 32 | NotInteger \<Rightarrow> False)"
  "ok (u64 v) \<longleftrightarrow> (case v of Integer n \<Rightarrow> 0 \<le> n \<and> n < 2 ^ 53 | NotInteger \<Rightarrow> False)"
  "ok (hexBytes s) \<longleftrightarrow> SHA256_HEX s"
  by (cases v; auto simp: ok_iff u32_Inr u64_Inr hexBytes_Inr)+

lemma ok_sequence: "ok (sequence (r # rs)) \<longleftrightarrow> ok r \<and> ok (sequence rs)"
  unfolding ok_iff sequence_eq_Inr by auto

lemma ok_entry_bytes:
  assumes "se_path e \<noteq> []" and "file_mode (se_mode e)"
  shows "ok (entry_bytes e) \<longleftrightarrow> entry_valid e"
proof -
  have "ok (u32 (se_mode e))" using assms(2) by (auto simp: file_mode_def ok_fields)
  then show ?thesis
    using assms by (simp add: entry_bytes_def Let_def ok_sequence entry_valid_def)
      (auto simp: ok_fields)
qed

lemma ok_entries_bytes:
  "ok (entries_bytes seen es) \<longleftrightarrow> distinct (map se_path es) \<and> set seen \<inter> set (map se_path es) = {} \<and>
     (\<forall>e \<in> set es. entry_valid e)"
proof (induction es arbitrary: seen)
  case (Cons e es)
  have "entry_valid e \<longrightarrow> se_path e \<noteq> [] \<and> file_mode (se_mode e)" by (simp add: entry_valid_def)
  then have eq: "ok (entries_bytes seen (e # es)) \<longleftrightarrow>
      se_path e \<notin> set seen \<and> entry_valid e \<and> ok (entries_bytes (se_path e # seen) es)"
    using ok_entry_bytes [of e]
    by (cases "se_path e = []"; cases "file_mode (se_mode e)") (simp_all add: entries_bytes.simps(2) ok_sequence)
  show ?case unfolding eq Cons.IH by auto
qed simp

lemma ok_snapshot_bytes:
  "ok (snapshot_bytes es) \<longleftrightarrow> length es < 2 ^ 32 \<and> distinct (map se_path es) \<and> (\<forall>e \<in> set es. entry_valid e)"
proof -
  have "ok (u32 (Integer (int (length es)))) \<longleftrightarrow> length es < 2 ^ 32"
    unfolding ok_iff u32_Inr by auto
  then show ?thesis by (simp add: snapshot_bytes_def ok_sequence ok_entries_bytes)
qed

subsection \<open>The encoding determines the set of entries\<close>

lemma snapshot_bytes_same_set:
  assumes "snapshot_bytes xs = Inr a" and "snapshot_bytes ys = Inr b" and "set xs = set ys"
  shows "a = b"
proof -
  have d: "distinct (map se_path xs)" "distinct (map se_path ys)" using assms snapshot_distinct by auto
  then have "distinct xs" "distinct ys" "inj_on se_path (set xs)" by (auto simp: distinct_map)
  then have m: "mset xs = mset ys" using assms(3) by (metis set_eq_iff_mset_eq_distinct)
  then have "sort_utf16 se_path xs = sort_utf16 se_path ys"
    using \<open>inj_on se_path (set xs)\<close> by (intro sort_utf16_unique)
  moreover have "length xs = length ys" using m by (metis size_mset)
  ultimately show ?thesis using assms(1,2) by (simp add: snapshot_bytes_def)
qed

lemma snapshot_bytes_inject:
  assumes "snapshot_bytes xs = Inr a" and "snapshot_bytes ys = Inr a"
    and "\<forall>e \<in> set xs \<union> set ys. well_formed (se_path e)"
  shows "set xs = set ys"
proof -
  obtain n v where v: "u32 (Integer (int (length xs))) = Inr n" "entries_bytes [] (sort_utf16 se_path xs) = Inr v"
      "a = MAGIC @ n @ v"
    using assms(1) by (auto simp: snapshot_bytes_Inr)
  obtain n' w where w: "u32 (Integer (int (length ys))) = Inr n'" "entries_bytes [] (sort_utf16 se_path ys) = Inr w"
      "a = MAGIC @ n' @ w"
    using assms(2) by (auto simp: snapshot_bytes_Inr)
  have nv: "n = n' \<and> v = w" using v(3) w(3) u32_length [OF v(1)] u32_length [OF w(1)] by simp
  then have "length xs = length ys" using u32_inject [OF v(1), of "Integer (int (length ys))"] w(1) by simp
  then have "length (sort_utf16 se_path xs) = length (sort_utf16 se_path ys)" by (simp add: sort_utf16_def)
  then have "list_all2 (\<lambda>e f. utf8 (se_path e) = utf8 (se_path f) \<and> se_mode e = se_mode f \<and> se_size e = se_size f \<and>
      se_contentHash e = se_contentHash f) (sort_utf16 se_path xs) (sort_utf16 se_path ys)"
    using entries_inject [OF v(2) w(2), of "[]" "[]"] nv by simp
  moreover have "\<forall>e \<in> set (sort_utf16 se_path xs). well_formed (se_path e)"
    "\<forall>e \<in> set (sort_utf16 se_path ys). well_formed (se_path e)"
    using assms(3) by (simp_all add: sort_utf16_def)
  ultimately have "sort_utf16 se_path xs = sort_utf16 se_path ys"
    by (induction rule: list_all2_induct) (auto simp: utf8_inject)
  then show ?thesis by (metis set_sort_utf16)
qed

lemma hash_is_hex: "SHA256_HEX (sha256Hex data)"
proof -
  have digit: "lower_hex (digit_char d)" if "d < 16" for d
    using that by (simp add: lower_hex_def word_le_nat_alt unat_digit_char)
  have word: "length (hex_text 8 (unat w)) = 8 \<and> list_all lower_hex (hex_text 8 (unat w))" for w :: "32 word"
  proof -
    have "unat w < 16 ^ 8" using unsigned_less [where ?'a = nat, of w] by simp
    then have "hex_text 8 (unat w) = map digit_char (fixed_digits 8 (unat w))" by (simp add: hex_text_fixed)
    moreover have "list_all lower_hex (map digit_char (fixed_digits 8 (unat w)))"
      using fixed_digits_basics(2) [of 8 "unat w"] digit unfolding list_all_iff set_map by blast
    ultimately show ?thesis by simp
  qed
  have "length (SHA256 data) = 8" unfolding SHA256_def by (simp add: length_list8)
  then obtain a b c d e f g h where "SHA256 data = [a, b, c, d, e, f, g, h]"
    by (auto simp: numeral_eq_Suc length_Suc_conv)
  then show ?thesis by (simp add: SHA256_HEX_def sha256Hex_words word)
qed

section \<open>Properties\<close>

text \<open>
  C37. The snapshot digest addresses exactly the set of entries. It is refused if and only if an
  entry is invalid, two have one path, or there are too many; otherwise it is the prefix and the
  SHA-256 of an encoding that two snapshots share exactly when they have the same entries,
  whatever their order, as long as paths have no lone surrogates. So two different snapshots
  with one digest are a collision of SHA-256. A digest has the form that the check accepts.
\<close>

theorem snapshot_digest_addresses_entries:
  assumes "snapshot_bytes xs = Inr a" and "snapshot_bytes ys = Inr b"
    and "\<forall>e \<in> set xs \<union> set ys. well_formed (se_path e)"
  shows "(a = b \<longleftrightarrow> set xs = set ys) \<and>
    canonicalSnapshotDigest xs = Inr (CANONICAL_SNAPSHOT_DIGEST_PREFIX @ sha256Hex a) \<and>
    isCanonicalSnapshotDigest (CANONICAL_SNAPSHOT_DIGEST_PREFIX @ sha256Hex a) \<and>
    (ok (canonicalSnapshotDigest zs) \<longleftrightarrow>
       length zs < 2 ^ 32 \<and> distinct (map se_path zs) \<and> (\<forall>e \<in> set zs. entry_valid e))"
proof -
  have "a = b \<longleftrightarrow> set xs = set ys"
    using snapshot_bytes_same_set [OF assms(1,2)] snapshot_bytes_inject [OF assms(1) _ assms(3)] assms(2) by blast
  moreover have "ok (canonicalSnapshotDigest zs) \<longleftrightarrow> ok (snapshot_bytes zs)"
    by (cases "snapshot_bytes zs") (simp_all add: canonicalSnapshotDigest_def)
  ultimately show ?thesis
    using assms(1) hash_is_hex [of a] ok_snapshot_bytes [of zs]
    by (simp add: canonicalSnapshotDigest_def isCanonicalSnapshotDigest_def startsWith_def)
qed

definition sample_entry :: snapshot_entry where
  "sample_entry = \<lparr>se_path = ascii ''a'', se_mode = Integer 33188, se_size = Integer 3,
     se_contentHash = replicate 64 97\<rparr>"

theorem snapshot_digest_addresses_entries_witness:
  "\<exists>a b. snapshot_bytes [sample_entry] = Inr a \<and> snapshot_bytes [] = Inr b \<and> a \<noteq> b"
proof -
  have "SHA256_HEX (replicate 64 97)" by (simp add: SHA256_HEX_def lower_hex_def list_all_iff)
  then have "ok (snapshot_bytes [sample_entry])" "ok (snapshot_bytes [])"
    by (simp_all add: ok_snapshot_bytes entry_valid_def sample_entry_def file_mode_def utf8_def utf8_scalar_def ascii_def
        high_surrogate_def low_surrogate_def)
  then obtain a b where "snapshot_bytes [sample_entry] = Inr a" "snapshot_bytes [] = Inr b" by (auto simp: ok_iff)
  moreover have "\<forall>e \<in> set [sample_entry] \<union> set []. well_formed (se_path e)"
    by (simp add: sample_entry_def ascii_def high_surrogate_def low_surrogate_def)
  ultimately show ?thesis using snapshot_digest_addresses_entries [of "[sample_entry]" a "[]" b] by auto
qed

text \<open>
  Paths with lone surrogates collide. \<open>TextEncoder\<close> replaces every lone surrogate by
  \<open>U+FFFD\<close> and no check refuses one, so snapshots that name different paths are accepted and have
  the same digest.
\<close>

theorem lone_surrogates_collide:
  "[0xD800] \<noteq> ([0xFFFD] :: ustring) \<and>
   canonicalSnapshotDigest [sample_entry\<lparr>se_path := [0xD800]\<rparr>] = canonicalSnapshotDigest [sample_entry\<lparr>se_path := [0xFFFD]\<rparr>] \<and>
   ok (canonicalSnapshotDigest [sample_entry\<lparr>se_path := [0xD800]\<rparr>])"
proof -
  have same: "utf8 [0xD800] = utf8 [0xFFFD]"
    by (simp add: utf8_def high_surrogate_def low_surrogate_def)
  have "snapshot_bytes [sample_entry\<lparr>se_path := [0xD800]\<rparr>] = snapshot_bytes [sample_entry\<lparr>se_path := [0xFFFD]\<rparr>]"
    by (simp add: snapshot_bytes_def sort_utf16_def entries_bytes.simps(2) entry_bytes_def same sample_entry_def)
  moreover have "SHA256_HEX (replicate 64 97)" by (simp add: SHA256_HEX_def lower_hex_def list_all_iff)
  then have "ok (snapshot_bytes [sample_entry\<lparr>se_path := [0xD800]\<rparr>])"
    by (simp add: ok_snapshot_bytes entry_valid_def sample_entry_def file_mode_def utf8_def utf8_scalar_def
        high_surrogate_def low_surrogate_def)
  ultimately show ?thesis
    by (auto simp: canonicalSnapshotDigest_def ok_iff)
qed

end
