(* ===== verification/CanonicalJson.thy ===== *)
theory CanonicalJson
  imports Utf16
begin

text \<open>
  Canonical JSON (\<^verbatim>\<open>packages/content-addressing/src/canonical-json.ts\<close>), the text under every
  content hash. The language's part is modelled as far as it matters here: the order of an
  object's own keys (array indices first), the \<open>__proto__\<close> setter that an assignment to that key
  reaches, and \<open>JSON.stringify\<close>. The type of numbers is a parameter, with their text.
\<close>

subsection \<open>Values\<close>

text \<open>The fields of an object are its own properties in the order they were created.\<close>

datatype 'n json =
    JUndefined
  | JNull
  | JBool bool
  | JNumber 'n
  | JString ustring
  | JArray "'n json list"
  | JObject "(ustring \<times> 'n json) list"

text \<open>\<open>Object.keys\<close> order: array indices below \<open>2 ^ 32 - 1\<close> ascending, then the other keys.\<close>

definition decimal_value :: "ustring \<Rightarrow> nat" where
  "decimal_value s = foldl (\<lambda>n u. n * 10 + (unat u - 48)) 0 s"

definition array_index :: "ustring \<Rightarrow> bool" where
  "array_index s \<longleftrightarrow>
     s \<noteq> [] \<and> (\<forall>u \<in> set s. 48 \<le> u \<and> u \<le> 57) \<and> (hd s \<noteq> 48 \<or> length s = 1) \<and> decimal_value s < 2 ^ 32 - 1"

definition own_order :: "(ustring \<times> 'v) list \<Rightarrow> (ustring \<times> 'v) list" where
  "own_order fs =
     sort_key (\<lambda>f. decimal_value (fst f)) (filter (\<lambda>f. array_index (fst f)) fs) @
     filter (\<lambda>f. \<not> array_index (fst f)) fs"

definition proto_key :: ustring where
  "proto_key = ascii ''__proto__''"

text \<open>\<open>sorted[key] = value\<close>: the key \<open>__proto__\<close> reaches the setter of \<open>Object.prototype\<close>.\<close>

definition assign :: "(ustring \<times> 'v) list \<Rightarrow> ustring \<times> 'v \<Rightarrow> (ustring \<times> 'v) list" where
  "assign obj kv = (if fst kv = proto_key then obj else jset (fst kv) (snd kv) obj)"

primrec sortForCanonicalJson :: "'n json \<Rightarrow> 'n json" where
  "sortForCanonicalJson JUndefined = JUndefined"
| "sortForCanonicalJson JNull = JNull"
| "sortForCanonicalJson (JBool b) = JBool b"
| "sortForCanonicalJson (JNumber n) = JNumber n"
| "sortForCanonicalJson (JString s) = JString s"
| "sortForCanonicalJson (JArray vs) = JArray (map sortForCanonicalJson vs)"
| "sortForCanonicalJson (JObject fs) =
     JObject (foldl assign [] (filter (\<lambda>kv. snd kv \<noteq> JUndefined)
       (sort_utf16 fst (own_order (map (map_prod (\<lambda>k. k) sortForCanonicalJson) fs)))))"

subsection \<open>\<open>JSON.stringify\<close>\<close>

definition quote_char :: code_unit where "quote_char = 34"
definition backslash :: code_unit where "backslash = 92"
definition comma :: code_unit where "comma = 44"

text \<open>A code unit of a quoted string, as itself or escaped.\<close>

datatype token = Raw code_unit | Escaped code_unit

definition short_escapes :: "(code_unit \<times> code_unit) list" where
  "short_escapes = [(8, 98), (9, 116), (10, 110), (12, 102), (13, 114), (34, 34), (92, 92)]"

fun token_text :: "token \<Rightarrow> ustring" where
  "token_text (Raw u) = [u]"
| "token_text (Escaped u) =
     (case map_of short_escapes u of
        Some c \<Rightarrow> [backslash, c]
      | None \<Rightarrow> backslash # 117 # hex_text 4 (unat u))"

definition token_of :: "code_unit \<Rightarrow> token" where
  "token_of u = (if u < 32 \<or> u = quote_char \<or> u = backslash \<or> high_surrogate u \<or> low_surrogate u
     then Escaped u else Raw u)"

fun quote_tokens :: "ustring \<Rightarrow> token list" where
  "quote_tokens [] = []"
| "quote_tokens [u] = [token_of u]"
| "quote_tokens (u # v # us) =
     (if high_surrogate u \<and> low_surrogate v then Raw u # Raw v # quote_tokens us
      else token_of u # quote_tokens (v # us))"

definition quote :: "ustring \<Rightarrow> ustring" where
  "quote s = quote_char # concat (map token_text (quote_tokens s)) @ [quote_char]"

fun join :: "ustring list \<Rightarrow> ustring" where
  "join [] = []"
| "join [t] = t"
| "join (t # ts) = t @ comma # join ts"

text \<open>\<open>None\<close>: the value is not represented.\<close>

definition field_text :: "ustring \<times> ustring option \<Rightarrow> ustring list" where
  "field_text f = (case snd f of None \<Rightarrow> [] | Some t \<Rightarrow> [quote (fst f) @ 58 # t])"

primrec stringify :: "('n \<Rightarrow> ustring) \<Rightarrow> 'n json \<Rightarrow> ustring option" where
  "stringify N JUndefined = None"
| "stringify N JNull = Some (ascii ''null'')"
| "stringify N (JBool b) = Some (ascii (if b then ''true'' else ''false''))"
| "stringify N (JNumber n) = Some (N n)"
| "stringify N (JString s) = Some (quote s)"
| "stringify N (JArray vs) =
     Some (91 # join (map (\<lambda>t. case t of None \<Rightarrow> ascii ''null'' | Some t \<Rightarrow> t) (map (stringify N) vs)) @ [93])"
| "stringify N (JObject fs) =
     Some (123 # join (concat (map field_text (own_order (map (map_prod (\<lambda>k. k) (stringify N)) fs)))) @ [125])"

definition canonicalJson :: "('n \<Rightarrow> ustring) \<Rightarrow> 'n json \<Rightarrow> ustring option" where
  "canonicalJson N v = stringify N (sortForCanonicalJson v)"

text \<open>The text of an integer of at most 21 digits.\<close>

definition decimal :: "int \<Rightarrow> ustring" where
  "decimal n = (if n < 0 then 45 # map digit_char (number_digits 10 (nat (- n)))
     else map digit_char (number_digits 10 (nat n)))"

subsection \<open>Clean values\<close>

text \<open>No duplicate keys, no undefined value, no \<open>__proto__\<close> key: what \<open>JSON.parse\<close> gives, the
  key apart.\<close>

primrec clean :: "'n json \<Rightarrow> bool" where
  "clean JUndefined \<longleftrightarrow> False"
| "clean JNull \<longleftrightarrow> True"
| "clean (JBool b) \<longleftrightarrow> True"
| "clean (JNumber n) \<longleftrightarrow> True"
| "clean (JString s) \<longleftrightarrow> True"
| "clean (JArray vs) \<longleftrightarrow> list_all id (map clean vs)"
| "clean (JObject fs) \<longleftrightarrow> distinct (map fst fs) \<and> proto_key \<notin> set (map fst fs) \<and>
     list_all snd (map (map_prod (\<lambda>k. k) clean) fs)"

lemma clean_simps [simp]:
  "clean (JArray vs) \<longleftrightarrow> (\<forall>v \<in> set vs. clean v)"
  "clean (JObject fs) \<longleftrightarrow> distinct (map fst fs) \<and> proto_key \<notin> set (map fst fs) \<and> (\<forall>f \<in> set fs. clean (snd f))"
  by (auto simp: list_all_iff)

declare clean.simps(6,7) [simp del]

text \<open>Equal up to the order of the fields: objects as maps.\<close>

inductive same_json :: "'n json \<Rightarrow> 'n json \<Rightarrow> bool" where
  same_leaf: "same_json v v"
| same_array: "list_all2 same_json vs ws \<Longrightarrow> same_json (JArray vs) (JArray ws)"
| same_object: "(\<forall>k. rel_option same_json (map_of fs k) (map_of gs k)) \<Longrightarrow> same_json (JObject fs) (JObject gs)"
  monos list.rel_mono option.rel_mono

subsection \<open>Fields\<close>

lemma comp_key [simp]: "(\<lambda>k. k) \<circ> fst = fst"
  by (simp add: fun_eq_iff)

lemma mset_own_order [simp]: "mset (own_order fs) = mset fs"
  using multiset_partition [of "mset fs" "\<lambda>f. array_index (fst f)"] by (simp add: own_order_def mset_filter)

lemma set_own_order [simp]: "set (own_order fs) = set fs"
  using mset_own_order [of fs] by (metis set_mset_mset)

lemma map_of_mset: "mset xs = mset ys \<Longrightarrow> distinct (map fst xs) \<Longrightarrow> map_of xs = map_of ys"
  using distinct_map_mset [of xs ys] map_of_inject_set [of xs ys] mset_eq_setD [of xs ys] by blast

lemma own_order_map: "own_order (map (map_prod (\<lambda>k. k) f) fs) = map (map_prod (\<lambda>k. k) f) (own_order fs)"
proof -
  have s: "sort_key (\<lambda>x. g (fst x)) (map (map_prod (\<lambda>k. k) f) xs) = map (map_prod (\<lambda>k. k) f) (sort_key (\<lambda>x. g (fst x)) xs)"
    for g :: "ustring \<Rightarrow> nat" and xs
  proof (induction xs)
    case (Cons x xs)
    have "insort_key (\<lambda>x. g (fst x)) (map_prod (\<lambda>k. k) f x) (map (map_prod (\<lambda>k. k) f) ys) =
        map (map_prod (\<lambda>k. k) f) (insort_key (\<lambda>x. g (fst x)) x ys)" for ys
      by (induction ys) auto
    then show ?case using Cons by simp
  qed simp
  have "filter (\<lambda>x. P (fst x)) (map (map_prod (\<lambda>k. k) f) xs) = map (map_prod (\<lambda>k. k) f) (filter (\<lambda>x. P (fst x)) xs)" for P xs
    by (induction xs) auto
  note filters = this [of array_index] this [of "\<lambda>k. \<not> array_index k"]
  show ?thesis unfolding own_order_def filters map_append s ..
qed

lemma foldl_assign:
  "distinct (map fst (acc @ xs)) \<Longrightarrow> proto_key \<notin> set (map fst xs) \<Longrightarrow> foldl assign acc xs = acc @ xs"
proof (induction xs arbitrary: acc)
  case (Cons x xs)
  have "assign acc x = acc @ [x]"
    using Cons.prems by (auto simp: assign_def jset_fresh)
  then show ?case
    using Cons.IH [of "acc @ [x]"] Cons.prems by simp
qed simp

lemma sorted_not_undefined [simp]: "sortForCanonicalJson v = JUndefined \<longleftrightarrow> v = JUndefined"
  by (cases v) simp_all

lemma clean_not_undefined: "clean v \<Longrightarrow> v \<noteq> JUndefined"
  by auto

text \<open>On clean objects the code sorts the fields, and nothing else.\<close>

lemma sort_clean_object:
  assumes "clean (JObject fs)"
  shows "sortForCanonicalJson (JObject fs) = JObject (sort_utf16 fst (map (map_prod (\<lambda>k. k) sortForCanonicalJson) fs))"
proof -
  let ?ms = "map (map_prod (\<lambda>k. k) sortForCanonicalJson) fs"
  let ?ss = "sort_utf16 fst (own_order ?ms)"
  have keys: "map fst ?ms = map fst fs" by simp
  have d: "distinct (map fst ?ms)" using assms unfolding keys by simp
  have eq: "mset ?ss = mset ?ms"
    by (simp only: sort_utf16_perm mset_own_order)
  have set: "set ?ss = set ?ms" using eq by (metis set_mset_mset)
  have "inj_on fst (set ?ms)" using d unfolding distinct_map by simp
  then have "inj_on fst (set (own_order ?ms))" by (simp only: set_own_order)
  then have order: "?ss = sort_utf16 fst ?ms"
    by (rule sort_utf16_unique) (simp only: mset_own_order)
  have "\<forall>kv \<in> set ?ss. snd kv \<noteq> JUndefined"
    unfolding set using assms by (auto dest: clean_not_undefined)
  then have "filter (\<lambda>kv. snd kv \<noteq> JUndefined) ?ss = ?ss" by (simp add: filter_id_conv)
  moreover have "foldl assign [] ?ss = ?ss"
  proof -
    have "distinct (map fst ?ss)" using distinct_map_mset [OF eq, of fst] d by simp
    moreover have "set (map fst ?ss) = set (map fst ?ms)" by (simp only: set_map set)
    then have "proto_key \<notin> set (map fst ?ss)" using assms keys by simp
    ultimately show ?thesis using foldl_assign [of "[]" ?ss] by simp
  qed
  ultimately show ?thesis using order by simp
qed

lemma sort_utf16_map: "sort_utf16 fst (map (map_prod (\<lambda>k. k) f) fs) = map (map_prod (\<lambda>k. k) f) (sort_utf16 fst fs)"
proof (induction fs)
  case (Cons x fs)
  have "insort_key fst (map_prod (\<lambda>k. k) f x) (map (map_prod (\<lambda>k. k) f) ys) =
      map (map_prod (\<lambda>k. k) f) (insort_key fst x ys)" for ys
    by (induction ys) auto
  then show ?case using Cons by (simp add: sort_utf16_def)
qed (simp add: sort_utf16_def)

text \<open>The fields of the text, in order.\<close>

definition field_order :: "(ustring \<times> 'v) list \<Rightarrow> (ustring \<times> 'v) list" where
  "field_order fs = own_order (sort_utf16 fst fs)"

lemma mset_field_order [simp]: "mset (field_order fs) = mset fs"
  by (simp add: field_order_def sort_utf16_perm)

lemma set_field_order [simp]: "set (field_order fs) = set fs"
  by (simp add: field_order_def)

lemma map_of_field_order: "distinct (map fst fs) \<Longrightarrow> map_of (field_order fs) = map_of fs"
  using map_of_mset [of fs "field_order fs"] by simp

subsection \<open>The text of clean values\<close>

definition text_of :: "('n \<Rightarrow> ustring) \<Rightarrow> 'n json \<Rightarrow> ustring" where
  "text_of N v = (case canonicalJson N v of None \<Rightarrow> [] | Some t \<Rightarrow> t)"

lemma canonical_text: "clean v \<Longrightarrow> canonicalJson N v = Some (text_of N v)"
  by (cases v) (simp_all add: text_of_def canonicalJson_def)

lemma text_of_leaves [simp]:
  "text_of N JNull = ascii ''null''"
  "text_of N (JBool b) = ascii (if b then ''true'' else ''false'')"
  "text_of N (JNumber n) = N n"
  "text_of N (JString s) = quote s"
  by (simp_all add: text_of_def canonicalJson_def)

lemma text_of_array:
  assumes "clean (JArray vs)"
  shows "text_of N (JArray vs) = 91 # join (map (text_of N) vs) @ [93]"
proof -
  have "map (\<lambda>t. case t of None \<Rightarrow> ascii ''null'' | Some t \<Rightarrow> t) (map (stringify N) (map sortForCanonicalJson vs)) =
      map (text_of N) vs"
    using assms canonical_text [of _ N] by (auto simp: canonicalJson_def)
  then show ?thesis by (simp add: text_of_def [of N "JArray vs"] canonicalJson_def del: map_map)
qed

definition field_of :: "('n \<Rightarrow> ustring) \<Rightarrow> ustring \<times> 'n json \<Rightarrow> ustring" where
  "field_of N f = quote (fst f) @ 58 # text_of N (snd f)"

lemma text_of_object:
  assumes "clean (JObject fs)"
  shows "text_of N (JObject fs) = 123 # join (map (field_of N) (field_order fs)) @ [125]"
proof -
  let ?f = "\<lambda>v. stringify N (sortForCanonicalJson v)"
  have fields: "concat (map field_text (map (map_prod (\<lambda>k. k) ?f) gs)) = map (field_of N) gs"
    if "\<forall>f \<in> set gs. clean (snd f)" for gs
    using that
  proof (induction gs)
    case (Cons g gs)
    then show ?case
      using canonical_text [of "snd g" N]
      by (cases g) (simp add: field_text_def field_of_def canonicalJson_def)
  qed simp
  have "own_order (map (map_prod (\<lambda>k. k) (stringify N))
      (sort_utf16 fst (map (map_prod (\<lambda>k. k) sortForCanonicalJson) fs))) =
      map (map_prod (\<lambda>k. k) ?f) (field_order fs)"
    by (simp add: sort_utf16_map own_order_map field_order_def comp_def prod.map_comp)
  moreover have "concat (map field_text (map (map_prod (\<lambda>k. k) ?f) (field_order fs))) = map (field_of N) (field_order fs)"
    using assms by (intro fields) simp
  ultimately show ?thesis
    by (simp add: text_of_def canonicalJson_def sort_clean_object [OF assms]
        del: map_map sortForCanonicalJson.simps)
qed

text \<open>Values equal up to the order of fields have the same sorted form.\<close>

lemma map_of_values: "map_of (map (map_prod (\<lambda>k. k) f) fs) = map_option f \<circ> map_of fs"
  by (induction fs) (auto simp: fun_eq_iff)

lemma same_json_sorted:
  "same_json v w \<Longrightarrow> clean v \<Longrightarrow> clean w \<Longrightarrow> sortForCanonicalJson v = sortForCanonicalJson w"
proof (induction rule: same_json.induct)
  case (same_array vs ws)
  then show ?case by (auto simp: list_all2_conv_all_nth intro!: nth_equalityI)
next
  case (same_object fs gs)
  let ?f = "map (map_prod (\<lambda>k. k) sortForCanonicalJson) :: (ustring \<times> 'a json) list \<Rightarrow> _"
  have d: "distinct (map fst (?f fs))" "distinct (map fst (?f gs))" using same_object.prems by simp_all
  have "map_option sortForCanonicalJson (map_of fs k) = map_option sortForCanonicalJson (map_of gs k)" for k
  proof -
    have "rel_option (\<lambda>x y. same_json x y \<and> (clean x \<longrightarrow> clean y \<longrightarrow> sortForCanonicalJson x = sortForCanonicalJson y))
        (map_of fs k) (map_of gs k)"
      using same_object.IH by blast
    then show ?thesis
      using same_object.prems
      by (cases "map_of fs k"; cases "map_of gs k") (auto dest: map_of_SomeD)
  qed
  then have maps: "map_of (?f fs) = map_of (?f gs)"
    by (simp add: map_of_values fun_eq_iff)
  have "set (?f fs) = set (?f gs)" using map_of_inject_set [OF d] maps by (rule iffD1)
  moreover have "distinct (?f fs)" using d(1) unfolding distinct_map [of fst] by (rule conjunct1)
  moreover have "distinct (?f gs)" using d(2) unfolding distinct_map [of fst] by (rule conjunct1)
  ultimately have "mset (?f fs) = mset (?f gs)" by (rule iffD1 [OF set_eq_iff_mset_eq_distinct, rotated 2])
  moreover have "inj_on fst (set (?f fs))" using d(1) unfolding distinct_map by simp
  ultimately have "sort_utf16 fst (?f fs) = sort_utf16 fst (?f gs)"
    by (intro sort_utf16_unique)
  then show ?case using same_object.prems by (simp only: sort_clean_object)
qed simp

subsection \<open>Quoted strings are a prefix code\<close>

definition legit :: "token \<Rightarrow> bool" where
  "legit t = (case t of Raw u \<Rightarrow> u \<noteq> quote_char \<and> u \<noteq> backslash | Escaped u \<Rightarrow> True)"

lemma legit_simps [simp]: "legit (Raw u) \<longleftrightarrow> u \<noteq> quote_char \<and> u \<noteq> backslash" "legit (Escaped u)"
  by (simp_all add: legit_def)

fun unit_of :: "token \<Rightarrow> code_unit" where
  "unit_of (Raw u) = u"
| "unit_of (Escaped u) = u"

lemma unit_of_token [simp]: "unit_of (token_of u) = u"
  by (simp add: token_of_def)

lemma units_of_tokens: "map unit_of (quote_tokens s) = s"
  by (induction s rule: quote_tokens.induct) simp_all

lemma not_surrogate: "u = quote_char \<or> u = backslash \<Longrightarrow> \<not> high_surrogate u \<and> \<not> low_surrogate u"
  by (auto simp: quote_char_def backslash_def high_surrogate_def low_surrogate_def)

lemma legit_token_of: "legit (token_of u)"
  by (simp add: token_of_def legit_def)

lemma legit_tokens: "t \<in> set (quote_tokens s) \<Longrightarrow> legit t"
proof (induction s rule: quote_tokens.induct)
  case (3 u v us)
  then show ?case
    using not_surrogate [of u] not_surrogate [of v]
    by (auto simp: legit_token_of split: if_splits)
qed (auto simp: legit_token_of)

lemma token_head: "legit t \<Longrightarrow> \<exists>u r. token_text t = u # r \<and> u \<noteq> quote_char"
  by (cases t) (auto simp: legit_def quote_char_def backslash_def split: option.splits)

lemma short_escapes_inject:
  "map_of short_escapes u = Some c \<Longrightarrow> map_of short_escapes v = Some c \<Longrightarrow> u = v"
  "map_of short_escapes u = Some c \<Longrightarrow> c \<noteq> 117"
  by (auto simp: short_escapes_def split: if_splits)

lemma hex4_inject:
  "hex_text 4 (unat u) @ r = hex_text 4 (unat v) @ s \<longleftrightarrow> u = v \<and> r = s" for u v :: code_unit
proof -
  have "unat u < 16 ^ 4" "unat v < 16 ^ 4" using unit_bound [of u] unit_bound [of v] by simp_all
  then show ?thesis by (simp add: hex_text_inject word_unat_eq_iff)
qed

lemma token_prefix:
  assumes "legit t" and "legit t'" and "token_text t @ r = token_text t' @ s"
  shows "t = t' \<and> r = s"
  using assms
  by (cases t; cases t')
    (auto simp: legit_def hex4_inject dest: short_escapes_inject split: option.splits)

lemma tokens_prefix:
  "\<forall>t \<in> set ts. legit t \<Longrightarrow> \<forall>t \<in> set ts'. legit t \<Longrightarrow>
     concat (map token_text ts) @ quote_char # r = concat (map token_text ts') @ quote_char # s \<Longrightarrow>
     ts = ts' \<and> r = s"
proof (induction ts arbitrary: ts')
  case Nil
  then show ?case using token_head by (cases ts') (fastforce, fastforce)
next
  case (Cons t ts)
  then obtain t' ts'' where ts': "ts' = t' # ts''"
    using token_head [of t] by (cases ts') (fastforce, fastforce)
  have "t = t' \<and> concat (map token_text ts) @ quote_char # r = concat (map token_text ts'') @ quote_char # s"
    using Cons.prems ts' by (intro token_prefix) simp_all
  then show ?case using Cons.IH [of ts''] Cons.prems ts' by simp
qed

lemma quote_prefix: "quote s @ r = quote t @ r' \<longleftrightarrow> s = t \<and> r = r'"
proof
  assume "quote s @ r = quote t @ r'"
  then have "quote_tokens s = quote_tokens t \<and> r = r'"
    by (intro tokens_prefix) (auto simp: quote_def legit_tokens)
  then show "s = t \<and> r = r'" by (metis units_of_tokens)
qed simp

subsection \<open>Joined texts\<close>

text \<open>Where a value's text ends: at the end of the input or before a comma or a closing bracket.\<close>

definition stopped :: "ustring \<Rightarrow> bool" where
  "stopped r \<longleftrightarrow> r = [] \<or> hd r \<in> {44, 93, 125}"

lemma stopped_simps [simp]: "stopped []" "stopped (comma # r)" "stopped (93 # r)" "stopped (125 # r)"
  by (simp_all add: stopped_def comma_def)

lemma join_Cons: "join (x # xs) = x @ (if xs = [] then [] else comma # join xs)"
  by (cases xs) simp_all

text \<open>A joined list is read back if its elements are.\<close>

lemma join_inject:
  assumes "\<And>x y r s. x \<in> set xs \<Longrightarrow> P y \<Longrightarrow> stopped r \<Longrightarrow> stopped s \<Longrightarrow> f x @ r = f y @ s \<Longrightarrow> R x y \<and> r = s"
    and "\<And>x. x \<in> set xs \<Longrightarrow> f x \<noteq> [] \<and> hd (f x) \<noteq> c" and "\<And>y. P y \<Longrightarrow> f y \<noteq> [] \<and> hd (f y) \<noteq> c"
    and "\<forall>y \<in> set ys. P y" and "c \<in> {93, 125}"
    and "join (map f xs) @ c # r = join (map f ys) @ c # s"
  shows "list_all2 R xs ys \<and> r = s"
  using assms
proof (induction xs arbitrary: ys)
  case Nil
  show ?case
  proof (cases ys)
    case (Cons y ys')
    then have "f y \<noteq> []" "hd (f y) \<noteq> c" using Nil.prems(3,4) by auto
    then show ?thesis using Nil.prems(6) Cons by (cases "f y") (simp_all add: join_Cons)
  qed (use Nil.prems in simp)
next
  case (Cons x xs)
  have "ys \<noteq> []"
    using Cons.prems(2) [of x] Cons.prems(6) by (cases "f x") (auto simp: join_Cons)
  then obtain y ys' where ys: "ys = y # ys'" by (cases ys) simp_all
  let ?t = "\<lambda>zs r. (if zs = [] then [] else comma # join (map f zs)) @ c # r"
  have "f x @ ?t xs r = f y @ ?t ys' s" using Cons.prems(6) by (simp add: ys join_Cons)
  moreover have "stopped (?t xs r)" "stopped (?t ys' s)" using Cons.prems(5) by auto
  ultimately have xy: "R x y" "?t xs r = ?t ys' s" using Cons.prems(1) [of x y] Cons.prems(4) ys by auto
  have "c \<noteq> comma" using Cons.prems(5) by (auto simp: comma_def)
  then have "xs = [] \<longleftrightarrow> ys' = []" using xy(2) by (auto split: if_splits)
  then have "join (map f xs) @ c # r = join (map f ys') @ c # s" using xy(2) by (cases "xs = []") auto
  then have "list_all2 R xs ys' \<and> r = s"
    using Cons.prems by (intro Cons.IH) (auto simp: ys)
  then show ?case using xy(1) ys by simp
qed

subsection \<open>Texts of values\<close>

definition number_chars :: "code_unit set" where
  "number_chars = {43, 45, 46, 101} \<union> {48..57}"

definition number_start :: "code_unit set" where
  "number_start = {45} \<union> {48..57}"

text \<open>What the text of a value starts with.\<close>

definition start_of :: "'n json \<Rightarrow> code_unit set" where
  "start_of v = (case v of JUndefined \<Rightarrow> {} | JNull \<Rightarrow> {110} | JBool b \<Rightarrow> {if b then 116 else 102}
     | JNumber n \<Rightarrow> number_start | JString s \<Rightarrow> {34} | JArray vs \<Rightarrow> {91} | JObject fs \<Rightarrow> {123})"

lemma start_of_disjoint:
  "u \<in> start_of v \<Longrightarrow> u \<in> start_of w \<Longrightarrow>
     (v = JNull \<and> w = JNull) \<or> (\<exists>b. v = JBool b \<and> w = JBool b) \<or> (\<exists>m n. v = JNumber m \<and> w = JNumber n) \<or>
     (\<exists>s t. v = JString s \<and> w = JString t) \<or> (\<exists>vs ws. v = JArray vs \<and> w = JArray ws) \<or>
     (\<exists>fs gs. v = JObject fs \<and> w = JObject gs)"
  by (auto simp: start_of_def number_start_def split: json.splits if_splits)

lemma ascii_simps [simp]: "ascii [] = []" "ascii (c # cs) = of_char c # ascii cs"
  by (simp_all add: ascii_def)

lemma same_object_ordered:
  assumes "distinct (map fst fs)" and "distinct (map fst gs)"
    and "list_all2 (\<lambda>f g. fst f = fst g \<and> same_json (snd f) (snd g)) (field_order fs) (field_order gs)"
  shows "same_json (JObject fs) (JObject gs)"
proof -
  have "rel_option same_json (map_of xs k) (map_of ys k)"
    if "list_all2 (\<lambda>f g. fst f = fst g \<and> same_json (snd f) (snd g)) xs ys" for xs ys k
    using that by (induction rule: list_all2_induct) auto
  from this [OF assms(3)] show ?thesis
    using assms(1,2) by (intro same_object) (simp add: map_of_field_order)
qed

locale number_text =
  fixes N :: "'n \<Rightarrow> ustring"
  assumes number_inject: "N m = N n \<Longrightarrow> m = n"
    and number_nonempty: "N n \<noteq> []"
    and number_head: "hd (N n) \<in> number_start"
    and number_set: "set (N n) \<subseteq> number_chars"
begin

lemma text_start:
  assumes "clean v"
  shows "text_of N v \<noteq> [] \<and> hd (text_of N v) \<in> start_of v"
proof (cases v)
  case (JArray vs)
  then show ?thesis using assms by (simp add: text_of_array start_of_def)
next
  case (JObject fs)
  then show ?thesis using assms by (simp only: text_of_object) (simp add: start_of_def)
qed (use assms in \<open>auto simp: start_of_def quote_def quote_char_def number_nonempty number_head\<close>)

lemma text_start_bracket: "clean v \<Longrightarrow> hd (text_of N v) \<notin> {44, 93, 125}"
  using text_start [of v] by (auto simp: start_of_def number_start_def split: json.splits if_splits)

lemma number_prefix:
  assumes "stopped r" and "stopped s" and "N m @ r = N n @ s"
  shows "m = n \<and> r = s"
proof -
  have "takeWhile (\<lambda>u. u \<in> number_chars) (N k @ t) = N k" if "stopped t" for k t
  proof -
    have "takeWhile (\<lambda>u. u \<in> number_chars) t = []"
      using that by (cases t) (auto simp: stopped_def number_chars_def)
    then show ?thesis using number_set [of k] by (subst takeWhile_append2) auto
  qed
  then have "N m = N n" using assms by metis
  then show ?thesis using assms(3) number_inject by simp
qed

lemma same_kind:
  assumes "clean v" and "clean w" and "text_of N v @ r = text_of N w @ s"
  shows "(v = JNull \<and> w = JNull) \<or> (\<exists>b. v = JBool b \<and> w = JBool b) \<or> (\<exists>m n. v = JNumber m \<and> w = JNumber n) \<or>
     (\<exists>s t. v = JString s \<and> w = JString t) \<or> (\<exists>vs ws. v = JArray vs \<and> w = JArray ws) \<or>
     (\<exists>fs gs. v = JObject fs \<and> w = JObject gs)"
proof -
  have "hd (text_of N v) = hd (text_of N w)"
    using assms text_start [of v] text_start [of w] by (metis hd_append2)
  then show ?thesis
    using text_start [OF assms(1)] text_start [OF assms(2)]
    by (intro start_of_disjoint [of "hd (text_of N v)"]) simp_all
qed

lemma text_inject:
  "clean v \<Longrightarrow> clean w \<Longrightarrow> stopped r \<Longrightarrow> stopped s \<Longrightarrow> text_of N v @ r = text_of N w @ s \<Longrightarrow>
     same_json v w \<and> r = s"
proof (induction v arbitrary: w r s)
  case (JArray vs)
  obtain ws where w: "w = JArray ws"
    using same_kind [OF JArray.prems(1,2,5)] by auto
  have join: "join (map (text_of N) vs) @ 93 # r = join (map (text_of N) ws) @ 93 # s"
    using JArray.prems by (simp add: w text_of_array)
  have "list_all2 same_json vs ws \<and> r = s"
    by (rule join_inject [OF _ _ _ _ _ join, where P = clean])
      (use JArray text_start text_start_bracket w in auto)
  then show ?case by (simp add: w same_array)
next
  case (JObject fs)
  obtain gs where w: "w = JObject gs"
    using same_kind [OF JObject.prems(1,2,5)] by auto
  have cw: "clean (JObject gs)" using JObject.prems(2) w by simp
  have join: "join (map (field_of N) (field_order fs)) @ 125 # r = join (map (field_of N) (field_order gs)) @ 125 # s"
    using JObject.prems(5) by (simp add: w text_of_object [OF JObject.prems(1)] text_of_object [OF cw])
  have "list_all2 (\<lambda>f g. fst f = fst g \<and> same_json (snd f) (snd g)) (field_order fs) (field_order gs) \<and> r = s"
  proof (rule join_inject [OF _ _ _ _ _ join, where P = "\<lambda>g. clean (snd g)"])
    fix f g r s
    assume f: "f \<in> set (field_order fs)" and g: "clean (snd g)" and rs: "stopped r" "stopped s"
      and eq: "field_of N f @ r = field_of N g @ s"
    have "fst f = fst g \<and> text_of N (snd f) @ r = text_of N (snd g) @ s"
      using eq by (simp add: field_of_def quote_prefix)
    moreover have "(fst f, snd f) \<in> set fs" "clean (snd f)" using f JObject.prems(1) by simp_all
    ultimately show "(fst f = fst g \<and> same_json (snd f) (snd g)) \<and> r = s"
      using JObject.IH [of "(fst f, snd f)" "snd f" "snd g" r s] g rs by simp
  qed (use cw in \<open>auto simp: field_of_def quote_def quote_char_def\<close>)
  moreover from this have "same_json (JObject fs) (JObject gs)"
    using JObject.prems(1) cw by (intro same_object_ordered) simp_all
  ultimately show ?case by (simp add: w)
next
  case (JNumber m)
  then obtain n where "w = JNumber n" using same_kind [OF JNumber.prems(1,2,5)] by auto
  then show ?case using JNumber.prems number_prefix [of r s m n] by (simp add: same_leaf)
next
  case (JString t)
  then obtain t' where "w = JString t'" using same_kind [OF JString.prems(1,2,5)] by auto
  then show ?case using JString.prems by (simp add: quote_prefix same_leaf)
next
  case (JBool b)
  then have "w = JBool b" using same_kind [OF JBool.prems(1,2,5)] by auto
  then show ?case using JBool.prems by (simp add: same_leaf)
next
  case JNull
  then have "w = JNull" using same_kind [OF JNull.prems(1,2,5)] by auto
  then show ?case using JNull.prems by (simp add: same_leaf)
qed simp

lemma canonical_iff:
  assumes "clean v" and "clean w"
  shows "canonicalJson N v = canonicalJson N w \<longleftrightarrow> same_json v w"
proof
  assume "canonicalJson N v = canonicalJson N w"
  then have "text_of N v @ [] = text_of N w @ []" using assms by (simp add: canonical_text)
  then show "same_json v w" using text_inject [OF assms, of "[]" "[]"] by simp
next
  assume "same_json v w"
  then show "canonicalJson N v = canonicalJson N w"
    using same_json_sorted [of v w] assms by (simp add: canonicalJson_def)
qed

end

subsection \<open>Decimal numbers\<close>

lemma number_digits_value: "foldl (\<lambda>n d. n * 10 + d) 0 (number_digits 10 n) = n"
proof (induction n rule: less_induct)
  case (less n)
  then show ?case by (simp add: number_digits.simps [of 10 n] mult.commute)
qed

lemma number_digits_bound: "d \<in> set (number_digits 10 n) \<Longrightarrow> d < 10"
proof (induction n rule: less_induct)
  case (less n)
  show ?case
  proof (cases "n < 10")
    case False
    then have "d \<in> set (number_digits 10 (n div 10)) \<or> d = n mod 10" "n div 10 < n"
      using less.prems by (auto simp: number_digits.simps [of 10 n])
    then show ?thesis using less.IH [of "n div 10"] by auto
  qed (use less.prems in \<open>simp add: number_digits.simps [of 10 n]\<close>)
qed

lemma number_digits_nonempty: "number_digits 10 n \<noteq> []"
  by (simp add: number_digits.simps)

lemma digit_char_decimal: "d < 10 \<Longrightarrow> digit_char d \<in> {48..57}"
  by (simp add: unat_digit_char word_le_nat_alt)

lemma digit_chars_inject:
  "map digit_char (number_digits 10 m) = map digit_char (number_digits 10 n) \<longleftrightarrow> m = n"
proof
  have inverse: "map (\<lambda>u. unat u - 48) (map digit_char (number_digits 10 k)) = number_digits 10 k" for k
    unfolding map_map by (rule map_idI) (simp add: unat_digit_char number_digits_bound less_trans [OF number_digits_bound])
  assume "map digit_char (number_digits 10 m) = map digit_char (number_digits 10 n)"
  then have "number_digits 10 m = number_digits 10 n" using inverse by metis
  then show "m = n" using number_digits_value by metis
qed simp

lemma decimal_digits: "u \<in> set (map digit_char (number_digits 10 n)) \<Longrightarrow> u \<in> {48..57}"
  using digit_char_decimal number_digits_bound by auto

lemma decimal_inject: "decimal m = decimal n \<longleftrightarrow> m = n"
proof
  have start: "hd (map digit_char (number_digits 10 k)) \<noteq> 45" for k
    using decimal_digits [OF hd_in_set, of k] number_digits_nonempty [of k] by fastforce
  assume eq: "decimal m = decimal n"
  then have "m < 0 \<longleftrightarrow> n < 0"
    using start [of "nat m"] start [of "nat n"] unfolding decimal_def by (metis list.sel(1))
  then show "m = n"
    using eq unfolding decimal_def by (simp add: digit_chars_inject del: map_eq_conv split: if_splits)
qed simp

interpretation decimal: number_text decimal
proof
  show "hd (decimal n) \<in> number_start" for n
    using decimal_digits [OF hd_in_set] number_digits_nonempty by (auto simp: decimal_def number_start_def)
  show "set (decimal n) \<subseteq> number_chars" for n
    using decimal_digits by (auto simp: decimal_def number_chars_def simp del: set_map)
  show "decimal n \<noteq> []" for n by (simp add: decimal_def number_digits_nonempty)
qed (simp add: decimal_inject)

section \<open>Properties\<close>

text \<open>
  C34. Canonical JSON is canonical: two values have the same text exactly when they are equal up
  to the order of their fields. So a content hash neither depends on the order in which a
  producer wrote its fields, nor gives two different values one pre-image. It holds for values
  as \<open>JSON.parse\<close> gives them (no undefined, no duplicate keys) without a \<open>__proto__\<close> key, for any
  text of numbers that is injective and made of the characters of numbers.
\<close>

theorem canonical_json_is_canonical:
  assumes "number_text N" and "clean v" and "clean w"
  shows "canonicalJson N v = canonicalJson N w \<longleftrightarrow> same_json v w"
  by (rule number_text.canonical_iff [OF assms])

theorem canonical_json_is_canonical_witness:
  "canonicalJson decimal (JObject [(ascii ''b'', JNumber 1), (ascii ''a'', JNull)]) =
   canonicalJson decimal (JObject [(ascii ''a'', JNull), (ascii ''b'', JNumber 1)])"
proof -
  let ?v = "JObject [(ascii ''b'', JNumber 1), (ascii ''a'', JNull)] :: int json"
  let ?w = "JObject [(ascii ''a'', JNull), (ascii ''b'', JNumber 1)] :: int json"
  have "clean ?v" "clean ?w" by (simp_all add: proto_key_def)
  moreover have "same_json ?v ?w" by (rule same_object) (simp add: option.rel_refl same_leaf)
  ultimately show ?thesis
    using canonical_json_is_canonical [OF decimal.number_text_axioms, of ?v ?w] by simp
qed

text \<open>
  The key \<open>__proto__\<close> is lost. Whatever value an object has under \<open>__proto__\<close>, as
  \<open>JSON.parse\<close> makes an own property of it, the sorted copy has no such field, because
  the assignment calls the prototype setter: the text is that of the object without the field, so
  objects that differ there have the same canonical text and the same content hash.
\<close>

theorem proto_field_dropped:
  shows "canonicalJson N (JObject [(proto_key, v)]) = Some (ascii ''{}'') \<and>
    canonicalJson N (JObject [(proto_key, v)]) = canonicalJson N (JObject [])"
  by (simp add: canonicalJson_def sort_utf16_def own_order_def assign_def ascii_def)

end
