(* ===== verification/Worktree.thy ===== *)
theory Worktree
  imports CanonicalJson Sha256
begin

text \<open>
  Paths and content addresses of a worktree
  (\<^verbatim>\<open>packages/content-addressing/src/tree-paths.ts\<close>, \<^verbatim>\<open>worktree-hash.ts\<close>): files are put into a
  tree of directories, and every directory is addressed by the hash of the canonical JSON of its
  entries.
\<close>

subsection \<open>Tree paths\<close>

definition MAX_TREE_ENTRY_NAME_UTF8_BYTES :: nat where "MAX_TREE_ENTRY_NAME_UTF8_BYTES = 255"
definition MAX_TREE_PATH_SEGMENTS :: nat where "MAX_TREE_PATH_SEGMENTS = 129"
definition MAX_TREE_PATH_UTF8_BYTES :: nat where "MAX_TREE_PATH_UTF8_BYTES = 4095"

definition slash :: code_unit where "slash = 47"

definition utf8ByteLength :: "ustring \<Rightarrow> nat" where
  "utf8ByteLength value = length (utf8 value)"

definition isValidTreeEntryName :: "ustring \<Rightarrow> bool" where
  "isValidTreeEntryName name \<longleftrightarrow>
     0 < length name \<and> utf8ByteLength name \<le> MAX_TREE_ENTRY_NAME_UTF8_BYTES \<and>
     name \<noteq> ascii ''.'' \<and> name \<noteq> ascii ''..'' \<and> slash \<notin> set name \<and> 92 \<notin> set name \<and> 0 \<notin> set name"

datatype path_error = InvalidEntryName ustring | PathTooLong | TooManySegments | NamesTheRoot

definition assertValidTreeEntryName :: "ustring \<Rightarrow> path_error + unit" where
  "assertValidTreeEntryName name = (if \<not> isValidTreeEntryName name then Inl (InvalidEntryName name) else Inr ())"

text \<open>\<open>path.split("/")\<close>: one segment more than there are slashes.\<close>

fun split_slash :: "ustring \<Rightarrow> ustring list" where
  "split_slash [] = [[]]"
| "split_slash (u # us) =
     (if u = slash then [] # split_slash us
      else (case split_slash us of [] \<Rightarrow> [[u]] | s # ss \<Rightarrow> (u # s) # ss))"

fun assert_all :: "ustring list \<Rightarrow> path_error + unit" where
  "assert_all [] = Inr ()"
| "assert_all (s # ss) = (case assertValidTreeEntryName s of Inl e \<Rightarrow> Inl e | Inr _ \<Rightarrow> assert_all ss)"

definition splitTreePath :: "ustring \<Rightarrow> path_error + ustring list" where
  "splitTreePath path =
     (if path = [] then Inr []
      else if utf8ByteLength path > MAX_TREE_PATH_UTF8_BYTES then Inl PathTooLong
      else (let segments = split_slash path
            in if length segments > MAX_TREE_PATH_SEGMENTS then Inl TooManySegments
               else case assert_all segments of Inl e \<Rightarrow> Inl e | Inr _ \<Rightarrow> Inr segments))"

fun join_slash :: "ustring list \<Rightarrow> ustring" where
  "join_slash [] = []"
| "join_slash [s] = s"
| "join_slash (s # t # ss) = s @ slash # join_slash (t # ss)"

subsection \<open>Content addresses\<close>

definition sha256HexSyncText :: "ustring \<Rightarrow> ustring" where
  "sha256HexSyncText t = sha256Hex (utf8 t)"

text \<open>\<open>TextEncoder.encode(undefined)\<close> is empty.\<close>

definition stableSha256Hex :: "int json \<Rightarrow> ustring" where
  "stableSha256Hex value = sha256HexSyncText (case canonicalJson decimal value of None \<Rightarrow> [] | Some t \<Rightarrow> t)"

datatype manifest_entry =
    FileEntry (entry_name: ustring) ustring int    \<comment> \<open>name, content hash, mode\<close>
  | DirEntry (entry_name: ustring) ustring         \<comment> \<open>name, hash of the child\<close>

fun entry_json :: "manifest_entry \<Rightarrow> int json" where
  "entry_json (FileEntry name contentHash mode) = JObject
     [(ascii ''name'', JString name), (ascii ''kind'', JString (ascii ''file'')),
      (ascii ''contentHash'', JString contentHash), (ascii ''mode'', JNumber mode)]"
| "entry_json (DirEntry name childHash) = JObject
     [(ascii ''name'', JString name), (ascii ''kind'', JString (ascii ''dir'')),
      (ascii ''childHash'', JString childHash)]"

definition manifest_json :: "manifest_entry list \<Rightarrow> int json" where
  "manifest_json entries = JObject
     [(ascii ''kind'', JString (ascii ''dir'')), (ascii ''entries'', JArray (map entry_json entries))]"

definition manifestHashForEntries :: "manifest_entry list \<Rightarrow> ustring" where
  "manifestHashForEntries entries =
     ascii ''manifest:'' @ stableSha256Hex (manifest_json (sort_utf16 entry_name entries))"

definition stateHashForRoot :: "ustring \<Rightarrow> ustring" where
  "stateHashForRoot rootHash =
     ascii ''state:'' @ stableSha256Hex (JObject [(ascii ''manifestRootHash'', JString rootHash)])"

definition EMPTY_MANIFEST_HASH :: ustring where
  "EMPTY_MANIFEST_HASH = manifestHashForEntries []"

definition EMPTY_STATE_HASH :: ustring where
  "EMPTY_STATE_HASH = stateHashForRoot EMPTY_MANIFEST_HASH"

subsection \<open>The tree\<close>

record worktree_file =
  wf_path :: ustring
  wf_contentHash :: ustring
  wf_mode :: int

datatype dir_node = DirNode
  (dn_dirs: "(ustring \<times> dir_node) list") (dn_files: "(ustring \<times> ustring \<times> int) list") (dn_hash: "ustring option")

definition empty_dir :: dir_node where
  "empty_dir = DirNode [] [] None"

text \<open>The walk along the segments of a path, which makes the missing directories.\<close>

fun insert_file :: "ustring list \<Rightarrow> ustring \<times> int \<Rightarrow> dir_node \<Rightarrow> dir_node" where
  "insert_file [] entry node = node"
| "insert_file [s] entry (DirNode ds fs h) = DirNode ds (jset s entry fs) h"
| "insert_file (s # t # r) entry (DirNode ds fs h) =
     (let child = (case map_of ds s of None \<Rightarrow> empty_dir | Some child \<Rightarrow> child)
      in DirNode (jset s (insert_file (t # r) entry child) ds) fs h)"

fun insert_files :: "worktree_file list \<Rightarrow> dir_node \<Rightarrow> path_error + dir_node" where
  "insert_files [] root = Inr root"
| "insert_files (f # fs) root =
     (case splitTreePath (wf_path f) of
        Inl e \<Rightarrow> Inl e
      | Inr segments \<Rightarrow>
          if segments = [] then Inl NamesTheRoot
          else insert_files fs (insert_file segments (wf_contentHash f, wf_mode f) root))"

text \<open>\<open>build\<close>: the hash of a directory, and the directory with all hashes filled in.\<close>

primrec build :: "dir_node \<Rightarrow> ustring \<times> dir_node" where
  "build (DirNode ds fs h) =
     (let built = map (map_prod (\<lambda>k. k) build) ds;
          entries = map (\<lambda>(name, hash, child). DirEntry name hash) built @
            map (\<lambda>(name, contentHash, mode). FileEntry name contentHash mode) fs;
          hash = manifestHashForEntries entries
      in (hash, DirNode (map (\<lambda>(name, hash, child). (name, child)) built) fs (Some hash)))"

record worktree_manifest =
  wm_rootHash :: ustring
  wm_stateHash :: ustring
  wm_root :: dir_node

definition buildWorktreeManifest :: "worktree_file list \<Rightarrow> path_error + worktree_manifest" where
  "buildWorktreeManifest files =
     (case insert_files files empty_dir of
        Inl e \<Rightarrow> Inl e
      | Inr root \<Rightarrow>
          (let (rootHash, root') = (if files = [] then (EMPTY_MANIFEST_HASH, root) else build root)
           in Inr \<lparr>wm_rootHash = rootHash, wm_stateHash = stateHashForRoot rootHash, wm_root = root'\<rparr>))"

fun subtree_walk :: "dir_node \<Rightarrow> ustring list \<Rightarrow> ustring option" where
  "subtree_walk node [] = None"
| "subtree_walk node [s] =
     (case map_of (dn_dirs node) s of
        Some d \<Rightarrow> dn_hash d
      | None \<Rightarrow> map_option fst (map_of (dn_files node) s))"
| "subtree_walk node (s # t # r) =
     (case map_of (dn_dirs node) s of None \<Rightarrow> None | Some child \<Rightarrow> subtree_walk child (t # r))"

definition subtreeHash :: "worktree_manifest \<Rightarrow> ustring \<Rightarrow> ustring option" where
  "subtreeHash m path = (if path = [] then Some (wm_rootHash m) else subtree_walk (wm_root m) (split_slash path))"

subsection \<open>What a tree holds\<close>

fun lookup_file :: "dir_node \<Rightarrow> ustring list \<Rightarrow> (ustring \<times> int) option" where
  "lookup_file node [] = None"
| "lookup_file node [s] = map_of (dn_files node) s"
| "lookup_file node (s # t # r) =
     (case map_of (dn_dirs node) s of None \<Rightarrow> None | Some child \<Rightarrow> lookup_file child (t # r))"

fun lookup_dir :: "dir_node \<Rightarrow> ustring list \<Rightarrow> dir_node option" where
  "lookup_dir node [] = Some node"
| "lookup_dir node (s # r) =
     (case map_of (dn_dirs node) s of None \<Rightarrow> None | Some child \<Rightarrow> lookup_dir child r)"

text \<open>No name twice, and no directory without a file below it.\<close>

fun has_file :: "dir_node \<Rightarrow> bool" where
  "has_file (DirNode ds fs h) \<longleftrightarrow> fs \<noteq> [] \<or> (\<exists>d \<in> set ds. has_file (snd d))"

fun tree_ok :: "dir_node \<Rightarrow> bool" where
  "tree_ok (DirNode ds fs h) \<longleftrightarrow> distinct (map fst ds) \<and> distinct (map fst fs) \<and>
     (\<forall>d \<in> set ds. tree_ok (snd d) \<and> has_file (snd d))"

lemma tree_ok_empty [simp]: "tree_ok empty_dir"
  by (simp add: empty_dir_def)

lemma lookup_empty [simp]: "lookup_file empty_dir q = None"
  by (induction q rule: induct_list012) (simp_all add: empty_dir_def)

lemma has_file_insert: "q \<noteq> [] \<Longrightarrow> has_file (insert_file q f n)"
proof (induction q f n rule: insert_file.induct)
  case (2 s entry ds fs h)
  then show ?case by (cases fs) auto
next
  case (3 s t r entry ds fs h)
  let ?c = "case map_of ds s of None \<Rightarrow> empty_dir | Some child \<Rightarrow> child"
  have "(s, insert_file (t # r) entry ?c) \<in> set (jset s (insert_file (t # r) entry ?c) ds)"
    by (induction ds) auto
  then show ?case using 3 by (auto simp: Let_def intro!: bexI)
qed simp

lemma distinct_jset: "distinct (map fst m) \<Longrightarrow> distinct (map fst (jset k v m))"
  using jwf_jset [of m k v] by (simp add: jwf_def)

lemma set_jset_subset: "set (jset k v m) \<subseteq> insert (k, v) (set m)"
  by (induction m) auto

lemma tree_ok_insert: "tree_ok n \<Longrightarrow> tree_ok (insert_file q f n)"
proof (induction q f n rule: insert_file.induct)
  case (3 s t r entry ds fs h)
  let ?c = "case map_of ds s of None \<Rightarrow> empty_dir | Some child \<Rightarrow> child"
  have "tree_ok ?c" using 3 by (auto split: option.splits dest: map_of_SomeD)
  then have "tree_ok (insert_file (t # r) entry ?c)" using "3.IH" by simp
  moreover have "has_file (insert_file (t # r) entry ?c)" by (rule has_file_insert) simp
  ultimately show ?case
    using 3 set_jset_subset [of s "insert_file (t # r) entry ?c" ds] by (auto simp: Let_def distinct_jset)
qed (auto simp: distinct_jset)

lemma lookup_insert: "q \<noteq> [] \<Longrightarrow> lookup_file (insert_file q f n) = (lookup_file n)(q \<mapsto> f)"
proof (induction q f n rule: insert_file.induct)
  case (2 s entry ds fs h)
  show ?case
  proof
    fix p
    show "lookup_file (insert_file [s] entry (DirNode ds fs h)) p = ((lookup_file (DirNode ds fs h))([s] \<mapsto> entry)) p"
      by (cases p rule: remdups_adj.cases) simp_all
  qed
next
  case (3 s t r entry ds fs h)
  let ?c = "case map_of ds s of None \<Rightarrow> empty_dir | Some child \<Rightarrow> child"
  have c: "(case map_of ds s of None \<Rightarrow> None | Some child \<Rightarrow> lookup_file child p) = lookup_file ?c p" for p
    by (simp split: option.splits)
  have IH: "lookup_file (insert_file (t # r) entry ?c) = (lookup_file ?c)(t # r \<mapsto> entry)"
    using "3.IH" [OF refl] by blast
  show ?case
  proof
    fix p
    show "lookup_file (insert_file (s # t # r) entry (DirNode ds fs h)) p =
        ((lookup_file (DirNode ds fs h))(s # t # r \<mapsto> entry)) p"
      by (cases p rule: remdups_adj.cases) (simp_all add: Let_def IH c)
  qed
qed simp

text \<open>The path of a file, once admitted.\<close>

definition segments_of :: "worktree_file \<Rightarrow> ustring list" where
  "segments_of f = (case splitTreePath (wf_path f) of Inl _ \<Rightarrow> [] | Inr segments \<Rightarrow> segments)"

definition admitted :: "worktree_file \<Rightarrow> bool" where
  "admitted f \<longleftrightarrow> (\<exists>segments. splitTreePath (wf_path f) = Inr segments \<and> segments \<noteq> [])"

definition insert_all :: "worktree_file list \<Rightarrow> dir_node \<Rightarrow> dir_node" where
  "insert_all files root = foldl (\<lambda>n f. insert_file (segments_of f) (wf_contentHash f, wf_mode f) n) root files"

lemma admitted_segments: "admitted f \<Longrightarrow> segments_of f \<noteq> []"
  by (auto simp: admitted_def segments_of_def)

lemma insert_files_eq:
  "insert_files files root = Inr n \<longleftrightarrow> (\<forall>f \<in> set files. admitted f) \<and> n = insert_all files root"
  by (induction files arbitrary: root)
    (auto simp: insert_all_def admitted_def segments_of_def split: sum.splits)

lemma tree_ok_insert_all: "tree_ok n \<Longrightarrow> tree_ok (insert_all files n)"
  unfolding insert_all_def by (induction files arbitrary: n) (simp_all add: tree_ok_insert)

text \<open>What the files say: the last one of a path wins.\<close>

definition file_map :: "worktree_file list \<Rightarrow> ustring list \<Rightarrow> (ustring \<times> int) option" where
  "file_map files = map_of (rev (map (\<lambda>f. (segments_of f, wf_contentHash f, wf_mode f)) files))"

lemma lookup_insert_all:
  "\<forall>f \<in> set files. admitted f \<Longrightarrow> lookup_file (insert_all files empty_dir) = file_map files"
proof (induction files rule: rev_induct)
  case (snoc f files)
  then show ?case
    using lookup_insert [OF admitted_segments [of f]] by (simp add: insert_all_def file_map_def)
qed (simp add: insert_all_def file_map_def fun_eq_iff)

subsection \<open>The hash of a tree\<close>

definition hash_of :: "dir_node \<Rightarrow> ustring" where
  "hash_of n = fst (build n)"

definition dir_entries :: "dir_node \<Rightarrow> manifest_entry list" where
  "dir_entries n = map (\<lambda>d. DirEntry (fst d) (hash_of (snd d))) (dn_dirs n)"

definition file_entries :: "dir_node \<Rightarrow> manifest_entry list" where
  "file_entries n = map (\<lambda>f. FileEntry (fst f) (fst (snd f)) (snd (snd f))) (dn_files n)"

lemma hash_of_simp: "hash_of n = manifestHashForEntries (dir_entries n @ file_entries n)"
  by (cases n) (simp add: hash_of_def Let_def dir_entries_def file_entries_def case_prod_unfold comp_def)

lemma dir_entries_hashes:
  "dir_entries n = map (\<lambda>d. DirEntry (fst d) (snd d)) (map (map_prod (\<lambda>k. k) hash_of) (dn_dirs n))"
  by (simp add: dir_entries_def)

lemma filter_same_name:
  assumes "mset xs = mset ys" and "distinct (map f xs)"
  shows "filter (\<lambda>x. f x = k) xs = filter (\<lambda>x. f x = k) ys"
proof -
  have len: "length (filter (\<lambda>x. f x = k) zs) \<le> 1" if "distinct (map f zs)" for zs
    using that
  proof (induction zs)
    case (Cons a zs)
    have "filter (\<lambda>x. f x = k) zs = []" if "f a = k"
      using Cons.prems that by (auto simp: filter_empty_conv image_iff)
    then show ?case using Cons by auto
  qed simp
  have "mset (filter (\<lambda>x. f x = k) xs) = mset (filter (\<lambda>x. f x = k) ys)"
    using assms(1) by (simp add: mset_filter)
  moreover have "length (filter (\<lambda>x. f x = k) xs) \<le> 1" using len assms(2) by simp
  ultimately show ?thesis
    by (cases "filter (\<lambda>x. f x = k) xs"; cases "filter (\<lambda>x. f x = k) ys")
      (auto simp del: mset_filter dest: mset_eq_length)
qed

text \<open>Where a directory and a file share a name, the stable sort leaves the directory first.\<close>

lemma sort_entries_unique:
  assumes "mset ds = mset ds'" and "mset fs = mset fs'"
    and "distinct (map entry_name ds)" and "distinct (map entry_name fs)"
  shows "sort_utf16 entry_name (ds @ fs) = sort_utf16 entry_name (ds' @ fs')"
  unfolding sort_utf16_def
proof (rule properties_for_sort_key)
  show "mset (sort_key entry_name (ds' @ fs')) = mset (ds @ fs)" using assms(1,2) by simp
  show "filter (\<lambda>x. entry_name k = entry_name x) (sort_key entry_name (ds' @ fs')) =
      filter (\<lambda>x. entry_name k = entry_name x) (ds @ fs)" for k
    using filter_same_name [OF assms(1,3), of "entry_name k"] filter_same_name [OF assms(2,4), of "entry_name k"]
    by (simp add: sort_key_stable eq_commute [of "entry_name k"])
qed simp

text \<open>In a tree without empty directories the files determine the directories.\<close>

lemma has_file_lookup: "tree_ok n \<Longrightarrow> has_file n \<Longrightarrow> \<exists>q. lookup_file n q \<noteq> None"
proof (induction n rule: has_file.induct)
  case (1 ds fs h)
  show ?case
  proof (cases fs)
    case (Cons f fs')
    then have "lookup_file (DirNode ds fs h) [fst f] \<noteq> None" by (cases f) simp
    then show ?thesis by blast
  next
    case Nil
    then obtain d where d: "d \<in> set ds" "has_file (snd d)" using 1 by auto
    have "tree_ok (snd d)" using 1(2) d(1) by simp
    then obtain q where q: "lookup_file (snd d) q \<noteq> None" using 1(1) [OF d(1)] d(2) by blast
    then obtain t r where "q = t # r" by (cases q) auto
    moreover have "map_of ds (fst d) = Some (snd d)" using 1 d by (simp add: map_of_eq_Some_iff)
    ultimately have "lookup_file (DirNode ds fs h) (fst d # q) \<noteq> None" using q by simp
    then show ?thesis by blast
  qed
qed

lemma dirs_of_lookup:
  assumes "tree_ok n"
  shows "s \<in> set (map fst (dn_dirs n)) \<longleftrightarrow> (\<exists>t r. lookup_file n (s # t # r) \<noteq> None)"
proof
  assume "s \<in> set (map fst (dn_dirs n))"
  then obtain c where c: "map_of (dn_dirs n) s = Some c" by (cases "map_of (dn_dirs n) s") (auto simp: map_of_eq_None_iff)
  then have "tree_ok c" "has_file c" using assms by (cases n; auto dest: map_of_SomeD)+
  then obtain q where "lookup_file c q \<noteq> None" using has_file_lookup by blast
  then show "\<exists>t r. lookup_file n (s # t # r) \<noteq> None" using c by (cases q) auto
qed (force split: option.splits dest: map_of_SomeD)

lemma lookup_child:
  "map_of (dn_dirs n) s = Some c \<Longrightarrow> lookup_file c q = (if q = [] then None else lookup_file n (s # q))"
  by (cases q) simp_all

lemma hash_of_lookup:
  "tree_ok n \<Longrightarrow> tree_ok m \<Longrightarrow> lookup_file n = lookup_file m \<Longrightarrow> hash_of n = hash_of m"
proof (induction n arbitrary: m)
  case (DirNode ds fs h)
  let ?n = "DirNode ds fs h"
  have "set (map fst (dn_dirs ?n)) = set (map fst (dn_dirs m))"
    by (intro set_eqI) (simp only: dirs_of_lookup [OF DirNode.prems(1)] dirs_of_lookup [OF DirNode.prems(2)] DirNode.prems(3))
  then have keys: "set (map fst ds) = set (map fst (dn_dirs m))" by simp
  have dist: "distinct (map fst ds)" "distinct (map fst fs)" "distinct (map fst (dn_dirs m))" "distinct (map fst (dn_files m))"
    using DirNode.prems(1,2) by (cases m; simp)+
  have child: "map_option hash_of (map_of ds s) = map_option hash_of (map_of (dn_dirs m) s)" for s
  proof (cases "map_of ds s")
    case None
    then show ?thesis using keys by (metis map_of_eq_None_iff set_map option.map_disc_iff)
  next
    case (Some c)
    then have "s \<in> set (map fst (dn_dirs m))" using keys by (force dest: map_of_SomeD)
    then obtain c' where c': "map_of (dn_dirs m) s = Some c'"
      by (cases "map_of (dn_dirs m) s") (auto simp: map_of_eq_None_iff)
    have "lookup_file c = lookup_file c'"
      using lookup_child [of ?n s c] lookup_child [OF c'] Some DirNode.prems(3) by (intro ext) simp
    moreover have "tree_ok c" "tree_ok c'"
      using DirNode.prems(1,2) Some c' by (cases m; auto dest!: map_of_SomeD)+
    moreover have "(s, c) \<in> set ds" using Some by (rule map_of_SomeD)
    ultimately have "hash_of c = hash_of c'" using DirNode.IH [of "(s, c)" c c'] by simp
    then show ?thesis using Some c' by simp
  qed
  have "map_of (map (map_prod (\<lambda>k. k) hash_of) ds) = map_of (map (map_prod (\<lambda>k. k) hash_of) (dn_dirs m))"
    using child by (simp add: map_of_values fun_eq_iff)
  then have "set (map (map_prod (\<lambda>k. k) hash_of) ds) = set (map (map_prod (\<lambda>k. k) hash_of) (dn_dirs m))"
    using dist by (subst map_of_inject_set [symmetric]) simp_all
  then have "set (dir_entries ?n) = set (dir_entries m)"
    unfolding dir_entries_hashes set_map [of "\<lambda>d. DirEntry (fst d) (snd d)"] dir_node.sel by simp
  moreover have d: "distinct (map entry_name (dir_entries ?n))" "distinct (map entry_name (file_entries ?n))"
    "distinct (map entry_name (dir_entries m))" "distinct (map entry_name (file_entries m))"
    using dist by (simp_all add: dir_entries_def file_entries_def comp_def)
  moreover have "map_of fs = map_of (dn_files m)"
    using fun_cong [OF DirNode.prems(3)] by (intro ext) (metis lookup_file.simps(2) dir_node.sel(2))
  then have "set fs = set (dn_files m)" using dist by (simp add: map_of_inject_set)
  then have "set (file_entries ?n) = set (file_entries m)" by (simp add: file_entries_def)
  ultimately have "mset (dir_entries ?n) = mset (dir_entries m) \<and> mset (file_entries ?n) = mset (file_entries m)"
    by (metis distinct_map set_eq_iff_mset_eq_distinct)
  then have "sort_utf16 entry_name (dir_entries ?n @ file_entries ?n) = sort_utf16 entry_name (dir_entries m @ file_entries m)"
    using d by (intro sort_entries_unique) simp_all
  then show ?case by (simp add: hash_of_simp manifestHashForEntries_def)
qed

subsection \<open>What a hash determines\<close>

inductive_cases same_jsonE: "same_json v w"

lemma same_json_simps [simp]:
  "same_json (JString s) (JString t) \<longleftrightarrow> s = t"
  "same_json (JNumber m) (JNumber n) \<longleftrightarrow> m = n"
  "same_json (JArray vs) (JArray ws) \<longleftrightarrow> list_all2 same_json vs ws"
  "same_json (JObject fs) (JObject gs) \<longleftrightarrow> (\<forall>k. rel_option same_json (map_of fs k) (map_of gs k))"
  by (auto elim: same_jsonE intro: same_leaf same_array same_object list.rel_refl option.rel_refl)

lemma entry_json_inject: "same_json (entry_json e) (entry_json f) \<Longrightarrow> e = f"
proof -
  assume "same_json (entry_json e) (entry_json f)"
  then have "rel_option same_json (map_of (case entry_json e of JObject fs \<Rightarrow> fs | _ \<Rightarrow> []) (ascii k))
      (map_of (case entry_json f of JObject fs \<Rightarrow> fs | _ \<Rightarrow> []) (ascii k))" for k
    by (cases e; cases f) (simp del: ascii_simps)+
  from this [of "''name''"] this [of "''kind''"] this [of "''contentHash''"] this [of "''mode''"] this [of "''childHash''"]
  show "e = f" by (cases e; cases f) simp_all
qed

lemma clean_entry_json: "clean (entry_json e)"
  by (cases e) (simp_all add: proto_key_def)

lemma clean_manifest_json: "clean (manifest_json es)"
  by (auto simp: manifest_json_def proto_key_def clean_entry_json)

lemma manifest_json_inject: "same_json (manifest_json es) (manifest_json fs) \<Longrightarrow> es = fs"
proof -
  assume "same_json (manifest_json es) (manifest_json fs)"
  then have "list_all2 same_json (map entry_json es) (map entry_json fs)"
    unfolding manifest_json_def same_json_simps(4) by (auto dest: spec [of _ "ascii ''entries''"])
  then show "es = fs"
    unfolding list.rel_map by (induction rule: list_all2_induct) (simp_all add: entry_json_inject)
qed

text \<open>The texts that are hashed for a directory and everything below it.\<close>

definition dir_text :: "dir_node \<Rightarrow> ustring" where
  "dir_text n = text_of decimal (manifest_json (sort_utf16 entry_name (dir_entries n @ file_entries n)))"

fun dir_texts :: "dir_node \<Rightarrow> ustring list" where
  "dir_texts (DirNode ds fs h) = dir_text (DirNode ds fs h) # concat (map (\<lambda>d. dir_texts (snd d)) ds)"

lemma hash_of_text: "hash_of n = ascii ''manifest:'' @ sha256HexSyncText (dir_text n)"
  by (simp add: hash_of_simp manifestHashForEntries_def stableSha256Hex_def dir_text_def text_of_def)

lemma dir_text_entries:
  assumes "dir_text n = dir_text m"
  shows "set (dir_entries n) = set (dir_entries m) \<and> set (file_entries n) = set (file_entries m)"
proof -
  let ?es = "\<lambda>n. sort_utf16 entry_name (dir_entries n @ file_entries n)"
  have "canonicalJson decimal (manifest_json (?es n)) = canonicalJson decimal (manifest_json (?es m))"
    using assms canonical_text [OF clean_manifest_json, where N = decimal] by (simp add: dir_text_def)
  then have "?es n = ?es m"
    using decimal.canonical_iff [OF clean_manifest_json clean_manifest_json] manifest_json_inject by blast
  then have all: "set (dir_entries n) \<union> set (file_entries n) = set (dir_entries m) \<union> set (file_entries m)"
    by (metis set_append set_sort_utf16)
  have kinds: "set (dir_entries k) = {e \<in> set (dir_entries k) \<union> set (file_entries k). \<exists>x h. e = DirEntry x h}"
    "set (file_entries k) = {e \<in> set (dir_entries k) \<union> set (file_entries k). \<exists>x h m. e = FileEntry x h m}" for k
    by (auto simp: dir_entries_def file_entries_def)
  show ?thesis using kinds [of n, unfolded all] kinds [of m] by simp
qed

lemma dir_entry_of:
  "tree_ok n \<Longrightarrow> DirEntry s x \<in> set (dir_entries n) \<longleftrightarrow> map_option hash_of (map_of (dn_dirs n) s) = Some x"
  by (cases n) (force simp: dir_entries_def map_of_eq_Some_iff)

lemma file_entry_of:
  "tree_ok n \<Longrightarrow> FileEntry s x y \<in> set (file_entries n) \<longleftrightarrow> map_of (dn_files n) s = Some (x, y)"
  by (cases n) (force simp: file_entries_def map_of_eq_Some_iff)

lemma hash_determines_text:
  assumes "inj_on sha256HexSyncText (set (dir_texts n) \<union> set (dir_texts m))" and "hash_of n = hash_of m"
  shows "dir_text n = dir_text m"
proof -
  have "dir_text k \<in> set (dir_texts k)" for k by (cases k) simp
  then have "dir_text n \<in> set (dir_texts n) \<union> set (dir_texts m)" "dir_text m \<in> set (dir_texts n) \<union> set (dir_texts m)"
    by blast+
  moreover have "sha256HexSyncText (dir_text n) = sha256HexSyncText (dir_text m)"
    using assms(2) by (simp only: hash_of_text append_same_eq same_append_eq)
  ultimately show ?thesis using assms(1) by (meson inj_onD)
qed

lemma same_Some: "(\<And>x. a = Some x \<longleftrightarrow> b = Some x) \<Longrightarrow> a = b"
  by (cases a; cases b) auto

lemma hash_determines_lookup:
  "tree_ok n \<Longrightarrow> tree_ok m \<Longrightarrow> inj_on sha256HexSyncText (set (dir_texts n) \<union> set (dir_texts m)) \<Longrightarrow>
     hash_of n = hash_of m \<Longrightarrow> lookup_file n q = lookup_file m q"
proof (induction q arbitrary: n m rule: induct_list012)
  case (3 s t r)
  obtain ds fs h where n: "n = DirNode ds fs h" by (cases n)
  obtain ds' fs' h' where m: "m = DirNode ds' fs' h'" by (cases m)
  have "dir_text n = dir_text m" using 3(5,6) by (rule hash_determines_text)
  then have "map_option hash_of (map_of (dn_dirs n) s) = map_option hash_of (map_of (dn_dirs m) s)"
    using dir_text_entries [of n m] dir_entry_of [OF 3(3), of s] dir_entry_of [OF 3(4), of s]
    by (intro same_Some) simp
  then consider "map_of ds s = None" "map_of ds' s = None"
    | c c' where "map_of ds s = Some c" "map_of ds' s = Some c'" "hash_of c = hash_of c'"
    by (cases "map_of ds s"; cases "map_of ds' s") (auto simp: n m)
  then show ?case
  proof cases
    case 2
    have mem: "(s, c) \<in> set ds" "(s, c') \<in> set ds'" using 2 by (simp_all add: map_of_SomeD)
    then have "set (dir_texts c) \<union> set (dir_texts c') \<subseteq> set (dir_texts n) \<union> set (dir_texts m)"
      by (force simp: n m)
    then have "inj_on sha256HexSyncText (set (dir_texts c) \<union> set (dir_texts c'))" using 3(5) by (rule inj_on_subset [rotated])
    moreover have "tree_ok c" "tree_ok c'" using mem 3(3,4) by (auto simp: n m)
    ultimately have "lookup_file c (t # r) = lookup_file c' (t # r)" using "3.IH"(2) 2(3) by blast
    then show ?thesis using 2 by (simp add: n m)
  qed (simp add: n m)
next
  case (2 s)
  obtain ds fs h where n: "n = DirNode ds fs h" by (cases n)
  obtain ds' fs' h' where m: "m = DirNode ds' fs' h'" by (cases m)
  have "dir_text n = dir_text m" using 2(3,4) by (rule hash_determines_text)
  then have "map_of (dn_files n) s = map_of (dn_files m) s"
  proof (intro same_Some)
    fix e
    show "map_of (dn_files n) s = Some e \<longleftrightarrow> map_of (dn_files m) s = Some e"
      using dir_text_entries [OF \<open>dir_text n = dir_text m\<close>]
        file_entry_of [OF 2(1), of s "fst e" "snd e"] file_entry_of [OF 2(2), of s "fst e" "snd e"] by simp
  qed
  then show ?case by simp
qed simp

subsection \<open>Splitting and joining\<close>

lemma split_slash_nonempty [simp]: "split_slash p \<noteq> []"
  by (induction p) (auto split: list.splits)

lemma join_split [simp]: "join_slash (split_slash p) = p"
proof (induction p)
  case (Cons u us)
  obtain s ss where split: "split_slash us = s # ss" by (cases "split_slash us") auto
  have "join_slash ((u # s) # ss) = u # join_slash (s # ss)" by (cases ss) simp_all
  then show ?case using Cons split by (simp add: split)
qed simp

lemma split_no_slash: "slash \<notin> set s \<Longrightarrow> split_slash s = [s]"
  by (induction s) auto

lemma split_append: "split_slash (p @ slash # r) = split_slash p @ split_slash r"
  by (induction p) (auto split: list.splits)

lemma split_join: "ss \<noteq> [] \<Longrightarrow> \<forall>s \<in> set ss. slash \<notin> set s \<Longrightarrow> split_slash (join_slash ss) = ss"
  by (induction ss rule: join_slash.induct) (auto simp: split_append split_no_slash)

lemma join_append: "ss \<noteq> [] \<Longrightarrow> ts \<noteq> [] \<Longrightarrow> join_slash (ss @ ts) = join_slash ss @ slash # join_slash ts"
  by (induction ss rule: join_slash.induct) (auto simp: neq_Nil_conv)

lemma assert_all_Inr: "assert_all ss = Inr x \<longleftrightarrow> (\<forall>s \<in> set ss. isValidTreeEntryName s)"
  by (induction ss) (auto simp: assertValidTreeEntryName_def split: sum.splits)

lemma valid_name_no_slash: "isValidTreeEntryName s \<Longrightarrow> slash \<notin> set s"
  by (simp add: isValidTreeEntryName_def)

lemma split_path_iff:
  "splitTreePath p = Inr ss \<longleftrightarrow> join_slash ss = p \<and> (\<forall>s \<in> set ss. isValidTreeEntryName s) \<and>
     length ss \<le> MAX_TREE_PATH_SEGMENTS \<and> utf8ByteLength p \<le> MAX_TREE_PATH_UTF8_BYTES"
proof (cases "p = []")
  case True
  have "ss = []" if "join_slash ss = []" "\<forall>s \<in> set ss. isValidTreeEntryName s"
    using that by (cases ss rule: join_slash.cases) (auto simp: isValidTreeEntryName_def)
  then show ?thesis
    using True by (auto simp: splitTreePath_def utf8ByteLength_def utf8_def MAX_TREE_PATH_UTF8_BYTES_def)
next
  case False
  have "split_slash p = ss \<longleftrightarrow> join_slash ss = p" if "\<forall>s \<in> set ss. isValidTreeEntryName s"
    using split_join [of ss] that False valid_name_no_slash by (cases "ss = []") auto
  then show ?thesis
    using False assert_all_Inr [of "split_slash p"]
    by (auto simp: splitTreePath_def Let_def split: sum.splits)
qed

subsection \<open>Bytes of joined paths\<close>

lemma scalar_values_append:
  "\<not> high_surrogate u \<and> \<not> low_surrogate u \<Longrightarrow> scalar_values (s @ u # r) = scalar_values s @ unat u # scalar_values r"
proof (induction s rule: scalar_values.induct)
  case 1
  then show ?case by (cases r) auto
next
  case (2 v)
  then show ?case by (cases r) auto
qed auto

lemma utf8_slash: "utf8ByteLength (p @ slash # r) = utf8ByteLength p + 1 + utf8ByteLength r"
proof -
  have "\<not> high_surrogate slash \<and> \<not> low_surrogate slash"
    by (simp add: slash_def high_surrogate_def low_surrogate_def)
  then show ?thesis
    by (simp add: utf8ByteLength_def utf8_def scalar_values_append utf8_scalar_def slash_def)
qed

text \<open>A path below another one.\<close>

lemma split_below:
  assumes "splitTreePath q = Inr ss"
  shows "startsWith (p @ [slash]) q \<longleftrightarrow> (\<exists>rest. rest \<noteq> [] \<and> ss = split_slash p @ rest)"
proof
  assume "startsWith (p @ [slash]) q"
  then obtain r where q: "q = p @ slash # r" by (auto simp: startsWith_iff)
  have "ss = split_slash q" using assms q by (auto simp: splitTreePath_def Let_def split: if_splits sum.splits)
  then show "\<exists>rest. rest \<noteq> [] \<and> ss = split_slash p @ rest" using q by (auto simp: split_append)
next
  assume "\<exists>rest. rest \<noteq> [] \<and> ss = split_slash p @ rest"
  then obtain rest where "rest \<noteq> []" "ss = split_slash p @ rest" by blast
  then have "q = p @ slash # join_slash rest"
    using assms by (auto simp: split_path_iff join_append)
  then show "startsWith (p @ [slash]) q" by (auto simp: startsWith_iff)
qed

lemma split_suffix:
  assumes "splitTreePath q = Inr (split_slash p @ rest)" and "rest \<noteq> []"
  shows "splitTreePath (drop (length p + 1) q) = Inr rest"
proof -
  have q: "q = p @ slash # join_slash rest" using assms by (auto simp: split_path_iff join_append)
  then have "drop (length p + 1) q = join_slash rest" by simp
  then show ?thesis
    using assms(1) utf8_slash [of p "join_slash rest"] unfolding split_path_iff q by auto
qed

subsection \<open>Subtrees\<close>

lemma lookup_dir_empty: "lookup_dir empty_dir segs = (if segs = [] then Some empty_dir else None)"
  by (cases segs) (simp_all add: empty_dir_def)

lemma lookup_dir_insert:
  "lookup_dir (insert_file q e n) segs =
     (if \<exists>rest. rest \<noteq> [] \<and> q = segs @ rest
      then Some (insert_file (drop (length segs) q) e (case lookup_dir n segs of None \<Rightarrow> empty_dir | Some c \<Rightarrow> c))
      else lookup_dir n segs)"
proof (induction q e n arbitrary: segs rule: insert_file.induct)
  case (2 s e ds fs h)
  then show ?case by (cases segs) auto
next
  case (3 s t r e ds fs h)
  let ?c = "case map_of ds s of None \<Rightarrow> empty_dir | Some child \<Rightarrow> child"
  show ?case
  proof (cases segs)
    case (Cons u us)
    have "lookup_dir (insert_file (t # r) e ?c) us = (if \<exists>rest. rest \<noteq> [] \<and> t # r = us @ rest
        then Some (insert_file (drop (length us) (t # r)) e (case lookup_dir ?c us of None \<Rightarrow> empty_dir | Some c \<Rightarrow> c))
        else lookup_dir ?c us)"
      using "3.IH" [OF refl] by blast
    then show ?thesis
      using Cons by (cases "map_of ds s") (auto simp: Let_def lookup_dir_empty)
  qed simp
qed simp

lemma lookup_dir_insert_all:
  assumes "segs \<noteq> []"
  shows "lookup_dir (insert_all files empty_dir) segs =
    (let fs = filter (\<lambda>f. \<exists>rest. rest \<noteq> [] \<and> segments_of f = segs @ rest) files
     in if fs = [] then None
        else Some (foldl (\<lambda>n f. insert_file (drop (length segs) (segments_of f)) (wf_contentHash f, wf_mode f) n) empty_dir fs))"
proof (induction files rule: rev_induct)
  case (snoc f files)
  then show ?case
    by (auto simp: insert_all_def lookup_dir_insert Let_def)
qed (use assms in \<open>simp add: insert_all_def lookup_dir_empty\<close>)

text \<open>The files below a path, with paths relative to it.\<close>

definition files_below :: "ustring \<Rightarrow> worktree_file list \<Rightarrow> worktree_file list" where
  "files_below p files =
     map (\<lambda>f. f\<lparr>wf_path := drop (Suc (length p)) (wf_path f)\<rparr>) (filter (\<lambda>f. startsWith (p @ [slash]) (wf_path f)) files)"

lemma admitted_split: "admitted f \<Longrightarrow> splitTreePath (wf_path f) = Inr (segments_of f)"
  by (auto simp: admitted_def segments_of_def)

lemma below_path:
  assumes "admitted f" and "startsWith (p @ [slash]) (wf_path f)"
  shows "admitted (f\<lparr>wf_path := drop (Suc (length p)) (wf_path f)\<rparr>)"
    and "segments_of (f\<lparr>wf_path := drop (Suc (length p)) (wf_path f)\<rparr>) = drop (length (split_slash p)) (segments_of f)"
proof -
  obtain rest where rest: "rest \<noteq> []" "segments_of f = split_slash p @ rest"
    using assms split_below [OF admitted_split] by blast
  then have "splitTreePath (drop (Suc (length p)) (wf_path f)) = Inr rest"
    using admitted_split [OF assms(1)] split_suffix [of "wf_path f" p rest] by simp
  then show "admitted (f\<lparr>wf_path := drop (Suc (length p)) (wf_path f)\<rparr>)"
    and "segments_of (f\<lparr>wf_path := drop (Suc (length p)) (wf_path f)\<rparr>) = drop (length (split_slash p)) (segments_of f)"
    using rest by (simp_all add: admitted_def segments_of_def [of "f\<lparr>wf_path := _\<rparr>"])
qed

lemma lookup_dir_below:
  assumes "\<forall>f \<in> set files. admitted f"
  shows "lookup_dir (insert_all files empty_dir) (split_slash p) =
    (if files_below p files = [] then None else Some (insert_all (files_below p files) empty_dir))"
proof -
  have "filter (\<lambda>f. \<exists>rest. rest \<noteq> [] \<and> segments_of f = split_slash p @ rest) files =
      filter (\<lambda>f. startsWith (p @ [slash]) (wf_path f)) files"
    using assms split_below [OF admitted_split] by (intro filter_cong) auto
  moreover have "foldl (\<lambda>n f. insert_file (drop (length (split_slash p)) (segments_of f)) (wf_contentHash f, wf_mode f) n) n
        (filter (\<lambda>f. startsWith (p @ [slash]) (wf_path f)) files) = insert_all (files_below p files) n" for n
    using assms by (induction files arbitrary: n) (simp_all add: files_below_def insert_all_def below_path(2))
  ultimately show ?thesis by (simp add: lookup_dir_insert_all Let_def files_below_def)
qed

lemma map_of_snd: "map_of (map (\<lambda>x. (fst x, g (snd x))) xs) s = map_option g (map_of xs s)"
  by (induction xs) auto

lemma built_dirs: "map_of (dn_dirs (snd (build n))) s = map_option (snd \<circ> build) (map_of (dn_dirs n) s)"
  by (cases n) (simp add: Let_def comp_def case_prod_beta map_of_snd [of "\<lambda>c. snd (build c)"])

lemma built_files [simp]: "dn_files (snd (build n)) = dn_files n"
  by (cases n) (simp add: Let_def)

lemma built_hash [simp]: "dn_hash (snd (build n)) = Some (hash_of n)"
  by (cases n) (simp add: hash_of_def Let_def)

lemma subtree_walk_built:
  "segs \<noteq> [] \<Longrightarrow> subtree_walk (snd (build n)) segs =
     (case lookup_dir n segs of Some c \<Rightarrow> Some (hash_of c) | None \<Rightarrow> map_option fst (lookup_file n segs))"
  by (induction segs arbitrary: n rule: induct_list012)
    (auto simp: built_dirs split: option.splits)

lemma file_map_find:
  assumes "\<forall>f \<in> set files. admitted f"
  shows "map_option fst (file_map files (split_slash p)) = map_option wf_contentHash (find (\<lambda>f. wf_path f = p) (rev files))"
proof -
  have path: "segments_of f = split_slash p \<longleftrightarrow> wf_path f = p" if "f \<in> set files" for f
    using assms that admitted_split [of f] split_path_iff [of "wf_path f" "segments_of f"]
      split_join [of "segments_of f"] admitted_segments valid_name_no_slash by fastforce
  have "map_of (map (\<lambda>f. (segments_of f, wf_contentHash f, wf_mode f)) fs) (split_slash p) =
      map_option (\<lambda>f. (wf_contentHash f, wf_mode f)) (find (\<lambda>f. wf_path f = p) fs)" if "set fs \<subseteq> set files" for fs
    using that
  proof (induction fs)
    case (Cons f fs)
    then have "segments_of f = split_slash p \<longleftrightarrow> wf_path f = p" using path by simp
    then show ?case using Cons by (cases "wf_path f = p") auto
  qed simp
  from this [of "rev files"] show ?thesis by (simp add: file_map_def rev_map option.map_comp comp_def)
qed

section \<open>Properties\<close>

lemma build_manifest_Inr:
  "buildWorktreeManifest files = Inr m \<longleftrightarrow> (\<forall>f \<in> set files. admitted f) \<and>
     m = \<lparr>wm_rootHash = hash_of (insert_all files empty_dir),
       wm_stateHash = stateHashForRoot (hash_of (insert_all files empty_dir)),
       wm_root = (if files = [] then empty_dir else snd (build (insert_all files empty_dir)))\<rparr>"
proof -
  have "dir_entries empty_dir @ file_entries empty_dir = []"
    by (simp add: dir_entries_def file_entries_def empty_dir_def)
  then have "EMPTY_MANIFEST_HASH = hash_of empty_dir"
    by (simp only: EMPTY_MANIFEST_HASH_def hash_of_simp)
  then have built: "(if files = [] then (EMPTY_MANIFEST_HASH, n) else build n) =
      (hash_of n, if files = [] then empty_dir else snd (build n))" if "n = insert_all files empty_dir" for n
    using that by (simp add: hash_of_def insert_all_def)
  show ?thesis
  proof (cases "insert_files files empty_dir")
    case (Inl e)
    then show ?thesis
      using insert_files_eq [of files empty_dir "insert_all files empty_dir"] by (simp add: buildWorktreeManifest_def)
  next
    case (Inr n)
    then have n: "\<forall>f \<in> set files. admitted f" "n = insert_all files empty_dir" using insert_files_eq by blast+
    show ?thesis
      unfolding buildWorktreeManifest_def Inr sum.case built [OF n(2)] Let_def prod.case using n by (simp add: eq_commute [of m])
  qed
qed

text \<open>
  A tree path is admitted exactly as the sequence of names that spells it. \<open>splitTreePath\<close>
  gives \<open>segments\<close> if and only if joining them with slashes gives the path back, every one is a
  valid entry name (so none is empty, a dot name, or holds a separator), there are at most 129,
  and the path has at most 4095 bytes.
\<close>

theorem tree_path_roundtrip:
  "splitTreePath path = Inr segments \<longleftrightarrow>
     join_slash segments = path \<and> list_all isValidTreeEntryName segments \<and>
     length segments \<le> 129 \<and> utf8ByteLength path \<le> 4095"
  using split_path_iff by (simp add: MAX_TREE_PATH_SEGMENTS_def MAX_TREE_PATH_UTF8_BYTES_def list_all_iff)

text \<open>
  C33. A worktree's hash addresses its files. The root hash and the state hash of two lists of
  files agree whenever the lists map the same paths to the same contents and modes, in whatever
  order the files come and whatever earlier files of the same path they hold. Conversely equal
  root hashes mean equal maps, unless two of the manifest texts that were hashed for the two
  trees collide. Files are refused exactly when one of the paths is not admitted.
\<close>

theorem worktree_hash_addresses_files:
  assumes "buildWorktreeManifest xs = Inr m" and "buildWorktreeManifest ys = Inr n"
  shows "(file_map xs = file_map ys \<longrightarrow> wm_rootHash m = wm_rootHash n \<and> wm_stateHash m = wm_stateHash n) \<and>
    (inj_on sha256HexSyncText (set (dir_texts (insert_all xs empty_dir)) \<union> set (dir_texts (insert_all ys empty_dir))) \<longrightarrow>
      wm_rootHash m = wm_rootHash n \<longrightarrow> file_map xs = file_map ys) \<and>
    (ok (buildWorktreeManifest zs) \<longleftrightarrow> (\<forall>f \<in> set zs. admitted f))"
proof -
  let ?x = "insert_all xs empty_dir" and ?y = "insert_all ys empty_dir"
  have m: "\<forall>f \<in> set xs. admitted f" "wm_rootHash m = hash_of ?x" "wm_stateHash m = stateHashForRoot (hash_of ?x)"
    and n: "\<forall>f \<in> set ys. admitted f" "wm_rootHash n = hash_of ?y" "wm_stateHash n = stateHashForRoot (hash_of ?y)"
    using assms by (simp_all add: build_manifest_Inr)
  have maps: "lookup_file ?x = file_map xs" "lookup_file ?y = file_map ys"
    using lookup_insert_all m(1) n(1) by blast+
  have trees: "tree_ok ?x" "tree_ok ?y" by (simp_all add: tree_ok_insert_all)
  have "file_map xs = file_map ys \<Longrightarrow> hash_of ?x = hash_of ?y"
    using hash_of_lookup [OF trees] by (simp add: maps)
  moreover have "inj_on sha256HexSyncText (set (dir_texts ?x) \<union> set (dir_texts ?y)) \<Longrightarrow> hash_of ?x = hash_of ?y \<Longrightarrow>
      file_map xs = file_map ys"
    using hash_determines_lookup [OF trees] maps by (intro ext) metis
  moreover have "ok (buildWorktreeManifest zs) \<longleftrightarrow> (\<forall>f \<in> set zs. admitted f)"
    by (simp add: ok_iff build_manifest_Inr)
  ultimately show ?thesis using m n by simp
qed

definition sample_file :: worktree_file where
  "sample_file = \<lparr>wf_path = ascii ''a/b'', wf_contentHash = ascii ''0f'', wf_mode = 33188\<rparr>"

lemma sample_admitted: "admitted sample_file"
  by (simp add: admitted_def sample_file_def splitTreePath_def Let_def slash_def utf8ByteLength_def utf8_def
      utf8_scalar_def high_surrogate_def low_surrogate_def MAX_TREE_PATH_UTF8_BYTES_def MAX_TREE_PATH_SEGMENTS_def
      assertValidTreeEntryName_def isValidTreeEntryName_def MAX_TREE_ENTRY_NAME_UTF8_BYTES_def)

theorem worktree_hash_addresses_files_witness:
  "\<exists>m n. buildWorktreeManifest [sample_file] = Inr m \<and> buildWorktreeManifest [sample_file, sample_file] = Inr n \<and>
     wm_rootHash m = wm_rootHash n"
proof -
  obtain m n where mn: "buildWorktreeManifest [sample_file] = Inr m" "buildWorktreeManifest [sample_file, sample_file] = Inr n"
    using sample_admitted by (simp add: build_manifest_Inr)
  have "file_map [sample_file] = file_map [sample_file, sample_file]"
    by (simp add: file_map_def fun_eq_iff)
  then show ?thesis using worktree_hash_addresses_files [OF mn, of "[]"] mn by blast
qed

text \<open>
  Subtrees are worktrees of their own. For a path with files below it, \<open>subtreeHash\<close> is the
  root hash of the worktree made of just those files, with their paths taken relative to it;
  otherwise it is the content hash of the last file of that path, or null. So a directory's
  address depends on nothing outside it.
\<close>

theorem subtree_hash_is_root_hash:
  assumes "buildWorktreeManifest files = Inr m" and "p \<noteq> []"
  shows "\<exists>m'. buildWorktreeManifest (files_below p files) = Inr m' \<and>
    subtreeHash m p =
      (if files_below p files \<noteq> [] then Some (wm_rootHash m')
       else map_option wf_contentHash (find (\<lambda>f. wf_path f = p) (rev files)))"
proof -
  have adm: "\<forall>f \<in> set files. admitted f" using assms(1) by (simp add: build_manifest_Inr)
  then have "\<forall>f \<in> set (files_below p files). admitted f" by (auto simp: files_below_def below_path(1))
  then obtain m' where m': "buildWorktreeManifest (files_below p files) = Inr m'"
      "wm_rootHash m' = hash_of (insert_all (files_below p files) empty_dir)"
    by (simp add: build_manifest_Inr)
  let ?root = "insert_all files empty_dir"
  have "subtreeHash m p = (case lookup_dir ?root (split_slash p) of
      Some c \<Rightarrow> Some (hash_of c) | None \<Rightarrow> map_option fst (lookup_file ?root (split_slash p)))"
  proof (cases "files = []")
    case True
    have "subtree_walk empty_dir segs = None" for segs
      by (induction segs rule: induct_list012) (simp_all add: empty_dir_def)
    then show ?thesis
      using True assms by (simp add: build_manifest_Inr subtreeHash_def insert_all_def lookup_dir_empty)
  next
    case False
    then show ?thesis
      using assms subtree_walk_built [of "split_slash p" ?root] by (simp add: build_manifest_Inr subtreeHash_def)
  qed
  then show ?thesis
    using m' lookup_dir_below [OF adm, of p] lookup_insert_all [OF adm] file_map_find [OF adm, of p]
    by (cases "files_below p files = []") auto
qed

theorem subtree_hash_is_root_hash_witness:
  "\<exists>m (m' :: worktree_manifest). buildWorktreeManifest [sample_file] = Inr m \<and> subtreeHash m (ascii ''a'') = Some (wm_rootHash m')"
proof -
  obtain m where m: "buildWorktreeManifest [sample_file] = Inr m"
    using sample_admitted by (simp add: build_manifest_Inr)
  have "files_below (ascii ''a'') [sample_file] \<noteq> []"
    by (simp add: files_below_def sample_file_def startsWith_def slash_def)
  then show ?thesis using subtree_hash_is_root_hash [OF m, of "ascii ''a''"] m by auto
qed

end
