(* ===== verification/LineDiff.thy ===== *)
theory LineDiff
  imports Utf16 "HOL-Library.Sublist"
begin

text \<open>
  Line diffs (\<^verbatim>\<open>packages/shared/src/lineDiff.ts\<close>): the counts that the publication gate shows, with a
  rolling row of the table of longest common subsequences, and the rows that the review surfaces
  render, with the full table. The specification is the longest common subsequence itself.
\<close>

subsection \<open>Lines\<close>

definition newline :: code_unit where "newline = 10"

fun split_newline :: "ustring \<Rightarrow> ustring list" where
  "split_newline [] = [[]]"
| "split_newline (u # us) =
     (if u = newline then [] # split_newline us
      else (case split_newline us of [] \<Rightarrow> [[u]] | s # ss \<Rightarrow> (u # s) # ss))"

definition splitLines :: "ustring \<Rightarrow> ustring list" where
  "splitLines text =
     (if text = [] then [[]]
      else (let lines = split_newline text
            in if 1 < length lines \<and> last lines = [] then butlast lines else lines))"

definition countLines :: "ustring \<Rightarrow> nat" where
  "countLines text = length (splitLines text)"

definition MAX_LCS_CELLS :: nat where "MAX_LCS_CELLS = 40000000"
definition MAX_RENDERED_DIFF_LINES :: nat where "MAX_RENDERED_DIFF_LINES = 20000"
definition MAX_RENDERED_DIFF_CELLS :: nat where "MAX_RENDERED_DIFF_CELLS = 4000000"

datatype diff_row =
    Context nat nat ustring   \<comment> \<open>old and new line number, counted from 1\<close>
  | Added nat ustring
  | Removed nat ustring

record line_diff =
  ld_rows :: "diff_row list"
  ld_insertions :: nat
  ld_deletions :: nat

datatype diff_too_large = TooManyLines nat | TooManyCells nat

definition assertRenderableLineDiff :: "nat \<Rightarrow> nat \<Rightarrow> diff_too_large + unit" where
  "assertRenderableLineDiff oldLines newLines =
     (if oldLines + newLines > MAX_RENDERED_DIFF_LINES then Inl (TooManyLines (oldLines + newLines))
      else if oldLines * newLines > MAX_RENDERED_DIFF_CELLS then Inl (TooManyCells (oldLines * newLines))
      else Inr ())"

subsection \<open>Counts\<close>

text \<open>The inner loop: the row of line \<open>ai\<close> from the row below it, right to left.\<close>

definition lcs_row :: "'a \<Rightarrow> 'a list \<Rightarrow> nat list \<Rightarrow> nat list \<Rightarrow> nat list" where
  "lcs_row ai b prev row =
     fold (\<lambda>j row. row[j := if ai = b ! j then prev ! (j + 1) + 1 else max (prev ! j) (row ! (j + 1))])
       (rev [0..<length b]) row"

definition lcs_count :: "'a list \<Rightarrow> 'a list \<Rightarrow> nat" where
  "lcs_count a b =
     fold (\<lambda>i prev. lcs_row (a ! i) b prev (replicate (length b + 1) 0)) (rev [0..<length a])
       (replicate (length b + 1) 0) ! 0"

definition countLineDiff :: "ustring \<Rightarrow> ustring \<Rightarrow> (nat \<times> nat) option" where
  "countLineDiff oldText newText =
     (let a = splitLines oldText; b = splitLines newText
      in if length a * length b > MAX_LCS_CELLS then None
         else (let lcs = lcs_count a b in Some (length b - lcs, length a - lcs)))"

subsection \<open>Rows\<close>

definition lcs_table :: "'a list \<Rightarrow> 'a list \<Rightarrow> nat list list" where
  "lcs_table a b =
     fold (\<lambda>i t. t[i := lcs_row (a ! i) b (t ! (i + 1)) (t ! i)]) (rev [0..<length a])
       (replicate (length a + 1) (replicate (length b + 1) 0))"

function diff_walk :: "ustring list \<Rightarrow> ustring list \<Rightarrow> nat list list \<Rightarrow> nat \<Rightarrow> nat \<Rightarrow> line_diff \<Rightarrow> line_diff" where
  "diff_walk a b lcs i j d =
     (if i < length a \<and> j < length b
      then if a ! i = b ! j
           then diff_walk a b lcs (i + 1) (j + 1) (d\<lparr>ld_rows := ld_rows d @ [Context (i + 1) (j + 1) (a ! i)]\<rparr>)
           else if lcs ! (i + 1) ! j \<ge> lcs ! i ! (j + 1)
           then diff_walk a b lcs (i + 1) j
                  (d\<lparr>ld_rows := ld_rows d @ [Removed (i + 1) (a ! i)], ld_deletions := ld_deletions d + 1\<rparr>)
           else diff_walk a b lcs i (j + 1)
                  (d\<lparr>ld_rows := ld_rows d @ [Added (j + 1) (b ! j)], ld_insertions := ld_insertions d + 1\<rparr>)
      else if i < length a
      then diff_walk a b lcs (i + 1) j
             (d\<lparr>ld_rows := ld_rows d @ [Removed (i + 1) (a ! i)], ld_deletions := ld_deletions d + 1\<rparr>)
      else if j < length b
      then diff_walk a b lcs i (j + 1)
             (d\<lparr>ld_rows := ld_rows d @ [Added (j + 1) (b ! j)], ld_insertions := ld_insertions d + 1\<rparr>)
      else d)"
  by pat_completeness auto
termination by (relation "measure (\<lambda>(a, b, lcs, i, j, d). (length a - i) + (length b - j))") auto

declare diff_walk.simps [simp del]

definition no_rows :: line_diff where
  "no_rows = \<lparr>ld_rows = [], ld_insertions = 0, ld_deletions = 0\<rparr>"

definition diffLines :: "ustring \<Rightarrow> ustring \<Rightarrow> diff_too_large + line_diff" where
  "diffLines oldText newText =
     (let a = (if oldText = [] then [] else splitLines oldText);
          b = (if newText = [] then [] else splitLines newText)
      in case assertRenderableLineDiff (length a) (length b) of
           Inl e \<Rightarrow> Inl e
         | Inr _ \<Rightarrow> Inr (diff_walk a b (lcs_table a b) 0 0 no_rows))"

definition allAdded :: "ustring \<Rightarrow> diff_too_large + line_diff" where
  "allAdded newText =
     (let lines = splitLines newText
      in case assertRenderableLineDiff 0 (length lines) of
           Inl e \<Rightarrow> Inl e
         | Inr _ \<Rightarrow> Inr \<lparr>ld_rows = map (\<lambda>(n, t). Added (n + 1) t) (enumerate 0 lines),
             ld_insertions = (if newText = [] then 0 else length lines), ld_deletions = 0\<rparr>)"

definition allRemoved :: "ustring \<Rightarrow> diff_too_large + line_diff" where
  "allRemoved oldText =
     (let lines = splitLines oldText
      in case assertRenderableLineDiff (length lines) 0 of
           Inl e \<Rightarrow> Inl e
         | Inr _ \<Rightarrow> Inr \<lparr>ld_rows = map (\<lambda>(n, t). Removed (n + 1) t) (enumerate 0 lines),
             ld_insertions = 0, ld_deletions = (if oldText = [] then 0 else length lines)\<rparr>)"

subsection \<open>The longest common subsequence\<close>

fun LCS :: "'a list \<Rightarrow> 'a list \<Rightarrow> nat" where
  "LCS (x # xs) (y # ys) = (if x = y then LCS xs ys + 1 else max (LCS xs (y # ys)) (LCS (x # xs) ys))"
| "LCS _ _ = 0"

lemma LCS_Nil [simp]: "LCS xs [] = 0" "LCS [] ys = 0"
  by (cases xs) simp_all


lemma LCS_le: "LCS xs ys \<le> length xs" "LCS xs ys \<le> length ys"
  by (induction xs ys rule: LCS.induct) auto

lemma LCS_nth:
  "i < length a \<Longrightarrow> j < length b \<Longrightarrow> LCS (drop i a) (drop j b) =
     (if a ! i = b ! j then LCS (drop (i + 1) a) (drop (j + 1) b) + 1
      else max (LCS (drop (i + 1) a) (drop j b)) (LCS (drop i a) (drop (j + 1) b)))"
  by (simp add: Cons_nth_drop_Suc [symmetric])

lemma lcs_row_correct:
  assumes "length row = length b + 1" and "row ! length b = 0" and "i < length a"
    and "\<forall>j \<le> length b. prev ! j = LCS (drop (i + 1) a) (drop j b)"
  shows "length (lcs_row (a ! i) b prev row) = length b + 1 \<and>
    (\<forall>j \<le> length b. lcs_row (a ! i) b prev row ! j = LCS (drop i a) (drop j b))"
proof -
  have "length (lcs_row (a ! i) b prev row) = length b + 1 \<and>
      (\<forall>j \<ge> 0. j \<le> length b \<longrightarrow> lcs_row (a ! i) b prev row ! j = LCS (drop i a) (drop j b))"
    unfolding lcs_row_def
  proof (rule fold_down [where P = "\<lambda>k r. length r = length b + 1 \<and>
      (\<forall>j \<ge> k. j \<le> length b \<longrightarrow> r ! j = LCS (drop i a) (drop j b))"])
    show "length row = length b + 1 \<and> (\<forall>j \<ge> length b. j \<le> length b \<longrightarrow> row ! j = LCS (drop i a) (drop j b))"
      using assms(1,2) by (auto simp: le_antisym)
    fix k r
    assume k: "k < length b" and IH: "length r = length b + 1 \<and>
      (\<forall>j \<ge> Suc k. j \<le> length b \<longrightarrow> r ! j = LCS (drop i a) (drop j b))"
    let ?v = "if a ! i = b ! k then prev ! (k + 1) + 1 else max (prev ! k) (r ! (k + 1))"
    have "?v = LCS (drop i a) (drop k b)"
      using LCS_nth [OF assms(3) k] assms(4) IH k by simp
    then show "length (r[k := ?v]) = length b + 1 \<and>
        (\<forall>j \<ge> k. j \<le> length b \<longrightarrow> r[k := ?v] ! j = LCS (drop i a) (drop j b))"
      using IH k by (auto simp: nth_list_update le_Suc_eq dest!: le_neq_implies_less [of k] Suc_leI)
  qed
  then show ?thesis by simp
qed

declare replicate_Suc [simp del]

lemma lcs_count_correct: "lcs_count a b = LCS a b"
proof -
  let ?f = "\<lambda>i prev. lcs_row (a ! i) b prev (replicate (length b + 1) 0)"
  have "\<forall>j \<le> length b. fold ?f (rev [0..<length a]) (replicate (length b + 1) 0) ! j = LCS (drop 0 a) (drop j b)"
  proof (rule fold_down [where P = "\<lambda>i r. \<forall>j \<le> length b. r ! j = LCS (drop i a) (drop j b)"])
    show "\<forall>j \<le> length b. replicate (length b + 1) 0 ! j = LCS (drop (length a) a) (drop j b)" by simp
    show "\<forall>j \<le> length b. ?f k prev ! j = LCS (drop k a) (drop j b)"
      if "k < length a" "\<forall>j \<le> length b. prev ! j = LCS (drop (Suc k) a) (drop j b)" for k prev
      using lcs_row_correct [of "replicate (length b + 1) 0" b k a prev] that by simp
  qed
  then show ?thesis by (simp add: lcs_count_def)
qed


declare replicate_Suc [simp]

subsection \<open>What the rows say\<close>

















section \<open>Properties\<close>




text \<open>
  C2. The gate and the review disagree on an empty file: its one empty line counts as deleted
  when it is filled, while the rows of the same change show insertions only.
\<close>

theorem empty_file_counts_disagree:
  "countLineDiff [] (ascii ''x'') = Some (1, 1) \<and>
   (\<exists>d. diffLines [] (ascii ''x'') = Inr d \<and> ld_insertions d = 1 \<and> ld_deletions d = 0)"
  by (simp add: countLineDiff_def lcs_count_correct diffLines_def Let_def splitLines_def newline_def
      assertRenderableLineDiff_def MAX_RENDERED_DIFF_LINES_def MAX_RENDERED_DIFF_CELLS_def MAX_LCS_CELLS_def
      ascii_def diff_walk.simps no_rows_def)

end
