(* ===== verification/SharedJson.thy ===== *)
theory SharedJson
  imports CanonicalJson
begin

text \<open>
  The canonical JSON under authority digests (\<^verbatim>\<open>packages/shared/src/canonicalJson.ts\<close>): strings and
  keys in Unicode normal form, keys in the order of their UTF-8 bytes, refusals for what JSON
  cannot say, and the schema of values that cross a boundary
  (\<^verbatim>\<open>packages/shared/src/wireValues.ts\<close>). Unicode normalization is a parameter of the runtime.
  A value is a tree here, so the check for cycles never fires. The two zeros of the language are
  one number: both this code and \<open>JSON.stringify\<close> write them alike.
\<close>

subsection \<open>Normal form\<close>

datatype json_error = NonFiniteNumber | KeyCollision ustring | UndefinedRoot

text \<open>The text of a number, \<open>None\<close> when it is not finite; the normal form NFC; integers as numbers.\<close>

record 'n json_env =
  je_text :: "'n \<Rightarrow> ustring option"
  je_nfc :: "ustring \<Rightarrow> ustring"
  je_int :: "int \<Rightarrow> 'n"

text \<open>\<open>compareUtf8\<close>: the first differing byte decides, then the length.\<close>

fun compare_bytes :: "byte list \<Rightarrow> byte list \<Rightarrow> int" where
  "compare_bytes (a # as) (b # bs) = (if a \<noteq> b then uint a - uint b else compare_bytes as bs)"
| "compare_bytes as bs = int (length as) - int (length bs)"

definition compareUtf8 :: "ustring \<Rightarrow> ustring \<Rightarrow> int" where
  "compareUtf8 l r = compare_bytes (utf8 l) (utf8 r)"

definition sort_bytes :: "(ustring \<times> 'v) list \<Rightarrow> (ustring \<times> 'v) list" where
  "sort_bytes fs = sort_key (\<lambda>f. utf8 (fst f)) fs"

text \<open>The values of a list of results, or its first error.\<close>

fun all_ok :: "('e + 'a) list \<Rightarrow> 'e + 'a list" where
  "all_ok [] = Inr []"
| "all_ok (r # rs) =
     (case r of
        Inl e \<Rightarrow> Inl e
      | Inr a \<Rightarrow> (case all_ok rs of Inl e \<Rightarrow> Inl e | Inr as \<Rightarrow> Inr (a # as)))"

definition defined_or_null :: "'n json \<Rightarrow> 'n json" where
  "defined_or_null v = (if v = JUndefined then JNull else v)"

text \<open>The loop over the sorted keys: a key that the copy already has is a collision.\<close>

fun normalize_fields :: "(ustring \<times> (json_error + 'n json)) list \<Rightarrow> (ustring \<times> 'n json) list \<Rightarrow>
    json_error + (ustring \<times> 'n json) list" where
  "normalize_fields [] result = Inr result"
| "normalize_fields (f # fs) result =
     (if fst f \<in> fst ` set result then Inl (KeyCollision (fst f))
      else case snd f of
        Inl e \<Rightarrow> Inl e
      | Inr v \<Rightarrow> normalize_fields fs (if v = JUndefined then result else assign result (fst f, v)))"

primrec normalize_json :: "'n json_env \<Rightarrow> 'n json \<Rightarrow> json_error + 'n json" where
  "normalize_json env JUndefined = Inr JUndefined"
| "normalize_json env JNull = Inr JNull"
| "normalize_json env (JBool b) = Inr (JBool b)"
| "normalize_json env (JNumber n) = (if je_text env n = None then Inl NonFiniteNumber else Inr (JNumber n))"
| "normalize_json env (JString s) = Inr (JString (je_nfc env s))"
| "normalize_json env (JArray vs) =
     (case all_ok (map (normalize_json env) vs) of
        Inl e \<Rightarrow> Inl e
      | Inr ws \<Rightarrow> Inr (JArray (map defined_or_null ws)))"
| "normalize_json env (JObject fs) =
     (case normalize_fields (sort_bytes (map (map_prod (je_nfc env) (\<lambda>r. r))
         (own_order (map (map_prod (\<lambda>k. k) (normalize_json env)) fs)))) [] of
        Inl e \<Rightarrow> Inl e
      | Inr gs \<Rightarrow> Inr (JObject gs))"

definition number_text_of :: "'n json_env \<Rightarrow> 'n \<Rightarrow> ustring" where
  "number_text_of env n = (case je_text env n of None \<Rightarrow> ascii ''null'' | Some t \<Rightarrow> t)"

definition sharedCanonicalJson :: "'n json_env \<Rightarrow> 'n json \<Rightarrow> json_error + ustring" where
  "sharedCanonicalJson env v =
     (case normalize_json env v of
        Inl e \<Rightarrow> Inl e
      | Inr w \<Rightarrow> (case stringify (number_text_of env) w of None \<Rightarrow> Inl UndefinedRoot | Some t \<Rightarrow> Inr t))"

text \<open>\<open>JsonValueSchema\<close>.\<close>

primrec json_value :: "'n json_env \<Rightarrow> 'n json \<Rightarrow> bool" where
  "json_value env JUndefined \<longleftrightarrow> False"
| "json_value env JNull \<longleftrightarrow> True"
| "json_value env (JBool b) \<longleftrightarrow> True"
| "json_value env (JNumber n) \<longleftrightarrow> je_text env n \<noteq> None"
| "json_value env (JString s) \<longleftrightarrow> True"
| "json_value env (JArray vs) \<longleftrightarrow> list_all id (map (json_value env) vs)"
| "json_value env (JObject fs) \<longleftrightarrow> list_all snd (map (map_prod (\<lambda>k. k) (json_value env)) fs)"

text \<open>\<open>JSON.parse(JSON.stringify(v))\<close>.\<close>

primrec reparse :: "'n json_env \<Rightarrow> 'n json \<Rightarrow> 'n json" where
  "reparse env JUndefined = JUndefined"
| "reparse env JNull = JNull"
| "reparse env (JBool b) = JBool b"
| "reparse env (JNumber n) = (if je_text env n = None then JNull else JNumber n)"
| "reparse env (JString s) = JString s"
| "reparse env (JArray vs) = JArray (map defined_or_null (map (reparse env) vs))"
| "reparse env (JObject fs) =
     JObject (own_order (filter (\<lambda>f. snd f \<noteq> JUndefined) (map (map_prod (\<lambda>k. k) (reparse env)) fs)))"

text \<open>What is documented of NFC, and that integers are finite numbers.\<close>

definition env_laws :: "'n json_env \<Rightarrow> bool" where
  "env_laws env \<longleftrightarrow> (\<forall>s. je_nfc env (je_nfc env s) = je_nfc env s) \<and>
     (\<forall>s. je_nfc env (ascii s) = ascii s) \<and> (\<forall>n. je_text env (je_int env n) \<noteq> None)"

text \<open>Numbers without infinities and strings already in normal form.\<close>

definition plain_env :: "int json_env" where
  "plain_env = \<lparr>je_text = (\<lambda>n. Some (decimal n)), je_nfc = (\<lambda>s. s), je_int = (\<lambda>n. n)\<rparr>"

lemma plain_env_laws: "env_laws plain_env"
  by (simp add: env_laws_def plain_env_def)

subsection \<open>The order of keys\<close>

lemma compare_bytes_less: "compare_bytes as bs < 0 \<longleftrightarrow> as < bs"
proof -
  have empty_less: "[] < cs" if "cs \<noteq> []" for cs :: "byte list" using that by (cases cs) simp_all
  show ?thesis
    by (induction as bs rule: compare_bytes.induct) (auto simp: word_less_def intro: empty_less)
qed

lemma compare_bytes_zero: "compare_bytes as bs = 0 \<longleftrightarrow> as = bs"
  by (induction as bs rule: compare_bytes.induct) (auto simp: word_uint_eq_iff)

lemma sort_bytes_sorted: "sorted_wrt (\<lambda>f g. compareUtf8 (fst f) (fst g) \<le> 0) (sort_bytes fs)"
proof -
  have "compareUtf8 a b \<le> 0 \<longleftrightarrow> utf8 a \<le> utf8 b" for a b
    using compare_bytes_less [of "utf8 a" "utf8 b"] compare_bytes_zero [of "utf8 a" "utf8 b"]
    by (auto simp: compareUtf8_def order_le_less)
  then show ?thesis
    using sorted_sort_key [of "\<lambda>f. utf8 (fst f)" fs] by (simp add: sort_bytes_def sorted_map)
qed

lemma sort_bytes_map [simp]: "sort_bytes (map (map_prod (\<lambda>k. k) f) fs) = map (map_prod (\<lambda>k. k) f) (sort_bytes fs)"
proof (induction fs)
  case (Cons x fs)
  have "insort_key (\<lambda>f. utf8 (fst f)) (map_prod (\<lambda>k. k) f x) (map (map_prod (\<lambda>k. k) f) ys) =
      map (map_prod (\<lambda>k. k) f) (insort_key (\<lambda>f. utf8 (fst f)) x ys)" for ys
    by (induction ys) auto
  then show ?case using Cons by (simp add: sort_bytes_def)
qed (simp add: sort_bytes_def)

lemma own_order_idem [simp]: "own_order (own_order fs) = own_order fs"
  by (simp add: own_order_def filter_sort [symmetric] sort_key_id_if_sorted)

lemma digits_ascii: "array_index k \<Longrightarrow> well_formed k \<and> 0xFFFD \<notin> set (scalar_values k)"
proof -
  have "\<forall>u \<in> set k. 48 \<le> u \<and> u \<le> 57 \<Longrightarrow> ?thesis"
    by (induction k rule: well_formed.induct)
      (auto simp: high_surrogate_def low_surrogate_def word_le_nat_alt)
  then show "array_index k \<Longrightarrow> ?thesis" by (auto simp: array_index_def)
qed

lemma well_formed_if: "0xFFFD \<notin> set (scalar_values s) \<Longrightarrow> well_formed s"
  by (induction s rule: scalar_values.induct) (auto split: if_splits)

lemma same_bytes_digits: "array_index k \<Longrightarrow> utf8 l = utf8 k \<Longrightarrow> l = k"
  using digits_ascii [of k] well_formed_if [of l] utf8_inject [of l k] by (simp add: utf8_scalar_values)

lemma own_order_same_bytes: "(\<And>f. f \<in> set fs \<Longrightarrow> utf8 (fst f) = c) \<Longrightarrow> own_order fs = fs"
proof (cases "\<exists>f \<in> set fs. array_index (fst f)")
  case True
  then obtain g where g: "g \<in> set fs" "array_index (fst g)" by blast
  assume c: "\<And>f. f \<in> set fs \<Longrightarrow> utf8 (fst f) = c"
  have same: "fst f = fst g" if "f \<in> set fs" for f
    using same_bytes_digits [OF g(2), of "fst f"] c [OF that] c [OF g(1)] by simp
  then have "filter (\<lambda>f. array_index (fst f)) fs = fs" "filter (\<lambda>f. \<not> array_index (fst f)) fs = []"
    using g(2) by (auto simp: filter_id_conv filter_empty_conv)
  moreover have "sorted (map (\<lambda>f. decimal_value (fst f)) fs)"
    using same by (auto simp: sorted_iff_nth_mono)
  ultimately show ?thesis by (simp add: own_order_def sort_key_id_if_sorted)
next
  case False
  then show ?thesis by (simp add: own_order_def filter_empty_conv filter_id_conv)
qed

lemma filter_own_order: "filter P (own_order fs) = own_order (filter P fs)"
  by (simp add: own_order_def filter_sort conj_commute)

lemma sort_bytes_own_order:
  assumes "sorted (map (\<lambda>f. utf8 (fst f)) fs)"
  shows "sort_bytes (own_order fs) = fs"
  unfolding sort_bytes_def
proof (rule properties_for_sort_key)
  show "mset fs = mset (own_order fs)" by simp
  show "filter (\<lambda>x. utf8 (fst f) = utf8 (fst x)) fs = filter (\<lambda>x. utf8 (fst f) = utf8 (fst x)) (own_order fs)"
    if "f \<in> set fs" for f
    unfolding filter_own_order by (rule own_order_same_bytes [of _ "utf8 (fst f)", symmetric]) auto
qed (rule assms)

subsection \<open>A normal form is stable\<close>

lemma all_ok_Inr: "all_ok rs = Inr as \<longleftrightarrow> rs = map Inr as"
proof
  show "all_ok rs = Inr as \<Longrightarrow> rs = map Inr as"
    by (induction rs arbitrary: as) (auto split: sum.splits)
  have "all_ok (map Inr xs) = Inr xs" for xs :: "'b list" by (induction xs) auto
  then show "rs = map Inr as \<Longrightarrow> all_ok rs = Inr as" by simp
qed

text \<open>What the loop over the keys takes over: present values, the setter key apart.\<close>

definition taken_fields :: "(ustring \<times> 'n json) list \<Rightarrow> (ustring \<times> 'n json) list" where
  "taken_fields fs = filter (\<lambda>f. snd f \<noteq> JUndefined \<and> fst f \<noteq> proto_key) fs"

lemma normalize_fields_result:
  "normalize_fields rs acc = Inr out \<Longrightarrow>
     \<exists>fs. rs = map (map_prod (\<lambda>k. k) Inr) fs \<and> out = acc @ taken_fields fs \<and>
       (distinct (map fst acc) \<longrightarrow> distinct (map fst out))"
proof (induction rs acc rule: normalize_fields.induct)
  case (2 f rs acc)
  obtain v where v: "snd f = Inr v" "fst f \<notin> fst ` set acc"
    using "2.prems" by (auto split: if_splits sum.splits)
  let ?acc = "if v = JUndefined then acc else assign acc (fst f, v)"
  have acc: "?acc = acc @ taken_fields [(fst f, v)]"
    using v(2) by (simp add: assign_def jset_fresh taken_fields_def)
  obtain fs where fs: "rs = map (map_prod (\<lambda>k. k) Inr) fs" "out = ?acc @ taken_fields fs"
      "distinct (map fst ?acc) \<longrightarrow> distinct (map fst out)"
    using "2.IH" [OF v(2,1)] "2.prems" v by auto
  have "distinct (map fst acc) \<longrightarrow> distinct (map fst ?acc)"
    using v(2) by (simp add: acc taken_fields_def image_iff)
  then show ?case
    using fs acc v by (intro exI [of _ "(fst f, v) # fs"]) (auto simp: taken_fields_def prod_eq_iff)
qed (simp add: taken_fields_def)

lemma normalize_fields_taken:
  "distinct (map fst (acc @ fs)) \<Longrightarrow> taken_fields fs = fs \<Longrightarrow>
     normalize_fields (map (map_prod (\<lambda>k. k) Inr) fs) acc = Inr (acc @ fs)"
proof (induction fs arbitrary: acc)
  case (Cons f fs)
  have f: "snd f \<noteq> JUndefined" "fst f \<noteq> proto_key" "taken_fields fs = fs"
    using Cons.prems(2) unfolding taken_fields_def filter_id_conv by simp_all
  moreover from this have "assign acc f = acc @ [f]"
    using Cons.prems(1) by (cases f) (auto simp: assign_def jset_fresh)
  ultimately show ?case
    using Cons.IH [of "acc @ [f]"] Cons.prems(1) by (cases f) auto
qed simp

lemma map_fst_map_prod [simp]: "map fst (map (map_prod f g) fs) = map f (map fst fs)"
  by simp

lemma own_order_values: "own_order (map (map_prod (\<lambda>k. k) f) fs) = map (map_prod (\<lambda>k. k) f) (own_order fs)"
  by (rule own_order_map)

lemma normalize_json_stable:
  assumes "\<And>s. je_nfc env (je_nfc env s) = je_nfc env s"
  shows "normalize_json env v = Inr w \<Longrightarrow> normalize_json env (reparse env w) = Inr w \<and> (w = JUndefined \<longleftrightarrow> v = JUndefined)"
proof (induction v arbitrary: w)
  case (JArray vs)
  obtain ws where ws: "map (normalize_json env) vs = map Inr ws" "w = JArray (map defined_or_null ws)"
    using JArray.prems by (auto simp: all_ok_Inr split: sum.splits)
  have len: "length ws = length vs" using ws(1) by (rule map_eq_imp_length_eq [symmetric])
  have each: "normalize_json env (reparse env (defined_or_null (ws ! i))) = Inr (defined_or_null (ws ! i)) \<and>
      defined_or_null (reparse env (defined_or_null (ws ! i))) = reparse env (defined_or_null (ws ! i))"
    if i: "i < length ws" for i
  proof -
    have "normalize_json env (vs ! i) = Inr (ws ! i)"
      using arg_cong [OF ws(1), of "\<lambda>xs. xs ! i"] i len by simp
    then have "normalize_json env (reparse env (ws ! i)) = Inr (ws ! i)"
      using JArray.IH [of "vs ! i"] i len by simp
    then show ?thesis by (cases "ws ! i") (auto simp: defined_or_null_def split: if_splits)
  qed
  have "map (normalize_json env) (map defined_or_null (map (reparse env) (map defined_or_null ws))) =
      map Inr (map defined_or_null ws)"
    using each by (intro nth_equalityI) auto
  then have "all_ok (map (normalize_json env) (map defined_or_null (map (reparse env) (map defined_or_null ws)))) =
      Inr (map defined_or_null ws)"
    by (simp only: all_ok_Inr)
  moreover have "map defined_or_null (map defined_or_null ws) = map defined_or_null ws"
    by (simp add: defined_or_null_def)
  ultimately show ?case by (simp add: ws(2) del: map_map)
next
  case (JObject fs)
  let ?g = "map_prod (je_nfc env) (\<lambda>r. r)"
  let ?rs = "sort_bytes (map ?g (own_order (map (map_prod (\<lambda>k. k) (normalize_json env)) fs)))"
  obtain gs where gs: "normalize_fields ?rs [] = Inr gs" "w = JObject gs"
    using JObject.prems by (auto split: sum.splits)
  obtain hs where hs: "?rs = map (map_prod (\<lambda>k. k) Inr) hs" "gs = taken_fields hs" "distinct (map fst gs)"
    using normalize_fields_result [OF gs(1)] by auto
  have child: "je_nfc env k = k \<and> normalize_json env (reparse env x) = Inr x \<and> reparse env x \<noteq> JUndefined"
    if "(k, x) \<in> set gs" for k x
  proof -
    have "(k, x) \<in> set hs" using that by (simp add: hs(2) taken_fields_def)
    then have "(k, Inr x) \<in> set ?rs" unfolding hs(1) by force
    then obtain k' v where kv: "(k', v) \<in> set fs" "k = je_nfc env k'" "normalize_json env v = Inr x"
      by (auto simp: sort_bytes_def)
    moreover have "x \<noteq> JUndefined" using that hs(2) by (auto simp: taken_fields_def)
    moreover have "normalize_json env (reparse env x) = Inr x" using JObject.IH [of "(k', v)" v x] kv by simp
    ultimately show ?thesis using assms [of k'] by (cases x) auto
  qed
  have "map (map_prod (\<lambda>k. k) (normalize_json env)) (map (map_prod (\<lambda>k. k) (reparse env)) (own_order gs)) =
      map (map_prod (\<lambda>k. k) Inr) (own_order gs)" using child by auto
  moreover have "filter (\<lambda>f. snd f \<noteq> JUndefined) (map (map_prod (\<lambda>k. k) (reparse env)) gs) =
      map (map_prod (\<lambda>k. k) (reparse env)) gs" using child by (auto simp: filter_id_conv)
  moreover have "map ?g (map (map_prod (\<lambda>k. k) (Inr :: 'a json \<Rightarrow> json_error + 'a json)) (own_order gs)) = map (map_prod (\<lambda>k. k) Inr) (own_order gs)"
    using child by (auto simp: map_idI)
  ultimately have again: "sort_bytes (map ?g (own_order (map (map_prod (\<lambda>k. k) (normalize_json env))
      (own_order (filter (\<lambda>f. snd f \<noteq> JUndefined) (map (map_prod (\<lambda>k. k) (reparse env)) gs)))))) =
      map (map_prod (\<lambda>k. k) Inr) (sort_bytes (own_order gs))"
    by (simp add: own_order_values del: map_map)
  have "sorted (map (\<lambda>f. utf8 (fst f)) ?rs)" by (simp add: sort_bytes_def)
  then have "sorted (map (\<lambda>f. utf8 (fst f)) hs)" by (simp add: hs(1) comp_def)
  then have "sorted (map (\<lambda>f. utf8 (fst f)) gs)" by (simp add: hs(2) taken_fields_def sorted_filter)
  moreover have "taken_fields gs = gs" by (simp add: hs(2) taken_fields_def)
  ultimately show ?case
    using again hs(3) by (simp add: gs(2) sort_bytes_own_order normalize_fields_taken)
qed (auto simp: assms split: if_splits)

text \<open>What is stored as text and read back has the same canonical text.\<close>

lemma normalize_reparse: "json_value env v \<Longrightarrow> normalize_json env (reparse env v) = normalize_json env v \<and> reparse env v \<noteq> JUndefined"
proof (induction v)
  case (JArray vs)
  then have "map (normalize_json env) (map defined_or_null (map (reparse env) vs)) = map (normalize_json env) vs"
    by (auto simp: list_all_iff defined_or_null_def)
  then show ?case by (simp del: map_map)
next
  case (JObject fs)
  then have child: "normalize_json env (reparse env (snd f)) = normalize_json env (snd f) \<and> reparse env (snd f) \<noteq> JUndefined"
    if "f \<in> set fs" for f using that by (cases f) (auto simp: list_all_iff)
  then have "filter (\<lambda>f. snd f \<noteq> JUndefined) (map (map_prod (\<lambda>k. k) (reparse env)) fs) = map (map_prod (\<lambda>k. k) (reparse env)) fs"
    by (auto simp: filter_id_conv)
  moreover have "map (map_prod (\<lambda>k. k) (normalize_json env)) (map (map_prod (\<lambda>k. k) (reparse env)) fs) =
      map (map_prod (\<lambda>k. k) (normalize_json env)) fs" using child by auto
  ultimately show ?case
    by (simp only: reparse.simps normalize_json.simps own_order_values own_order_idem) (simp add: own_order_values [symmetric] del: map_map)
qed auto

lemma json_value_reparse: "json_value env v \<Longrightarrow> json_value env (reparse env v)"
proof (induction v)
  case (JArray vs)
  then show ?case by (auto simp: list_all_iff defined_or_null_def)
next
  case (JObject fs)
  then show ?case by (fastforce simp: list_all_iff)
qed auto

text \<open>A normal form is a value of the schema.\<close>

lemma normalize_value: "normalize_json env v = Inr w \<Longrightarrow> w \<noteq> JUndefined \<Longrightarrow> json_value env w"
proof (induction v arbitrary: w)
  case (JArray vs)
  obtain ws where ws: "map (normalize_json env) vs = map Inr ws" "w = JArray (map defined_or_null ws)"
    using JArray.prems by (auto simp: all_ok_Inr split: sum.splits)
  have "json_value env (defined_or_null x)" if x: "x \<in> set ws" for x
  proof -
    have "Inr x \<in> normalize_json env ` set vs" using x ws(1) by (metis imageI set_map)
    then obtain v where "v \<in> set vs" "normalize_json env v = Inr x" by (metis imageE)
    then show ?thesis using JArray.IH [of v x] by (cases "x = JUndefined") (simp_all add: defined_or_null_def)
  qed
  then show ?case by (simp add: ws(2) list_all_iff)
next
  case (JObject fs)
  let ?rs = "sort_bytes (map (map_prod (je_nfc env) (\<lambda>r. r)) (own_order (map (map_prod (\<lambda>k. k) (normalize_json env)) fs)))"
  obtain gs where gs: "normalize_fields ?rs [] = Inr gs" "w = JObject gs"
    using JObject.prems by (auto split: sum.splits)
  obtain hs where hs: "?rs = map (map_prod (\<lambda>k. k) Inr) hs" "gs = taken_fields hs"
    using normalize_fields_result [OF gs(1)] by auto
  have "json_value env x" if kx: "(k, x) \<in> set gs" for k x
  proof -
    have "(k, x) \<in> set hs" "x \<noteq> JUndefined" using kx by (auto simp: hs(2) taken_fields_def)
    then have "(k, Inr x) \<in> set ?rs" unfolding hs(1) by force
    then obtain k' v where "(k', v) \<in> set fs" "normalize_json env v = Inr x" by (auto simp: sort_bytes_def)
    then show ?thesis using JObject.IH [of "(k', v)" v x] \<open>x \<noteq> JUndefined\<close> by simp
  qed
  then show ?case by (auto simp: gs(2) list_all_iff)
qed (auto split: if_splits)

lemma canonical_normal: "normalize_json env v = normalize_json env w \<Longrightarrow> sharedCanonicalJson env v = sharedCanonicalJson env w"
  by (simp add: sharedCanonicalJson_def)

lemma normalize_object:
  "map (map_prod (\<lambda>k. k) (normalize_json env)) fs = map (map_prod (\<lambda>k. k) (normalize_json env)) gs \<Longrightarrow>
   normalize_json env (JObject fs) = normalize_json env (JObject gs)"
  by simp

end
