(* ===== verification/TaskAuthority.thy ===== *)
theory TaskAuthority
  imports EntityCache Worktree SharedJson
begin

text \<open>
  Task authority of runtimes (\<^verbatim>\<open>src/server/services/taskAuthorityRegistry.ts\<close>) over the entity
  cache, and the trajectory coordinates of a channel
  (\<^verbatim>\<open>packages/trajectory-identity/src/index.ts\<close>). Runtime ids are byte strings, as in the
  cache; workspace, context, channel and log ids are strings of code units. A principal is the
  hash of the canonical JSON of \<^verbatim>\<open>packages/shared/src/canonicalJson.ts\<close> (\<open>SharedJson\<close>), which
  normalizes strings: the normal form is the parameter \<open>env\<close>, and \<open>env_laws\<close> what is documented
  of it. Node's hash is SHA-256 as the content addressing computes it.
\<close>

subsection \<open>Trajectory coordinates\<close>

datatype trajectory_error = EmptyChannelId | EmptyCoordinate string

definition requireChannelId :: "ustring \<Rightarrow> trajectory_error + unit" where
  "requireChannelId channelId = (if length channelId = 0 then Inl EmptyChannelId else Inr ())"

definition logIdForChannel :: "ustring \<Rightarrow> trajectory_error + ustring" where
  "logIdForChannel channelId = (case requireChannelId channelId of Inl e \<Rightarrow> Inl e | Inr _ \<Rightarrow> Inr channelId)"

definition headForChannel :: "ustring \<Rightarrow> trajectory_error + ustring" where
  "headForChannel channelId = (case requireChannelId channelId of Inl e \<Rightarrow> Inl e | Inr _ \<Rightarrow> Inr (ascii ''main''))"

record channel_trajectory =
  ct_channelId :: ustring
  ct_logId :: ustring
  ct_head :: ustring

definition channelTrajectoryFor :: "ustring \<Rightarrow> trajectory_error + channel_trajectory" where
  "channelTrajectoryFor channelId =
     (case logIdForChannel channelId of Inl e \<Rightarrow> Inl e
      | Inr logId \<Rightarrow> (case headForChannel channelId of Inl e \<Rightarrow> Inl e
         | Inr h \<Rightarrow> Inr \<lparr>ct_channelId = channelId, ct_logId = logId, ct_head = h\<rparr>))"

record invocation_coordinates =
  ic_logId :: ustring
  ic_head :: ustring
  ic_invocationId :: ustring

definition requireCoordinate :: "string \<Rightarrow> ustring \<Rightarrow> trajectory_error + unit" where
  "requireCoordinate name value = (if length value = 0 then Inl (EmptyCoordinate name) else Inr ())"

definition TRAJECTORY_INVOCATION_COMMAND_DOMAIN :: string where
  "TRAJECTORY_INVOCATION_COMMAND_DOMAIN = ''vibestudio/trajectory-invocation-command/v1''"

definition commandIdForTrajectoryInvocation :: "invocation_coordinates \<Rightarrow> trajectory_error + ustring" where
  "commandIdForTrajectoryInvocation c =
     (case requireCoordinate ''logId'' (ic_logId c) of Inl e \<Rightarrow> Inl e
      | Inr _ \<Rightarrow> (case requireCoordinate ''head'' (ic_head c) of Inl e \<Rightarrow> Inl e
      | Inr _ \<Rightarrow> (case requireCoordinate ''invocationId'' (ic_invocationId c) of Inl e \<Rightarrow> Inl e
      | Inr _ \<Rightarrow> Inr (ascii ''command:trajectory-invocation:'' @ stableSha256Hex (JArray
          [JString (ascii TRAJECTORY_INVOCATION_COMMAND_DOMAIN), JString (ic_logId c),
           JString (ic_head c), JString (ic_invocationId c)])))))"

subsection \<open>The registry\<close>

type_synonym authority = ustring

record task_binding =
  tb_workspaceId :: ustring
  tb_contextId :: ustring
  tb_channelId :: ustring

record task_registry =
  tr_members :: "(string, authority) jsmap"
  tr_executionRoots :: "(string, authority) jsmap"
  tr_bindings :: "(authority, task_binding) jsmap"

definition empty_registry :: task_registry where
  "empty_registry = \<lparr>tr_members = [], tr_executionRoots = [], tr_bindings = []\<rparr>"

datatype task_error =
    NoTaskAuthority string
  | BoundToAnother string
  | BindingMismatch authority
  | DifferentCoordinates authority
  | CausalMismatch
  | NotActiveInContext
  | NotOfTheChannel
  | NoTrajectory trajectory_error
  | NotCanonicalJson json_error

text \<open>What the registry reads of an admitted session, of a verified caller and of a causal parent.\<close>

record admission_fact =
  af_runtimeId :: string
  af_taskAuthority :: "authority option"
  af_agentEntityId :: "string option"

record task_caller =
  tc_runtimeId :: string
  tc_sessionAuthority :: "authority option"
  tc_taskAuthority :: "authority option"

record causal_parent =
  cp_logId :: ustring
  cp_head :: ustring

record agent_origin =
  ao_entityId :: string
  ao_contextId :: ustring
  ao_channelId :: ustring

definition TASK_AUTHORITY_DOMAIN :: ustring where
  "TASK_AUTHORITY_DOMAIN = ascii ''vibestudio:task-authority:v1'' @ [0]"

definition binding_json :: "task_binding \<Rightarrow> 'n json" where
  "binding_json b = JObject [(ascii ''workspaceId'', JString (tb_workspaceId b)),
     (ascii ''contextId'', JString (tb_contextId b)), (ascii ''channelId'', JString (tb_channelId b))]"

definition binding_text :: "'n json_env \<Rightarrow> task_binding \<Rightarrow> json_error + ustring" where
  "binding_text env b = sharedCanonicalJson env (binding_json b)"

definition taskAuthorityPrincipal :: "'n json_env \<Rightarrow> task_binding \<Rightarrow> json_error + authority" where
  "taskAuthorityPrincipal env input =
     (case binding_text env input of
        Inl e \<Rightarrow> Inl e
      | Inr t \<Rightarrow> Inr (ascii ''task:'' @ sha256Hex (utf8 TASK_AUTHORITY_DOMAIN @ utf8 t)))"

definition bindExecution :: "admission_fact \<Rightarrow> task_registry \<Rightarrow> task_registry \<times> (task_error + unit)" where
  "bindExecution session r =
     (case present (af_taskAuthority session) of
        None \<Rightarrow> (r, Inl (NoTaskAuthority (af_runtimeId session)))
      | Some a \<Rightarrow>
          (let finish = (\<lambda>r. (r\<lparr>tr_executionRoots := jset (af_runtimeId session) a (tr_executionRoots r),
                 tr_members := jset (af_runtimeId session) a (tr_members r)\<rparr>, Inr ()))
           in case present (af_agentEntityId session) of
                None \<Rightarrow> finish r
              | Some agentId \<Rightarrow>
                  (case present (map_of (tr_members r) agentId) of
                     Some existing \<Rightarrow>
                       if existing \<noteq> a then (r, Inl (BoundToAnother agentId))
                       else finish (r\<lparr>tr_members := jset agentId a (tr_members r)\<rparr>)
                   | None \<Rightarrow> finish (r\<lparr>tr_members := jset agentId a (tr_members r)\<rparr>))))"

definition rememberBinding ::
  "'n json_env \<Rightarrow> authority \<Rightarrow> task_binding \<Rightarrow> task_registry \<Rightarrow> task_registry \<times> (task_error + unit)" where
  "rememberBinding env a b r =
     (let set_it = (r\<lparr>tr_bindings := jset a b (tr_bindings r)\<rparr>, Inr ())
      in case map_of (tr_bindings r) a of
           None \<Rightarrow> set_it
         | Some existing \<Rightarrow>
             (case binding_text env existing of
                Inl e \<Rightarrow> (r, Inl (NotCanonicalJson e))
              | Inr old \<Rightarrow>
                  (case binding_text env b of
                     Inl e \<Rightarrow> (r, Inl (NotCanonicalJson e))
                   | Inr new \<Rightarrow> if old \<noteq> new then (r, Inl (DifferentCoordinates a)) else set_it)))"

definition bindPrincipal ::
  "'n json_env \<Rightarrow> authority \<Rightarrow> task_binding \<Rightarrow> task_registry \<Rightarrow> task_registry \<times> (task_error + unit)" where
  "bindPrincipal env a b r =
     (case taskAuthorityPrincipal env b of
        Inl e \<Rightarrow> (r, Inl (NotCanonicalJson e))
      | Inr p \<Rightarrow> if p \<noteq> a then (r, Inl (BindingMismatch a)) else rememberBinding env a b r)"

definition bindingFor :: "authority \<Rightarrow> task_registry \<Rightarrow> task_binding option" where
  "bindingFor a r = map_of (tr_bindings r) a"

definition bindCausalOrigin ::
  "authority \<Rightarrow> agent_origin \<Rightarrow> causal_parent \<Rightarrow> entity_cache \<Rightarrow> task_registry \<Rightarrow> task_registry \<times> (task_error + unit)" where
  "bindCausalOrigin a b parent c r =
     (case channelTrajectoryFor (ao_channelId b) of
        Inl e \<Rightarrow> (r, Inl (NoTrajectory e))
      | Inr expected \<Rightarrow>
          if cp_logId parent \<noteq> ct_logId expected \<or> cp_head parent \<noteq> ct_head expected then (r, Inl CausalMismatch)
          else (case resolveActive c (ao_entityId b) of
             None \<Rightarrow> (r, Inl NotActiveInContext)
           | Some entity \<Rightarrow>
               if contextId entity \<noteq> Some (ao_contextId b) then (r, Inl NotActiveInContext)
               else (case map_of (tr_bindings r) a of
                  None \<Rightarrow> (r, Inl NotOfTheChannel)
                | Some bound \<Rightarrow>
                    if tb_contextId bound \<noteq> ao_contextId b \<or> tb_channelId bound \<noteq> ao_channelId b
                    then (r, Inl NotOfTheChannel)
                    else (case present (map_of (tr_members r) (ao_entityId b)) of
                       Some existing \<Rightarrow>
                         if existing \<noteq> a then (r, Inl (BoundToAnother (ao_entityId b)))
                         else (r\<lparr>tr_members := jset (ao_entityId b) a (tr_members r)\<rparr>, Inr ())
                     | None \<Rightarrow> (r\<lparr>tr_members := jset (ao_entityId b) a (tr_members r)\<rparr>, Inr ())))))"

text \<open>
  The loop over the roots: inactive roots of the authority are deleted until an active one is
  found. \<open>active\<close> is the optional \<open>executionIsActive\<close> of the dependencies.
\<close>

type_synonym activity = "(string \<Rightarrow> authority \<Rightarrow> bool) option"

definition execution_active :: "activity \<Rightarrow> string \<Rightarrow> authority \<Rightarrow> bool" where
  "execution_active active i a \<longleftrightarrow> (case active of None \<Rightarrow> True | Some f \<Rightarrow> f i a)"

fun prune_roots :: "activity \<Rightarrow> authority \<Rightarrow> (string \<times> authority) list \<Rightarrow> bool \<times> (string \<times> authority) list" where
  "prune_roots active a [] = (False, [])"
| "prune_roots active a ((i, root) # rs) =
     (if root \<noteq> a then (let (res, rs') = prune_roots active a rs in (res, (i, root) # rs'))
      else if execution_active active i a then (True, (i, root) # rs)
      else prune_roots active a rs)"

definition authorityIsActive :: "activity \<Rightarrow> authority \<Rightarrow> task_registry \<Rightarrow> task_registry \<times> bool" where
  "authorityIsActive active a r =
     (let (res, roots) = prune_roots active a (tr_executionRoots r) in (r\<lparr>tr_executionRoots := roots\<rparr>, res))"

definition resolveRuntime ::
  "activity \<Rightarrow> string \<Rightarrow> entity_cache \<Rightarrow> task_registry \<Rightarrow> task_registry \<times> authority option" where
  "resolveRuntime active i c r =
     (case resolveActive c i of
        None \<Rightarrow> (r, None)
      | Some _ \<Rightarrow> (case present (map_of (tr_members r) i) of
           None \<Rightarrow> (r, None)
         | Some membership \<Rightarrow>
             (let (r', res) = authorityIsActive active membership r in (r', if res then Some membership else None))))"

definition resolveCaller ::
  "activity \<Rightarrow> task_caller \<Rightarrow> entity_cache \<Rightarrow> task_registry \<Rightarrow> task_registry \<times> authority option" where
  "resolveCaller active caller c r =
     (case present (tc_sessionAuthority caller) of
        Some a \<Rightarrow> (r, Some a)
      | None \<Rightarrow> (case present (tc_taskAuthority caller) of
           Some a \<Rightarrow> (r, Some a)
         | None \<Rightarrow> resolveRuntime active (tc_runtimeId caller) c r))"

definition resolveCausalBinding ::
  "string \<Rightarrow> ustring \<Rightarrow> causal_parent \<Rightarrow> entity_cache \<Rightarrow> task_registry \<Rightarrow> task_error + authority option" where
  "resolveCausalBinding entityId channelId parent c r =
     (case channelTrajectoryFor channelId of
        Inl e \<Rightarrow> Inl (NoTrajectory e)
      | Inr expected \<Rightarrow>
          if cp_logId parent \<noteq> ct_logId expected \<or> cp_head parent \<noteq> ct_head expected then Inr None
          else if resolveActive c entityId = None then Inr None
          else (case present (map_of (tr_members r) entityId) of
             None \<Rightarrow> Inr None
           | Some membership \<Rightarrow> Inr (if jhas (tr_bindings r) membership then Some membership else None)))"

definition resolveInvocationAuthority ::
  "'n json_env \<Rightarrow> task_binding \<Rightarrow> string \<Rightarrow> causal_parent \<Rightarrow> entity_cache \<Rightarrow> bool \<Rightarrow> bool \<Rightarrow> task_registry \<Rightarrow>
   task_registry \<times> (task_error + authority option)" where
  "resolveInvocationAuthority env b entityId parent c isActive mayCreateRoot r =
     (if \<not> isActive then (r, Inr None)
      else case resolveCausalBinding entityId (tb_channelId b) parent c r of
        Inl e \<Rightarrow> (r, Inl e)
      | Inr (Some inherited) \<Rightarrow> (r, Inr (Some inherited))
      | Inr None \<Rightarrow>
          if \<not> mayCreateRoot then (r, Inr None)
          else (case taskAuthorityPrincipal env b of
             Inl e \<Rightarrow> (r, Inl (NotCanonicalJson e))
           | Inr a \<Rightarrow>
               (case bindPrincipal env a b r of
                  (r1, Inl e) \<Rightarrow> (r1, Inl e)
                | (r1, Inr _) \<Rightarrow>
                    (case bindCausalOrigin a \<lparr>ao_entityId = entityId, ao_contextId = tb_contextId b,
                         ao_channelId = tb_channelId b\<rparr> parent c r1 of
                       (r2, Inl e) \<Rightarrow> (r2, Inl e)
                     | (r2, Inr _) \<Rightarrow> (r2, Inr (Some a))))))"

definition inheritRuntime ::
  "activity \<Rightarrow> string \<Rightarrow> task_caller \<Rightarrow> entity_cache \<Rightarrow> task_registry \<Rightarrow> task_registry \<times> (task_error + authority option)" where
  "inheritRuntime active i caller c r =
     (case resolveCaller active caller c r of
        (r1, None) \<Rightarrow> (r1, Inr None)
      | (r1, Some inherited) \<Rightarrow>
          (let set_it = (r1\<lparr>tr_members := jset i inherited (tr_members r1)\<rparr>, Inr (Some inherited))
           in case present (map_of (tr_members r1) i) of
                Some existing \<Rightarrow>
                  if existing \<noteq> inherited \<and> resolveActive c i \<noteq> None then (r1, Inl (BoundToAnother i)) else set_it
              | None \<Rightarrow> set_it))"

definition tr_clear :: "task_registry \<Rightarrow> task_registry" where
  "tr_clear r = r\<lparr>tr_members := [], tr_executionRoots := [], tr_bindings := []\<rparr>"

subsection \<open>Coordinates and their text\<close>

text \<open>Coordinates with the same normal form.\<close>

definition same_coordinates :: "'n json_env \<Rightarrow> task_binding \<Rightarrow> task_binding \<Rightarrow> bool" where
  "same_coordinates env b b' \<longleftrightarrow>
     je_nfc env (tb_workspaceId b) = je_nfc env (tb_workspaceId b') \<and>
     je_nfc env (tb_contextId b) = je_nfc env (tb_contextId b') \<and>
     je_nfc env (tb_channelId b) = je_nfc env (tb_channelId b')"

lemma binding_keys:
  "\<not> array_index (ascii ''workspaceId'')" "\<not> array_index (ascii ''contextId'')" "\<not> array_index (ascii ''channelId'')"
  "utf8 (ascii ''channelId'') < utf8 (ascii ''contextId'')" "utf8 (ascii ''contextId'') < utf8 (ascii ''workspaceId'')"
  "ascii ''channelId'' \<noteq> proto_key" "ascii ''contextId'' \<noteq> proto_key" "ascii ''workspaceId'' \<noteq> proto_key"
  "ascii ''channelId'' \<noteq> ascii ''contextId''" "ascii ''channelId'' \<noteq> ascii ''workspaceId''" "ascii ''contextId'' \<noteq> ascii ''workspaceId''"
  by code_simp+

lemma own_order_plain: "\<forall>f \<in> set fs. \<not> array_index (fst f) \<Longrightarrow> own_order fs = fs"
  by (simp add: own_order_def filter_empty_conv filter_id_conv)

lemma sort_binding_keys:
  "sort_bytes [(ascii ''workspaceId'', x), (ascii ''contextId'', y), (ascii ''channelId'', z)] =
     [(ascii ''channelId'', z), (ascii ''contextId'', y), (ascii ''workspaceId'', x)]"
  using binding_keys(4,5) by (auto simp: sort_bytes_def simp del: ascii_simps)

lemma binding_normal:
  assumes "env_laws env"
  shows "normalize_json env (binding_json b) = Inr (JObject
    [(ascii ''channelId'', JString (je_nfc env (tb_channelId b))),
     (ascii ''contextId'', JString (je_nfc env (tb_contextId b))),
     (ascii ''workspaceId'', JString (je_nfc env (tb_workspaceId b)))])"
proof -
  have nfc: "je_nfc env (ascii s) = ascii s" for s using assms by (simp add: env_laws_def)
  show ?thesis
    by (simp add: binding_json_def own_order_plain nfc sort_binding_keys assign_def binding_keys binding_keys(9-11) [symmetric]
        jset_fresh del: ascii_simps)
qed

text \<open>The texts of two bindings agree exactly when their coordinates do.\<close>

lemma binding_text_ok:
  assumes "env_laws env"
  obtains t where "binding_text env b = Inr t"
  using binding_normal [OF assms, of b] by (simp add: binding_text_def sharedCanonicalJson_def)

lemma binding_text_iff:
  assumes "env_laws env"
  shows "binding_text env b = binding_text env b' \<longleftrightarrow> same_coordinates env b b'"
proof -
  have "quote s @ comma # r = quote t @ comma # r' \<longleftrightarrow> s = t \<and> r = r'" "quote s @ [125] = quote t @ [125] \<longleftrightarrow> s = t"
    for s t r r' by (simp_all only: quote_prefix list.inject simp_thms)
  then show ?thesis
    by (auto simp: binding_text_def sharedCanonicalJson_def binding_normal [OF assms] field_text_def same_coordinates_def
        own_order_plain binding_keys
        simp del: ascii_simps)
qed

lemma principal_same:
  "env_laws env \<Longrightarrow> same_coordinates env b b' \<Longrightarrow> taskAuthorityPrincipal env b = taskAuthorityPrincipal env b'"
  by (simp add: taskAuthorityPrincipal_def binding_text_iff [THEN iffD2])

lemma same_coordinates_sym: "same_coordinates env b b' \<longleftrightarrow> same_coordinates env b' b"
  by (auto simp: same_coordinates_def)

subsection \<open>Runs\<close>

text \<open>The calls of the registry, each with the cache and the activity of its moment.\<close>

datatype task_event =
    Execute admission_fact
  | Principal authority task_binding
  | CausalOrigin authority agent_origin causal_parent
  | ResolveRuntime string
  | ResolveCaller task_caller
  | Invocation task_binding string causal_parent bool bool
  | Inherit string task_caller
  | Clear

fun task_apply :: "'n json_env \<Rightarrow> activity \<Rightarrow> entity_cache \<Rightarrow> task_event \<Rightarrow> task_registry \<Rightarrow> task_registry" where
  "task_apply env active c (Execute s) r = fst (bindExecution s r)"
| "task_apply env active c (Principal a b) r = fst (bindPrincipal env a b r)"
| "task_apply env active c (CausalOrigin a b parent) r = fst (bindCausalOrigin a b parent c r)"
| "task_apply env active c (ResolveRuntime i) r = fst (resolveRuntime active i c r)"
| "task_apply env active c (ResolveCaller k) r = fst (resolveCaller active k c r)"
| "task_apply env active c (Invocation b i parent isActive create) r =
     fst (resolveInvocationAuthority env b i parent c isActive create r)"
| "task_apply env active c (Inherit i k) r = fst (inheritRuntime active i k c r)"
| "task_apply env active c Clear r = tr_clear r"

text \<open>The authorities that the verified facts of an event carry belong to \<open>A\<close>.\<close>

fun carries :: "authority set \<Rightarrow> task_event \<Rightarrow> bool" where
  "carries A (Execute s) \<longleftrightarrow> set_option (af_taskAuthority s) \<subseteq> A"
| "carries A (ResolveCaller k) \<longleftrightarrow> set_option (tc_sessionAuthority k) \<union> set_option (tc_taskAuthority k) \<subseteq> A"
| "carries A (Inherit i k) \<longleftrightarrow> set_option (tc_sessionAuthority k) \<union> set_option (tc_taskAuthority k) \<subseteq> A"
| "carries A _ \<longleftrightarrow> True"

inductive task_reachable :: "'n json_env \<Rightarrow> authority set \<Rightarrow> task_registry \<Rightarrow> bool" for env A where
  task_init: "task_reachable env A empty_registry"
| task_event: "task_reachable env A r \<Longrightarrow> carries A e \<Longrightarrow> task_reachable env A (task_apply env active c e r)"

definition genuine :: "authority set \<Rightarrow> task_registry \<Rightarrow> authority \<Rightarrow> bool" where
  "genuine A r a \<longleftrightarrow> a \<noteq> [] \<and> (a \<in> A \<or> jhas (tr_bindings r) a)"

definition registry_inv :: "'n json_env \<Rightarrow> authority set \<Rightarrow> task_registry \<Rightarrow> bool" where
  "registry_inv env A r \<longleftrightarrow> jwf (tr_executionRoots r) \<and>
     (\<forall>i a. map_of (tr_members r) i = Some a \<longrightarrow> genuine A r a) \<and>
     (\<forall>a b. map_of (tr_bindings r) a = Some b \<longrightarrow> taskAuthorityPrincipal env b = Inr a)"

lemma principal_nonempty: "taskAuthorityPrincipal env b = Inr a \<Longrightarrow> a \<noteq> []"
  by (auto simp: taskAuthorityPrincipal_def split: sum.splits)

lemma prune_roots_result:
  "fst (prune_roots active a roots) \<longleftrightarrow> (\<exists>i. (i, a) \<in> set roots \<and> execution_active active i a)"
  by (induction active a roots rule: prune_roots.induct) (auto simp: case_prod_beta Let_def)

lemma prune_roots_kept: "p \<in> set (snd (prune_roots active a roots)) \<Longrightarrow> p \<in> set roots"
  by (induction active a roots rule: prune_roots.induct) (auto simp: case_prod_beta Let_def split: if_splits)

lemma prune_roots_jwf: "jwf roots \<Longrightarrow> jwf (snd (prune_roots active a roots))"
proof (induction active a roots rule: prune_roots.induct)
  case (2 active a i root rs)
  then show ?case using prune_roots_kept [of _ active a rs] by (force simp: case_prod_beta Let_def jwf_Cons)
qed simp

text \<open>What the operations leave alone, and what they set.\<close>

lemma authorityIsActive_same [simp]:
  "tr_members (fst (authorityIsActive active a r)) = tr_members r"
  "tr_bindings (fst (authorityIsActive active a r)) = tr_bindings r"
  by (simp_all add: authorityIsActive_def case_prod_beta)

lemma resolveRuntime_same [simp]:
  "tr_members (fst (resolveRuntime active i c r)) = tr_members r"
  "tr_bindings (fst (resolveRuntime active i c r)) = tr_bindings r"
  by (simp_all add: resolveRuntime_def case_prod_beta Let_def split: option.splits)

lemma resolveCaller_same [simp]:
  "tr_members (fst (resolveCaller active k c r)) = tr_members r"
  "tr_bindings (fst (resolveCaller active k c r)) = tr_bindings r"
  by (simp_all add: resolveCaller_def split: option.splits)

lemma resolveRuntime_roots: "jwf (tr_executionRoots r) \<Longrightarrow> jwf (tr_executionRoots (fst (resolveRuntime active i c r)))"
  by (simp add: resolveRuntime_def authorityIsActive_def case_prod_beta Let_def prune_roots_jwf split: option.splits)

lemma resolveCaller_roots: "jwf (tr_executionRoots r) \<Longrightarrow> jwf (tr_executionRoots (fst (resolveCaller active k c r)))"
  by (simp add: resolveCaller_def resolveRuntime_roots split: option.splits)

definition rooted :: "activity \<Rightarrow> authority \<Rightarrow> task_registry \<Rightarrow> bool" where
  "rooted active a r \<longleftrightarrow>
     (\<exists>root. (root, a) \<in> set (tr_executionRoots r) \<and> execution_active active root a)"

lemma authorityIsActive_result: "snd (authorityIsActive active a r) \<longleftrightarrow> rooted active a r"
  by (simp add: authorityIsActive_def case_prod_beta prune_roots_result rooted_def)

lemma resolveRuntime_result:
  "snd (resolveRuntime active i c r) = Some a \<longleftrightarrow>
     resolveActive c i \<noteq> None \<and> map_of (tr_members r) i = Some a \<and> a \<noteq> [] \<and> rooted active a r"
proof (cases "resolveActive c i")
  case (Some e)
  show ?thesis
  proof (cases "present (map_of (tr_members r) i)")
    case None
    then show ?thesis using present_Some [of "map_of (tr_members r) i" a] Some by (auto simp: resolveRuntime_def)
  next
    case (Some m)
    then have m: "map_of (tr_members r) i = Some m" "m \<noteq> []" by (simp_all add: present_Some)
    have "snd (resolveRuntime active i c r) = (if rooted active m r then Some m else None)"
      using Some \<open>resolveActive c i = Some e\<close>
      by (simp add: resolveRuntime_def case_prod_beta authorityIsActive_result)
    then show ?thesis using m \<open>resolveActive c i = Some e\<close> by (auto split: if_splits)
  qed
qed (simp add: resolveRuntime_def)

subsection \<open>The invariant\<close>

lemma genuine_bindings:
  "genuine A r a \<Longrightarrow> (\<And>x. jhas (tr_bindings r) x \<Longrightarrow> jhas (tr_bindings r') x) \<Longrightarrow> genuine A r' a"
  by (auto simp: genuine_def)

lemma registry_inv_members:
  assumes "registry_inv env A r" and "genuine A r a"
  shows "registry_inv env A (r\<lparr>tr_members := jset i a (tr_members r)\<rparr>)"
  using assms by (auto simp: registry_inv_def genuine_def)

lemma registry_inv_roots:
  "registry_inv env A r \<Longrightarrow> jwf roots \<Longrightarrow> registry_inv env A (r\<lparr>tr_executionRoots := roots\<rparr>)"
  by (auto simp: registry_inv_def genuine_def)

lemma registry_inv_same:
  "registry_inv env A r \<Longrightarrow> tr_members r' = tr_members r \<Longrightarrow> tr_bindings r' = tr_bindings r \<Longrightarrow>
     jwf (tr_executionRoots r') \<Longrightarrow> registry_inv env A r'"
  by (auto simp: registry_inv_def genuine_def)

lemma registry_inv_wf: "registry_inv env A r \<Longrightarrow> jwf (tr_executionRoots r)"
  by (simp add: registry_inv_def)

lemma registry_inv_bindExecution:
  assumes "registry_inv env A r" and "set_option (af_taskAuthority s) \<subseteq> A"
  shows "registry_inv env A (fst (bindExecution s r))"
proof (cases "present (af_taskAuthority s)")
  case (Some a)
  then have g: "genuine A q a" for q using assms(2) by (simp add: present_Some genuine_def)
  have fin: "registry_inv env A (q\<lparr>tr_executionRoots := jset i a (tr_executionRoots q),
      tr_members := jset i a (tr_members q)\<rparr>)" if "registry_inv env A q" for q i
  proof -
    have "registry_inv env A (q\<lparr>tr_executionRoots := jset i a (tr_executionRoots q)\<rparr>)"
      using that registry_inv_wf [OF that] by (intro registry_inv_roots) auto
    from registry_inv_members [OF this g] show ?thesis by simp
  qed
  have "registry_inv env A (r\<lparr>tr_executionRoots := jset i a (tr_executionRoots r),
      tr_members := jset i a (jset j a (tr_members r))\<rparr>)" for i j
    using fin [OF registry_inv_members [OF assms(1) g], of i j] by simp
  then show ?thesis
    using Some assms(1) fin [OF assms(1)]
    by (simp add: bindExecution_def Let_def split: option.splits)
qed (simp add: bindExecution_def assms(1))

lemma registry_inv_bindPrincipal: "registry_inv env A r \<Longrightarrow> registry_inv env A (fst (bindPrincipal env a b r))"
  by (auto simp: bindPrincipal_def rememberBinding_def registry_inv_def genuine_def jhas_def Let_def
      split: option.splits sum.splits)

lemma bound_genuine:
  "registry_inv env A r \<Longrightarrow> map_of (tr_bindings r) a = Some b \<Longrightarrow> genuine A r a"
  using principal_nonempty [of env b a] by (auto simp: registry_inv_def genuine_def jhas_def)

lemma registry_inv_bindCausalOrigin:
  assumes "registry_inv env A r"
  shows "registry_inv env A (fst (bindCausalOrigin a b parent c r))"
proof (cases "map_of (tr_bindings r) a")
  case None
  then show ?thesis using assms by (simp add: bindCausalOrigin_def split: sum.splits option.splits)
next
  case (Some bound)
  have "registry_inv env A (r\<lparr>tr_members := jset i a (tr_members r)\<rparr>)" for i
    using assms bound_genuine [OF assms Some] by (rule registry_inv_members)
  then show ?thesis using assms by (simp add: bindCausalOrigin_def split: sum.splits option.splits)
qed

lemma registry_inv_resolveCaller: "registry_inv env A r \<Longrightarrow> registry_inv env A (fst (resolveCaller active k c r))"
  using registry_inv_same resolveCaller_same resolveCaller_roots registry_inv_wf by metis

lemma registry_inv_resolveRuntime: "registry_inv env A r \<Longrightarrow> registry_inv env A (fst (resolveRuntime active i c r))"
  using registry_inv_same resolveRuntime_same resolveRuntime_roots registry_inv_wf by metis

lemma resolveCaller_genuine:
  assumes "registry_inv env A r" and "set_option (tc_sessionAuthority k) \<union> set_option (tc_taskAuthority k) \<subseteq> A"
    and "snd (resolveCaller active k c r) = Some a"
  shows "genuine A r a"
proof (cases "present (tc_sessionAuthority k) = None \<and> present (tc_taskAuthority k) = None")
  case True
  then have "snd (resolveRuntime active (tc_runtimeId k) c r) = Some a"
    using assms(3) by (simp add: resolveCaller_def)
  then show ?thesis using assms(1) unfolding resolveRuntime_result registry_inv_def by blast
next
  case False
  then show ?thesis
    using assms(2,3) by (auto simp: resolveCaller_def genuine_def present_def split: option.splits if_splits)
qed

lemma registry_inv_inheritRuntime:
  assumes "registry_inv env A r" and "set_option (tc_sessionAuthority k) \<union> set_option (tc_taskAuthority k) \<subseteq> A"
  shows "registry_inv env A (fst (inheritRuntime active i k c r))"
proof -
  obtain r1 res where call: "resolveCaller active k c r = (r1, res)" by fastforce
  have inv: "registry_inv env A r1" and same: "tr_bindings r1 = tr_bindings r"
    using registry_inv_resolveCaller [OF assms(1), of active k c] resolveCaller_same [of active k c r] call by simp_all
  show ?thesis
  proof (cases res)
    case (Some a)
    then have "genuine A r1 a"
      using resolveCaller_genuine [OF assms, of active c a] call same by (simp add: genuine_def)
    from registry_inv_members [OF inv this]
    show ?thesis using call Some inv by (simp add: inheritRuntime_def Let_def split: option.splits)
  qed (simp add: inheritRuntime_def call inv)
qed

lemma registry_inv_invocation:
  assumes "registry_inv env A r"
  shows "registry_inv env A (fst (resolveInvocationAuthority env b i parent c isActive create r))"
proof (cases "taskAuthorityPrincipal env b")
  case (Inl e)
  then show ?thesis
    using assms by (simp add: resolveInvocationAuthority_def split: sum.splits option.splits)
next
  case (Inr a)
  obtain r1 e1 where one: "bindPrincipal env a b r = (r1, e1)" by fastforce
  obtain r2 e2 where two: "bindCausalOrigin a
    \<lparr>ao_entityId = i, ao_contextId = tb_contextId b, ao_channelId = tb_channelId b\<rparr> parent c r1 = (r2, e2)" by fastforce
  have "registry_inv env A r1" "registry_inv env A r2"
    using registry_inv_bindPrincipal [OF assms] registry_inv_bindCausalOrigin one two by (metis fst_conv)+
  then show ?thesis
    using assms Inr by (simp add: resolveInvocationAuthority_def one two split: sum.splits option.splits)
qed

lemma registry_inv_step:
  "registry_inv env A r \<Longrightarrow> carries A e \<Longrightarrow> registry_inv env A (task_apply env active c e r)"
  by (cases e) (simp_all add: registry_inv_bindExecution registry_inv_bindPrincipal registry_inv_bindCausalOrigin
      registry_inv_resolveRuntime registry_inv_resolveCaller registry_inv_invocation registry_inv_inheritRuntime,
      simp add: registry_inv_def tr_clear_def)

lemma task_reachable_inv: "task_reachable env A r \<Longrightarrow> registry_inv env A r"
  by (induction rule: task_reachable.induct) (simp_all add: registry_inv_step, simp add: registry_inv_def empty_registry_def)

subsection \<open>Bindings and memberships that stay\<close>

text \<open>The coordinates behind an authority stay the same up to their normal form.\<close>

definition bound_to :: "'n json_env \<Rightarrow> authority \<Rightarrow> task_binding \<Rightarrow> task_registry \<Rightarrow> bool" where
  "bound_to env a b r \<longleftrightarrow> (\<exists>b'. bindingFor a r = Some b' \<and> same_coordinates env b' b)"

lemma bound_to_same:
  "tr_bindings r' = tr_bindings r \<Longrightarrow> bound_to env a b r' = bound_to env a b r"
  by (simp add: bound_to_def bindingFor_def)

lemma rememberBinding_result:
  assumes "env_laws env"
  shows "ok (snd (rememberBinding env a b r)) \<longleftrightarrow>
    (case bindingFor a r of None \<Rightarrow> True | Some b' \<Rightarrow> same_coordinates env b' b)"
proof (cases "bindingFor a r")
  case (Some b')
  obtain t t' where "binding_text env b = Inr t" "binding_text env b' = Inr t'"
    using binding_text_ok [OF assms] by metis
  then show ?thesis
    using Some binding_text_iff [OF assms, of b' b] by (simp add: rememberBinding_def bindingFor_def Let_def)
qed (simp add: rememberBinding_def bindingFor_def Let_def)

lemma rememberBinding_bindings:
  "bindingFor x (fst (rememberBinding env a b r)) =
     (if x = a \<and> ok (snd (rememberBinding env a b r)) then Some b else bindingFor x r)"
  by (auto simp: rememberBinding_def bindingFor_def Let_def split: option.splits sum.splits)

lemma bindPrincipal_keeps:
  assumes "env_laws env" and "bound_to env a b r"
  shows "bound_to env a b (fst (bindPrincipal env a' b' r))"
proof -
  have "bound_to env a b (fst (rememberBinding env a' b' r))"
    using assms(2) rememberBinding_result [OF assms(1), of a' b' r]
    by (auto simp: bound_to_def rememberBinding_bindings same_coordinates_def)
  then show ?thesis using assms(2) by (simp add: bindPrincipal_def split: sum.splits)
qed

lemma bindPrincipal_members [simp]: "tr_members (fst (bindPrincipal env a b r)) = tr_members r"
  by (simp add: bindPrincipal_def rememberBinding_def Let_def split: option.splits sum.splits)

lemma bindCausalOrigin_bindings [simp]: "tr_bindings (fst (bindCausalOrigin a b parent c r)) = tr_bindings r"
  by (simp add: bindCausalOrigin_def split: sum.splits option.splits)

lemma bindExecution_bindings [simp]: "tr_bindings (fst (bindExecution s r)) = tr_bindings r"
  by (simp add: bindExecution_def Let_def split: option.splits)

lemma inheritRuntime_bindings [simp]: "tr_bindings (fst (inheritRuntime active i k c r)) = tr_bindings r"
proof -
  obtain r1 res where call: "resolveCaller active k c r = (r1, res)" by fastforce
  then have "tr_bindings r1 = tr_bindings r" using resolveCaller_same(2) [of active k c r] by simp
  then show ?thesis by (simp add: inheritRuntime_def call Let_def split: option.splits)
qed

lemmas bound_unchanged =
  bound_to_same [OF bindCausalOrigin_bindings] bound_to_same [OF bindExecution_bindings]
  bound_to_same [OF inheritRuntime_bindings] bound_to_same [OF resolveCaller_same(2)]
  bound_to_same [OF resolveRuntime_same(2)]

text \<open>An invocation that mints a root binds the principal, then the agent.\<close>

lemma invocation_state:
  "fst (resolveInvocationAuthority env b i parent c isActive create r) = r \<or>
   (\<exists>a origin. fst (resolveInvocationAuthority env b i parent c isActive create r) \<in>
      {fst (bindPrincipal env a b r), fst (bindCausalOrigin a origin parent c (fst (bindPrincipal env a b r)))})"
proof (cases "taskAuthorityPrincipal env b")
  case (Inr a)
  let ?r1 = "fst (bindPrincipal env a b r)"
  let ?origin = "\<lparr>ao_entityId = i, ao_contextId = tb_contextId b, ao_channelId = tb_channelId b\<rparr>"
  have "fst (resolveInvocationAuthority env b i parent c isActive create r) \<in> {r, ?r1, fst (bindCausalOrigin a ?origin parent c ?r1)}"
    unfolding resolveInvocationAuthority_def using Inr by (simp split: sum.splits option.splits prod.splits)
  then show ?thesis by blast
qed (simp add: resolveInvocationAuthority_def split: sum.splits option.splits)

lemma bindings_kept:
  assumes "env_laws env" and "bound_to env a b r" and "e \<noteq> Clear"
  shows "bound_to env a b (task_apply env active c e r)"
proof (cases e)
  case (Invocation b' i parent isActive create)
  then show ?thesis
    using assms(2) bindPrincipal_keeps [OF assms(1,2)] invocation_state [of env b' i parent c isActive create r]
    by (auto simp: bound_unchanged)
qed (use assms in \<open>simp_all add: bindPrincipal_keeps bound_unchanged\<close>)

lemma bindExecution_keeps:
  "map_of (tr_members r) i = Some a \<Longrightarrow> a \<noteq> [] \<Longrightarrow> af_runtimeId s \<noteq> i \<Longrightarrow>
     map_of (tr_members (fst (bindExecution s r))) i = Some a"
  by (auto simp: bindExecution_def Let_def present_def split: option.splits if_splits)

lemma bindCausalOrigin_keeps:
  "map_of (tr_members r) i = Some a \<Longrightarrow> a \<noteq> [] \<Longrightarrow>
     map_of (tr_members (fst (bindCausalOrigin a' b parent c r))) i = Some a"
  by (auto simp: bindCausalOrigin_def present_def split: sum.splits option.splits if_splits)

lemma inheritRuntime_keeps:
  assumes "map_of (tr_members r) i = Some a" and "a \<noteq> []" and "j = i \<Longrightarrow> resolveActive c i \<noteq> None"
  shows "map_of (tr_members (fst (inheritRuntime active j k c r))) i = Some a"
proof -
  obtain r1 res where call: "resolveCaller active k c r = (r1, res)" by fastforce
  then have "tr_members r1 = tr_members r" using resolveCaller_same(1) [of active k c r] by simp
  then show ?thesis
    using assms by (auto simp: inheritRuntime_def call Let_def present_def split: option.splits if_splits)
qed

section \<open>Properties\<close>

text \<open>
  The task membership of a live runtime cannot be changed. In every reachable registry,
  whatever call is made next, a member keeps its authority unless the registry is cleared, an
  admitted execution runs in this very runtime, or the runtime is not active and inherits anew:
  a warm root that is reused for a later task does not reclassify the children it has. The
  coordinates behind an authority never change either, up to their Unicode normal form.
\<close>

theorem task_membership_immutable:
  assumes "env_laws env" and "task_reachable env A r" and "e \<noteq> Clear"
    and "map_of (tr_members r) i = Some a"
    and "case e of Execute s \<Rightarrow> af_runtimeId s \<noteq> i | Inherit j k \<Rightarrow> j = i \<longrightarrow> resolveActive c i \<noteq> None | _ \<Rightarrow> True"
  shows "map_of (tr_members (task_apply env active c e r)) i = Some a \<and>
    (\<forall>x b. bound_to env x b r \<longrightarrow> bound_to env x b (task_apply env active c e r))"
proof
  have "a \<noteq> []" using task_reachable_inv [OF assms(2)] assms(4) by (auto simp: registry_inv_def genuine_def)
  note keeps = bindExecution_keeps bindCausalOrigin_keeps inheritRuntime_keeps
  show "map_of (tr_members (task_apply env active c e r)) i = Some a"
  proof (cases e)
    case (Invocation b' j parent isActive create)
    then show ?thesis
      using invocation_state [of env b' j parent c isActive create r] assms(4) \<open>a \<noteq> []\<close>
      by (auto simp: bindCausalOrigin_keeps)
  qed (use assms(3-5) \<open>a \<noteq> []\<close> in \<open>simp_all add: keeps\<close>)
  show "\<forall>x b. bound_to env x b r \<longrightarrow> bound_to env x b (task_apply env active c e r)"
    using assms(1,3) bindings_kept by blast
qed

text \<open>
  C31. No task authority appears from nowhere, and none outlives its execution. In every
  reachable registry a runtime resolves to an authority exactly when it is live, is a member of
  the task and some admitted root of the task is still running; that authority was carried by a
  verified session or caller (\<open>A\<close>), or it is the hash of coordinates that the host bound. A
  bound authority can be bound again exactly to coordinates with the same Unicode normal form
  as those it has, and no call but the clearing of the registry binds it to others.
\<close>

theorem task_authority_authentic:
  assumes "env_laws env" and "task_reachable env A r"
  shows "(snd (resolveRuntime active i c r) = Some a \<longleftrightarrow>
      resolveActive c i \<noteq> None \<and> map_of (tr_members r) i = Some a \<and>
      (\<exists>root. (root, a) \<in> set (tr_executionRoots r) \<and> execution_active active root a)) \<and>
    (snd (resolveRuntime active i c r) = Some a \<longrightarrow> a \<in> A \<or>
      (\<exists>b. bindingFor a r = Some b \<and> taskAuthorityPrincipal env b = Inr a)) \<and>
    (\<forall>b b'. bindingFor a r = Some b \<longrightarrow> taskAuthorityPrincipal env b = Inr a \<and>
      (ok (snd (bindPrincipal env a b' r)) \<longleftrightarrow> same_coordinates env b b')) \<and>
    (\<forall>b e. bindingFor a r = Some b \<and> e \<noteq> Clear \<longrightarrow>
      (\<exists>b'. bindingFor a (task_apply env active c e r) = Some b' \<and> same_coordinates env b' b))"
proof (intro conjI allI impI iffI)
  have inv: "registry_inv env A r" using assms(2) by (rule task_reachable_inv)
  have members: "map_of (tr_members r) j = Some x \<Longrightarrow> genuine A r x" for j x using inv by (simp add: registry_inv_def)
  have bound: "bindingFor x r = Some b \<Longrightarrow> taskAuthorityPrincipal env b = Inr x" for x b
    using inv by (simp add: registry_inv_def bindingFor_def)
  note res = resolveRuntime_result [of active i c r a]
  {
    assume "snd (resolveRuntime active i c r) = Some a"
    then have m: "resolveActive c i \<noteq> None" "map_of (tr_members r) i = Some a" "rooted active a r" using res by auto
    then show "resolveActive c i \<noteq> None" "map_of (tr_members r) i = Some a"
      "\<exists>root. (root, a) \<in> set (tr_executionRoots r) \<and> execution_active active root a" by (simp_all add: rooted_def)
    have "a \<in> A \<or> (\<exists>b. bindingFor a r = Some b)"
      using members [OF m(2)] by (auto simp: genuine_def jhas_def bindingFor_def)
    then show "a \<in> A \<or> (\<exists>b. bindingFor a r = Some b \<and> taskAuthorityPrincipal env b = Inr a)"
      using bound [of a] by blast
  next
    assume "resolveActive c i \<noteq> None \<and> map_of (tr_members r) i = Some a \<and>
      (\<exists>root. (root, a) \<in> set (tr_executionRoots r) \<and> execution_active active root a)"
    then show "snd (resolveRuntime active i c r) = Some a"
      using members [of i a] res by (simp add: genuine_def rooted_def)
  next
    fix b b' assume b: "bindingFor a r = Some b"
    then show a: "taskAuthorityPrincipal env b = Inr a" by (rule bound)
    have ok: "ok (snd (rememberBinding env a b' r)) \<longleftrightarrow> same_coordinates env b b'"
      using rememberBinding_result [OF assms(1), of a b' r] b by simp
    show "same_coordinates env b b'" if "ok (snd (bindPrincipal env a b' r))"
      using that ok by (auto simp: bindPrincipal_def split: sum.splits if_splits)
    show "ok (snd (bindPrincipal env a b' r))" if "same_coordinates env b b'"
      using ok a that principal_same [OF assms(1) that] by (simp add: bindPrincipal_def)
  next
    fix b e assume "bindingFor a r = Some b \<and> e \<noteq> Clear"
    then show "\<exists>b'. bindingFor a (task_apply env active c e r) = Some b' \<and> same_coordinates env b' b"
      using bindings_kept [OF assms(1), of a b r e active c] by (auto simp: bound_to_def same_coordinates_def)
  }
qed

text \<open>An eval runtime is admitted to a task and runs; its authority is resolved while it does.\<close>

definition eval_fact :: admission_fact where
  "eval_fact = \<lparr>af_runtimeId = ''eval'', af_taskAuthority = Some (ascii ''task:1''), af_agentEntityId = Some ''agent''\<rparr>"

definition agent_cache :: entity_cache where
  "agent_cache = registerBootstrapEntity ''agent'' \<lparr>repoPath = ''workers/agent'', effectiveVersion = ''v''\<rparr>
     ''build'' ''digest'' ''authority'' (ascii ''ctx'') ''Agent'' ''key'' ''session'' 0 empty_cache"

lemma eval_registry_reachable:
  "task_reachable plain_env {ascii ''task:1''} (task_apply plain_env None agent_cache (Execute eval_fact) empty_registry)"
  by (rule task_reachable.intros)+ (simp add: eval_fact_def)

lemma eval_registry:
  "task_apply plain_env None agent_cache (Execute eval_fact) empty_registry =
     \<lparr>tr_members = [(''agent'', ascii ''task:1''), (''eval'', ascii ''task:1'')],
      tr_executionRoots = [(''eval'', ascii ''task:1'')], tr_bindings = []\<rparr>"
  by (simp add: eval_fact_def bindExecution_def empty_registry_def present_def Let_def ascii_def)

theorem task_membership_immutable_witness:
  "map_of (tr_members (task_apply plain_env None agent_cache (Inherit ''agent''
      \<lparr>tc_runtimeId = ''x'', tc_sessionAuthority = Some (ascii ''task:2''), tc_taskAuthority = None\<rparr>)
      (task_apply plain_env None agent_cache (Execute eval_fact) empty_registry))) ''agent'' = Some (ascii ''task:1'')"
proof (rule conjunct1 [OF task_membership_immutable [OF plain_env_laws eval_registry_reachable]])
  show "map_of (tr_members (task_apply plain_env None agent_cache (Execute eval_fact) empty_registry)) ''agent'' = Some (ascii ''task:1'')"
    unfolding eval_registry by simp
  show "case Inherit ''agent'' \<lparr>tc_runtimeId = ''x'', tc_sessionAuthority = Some (ascii ''task:2''), tc_taskAuthority = None\<rparr>
      of Execute s \<Rightarrow> af_runtimeId s \<noteq> ''agent'' | Inherit j k \<Rightarrow> j = ''agent'' \<longrightarrow> resolveActive agent_cache ''agent'' \<noteq> None | _ \<Rightarrow> True"
    by (simp add: agent_cache_def resolveActive_def registerBootstrapEntity_def bootstrap_service_entry_def Let_def)
qed simp

theorem task_authority_authentic_witness:
  "snd (resolveRuntime None ''agent'' agent_cache (task_apply plain_env None agent_cache (Execute eval_fact) empty_registry)) =
     Some (ascii ''task:1'')"
proof -
  have "resolveActive agent_cache ''agent'' \<noteq> None"
    by (simp add: agent_cache_def resolveActive_def registerBootstrapEntity_def bootstrap_service_entry_def Let_def)
  moreover have "map_of (tr_members (task_apply plain_env None agent_cache (Execute eval_fact) empty_registry)) ''agent'' = Some (ascii ''task:1'')"
    "(''eval'', ascii ''task:1'') \<in> set (tr_executionRoots (task_apply plain_env None agent_cache (Execute eval_fact) empty_registry))"
    unfolding eval_registry by simp_all
  moreover have "execution_active None x y" for x y by (simp add: execution_active_def)
  ultimately show ?thesis
    using task_authority_authentic [OF plain_env_laws eval_registry_reachable, of None "''agent''" agent_cache "ascii ''task:1''"] by blast
qed

end
