(* ===== verification/TemplateTree.thy ===== *)
theory TemplateTree
  imports Utf16
begin

text \<open>
  The repositories of a template (\<^verbatim>\<open>packages/workspace/src/templateClosure.ts\<close>) and the tree that
  its layers make (\<^verbatim>\<open>packages/workspace/src/templateComposition.ts\<close>). The walk over the repositories
  need not end on an infinite graph, so it is a partial function: \<open>None\<close> is not returning.
\<close>

subsection \<open>The closure\<close>

type_synonym repo = ustring

record 'e closure_input =
  ci_roots :: "repo list"
  ci_provided :: "repo list"
  packageDependenciesOf :: "repo \<Rightarrow> ustring list"
  ownerOfPackage :: "ustring \<Rightarrow> repo \<Rightarrow> 'e + repo"    \<comment> \<open>throws when it cannot say\<close>
  requiredRepositoriesOf :: "repo \<Rightarrow> repo list"

record closure_state =
  cs_included :: "repo list"
  cs_required :: "repo list"
  cs_pending :: "repo list"

record template_closure =
  tc_included :: "repo list"
  tc_required :: "repo list"

definition admit :: "repo list \<Rightarrow> bool \<Rightarrow> repo \<Rightarrow> closure_state \<Rightarrow> closure_state" where
  "admit provided declared r st =
     (if r \<in> set provided \<or> r \<in> set (cs_included st) then st
      else st\<lparr>cs_included := cs_included st @ [r],
        cs_required := (if \<not> declared then set_add r (cs_required st) else cs_required st),
        cs_pending := cs_pending st @ [r]\<rparr>)"

text \<open>The packages of a repository, in order; the first one without an owner throws.\<close>

fun admit_packages :: "'e closure_input \<Rightarrow> repo \<Rightarrow> ustring list \<Rightarrow> closure_state \<Rightarrow> 'e + closure_state" where
  "admit_packages inp r [] st = Inr st"
| "admit_packages inp r (p # ps) st =
     (case ownerOfPackage inp p r of
        Inl e \<Rightarrow> Inl e
      | Inr s \<Rightarrow> admit_packages inp r ps (admit (ci_provided inp) False s st))"

definition visit_repo :: "'e closure_input \<Rightarrow> repo \<Rightarrow> closure_state \<Rightarrow> 'e + closure_state" where
  "visit_repo inp r st =
     (case admit_packages inp r (packageDependenciesOf inp r) st of
        Inl e \<Rightarrow> Inl e
      | Inr st' \<Rightarrow> Inr (fold (admit (ci_provided inp) False) (requiredRepositoriesOf inp r) st'))"

partial_function (option) drain_repos :: "'e closure_input \<Rightarrow> closure_state \<Rightarrow> ('e + closure_state) option" where
  "drain_repos inp st =
     (case cs_pending st of
        [] \<Rightarrow> Some (Inr st)
      | r # rest \<Rightarrow>
          (case visit_repo inp r (st\<lparr>cs_pending := rest\<rparr>) of
             Inl e \<Rightarrow> Some (Inl e)
           | Inr st' \<Rightarrow> drain_repos inp st'))"

definition resolveTemplateClosure :: "'e closure_input \<Rightarrow> ('e + template_closure) option" where
  "resolveTemplateClosure inp =
     (case drain_repos inp (fold (admit (ci_provided inp) True) (ci_roots inp)
          \<lparr>cs_included = [], cs_required = [], cs_pending = []\<rparr>) of
        None \<Rightarrow> None
      | Some (Inl e) \<Rightarrow> Some (Inl e)
      | Some (Inr st) \<Rightarrow> Some (Inr \<lparr>tc_included = sort_utf16 (\<lambda>r. r) (cs_included st),
          tc_required = sort_utf16 (\<lambda>r. r) (cs_required st)\<rparr>))"

subsection \<open>The repositories that a template needs\<close>

definition needs :: "'e closure_input \<Rightarrow> repo \<Rightarrow> repo \<Rightarrow> bool" where
  "needs inp r s \<longleftrightarrow> (\<exists>p \<in> set (packageDependenciesOf inp r). ownerOfPackage inp p r = Inr s) \<or>
     s \<in> set (requiredRepositoriesOf inp r)"

inductive_set reached :: "'e closure_input \<Rightarrow> repo set" for inp where
  reached_root: "r \<in> set (ci_roots inp) \<Longrightarrow> r \<notin> set (ci_provided inp) \<Longrightarrow> r \<in> reached inp"
| reached_edge: "r \<in> reached inp \<Longrightarrow> needs inp r s \<Longrightarrow> s \<notin> set (ci_provided inp) \<Longrightarrow> s \<in> reached inp"

lemma admit_mem [simp]:
  "set (cs_included (admit P d r st)) = set (cs_included st) \<union> ({r} - set P)"
  by (auto simp: admit_def)

lemma fold_admit_mem [simp]:
  "set (cs_included (fold (admit P d) rs st)) = set (cs_included st) \<union> (set rs - set P)"
  by (induction rs arbitrary: st) auto

text \<open>What the walk keeps: \<open>todo\<close> are the repositories whose edges are still to be followed.\<close>

definition closure_inv :: "'e closure_input \<Rightarrow> repo set \<Rightarrow> closure_state \<Rightarrow> bool" where
  "closure_inv inp todo st \<longleftrightarrow>
     distinct (cs_included st) \<and> set (cs_included st) \<subseteq> reached inp \<and> set (cs_pending st) \<subseteq> set (cs_included st) \<and>
     set (ci_roots inp) - set (ci_provided inp) \<subseteq> set (cs_included st) \<and>
     distinct (cs_required st) \<and> set (cs_required st) = set (cs_included st) - set (ci_roots inp) \<and>
     (\<forall>r s. r \<in> set (cs_included st) - set (cs_pending st) - todo \<longrightarrow> needs inp r s \<longrightarrow> s \<notin> set (ci_provided inp) \<longrightarrow>
        s \<in> set (cs_included st)) \<and>
     (\<forall>r p. r \<in> set (cs_included st) - set (cs_pending st) - todo \<longrightarrow> p \<in> set (packageDependenciesOf inp r) \<longrightarrow>
        ok (ownerOfPackage inp p r))"

lemma closure_inv_admit:
  assumes "closure_inv inp todo st" and "s \<in> set (ci_provided inp) \<or> s \<in> reached inp"
  shows "closure_inv inp todo (admit (ci_provided inp) False s st)"
proof (cases "s \<in> set (ci_provided inp) \<or> s \<in> set (cs_included st)")
  case False
  then have "s \<notin> set (ci_roots inp)" using assms(1) by (auto simp: closure_inv_def)
  then show ?thesis
    using False assms unfolding closure_inv_def by (auto simp: admit_def set_add_def)
qed (simp add: admit_def assms(1))

text \<open>Admitting takes from the repositories not yet included what it adds to the queue.\<close>

definition work :: "'e closure_input \<Rightarrow> closure_state \<Rightarrow> nat" where
  "work inp st = card (reached inp - set (cs_included st)) + length (cs_pending st)"

lemma work_admit:
  assumes "finite (reached inp)" and "s \<in> set (ci_provided inp) \<or> s \<in> reached inp"
  shows "work inp (admit (ci_provided inp) d s st) = work inp st"
proof (cases "s \<in> set (ci_provided inp) \<or> s \<in> set (cs_included st)")
  case False
  then have "s \<in> reached inp - set (cs_included st)" using assms(2) by blast
  then have "card (reached inp - set (cs_included st)) = Suc (card (reached inp - set (cs_included st) - {s}))"
    using assms(1) by (metis card.remove finite_Diff)
  moreover have "reached inp - (set (cs_included st) \<union> {s}) = reached inp - set (cs_included st) - {s}" by blast
  ultimately show ?thesis using False by (simp add: work_def admit_def)
qed (simp add: admit_def)

definition step_ok :: "'e closure_input \<Rightarrow> repo \<Rightarrow> closure_state \<Rightarrow> closure_state \<Rightarrow> bool" where
  "step_ok inp r st st' \<longleftrightarrow> closure_inv inp {r} st' \<and> work inp st' = work inp st \<and>
     set (cs_included st) \<subseteq> set (cs_included st') \<and> set (cs_pending st) \<subseteq> set (cs_pending st')"

lemma admit_step_ok:
  assumes "finite (reached inp)" and "closure_inv inp {r} st" and "r \<in> reached inp" and "needs inp r s"
  shows "step_ok inp r st (admit (ci_provided inp) False s st)"
proof -
  have "s \<in> set (ci_provided inp) \<or> s \<in> reached inp" using assms(3,4) by (auto intro: reached_edge)
  then show ?thesis
    using closure_inv_admit [OF assms(2)] work_admit [OF assms(1)] by (auto simp: step_ok_def admit_def)
qed

lemma step_ok_trans: "step_ok inp r st st' \<Longrightarrow> step_ok inp r st' st'' \<Longrightarrow> step_ok inp r st st''"
  by (auto simp: step_ok_def)

lemma step_ok_refl: "closure_inv inp {r} st \<Longrightarrow> step_ok inp r st st"
  by (simp add: step_ok_def)

lemma step_ok_inv: "step_ok inp r st st' \<Longrightarrow> closure_inv inp {r} st'"
  by (simp add: step_ok_def)

lemma admit_packages_ok:
  "finite (reached inp) \<Longrightarrow> closure_inv inp {r} st \<Longrightarrow> r \<in> reached inp \<Longrightarrow>
     set ps \<subseteq> set (packageDependenciesOf inp r) \<Longrightarrow>
     (case admit_packages inp r ps st of
        Inl e \<Rightarrow> \<exists>p \<in> set ps. ownerOfPackage inp p r = Inl e
      | Inr st' \<Rightarrow> step_ok inp r st st' \<and>
          (\<forall>p \<in> set ps. \<exists>s. ownerOfPackage inp p r = Inr s \<and> (s \<in> set (ci_provided inp) \<or> s \<in> set (cs_included st'))))"
proof (induction inp r ps st rule: admit_packages.induct)
  case (2 inp r p ps st)
  show ?case
  proof (cases "ownerOfPackage inp p r")
    case (Inr s)
    let ?st = "admit (ci_provided inp) False s st"
    have "needs inp r s" using Inr "2.prems"(4) by (auto simp: needs_def)
    then have step: "step_ok inp r st ?st" using "2.prems" by (intro admit_step_ok)
    have IH: "case admit_packages inp r ps ?st of
        Inl e \<Rightarrow> \<exists>p \<in> set ps. ownerOfPackage inp p r = Inl e
      | Inr st' \<Rightarrow> step_ok inp r ?st st' \<and>
          (\<forall>p \<in> set ps. \<exists>s. ownerOfPackage inp p r = Inr s \<and> (s \<in> set (ci_provided inp) \<or> s \<in> set (cs_included st')))"
      using "2.IH" [OF Inr] "2.prems" step_ok_inv [OF step] by simp
    show ?thesis
    proof (cases "admit_packages inp r ps ?st")
      case (Inr st')
      then have "step_ok inp r ?st st'" using IH by simp
      moreover from this have "s \<in> set (ci_provided inp) \<or> s \<in> set (cs_included st')" by (auto simp: step_ok_def)
      ultimately show ?thesis
        using step_ok_trans [OF step] IH Inr \<open>ownerOfPackage inp p r = Inr s\<close> by simp
    qed (use IH Inr in simp)
  qed simp
qed (simp add: step_ok_refl)

lemma fold_admit_ok:
  "finite (reached inp) \<Longrightarrow> closure_inv inp {r} st \<Longrightarrow> r \<in> reached inp \<Longrightarrow> \<forall>s \<in> set ss. needs inp r s \<Longrightarrow>
     step_ok inp r st (fold (admit (ci_provided inp) False) ss st)"
proof (induction ss arbitrary: st)
  case (Cons s ss)
  have step: "step_ok inp r st (admit (ci_provided inp) False s st)"
    using Cons.prems by (intro admit_step_ok) simp_all
  then show ?case
    using step_ok_trans [OF step Cons.IH [OF Cons.prems(1) step_ok_inv [OF step] Cons.prems(3)]] Cons.prems by simp
qed (simp add: step_ok_refl)

lemma visit_repo_ok:
  assumes fin: "finite (reached inp)" and inv: "closure_inv inp {} st" and p: "cs_pending st = r # rest"
  shows "case visit_repo inp r (st\<lparr>cs_pending := rest\<rparr>) of
      Inl e \<Rightarrow> \<exists>p \<in> set (packageDependenciesOf inp r). ownerOfPackage inp p r = Inl e
    | Inr st' \<Rightarrow> closure_inv inp {} st' \<and> work inp st' < work inp st"
proof -
  let ?st = "st\<lparr>cs_pending := rest\<rparr>"
  have r: "r \<in> reached inp" "r \<in> set (cs_included st)" using inv p by (auto simp: closure_inv_def)
  have inv': "closure_inv inp {r} ?st" using inv p by (auto simp: closure_inv_def)
  have less: "work inp ?st < work inp st" using p by (simp add: work_def)
  note packages = admit_packages_ok [OF fin inv' r(1) order_refl]
  show ?thesis
  proof (cases "admit_packages inp r (packageDependenciesOf inp r) ?st")
    case (Inr st1)
    then have one: "step_ok inp r ?st st1" and owners: "\<forall>p \<in> set (packageDependenciesOf inp r).
        \<exists>s. ownerOfPackage inp p r = Inr s \<and> (s \<in> set (ci_provided inp) \<or> s \<in> set (cs_included st1))"
      using packages by simp_all
    let ?st2 = "fold (admit (ci_provided inp) False) (requiredRepositoriesOf inp r) st1"
    have two: "step_ok inp r st1 ?st2"
      using step_ok_inv [OF one] fin r(1) by (intro fold_admit_ok) (auto simp: needs_def)
    have inv2: "closure_inv inp {r} ?st2" by (rule step_ok_inv [OF two])
    have edges: "s \<in> set (cs_included ?st2)" if "needs inp r s" "s \<notin> set (ci_provided inp)" for s
      using that owners by (auto simp: needs_def)
    have "ok (ownerOfPackage inp p r)" if "p \<in> set (packageDependenciesOf inp r)" for p
      using owners that by (auto simp: ok_iff)
    then have "closure_inv inp {} ?st2"
      using inv2 edges unfolding closure_inv_def by blast
    moreover have "work inp ?st2 < work inp st" using one two less by (simp add: step_ok_def)
    ultimately show ?thesis by (simp add: visit_repo_def Inr)
  qed (use packages in \<open>simp add: visit_repo_def\<close>)
qed

lemma drain_repos_ok:
  assumes "finite (reached inp)" and "closure_inv inp {} st"
  shows "\<exists>res. drain_repos inp st = Some res \<and>
    (case res of Inl e \<Rightarrow> \<exists>r \<in> reached inp. \<exists>p \<in> set (packageDependenciesOf inp r). ownerOfPackage inp p r = Inl e
     | Inr st' \<Rightarrow> closure_inv inp {} st' \<and> cs_pending st' = [])"
  using assms(2)
proof (induction "work inp st" arbitrary: st rule: less_induct)
  case less
  show ?case
  proof (cases "cs_pending st")
    case (Cons r rest)
    have "r \<in> reached inp" using less.prems Cons by (auto simp: closure_inv_def)
    note visit = visit_repo_ok [OF assms(1) less.prems Cons]
    show ?thesis
    proof (cases "visit_repo inp r (st\<lparr>cs_pending := rest\<rparr>)")
      case (Inl e)
      then show ?thesis using visit Cons \<open>r \<in> reached inp\<close> by (subst drain_repos.simps) auto
    next
      case (Inr st')
      then have "drain_repos inp st = drain_repos inp st'" using Cons by (subst drain_repos.simps) simp
      then show ?thesis using visit Inr less.hyps [of st'] by simp
    qed
  qed (subst drain_repos.simps, use less.prems in simp)
qed

lemma closure_start:
  "closure_inv inp {} (fold (admit (ci_provided inp) True) (ci_roots inp)
     \<lparr>cs_included = [], cs_required = [], cs_pending = []\<rparr>)" (is "closure_inv inp {} ?st")
proof -
  have "set rs \<subseteq> set (ci_roots inp) \<Longrightarrow>
      distinct (cs_included st) \<and> set (cs_included st) \<subseteq> set (ci_roots inp) - set (ci_provided inp) \<and>
      cs_pending st = cs_included st \<and> cs_required st = [] \<Longrightarrow>
      (let st' = fold (admit (ci_provided inp) True) rs st in
         distinct (cs_included st') \<and> set (cs_included st') \<subseteq> set (ci_roots inp) - set (ci_provided inp) \<and>
         cs_pending st' = cs_included st' \<and> cs_required st' = [])" for rs st
    by (induction rs arbitrary: st) (auto simp: admit_def Let_def)
  from this [of "ci_roots inp" "\<lparr>cs_included = [], cs_required = [], cs_pending = []\<rparr>"]
  have "distinct (cs_included ?st)" "set (cs_included ?st) \<subseteq> set (ci_roots inp) - set (ci_provided inp)"
    "cs_pending ?st = cs_included ?st" "cs_required ?st = []" by (simp_all add: Let_def)
  then show ?thesis by (auto simp: closure_inv_def reached_root)
qed

lemma closure_complete:
  assumes "closure_inv inp {} st" and "cs_pending st = []"
  shows "set (cs_included st) = reached inp"
proof
  show "set (cs_included st) \<subseteq> reached inp" using assms(1) by (simp add: closure_inv_def)
  have "r \<in> reached inp \<Longrightarrow> r \<in> set (cs_included st)" for r
    by (induction rule: reached.induct) (use assms in \<open>auto simp: closure_inv_def\<close>)
  then show "reached inp \<subseteq> set (cs_included st)" by blast
qed

subsection \<open>Composition\<close>

record snapshot_file =
  sf_path :: ustring
  sf_contentHash :: ustring
  sf_size :: nat
  sf_mode :: nat

record 'b template_layer =
  tl_label :: ustring
  tl_files :: "snapshot_file list"
  tl_readFile :: "ustring \<Rightarrow> 'b option"

record 'b composed_tree =
  ct_files :: "snapshot_file list"
  ct_readFile :: "ustring \<Rightarrow> 'b option"

datatype composition_error = PathFromBoth ustring ustring ustring

type_synonym 'b placement = "(ustring, 'b template_layer \<times> snapshot_file) jsmap"

fun place_files ::
  "ustring list \<Rightarrow> 'b template_layer \<Rightarrow> snapshot_file list \<Rightarrow> 'b placement \<Rightarrow> composition_error + 'b placement" where
  "place_files composed layer [] placed = Inr placed"
| "place_files composed layer (f # fs) placed =
     (if sf_path f \<in> set composed then place_files composed layer fs placed
      else case map_of placed (sf_path f) of
        Some existing \<Rightarrow> Inl (PathFromBoth (sf_path f) (tl_label (fst existing)) (tl_label layer))
      | None \<Rightarrow> place_files composed layer fs (jset (sf_path f) (layer, f) placed))"

fun place_layers :: "ustring list \<Rightarrow> 'b template_layer list \<Rightarrow> 'b placement \<Rightarrow> composition_error + 'b placement" where
  "place_layers composed [] placed = Inr placed"
| "place_layers composed (l # ls) placed =
     (case place_files composed l (tl_files l) placed of
        Inl e \<Rightarrow> Inl e
      | Inr placed' \<Rightarrow> place_layers composed ls placed')"

definition composeTemplateLayers :: "'b template_layer list \<Rightarrow> ustring list \<Rightarrow> composition_error + 'b composed_tree" where
  "composeTemplateLayers layers composed =
     (case place_layers composed layers [] of
        Inl e \<Rightarrow> Inl e
      | Inr placed \<Rightarrow> Inr \<lparr>ct_files = sort_utf16 sf_path (map snd (jvalues placed)),
          ct_readFile = (\<lambda>path. case map_of placed path of None \<Rightarrow> None | Some p \<Rightarrow> tl_readFile (fst p) path)\<rparr>)"

text \<open>The files that are taken from a layer, and from all layers in order.\<close>

definition taken :: "ustring list \<Rightarrow> 'b template_layer list \<Rightarrow> ('b template_layer \<times> snapshot_file) list" where
  "taken composed layers =
     concat (map (\<lambda>l. map (Pair l) (filter (\<lambda>f. sf_path f \<notin> set composed) (tl_files l))) layers)"

abbreviation path_of :: "'b template_layer \<times> snapshot_file \<Rightarrow> ustring" where
  "path_of p \<equiv> sf_path (snd p)"

definition keyed_placement :: "('b template_layer \<times> snapshot_file) list \<Rightarrow> 'b placement" where
  "keyed_placement ps = map (\<lambda>p. (path_of p, p)) ps"

lemma keyed_placement_mem: "k \<in> fst ` set (keyed_placement ps) \<longleftrightarrow> k \<in> path_of ` set ps"
  by (simp add: keyed_placement_def image_image)

text \<open>The outcome of placing \<open>qs\<close> in order: the first path that comes again is an error.\<close>

definition places :: "('b template_layer \<times> snapshot_file) list \<Rightarrow> composition_error + 'b placement \<Rightarrow> bool" where
  "places qs res \<longleftrightarrow> (if distinct (map path_of qs) then res = Inr (keyed_placement qs) else \<not> ok res)"

lemma place_files_spec:
  "distinct (map path_of ps) \<Longrightarrow>
     places (ps @ map (Pair layer) (filter (\<lambda>f. sf_path f \<notin> set composed) fs))
       (place_files composed layer fs (keyed_placement ps))"
proof (induction fs arbitrary: ps)
  case (Cons f fs)
  show ?case
  proof (cases "sf_path f \<in> set composed")
    case False
    show ?thesis
    proof (cases "map_of (keyed_placement ps) (sf_path f)")
      case None
      then have fresh: "sf_path f \<notin> path_of ` set ps" "sf_path f \<notin> fst ` set (keyed_placement ps)"
        unfolding keyed_placement_mem [symmetric] by (simp_all only: map_of_eq_None_iff not_False_eq_True)
      then have "jset (sf_path f) (layer, f) (keyed_placement ps) = keyed_placement (ps @ [(layer, f)])"
        unfolding jset_fresh [OF fresh(2)] by (simp add: keyed_placement_def)
      then show ?thesis using Cons.IH [of "ps @ [(layer, f)]"] Cons.prems fresh(1) False None by simp
    next
      case (Some x)
      then have "sf_path f \<in> path_of ` set ps"
        unfolding keyed_placement_mem [symmetric] by (force dest: map_of_SomeD)
      then show ?thesis using False Some by (auto simp: places_def)
    qed
  qed (use Cons in simp)
qed (simp add: places_def)

lemma place_layers_spec:
  "distinct (map path_of ps) \<Longrightarrow> places (ps @ taken composed ls) (place_layers composed ls (keyed_placement ps))"
proof (induction ls arbitrary: ps)
  case (Cons l ls)
  let ?qs = "ps @ map (Pair l) (filter (\<lambda>f. sf_path f \<notin> set composed) (tl_files l))"
  have all: "ps @ taken composed (l # ls) = ?qs @ taken composed ls" by (simp add: taken_def)
  note files = place_files_spec [OF Cons.prems, of l composed "tl_files l"]
  show ?case
  proof (cases "distinct (map path_of ?qs)")
    case True
    then have "place_files composed l (tl_files l) (keyed_placement ps) = Inr (keyed_placement ?qs)"
      using files by (simp only: places_def if_True)
    then have "place_layers composed (l # ls) (keyed_placement ps) = place_layers composed ls (keyed_placement ?qs)"
      by simp
    then show ?thesis using Cons.IH [OF True] by (simp only: all)
  next
    case False
    then have "\<not> ok (place_files composed l (tl_files l) (keyed_placement ps))"
      using files by (simp only: places_def if_False simp_thms)
    then have "\<not> ok (place_layers composed (l # ls) (keyed_placement ps))"
      by (cases "place_files composed l (tl_files l) (keyed_placement ps)") simp_all
    moreover have "\<not> distinct (map path_of (?qs @ taken composed ls))"
      using False by (metis distinct_append map_append)
    ultimately show ?thesis by (simp only: all places_def if_False not_False_eq_True simp_thms)
  qed
qed (simp add: taken_def places_def)

section \<open>Properties\<close>

text \<open>
  C39. The walk over the repositories of a template ends, with all and only what it needs. When
  finitely many repositories can be reached, it returns: either everything reachable from the
  declared repositories without passing one that a dependency provides, sorted and without
  duplicates, with the pulled-in ones disclosed as required, and then every package has an owner;
  or the error of a package of a reachable repository that has none.
\<close>

theorem template_closure_terminates:
  assumes "finite (reached inp)"
  shows "\<exists>res. resolveTemplateClosure inp = Some res \<and>
    (case res of
       Inl e \<Rightarrow> \<exists>r \<in> reached inp. \<exists>p \<in> set (packageDependenciesOf inp r). ownerOfPackage inp p r = Inl e
     | Inr c \<Rightarrow> set (tc_included c) = reached inp \<and> set (tc_required c) = reached inp - set (ci_roots inp) \<and>
         distinct (tc_included c) \<and> distinct (tc_required c) \<and>
         sorted_wrt (\<lambda>x y. compareUtf16CodeUnits x y \<le> 0) (tc_included c) \<and>
         (\<forall>r \<in> reached inp. \<forall>p \<in> set (packageDependenciesOf inp r). ok (ownerOfPackage inp p r)))"
proof -
  obtain res where drain: "drain_repos inp (fold (admit (ci_provided inp) True) (ci_roots inp)
      \<lparr>cs_included = [], cs_required = [], cs_pending = []\<rparr>) = Some res"
    and res: "case res of Inl e \<Rightarrow> \<exists>r \<in> reached inp. \<exists>p \<in> set (packageDependenciesOf inp r). ownerOfPackage inp p r = Inl e
     | Inr st' \<Rightarrow> closure_inv inp {} st' \<and> cs_pending st' = []"
    using drain_repos_ok [OF assms closure_start] by blast
  show ?thesis
  proof (cases res)
    case (Inr st)
    then have inv: "closure_inv inp {} st" and empty: "cs_pending st = []" using res by simp_all
    note all = closure_complete [OF inv empty]
    have "set (cs_required st) = reached inp - set (ci_roots inp)" "distinct (cs_required st)" "distinct (cs_included st)"
      "\<forall>r \<in> reached inp. \<forall>p \<in> set (packageDependenciesOf inp r). ok (ownerOfPackage inp p r)"
      using inv all empty by (auto simp: closure_inv_def)
    then show ?thesis
      using drain all sort_utf16_sorted [of "\<lambda>r. r" "cs_included st"]
        distinct_sort_utf16 [of "\<lambda>r. r" "\<lambda>r. r" "cs_included st"] distinct_sort_utf16 [of "\<lambda>r. r" "\<lambda>r. r" "cs_required st"]
      by (simp add: resolveTemplateClosure_def Inr)
  qed (use drain res in \<open>simp add: resolveTemplateClosure_def\<close>)
qed

text \<open>
  C40. Composing the layers of a workspace takes every file once or refuses. It succeeds exactly
  when no path, the composed ones apart, is in two layers or twice in one; the tree then has
  exactly the files of the layers, in canonical order, and each of them reads as its own layer
  gives it: no layer silently overrides another.
\<close>

theorem composition_uncontested:
  "(ok (composeTemplateLayers layers composed) \<longleftrightarrow> distinct (map path_of (taken composed layers))) \<and>
   (case composeTemplateLayers layers composed of Inl e \<Rightarrow> True
    | Inr t \<Rightarrow> mset (ct_files t) = mset (map snd (taken composed layers)) \<and>
        sorted_wrt (\<lambda>f g. compareUtf16CodeUnits (sf_path f) (sf_path g) \<le> 0) (ct_files t) \<and>
        list_all (\<lambda>(l, f). ct_readFile t (sf_path f) = tl_readFile l (sf_path f)) (taken composed layers) \<and>
        dom (ct_readFile t) \<subseteq> sf_path ` set (ct_files t))"
proof -
  let ?qs = "taken composed layers"
  have place: "if distinct (map path_of ?qs) then place_layers composed layers [] = Inr (keyed_placement ?qs)
      else \<not> ok (place_layers composed layers [])"
    using place_layers_spec [of "[]" composed layers] by (simp add: keyed_placement_def places_def del: if_split)
  show ?thesis
  proof (cases "distinct (map path_of ?qs)")
    case True
    have look: "map_of (keyed_placement ?qs) (path_of p) = Some p" if "p \<in> set ?qs" for p
      using that True by (intro map_of_is_SomeI) (auto simp: keyed_placement_def comp_def)
    have none: "map_of (keyed_placement ?qs) path = Some p \<Longrightarrow> path \<in> sf_path ` snd ` set ?qs" for path p
      by (force simp: keyed_placement_def dest!: map_of_SomeD)
    have "jvalues (keyed_placement ?qs) = ?qs" by (simp add: keyed_placement_def comp_def)
    then show ?thesis
      using True place look sort_utf16_sorted [of sf_path "map snd ?qs"]
      by (auto simp: composeTemplateLayers_def sort_utf16_perm list_all_iff dest: none split: option.splits)
  next
    case False
    then show ?thesis using place by (auto simp: composeTemplateLayers_def ok_def split: sum.splits)
  qed
qed

theorem template_closure_terminates_witness:
  "\<exists>c. resolveTemplateClosure \<lparr>ci_roots = [ascii ''a''], ci_provided = [],
     packageDependenciesOf = (\<lambda>r. if r = ascii ''a'' then [ascii ''p''] else []),
     ownerOfPackage = (\<lambda>p r. Inr (ascii ''b'') :: unit + ustring), requiredRepositoriesOf = (\<lambda>r. [])\<rparr> = Some c"
proof -
  let ?inp = "\<lparr>ci_roots = [ascii ''a''], ci_provided = [],
     packageDependenciesOf = (\<lambda>r. if r = ascii ''a'' then [ascii ''p''] else []),
     ownerOfPackage = (\<lambda>p r. Inr (ascii ''b'') :: unit + ustring), requiredRepositoriesOf = (\<lambda>r. [])\<rparr>"
  have "r \<in> reached ?inp \<Longrightarrow> r \<in> {ascii ''a'', ascii ''b''}" for r
    by (induction rule: reached.induct) (auto simp: needs_def split: if_splits)
  then have "finite (reached ?inp)" by (meson finite.emptyI finite.insertI finite_subset subsetI)
  from template_closure_terminates [OF this] show ?thesis by blast
qed

end
