(* ===== verification/TemplateDeps.thy ===== *)
theory TemplateDeps
  imports Utf16
begin

text \<open>
  The dependencies of a template (\<^verbatim>\<open>packages/workspace/src/templateDependencies.ts\<close>): declared
  addresses are resolved to exact layers, and the layers are put into dependency-first order.
  The spelling of addresses is that of \<^verbatim>\<open>remoteUrl.ts\<close> and \<^verbatim>\<open>templateCoordinates.ts\<close>. The URL parser of
  the runtime, the Git remote (\<open>resolveTrack\<close>) and the reader of a layer are parameters; each may
  fail.
\<close>

subsection \<open>Addresses\<close>

record parsed_url =
  pu_protocol :: ustring
  pu_username :: ustring
  pu_password :: ustring
  pu_search :: ustring
  pu_hash :: ustring
  pu_href :: ustring

datatype url_error = RemoteUrlRequired | InvalidRemoteUrl ustring | NotHttp ustring | EmbeddedCredentials | QueryOrFragment

definition normalizeRemoteUrl :: "(ustring \<Rightarrow> parsed_url option) \<Rightarrow> ustring \<Rightarrow> url_error + ustring" where
  "normalizeRemoteUrl parse value =
     (if js_trim value = [] then Inl RemoteUrlRequired
      else case parse (js_trim value) of
        None \<Rightarrow> Inl (InvalidRemoteUrl value)
      | Some url \<Rightarrow>
          if pu_protocol url \<noteq> ascii ''https:'' \<and> pu_protocol url \<noteq> ascii ''http:'' then Inl (NotHttp value)
          else if pu_username url \<noteq> [] \<or> pu_password url \<noteq> [] then Inl EmbeddedCredentials
          else if pu_search url \<noteq> [] \<or> pu_hash url \<noteq> [] then Inl QueryOrFragment
          else Inr (pu_href url))"

definition templateGitTransportUrl :: "ustring \<Rightarrow> ustring" where
  "templateGitTransportUrl value =
     (if startsWith (ascii ''git+'') value then drop (length (ascii ''git+'')) value else value)"

definition normalizeTemplateGitUrl :: "(ustring \<Rightarrow> parsed_url option) \<Rightarrow> ustring \<Rightarrow> url_error + ustring" where
  "normalizeTemplateGitUrl parse value =
     (case normalizeRemoteUrl parse (templateGitTransportUrl value) of
        Inl e \<Rightarrow> Inl e
      | Inr href \<Rightarrow> Inr (ascii ''git+'' @ href))"

text \<open>\<open>toLowerCase\<close> on commits, whose schema admits hexadecimal digits only.\<close>

definition lower_unit :: "code_unit \<Rightarrow> code_unit" where
  "lower_unit u = (if 65 \<le> u \<and> u \<le> 90 then u + 32 else u)"

definition toLowerCase :: "ustring \<Rightarrow> ustring" where
  "toLowerCase s = map lower_unit s"

subsection \<open>Declarations and layers\<close>

definition DEFAULT_TEMPLATE_DEPENDENCY_TRACK :: ustring where
  "DEFAULT_TEMPLATE_DEPENDENCY_TRACK = ascii ''refs/tags/v*''"

record dependency =
  dp_url :: ustring
  dp_credential :: "ustring option"
  dp_commit :: "ustring option"
  dp_track :: "ustring option"

record source_pin =
  sp_url :: ustring
  sp_ref :: ustring
  sp_commit :: ustring

record resolved_layer =
  rl_url :: ustring
  rl_track :: ustring
  rl_ref :: ustring
  rl_commit :: ustring
  rl_credential :: "ustring option"
  rl_pinned :: bool
  rl_requestedBy :: "ustring list"

record url_constraint =
  co_tracks :: "ustring list"
  co_commits :: "ustring list"
  co_requestedBy :: "ustring list"
  co_credential :: "ustring option"

datatype 'e deps_error =
    BadUrl url_error
  | PinnedToBoth ustring ustring ustring
  | DeclaresItself ustring
  | ResolvedBefore ustring ustring ustring      \<comment> \<open>the address, its resolved commit, the required one\<close>
  | FollowedAtBoth ustring ustring ustring
  | TwoCommits ustring "ustring list"
  | TwoTracks ustring "ustring list"
  | DependencyCycle "ustring list"
  | Rejected 'e

record 'e deps_input =
  di_parse :: "ustring \<Rightarrow> parsed_url option"
  di_sourcePins :: "source_pin list"
  di_label :: ustring
  di_dependencies :: "dependency list"
  readDependencies :: "resolved_layer \<Rightarrow> 'e + dependency list"
  resolveTrack :: "ustring \<Rightarrow> ustring \<Rightarrow> ustring option \<Rightarrow> 'e + ustring \<times> ustring"   \<comment> \<open>ref and commit\<close>

record dep_state =
  ds_constraints :: "(ustring, url_constraint) jsmap"
  ds_resolved :: "(ustring, resolved_layer) jsmap"
  ds_edges :: "(ustring, ustring list) jsmap"
  ds_queue :: "ustring list"

fun source_pins :: "(ustring \<Rightarrow> parsed_url option) \<Rightarrow> source_pin list \<Rightarrow> (ustring, source_pin) jsmap \<Rightarrow>
    'e deps_error + (ustring, source_pin) jsmap" where
  "source_pins parse [] pins = Inr pins"
| "source_pins parse (p # ps) pins =
     (case normalizeTemplateGitUrl parse (sp_url p) of
        Inl e \<Rightarrow> Inl (BadUrl e)
      | Inr url \<Rightarrow>
          (let commit = toLowerCase (sp_commit p);
               add = jset url (p\<lparr>sp_url := url, sp_commit := commit\<rparr>) pins
           in case map_of pins url of
                Some existing \<Rightarrow>
                  if sp_commit existing \<noteq> commit then Inl (PinnedToBoth url (sp_commit existing) commit)
                  else source_pins parse ps add
              | None \<Rightarrow> source_pins parse ps add))"

definition dependency_track :: "dependency \<Rightarrow> ustring" where
  "dependency_track d = (case dp_track d of None \<Rightarrow> DEFAULT_TEMPLATE_DEPENDENCY_TRACK | Some t \<Rightarrow> t)"

definition new_constraint :: "source_pin option \<Rightarrow> url_constraint" where
  "new_constraint pin =
     (case pin of
        None \<Rightarrow> \<lparr>co_tracks = [], co_commits = [], co_requestedBy = [], co_credential = None\<rparr>
      | Some p \<Rightarrow> \<lparr>co_tracks = [], co_commits = [sp_commit p], co_requestedBy = [ascii ''host release''],
          co_credential = None\<rparr>)"

definition constrain :: "ustring \<Rightarrow> dependency \<Rightarrow> url_constraint \<Rightarrow> url_constraint" where
  "constrain src d c =
     c\<lparr>co_requestedBy := co_requestedBy c @ [src],
       co_credential := (case present (dp_credential d) of None \<Rightarrow> co_credential c | Some k \<Rightarrow> Some k),
       co_commits := (case present (dp_commit d) of Some k \<Rightarrow> set_add (toLowerCase k) (co_commits c) | None \<Rightarrow> co_commits c),
       co_tracks := (case present (dp_commit d) of
           Some k \<Rightarrow> co_tracks c | None \<Rightarrow> set_add (dependency_track d) (co_tracks c))\<rparr>"

text \<open>A declaration that comes after its address was resolved can only agree or conflict.\<close>

definition agreement :: "ustring \<Rightarrow> dependency \<Rightarrow> resolved_layer option \<Rightarrow> 'e deps_error + unit" where
  "agreement url d existing =
     (case existing of
        None \<Rightarrow> Inr ()
      | Some l \<Rightarrow>
          (case present (dp_commit d) of
             Some commit \<Rightarrow>
               if rl_commit l \<noteq> toLowerCase commit then Inl (ResolvedBefore url (rl_commit l) commit) else Inr ()
           | None \<Rightarrow>
               if \<not> rl_pinned l \<and> dependency_track d \<noteq> rl_track l
               then Inl (FollowedAtBoth url (rl_track l) (dependency_track d)) else Inr ()))"

definition declare_dependency ::
  "'e deps_input \<Rightarrow> (ustring, source_pin) jsmap \<Rightarrow> ustring \<Rightarrow> dependency \<Rightarrow> dep_state \<Rightarrow>
   'e deps_error + dep_state" where
  "declare_dependency inp pins src d st =
     (case normalizeTemplateGitUrl (di_parse inp) (dp_url d) of
        Inl e \<Rightarrow> Inl (BadUrl e)
      | Inr url \<Rightarrow>
          if url = src then Inl (DeclaresItself url)
          else
            (let known = map_of (ds_constraints st) url;
                 c = (case known of None \<Rightarrow> new_constraint (map_of pins url) | Some c \<Rightarrow> c);
                 st1 = st\<lparr>ds_constraints := jset url (constrain src d c) (ds_constraints st),
                   ds_queue := (if known = None then ds_queue st @ [url] else ds_queue st)\<rparr>
             in case agreement url d (map_of (ds_resolved st) url) of
                  Inl e \<Rightarrow> Inl e
                | Inr _ \<Rightarrow> Inr (st1\<lparr>ds_edges := (case map_of (ds_edges st) src of
                      Some outgoing \<Rightarrow> jset src (outgoing @ [url]) (ds_edges st)
                    | None \<Rightarrow> jset src [url] (ds_edges st))\<rparr>)))"

fun declare_all ::
  "'e deps_input \<Rightarrow> (ustring, source_pin) jsmap \<Rightarrow> ustring \<Rightarrow> dependency list \<Rightarrow> dep_state \<Rightarrow>
   'e deps_error + dep_state" where
  "declare_all inp pins src [] st = Inr st"
| "declare_all inp pins src (d # ds) st =
     (case declare_dependency inp pins src d st of
        Inl e \<Rightarrow> Inl e
      | Inr st' \<Rightarrow> declare_all inp pins src ds st')"

subsection \<open>Resolving\<close>

text \<open>What the constraint of an address selects, or the two commits or tracks that it is torn between.\<close>

definition select_layer :: "'e deps_input \<Rightarrow> (ustring, source_pin) jsmap \<Rightarrow> ustring \<Rightarrow> url_constraint \<Rightarrow>
    'e deps_error + resolved_layer" where
  "select_layer inp pins url c =
     (if length (co_commits c) > 1 then Inl (TwoCommits url (co_commits c))
      else
        (let pinned = present (case co_commits c of [] \<Rightarrow> None | k # _ \<Rightarrow> Some k)
         in if pinned = None \<and> length (co_tracks c) > 1 then Inl (TwoTracks url (co_tracks c))
            else
              (let track = (case co_tracks c of [] \<Rightarrow> DEFAULT_TEMPLATE_DEPENDENCY_TRACK | t # _ \<Rightarrow> t);
                   credential = present (co_credential c);
                   selected = (case pinned of
                       Some commit \<Rightarrow> Inr (case map_of pins url of None \<Rightarrow> track | Some p \<Rightarrow> sp_ref p, commit)
                     | None \<Rightarrow> resolveTrack inp url track credential)
               in case selected of
                    Inl e \<Rightarrow> Inl (Rejected e)
                  | Inr (ref, commit) \<Rightarrow> Inr \<lparr>rl_url = url, rl_track = track, rl_ref = ref,
                      rl_commit = toLowerCase commit, rl_credential = credential, rl_pinned = (pinned \<noteq> None),
                      rl_requestedBy = co_requestedBy c\<rparr>)))"

text \<open>One round of the loop for the address at the front of the queue.\<close>

definition resolve_url :: "'e deps_input \<Rightarrow> (ustring, source_pin) jsmap \<Rightarrow> ustring \<Rightarrow> url_constraint \<Rightarrow> dep_state \<Rightarrow>
    'e deps_error + dep_state" where
  "resolve_url inp pins url c st =
     (case select_layer inp pins url c of
        Inl e \<Rightarrow> Inl e
      | Inr layer \<Rightarrow>
          (let st' = st\<lparr>ds_resolved := jset url layer (ds_resolved st)\<rparr>
           in case readDependencies inp layer of
                Inl e \<Rightarrow> Inl (Rejected e)
              | Inr ds \<Rightarrow> declare_all inp pins url ds st'))"

partial_function (option) drain_queue ::
  "'e deps_input \<Rightarrow> (ustring, source_pin) jsmap \<Rightarrow> dep_state \<Rightarrow> ('e deps_error + dep_state) option" where
  "drain_queue inp pins st =
     (case ds_queue st of
        [] \<Rightarrow> Some (Inr st)
      | url # rest \<Rightarrow>
          (case map_of (ds_constraints st) url of
             None \<Rightarrow> None   \<comment> \<open>never: a queued address has a constraint\<close>
           | Some c \<Rightarrow>
               (case resolve_url inp pins url c (st\<lparr>ds_queue := rest\<rparr>) of
                  Inl e \<Rightarrow> Some (Inl e)
                | Inr st' \<Rightarrow> drain_queue inp pins st')))"

subsection \<open>Ordering\<close>

text \<open>
  The depth-first post-order. \<open>active\<close> is as it was whenever a visit returns, so it is passed
  down; \<open>placed\<close> and \<open>layers\<close> are threaded.
\<close>

type_synonym placing = "ustring list \<times> resolved_layer list"

definition unvisited :: "dep_state \<Rightarrow> ustring list \<Rightarrow> nat" where
  "unvisited st active = card (fst ` set (ds_edges st) - set active)"

lemma unvisited_less: "map_of (ds_edges st) u = Some x \<Longrightarrow> u \<notin> set active \<Longrightarrow> unvisited st (set_add u active) < unvisited st active"
  unfolding unvisited_def by (rule psubset_card_mono) (force dest: map_of_SomeD)+

lemma unvisited_add: "unvisited st (set_add u active) \<le> unvisited st active"
  unfolding unvisited_def by (rule card_mono) auto

function visit :: "dep_state \<Rightarrow> ustring list \<Rightarrow> ustring list \<Rightarrow> ustring \<Rightarrow> placing \<Rightarrow> 'e deps_error + placing"
  and visit_all :: "dep_state \<Rightarrow> ustring list \<Rightarrow> ustring list \<Rightarrow> ustring list \<Rightarrow> placing \<Rightarrow> 'e deps_error + placing" where
  "visit st active trail url (placed, layers) =
     (if url \<in> set placed then Inr (placed, layers)
      else if url \<in> set active then Inl (DependencyCycle (trail @ [url]))
      else case visit_all st (set_add url active) (trail @ [url])
             (case map_of (ds_edges st) url of None \<Rightarrow> [] | Some us \<Rightarrow> us) (placed, layers) of
        Inl e \<Rightarrow> Inl e
      | Inr (placed', layers') \<Rightarrow> Inr (set_add url placed',
          case map_of (ds_resolved st) url of None \<Rightarrow> layers' | Some l \<Rightarrow> layers' @ [l]))"
| "visit_all st active trail [] p = Inr p"
| "visit_all st active trail (u # us) p =
     (case visit st active trail u p of
        Inl e \<Rightarrow> Inl e
      | Inr p' \<Rightarrow> visit_all st active trail us p')"
  by pat_completeness auto

termination
proof (relation "measures [\<lambda>x. case x of Inl (st, active, _) \<Rightarrow> unvisited st active | Inr (st, active, _) \<Rightarrow> unvisited st active,
    \<lambda>x. case x of Inl _ \<Rightarrow> 1 | Inr (st, active, trail, us, p) \<Rightarrow> 2 * length us]", goal_cases)
  case (2 st active trail url placed layers)
  then show ?case
    using unvisited_less [of st url _ active] unvisited_add [of st url active] by (cases "map_of (ds_edges st) url") auto
qed auto

definition empty_deps :: dep_state where
  "empty_deps = \<lparr>ds_constraints = [], ds_resolved = [], ds_edges = [], ds_queue = []\<rparr>"

definition resolveTemplateDependencies :: "'e deps_input \<Rightarrow> ('e deps_error + resolved_layer list) option" where
  "resolveTemplateDependencies inp =
     (case source_pins (di_parse inp) (di_sourcePins inp) [] of
        Inl e \<Rightarrow> Some (Inl e)
      | Inr pins \<Rightarrow>
          (case declare_all inp pins (di_label inp) (di_dependencies inp)
               empty_deps of
             Inl e \<Rightarrow> Some (Inl e)
           | Inr st \<Rightarrow>
               (case drain_queue inp pins st of
                  None \<Rightarrow> None
                | Some (Inl e) \<Rightarrow> Some (Inl e)
                | Some (Inr st') \<Rightarrow>
                    (case visit st' [] [] (di_label inp) ([], []) of
                       Inl e \<Rightarrow> Some (Inl e)
                     | Inr (_, layers) \<Rightarrow> Some (Inr layers)))))"

subsection \<open>What the declarations say\<close>

text \<open>The declarations made so far are pairs of who declares and what.\<close>

type_synonym declarations = "(ustring \<times> dependency) list"

abbreviation names_url :: "'e deps_input \<Rightarrow> dependency \<Rightarrow> ustring \<Rightarrow> bool" where
  "names_url inp d u \<equiv> normalizeTemplateGitUrl (di_parse inp) (dp_url d) = Inr u"

definition agrees :: "dependency \<Rightarrow> resolved_layer \<Rightarrow> bool" where
  "agrees d l \<longleftrightarrow> (case present (dp_commit d) of
     Some commit \<Rightarrow> rl_commit l = toLowerCase commit
   | None \<Rightarrow> rl_pinned l \<or> rl_track l = dependency_track d)"

definition records :: "dependency \<Rightarrow> url_constraint \<Rightarrow> bool" where
  "records d c \<longleftrightarrow> (case present (dp_commit d) of
     Some commit \<Rightarrow> toLowerCase commit \<in> set (co_commits c)
   | None \<Rightarrow> dependency_track d \<in> set (co_tracks c))"

inductive_set reach_urls :: "'e deps_input \<Rightarrow> declarations \<Rightarrow> ustring set" for inp ds where
  reach_label: "di_label inp \<in> reach_urls inp ds"
| reach_declared: "(f, d) \<in> set ds \<Longrightarrow> f \<in> reach_urls inp ds \<Longrightarrow> names_url inp d u \<Longrightarrow> u \<in> reach_urls inp ds"

lemma reach_mono: "u \<in> reach_urls inp ds \<Longrightarrow> u \<in> reach_urls inp (ds @ ds')"
  by (induction rule: reach_urls.induct) (auto intro: reach_urls.intros)

definition edges_from :: "dep_state \<Rightarrow> ustring \<Rightarrow> ustring list" where
  "edges_from st u = (case map_of (ds_edges st) u of None \<Rightarrow> [] | Some us \<Rightarrow> us)"

definition declared_from :: "'e deps_input \<Rightarrow> declarations \<Rightarrow> ustring \<Rightarrow> ustring set" where
  "declared_from inp ds f = {u. \<exists>d. (f, d) \<in> set ds \<and> names_url inp d u}"

definition deps_inv :: "'e deps_input \<Rightarrow> declarations \<Rightarrow> dep_state \<Rightarrow> bool" where
  "deps_inv inp ds st \<longleftrightarrow>
     (\<forall>f d. (f, d) \<in> set ds \<longrightarrow> (\<exists>u c. names_url inp d u \<and> u \<noteq> f \<and> map_of (ds_constraints st) u = Some c \<and> records d c)) \<and>
     (\<forall>u. jhas (ds_constraints st) u \<longrightarrow> (\<exists>f d. (f, d) \<in> set ds \<and> f \<in> reach_urls inp ds \<and> names_url inp d u)) \<and>
     (\<forall>f. set (edges_from st f) = declared_from inp ds f) \<and>
     distinct (ds_queue st) \<and>
     (\<forall>u. jhas (ds_constraints st) u \<longleftrightarrow> u \<in> set (ds_queue st) \<or> jhas (ds_resolved st) u) \<and>
     (\<forall>u \<in> set (ds_queue st). \<not> jhas (ds_resolved st) u) \<and>
     (\<forall>u l. map_of (ds_resolved st) u = Some l \<longrightarrow> rl_url l = u \<and>
        (\<forall>f d. (f, d) \<in> set ds \<longrightarrow> names_url inp d u \<longrightarrow> agrees d l))"

lemma deps_invD:
  assumes "deps_inv inp ds st"
  shows deps_recorded: "(f, d) \<in> set ds \<Longrightarrow>
      \<exists>u c. names_url inp d u \<and> u \<noteq> f \<and> map_of (ds_constraints st) u = Some c \<and> records d c"
    and deps_known: "jhas (ds_constraints st) u \<Longrightarrow> \<exists>f d. (f, d) \<in> set ds \<and> f \<in> reach_urls inp ds \<and> names_url inp d u"
    and deps_edges: "set (edges_from st f) = declared_from inp ds f"
    and deps_queue: "distinct (ds_queue st)"
    and deps_split: "jhas (ds_constraints st) u \<longleftrightarrow> u \<in> set (ds_queue st) \<or> jhas (ds_resolved st) u"
    and deps_open: "u \<in> set (ds_queue st) \<Longrightarrow> \<not> jhas (ds_resolved st) u"
    and deps_layer: "map_of (ds_resolved st) u = Some l \<Longrightarrow> rl_url l = u"
    and deps_agree: "map_of (ds_resolved st) u = Some l \<Longrightarrow> (f, d) \<in> set ds \<Longrightarrow> names_url inp d u \<Longrightarrow> agrees d l"
  using assms unfolding deps_inv_def by blast+

lemma toLowerCase_idem [simp]: "toLowerCase (toLowerCase s) = toLowerCase s"
proof -
  have "lower_unit (lower_unit u) = lower_unit u" for u
    by (auto simp: lower_unit_def word_le_nat_alt unat_word_ariths)
  then show ?thesis by (simp add: toLowerCase_def)
qed

lemma toLowerCase_Nil [simp]: "toLowerCase s = [] \<longleftrightarrow> s = []"
  by (simp add: toLowerCase_def)

lemma records_constrain:
  "records d (constrain src d c)" "records d' c \<Longrightarrow> records d' (constrain src d c)"
  by (auto simp: records_def constrain_def split: option.splits)

lemma agreement_agrees: "agreement url d (Some l) = Inr x \<Longrightarrow> agrees d l"
  by (auto simp: agreement_def agrees_def split: option.splits if_splits)

lemma declare_dependency_inv:
  assumes inv: "deps_inv inp ds st" and src: "src \<in> reach_urls inp ds"
    and step: "declare_dependency inp pins src d st = Inr st'"
  shows "\<exists>u. names_url inp d u \<and> deps_inv inp (ds @ [(src, d)]) st' \<and> ds_resolved st' = ds_resolved st \<and>
    (if jhas (ds_constraints st) u then fst ` set (ds_constraints st') = fst ` set (ds_constraints st) \<and> ds_queue st' = ds_queue st
     else fst ` set (ds_constraints st') = insert u (fst ` set (ds_constraints st)) \<and> ds_queue st' = ds_queue st @ [u])"
proof -
  obtain u where u: "names_url inp d u"
    using step by (auto simp: declare_dependency_def split: sum.splits)
  let ?c = "constrain src d (case map_of (ds_constraints st) u of None \<Rightarrow> new_constraint (map_of pins u) | Some c \<Rightarrow> c)"
  have neq: "u \<noteq> src" and agree: "\<And>l. map_of (ds_resolved st) u = Some l \<Longrightarrow> agrees d l"
    and constraints: "ds_constraints st' = jset u ?c (ds_constraints st)"
    and queue: "ds_queue st' = (if jhas (ds_constraints st) u then ds_queue st else ds_queue st @ [u])"
    and resolved: "ds_resolved st' = ds_resolved st"
    and edges: "ds_edges st' = jset src (edges_from st src @ [u]) (ds_edges st)"
    using step u
    by (auto simp: declare_dependency_def Let_def jhas_def edges_from_def agreement_agrees split: sum.splits if_splits option.splits)
  let ?ds = "ds @ [(src, d)]"
  have "\<exists>u' c. names_url inp d' u' \<and> u' \<noteq> f \<and> map_of (ds_constraints st') u' = Some c \<and> records d' c"
    if in_ds: "(f, d') \<in> set ?ds" for f d'
  proof (cases "(f, d') \<in> set ds")
    case True
    then obtain u' c where old: "names_url inp d' u'" "u' \<noteq> f" "map_of (ds_constraints st) u' = Some c" "records d' c"
      using deps_recorded [OF inv] by blast
    show ?thesis
    proof (cases "u' = u")
      case True
      then have "map_of (ds_constraints st') u' = Some (constrain src d c)" using old(3) by (simp add: constraints)
      then show ?thesis using old records_constrain(2) by blast
    next
      case False
      then have "map_of (ds_constraints st') u' = Some c" using old(3) by (simp add: constraints)
      then show ?thesis using old by blast
    qed
  next
    case False
    then have "f = src" "d' = d" using in_ds by auto
    then show ?thesis using u neq records_constrain(1) by (auto simp: constraints)
  qed
  moreover have "\<exists>f d'. (f, d') \<in> set ?ds \<and> f \<in> reach_urls inp ?ds \<and> names_url inp d' u'"
    if known: "jhas (ds_constraints st') u'" for u'
  proof (cases "u' = u")
    case True
    then have "(src, d) \<in> set ?ds \<and> src \<in> reach_urls inp ?ds \<and> names_url inp d u'" using u reach_mono [OF src] by simp
    then show ?thesis by blast
  next
    case False
    then have "jhas (ds_constraints st) u'" using known by (simp add: constraints jhas_def)
    then obtain f d' where old: "(f, d') \<in> set ds" "f \<in> reach_urls inp ds" "names_url inp d' u'"
      using deps_known [OF inv] by blast
    from old(1) have "(f, d') \<in> set ?ds" by simp
    then show ?thesis using reach_mono [OF old(2)] old(3) by blast
  qed
  moreover have "set (edges_from st' f) = declared_from inp ?ds f" for f
  proof -
    have "edges_from st' f = (if f = src then edges_from st src @ [u] else edges_from st f)"
      by (simp add: edges edges_from_def)
    moreover have "declared_from inp ?ds f = (if f = src then insert u (declared_from inp ds f) else declared_from inp ds f)"
      using u by (auto simp: declared_from_def)
    ultimately show ?thesis using deps_edges [OF inv] by auto
  qed
  moreover have "distinct (ds_queue st')"
    using deps_queue [OF inv] deps_split [OF inv, of u] by (simp add: queue)
  moreover have "jhas (ds_constraints st') u' \<longleftrightarrow> u' \<in> set (ds_queue st') \<or> jhas (ds_resolved st') u'" for u'
    using deps_split [OF inv, of u'] by (cases "u' = u") (auto simp: queue resolved constraints jhas_def)
  moreover have "\<not> jhas (ds_resolved st') u'" if "u' \<in> set (ds_queue st')" for u'
    using that deps_open [OF inv, of u'] deps_split [OF inv, of u'] by (auto simp: queue resolved split: if_splits)
  moreover have "rl_url l = u' \<and> (\<forall>f d'. (f, d') \<in> set ?ds \<longrightarrow> names_url inp d' u' \<longrightarrow> agrees d' l)"
    if layer: "map_of (ds_resolved st') u' = Some l" for u' l
  proof -
    have old: "map_of (ds_resolved st) u' = Some l" using layer by (simp add: resolved)
    have "agrees d l" if "names_url inp d u'" using that u agree old by simp
    then show ?thesis using deps_layer [OF inv old] deps_agree [OF inv old] by auto
  qed
  ultimately have "deps_inv inp ?ds st'" unfolding deps_inv_def by blast
  moreover have "fst ` set (ds_constraints st') = insert u (fst ` set (ds_constraints st))"
    by (simp add: constraints)
  ultimately show ?thesis using u resolved queue by (auto simp: jhas_iff insert_absorb)
qed

subsection \<open>The loop ends\<close>

text \<open>\<open>U\<close> bounds the addresses that can come up: those of the root's and of its own layers' declarations.\<close>

definition closed_urls :: "'e deps_input \<Rightarrow> ustring set \<Rightarrow> bool" where
  "closed_urls inp U \<longleftrightarrow>
     (\<forall>d \<in> set (di_dependencies inp). \<forall>u. names_url inp d u \<longrightarrow> u \<in> U) \<and>
     (\<forall>l ds d u. rl_url l \<in> U \<longrightarrow> readDependencies inp l = Inr ds \<longrightarrow> d \<in> set ds \<longrightarrow> names_url inp d u \<longrightarrow> u \<in> U)"

definition known_urls :: "dep_state \<Rightarrow> ustring set" where
  "known_urls st = fst ` set (ds_constraints st)"

definition dep_work :: "ustring set \<Rightarrow> dep_state \<Rightarrow> nat" where
  "dep_work U st = card (U - known_urls st) + length (ds_queue st)"

lemma declare_all_inv:
  "deps_inv inp ds st \<Longrightarrow> src \<in> reach_urls inp ds \<Longrightarrow> declare_all inp pins src xs st = Inr st' \<Longrightarrow>
     finite U \<Longrightarrow> \<forall>d \<in> set xs. \<forall>u. names_url inp d u \<longrightarrow> u \<in> U \<Longrightarrow> known_urls st \<subseteq> U \<Longrightarrow>
     deps_inv inp (ds @ map (Pair src) xs) st' \<and> ds_resolved st' = ds_resolved st \<and>
       dep_work U st' = dep_work U st \<and> known_urls st' \<subseteq> U"
proof (induction xs arbitrary: ds st)
  case (Cons d xs)
  obtain st1 where one: "declare_dependency inp pins src d st = Inr st1"
    and rest: "declare_all inp pins src xs st1 = Inr st'"
    using Cons.prems(3) by (auto split: sum.splits)
  obtain u where u: "names_url inp d u" and inv1: "deps_inv inp (ds @ [(src, d)]) st1"
    and same: "ds_resolved st1 = ds_resolved st"
    and grow: "if jhas (ds_constraints st) u then known_urls st1 = known_urls st \<and> ds_queue st1 = ds_queue st
     else known_urls st1 = insert u (known_urls st) \<and> ds_queue st1 = ds_queue st @ [u]"
    using declare_dependency_inv [OF Cons.prems(1,2) one] unfolding known_urls_def by blast
  have "u \<in> U" using Cons.prems(5) u by simp
  then have known: "known_urls st1 \<subseteq> U" using grow Cons.prems(6) by (auto split: if_splits)
  have "dep_work U st1 = dep_work U st"
  proof (cases "jhas (ds_constraints st) u")
    case False
    then have "u \<in> U - known_urls st" using \<open>u \<in> U\<close> by (simp add: jhas_iff known_urls_def)
    then have "card (U - known_urls st) = Suc (card (U - known_urls st - {u}))"
      using Cons.prems(4) by (metis card.remove finite_Diff)
    moreover have "U - insert u (known_urls st) = U - known_urls st - {u}" by blast
    ultimately show ?thesis using grow False by (simp add: dep_work_def)
  qed (use grow in \<open>simp add: dep_work_def\<close>)
  then show ?case
    using Cons.IH [OF inv1 reach_mono [OF Cons.prems(2)] rest Cons.prems(4) _ known] Cons.prems(5) same by simp
qed simp

definition layer_decls :: "'e deps_input \<Rightarrow> resolved_layer \<Rightarrow> declarations" where
  "layer_decls inp l = (case readDependencies inp l of Inl _ \<Rightarrow> [] | Inr ds \<Rightarrow> map (Pair (rl_url l)) ds)"

definition all_decls :: "'e deps_input \<Rightarrow> (ustring, resolved_layer) jsmap \<Rightarrow> declarations" where
  "all_decls inp resolved =
     map (Pair (di_label inp)) (di_dependencies inp) @ concat (map (layer_decls inp) (jvalues resolved))"

subsection \<open>Where what is selected comes from\<close>

text \<open>Some declaration among \<open>D\<close> names the address and satisfies \<open>P\<close>.\<close>

definition from_decl :: "'e deps_input \<Rightarrow> (ustring \<times> dependency) set \<Rightarrow> ustring \<Rightarrow> (dependency \<Rightarrow> bool) \<Rightarrow> bool" where
  "from_decl inp D u P \<longleftrightarrow> (\<exists>f d. (f, d) \<in> D \<and> names_url inp d u \<and> P d)"

definition asks_commit :: "ustring \<Rightarrow> dependency \<Rightarrow> bool" where
  "asks_commit k d \<longleftrightarrow> (\<exists>c. present (dp_commit d) = Some c \<and> toLowerCase c = k)"

definition asks_track :: "ustring \<Rightarrow> dependency \<Rightarrow> bool" where
  "asks_track t d \<longleftrightarrow> present (dp_commit d) = None \<and> dependency_track d = t"

definition sourced_constraint :: "'e deps_input \<Rightarrow> (ustring, source_pin) jsmap \<Rightarrow> (ustring \<times> dependency) set \<Rightarrow>
    ustring \<Rightarrow> url_constraint \<Rightarrow> bool" where
  "sourced_constraint inp pins D u c \<longleftrightarrow>
     (\<forall>k \<in> set (co_commits c). (\<exists>p. map_of pins u = Some p \<and> sp_commit p = k) \<or> from_decl inp D u (asks_commit k)) \<and>
     (\<forall>t \<in> set (co_tracks c). from_decl inp D u (asks_track t)) \<and>
     (\<forall>k. co_credential c = Some k \<longrightarrow> from_decl inp D u (\<lambda>d. dp_credential d = Some k)) \<and>
     (\<forall>p. map_of pins u = Some p \<longrightarrow> sp_commit p \<in> set (co_commits c))"

definition sourced_layer :: "'e deps_input \<Rightarrow> (ustring, source_pin) jsmap \<Rightarrow> (ustring \<times> dependency) set \<Rightarrow>
    resolved_layer \<Rightarrow> bool" where
  "sourced_layer inp pins D l \<longleftrightarrow>
     (if rl_pinned l
      then (case map_of pins (rl_url l) of
          Some p \<Rightarrow> rl_ref l = sp_ref p \<and> rl_commit l = toLowerCase (sp_commit p)
        | None \<Rightarrow> rl_ref l = rl_track l \<and> from_decl inp D (rl_url l) (asks_commit (rl_commit l)))
      else (\<forall>p. map_of pins (rl_url l) = Some p \<longrightarrow> sp_commit p = []) \<and>
        (\<exists>commit. resolveTrack inp (rl_url l) (rl_track l) (rl_credential l) = Inr (rl_ref l, commit) \<and>
           rl_commit l = toLowerCase commit)) \<and>
     (rl_track l = DEFAULT_TEMPLATE_DEPENDENCY_TRACK \<or> from_decl inp D (rl_url l) (asks_track (rl_track l))) \<and>
     (\<forall>k. rl_credential l = Some k \<longrightarrow> from_decl inp D (rl_url l) (\<lambda>d. dp_credential d = Some k))"

definition sourced :: "'e deps_input \<Rightarrow> (ustring, source_pin) jsmap \<Rightarrow> (ustring \<times> dependency) set \<Rightarrow> dep_state \<Rightarrow> bool" where
  "sourced inp pins D st \<longleftrightarrow>
     (\<forall>u c. map_of (ds_constraints st) u = Some c \<longrightarrow> sourced_constraint inp pins D u c) \<and>
     (\<forall>u l. map_of (ds_resolved st) u = Some l \<longrightarrow> rl_url l = u \<and> sourced_layer inp pins D l)"

lemma from_decl_mono: "from_decl inp D u P \<Longrightarrow> D \<subseteq> D' \<Longrightarrow> from_decl inp D' u P"
  unfolding from_decl_def by blast

lemma sourced_constraint_mono:
  "sourced_constraint inp pins D u c \<Longrightarrow> D \<subseteq> D' \<Longrightarrow> sourced_constraint inp pins D' u c"
  unfolding sourced_constraint_def by (intro conjI) (auto intro: from_decl_mono)

lemma sourced_layer_mono: "sourced_layer inp pins D l \<Longrightarrow> D \<subseteq> D' \<Longrightarrow> sourced_layer inp pins D' l"
  unfolding sourced_layer_def
  by (intro conjI) (auto split: option.splits if_splits intro: from_decl_mono)

lemma sourced_mono: "sourced inp pins D st \<Longrightarrow> D \<subseteq> D' \<Longrightarrow> sourced inp pins D' st"
  unfolding sourced_def by (blast intro: sourced_constraint_mono sourced_layer_mono)

lemma sourced_constrain:
  assumes "sourced_constraint inp pins D u c" and "names_url inp d u" and "(src, d) \<in> D"
  shows "sourced_constraint inp pins D u (constrain src d c)"
proof -
  have new: "from_decl inp D u P" if "P d" for P using that assms(2,3) by (auto simp: from_decl_def)
  have "dp_credential d = Some k" if "present (dp_credential d) = Some k" for k
    using that by (simp add: present_Some)
  then show ?thesis
    using assms(1) new
    by (auto simp: sourced_constraint_def constrain_def asks_commit_def asks_track_def split: option.splits)
qed

lemma sourced_new_constraint: "sourced_constraint inp pins D u (new_constraint (map_of pins u))"
  by (simp add: sourced_constraint_def new_constraint_def split: option.splits)

lemma declare_dependency_sourced:
  assumes "sourced inp pins D st" and "declare_dependency inp pins src d st = Inr st'" and "(src, d) \<in> D"
  shows "sourced inp pins D st'"
proof -
  obtain u where u: "names_url inp d u"
    using assms(2) by (auto simp: declare_dependency_def split: sum.splits)
  let ?c = "case map_of (ds_constraints st) u of None \<Rightarrow> new_constraint (map_of pins u) | Some c \<Rightarrow> c"
  have st': "ds_constraints st' = jset u (constrain src d ?c) (ds_constraints st)" "ds_resolved st' = ds_resolved st"
    using assms(2) u by (auto simp: declare_dependency_def Let_def split: sum.splits if_splits)
  have "sourced_constraint inp pins D u ?c"
    using assms(1) sourced_new_constraint by (auto simp: sourced_def split: option.splits)
  from sourced_constrain [OF this u assms(3)] show ?thesis
    using assms(1) by (auto simp: sourced_def st')
qed

lemma declare_all_sourced:
  "sourced inp pins D st \<Longrightarrow> declare_all inp pins src xs st = Inr st' \<Longrightarrow> Pair src ` set xs \<subseteq> D \<Longrightarrow>
     sourced inp pins D st'"
  by (induction xs arbitrary: st) (auto split: sum.splits dest: declare_dependency_sourced)

lemma select_layer_sourced:
  assumes "sourced_constraint inp pins D u c" and "select_layer inp pins u c = Inr l"
  shows "rl_url l = u \<and> sourced_layer inp pins D l"
proof -
  let ?pinned = "present (case co_commits c of [] \<Rightarrow> None | k # _ \<Rightarrow> Some k)"
  let ?track = "case co_tracks c of [] \<Rightarrow> DEFAULT_TEMPLATE_DEPENDENCY_TRACK | t # _ \<Rightarrow> t"
  have short: "length (co_commits c) \<le> 1" using assms(2) by (simp add: select_layer_def split: if_splits)
  have fields: "rl_url l = u" "rl_track l = ?track" "rl_credential l = present (co_credential c)" "rl_pinned l \<longleftrightarrow> ?pinned \<noteq> None"
    using assms(2) by (auto simp: select_layer_def Let_def split: if_splits sum.splits prod.splits)
  have track: "?track = DEFAULT_TEMPLATE_DEPENDENCY_TRACK \<or> from_decl inp D u (asks_track ?track)"
    using assms(1) by (auto simp: sourced_constraint_def split: list.splits)
  have cred: "from_decl inp D u (\<lambda>d. dp_credential d = Some k)" if "present (co_credential c) = Some k" for k
    using assms(1) that by (simp add: sourced_constraint_def present_Some)
  show ?thesis
  proof (cases ?pinned)
    case None
    then have "resolveTrack inp u ?track (rl_credential l) \<in> {r. \<exists>commit. r = Inr (rl_ref l, commit) \<and> rl_commit l = toLowerCase commit}"
      using assms(2) fields(3) by (auto simp: select_layer_def Let_def split: if_splits sum.splits prod.splits)
    moreover have "sp_commit p = []" if "map_of pins u = Some p" for p
    proof -
      have "sp_commit p \<in> set (co_commits c)" using assms(1) that by (simp add: sourced_constraint_def)
      then have "co_commits c = [sp_commit p]" using short by (cases "co_commits c") auto
      then show ?thesis using None by (simp add: present_def split: if_splits)
    qed
    ultimately show ?thesis using fields None track cred by (auto simp: sourced_layer_def)
  next
    case (Some k)
    then have k: "co_commits c = [k]" using short by (cases "co_commits c") (auto simp: present_def split: if_splits)
    have l: "rl_ref l = (case map_of pins u of None \<Rightarrow> ?track | Some p \<Rightarrow> sp_ref p)" "rl_commit l = toLowerCase k"
      using assms(2) Some by (auto simp: select_layer_def Let_def split: if_splits)
    have "sp_commit p = k" if "map_of pins u = Some p" for p
      using assms(1) that by (simp add: sourced_constraint_def k)
    moreover have "from_decl inp D u (asks_commit (toLowerCase k))" if "map_of pins u = None"
    proof -
      have "from_decl inp D u (asks_commit k)" using assms(1) that by (simp add: sourced_constraint_def k)
      then show ?thesis unfolding from_decl_def asks_commit_def by (metis toLowerCase_idem)
    qed
    ultimately show ?thesis using fields Some l track cred by (auto simp: sourced_layer_def split: option.splits)
  qed
qed

definition loop_inv :: "'e deps_input \<Rightarrow> (ustring, source_pin) jsmap \<Rightarrow> ustring set \<Rightarrow> dep_state \<Rightarrow> bool" where
  "loop_inv inp pins U st \<longleftrightarrow> deps_inv inp (all_decls inp (ds_resolved st)) st \<and> known_urls st \<subseteq> U \<and>
     jwf (ds_resolved st) \<and> (\<forall>l \<in> set (jvalues (ds_resolved st)). ok (readDependencies inp l)) \<and>
     sourced inp pins (set (all_decls inp (ds_resolved st))) st"

lemma single: "length xs \<le> 1 \<Longrightarrow> x \<in> set xs \<Longrightarrow> xs = [x]"
  by (cases xs) auto

lemma select_layer_agrees:
  assumes "select_layer inp pins u c = Inr l"
  shows "rl_url l = u \<and> (\<forall>d. records d c \<longrightarrow> agrees d l)"
proof -
  let ?pinned = "present (case co_commits c of [] \<Rightarrow> None | k # _ \<Rightarrow> Some k)"
  have short: "length (co_commits c) \<le> 1" "?pinned = None \<Longrightarrow> length (co_tracks c) \<le> 1"
    using assms by (auto simp: select_layer_def Let_def split: if_splits)
  have url: "rl_url l = u" and pin: "rl_pinned l \<longleftrightarrow> ?pinned \<noteq> None"
    and track: "rl_track l = (case co_tracks c of [] \<Rightarrow> DEFAULT_TEMPLATE_DEPENDENCY_TRACK | t # _ \<Rightarrow> t)"
    using assms by (auto simp: select_layer_def Let_def split: if_splits sum.splits prod.splits)
  have commit: "rl_commit l = toLowerCase k" if "?pinned = Some k" for k
    using assms that by (auto simp: select_layer_def Let_def split: if_splits)
  have "agrees d l" if "records d c" for d
  proof (cases "present (dp_commit d)")
    case None
    then have "dependency_track d \<in> set (co_tracks c)" using that by (simp add: records_def)
    then have "\<not> rl_pinned l \<Longrightarrow> co_tracks c = [dependency_track d]"
      using short(2) pin by (intro single) simp_all
    then show ?thesis using None track by (cases "rl_pinned l") (simp_all add: agrees_def)
  next
    case (Some k)
    then have "toLowerCase k \<in> set (co_commits c)" using that by (simp add: records_def)
    then have "co_commits c = [toLowerCase k]" using short(1) by (intro single)
    moreover have "k \<noteq> []" using Some by (simp add: present_Some)
    ultimately have "?pinned = Some (toLowerCase k)" by (simp add: present_def)
    then show ?thesis using commit Some by (simp add: agrees_def)
  qed
  then show ?thesis using url by blast
qed

lemma resolve_url_inv:
  assumes inv: "loop_inv inp pins U st" and closed: "finite U" "closed_urls inp U"
    and queue: "ds_queue st = u # rest" and c: "map_of (ds_constraints st) u = Some c"
    and step: "resolve_url inp pins u c (st\<lparr>ds_queue := rest\<rparr>) = Inr st'"
  shows "loop_inv inp pins U st' \<and> dep_work U st' < dep_work U st"
proof -
  let ?ds = "all_decls inp (ds_resolved st)"
  have deps: "deps_inv inp ?ds st" and known: "known_urls st \<subseteq> U" using inv by (simp_all add: loop_inv_def)
  obtain l xs where l: "select_layer inp pins u c = Inr l" and read: "readDependencies inp l = Inr xs"
    and all: "declare_all inp pins u xs (st\<lparr>ds_queue := rest, ds_resolved := jset u l (ds_resolved st)\<rparr>) = Inr st'"
    using step by (auto simp: resolve_url_def Let_def split: sum.splits)
  let ?st = "st\<lparr>ds_queue := rest, ds_resolved := jset u l (ds_resolved st)\<rparr>"
  have url: "rl_url l = u" and agree: "\<And>d. records d c \<Longrightarrow> agrees d l" using select_layer_agrees [OF l] by blast+
  have fresh: "\<not> jhas (ds_resolved st) u" using deps_open [OF deps] queue by simp
  have others: "u \<notin> set rest" using deps_queue [OF deps] queue by simp
  have "deps_inv inp ?ds ?st"
    unfolding deps_inv_def
  proof (intro conjI allI impI ballI)
    fix f d assume "(f, d) \<in> set ?ds"
    then show "\<exists>u c. names_url inp d u \<and> u \<noteq> f \<and> map_of (ds_constraints ?st) u = Some c \<and> records d c"
      using deps_recorded [OF deps] by simp
  next
    fix v assume "jhas (ds_constraints ?st) v"
    then show "\<exists>f d. (f, d) \<in> set ?ds \<and> f \<in> reach_urls inp ?ds \<and> names_url inp d v"
      using deps_known [OF deps] by simp
  next
    fix f show "set (edges_from ?st f) = declared_from inp ?ds f"
      using deps_edges [OF deps] by (simp add: edges_from_def)
  next
    show "distinct (ds_queue ?st)" using deps_queue [OF deps] queue by simp
  next
    fix v show "jhas (ds_constraints ?st) v \<longleftrightarrow> v \<in> set (ds_queue ?st) \<or> jhas (ds_resolved ?st) v"
      using deps_split [OF deps, of v] queue by (auto simp: jhas_def)
  next
    fix v assume "v \<in> set (ds_queue ?st)"
    then show "\<not> jhas (ds_resolved ?st) v" using deps_open [OF deps, of v] queue others by (auto simp: jhas_def)
  next
    fix v k assume v: "map_of (ds_resolved ?st) v = Some k"
    then show "rl_url k = v" using deps_layer [OF deps, of v k] url by (auto split: if_splits)
    fix f d assume d: "(f, d) \<in> set ?ds" "names_url inp d v"
    show "agrees d k"
    proof (cases "v = u")
      case True
      then have "records d c" using deps_recorded [OF deps d(1)] d(2) c by auto
      then show ?thesis using agree v True by simp
    next
      case False
      then show ?thesis using deps_agree [OF deps _ d] v by simp
    qed
  qed
  moreover have "u \<in> reach_urls inp ?ds"
    using deps_known [OF deps, of u] c by (auto simp: jhas_def intro: reach_declared)
  moreover have "\<forall>d \<in> set xs. \<forall>v. names_url inp d v \<longrightarrow> v \<in> U"
  proof -
    have "u \<in> U" using known map_of_SomeD [OF c] by (force simp: known_urls_def)
    then show ?thesis using closed(2) url read unfolding closed_urls_def by blast
  qed
  moreover have "known_urls ?st \<subseteq> U" using known by (simp add: known_urls_def)
  ultimately have after: "deps_inv inp (?ds @ map (Pair u) xs) st'" "ds_resolved st' = ds_resolved ?st"
    "dep_work U st' = dep_work U ?st" "known_urls st' \<subseteq> U"
    using declare_all_inv [OF _ _ all closed(1)] by blast+
  have resolved: "ds_resolved st' = ds_resolved st @ [(u, l)]"
    using fresh after(2) by (simp add: jhas_iff jset_fresh)
  then have "all_decls inp (ds_resolved st') = ?ds @ map (Pair u) xs"
    by (simp add: all_decls_def layer_decls_def read url)
  moreover have "dep_work U ?st < dep_work U st" by (simp add: dep_work_def known_urls_def queue)
  moreover have "jwf (ds_resolved st')" using inv after(2) by (auto simp: loop_inv_def)
  moreover have "sourced inp pins (set (?ds @ map (Pair u) xs)) st'"
  proof (rule declare_all_sourced [OF _ all])
    have src: "sourced inp pins (set (?ds @ map (Pair u) xs)) st"
      using inv by (auto simp: loop_inv_def intro: sourced_mono)
    then have "sourced_constraint inp pins (set (?ds @ map (Pair u) xs)) u c"
      using c unfolding sourced_def by blast
    from select_layer_sourced [OF this l]
    show "sourced inp pins (set (?ds @ map (Pair u) xs)) ?st"
      using src by (auto simp: sourced_def split: if_splits)
  qed auto
  ultimately show ?thesis
    using after(1,3,4) inv read by (auto simp: loop_inv_def resolved simp del: after(2))
qed

text \<open>Only the ordering reports cycles.\<close>

definition not_cyclic :: "'e deps_error + 'a \<Rightarrow> bool" where
  "not_cyclic res \<longleftrightarrow> (\<forall>t. res \<noteq> Inl (DependencyCycle t))"

lemma source_pins_not_cyclic: "not_cyclic (source_pins parse ps pins)"
  by (induction parse ps pins rule: source_pins.induct) (auto simp: not_cyclic_def Let_def split: sum.splits option.splits)

lemma declare_not_cyclic: "not_cyclic (declare_dependency inp pins src d st)"
  by (auto simp: not_cyclic_def declare_dependency_def agreement_def Let_def split: sum.splits option.splits)

lemma declare_all_not_cyclic: "not_cyclic (declare_all inp pins src ds st)"
  by (induction inp pins src ds st rule: declare_all.induct)
    (auto simp: not_cyclic_def declare_not_cyclic [unfolded not_cyclic_def] split: sum.splits)

lemma select_not_cyclic: "not_cyclic (select_layer inp pins u c)"
  by (auto simp: not_cyclic_def select_layer_def Let_def split: sum.splits option.splits)

lemma resolve_not_cyclic: "not_cyclic (resolve_url inp pins u c st)"
  by (auto simp: not_cyclic_def resolve_url_def Let_def declare_all_not_cyclic [unfolded not_cyclic_def]
      select_not_cyclic [unfolded not_cyclic_def] split: sum.splits)

lemma drain_queue_ends:
  assumes "finite U" and "closed_urls inp U" and "loop_inv inp pins U st"
  shows "\<exists>res. drain_queue inp pins st = Some res \<and>
    not_cyclic res \<and> (\<forall>st'. res = Inr st' \<longrightarrow> loop_inv inp pins U st' \<and> ds_queue st' = [])"
  using assms(3)
proof (induction "dep_work U st" arbitrary: st rule: less_induct)
  case less
  show ?case
  proof (cases "ds_queue st")
    case (Cons u rest)
    have deps: "deps_inv inp (all_decls inp (ds_resolved st)) st" using less.prems by (simp add: loop_inv_def)
    then have "jhas (ds_constraints st) u" using deps_split [OF deps, of u] Cons by simp
    then obtain c where c: "map_of (ds_constraints st) u = Some c" by (auto simp: jhas_def)
    show ?thesis
    proof (cases "resolve_url inp pins u c (st\<lparr>ds_queue := rest\<rparr>)")
      case (Inl e)
      moreover from this have "not_cyclic (Inl e :: 'a deps_error + dep_state)"
        using resolve_not_cyclic [of inp pins u c "st\<lparr>ds_queue := rest\<rparr>"] by simp
      ultimately show ?thesis using Cons c by (subst drain_queue.simps) (simp add: not_cyclic_def)
    next
      case (Inr st')
      then have "drain_queue inp pins st = drain_queue inp pins st'" using Cons c by (subst drain_queue.simps) simp
      then show ?thesis
        using resolve_url_inv [OF less.prems assms(1,2) Cons c Inr] less.hyps [of st'] by simp
    qed
  qed (subst drain_queue.simps, use less.prems in \<open>simp add: not_cyclic_def\<close>)
qed

subsection \<open>The order\<close>

definition edge_rel :: "dep_state \<Rightarrow> (ustring \<times> ustring) set" where
  "edge_rel st = {(u, v). v \<in> set (edges_from st u)}"

text \<open>Every address stands after those that it depends on.\<close>

definition topological :: "dep_state \<Rightarrow> ustring list \<Rightarrow> bool" where
  "topological st placed \<longleftrightarrow> (\<forall>xs u ys. placed = xs @ u # ys \<longrightarrow> set (edges_from st u) \<subseteq> set xs)"

lemma topological_Nil [simp]: "topological st []"
  by (simp add: topological_def)

lemma topological_snoc:
  assumes "topological st p" and "set (edges_from st u) \<subseteq> set p"
  shows "topological st (p @ [u])"
  unfolding topological_def
proof (intro allI impI)
  fix xs v ys assume eq: "p @ [u] = xs @ v # ys"
  show "set (edges_from st v) \<subseteq> set xs"
  proof (cases ys rule: rev_cases)
    case Nil
    then show ?thesis using eq assms(2) by simp
  next
    case (snoc ys' w)
    then have "p = xs @ v # ys'" using eq by simp
    then show ?thesis using assms(1) by (simp add: topological_def)
  qed
qed

definition layers_at :: "dep_state \<Rightarrow> ustring list \<Rightarrow> resolved_layer list" where
  "layers_at st placed = List.map_filter (map_of (ds_resolved st)) placed"

lemma layers_at_snoc:
  "layers_at st (p @ [u]) = (case map_of (ds_resolved st) u of None \<Rightarrow> layers_at st p | Some l \<Rightarrow> layers_at st p @ [l])"
  by (simp add: layers_at_def map_filter_def split: option.splits)

definition placed_ok :: "dep_state \<Rightarrow> ustring list \<Rightarrow> placing \<Rightarrow> bool" where
  "placed_ok st active p \<longleftrightarrow> topological st (fst p) \<and> distinct (fst p) \<and> snd p = layers_at st (fst p) \<and>
     set (fst p) \<inter> set active = {}"

text \<open>A cycle is reported with a walk that comes back to where it has been.\<close>

definition real_cycle :: "dep_state \<Rightarrow> 'e deps_error \<Rightarrow> bool" where
  "real_cycle st e \<longleftrightarrow> (\<exists>t. e = DependencyCycle t \<and> t \<noteq> [] \<and> last t \<in> set (butlast t) \<and>
     successively (\<lambda>u v. (u, v) \<in> edge_rel st) t)"

definition extends_placing :: "dep_state \<Rightarrow> ustring set \<Rightarrow> placing \<Rightarrow> placing \<Rightarrow> bool" where
  "extends_placing st roots p p' \<longleftrightarrow> (\<exists>new. fst p' = fst p @ new \<and> (\<forall>v \<in> set new. \<exists>u \<in> roots. (u, v) \<in> (edge_rel st)\<^sup>*)) \<and>
     roots \<subseteq> set (fst p')"

lemma extends_refl: "us \<subseteq> set (fst p) \<Longrightarrow> extends_placing st us p p"
  by (simp add: extends_placing_def)

lemma extends_trans:
  "extends_placing st us p p' \<Longrightarrow> extends_placing st vs p' p'' \<Longrightarrow> extends_placing st (us \<union> vs) p p''"
  by (fastforce simp: extends_placing_def)

lemma placed_ok_add:
  assumes p: "placed_ok st (set_add u active) p" and us: "set (edges_from st u) \<subseteq> set (fst p)" and "u \<notin> set active"
  shows "placed_ok st active (set_add u (fst p),
    case map_of (ds_resolved st) u of None \<Rightarrow> snd p | Some l \<Rightarrow> snd p @ [l])"
proof -
  have "u \<notin> set (fst p)" using p by (auto simp: placed_ok_def)
  then have "set_add u (fst p) = fst p @ [u]" by (simp add: set_add_def)
  moreover have "topological st (fst p @ [u])" using p us by (intro topological_snoc) (simp_all add: placed_ok_def)
  moreover have "distinct (fst p @ [u])" using p \<open>u \<notin> set (fst p)\<close> by (simp add: placed_ok_def)
  moreover have "set (fst p @ [u]) \<inter> set active = {}" using p assms(3) by (auto simp: placed_ok_def)
  moreover have "(case map_of (ds_resolved st) u of None \<Rightarrow> snd p | Some l \<Rightarrow> snd p @ [l]) = layers_at st (fst p @ [u])"
    using p by (simp add: placed_ok_def layers_at_snoc split: option.splits)
  ultimately show ?thesis by (simp add: placed_ok_def del: set_append distinct_append)
qed

lemma extends_add:
  assumes "extends_placing st (set (edges_from st u)) p p'"
  shows "extends_placing st {u} p (set_add u (fst p'), ls)"
proof -
  obtain new where new: "fst p' = fst p @ new" "\<forall>v \<in> set new. \<exists>w \<in> set (edges_from st u). (w, v) \<in> (edge_rel st)\<^sup>*"
    using assms by (auto simp: extends_placing_def)
  have "(u, v) \<in> (edge_rel st)\<^sup>*" if "v \<in> set new" for v
    using new(2) that by (auto simp: edge_rel_def intro: converse_rtrancl_into_rtrancl)
  then show ?thesis
    using new(1) by (cases "u \<in> set (fst p')") (auto simp: extends_placing_def set_add_def)
qed

text \<open>The outcome of visiting \<open>us\<close>.\<close>

definition visited :: "dep_state \<Rightarrow> ustring list \<Rightarrow> ustring set \<Rightarrow> placing \<Rightarrow> 'e deps_error + placing \<Rightarrow> bool" where
  "visited st active us p res \<longleftrightarrow>
     (case res of Inl e \<Rightarrow> real_cycle st e | Inr p' \<Rightarrow> placed_ok st active p' \<and> extends_placing st us p p')"

lemma visited_simps [simp]:
  "visited st active us p (Inl e) \<longleftrightarrow> real_cycle st e"
  "visited st active us p (Inr p') \<longleftrightarrow> placed_ok st active p' \<and> extends_placing st us p p'"
  by (simp_all add: visited_def)

lemma edges_from_case: "(case map_of (ds_edges st) u of None \<Rightarrow> [] | Some us \<Rightarrow> us) = edges_from st u"
  by (simp add: edges_from_def)

lemma visit_correct:
  "placed_ok st active q \<Longrightarrow> set active = set trail \<Longrightarrow>
     successively (\<lambda>u v. (u, v) \<in> edge_rel st) (trail @ [url]) \<Longrightarrow>
     visited st active {url} q (visit st active trail url q :: 'e deps_error + placing)"
  "placed_ok st active p \<Longrightarrow> set active = set trail \<Longrightarrow> trail \<noteq> [] \<Longrightarrow>
     successively (\<lambda>u v. (u, v) \<in> edge_rel st) trail \<Longrightarrow> set us \<subseteq> set (edges_from st (last trail)) \<Longrightarrow>
     visited st active (set us) p (visit_all st active trail us p :: 'e deps_error + placing)"
proof (induction st active trail url q and st active trail us p rule: visit_visit_all.induct [where 'a = 'e])
  case (1 st active trail url placed layers)
  consider "url \<in> set placed" | "url \<notin> set placed" "url \<in> set active" | "url \<notin> set placed" "url \<notin> set active" by blast
  then show ?case
  proof cases
    case 1
    then show ?thesis using "1.prems"(1) by (simp add: extends_refl)
  next
    case 2
    then have "real_cycle st (DependencyCycle (trail @ [url]) :: 'e deps_error)"
      using "1.prems"(2,3) by (simp add: real_cycle_def)
    then show ?thesis using 2 by simp
  next
    case 3
    have start: "placed_ok st (set_add url active) (placed, layers)"
      using "1.prems"(1) 3 by (simp add: placed_ok_def)
    let ?res = "visit_all st (set_add url active) (trail @ [url]) (edges_from st url) (placed, layers) :: 'e deps_error + placing"
    have vis: "visited st (set_add url active) (set (edges_from st url)) (placed, layers) ?res"
      using "1.IH" [OF 3 start] "1.prems"(2,3) by (simp add: edges_from_case)
    show ?thesis
    proof (cases ?res)
      case (Inl e)
      then show ?thesis using vis 3 by (simp add: edges_from_case)
    next
      case (Inr p')
      then have p': "placed_ok st (set_add url active) p'" "extends_placing st (set (edges_from st url)) (placed, layers) p'"
        using vis by simp_all
      have sub: "set (edges_from st url) \<subseteq> set (fst p')" using p'(2) by (simp add: extends_placing_def)
      obtain a b where ab: "p' = (a, b)" by (cases p')
      note placed_ok_add [OF p'(1) sub 3(2), unfolded ab fst_conv snd_conv] extends_add [OF p'(2), unfolded ab fst_conv]
      then show ?thesis using Inr 3 ab by (simp add: edges_from_case)
    qed
  qed
next
  case (2 st active trail p)
  then show ?case by (simp add: extends_refl)
next
  case (3 st active trail u us p)
  have "successively (\<lambda>u v. (u, v) \<in> edge_rel st) (trail @ [u])"
    using "3.prems"(3-5) by (simp add: successively_append_iff edge_rel_def)
  then have one: "visited st active {u} p (visit st active trail u p :: 'e deps_error + placing)"
    using "3.IH"(1) "3.prems"(1,2) by simp
  show ?case
  proof (cases "visit st active trail u p :: 'e deps_error + placing")
    case (Inl e)
    then show ?thesis using one by simp
  next
    case (Inr p')
    then have p': "placed_ok st active p'" "extends_placing st {u} p p'" using one by simp_all
    have "visited st active (set us) p' (visit_all st active trail us p' :: 'e deps_error + placing)"
      using "3.IH"(2) [OF Inr p'(1)] "3.prems"(2-5) by simp
    then show ?thesis
      using Inr extends_trans [OF p'(2)] by (cases "visit_all st active trail us p' :: 'e deps_error + placing") simp_all
  qed
qed

lemma topological_path:
  assumes "topological st placed" and "placed = xs @ u # ys" and "(u, v) \<in> (edge_rel st)\<^sup>+"
  shows "v \<in> set xs"
  using assms(3)
proof (induction rule: trancl_induct)
  case (base v)
  then show ?case using assms(1,2) by (auto simp: topological_def edge_rel_def)
next
  case (step v w)
  obtain as bs where "xs = as @ v # bs" using step.IH by (auto dest: split_list)
  moreover from this have "set (edges_from st v) \<subseteq> set as"
    using assms(1) unfolding topological_def assms(2) by (metis append.assoc append_Cons)
  ultimately show ?case using step.hyps(2) by (auto simp: edge_rel_def)
qed

lemma filter_split:
  "filter P zs = as @ u # bs \<Longrightarrow> \<exists>ps qs. zs = ps @ u # qs \<and> filter P ps = as"
proof (induction zs arbitrary: as)
  case (Cons z zs)
  show ?case
  proof (cases "P z \<and> as = []")
    case True
    then have "z # zs = [] @ u # zs \<and> filter P [] = as" using Cons.prems by simp
    then show ?thesis by blast
  next
    case False
    obtain as' where "filter P zs = as' @ u # bs" and as: "as = (if P z then z # as' else as')"
      using Cons.prems False by (cases as) (auto split: if_splits)
    then obtain ps qs where "zs = ps @ u # qs" "filter P ps = as'" using Cons.IH by blast
    then have "z # zs = (z # ps) @ u # qs \<and> filter P (z # ps) = as" using as by simp
    then show ?thesis by blast
  qed
qed simp

lemma layers_at_map:
  "layers_at st placed = map (\<lambda>u. the (map_of (ds_resolved st) u)) (filter (jhas (ds_resolved st)) placed)"
  by (induction placed) (auto simp: layers_at_def map_filter_def jhas_def)

lemma layers_at_split:
  assumes "layers_at st placed = xs @ l # ys"
  shows "\<exists>ps u qs. placed = ps @ u # qs \<and> layers_at st ps = xs \<and> map_of (ds_resolved st) u = Some l"
proof -
  let ?the = "\<lambda>u. the (map_of (ds_resolved st) u)"
  obtain as u bs where f: "filter (jhas (ds_resolved st)) placed = as @ u # bs" "map ?the as = xs" "?the u = l"
    using assms unfolding layers_at_map by (auto simp: map_eq_append_conv map_eq_Cons_conv)
  obtain ps qs where "placed = ps @ u # qs" "filter (jhas (ds_resolved st)) ps = as" using filter_split [OF f(1)] by blast
  moreover have "jhas (ds_resolved st) u"
    using arg_cong [OF f(1), of set] by auto
  ultimately have "placed = ps @ u # qs \<and> layers_at st ps = xs \<and> map_of (ds_resolved st) u = Some l"
    using f(2,3) by (auto simp: layers_at_map jhas_def)
  then show ?thesis by blast
qed

lemma layers_at_mem: "l \<in> set (layers_at st placed) \<longleftrightarrow> (\<exists>u \<in> set placed. map_of (ds_resolved st) u = Some l)"
  by (force simp: layers_at_map jhas_def)

subsection \<open>A resolved graph\<close>

text \<open>Who declares what: the root its own dependencies, an address those of a layer at it.\<close>

definition declares :: "'e deps_input \<Rightarrow> ustring \<Rightarrow> dependency \<Rightarrow> bool" where
  "declares inp u d \<longleftrightarrow> u = di_label inp \<and> d \<in> set (di_dependencies inp) \<or>
     (\<exists>l ds. rl_url l = u \<and> readDependencies inp l = Inr ds \<and> d \<in> set ds)"

inductive_set wanted_urls :: "'e deps_input \<Rightarrow> resolved_layer list \<Rightarrow> ustring set" for inp layers where
  wanted_root: "d \<in> set (di_dependencies inp) \<Longrightarrow> names_url inp d u \<Longrightarrow> u \<in> wanted_urls inp layers"
| wanted_layer: "l \<in> set layers \<Longrightarrow> rl_url l \<in> wanted_urls inp layers \<Longrightarrow> readDependencies inp l = Inr ds \<Longrightarrow>
    d \<in> set ds \<Longrightarrow> names_url inp d u \<Longrightarrow> u \<in> wanted_urls inp layers"

definition well_ordered :: "'e deps_input \<Rightarrow> resolved_layer list \<Rightarrow> bool" where
  "well_ordered inp layers \<longleftrightarrow> distinct (map rl_url layers) \<and>
     (\<forall>d \<in> set (di_dependencies inp). \<exists>l \<in> set layers. names_url inp d (rl_url l) \<and> agrees d l) \<and>
     (\<forall>xs l ys. layers = xs @ l # ys \<longrightarrow> (\<exists>ds. readDependencies inp l = Inr ds \<and>
        (\<forall>d \<in> set ds. \<exists>k \<in> set xs. names_url inp d (rl_url k) \<and> agrees d k))) \<and>
     (\<forall>l \<in> set layers. rl_url l \<in> wanted_urls inp layers)"

text \<open>
  Where the coordinates of a layer come from. The release pin of an address is the last source pin
  that names it. A dependency of the result is one of the root or of one of its layers.
\<close>

definition release_pin :: "'e deps_input \<Rightarrow> ustring \<Rightarrow> source_pin option" where
  "release_pin inp u =
     find (\<lambda>p. normalizeTemplateGitUrl (di_parse inp) (sp_url p) = Inr u) (rev (di_sourcePins inp))"

definition declared_at :: "'e deps_input \<Rightarrow> resolved_layer list \<Rightarrow> ustring \<Rightarrow> (dependency \<Rightarrow> bool) \<Rightarrow> bool" where
  "declared_at inp layers u P \<longleftrightarrow>
     (\<exists>d. (d \<in> set (di_dependencies inp) \<or> (\<exists>k \<in> set layers. \<exists>ds. readDependencies inp k = Inr ds \<and> d \<in> set ds)) \<and>
        names_url inp d u \<and> P d)"

text \<open>
  A pinned layer has the ref and commit of the release pin of its address, and without one a
  declared commit under its track. Any other layer is what the remote gives for its track with its
  credential, and its address has no release pin (none with a commit). The track is the default
  one or a declared one; a credential is a declared one.
\<close>

definition grounded :: "'e deps_input \<Rightarrow> resolved_layer list \<Rightarrow> resolved_layer \<Rightarrow> bool" where
  "grounded inp layers l \<longleftrightarrow>
     (if rl_pinned l
      then (case release_pin inp (rl_url l) of
          Some p \<Rightarrow> rl_ref l = sp_ref p \<and> rl_commit l = toLowerCase (sp_commit p)
        | None \<Rightarrow> rl_ref l = rl_track l \<and> declared_at inp layers (rl_url l) (asks_commit (rl_commit l)))
      else (\<forall>p. release_pin inp (rl_url l) = Some p \<longrightarrow> sp_commit p = []) \<and>
        (\<exists>commit. resolveTrack inp (rl_url l) (rl_track l) (rl_credential l) = Inr (rl_ref l, commit) \<and>
           rl_commit l = toLowerCase commit)) \<and>
     (rl_track l = DEFAULT_TEMPLATE_DEPENDENCY_TRACK \<or> declared_at inp layers (rl_url l) (asks_track (rl_track l))) \<and>
     (\<forall>k. rl_credential l = Some k \<longrightarrow> declared_at inp layers (rl_url l) (\<lambda>d. dp_credential d = Some k))"

lemma find_snoc: "find P (xs @ [x]) = (case find P xs of None \<Rightarrow> if P x then Some x else None | Some y \<Rightarrow> Some y)"
  by (induction xs) auto

lemma source_pins_release:
  "source_pins parse ps pins = Inr res \<Longrightarrow>
     map_of res u = (case find (\<lambda>p. normalizeTemplateGitUrl parse (sp_url p) = Inr u) (rev ps) of
        Some p \<Rightarrow> Some (p\<lparr>sp_url := u, sp_commit := toLowerCase (sp_commit p)\<rparr>)
      | None \<Rightarrow> map_of pins u)"
proof (induction parse ps pins rule: source_pins.induct)
  case (2 parse p ps pins)
  obtain v where v: "normalizeTemplateGitUrl parse (sp_url p) = Inr v"
    using "2.prems" by (auto split: sum.splits)
  have "map_of res u = (case find (\<lambda>p. normalizeTemplateGitUrl parse (sp_url p) = Inr u) (rev ps) of
        Some p \<Rightarrow> Some (p\<lparr>sp_url := u, sp_commit := toLowerCase (sp_commit p)\<rparr>)
      | None \<Rightarrow> map_of (jset v (p\<lparr>sp_url := v, sp_commit := toLowerCase (sp_commit p)\<rparr>) pins) u)"
    using "2.prems" v "2.IH" [OF v refl refl] by (auto simp: Let_def split: option.splits if_splits)
  then show ?case
    using v by (auto simp: find_snoc split: option.splits)
qed simp

lemma source_pins_pin:
  assumes "source_pins (di_parse inp) (di_sourcePins inp) [] = Inr pins"
  shows "map_of pins u = map_option (\<lambda>p. p\<lparr>sp_url := u, sp_commit := toLowerCase (sp_commit p)\<rparr>) (release_pin inp u)"
  using source_pins_release [OF assms, of u] by (simp add: release_pin_def split: option.splits)

lemma in_all_decls:
  "(f, d) \<in> set (all_decls inp resolved) \<longleftrightarrow> f = di_label inp \<and> d \<in> set (di_dependencies inp) \<or>
     (\<exists>l ds. l \<in> set (jvalues resolved) \<and> rl_url l = f \<and> readDependencies inp l = Inr ds \<and> d \<in> set ds)"
  by (auto simp: all_decls_def layer_decls_def split: sum.splits) force+

text \<open>The loop is over: every address that was declared is resolved.\<close>

definition settled :: "'e deps_input \<Rightarrow> (ustring, source_pin) jsmap \<Rightarrow> dep_state \<Rightarrow> bool" where
  "settled inp pins st \<longleftrightarrow> (\<exists>U. loop_inv inp pins U st) \<and> ds_queue st = []"

lemma done_inv: "settled inp pins st \<Longrightarrow> deps_inv inp (all_decls inp (ds_resolved st)) st"
  by (auto simp: settled_def loop_inv_def)

lemma done_resolved: "settled inp pins st \<Longrightarrow> jhas (ds_constraints st) u \<longleftrightarrow> jhas (ds_resolved st) u"
  using deps_split [OF done_inv, of inp pins st u] by (simp add: settled_def)

lemma done_edge:
  assumes settled: "settled inp pins st" and "(f, d) \<in> set (all_decls inp (ds_resolved st))"
  shows "\<exists>v l. names_url inp d v \<and> v \<in> set (edges_from st f) \<and> map_of (ds_resolved st) v = Some l \<and> rl_url l = v \<and> agrees d l"
proof -
  obtain v c where v: "names_url inp d v" "map_of (ds_constraints st) v = Some c"
    using deps_recorded [OF done_inv [OF settled] assms(2)] by blast
  then have "jhas (ds_resolved st) v" unfolding done_resolved [OF settled, symmetric] by (simp add: jhas_def)
  then obtain l where l: "map_of (ds_resolved st) v = Some l" by (auto simp: jhas_def)
  moreover have "v \<in> set (edges_from st f)"
    unfolding deps_edges [OF done_inv [OF settled]] using assms v by (auto simp: declared_from_def)
  ultimately show ?thesis
    using v deps_layer [OF done_inv [OF settled] l] deps_agree [OF done_inv [OF settled] l assms(2) v(1)] by blast
qed

lemma done_edge_decl:
  assumes settled: "settled inp pins st" and "(u, v) \<in> edge_rel st"
  shows "\<exists>d. (u, d) \<in> set (all_decls inp (ds_resolved st)) \<and> names_url inp d v"
  using deps_edges [OF done_inv [OF settled]] assms(2) by (auto simp: edge_rel_def declared_from_def)

lemma done_value:
  assumes settled: "settled inp pins st"
  shows "l \<in> set (jvalues (ds_resolved st)) \<longleftrightarrow> map_of (ds_resolved st) (rl_url l) = Some l"
proof -
  have "jwf (ds_resolved st)" using settled by (auto simp: settled_def loop_inv_def)
  from in_jvalues [OF this, of l] show ?thesis using deps_layer [OF done_inv [OF settled]] by auto
qed

lemma done_layer: "settled inp pins st \<Longrightarrow> map_of (ds_resolved st) u = Some l \<Longrightarrow> \<exists>ds. readDependencies inp l = Inr ds \<and>
    (\<forall>d \<in> set ds. (u, d) \<in> set (all_decls inp (ds_resolved st)))"
proof -
  assume settled: "settled inp pins st" and l: "map_of (ds_resolved st) u = Some l"
  then have mem: "l \<in> set (jvalues (ds_resolved st))" using deps_layer [OF done_inv [OF settled] l] by (simp add: done_value [OF settled] del: set_map)
  then have "ok (readDependencies inp l)" using settled unfolding settled_def loop_inv_def by blast
  then show ?thesis using mem deps_layer [OF done_inv [OF settled] l] by (auto simp: ok_iff in_all_decls simp del: set_map)
qed

lemma cycle_declared:
  assumes settled: "settled inp pins st"
  shows "real_cycle st e \<Longrightarrow> \<exists>t. e = DependencyCycle t \<and> last t \<in> set (butlast t) \<and>
     successively (\<lambda>u v. \<exists>d. declares inp u d \<and> names_url inp d v) t"
  unfolding real_cycle_def
proof (elim exE conjE)
  fix t assume t: "e = DependencyCycle t" "last t \<in> set (butlast t)" "successively (\<lambda>u v. (u, v) \<in> edge_rel st) t"
  have "\<exists>d. declares inp u d \<and> names_url inp d v" if "(u, v) \<in> edge_rel st" for u v
    using done_edge_decl [OF settled that] by (auto simp: in_all_decls declares_def)
  then have "successively (\<lambda>u v. \<exists>d. declares inp u d \<and> names_url inp d v) t"
    by (rule successively_mono [OF t(3)])
  then show ?thesis using t by blast
qed

text \<open>What is placed is closed under the edges, and holds every address that is declared.\<close>

lemma placed_closed:
  assumes "topological st placed" and "u \<in> set placed"
  shows "set (edges_from st u) \<subseteq> set placed"
proof -
  obtain xs ys where "placed = xs @ u # ys" using split_list [OF assms(2)] by blast
  then show ?thesis using assms(1) unfolding topological_def by fastforce
qed

lemma reached_placed:
  assumes settled: "settled inp pins st" and topo: "topological st placed" and root: "di_label inp \<in> set placed"
  shows "u \<in> reach_urls inp (all_decls inp (ds_resolved st)) \<Longrightarrow> u \<in> set placed"
proof (induction rule: reach_urls.induct)
  case (reach_declared f d u)
  from reach_declared.hyps have "u \<in> set (edges_from st f)"
    unfolding deps_edges [OF done_inv [OF settled]] by (auto simp: declared_from_def)
  then show ?case using placed_closed [OF topo reach_declared.IH] by blast
qed (rule root)

lemma resolved_placed:
  assumes settled: "settled inp pins st" and "topological st placed" and "di_label inp \<in> set placed"
    and "map_of (ds_resolved st) u = Some l"
  shows "l \<in> set (layers_at st placed)"
proof -
  have "jhas (ds_constraints st) u" unfolding done_resolved [OF settled] using assms(4) by (simp add: jhas_def)
  then have "u \<in> reach_urls inp (all_decls inp (ds_resolved st))"
    using deps_known [OF done_inv [OF settled]] by (metis reach_declared)
  then show ?thesis unfolding layers_at_mem using reached_placed [OF assms(1-3)] assms(4) by blast
qed

lemma placed_well_ordered:
  assumes settled: "settled inp pins st" and p: "placed_ok st [] (placed, layers)" and e: "extends_placing st {di_label inp} ([], []) (placed, layers)"
  shows "well_ordered inp layers"
proof -
  let ?R = "ds_resolved st" and ?root = "di_label inp"
  let ?ds = "all_decls inp ?R"
  have topo: "topological st placed" and dist: "distinct placed" and layers: "layers = layers_at st placed"
    using p by (simp_all add: placed_ok_def)
  have root: "?root \<in> set placed" and from_root: "\<And>u. u \<in> set placed \<Longrightarrow> (?root, u) \<in> (edge_rel st)\<^sup>*"
    using e by (auto simp: extends_placing_def)
  note closed = placed_closed [OF topo] and reach = reached_placed [OF settled topo root]
  have root_open: "\<not> jhas ?R ?root"
  proof
    assume "jhas ?R ?root"
    then obtain f d where f: "(f, d) \<in> set ?ds" "f \<in> reach_urls inp ?ds" "names_url inp d ?root"
      using deps_known [OF done_inv [OF settled]] unfolding done_resolved [OF settled] by blast
    then have "(f, ?root) \<in> edge_rel st"
      unfolding edge_rel_def deps_edges [OF done_inv [OF settled]] by (auto simp: declared_from_def)
    then have cyc: "(?root, ?root) \<in> (edge_rel st)\<^sup>+" by (rule rtrancl_into_trancl1 [OF from_root [OF reach [OF f(2)]]])
    obtain xs ys where split: "placed = xs @ ?root # ys" using split_list [OF root] by blast
    then have "?root \<in> set xs" using topological_path [OF topo _ cyc] by blast
    then show False using dist split by simp
  qed
  have "distinct (map rl_url layers)"
  proof -
    have "map rl_url (layers_at st placed) = filter (jhas ?R) placed"
      unfolding layers_at_map map_map
      by (rule map_idI) (auto simp: jhas_def dest: deps_layer [OF done_inv [OF settled]])
    then show ?thesis using dist layers by simp
  qed
  moreover have "\<exists>l \<in> set layers. names_url inp d (rl_url l) \<and> agrees d l" if d: "d \<in> set (di_dependencies inp)" for d
  proof -
    have "(?root, d) \<in> set ?ds" using d by (simp add: in_all_decls)
    then obtain v l where v: "names_url inp d v" "v \<in> set (edges_from st ?root)" "map_of ?R v = Some l" "rl_url l = v" "agrees d l"
      using done_edge [OF settled] by blast
    then have "l \<in> set layers" unfolding layers layers_at_mem using closed [OF root] by blast
    then show ?thesis using v by blast
  qed
  moreover have "\<exists>ds. readDependencies inp l = Inr ds \<and>
      (\<forall>d \<in> set ds. \<exists>k \<in> set xs. names_url inp d (rl_url k) \<and> agrees d k)" if split: "layers = xs @ l # ys" for xs l ys
  proof -
    obtain ps u qs where u: "placed = ps @ u # qs" "layers_at st ps = xs" "map_of ?R u = Some l"
      using layers_at_split [OF split [unfolded layers]] by blast
    have ps: "set (edges_from st u) \<subseteq> set ps" using topo u(1) by (simp add: topological_def)
    obtain ds where ds: "readDependencies inp l = Inr ds" "\<forall>d \<in> set ds. (u, d) \<in> set ?ds" using done_layer [OF settled u(3)] by blast
    have "\<exists>k \<in> set xs. names_url inp d (rl_url k) \<and> agrees d k" if "d \<in> set ds" for d
    proof -
      have "(u, d) \<in> set ?ds" using ds(2) that by blast
      then obtain v k where v: "names_url inp d v" "v \<in> set (edges_from st u)" "map_of ?R v = Some k" "rl_url k = v" "agrees d k"
        using done_edge [OF settled] by blast
      then have "k \<in> set xs" unfolding u(2) [symmetric] layers_at_mem using ps by blast
      then show ?thesis using v by blast
    qed
    then show ?thesis using ds(1) by blast
  qed
  moreover have "rl_url l \<in> wanted_urls inp layers" if "l \<in> set layers" for l
  proof -
    obtain u where u: "u \<in> set placed" "map_of ?R u = Some l" using \<open>l \<in> set layers\<close> unfolding layers layers_at_mem by blast
    have "(?root, u) \<in> (edge_rel st)\<^sup>*" using from_root u(1) by blast
    then have "u = ?root \<or> u \<in> wanted_urls inp layers"
    proof (induction rule: rtrancl_induct)
      case (step v w)
      obtain d where d: "(v, d) \<in> set ?ds" "names_url inp d w" using done_edge_decl [OF settled step.hyps(2)] by blast
      have v: "v \<in> set placed"
        using step.hyps(1) by (induction rule: rtrancl_induct) (use root closed in \<open>auto simp: edge_rel_def\<close>)
      consider "d \<in> set (di_dependencies inp)"
        | k ds where "k \<in> set (jvalues ?R)" "rl_url k = v" "readDependencies inp k = Inr ds" "d \<in> set ds"
        using d(1) unfolding in_all_decls by blast
      then show ?case
      proof cases
        case 1
        then show ?thesis using d(2) wanted_root by blast
      next
        case 2
        then have k: "map_of ?R v = Some k" using done_value [OF settled, of k] by simp
        then have "v \<noteq> ?root" using root_open by (auto simp: jhas_def)
        then have "v \<in> wanted_urls inp layers" using step.IH by blast
        moreover have "k \<in> set layers" unfolding layers layers_at_mem using k v by blast
        ultimately show ?thesis using wanted_layer 2(2-4) d(2) by blast
      qed
    qed simp
    moreover have "u \<noteq> ?root" using root_open u(2) by (auto simp: jhas_def)
    ultimately show ?thesis using deps_layer [OF done_inv [OF settled] u(2)] by simp
  qed
  ultimately show ?thesis unfolding well_ordered_def by blast
qed

lemma placed_grounded:
  assumes settled: "settled inp pins st" and pins: "source_pins (di_parse inp) (di_sourcePins inp) [] = Inr pins"
    and p: "placed_ok st [] (placed, layers)" and e: "extends_placing st {di_label inp} ([], []) (placed, layers)"
    and l: "l \<in> set layers"
  shows "grounded inp layers l"
proof -
  let ?D = "set (all_decls inp (ds_resolved st))"
  have topo: "topological st placed" and layers: "layers = layers_at st placed" and root: "di_label inp \<in> set placed"
    using p e by (simp_all add: placed_ok_def extends_placing_def)
  have src: "sourced inp pins ?D st" using settled by (auto simp: settled_def loop_inv_def)
  have declared: "declared_at inp layers u P" if decl: "from_decl inp ?D u P" for u P
  proof -
    obtain f d where d: "(f, d) \<in> ?D" "names_url inp d u" "P d" using decl by (auto simp: from_decl_def)
    have "k \<in> set layers" if "k \<in> set (jvalues (ds_resolved st))" for k
      unfolding layers using resolved_placed [OF settled topo root] that by (simp add: done_value [OF settled] del: set_map)
    then show ?thesis using d unfolding in_all_decls declared_at_def by blast
  qed
  obtain u where "map_of (ds_resolved st) u = Some l" using l unfolding layers layers_at_mem by blast
  then have l': "sourced_layer inp pins ?D l" using src by (auto simp: sourced_def)
  have pin: "map_of pins (rl_url l) = map_option (\<lambda>p. p\<lparr>sp_url := rl_url l, sp_commit := toLowerCase (sp_commit p)\<rparr>)
      (release_pin inp (rl_url l))" by (rule source_pins_pin [OF pins])
  have "rl_track l = DEFAULT_TEMPLATE_DEPENDENCY_TRACK \<or> declared_at inp layers (rl_url l) (asks_track (rl_track l))"
    "rl_credential l = Some k \<Longrightarrow> declared_at inp layers (rl_url l) (\<lambda>d. dp_credential d = Some k)" for k
    using l' declared unfolding sourced_layer_def by blast+
  moreover have "rl_pinned l \<Longrightarrow> case release_pin inp (rl_url l) of
      Some p \<Rightarrow> rl_ref l = sp_ref p \<and> rl_commit l = toLowerCase (sp_commit p)
    | None \<Rightarrow> rl_ref l = rl_track l \<and> declared_at inp layers (rl_url l) (asks_commit (rl_commit l))"
    using l' declared [of "rl_url l" "asks_commit (rl_commit l)"] unfolding sourced_layer_def pin
    by (cases "release_pin inp (rl_url l)") simp_all
  moreover have "\<not> rl_pinned l \<Longrightarrow> (\<forall>p. release_pin inp (rl_url l) = Some p \<longrightarrow> sp_commit p = []) \<and>
      (\<exists>commit. resolveTrack inp (rl_url l) (rl_track l) (rl_credential l) = Inr (rl_ref l, commit) \<and>
         rl_commit l = toLowerCase commit)"
    using l' unfolding sourced_layer_def pin by (cases "release_pin inp (rl_url l)") simp_all
  ultimately show ?thesis unfolding grounded_def by simp
qed

subsection \<open>The start\<close>

lemma start_loop_inv:
  assumes "finite U" and "closed_urls inp U"
    and step: "declare_all inp pins (di_label inp) (di_dependencies inp) empty_deps = Inr st"
  shows "loop_inv inp pins U st"
proof -
  have start: "deps_inv inp [] empty_deps"
    by (simp add: deps_inv_def empty_deps_def jhas_def edges_from_def declared_from_def)
  have "\<forall>d \<in> set (di_dependencies inp). \<forall>u. names_url inp d u \<longrightarrow> u \<in> U"
    using assms(2) unfolding closed_urls_def by (rule conjunct1)
  moreover have "known_urls empty_deps \<subseteq> U" by (simp add: known_urls_def empty_deps_def)
  ultimately have "deps_inv inp (map (Pair (di_label inp)) (di_dependencies inp)) st" "ds_resolved st = []" "known_urls st \<subseteq> U"
    using declare_all_inv [OF start reach_label step assms(1)] by (simp_all add: empty_deps_def)
  moreover have "sourced inp pins (Pair (di_label inp) ` set (di_dependencies inp)) st"
    by (rule declare_all_sourced [OF _ step]) (simp_all add: sourced_def empty_deps_def)
  ultimately show ?thesis by (simp add: loop_inv_def all_decls_def)
qed

section \<open>Properties\<close>

text \<open>
  C38. Resolving the dependencies of a template ends, in dependency-first order or with a reason.
  When finitely many addresses can come up, the loop returns. If it gives layers, each address
  has one; every dependency of a layer stands before it, at the exact commit that was declared,
  or on the declared track unless the layer was pinned; so do the dependencies of the root; and no
  layer is there that nothing wants. The ref and commit of a layer are those of the release pin of
  its address; without one, a declared commit; and without either, what the remote resolves the
  layer's track to. A cycle is reported only with a walk along declarations that comes back to an
  address it has passed.
\<close>

theorem template_dependencies_ordered:
  assumes "finite U" and "closed_urls inp U"
  shows "\<exists>res. resolveTemplateDependencies inp = Some res \<and>
    (case res of
       Inr layers \<Rightarrow> well_ordered inp layers \<and> (\<forall>l \<in> set layers. grounded inp layers l)
     | Inl (DependencyCycle t) \<Rightarrow> last t \<in> set (butlast t) \<and>
         successively (\<lambda>u v. \<exists>d. declares inp u d \<and> names_url inp d v) t
     | Inl _ \<Rightarrow> True)"
proof -
  note defs = resolveTemplateDependencies_def not_cyclic_def
  consider (bad) res where "resolveTemplateDependencies inp = Some res" "not_cyclic res" "\<not> ok res"
    | (good) pins st where "source_pins (di_parse inp) (di_sourcePins inp) [] = (Inr pins :: 'a deps_error + _)"
        "resolveTemplateDependencies inp = Some (case visit st [] [] (di_label inp) ([], []) of
          Inl e \<Rightarrow> Inl e | Inr (_, layers) \<Rightarrow> Inr layers)" "settled inp pins st"
  proof (cases "source_pins (di_parse inp) (di_sourcePins inp) [] :: 'a deps_error + (ustring, source_pin) jsmap")
    case (Inl e)
    then show ?thesis
      using that(1) [of "Inl e"] source_pins_not_cyclic [where 'a = 'a, of "di_parse inp" "di_sourcePins inp" "[]"]
      by (simp add: defs)
  next
    case pins: (Inr pins)
    show ?thesis
    proof (cases "declare_all inp pins (di_label inp) (di_dependencies inp) empty_deps")
      case (Inl e)
      then show ?thesis
        using that(1) [of "Inl e"] declare_all_not_cyclic [of inp pins "di_label inp" "di_dependencies inp" empty_deps] pins
        by (simp add: defs)
    next
      case (Inr st)
      obtain res where drain: "drain_queue inp pins st = Some res" "not_cyclic res"
        "\<And>st'. res = Inr st' \<Longrightarrow> loop_inv inp pins U st' \<and> ds_queue st' = []"
        using drain_queue_ends [OF assms start_loop_inv [OF assms Inr]] by blast
      show ?thesis
      proof (cases res)
        case (Inl e)
        then show ?thesis using that(1) [of "Inl e"] pins Inr drain(1,2) by (simp add: defs)
      next
        case (Inr st')
        then have "settled inp pins st'" using drain(3) by (auto simp: settled_def)
        then show ?thesis
          using that(2) [of pins st'] pins Inr \<open>declare_all _ _ _ _ _ = Inr st\<close> drain(1)
          by (simp add: resolveTemplateDependencies_def split: sum.splits prod.splits)
      qed
    qed
  qed
  then show ?thesis
  proof cases
    case bad
    then obtain e where e: "res = Inl e" by (cases res) simp_all
    have "case e of DependencyCycle t \<Rightarrow> P t | _ \<Rightarrow> True" for P
      using bad(2) e by (cases e) (simp_all add: not_cyclic_def)
    then show ?thesis using bad(1) e by simp
  next
    case good
    have vis: "visited st [] {di_label inp} ([], []) (visit st [] [] (di_label inp) ([], []) :: 'a deps_error + placing)"
      by (rule visit_correct) (simp_all add: placed_ok_def layers_at_def map_filter_def)
    show ?thesis
    proof (cases "visit st [] [] (di_label inp) ([], []) :: 'a deps_error + placing")
      case (Inl e)
      then have "real_cycle st e" using vis by simp
      then show ?thesis using cycle_declared [OF good(3)] good(2) Inl by fastforce
    next
      case (Inr p)
      obtain placed layers where p: "p = (placed, layers)" by (cases p)
      have placed: "placed_ok st [] (placed, layers)" "extends_placing st {di_label inp} ([], []) (placed, layers)"
        using vis unfolding Inr p visited_simps by (rule conjunct1, rule conjunct2)
      then have "well_ordered inp layers" by (rule placed_well_ordered [OF good(3)])
      then show ?thesis using placed_grounded [OF good(3,1) placed] good(2) Inr p by simp
    qed
  qed
qed

definition one_dependency :: "unit deps_input" where
  "one_dependency = \<lparr>di_parse = (\<lambda>u. Some \<lparr>pu_protocol = ascii ''https:'', pu_username = [], pu_password = [],
       pu_search = [], pu_hash = [], pu_href = u\<rparr>),
     di_sourcePins = [], di_label = ascii ''root'',
     di_dependencies = [\<lparr>dp_url = ascii ''https://a.org/b'', dp_credential = None, dp_commit = None, dp_track = None\<rparr>],
     readDependencies = (\<lambda>_. Inr []), resolveTrack = (\<lambda>url t c. Inr (t, ascii ''ab''))\<rparr>"

theorem template_dependencies_ordered_witness:
  "\<exists>res. resolveTemplateDependencies one_dependency = Some res"
proof -
  let ?U = "{u. \<exists>d \<in> set (di_dependencies one_dependency). names_url one_dependency d u}"
  have "?U \<subseteq> (\<lambda>d. projr (normalizeTemplateGitUrl (di_parse one_dependency) (dp_url d))) ` set (di_dependencies one_dependency)"
    by force
  then have "finite ?U" by (rule finite_subset) simp
  moreover have "closed_urls one_dependency ?U" by (auto simp: closed_urls_def one_dependency_def)
  ultimately show ?thesis using template_dependencies_ordered by blast
qed

end
