(* ===== verification/AuthorityScopes.thy ===== *)
theory AuthorityScopes
  imports Prelude
begin

text \<open>
  The resource envelopes of the authority system: which keys a scope covers and when one
  scope contains another (\<^verbatim>\<open>packages/shared/src/authorization.ts\<close>), capability patterns
  (\<^verbatim>\<open>packages/shared/src/authorityManifest.ts\<close>) and code principals
  (\<^verbatim>\<open>packages/shared/src/authority/codePrincipal.ts\<close>). The host name of a URL is read by the
  platform's URL parser, a parameter of the functions that use it: \<open>None\<close> when it throws.
\<close>

subsection \<open>Strings\<close>

definition endsWith :: "'a list \<Rightarrow> 'a list \<Rightarrow> bool" where
  "endsWith suffix s \<longleftrightarrow> startsWith (rev suffix) (rev s)"

lemma endsWith_iff: "endsWith suffix s \<longleftrightarrow> (\<exists>r. s = r @ suffix)"
  unfolding endsWith_def startsWith_iff by (metis rev_append rev_rev_ident)

lemma startsWith_Nil [simp]: "startsWith [] s"
  by (simp add: startsWith_def)

lemma startsWith_self [simp]: "startsWith s s"
  by (simp add: startsWith_def)

lemma startsWith_trans: "startsWith a b \<Longrightarrow> startsWith b c \<Longrightarrow> startsWith a c"
  by (auto simp: startsWith_iff)

text \<open>White space that \<open>String.prototype.trim\<close> removes, of the characters of one byte.\<close>

definition space_char :: "char \<Rightarrow> bool" where
  "space_char c \<longleftrightarrow> of_char c \<in> {9, 10, 11, 12, 13, 32, 160 :: nat}"

definition trim :: "string \<Rightarrow> string" where
  "trim s = rev (dropWhile space_char (rev (dropWhile space_char s)))"

lemma trim_Nil [simp]: "trim [] = []"
  by (simp add: trim_def)

subsection \<open>Capability patterns\<close>

definition capabilityPatternCovers :: "string \<Rightarrow> string \<Rightarrow> bool" where
  "capabilityPatternCovers pattern capability =
     (if \<not> endsWith ''*'' pattern then pattern = capability
      else startsWith (butlast pattern) capability)"

lemma capabilityPatternCovers_star [simp]:
  "capabilityPatternCovers (p @ ''*'') c \<longleftrightarrow> startsWith p c"
  by (simp add: capabilityPatternCovers_def endsWith_def startsWith_def)

subsection \<open>Resource scopes\<close>

datatype resource_scope =
    ExactScope string
  | PrefixScope string
  | OriginScope string
  | DomainScope string
  | NetworkScope

text \<open>\<open>new URL(value).hostname\<close>, \<open>None\<close> when the constructor throws.\<close>

type_synonym hostname_parser = "string \<Rightarrow> string option"

definition separators :: string where
  "separators = ''#/:._-''"

fun scopeCovers :: "hostname_parser \<Rightarrow> resource_scope \<Rightarrow> string \<Rightarrow> bool" where
  "scopeCovers host (ExactScope k) key \<longleftrightarrow> k = key"
| "scopeCovers host (PrefixScope p) key \<longleftrightarrow>
     (if p = [] \<or> key = p then True
      else if \<not> startsWith p key then False
      else last p \<in> set separators \<or> (length p < length key \<and> key ! length p = CHR ''/''))"
| "scopeCovers host (OriginScope origin) key \<longleftrightarrow> key = origin"
| "scopeCovers host (DomainScope domain) key \<longleftrightarrow>
     (case host key of
        None \<Rightarrow> False
      | Some hostname \<Rightarrow>
          hostname \<noteq> [] \<and> (hostname = domain \<or> endsWith (CHR ''.'' # domain) hostname))"
| "scopeCovers host NetworkScope key \<longleftrightarrow> True"

fun resourceScopeContains :: "hostname_parser \<Rightarrow> resource_scope \<Rightarrow> resource_scope \<Rightarrow> bool" where
  "resourceScopeContains host parent (ExactScope key) = scopeCovers host parent key"
| "resourceScopeContains host (PrefixScope p) (PrefixScope c) = scopeCovers host (PrefixScope p) c"
| "resourceScopeContains host (OriginScope p) (OriginScope c) = (c = p)"
| "resourceScopeContains host (DomainScope p) (DomainScope c) = (c = p)"
| "resourceScopeContains host NetworkScope NetworkScope = True"
| "resourceScopeContains host _ _ = False"

declare scopeCovers.simps(2) [simp del]

text \<open>The keys a prefix covers, without the case distinction on equality.\<close>

lemma prefix_covers_iff:
  "scopeCovers host (PrefixScope p) key \<longleftrightarrow>
     p = [] \<or> (\<exists>r. key = p @ r \<and> (r = [] \<or> last p \<in> set separators \<or> hd r = CHR ''/''))"
proof (cases "startsWith p key")
  case True
  then obtain r where "key = p @ r" by (auto simp: startsWith_iff)
  then show ?thesis by (cases r) (auto simp: scopeCovers.simps(2) startsWith_iff nth_append)
next
  case False
  then show ?thesis by (auto simp: scopeCovers.simps(2) startsWith_iff)
qed

lemma prefix_covers_trans:
  assumes "scopeCovers host (PrefixScope p) c" and "scopeCovers host (PrefixScope c) key"
  shows "scopeCovers host (PrefixScope p) key"
proof (cases "p = []")
  case False
  with assms(1) obtain r where c: "c = p @ r"
    and r: "r = [] \<or> last p \<in> set separators \<or> hd r = CHR ''/''"
    by (auto simp: prefix_covers_iff)
  with False have "c \<noteq> []" by simp
  with assms(2) obtain r' where key: "key = c @ r'"
    and r': "r' = [] \<or> last c \<in> set separators \<or> hd r' = CHR ''/''"
    by (auto simp: prefix_covers_iff)
  show ?thesis
  proof (cases "r = []")
    case True
    then show ?thesis using c key r' by (auto simp: prefix_covers_iff)
  next
    case False
    then show ?thesis using c key r by (auto simp: prefix_covers_iff hd_append)
  qed
qed (simp add: prefix_covers_iff)

lemma containment_covers:
  "resourceScopeContains host parent child \<Longrightarrow> scopeCovers host child key \<Longrightarrow> scopeCovers host parent key"
  by (induction host parent child rule: resourceScopeContains.induct)
    (simp_all add: prefix_covers_trans)

lemma containment_refl: "resourceScopeContains host s s"
  by (cases s) (simp_all add: prefix_covers_iff)

lemma containment_trans:
  assumes "resourceScopeContains host a b" and "resourceScopeContains host b c"
  shows "resourceScopeContains host a c"
proof (cases c)
  case (ExactScope key)
  then show ?thesis using assms containment_covers [of host a b key] by simp
qed (use assms in \<open>cases a; cases b; simp add: prefix_covers_trans\<close>)+

lemma containment_exact: "resourceScopeContains host s (ExactScope key) = scopeCovers host s key"
  by simp

text \<open>
  C18. Containment of resource envelopes is sound: it is a preorder, and whatever an envelope
  contains it covers key by key. In particular a bare prefix never leaks into a sibling name:
  a key it covers is the name itself or continues it behind a slash.
\<close>

theorem containment_sound:
  "resourceScopeContains host s s
   \<and> (resourceScopeContains host a b \<longrightarrow> resourceScopeContains host b c \<longrightarrow> resourceScopeContains host a c)
   \<and> (resourceScopeContains host a b \<longrightarrow> scopeCovers host b key \<longrightarrow> scopeCovers host a key)
   \<and> (p \<noteq> [] \<longrightarrow> last p \<notin> set separators \<longrightarrow>
        scopeCovers host (PrefixScope p) key = (key = p \<or> (\<exists>r. key = p @ CHR ''/'' # r)))"
proof (intro conjI impI)
  assume "p \<noteq> []" and "last p \<notin> set separators"
  then show "scopeCovers host (PrefixScope p) key = (key = p \<or> (\<exists>r. key = p @ CHR ''/'' # r))"
    unfolding prefix_covers_iff by (metis append_Nil2 list.collapse list.sel(1))
qed (blast intro: containment_refl containment_trans containment_covers)+

theorem containment_sound_witness:
  "resourceScopeContains (\<lambda>_. None) (PrefixScope ''context'') (PrefixScope ''context/a'')
   \<and> resourceScopeContains (\<lambda>_. None) (PrefixScope ''context/a'') (ExactScope ''context/a/b'')
   \<and> resourceScopeContains (\<lambda>_. None) (PrefixScope ''context'') (ExactScope ''context/a/b'')
   \<and> \<not> scopeCovers (\<lambda>_. None) (PrefixScope ''context'') ''contextual''"
proof -
  have 1: "resourceScopeContains (\<lambda>_. None) (PrefixScope ''context'') (PrefixScope ''context/a'')"
    by (simp add: scopeCovers.simps(2) startsWith_def)
  have 2: "resourceScopeContains (\<lambda>_. None) (PrefixScope ''context/a'') (ExactScope ''context/a/b'')"
    by (simp add: scopeCovers.simps(2) startsWith_def)
  have 3: "''context'' \<noteq> []" "last ''context'' \<notin> set separators"
    by (simp_all add: separators_def)
  note C = containment_sound [of "\<lambda>_. None" NetworkScope "PrefixScope ''context''" "PrefixScope ''context/a''"
      "ExactScope ''context/a/b''" "''contextual''" "''context''"]
  from C 1 2 have 4: "resourceScopeContains (\<lambda>_. None) (PrefixScope ''context'') (ExactScope ''context/a/b'')"
    by blast
  from C 3 have "scopeCovers (\<lambda>_. None) (PrefixScope ''context'') ''contextual'' =
      (''contextual'' = ''context'' \<or> (\<exists>r. ''contextual'' = ''context'' @ CHR ''/'' # r))" by blast
  then have "\<not> scopeCovers (\<lambda>_. None) (PrefixScope ''context'') ''contextual''" by simp
  with 1 2 4 show ?thesis by blast
qed

subsection \<open>Code principals\<close>

record code_identity =
  ci_repoPath :: string
  ci_effectiveVersion :: string

datatype principal_error = IncompleteIdentity | AtInRepoPath

definition codePrincipal :: "code_identity \<Rightarrow> (principal_error, string) result" where
  "codePrincipal identity =
     (if ci_repoPath identity = [] \<or> ci_effectiveVersion identity = [] then Inl IncompleteIdentity
      else if CHR ''@'' \<in> set (ci_repoPath identity) then Inl AtInRepoPath
      else Inr (''code:'' @ ci_repoPath identity @ ''@'' @ ci_effectiveVersion identity))"

text \<open>\<open>lastIndexOf\<close> with slices: what stands before and after the last \<open>@\<close>.\<close>

definition before_last :: "char \<Rightarrow> string \<Rightarrow> string" where
  "before_last c s = rev (tl (dropWhile (\<lambda>x. x \<noteq> c) (rev s)))"

definition after_last :: "char \<Rightarrow> string \<Rightarrow> string" where
  "after_last c s = rev (takeWhile (\<lambda>x. x \<noteq> c) (rev s))"

definition parseCodePrincipal :: "string \<Rightarrow> code_identity option" where
  "parseCodePrincipal source =
     (if \<not> startsWith ''code:'' source then None
      else let body = drop 5 source in
        if CHR ''@'' \<notin> set body \<or> before_last (CHR ''@'') body = [] \<or> after_last (CHR ''@'') body = [] then None
        else Some \<lparr>ci_repoPath = before_last (CHR ''@'') body, ci_effectiveVersion = after_last (CHR ''@'') body\<rparr>)"

definition isCodePrincipal :: "string \<Rightarrow> bool" where
  "isCodePrincipal source = (parseCodePrincipal source \<noteq> None)"

definition codePrincipalMatches :: "string \<Rightarrow> code_identity \<Rightarrow> bool" where
  "codePrincipalMatches source identity =
     (case parseCodePrincipal source of
        None \<Rightarrow> False
      | Some parsed \<Rightarrow> ci_repoPath parsed = ci_repoPath identity \<and> ci_effectiveVersion parsed = ci_effectiveVersion identity)"

lemma last_split:
  assumes "c \<notin> set b"
  shows "before_last c (a @ c # b) = a \<and> after_last c (a @ c # b) = b"
proof -
  have "takeWhile (\<lambda>x. x \<noteq> c) (rev b @ c # rev a) = rev b"
    using assms by (subst takeWhile_append2) auto
  moreover have "dropWhile (\<lambda>x. x \<noteq> c) (rev b @ c # rev a) = c # rev a"
    using assms by (subst dropWhile_append2) auto
  ultimately show ?thesis by (simp add: before_last_def after_last_def)
qed

lemma split_last_join:
  assumes "c \<in> set s"
  shows "before_last c s @ c # after_last c s = s" "c \<notin> set (after_last c s)"
proof -
  obtain a b where "s = a @ c # b" and "c \<notin> set b"
    using split_list_last [OF assms] by blast
  then show "before_last c s @ c # after_last c s = s" "c \<notin> set (after_last c s)"
    using last_split [of c b a] by simp_all
qed

lemma parseCodePrincipal_Some:
  "parseCodePrincipal source = Some identity \<longleftrightarrow>
     source = ''code:'' @ ci_repoPath identity @ ''@'' @ ci_effectiveVersion identity
     \<and> ci_repoPath identity \<noteq> [] \<and> ci_effectiveVersion identity \<noteq> [] \<and> CHR ''@'' \<notin> set (ci_effectiveVersion identity)"
  (is "?parsed \<longleftrightarrow> ?form")
proof
  assume ?parsed
  then have code: "startsWith ''code:'' source" and at: "CHR ''@'' \<in> set (drop 5 source)"
    and sides: "before_last (CHR ''@'') (drop 5 source) \<noteq> []" "after_last (CHR ''@'') (drop 5 source) \<noteq> []"
    and identity: "identity = \<lparr>ci_repoPath = before_last (CHR ''@'') (drop 5 source),
      ci_effectiveVersion = after_last (CHR ''@'') (drop 5 source)\<rparr>"
    by (auto simp: parseCodePrincipal_def Let_def split: if_splits)
  from code obtain body where "source = ''code:'' @ body" by (auto simp: startsWith_iff)
  then show ?form using split_last_join [OF at] sides identity by simp
next
  assume ?form
  then show ?parsed
    using last_split [of "CHR ''@''" "ci_effectiveVersion identity" "ci_repoPath identity"]
    by (simp add: parseCodePrincipal_def startsWith_def)
qed

text \<open>
  Code principals round-trip: the principal minted for a repository path and an effective
  version parses back to exactly that identity unless the version holds an \<open>@\<close>, every
  principal that parses is the one minted for what it parses to when its path has no \<open>@\<close>, and
  the match test is the comparison of identities.
\<close>

theorem code_principal_roundtrip:
  "(codePrincipal identity = Inr source \<longrightarrow>
      (parseCodePrincipal source = Some identity) = (CHR ''@'' \<notin> set (ci_effectiveVersion identity)))
   \<and> (parseCodePrincipal source = Some identity \<longrightarrow> CHR ''@'' \<notin> set (ci_repoPath identity) \<longrightarrow>
        codePrincipal identity = Inr source)
   \<and> codePrincipalMatches source identity = (parseCodePrincipal source = Some identity)"
proof (intro conjI impI)
  assume "codePrincipal identity = Inr source"
  then show "(parseCodePrincipal source = Some identity) = (CHR ''@'' \<notin> set (ci_effectiveVersion identity))"
    by (auto simp: codePrincipal_def parseCodePrincipal_Some split: if_splits)
next
  assume "parseCodePrincipal source = Some identity" and "CHR ''@'' \<notin> set (ci_repoPath identity)"
  then show "codePrincipal identity = Inr source"
    by (simp add: codePrincipal_def parseCodePrincipal_Some)
next
  show "codePrincipalMatches source identity = (parseCodePrincipal source = Some identity)"
    by (auto simp: codePrincipalMatches_def split: option.splits)
qed

theorem code_principal_roundtrip_witness:
  "parseCodePrincipal ''code:apps/shell@1f'' = Some \<lparr>ci_repoPath = ''apps/shell'', ci_effectiveVersion = ''1f''\<rparr>
   \<and> codePrincipal \<lparr>ci_repoPath = ''apps/shell'', ci_effectiveVersion = ''1f''\<rparr> = Inr ''code:apps/shell@1f''"
proof -
  have minted: "codePrincipal \<lparr>ci_repoPath = ''apps/shell'', ci_effectiveVersion = ''1f''\<rparr> = Inr ''code:apps/shell@1f''"
    by (simp add: codePrincipal_def)
  have "parseCodePrincipal ''code:apps/shell@1f'' = Some \<lparr>ci_repoPath = ''apps/shell'', ci_effectiveVersion = ''1f''\<rparr>"
    using code_principal_roundtrip [of "\<lparr>ci_repoPath = ''apps/shell'', ci_effectiveVersion = ''1f''\<rparr>" "''code:apps/shell@1f''"]
      minted by simp
  with minted show ?thesis by blast
qed

end
