(* ===== verification/AuthorityTypes.thy ===== *)
theory AuthorityTypes
  imports AuthorityScopes
begin

text \<open>
  The wire-safe facts of the authority system (\<^verbatim>\<open>packages/rpc/src/authority.ts\<close>): subjects,
  grants and their constraints, locks, requirements, the authorization context and the
  decision, with the constructors of requirements
  (\<^verbatim>\<open>packages/shared/src/authorityRequirements.ts\<close>). Principals are strings
  \<open>kind:identity\<close> as in the source. Fields that the evaluation never reads (host, incarnation,
  attribution chains, audit prose) are left out.
\<close>

datatype principal_kind = HostKind | UserKind | CodeKind | SessionKind | MissionKind | WebsiteKind

datatype effect = Allow | Deny

datatype grant_scope =
  OnceScope | TaskScope | AgentScope | MissionScope | VersionScope | SessionScope | SystemScope

record subject_binding =
  sb_subject :: string
  sb_generation :: int
  sb_documentId :: "string option"

record website_identity =
  wi_subject :: string
  wi_userId :: string
  wi_workspaceId :: string
  wi_origin :: string
  wi_binding :: subject_binding

text \<open>A live website fact also says whether the document is connected; the website of an
  accepted execution is the fact without that field.\<close>

record website_fact = website_identity +
  wi_connected :: bool

record capability_scope =
  cs_capability :: string
  cs_resource :: resource_scope

record grant_constraints =
  gc_requestingCodePrincipal :: "string option"
  gc_subjectGeneration :: "int option"
  gc_documentId :: "string option"
  gc_sourceWorkspaceId :: "string option"
  gc_sessionId :: "string option"
  gc_invocationDigest :: "string option"
  gc_providerExecutionDigest :: "string option"
  gc_missionSubject :: "string option"
  gc_lineageAtConsent :: "string list option"
  gc_taskRef :: "string option"
  gc_taskAuthority :: "string option"
  gc_agentBindingId :: "string option"

definition no_constraints :: grant_constraints where
  "no_constraints = \<lparr>gc_requestingCodePrincipal = None, gc_subjectGeneration = None, gc_documentId = None,
     gc_sourceWorkspaceId = None, gc_sessionId = None, gc_invocationDigest = None,
     gc_providerExecutionDigest = None, gc_missionSubject = None, gc_lineageAtConsent = None,
     gc_taskRef = None, gc_taskAuthority = None, gc_agentBindingId = None\<rparr>"

record authority_grant = capability_scope +
  ag_id :: "string option"
  ag_subject :: string
  ag_effect :: effect
  ag_issuedBy :: string
  ag_createdAt :: int
  ag_expiresAt :: "int option"
  ag_revokedAt :: "int option"
  ag_consumedAt :: "int option"
  ag_suspendedAt :: "int option"
  ag_lastUsedAt :: "int option"
  ag_scope :: "grant_scope option"
  ag_constraints :: "grant_constraints option"
  ag_provenance :: string
  ag_decidedBy :: "string option"
  ag_decisionSurface :: "string option"
  ag_capabilityDefinitionDigest :: "string option"

datatype lock_level = ResourceLevel | CapabilityLevel | CellLevel | AgentLevel | WorkspaceLevel

datatype lock_surface = CardSurface | ProfileSurface

record authority_lock =
  al_id :: string
  al_agentBindingId :: string
  al_level :: lock_level
  al_capability :: "string option"
  al_resource :: "resource_scope option"
  al_domain :: "string option"
  al_verb :: "string option"
  al_decidedBy :: string
  al_surface :: lock_surface
  al_createdAt :: int
  al_revokedAt :: "int option"
  al_attemptCount :: nat
  al_lastAttemptAt :: "int option"

datatype relationship_name =
    WorkspaceMember | WorkspaceRole | EntitySelf | EntityOwner | AgentBindingRel | CodeSource
  | ContextIntegrity | ClosureInternal

datatype requirement =
    Capability principal_kind string bool   \<comment> \<open>principal, capability, codeOnly\<close>
  | Relationship relationship_name "string option"
  | SessionReq "string option" "string option"   \<comment> \<open>audience, minVersion\<close>
  | All "requirement list"
  | Any "requirement list"

record workspace_relationship =
  wr_workspaceId :: string
  wr_member :: bool
  wr_role :: "string option"

record executing_code =
  ec_principal :: string
  ec_requested :: "capability_scope list"

record execution_session =
  es_bindingId :: "string option"   \<comment> \<open>\<open>agentBinding?.bindingId\<close>\<close>
  es_mission :: "string option"   \<comment> \<open>\<open>mission?.subject\<close>\<close>

record authority_session =
  ss_id :: string
  ss_audience :: string
  ss_version :: string
  ss_expiresAt :: int
  ss_taskRef :: "string option"
  ss_taskAuthority :: "string option"

record installation_fact =
  if_binding :: subject_binding
  if_codePrincipal :: string

datatype origin_kind = CodeOrigin | UserOrigin | HostOrigin | SessionOrigin | WebsiteOrigin

record authorizing_origin =
  ao_kind :: origin_kind
  ao_principal :: string

record authorization_context =
  ac_executionAuthority :: "website_identity option"   \<comment> \<open>\<open>executionAuthority?.website\<close>\<close>
  ac_website :: "website_fact option"
  ac_subjectBinding :: "subject_binding option"
  ac_installation :: "installation_fact option"
  ac_sourceWorkspaceId :: "string option"
  ac_origin :: authorizing_origin
  ac_actingUser :: "string option"
  ac_entity :: "string option"
  ac_executingCode :: "executing_code option"
  ac_ownerChain :: "string list"
  ac_agentBindingEntity :: "string option"   \<comment> \<open>\<open>agentBinding?.entity\<close>\<close>
  ac_executionSession :: "execution_session option"
  ac_workspace :: "workspace_relationship option"
  ac_session :: authority_session

datatype decision_code =
    Allowed | ApprovalRequired | UserDenied | ReceiverRejected | FixedCodeNotRequested
  | InvalidSession | ConnectionRequired | InvalidAttestation

text \<open>A decision without its prose. \<open>standing\<close> is absent on most decisions.\<close>

record decision =
  de_allowed :: bool
  de_code :: decision_code
  de_requirement :: requirement
  de_principal :: "string option"
  de_grantId :: "string option"
  de_consumable :: bool
  de_standing :: "bool option"

definition plain_decision :: "bool \<Rightarrow> decision_code \<Rightarrow> requirement \<Rightarrow> decision" where
  "plain_decision allowed code req = \<lparr>de_allowed = allowed, de_code = code, de_requirement = req,
     de_principal = None, de_grantId = None, de_consumable = False, de_standing = None\<rparr>"

lemma plain_decision_simps [simp]:
  "de_allowed (plain_decision a c r) = a" "de_code (plain_decision a c r) = c"
  "de_requirement (plain_decision a c r) = r" "de_principal (plain_decision a c r) = None"
  "de_grantId (plain_decision a c r) = None" "\<not> de_consumable (plain_decision a c r)"
  "de_standing (plain_decision a c r) = None"
  by (simp_all add: plain_decision_def)

subsection \<open>Requirements\<close>

datatype requirement_error = EmptyAll | EmptyAny | NoPrincipal

definition capability :: "principal_kind \<Rightarrow> string \<Rightarrow> bool \<Rightarrow> requirement" where
  "capability kind name codeOnly = Capability kind name codeOnly"

definition allOf :: "requirement list \<Rightarrow> (requirement_error, requirement) result" where
  "allOf requirements = (if requirements = [] then Inl EmptyAll else Inr (All requirements))"

definition anyOf :: "requirement list \<Rightarrow> (requirement_error, requirement) result" where
  "anyOf requirements = (if requirements = [] then Inl EmptyAny else Inr (Any requirements))"

definition relationship :: "relationship_name \<Rightarrow> string option \<Rightarrow> requirement" where
  "relationship name value = Relationship name value"

text \<open>The branches a principal family contributes. Each \<open>allOf\<close> here has two arguments, so none throws.\<close>

definition member_branch :: "requirement \<Rightarrow> requirement" where
  "member_branch req = All [req, relationship WorkspaceMember None]"

fun principal_branches :: "string \<Rightarrow> bool \<Rightarrow> principal_kind \<Rightarrow> requirement list" where
  "principal_branches name codeOnly HostKind = [capability HostKind name False]"
| "principal_branches name codeOnly UserKind = [member_branch (capability UserKind name False)]"
| "principal_branches name codeOnly CodeKind =
     (if codeOnly then [member_branch (capability CodeKind name True)]
      else [member_branch (capability CodeKind name False), member_branch (capability SessionKind name False)])"
| "principal_branches name codeOnly SessionKind = [member_branch (capability SessionKind name False)]"
| "principal_branches name codeOnly WebsiteKind = [member_branch (capability WebsiteKind name False)]"
| "principal_branches name codeOnly MissionKind = [member_branch (capability MissionKind name False)]"

definition requirementForPrincipals ::
  "principal_kind list \<Rightarrow> string \<Rightarrow> bool \<Rightarrow> (requirement_error, requirement) result" where
  "requirementForPrincipals principals name codeOnly =
     (let unique = new_set principals in
      if unique = [] then Inl NoPrincipal
      else let requirements = concat (map (principal_branches name codeOnly) unique) in
        if length requirements = 1 then Inr (hd requirements) else anyOf requirements)"

text \<open>The placeholder that a method policy uses before its canonical name is known.\<close>

definition METHOD_CAPABILITY :: string where
  "METHOD_CAPABILITY = ''$method''"

definition methodCapability :: "principal_kind \<Rightarrow> requirement" where
  "methodCapability kind = capability kind METHOD_CAPABILITY False"

fun bindMethodCapability :: "string \<Rightarrow> requirement \<Rightarrow> requirement" where
  "bindMethodCapability name (Capability p c only) =
     Capability p (if c = METHOD_CAPABILITY then name else c) only"
| "bindMethodCapability name (All rs) = All (map (bindMethodCapability name) rs)"
| "bindMethodCapability name (Any rs) = Any (map (bindMethodCapability name) rs)"
| "bindMethodCapability name r = r"

fun bindReceiverCapability :: "string \<Rightarrow> string \<Rightarrow> requirement \<Rightarrow> requirement" where
  "bindReceiverCapability localName canonical (Capability p c only) =
     Capability p (if c = METHOD_CAPABILITY \<or> c = localName then canonical else c) only"
| "bindReceiverCapability localName canonical (All rs) = All (map (bindReceiverCapability localName canonical) rs)"
| "bindReceiverCapability localName canonical (Any rs) = Any (map (bindReceiverCapability localName canonical) rs)"
| "bindReceiverCapability localName canonical r = r"

text \<open>The capabilities a requirement names.\<close>

fun named_capabilities :: "requirement \<Rightarrow> string list" where
  "named_capabilities (Capability p c only) = [c]"
| "named_capabilities (All rs) = concat (map named_capabilities rs)"
| "named_capabilities (Any rs) = concat (map named_capabilities rs)"
| "named_capabilities r = []"

lemma named_after_method:
  "set (named_capabilities (bindMethodCapability name r)) \<subseteq>
     (set (named_capabilities r) - {METHOD_CAPABILITY}) \<union> {name}"
  by (induction name r rule: bindMethodCapability.induct) (auto dest: subsetD)

lemma named_after_receiver:
  "set (named_capabilities (bindReceiverCapability localName canonical r)) \<subseteq>
     (set (named_capabilities r) - {METHOD_CAPABILITY, localName}) \<union> {canonical}"
  by (induction localName canonical r rule: bindReceiverCapability.induct) (auto dest: subsetD)

lemma bind_receiver_idle:
  "localName \<notin> set (named_capabilities r) \<Longrightarrow> METHOD_CAPABILITY \<notin> set (named_capabilities r) \<Longrightarrow>
     bindReceiverCapability localName canonical r = r"
  by (induction r) (auto intro!: map_idI)

text \<open>
  A receiver that seals a requirement with its canonical capability has sealed all of it:
  no placeholder and no provider-local name is left, unless it is the canonical one, and
  sealing again changes nothing.
\<close>

lemma bind_receiver_sealed:
  assumes "canonical \<noteq> METHOD_CAPABILITY" and "canonical \<noteq> localName"
  shows "bindReceiverCapability localName canonical (bindReceiverCapability localName canonical r) =
      bindReceiverCapability localName canonical r"
  using named_after_receiver [of localName canonical r] assms
  by (intro bind_receiver_idle) auto

end
