(* ===== verification/AuthorityEval.thy ===== *)
theory AuthorityEval
  imports AuthorityTypes
begin

text \<open>
  The canonical authority decision of \<^verbatim>\<open>packages/shared/src/authorization.ts\<close>: origin and
  principal of a requirement, matching of grants, relationships, and the evaluation of a
  compound requirement against one authority set. Thrown errors are \<open>Inl\<close>. The platform's URL
  parser is a parameter: \<open>pf_url\<close> gives protocol and origin, \<open>pf_hostname\<close> the host name, \<open>None\<close>
  when the constructor throws. The reason texts are left out.
\<close>

record url_platform =
  pf_hostname :: hostname_parser
  pf_url :: "string \<Rightarrow> (string \<times> string) option"

datatype tier = OpenTier | GatedTier | CriticalTier

datatype eval_error = BadResourceKey | MergeConfirmations

record evaluation_input =
  ei_context :: authorization_context
  ei_requirement :: requirement
  ei_resourceKey :: string
  ei_resource :: "resource_scope option"
  ei_grants :: "authority_grant list"
  ei_locks :: "authority_lock list"
  ei_now :: int
  ei_invocationDigest :: "string option"
  ei_providerExecutionDigest :: "string option"
  ei_tier :: "tier option"
  ei_relation :: "(authorization_context \<Rightarrow> relationship_name \<Rightarrow> string option \<Rightarrow> string \<Rightarrow> int \<Rightarrow> bool) option"

subsection \<open>Principals\<close>

definition no_nul :: "string \<Rightarrow> bool" where
  "no_nul s \<longleftrightarrow> CHR 0x00 \<notin> set s"

text \<open>\<open>/^kind:[^:][^\0]*$/\<close>: one character that is no colon, then no NUL.\<close>

definition headed :: "string \<Rightarrow> string \<Rightarrow> bool" where
  "headed kind s \<longleftrightarrow> startsWith (kind @ '':'') s \<and>
     (case drop (length kind + 1) s of [] \<Rightarrow> False | c # rest \<Rightarrow> c \<noteq> CHR '':'' \<and> no_nul rest)"

text \<open>\<open>/^kind:[^@\0]+@[^@\0]+$/\<close>: exactly one \<open>@\<close> between two non-empty parts.\<close>

definition versioned :: "string \<Rightarrow> string \<Rightarrow> bool" where
  "versioned kind s \<longleftrightarrow> startsWith (kind @ '':'') s \<and>
     (let body = drop (length kind + 1) s; left = takeWhile (\<lambda>c. c \<noteq> CHR ''@'') body;
          right = tl (dropWhile (\<lambda>c. c \<noteq> CHR ''@'') body)
      in left \<noteq> [] \<and> right \<noteq> [] \<and> no_nul left \<and> no_nul right \<and> CHR ''@'' \<notin> set right)"

definition isCanonicalPrincipal :: "string \<Rightarrow> bool" where
  "isCanonicalPrincipal p \<longleftrightarrow>
     headed ''host'' p \<or> headed ''user'' p \<or> headed ''session'' p \<or> headed ''website'' p \<or>
     headed ''agent'' p \<or> versioned ''code'' p \<or> versioned ''mission'' p"

fun same_kind :: "principal_kind \<Rightarrow> origin_kind \<Rightarrow> bool" where
  "same_kind HostKind HostOrigin = True"
| "same_kind UserKind UserOrigin = True"
| "same_kind CodeKind CodeOrigin = True"
| "same_kind SessionKind SessionOrigin = True"
| "same_kind WebsiteKind WebsiteOrigin = True"
| "same_kind _ _ = False"

definition session_mission :: "authorization_context \<Rightarrow> string option" where
  "session_mission ctx = (case ac_executionSession ctx of None \<Rightarrow> None | Some es \<Rightarrow> es_mission es)"

definition principalForRequirement :: "authorization_context \<Rightarrow> principal_kind \<Rightarrow> bool \<Rightarrow> string option" where
  "principalForRequirement ctx kind codeOnly =
     (if same_kind kind (ao_kind (ac_origin ctx)) then Some (ao_principal (ac_origin ctx))
      else if kind = CodeKind \<and> ao_kind (ac_origin ctx) = SessionOrigin \<and> \<not> codeOnly
        then Some (ao_principal (ac_origin ctx))
      else if kind = MissionKind \<and> ao_kind (ac_origin ctx) = SessionOrigin then session_mission ctx
      else None)"

definition session_binding :: "authorization_context \<Rightarrow> string option" where
  "session_binding ctx = (case ac_executionSession ctx of None \<Rightarrow> None | Some es \<Rightarrow> es_bindingId es)"

definition installation_subjects :: "authorization_context \<Rightarrow> string list" where
  "installation_subjects ctx =
     (case ac_installation ctx of
        None \<Rightarrow> []
      | Some inst \<Rightarrow>
          if ao_kind (ac_origin ctx) = CodeOrigin \<and>
             startsWith ''installation:'' (sb_subject (if_binding inst)) \<and>
             if_codePrincipal inst = ao_principal (ac_origin ctx) \<and>
             map_option ec_principal (ac_executingCode ctx) = Some (if_codePrincipal inst)
          then [sb_subject (if_binding inst)] else [])"

definition subjectsForOrigin :: "authorization_context \<Rightarrow> string list" where
  "subjectsForOrigin ctx =
     (if ao_kind (ac_origin ctx) = WebsiteOrigin then [ao_principal (ac_origin ctx)]
      else new_set ([ao_principal (ac_origin ctx)]
        @ installation_subjects ctx
        @ (case present (ss_taskAuthority (ac_session ctx)) of None \<Rightarrow> [] | Some t \<Rightarrow> [t])
        @ (case present (session_binding ctx) of
             Some b \<Rightarrow> if ao_kind (ac_origin ctx) = SessionOrigin then [''agent:'' @ b] else []
           | None \<Rightarrow> [])
        @ (case session_mission ctx of
             Some m \<Rightarrow> if ao_kind (ac_origin ctx) = SessionOrigin then [m] else []
           | None \<Rightarrow> [])))"

subsection \<open>Versions and relationships\<close>

definition digit_val :: "char \<Rightarrow> nat option" where
  "digit_val c = (let n = of_char c in if 48 \<le> n \<and> n \<le> 57 then Some (n - 48) else None)"

definition decimal_nat :: "string \<Rightarrow> nat" where
  "decimal_nat ds = fold (\<lambda>c acc. 10 * acc + the (digit_val c)) ds 0"

text \<open>\<open>Number.parseInt(part, 10)\<close>: the leading digits, \<open>None\<close> for NaN.\<close>

definition parseInt10 :: "string \<Rightarrow> int option" where
  "parseInt10 part =
     (let s = dropWhile space_char part;
          neg = (startsWith ''-'' s);
          body = (if startsWith ''-'' s \<or> startsWith ''+'' s then tl s else s);
          ds = takeWhile (\<lambda>c. digit_val c \<noteq> None) body
      in if ds = [] then None else Some (if neg then - int (decimal_nat ds) else int (decimal_nat ds)))"

function split_at :: "char \<Rightarrow> string \<Rightarrow> string list" where
  "split_at c s = (if c \<in> set s
     then takeWhile (\<lambda>x. x \<noteq> c) s # split_at c (tl (dropWhile (\<lambda>x. x \<noteq> c) s)) else [s])"
  by pat_completeness auto
termination
proof (relation "measure (\<lambda>(c, s). length s)", goal_cases)
  case (2 c s)
  then have "dropWhile (\<lambda>x. x \<noteq> c) s \<noteq> []" by (auto simp: dropWhile_eq_Nil_conv)
  then have "length (tl (dropWhile (\<lambda>x. x \<noteq> c) s)) < length (dropWhile (\<lambda>x. x \<noteq> c) s)" by simp
  also have "\<dots> \<le> length s" by (rule length_dropWhile_le)
  finally show ?case by simp
qed simp

declare split_at.simps [simp del]

text \<open>Comparison component by component, a missing one is 0; NaN compares to nothing.\<close>

fun compare_parts :: "int option list \<Rightarrow> int option list \<Rightarrow> int option" where
  "compare_parts [] [] = Some 0"
| "compare_parts (a # as) [] = (case a of None \<Rightarrow> None | Some x \<Rightarrow> if x \<noteq> 0 then Some x else compare_parts as [])"
| "compare_parts [] (b # bs) = (case b of None \<Rightarrow> None | Some y \<Rightarrow> if y \<noteq> 0 then Some (- y) else compare_parts [] bs)"
| "compare_parts (a # as) (b # bs) =
     (case (a, b) of
        (Some x, Some y) \<Rightarrow> if x - y \<noteq> 0 then Some (x - y) else compare_parts as bs
      | _ \<Rightarrow> None)"

definition compareVersions :: "string \<Rightarrow> string \<Rightarrow> int option" where
  "compareVersions left right =
     compare_parts (map parseInt10 (split_at (CHR ''.'') left)) (map parseInt10 (split_at (CHR ''.'') right))"

text \<open>The repository path of \<open>/^code:([^@]+)@[0-9a-f]{64}$/\<close>.\<close>

definition hex_lower :: "char \<Rightarrow> bool" where
  "hex_lower c \<longleftrightarrow> c \<in> set ''0123456789abcdef''"

definition code_source_path :: "string \<Rightarrow> string option" where
  "code_source_path code =
     (let body = drop 5 code; path = takeWhile (\<lambda>c. c \<noteq> CHR ''@'') body;
          version = tl (dropWhile (\<lambda>c. c \<noteq> CHR ''@'') body)
      in if startsWith ''code:'' code \<and> path \<noteq> [] \<and> length version = 64 \<and> list_all hex_lower version
         then Some path else None)"

fun builtinRelationship :: "authorization_context \<Rightarrow> relationship_name \<Rightarrow> string option \<Rightarrow> bool" where
  "builtinRelationship ctx WorkspaceMember v \<longleftrightarrow>
     (case ac_workspace ctx of None \<Rightarrow> False | Some w \<Rightarrow> wr_member w)"
| "builtinRelationship ctx WorkspaceRole v \<longleftrightarrow>
     (case ac_workspace ctx of None \<Rightarrow> False
      | Some w \<Rightarrow> wr_member w \<and> v \<noteq> None \<and> wr_role w = v)"
| "builtinRelationship ctx EntitySelf v \<longleftrightarrow> ac_entity ctx \<noteq> None \<and> (v = None \<or> ac_entity ctx = v)"
| "builtinRelationship ctx EntityOwner v \<longleftrightarrow>
     ac_entity ctx \<noteq> None \<and>
     (case ac_actingUser ctx of None \<Rightarrow> False | Some u \<Rightarrow> u \<in> set (ac_ownerChain ctx))"
| "builtinRelationship ctx AgentBindingRel v \<longleftrightarrow>
     ac_entity ctx \<noteq> None \<and> ac_agentBindingEntity ctx = ac_entity ctx"
| "builtinRelationship ctx CodeSource v \<longleftrightarrow>
     (case (present (map_option ec_principal (ac_executingCode ctx)), v) of
        (Some code, Some value) \<Rightarrow>
          (case code_source_path code of
             None \<Rightarrow> False
           | Some path \<Rightarrow> if endsWith ''/'' value then startsWith value path else path = value)
      | _ \<Rightarrow> False)"
| "builtinRelationship ctx ContextIntegrity v \<longleftrightarrow> False"
| "builtinRelationship ctx ClosureInternal v \<longleftrightarrow> False"

subsection \<open>Which branches admit the origin\<close>

fun containsCapabilityRequirement :: "requirement \<Rightarrow> bool" where
  "containsCapabilityRequirement (Capability k c only) = True"
| "containsCapabilityRequirement (All rs) = list_ex containsCapabilityRequirement rs"
| "containsCapabilityRequirement (Any rs) = list_ex containsCapabilityRequirement rs"
| "containsCapabilityRequirement r = False"

fun requirementMatchesOrigin :: "authorization_context \<Rightarrow> requirement \<Rightarrow> bool" where
  "requirementMatchesOrigin ctx (Capability k c only) \<longleftrightarrow> principalForRequirement ctx k only \<noteq> None"
| "requirementMatchesOrigin ctx (All rs) \<longleftrightarrow>
     \<not> list_ex containsCapabilityRequirement rs \<or>
     list_ex (\<lambda>r. containsCapabilityRequirement r \<and> requirementMatchesOrigin ctx r) rs"
| "requirementMatchesOrigin ctx (Any rs) \<longleftrightarrow> list_ex (requirementMatchesOrigin ctx) rs"
| "requirementMatchesOrigin ctx r \<longleftrightarrow> True"

subsection \<open>Matching grants\<close>

definition optional_match :: "'a option \<Rightarrow> 'a option \<Rightarrow> bool" where
  "optional_match wanted actual \<longleftrightarrow> (case wanted of None \<Rightarrow> True | Some w \<Rightarrow> actual = Some w)"

lemma optional_match_simps [simp]:
  "optional_match None a" "optional_match (Some w) a \<longleftrightarrow> a = Some w"
  by (simp_all add: optional_match_def)

definition effective_constraints :: "authority_grant \<Rightarrow> grant_constraints" where
  "effective_constraints g = (case ag_constraints g of None \<Rightarrow> no_constraints | Some c \<Rightarrow> c)"

definition subject_binding_of :: "authorization_context \<Rightarrow> authority_grant \<Rightarrow> subject_binding option" where
  "subject_binding_of ctx g =
     (if startsWith ''installation:'' (ag_subject g) then map_option if_binding (ac_installation ctx)
      else ac_subjectBinding ctx)"

definition workspace_id :: "authorization_context \<Rightarrow> string option" where
  "workspace_id ctx = map_option wr_workspaceId (ac_workspace ctx)"

text \<open>\<open>x ?? y\<close>.\<close>

definition or_else :: "'a option \<Rightarrow> 'a option \<Rightarrow> 'a option" where
  "or_else x y = (case x of None \<Rightarrow> y | Some a \<Rightarrow> Some a)"

lemma or_else_simps [simp]: "or_else None y = y" "or_else (Some a) y = Some a"
  by (simp_all add: or_else_def)

text \<open>
  The early returns on \<open>constraints\<close> are written on the constraints that an absent record
  stands for: each test below is vacuous on them.
\<close>

definition grantConstraintsMatch ::
  "authority_grant \<Rightarrow> authorization_context \<Rightarrow> string option \<Rightarrow> string option \<Rightarrow> bool" where
  "grantConstraintsMatch g ctx invocationDigest providerExecutionDigest \<longleftrightarrow>
     (let c = effective_constraints g; binding = subject_binding_of ctx g in
       (gc_requestingCodePrincipal c = None \<or>
          ao_kind (ac_origin ctx) = CodeOrigin \<and>
          gc_requestingCodePrincipal c = Some (ao_principal (ac_origin ctx))) \<and>
       \<not> ((startsWith ''website:'' (ag_subject g) \<or> startsWith ''installation:'' (ag_subject g)) \<and>
            gc_subjectGeneration c = None) \<and>
       (case gc_subjectGeneration c of None \<Rightarrow> True
        | Some n \<Rightarrow> (case binding of None \<Rightarrow> False
            | Some b \<Rightarrow> sb_subject b = ag_subject g \<and> sb_generation b = n)) \<and>
       (case gc_documentId c of None \<Rightarrow> True
        | Some d \<Rightarrow> (case binding of None \<Rightarrow> False
            | Some b \<Rightarrow> sb_subject b = ag_subject g \<and> sb_documentId b = Some d)) \<and>
       or_else (ac_sourceWorkspaceId ctx) (workspace_id ctx) =
         or_else (gc_sourceWorkspaceId c) (workspace_id ctx) \<and>
       optional_match (gc_sessionId c) (Some (ss_id (ac_session ctx))) \<and>
       optional_match (gc_taskAuthority c) (ss_taskAuthority (ac_session ctx)) \<and>
       optional_match (gc_taskRef c) (ss_taskRef (ac_session ctx)) \<and>
       optional_match (gc_agentBindingId c) (session_binding ctx) \<and>
       optional_match (gc_invocationDigest c) invocationDigest \<and>
       optional_match (gc_providerExecutionDigest c) providerExecutionDigest \<and>
       optional_match (gc_missionSubject c) (session_mission ctx))"

definition live_at :: "int \<Rightarrow> authority_grant \<Rightarrow> bool" where
  "live_at now g \<longleftrightarrow>
     (case ag_revokedAt g of None \<Rightarrow> True | Some t \<Rightarrow> t > now) \<and>
     (case ag_expiresAt g of None \<Rightarrow> True | Some t \<Rightarrow> t > now)"

definition resource_match ::
  "hostname_parser \<Rightarrow> authority_grant \<Rightarrow> string \<Rightarrow> resource_scope option \<Rightarrow> bool" where
  "resource_match host g resourceKey resource \<longleftrightarrow>
     (case resource of
        Some r \<Rightarrow> resourceScopeContains host (cs_resource g) r \<or>
                  (ag_effect g = Deny \<and> resourceScopeContains host r (cs_resource g))
      | None \<Rightarrow> scopeCovers host (cs_resource g) resourceKey)"

definition matchingAuthorityGrants ::
  "hostname_parser \<Rightarrow> authority_grant list \<Rightarrow> authorization_context \<Rightarrow> string list \<Rightarrow> string \<Rightarrow> string \<Rightarrow>
     resource_scope option \<Rightarrow> string option \<Rightarrow> string option \<Rightarrow> int \<Rightarrow> authority_grant list" where
  "matchingAuthorityGrants host grants ctx subjects cap resourceKey resource digest provider now =
     filter (\<lambda>g. ag_subject g \<in> set subjects \<and>
               capabilityPatternCovers (cs_capability g) cap \<and>
               live_at now g \<and>
               grantConstraintsMatch g ctx digest provider \<and>
               resource_match host g resourceKey resource) grants"

subsection \<open>Websites\<close>

definition max_safe_integer :: int where
  "max_safe_integer = 9007199254740991"

definition canonical_origin :: "url_platform \<Rightarrow> string \<Rightarrow> bool" where
  "canonical_origin pf origin \<longleftrightarrow>
     (case pf_url pf origin of
        None \<Rightarrow> False
      | Some (protocol, o') \<Rightarrow> (protocol = ''https:'' \<or> protocol = ''http:'') \<and> o' = origin)"

text \<open>\<open>context.website ?? executionAuthority?.website\<close>.\<close>

definition context_website :: "authorization_context \<Rightarrow> website_identity option" where
  "context_website ctx = or_else (map_option website_identity.truncate (ac_website ctx)) (ac_executionAuthority ctx)"

definition website_document_ok :: "authorization_context \<Rightarrow> subject_binding \<Rightarrow> bool" where
  "website_document_ok ctx binding \<longleftrightarrow>
     (if ac_executionAuthority ctx \<noteq> None
      then sb_documentId binding = None \<and>
           (ac_executionSession ctx \<noteq> None \<or> present (ss_taskAuthority (ac_session ctx)) \<noteq> None)
      else present (sb_documentId binding) \<noteq> None)"

definition website_effect_ok :: "authorization_context \<Rightarrow> website_identity \<Rightarrow> bool" where
  "website_effect_ok ctx w \<longleftrightarrow>
     ac_subjectBinding ctx = Some (wi_binding w) \<and>
     ac_actingUser ctx = Some (wi_userId w) \<and>
     or_else (ac_sourceWorkspaceId ctx) (workspace_id ctx) = Some (wi_workspaceId w) \<and>
     wi_subject w = ao_principal (ac_origin ctx)"

definition website_binding_ok :: "url_platform \<Rightarrow> authorization_context \<Rightarrow> website_identity option \<Rightarrow> bool" where
  "website_binding_ok pf ctx website \<longleftrightarrow>
     ao_kind (ac_origin ctx) = WebsiteOrigin \<and>
     (case website of
        None \<Rightarrow> False
      | Some w \<Rightarrow>
          canonical_origin pf (wi_origin w) \<and>
          wi_subject w = sb_subject (wi_binding w) \<and>
          0 \<le> sb_generation (wi_binding w) \<and> sb_generation (wi_binding w) \<le> max_safe_integer \<and>
          website_document_ok ctx (wi_binding w) \<and>
          website_effect_ok ctx w)"

definition website_connected :: "authorization_context \<Rightarrow> int \<Rightarrow> bool" where
  "website_connected ctx now \<longleftrightarrow>
     (ac_executionAuthority ctx \<noteq> None \<or>
      (case ac_website ctx of None \<Rightarrow> False | Some w \<Rightarrow> wi_connected w)) \<and>
     \<not> ss_expiresAt (ac_session ctx) \<le> now"

text \<open>The failure of the website checks, when there is one.\<close>

definition website_failure :: "url_platform \<Rightarrow> evaluation_input \<Rightarrow> decision_code option" where
  "website_failure pf inp =
     (let ctx = ei_context inp; website = context_website ctx in
      if ao_kind (ac_origin ctx) = WebsiteOrigin \<or> website \<noteq> None then
        if \<not> website_binding_ok pf ctx website then Some InvalidAttestation
        else if \<not> website_connected ctx (ei_now inp) then Some ConnectionRequired
        else None
      else None)"

subsection \<open>Evaluation\<close>

definition authority_subjects :: "evaluation_input \<Rightarrow> string list" where
  "authority_subjects inp =
     (let subjects = subjectsForOrigin (ei_context inp) in
      if ei_tier inp = Some CriticalTier
      then set_add (''session:'' @ ss_id (ac_session (ei_context inp))) subjects else subjects)"

text \<open>\<open>input.resource ?? { kind: "exact", key }\<close>.\<close>

definition requested_scope :: "evaluation_input \<Rightarrow> resource_scope" where
  "requested_scope inp = (case ei_resource inp of None \<Rightarrow> ExactScope (ei_resourceKey inp) | Some r \<Rightarrow> r)"

definition manifest_requests :: "url_platform \<Rightarrow> evaluation_input \<Rightarrow> string \<Rightarrow> string \<Rightarrow> bool" where
  "manifest_requests pf inp p cap \<longleftrightarrow>
     (case ac_executingCode (ei_context inp) of
        None \<Rightarrow> False
      | Some code \<Rightarrow> ec_principal code = p \<and>
          list_ex (\<lambda>s. capabilityPatternCovers (cs_capability s) cap \<and>
                     resourceScopeContains (pf_hostname pf) (cs_resource s) (requested_scope inp))
            (ec_requested code))"

definition single_use_spent :: "authority_grant \<Rightarrow> bool" where
  "single_use_spent g \<longleftrightarrow>
     \<not> (ag_effect g = Deny \<or> gc_invocationDigest (effective_constraints g) = None \<or> ag_consumedAt g = None)"

definition critical_confirmation :: "evaluation_input \<Rightarrow> authority_grant \<Rightarrow> bool" where
  "critical_confirmation inp g \<longleftrightarrow>
     ag_provenance g = ''critical-confirmation'' \<and>
     gc_invocationDigest (effective_constraints g) = ei_invocationDigest inp"

definition candidates :: "url_platform \<Rightarrow> evaluation_input \<Rightarrow> string \<Rightarrow> authority_grant list" where
  "candidates pf inp cap =
     matchingAuthorityGrants (pf_hostname pf) (ei_grants inp) (ei_context inp) (authority_subjects inp) cap
       (ei_resourceKey inp) (ei_resource inp) (ei_invocationDigest inp) (ei_providerExecutionDigest inp) (ei_now inp)"

definition tier_candidates :: "evaluation_input \<Rightarrow> authority_grant list \<Rightarrow> authority_grant list" where
  "tier_candidates inp gs =
     (let unconsumed = filter (\<lambda>g. \<not> single_use_spent g) gs in
      if ei_tier inp = Some CriticalTier then filter (critical_confirmation inp) unconsumed else unconsumed)"

definition decide_grants :: "url_platform \<Rightarrow> evaluation_input \<Rightarrow> requirement \<Rightarrow> string \<Rightarrow> string \<Rightarrow> decision" where
  "decide_grants pf inp req cap p =
     (let gs = candidates pf inp cap in
      case find (\<lambda>g. ag_effect g = Deny) gs of
        Some d \<Rightarrow> (plain_decision False UserDenied req)
          \<lparr>de_principal := Some p, de_grantId := present (ag_id d),
           de_standing := Some (gc_sessionId (effective_constraints d) = None)\<rparr>
      | None \<Rightarrow>
          (case find (\<lambda>g. ag_effect g = Allow) (tier_candidates inp gs) of
             Some a \<Rightarrow> (plain_decision True Allowed req)
               \<lparr>de_principal := Some p, de_grantId := present (ag_id a),
                de_consumable := (present (gc_invocationDigest (effective_constraints a)) \<noteq> None)\<rparr>
           | None \<Rightarrow> (plain_decision False ApprovalRequired req)\<lparr>de_principal := Some p\<rparr>))"

definition evaluate_capability ::
  "url_platform \<Rightarrow> evaluation_input \<Rightarrow> principal_kind \<Rightarrow> string \<Rightarrow> bool \<Rightarrow> decision" where
  "evaluate_capability pf inp kind cap codeOnly =
     (let req = Capability kind cap codeOnly; ctx = ei_context inp in
      case principalForRequirement ctx kind codeOnly of
        None \<Rightarrow> plain_decision False ReceiverRejected req
      | Some p \<Rightarrow>
          if p = [] \<or> \<not> isCanonicalPrincipal p then plain_decision False ReceiverRejected req
          else if ei_tier inp = Some OpenTier then (plain_decision True Allowed req)\<lparr>de_principal := Some p\<rparr>
          else if ei_locks inp \<noteq> [] then (plain_decision False UserDenied req)
            \<lparr>de_principal := Some p, de_grantId := Some (al_id (hd (ei_locks inp))), de_standing := Some True\<rparr>
          else if ao_kind (ac_origin ctx) = CodeOrigin \<and> \<not> manifest_requests pf inp p cap
            then (plain_decision False FixedCodeNotRequested req)\<lparr>de_principal := Some p\<rparr>
          else decide_grants pf inp req cap p)"

definition evaluate_session :: "evaluation_input \<Rightarrow> string option \<Rightarrow> string option \<Rightarrow> decision" where
  "evaluate_session inp audience minVersion =
     (let s = ac_session (ei_context inp);
          allowed = ss_expiresAt s > ei_now inp \<and>
            (audience = None \<or> audience = Some (ss_audience s)) \<and>
            (case minVersion of None \<Rightarrow> True
             | Some v \<Rightarrow> (case compareVersions (ss_version s) v of None \<Rightarrow> False | Some d \<Rightarrow> d \<ge> 0))
      in plain_decision allowed (if allowed then Allowed else InvalidSession) (SessionReq audience minVersion))"

definition evaluate_relationship :: "evaluation_input \<Rightarrow> relationship_name \<Rightarrow> string option \<Rightarrow> decision" where
  "evaluate_relationship inp name value =
     (let allowed = (case ei_relation inp of
          Some rel \<Rightarrow> rel (ei_context inp) name value (ei_resourceKey inp) (ei_now inp)
        | None \<Rightarrow> builtinRelationship (ei_context inp) name value)
      in plain_decision allowed (if allowed then Allowed else ReceiverRejected) (Relationship name value))"

text \<open>The code of a compound with no allowed branch: the most specific failure wins.\<close>

definition branch_failure :: "decision list \<Rightarrow> decision_code" where
  "branch_failure ds =
     (let has = (\<lambda>code. list_ex (\<lambda>d. de_code d = code) ds) in
      if has UserDenied then UserDenied
      else if has FixedCodeNotRequested then FixedCodeNotRequested
      else if has InvalidSession then InvalidSession
      else if has ReceiverRejected then ReceiverRejected
      else ApprovalRequired)"

text \<open>The end of the loop of \<open>all\<close>: allowed, with the single-use confirmation it used, if any.\<close>

definition all_allowed :: "requirement \<Rightarrow> decision option \<Rightarrow> decision" where
  "all_allowed req consumable = (plain_decision True Allowed req)
     \<lparr>de_principal := Option.bind consumable (\<lambda>c. present (de_principal c)),
      de_grantId := Option.bind consumable (\<lambda>c. present (de_grantId c)),
      de_consumable := (consumable \<noteq> None)\<rparr>"

fun evaluate :: "url_platform \<Rightarrow> evaluation_input \<Rightarrow> requirement \<Rightarrow> (eval_error, decision) result"
and evaluate_all :: "url_platform \<Rightarrow> evaluation_input \<Rightarrow> requirement \<Rightarrow> decision option \<Rightarrow> requirement list \<Rightarrow>
    (eval_error, decision) result"
and evaluate_matching :: "url_platform \<Rightarrow> evaluation_input \<Rightarrow> requirement list \<Rightarrow>
    (eval_error, decision list) result"
where
  "evaluate pf inp (All rs) = evaluate_all pf inp (All rs) None rs"
| "evaluate pf inp (Any rs) =
     (case evaluate_matching pf inp rs of
        Inl e \<Rightarrow> Inl e
      | Inr ds \<Rightarrow>
          if ds = [] then Inr (plain_decision False ReceiverRejected (Any rs))
          else (case find de_allowed ds of
                  Some d \<Rightarrow> Inr (d\<lparr>de_requirement := Any rs\<rparr>)
                | None \<Rightarrow> Inr (plain_decision False (branch_failure ds) (Any rs))))"
| "evaluate pf inp (SessionReq audience minVersion) = Inr (evaluate_session inp audience minVersion)"
| "evaluate pf inp (Relationship name value) = Inr (evaluate_relationship inp name value)"
| "evaluate pf inp (Capability kind cap codeOnly) = Inr (evaluate_capability pf inp kind cap codeOnly)"
| "evaluate_all pf inp whole consumable [] = Inr (all_allowed whole consumable)"
| "evaluate_all pf inp whole consumable (r # rs) =
     (case evaluate pf inp r of
        Inl e \<Rightarrow> Inl e
      | Inr d \<Rightarrow>
          if \<not> de_allowed d then Inr (d\<lparr>de_requirement := whole\<rparr>)
          else if de_consumable d then
            (case consumable of
               None \<Rightarrow> evaluate_all pf inp whole (Some d) rs
             | Some c \<Rightarrow>
                 if de_grantId c \<noteq> de_grantId d then Inl MergeConfirmations
                 else evaluate_all pf inp whole (Some d) rs)
          else evaluate_all pf inp whole consumable rs)"
| "evaluate_matching pf inp [] = Inr []"
| "evaluate_matching pf inp (r # rs) =
     (if requirementMatchesOrigin (ei_context inp) r then
        (case evaluate pf inp r of
           Inl e \<Rightarrow> Inl e
         | Inr d \<Rightarrow> map_sum id ((#) d) (evaluate_matching pf inp rs))
      else evaluate_matching pf inp rs)"

definition evaluateAuthority :: "url_platform \<Rightarrow> evaluation_input \<Rightarrow> (eval_error, decision) result" where
  "evaluateAuthority pf inp =
     (if ei_resourceKey inp = [] \<or> ei_resourceKey inp \<noteq> trim (ei_resourceKey inp) then Inl BadResourceKey
      else case website_failure pf inp of
             Some code \<Rightarrow> Inr (plain_decision False code (ei_requirement inp))
           | None \<Rightarrow> evaluate pf inp (ei_requirement inp))"

subsection \<open>Remediation\<close>

datatype remediation =
    ConnectWorkspace | RequestUserApproval
  | UpdateInstalledCodeManifest capability_scope tier
  | UseAdmittedPrincipal | RefreshSession | RetryThroughHost | RespectDenial

record authority_failure =
  af_reasonCode :: decision_code
  af_capability :: string
  af_resourceKey :: string
  af_remediation :: remediation

datatype failure_error = NoFailure

fun remediation_of :: "decision_code \<Rightarrow> string \<Rightarrow> string \<Rightarrow> tier \<Rightarrow> remediation option" where
  "remediation_of ConnectionRequired cap key t = Some ConnectWorkspace"
| "remediation_of ApprovalRequired cap key t = Some RequestUserApproval"
| "remediation_of FixedCodeNotRequested cap key t = Some (UpdateInstalledCodeManifest
     \<lparr>cs_capability = cap, cs_resource = ExactScope key\<rparr> (if t = CriticalTier then CriticalTier else GatedTier))"
| "remediation_of ReceiverRejected cap key t = Some UseAdmittedPrincipal"
| "remediation_of InvalidSession cap key t = Some RefreshSession"
| "remediation_of InvalidAttestation cap key t = Some RetryThroughHost"
| "remediation_of UserDenied cap key t = Some RespectDenial"
| "remediation_of Allowed cap key t = None"

definition authorityFailureForDecision ::
  "decision \<Rightarrow> string \<Rightarrow> string \<Rightarrow> tier \<Rightarrow> (failure_error, authority_failure) result" where
  "authorityFailureForDecision d cap key t =
     (if de_allowed d then Inl NoFailure
      else case remediation_of (de_code d) cap key t of
             None \<Rightarrow> Inl NoFailure
           | Some r \<Rightarrow> Inr \<lparr>af_reasonCode = de_code d, af_capability = cap, af_resourceKey = key,
                            af_remediation = r\<rparr>)"

end
