(* ===== verification/AuthorityLaws.thy ===== *)
theory AuthorityLaws
  imports AuthorityEval
begin

text \<open>
  What an authority decision means: the evaluation against a declarative reading of
  requirements, the bound on the grants that can take part, the failure of every refusal,
  and the relation between authority over a set of resources and over its members.
\<close>

subsection \<open>A declarative reading of requirements\<close>

definition grant_applies :: "url_platform \<Rightarrow> evaluation_input \<Rightarrow> string \<Rightarrow> authority_grant \<Rightarrow> bool" where
  "grant_applies pf inp cap g \<longleftrightarrow>
     ag_subject g \<in> set (authority_subjects inp) \<and>
     capabilityPatternCovers (cs_capability g) cap \<and>
     live_at (ei_now inp) g \<and>
     grantConstraintsMatch g (ei_context inp) (ei_invocationDigest inp) (ei_providerExecutionDigest inp) \<and>
     resource_match (pf_hostname pf) g (ei_resourceKey inp) (ei_resource inp)"

text \<open>The grants that can carry a permission: single-use ones once, and under the critical
  tier only a confirmation of this very invocation.\<close>

definition may_permit :: "evaluation_input \<Rightarrow> authority_grant \<Rightarrow> bool" where
  "may_permit inp g \<longleftrightarrow> ag_effect g = Allow \<and> \<not> single_use_spent g \<and>
     (ei_tier inp = Some CriticalTier \<longrightarrow> critical_confirmation inp g)"

definition consents :: "url_platform \<Rightarrow> evaluation_input \<Rightarrow> string \<Rightarrow> bool" where
  "consents pf inp cap \<longleftrightarrow>
     (\<exists>g \<in> set (ei_grants inp). grant_applies pf inp cap g \<and> may_permit inp g) \<and>
     (\<forall>g \<in> set (ei_grants inp). grant_applies pf inp cap g \<longrightarrow> ag_effect g \<noteq> Deny)"

definition leaf_authorized :: "url_platform \<Rightarrow> evaluation_input \<Rightarrow> principal_kind \<Rightarrow> string \<Rightarrow> bool \<Rightarrow> bool" where
  "leaf_authorized pf inp kind cap codeOnly \<longleftrightarrow>
     (\<exists>p. principalForRequirement (ei_context inp) kind codeOnly = Some p \<and> p \<noteq> [] \<and> isCanonicalPrincipal p \<and>
        (ei_tier inp = Some OpenTier \<or>
         ei_locks inp = [] \<and>
         (ao_kind (ac_origin (ei_context inp)) = CodeOrigin \<longrightarrow> manifest_requests pf inp p cap) \<and>
         consents pf inp cap))"

fun authorized :: "url_platform \<Rightarrow> evaluation_input \<Rightarrow> requirement \<Rightarrow> bool" where
  "authorized pf inp (Capability kind cap codeOnly) \<longleftrightarrow> leaf_authorized pf inp kind cap codeOnly"
| "authorized pf inp (All rs) \<longleftrightarrow> list_all (authorized pf inp) rs"
| "authorized pf inp (Any rs) \<longleftrightarrow>
     list_ex (\<lambda>r. requirementMatchesOrigin (ei_context inp) r \<and> authorized pf inp r) rs"
| "authorized pf inp (SessionReq audience minVersion) \<longleftrightarrow> de_allowed (evaluate_session inp audience minVersion)"
| "authorized pf inp (Relationship name value) \<longleftrightarrow> de_allowed (evaluate_relationship inp name value)"

lemma set_candidates: "set (candidates pf inp cap) = {g \<in> set (ei_grants inp). grant_applies pf inp cap g}"
  by (auto simp: candidates_def matchingAuthorityGrants_def grant_applies_def)

lemma set_tier_candidates:
  "set (tier_candidates inp gs) =
     {g \<in> set gs. \<not> single_use_spent g \<and> (ei_tier inp = Some CriticalTier \<longrightarrow> critical_confirmation inp g)}"
  by (auto simp: tier_candidates_def Let_def)

lemma find_None_set: "find P xs = None \<longleftrightarrow> (\<forall>x \<in> set xs. \<not> P x)"
  by (rule find_NoneD)

lemma decide_grants_allowed: "de_allowed (decide_grants pf inp req cap p) \<longleftrightarrow> consents pf inp cap"
proof (cases "find (\<lambda>g. ag_effect g = Deny) (candidates pf inp cap)")
  case None
  then have "\<forall>g \<in> set (ei_grants inp). grant_applies pf inp cap g \<longrightarrow> ag_effect g \<noteq> Deny"
    by (auto simp: find_None_set set_candidates)
  moreover have "find (\<lambda>g. ag_effect g = Allow) (tier_candidates inp (candidates pf inp cap)) = None \<longleftrightarrow>
      \<not> (\<exists>g \<in> set (ei_grants inp). grant_applies pf inp cap g \<and> may_permit inp g)"
    by (auto simp: find_None_set set_tier_candidates set_candidates may_permit_def)
  ultimately show ?thesis
    using None by (auto simp: decide_grants_def Let_def consents_def split: option.split)
next
  case (Some d)
  then have "ag_effect d = Deny" "d \<in> set (ei_grants inp)" "grant_applies pf inp cap d"
    by (auto dest!: find_SomeD simp: set_candidates)
  then show ?thesis using Some by (auto simp: decide_grants_def consents_def)
qed

lemma decide_grants_code: "de_code (decide_grants pf inp req cap p) = Allowed \<longleftrightarrow> de_allowed (decide_grants pf inp req cap p)"
  by (simp add: decide_grants_def Let_def split: option.split)

lemma evaluate_capability_allowed:
  "de_allowed (evaluate_capability pf inp kind cap codeOnly) \<longleftrightarrow> leaf_authorized pf inp kind cap codeOnly"
  by (simp add: evaluate_capability_def leaf_authorized_def Let_def decide_grants_allowed split: option.split)

text \<open>A decision whose code says allowed exactly when it is.\<close>

definition coherent :: "decision \<Rightarrow> bool" where
  "coherent d \<longleftrightarrow> (de_code d = Allowed \<longleftrightarrow> de_allowed d)"

lemma coherent_leaf [simp]: "coherent (evaluate_capability pf inp kind cap codeOnly)"
  by (simp add: coherent_def evaluate_capability_def Let_def decide_grants_code split: option.split)

lemma coherent_others [simp]:
  "coherent (evaluate_session inp audience minVersion)" "coherent (evaluate_relationship inp name value)"
  "coherent (all_allowed req c)" "coherent (d\<lparr>de_requirement := req\<rparr>) \<longleftrightarrow> coherent d"
  by (simp_all add: coherent_def evaluate_session_def evaluate_relationship_def all_allowed_def Let_def)

lemma branch_failure_not_allowed [simp]: "branch_failure ds \<noteq> Allowed"
  by (simp add: branch_failure_def Let_def)

lemma all_allowed_allowed [simp]: "de_allowed (all_allowed req c)"
  by (simp add: all_allowed_def)

lemma find_allowed_coherent: "list_all coherent ds \<Longrightarrow> find de_allowed ds = Some d \<Longrightarrow> coherent d \<and> de_allowed d"
  by (auto dest!: find_SomeD simp: list_all_iff)

lemma evaluate_meaning:
  "evaluate pf inp r = Inr d \<Longrightarrow> (de_allowed d \<longleftrightarrow> authorized pf inp r) \<and> coherent d"
  "evaluate_all pf inp whole c rs = Inr d \<Longrightarrow> (de_allowed d \<longleftrightarrow> list_all (authorized pf inp) rs) \<and> coherent d"
  "evaluate_matching pf inp rs = Inr ds \<Longrightarrow>
     map de_allowed ds = map (authorized pf inp) (filter (requirementMatchesOrigin (ei_context inp)) rs) \<and>
     list_all coherent ds"
proof (induction pf inp r and pf inp whole c rs and pf inp rs arbitrary: d and d and ds
    rule: evaluate_evaluate_all_evaluate_matching.induct)
  case (2 pf inp rs)
  obtain ds where ds: "evaluate_matching pf inp rs = Inr ds"
    using "2.prems" by (cases "evaluate_matching pf inp rs") simp_all
  note IH = "2.IH" [OF ds]
  have found: "(\<exists>x \<in> set ds. de_allowed x) \<longleftrightarrow> authorized pf inp (Any rs)"
  proof -
    have "(\<exists>x \<in> set ds. de_allowed x) \<longleftrightarrow> True \<in> set (map de_allowed ds)" by force
    also have "\<dots> \<longleftrightarrow> authorized pf inp (Any rs)" using IH by (auto simp: list_ex_iff)
    finally show ?thesis .
  qed
  show ?case
  proof (cases "find de_allowed ds")
    case None
    then have "\<not> authorized pf inp (Any rs)" using found by (auto simp: find_None_set)
    then show ?thesis using "2.prems" ds None by (auto simp: coherent_def split: if_splits)
  next
    case (Some x)
    then have "authorized pf inp (Any rs)" using found by (auto dest: find_SomeD)
    moreover have "coherent x \<and> de_allowed x" using Some IH find_allowed_coherent by blast
    moreover have "ds \<noteq> []" using Some by auto
    ultimately show ?thesis using "2.prems" ds Some by auto
  qed
next
  case (7 pf inp whole c r rs)
  obtain x where x: "evaluate pf inp r = Inr x" using "7.prems" by (cases "evaluate pf inp r") simp_all
  note head = "7.IH"(1) [OF x]
  show ?case
  proof (cases "de_allowed x")
    case False
    then show ?thesis using "7.prems" x head by (auto simp: coherent_def)
  next
    case True
    then have allowed: "\<not> \<not> de_allowed x" by simp
    have "(de_allowed d \<longleftrightarrow> list_all (authorized pf inp) rs) \<and> coherent d"
    proof (cases "de_consumable x")
      case False
      then show ?thesis using "7.prems" x True "7.IH"(4) [OF x allowed False] by simp
    next
      case consumable: True
      show ?thesis
      proof (cases c)
        case None
        then show ?thesis using "7.prems" x True consumable "7.IH"(2) [OF x allowed consumable None] by simp
      next
        case (Some y)
        then have same: "\<not> de_grantId y \<noteq> de_grantId x" using "7.prems" x True consumable by (simp split: if_splits)
        then show ?thesis
          using "7.prems" x True consumable Some "7.IH"(3) [OF x allowed consumable Some same] by simp
      qed
    qed
    then show ?thesis using head True by simp
  qed
next
  case (9 pf inp r rs)
  show ?case
  proof (cases "requirementMatchesOrigin (ei_context inp) r")
    case True
    with "9.prems" obtain x where x: "evaluate pf inp r = Inr x" by (auto split: sum.splits)
    with True "9.prems" obtain xs where xs: "evaluate_matching pf inp rs = Inr xs" and "ds = x # xs"
      by (cases "evaluate_matching pf inp rs") auto
    then show ?thesis using True "9.IH"(1) [OF True x] "9.IH"(2) [OF True x xs] by simp
  next
    case False
    then show ?thesis using "9.IH"(3) [OF False] "9.prems" by simp
  qed
qed (auto simp: evaluate_capability_allowed)

lemma authority_meaning:
  assumes "evaluateAuthority pf inp = Inr d"
  shows "(de_allowed d \<longleftrightarrow> website_failure pf inp = None \<and> authorized pf inp (ei_requirement inp))
    \<and> (de_code d = Allowed \<longleftrightarrow> de_allowed d)"
proof (cases "website_failure pf inp")
  case None
  then have "evaluate pf inp (ei_requirement inp) = Inr d"
    using assms by (simp add: evaluateAuthority_def split: if_splits)
  then show ?thesis using evaluate_meaning(1) None by (auto simp: coherent_def)
next
  case (Some code)
  then have "code \<noteq> Allowed" by (auto simp: website_failure_def Let_def split: if_splits)
  then show ?thesis using assms Some by (auto simp: evaluateAuthority_def split: if_splits)
qed

text \<open>
  C2. Authority is exactly what the requirement says. When the evaluation of a request returns
  a decision, it allows the request if and only if the website checks pass and the compound
  requirement holds under its declarative reading: all of \<open>all\<close>, one admitted branch of
  \<open>any\<close>, and for a capability an admitted canonical principal that the open tier waives
  through or that has no lock, a manifest request (for installed code), an applicable
  unspent allow grant and no applicable deny; and the code of the decision says so.
\<close>

theorem authority_decision_exact:
  assumes "evaluateAuthority pf inp = Inr d"
  shows "(de_allowed d \<longleftrightarrow> website_failure pf inp = None \<and> authorized pf inp (ei_requirement inp))
    \<and> (de_code d = Allowed \<longleftrightarrow> de_allowed d)"
  using authority_meaning [OF assms] .

subsection \<open>A concrete authority set\<close>

text \<open>A session of an agent in its workspace, whose user granted it a capability on a tree of
  contexts; the platform parses host names after the scheme, as far as the examples need.\<close>

definition demo_platform :: url_platform where
  "demo_platform = \<lparr>pf_hostname = (\<lambda>s. if startsWith ''https://'' s
       then Some (takeWhile (\<lambda>c. c \<noteq> CHR ''/'') (drop 8 s)) else None),
     pf_url = (\<lambda>s. if startsWith ''https://'' s then Some (''https:'', s) else None)\<rparr>"

definition demo_session :: authority_session where
  "demo_session = \<lparr>ss_id = ''s1'', ss_audience = ''host'', ss_version = ''1.0.0'', ss_expiresAt = 1000,
     ss_taskRef = None, ss_taskAuthority = None\<rparr>"

definition demo_context :: authorization_context where
  "demo_context = \<lparr>ac_executionAuthority = None, ac_website = None, ac_subjectBinding = None,
     ac_installation = None, ac_sourceWorkspaceId = None,
     ac_origin = \<lparr>ao_kind = SessionOrigin, ao_principal = ''session:s1''\<rparr>,
     ac_actingUser = Some ''user:u'', ac_entity = None, ac_executingCode = None, ac_ownerChain = [],
     ac_agentBindingEntity = None, ac_executionSession = None,
     ac_workspace = Some \<lparr>wr_workspaceId = ''w'', wr_member = True, wr_role = None\<rparr>,
     ac_session = demo_session\<rparr>"

definition demo_grant :: "string \<Rightarrow> effect \<Rightarrow> resource_scope \<Rightarrow> authority_grant" where
  "demo_grant subject eff scope = \<lparr>cs_capability = ''fs.*'', cs_resource = scope, ag_id = Some ''g1'',
     ag_subject = subject, ag_effect = eff, ag_issuedBy = ''user:u'', ag_createdAt = 1, ag_expiresAt = None,
     ag_revokedAt = None, ag_consumedAt = None, ag_suspendedAt = None, ag_lastUsedAt = None,
     ag_scope = Some SessionScope, ag_constraints = None, ag_provenance = ''acquisition'',
     ag_decidedBy = None, ag_decisionSurface = None, ag_capabilityDefinitionDigest = None\<rparr>"

definition demo_requirement :: requirement where
  "demo_requirement = All [Capability SessionKind ''fs.write'' False, Relationship WorkspaceMember None]"

definition demo_input :: "authority_grant list \<Rightarrow> resource_scope option \<Rightarrow> evaluation_input" where
  "demo_input grants resource = \<lparr>ei_context = demo_context, ei_requirement = demo_requirement,
     ei_resourceKey = ''ctx/a'', ei_resource = resource, ei_grants = grants, ei_locks = [], ei_now = 10,
     ei_invocationDigest = None, ei_providerExecutionDigest = None, ei_tier = Some GatedTier,
     ei_relation = None\<rparr>"

lemmas demo_defs = demo_platform_def demo_session_def demo_context_def demo_grant_def demo_requirement_def
  demo_input_def

lemmas grant_matching_defs = decide_grants_def candidates_def matchingAuthorityGrants_def
  authority_subjects_def subjectsForOrigin_def installation_subjects_def session_mission_def
  session_binding_def new_set_def capabilityPatternCovers_def endsWith_def startsWith_def live_at_def
  grantConstraintsMatch_def effective_constraints_def no_constraints_def subject_binding_of_def
  workspace_id_def resource_match_def tier_candidates_def single_use_spent_def present_def Let_def

lemmas leaf_defs = evaluate_capability_def principalForRequirement_def isCanonicalPrincipal_def headed_def
  versioned_def no_nul_def evaluate_relationship_def all_allowed_def

lemmas gate_defs = evaluateAuthority_def website_failure_def context_website_def trim_def space_char_def

lemma demo_allowed:
  "evaluateAuthority demo_platform (demo_input [demo_grant ''session:s1'' Allow (ExactScope ''ctx/a'')] None) =
     Inr (all_allowed demo_requirement None)"
  by (simp add: demo_defs gate_defs leaf_defs grant_matching_defs)

theorem authority_decision_exact_witness:
  "authorized demo_platform (demo_input [demo_grant ''session:s1'' Allow (ExactScope ''ctx/a'')] None)
     demo_requirement"
proof -
  let ?inp = "demo_input [demo_grant ''session:s1'' Allow (ExactScope ''ctx/a'')] None"
  have "ei_requirement ?inp = demo_requirement" by (simp add: demo_input_def)
  then show ?thesis using authority_decision_exact [OF demo_allowed] by simp
qed

subsection \<open>Only the origin's own grants take part\<close>

text \<open>Two inputs that ask the same question and see the same candidate grants decide alike.\<close>

definition same_question :: "evaluation_input \<Rightarrow> evaluation_input \<Rightarrow> bool" where
  "same_question a b \<longleftrightarrow> a\<lparr>ei_grants := []\<rparr> = b\<lparr>ei_grants := []\<rparr>"

lemma same_questionD:
  "same_question a b \<Longrightarrow> ei_context a = ei_context b \<and> ei_requirement a = ei_requirement b \<and>
     ei_resourceKey a = ei_resourceKey b \<and> ei_resource a = ei_resource b \<and> ei_locks a = ei_locks b \<and>
     ei_now a = ei_now b \<and> ei_invocationDigest a = ei_invocationDigest b \<and>
     ei_providerExecutionDigest a = ei_providerExecutionDigest b \<and> ei_tier a = ei_tier b \<and>
     ei_relation a = ei_relation b"
  by (cases a; cases b) (simp add: same_question_def)

lemma evaluate_capability_cong:
  assumes "same_question a b" and "candidates pf a cap = candidates pf b cap"
  shows "evaluate_capability pf a kind cap codeOnly = evaluate_capability pf b kind cap codeOnly"
proof -
  note q = same_questionD [OF assms(1)]
  have "tier_candidates a gs = tier_candidates b gs" for gs
    using q by (simp add: tier_candidates_def critical_confirmation_def [abs_def] Let_def)
  then have "decide_grants pf a req cap p = decide_grants pf b req cap p" for req p
    using assms(2) by (simp add: decide_grants_def Let_def cong: option.case_cong)
  moreover have "manifest_requests pf a p cap = manifest_requests pf b p cap" for p
    using q by (simp add: manifest_requests_def requested_scope_def cong: option.case_cong)
  ultimately show ?thesis using q by (simp add: evaluate_capability_def Let_def cong: option.case_cong if_cong)
qed

lemma evaluate_all_cong:
  "(\<And>r. r \<in> set rs \<Longrightarrow> evaluate pf a r = evaluate pf b r) \<Longrightarrow>
     evaluate_all pf a whole c rs = evaluate_all pf b whole c rs"
  by (induction rs arbitrary: c) (simp_all split: sum.split option.split)

lemma evaluate_matching_cong:
  "ei_context a = ei_context b \<Longrightarrow> (\<And>r. r \<in> set rs \<Longrightarrow> evaluate pf a r = evaluate pf b r) \<Longrightarrow>
     evaluate_matching pf a rs = evaluate_matching pf b rs"
  by (induction rs) (simp_all split: sum.split)

lemma evaluate_cong:
  assumes q: "same_question a b" and same: "\<And>cap. candidates pf a cap = candidates pf b cap"
  shows "evaluate pf a r = evaluate pf b r"
proof (induction r)
  case (Capability kind cap codeOnly)
  then show ?case using evaluate_capability_cong [OF q same] by simp
next
  case (Relationship name v)
  then show ?case using same_questionD [OF q] by (simp add: evaluate_relationship_def Let_def cong: option.case_cong)
next
  case (SessionReq audience minVersion)
  then show ?case using same_questionD [OF q] by (simp add: evaluate_session_def Let_def)
next
  case (All rs)
  then show ?case by (auto intro: evaluate_all_cong)
next
  case (Any rs)
  then have "evaluate_matching pf a rs = evaluate_matching pf b rs"
    using same_questionD [OF q] by (auto intro: evaluate_matching_cong)
  then show ?case by simp
qed

definition with_grants :: "evaluation_input \<Rightarrow> authority_grant list \<Rightarrow> evaluation_input" where
  "with_grants inp grants = inp\<lparr>ei_grants := grants\<rparr>"

lemma with_grants_same [simp]: "same_question (with_grants inp grants) inp"
  by (simp add: same_question_def with_grants_def)

lemma evaluateAuthority_cong:
  assumes q: "same_question a b" and same: "\<And>cap. candidates pf a cap = candidates pf b cap"
  shows "evaluateAuthority pf a = evaluateAuthority pf b"
proof -
  have "website_failure pf a = website_failure pf b"
    using same_questionD [OF q] by (simp add: website_failure_def Let_def)
  then show ?thesis
    using same_questionD [OF q] evaluate_cong [OF q same]
    by (simp add: evaluateAuthority_def cong: option.case_cong)
qed

lemma candidates_with_grants:
  "candidates pf (with_grants inp (filter P grants)) cap = filter P (candidates pf (with_grants inp grants) cap)"
  by (auto simp: candidates_def matchingAuthorityGrants_def with_grants_def authority_subjects_def Let_def intro: filter_cong)

lemma filter_useless: "(\<And>x. x \<in> set xs \<Longrightarrow> P x) \<Longrightarrow> filter P xs = xs"
  by (simp add: filter_id_conv)

text \<open>
  C3. No grants are pooled across principals. A decision depends only on grants whose subject
  is in the authority set of the origin, and that set holds nothing but the origin's own
  principal, the admitted installation of that very code (for a code origin), the task of the
  session, the agent binding and the mission of an evaluated session (for a session origin),
  and the session itself under the critical tier. The acting user's, the harness's and other
  sessions' grants never take part; a website origin has no other subject at all.
\<close>

theorem authority_no_pooling:
  "evaluateAuthority pf (with_grants inp (filter (\<lambda>g. ag_subject g \<in> set (authority_subjects inp)) (ei_grants inp))) =
     evaluateAuthority pf inp
   \<and> set (authority_subjects inp) =
       {ao_principal (ac_origin (ei_context inp))}
       \<union> {s. ao_kind (ac_origin (ei_context inp)) \<noteq> WebsiteOrigin \<and> s \<in> set (installation_subjects (ei_context inp))}
       \<union> {s. ao_kind (ac_origin (ei_context inp)) \<noteq> WebsiteOrigin \<and>
             present (ss_taskAuthority (ac_session (ei_context inp))) = Some s}
       \<union> {s. ao_kind (ac_origin (ei_context inp)) = SessionOrigin \<and>
             (\<exists>b. present (session_binding (ei_context inp)) = Some b \<and> s = ''agent:'' @ b)}
       \<union> {s. ao_kind (ac_origin (ei_context inp)) = SessionOrigin \<and> session_mission (ei_context inp) = Some s}
       \<union> {s. ei_tier inp = Some CriticalTier \<and> s = ''session:'' @ ss_id (ac_session (ei_context inp))}"
proof (intro conjI)
  let ?own = "\<lambda>g. ag_subject g \<in> set (authority_subjects inp)"
  have inp: "with_grants inp (ei_grants inp) = inp" by (simp add: with_grants_def)
  have "candidates pf (with_grants inp (filter ?own (ei_grants inp))) cap = candidates pf inp cap" for cap
    unfolding candidates_with_grants inp
    by (rule filter_useless) (simp add: set_candidates grant_applies_def)
  then show "evaluateAuthority pf (with_grants inp (filter ?own (ei_grants inp))) = evaluateAuthority pf inp"
    by (intro evaluateAuthority_cong) simp_all
next
  show "set (authority_subjects inp) =
       {ao_principal (ac_origin (ei_context inp))}
       \<union> {s. ao_kind (ac_origin (ei_context inp)) \<noteq> WebsiteOrigin \<and> s \<in> set (installation_subjects (ei_context inp))}
       \<union> {s. ao_kind (ac_origin (ei_context inp)) \<noteq> WebsiteOrigin \<and>
             present (ss_taskAuthority (ac_session (ei_context inp))) = Some s}
       \<union> {s. ao_kind (ac_origin (ei_context inp)) = SessionOrigin \<and>
             (\<exists>b. present (session_binding (ei_context inp)) = Some b \<and> s = ''agent:'' @ b)}
       \<union> {s. ao_kind (ac_origin (ei_context inp)) = SessionOrigin \<and> session_mission (ei_context inp) = Some s}
       \<union> {s. ei_tier inp = Some CriticalTier \<and> s = ''session:'' @ ss_id (ac_session (ei_context inp))}"
    by (auto simp: authority_subjects_def subjectsForOrigin_def Let_def split: option.splits if_splits)
qed

subsection \<open>Denials and locks only narrow\<close>

lemma authorized_mono:
  assumes ctx: "ei_context a = ei_context b"
    and leaf: "\<And>kind cap codeOnly. leaf_authorized pf a kind cap codeOnly \<Longrightarrow> leaf_authorized pf b kind cap codeOnly"
    and rel: "\<And>name v. de_allowed (evaluate_relationship a name v) \<Longrightarrow> de_allowed (evaluate_relationship b name v)"
    and ses: "\<And>au mv. de_allowed (evaluate_session a au mv) \<Longrightarrow> de_allowed (evaluate_session b au mv)"
  shows "authorized pf a r \<Longrightarrow> authorized pf b r"
proof (induction r)
  case (Any rs)
  then show ?case using ctx by (auto simp: list_ex_iff)
qed (use leaf rel ses in \<open>auto simp: list_all_iff\<close>)

definition tightened :: "evaluation_input \<Rightarrow> authority_grant list \<Rightarrow> authority_lock list \<Rightarrow> evaluation_input" where
  "tightened inp denials locks = inp\<lparr>ei_grants := denials @ ei_grants inp, ei_locks := locks @ ei_locks inp\<rparr>"

lemma tightened_fields [simp]:
  "ei_context (tightened inp ds ls) = ei_context inp" "ei_requirement (tightened inp ds ls) = ei_requirement inp"
  "ei_tier (tightened inp ds ls) = ei_tier inp" "ei_locks (tightened inp ds ls) = ls @ ei_locks inp"
  "ei_grants (tightened inp ds ls) = ds @ ei_grants inp"
  "website_failure pf (tightened inp ds ls) = website_failure pf inp"
  by (simp_all add: tightened_def website_failure_def Let_def)

lemma tightened_applies [simp]:
  "grant_applies pf (tightened inp ds ls) = grant_applies pf inp" "may_permit (tightened inp ds ls) = may_permit inp"
  by (simp_all add: fun_eq_iff tightened_def grant_applies_def authority_subjects_def may_permit_def
      critical_confirmation_def Let_def)

lemma tightened_leaf:
  assumes "\<forall>g \<in> set ds. ag_effect g = Deny" and "leaf_authorized pf (tightened inp ds ls) kind cap codeOnly"
  shows "leaf_authorized pf inp kind cap codeOnly"
proof -
  have "consents pf (tightened inp ds ls) cap \<Longrightarrow> consents pf inp cap"
    using assms(1) by (fastforce simp: consents_def may_permit_def)
  moreover have "manifest_requests pf (tightened inp ds ls) p cap = manifest_requests pf inp p cap" for p
    by (simp add: manifest_requests_def requested_scope_def tightened_def cong: option.case_cong)
  ultimately show ?thesis using assms(2) by (auto simp: leaf_authorized_def)
qed

text \<open>
  Denials and locks only ever narrow authority: a request that is allowed when further
  deny grants and further locks are in force is allowed without them.
\<close>

theorem denials_only_narrow:
  assumes "\<forall>g \<in> set denials. ag_effect g = Deny"
    and "evaluateAuthority pf (tightened inp denials locks) = Inr d'" and "de_allowed d'"
    and "evaluateAuthority pf inp = Inr d"
  shows "de_allowed d"
proof -
  let ?t = "tightened inp denials locks"
  have free: "website_failure pf ?t = None" and t: "authorized pf ?t (ei_requirement inp)"
    using authority_meaning [OF assms(2)] assms(3) by simp_all
  have "authorized pf inp (ei_requirement inp)"
  proof (rule authorized_mono [OF _ _ _ _ t])
    show "leaf_authorized pf inp kind cap codeOnly" if "leaf_authorized pf ?t kind cap codeOnly" for kind cap codeOnly
      using tightened_leaf [OF assms(1)] that by blast
  qed (simp_all add: evaluate_relationship_def evaluate_session_def tightened_def Let_def cong: option.case_cong)
  then show ?thesis using authority_meaning [OF assms(4)] free by simp
qed

text \<open>The witness: a denial on another tree and no lock; the request stays allowed.\<close>

lemma demo_denied_elsewhere:
  "evaluateAuthority demo_platform (tightened (demo_input [demo_grant ''session:s1'' Allow (ExactScope ''ctx/a'')] None)
     [demo_grant ''session:s1'' Deny (ExactScope ''ctx/b'')] []) = Inr (all_allowed demo_requirement None)"
  by (simp add: tightened_def demo_defs gate_defs leaf_defs grant_matching_defs)

theorem denials_only_narrow_witness:
  "de_allowed (all_allowed demo_requirement None)
   \<and> evaluateAuthority demo_platform (demo_input [demo_grant ''session:s1'' Allow (ExactScope ''ctx/a'')] None) =
       Inr (all_allowed demo_requirement None)"
proof -
  have deny: "\<forall>g \<in> set [demo_grant ''session:s1'' Deny (ExactScope ''ctx/b'')]. ag_effect g = Deny"
    by (simp add: demo_grant_def)
  show ?thesis
    using denials_only_narrow [OF deny demo_denied_elsewhere _ demo_allowed] demo_allowed by simp
qed

subsection \<open>Every refusal has its remediation\<close>

text \<open>
  No refusal is left without remediation, and no permission gets one: for every decision the
  evaluation returns, the failure translation throws exactly when the request is allowed, and
  otherwise keeps the code of the decision; it proposes a manifest request only for installed
  code that did not declare the capability, never at the open tier and exactly for the key asked.
\<close>

theorem authority_refusal_explained:
  assumes "evaluateAuthority pf inp = Inr d"
  shows "(authorityFailureForDecision d cap key t = Inl NoFailure \<longleftrightarrow> de_allowed d)
    \<and> (\<not> de_allowed d \<longrightarrow> (\<exists>f. authorityFailureForDecision d cap key t = Inr f \<and> af_reasonCode f = de_code d
          \<and> ((\<exists>scope t'. af_remediation f = UpdateInstalledCodeManifest scope t') \<longleftrightarrow> de_code d = FixedCodeNotRequested)
          \<and> (\<forall>scope t'. af_remediation f = UpdateInstalledCodeManifest scope t' \<longrightarrow>
               scope = \<lparr>cs_capability = cap, cs_resource = ExactScope key\<rparr> \<and> t' \<noteq> OpenTier)))"
proof (cases "de_allowed d")
  case True
  then show ?thesis by (simp add: authorityFailureForDecision_def)
next
  case False
  then have "de_code d \<noteq> Allowed" using authority_meaning [OF assms] by simp
  then show ?thesis using False
    by (cases "de_code d") (auto simp: authorityFailureForDecision_def)
qed

theorem authority_refusal_explained_witness:
  "\<exists>f. authorityFailureForDecision (plain_decision False ApprovalRequired demo_requirement
      \<lparr>de_principal := Some ''session:s1''\<rparr>) ''fs.write'' ''ctx/a'' GatedTier = Inr f
    \<and> af_reasonCode f = ApprovalRequired"
proof -
  have "evaluateAuthority demo_platform (demo_input [] None) =
      Inr (plain_decision False ApprovalRequired demo_requirement\<lparr>de_principal := Some ''session:s1''\<rparr>)"
    by (simp add: demo_defs gate_defs leaf_defs grant_matching_defs plain_decision_def)
  from authority_refusal_explained [OF this, of "''fs.write''" "''ctx/a''" GatedTier] show ?thesis by auto
qed

subsection \<open>Requirements built from principal families\<close>

lemma authorized_member_branch:
  "ei_relation inp = None \<Longrightarrow> authorized pf inp (member_branch (capability kind name codeOnly)) \<longleftrightarrow>
     leaf_authorized pf inp kind name codeOnly \<and> builtinRelationship (ei_context inp) WorkspaceMember None"
  by (simp add: member_branch_def capability_def relationship_def evaluate_relationship_def Let_def)

lemma leaf_principal:
  "leaf_authorized pf inp kind name codeOnly \<Longrightarrow> principalForRequirement (ei_context inp) kind codeOnly \<noteq> None"
  by (auto simp: leaf_authorized_def)

text \<open>A session stands for code that is not code-only.\<close>

lemma leaf_session_code:
  "leaf_authorized pf inp SessionKind name False \<Longrightarrow> leaf_authorized pf inp CodeKind name False"
  by (cases "ao_kind (ac_origin (ei_context inp))")
    (auto simp: leaf_authorized_def principalForRequirement_def split: if_splits)

lemma leaf_any_code_only: "kind \<noteq> CodeKind \<Longrightarrow>
    leaf_authorized pf inp kind name codeOnly = leaf_authorized pf inp kind name False"
  by (simp add: leaf_authorized_def principalForRequirement_def)

lemma principal_branches_authorized:
  "ei_relation inp = None \<Longrightarrow>
     (\<exists>r \<in> set (principal_branches name codeOnly kind). authorized pf inp r) \<longleftrightarrow>
     leaf_authorized pf inp kind name (codeOnly \<and> kind = CodeKind) \<and>
     (kind = HostKind \<or> builtinRelationship (ei_context inp) WorkspaceMember None)"
  using leaf_session_code [of pf inp name]
  by (cases kind) (auto simp: authorized_member_branch simp del: builtinRelationship.simps, auto simp: capability_def)

lemma principal_branches_match:
  "\<exists>r \<in> set (principal_branches name codeOnly kind). r \<noteq> Any []" "principal_branches name codeOnly kind \<noteq> []"
  by (cases kind; simp add: capability_def member_branch_def)+

lemma branch_matches:
  "r \<in> set (principal_branches name codeOnly kind) \<Longrightarrow> authorized pf inp r \<Longrightarrow>
     requirementMatchesOrigin (ei_context inp) r"
  by (cases kind) (auto simp: member_branch_def capability_def relationship_def dest!: leaf_principal split: if_splits)

text \<open>
  A declared list of principal families admits exactly those families. The requirement built
  for a non-empty list always exists, and it authorizes a request iff some listed family does:
  the host on its own authority, every other family only for a live workspace member; a
  code-only declaration is never satisfied by an evaluated session through the code family.
\<close>

theorem declared_principals_exact:
  assumes "ei_relation inp = None"
  shows "(case requirementForPrincipals principals name codeOnly of
      Inl e \<Rightarrow> principals = []
    | Inr r \<Rightarrow> authorized pf inp r \<longleftrightarrow>
        (\<exists>kind \<in> set principals. leaf_authorized pf inp kind name (codeOnly \<and> kind = CodeKind) \<and>
           (kind = HostKind \<or> builtinRelationship (ei_context inp) WorkspaceMember None)))
    \<and> (ao_kind (ac_origin (ei_context inp)) = SessionOrigin \<longrightarrow> \<not> leaf_authorized pf inp CodeKind name True)"
proof (intro conjI impI)
  let ?unique = "new_set principals"
  let ?branches = "concat (map (principal_branches name codeOnly) ?unique)"
  have some: "(\<exists>r \<in> set ?branches. authorized pf inp r) \<longleftrightarrow>
      (\<exists>kind \<in> set principals. leaf_authorized pf inp kind name (codeOnly \<and> kind = CodeKind) \<and>
         (kind = HostKind \<or> builtinRelationship (ei_context inp) WorkspaceMember None))"
    using principal_branches_authorized [OF assms, of name codeOnly _ pf] by auto
  have matching: "r \<in> set ?branches \<Longrightarrow> authorized pf inp r \<Longrightarrow> requirementMatchesOrigin (ei_context inp) r" for r
    using branch_matches by fastforce
  show "case requirementForPrincipals principals name codeOnly of
      Inl e \<Rightarrow> principals = []
    | Inr r \<Rightarrow> authorized pf inp r \<longleftrightarrow>
        (\<exists>kind \<in> set principals. leaf_authorized pf inp kind name (codeOnly \<and> kind = CodeKind) \<and>
           (kind = HostKind \<or> builtinRelationship (ei_context inp) WorkspaceMember None))"
  proof (cases "principals = []")
    case True
    then show ?thesis by (simp add: requirementForPrincipals_def new_set_def)
  next
    case False
    then have unique: "?unique \<noteq> []" by (metis set_empty set_new_set)
    then have nonempty: "?branches \<noteq> []"
      using principal_branches_match(2) by (cases ?unique) simp_all
    show ?thesis
    proof (cases "length ?branches = 1")
      case True
      then obtain r where r: "?branches = [r]" by (cases ?branches) auto
      then have "requirementForPrincipals principals name codeOnly = Inr r"
        using unique by (simp add: requirementForPrincipals_def Let_def)
      moreover have "authorized pf inp r \<longleftrightarrow> (\<exists>r \<in> set ?branches. authorized pf inp r)" using r by simp
      ultimately show ?thesis unfolding some by simp
    next
      case False
      then have "requirementForPrincipals principals name codeOnly = Inr (Any ?branches)"
        using unique nonempty by (simp add: requirementForPrincipals_def anyOf_def Let_def)
      moreover have "authorized pf inp (Any ?branches) \<longleftrightarrow> (\<exists>r \<in> set ?branches. authorized pf inp r)"
        using matching by (simp add: list_ex_iff) blast
      ultimately show ?thesis unfolding some by simp
    qed
  qed
next
  assume "ao_kind (ac_origin (ei_context inp)) = SessionOrigin"
  then show "\<not> leaf_authorized pf inp CodeKind name True"
    by (simp add: leaf_authorized_def principalForRequirement_def)
qed

theorem declared_principals_exact_witness:
  "\<not> leaf_authorized demo_platform (demo_input [] None) CodeKind ''fs.write'' True
   \<and> requirementForPrincipals [] ''fs.write'' False = Inl NoPrincipal"
proof -
  have "ei_relation (demo_input [] None) = None" by (simp add: demo_input_def)
  from declared_principals_exact [OF this, where codeOnly = False and principals = "[]" and name = "''fs.write''" and pf = demo_platform]
  show ?thesis by (simp add: demo_input_def demo_context_def requirementForPrincipals_def new_set_def)
qed

subsection \<open>Sets of resources and their members\<close>

text \<open>Scopes that the containment test can compare: of one kind, or one of them exact; of two
  domains only equal ones are comparable.\<close>

fun comparable :: "resource_scope \<Rightarrow> resource_scope \<Rightarrow> bool" where
  "comparable (ExactScope a) s = True"
| "comparable s (ExactScope a) = True"
| "comparable (PrefixScope a) (PrefixScope b) = True"
| "comparable (OriginScope a) (OriginScope b) = True"
| "comparable (DomainScope a) (DomainScope b) = (a = b)"
| "comparable NetworkScope NetworkScope = True"
| "comparable _ _ = False"

text \<open>Two prefixes that cover a common key cover one another.\<close>

lemma prefix_linear:
  assumes "scopeCovers host (PrefixScope p) k" and "scopeCovers host (PrefixScope q) k" and "length p \<le> length q"
  shows "scopeCovers host (PrefixScope p) q"
proof (cases "p = [] \<or> q = []")
  case True
  then show ?thesis using assms(3) by (auto simp: prefix_covers_iff)
next
  case False
  from assms(1) False obtain r where r: "k = p @ r" "r = [] \<or> last p \<in> set separators \<or> hd r = CHR ''/''"
    unfolding prefix_covers_iff by blast
  from assms(2) False obtain r' where "k = q @ r'"
    unfolding prefix_covers_iff by blast
  then have "take (length p) (q @ r') = take (length p) (p @ r)" using r(1) by simp
  then have "take (length p) q = p" using assms(3) by (simp del: take_append add: take_append [of _ q] take_append [of _ p])
  then obtain u where u: "q = p @ u" by (metis append_take_drop_id)
  with \<open>k = q @ r'\<close> r(1) have "r = u @ r'" by simp
  then have "u = [] \<or> last p \<in> set separators \<or> hd u = CHR ''/''" using r(2) by (cases u) auto
  with u show ?thesis by (auto simp: prefix_covers_iff)
qed

lemma comparable_contains:
  assumes "comparable a b" and "scopeCovers host a k" and "scopeCovers host b k"
  shows "resourceScopeContains host a b \<or> resourceScopeContains host b a"
  using assms
proof (induction a b rule: comparable.induct)
  case (3 a b)
  then show ?case using prefix_linear by (metis linear resourceScopeContains.simps(2))
qed auto

definition on_member :: "evaluation_input \<Rightarrow> string \<Rightarrow> evaluation_input" where
  "on_member inp k = inp\<lparr>ei_resource := None, ei_resourceKey := k\<rparr>"

lemma on_member_fields [simp]:
  "ei_context (on_member inp k) = ei_context inp" "ei_requirement (on_member inp k) = ei_requirement inp"
  "ei_tier (on_member inp k) = ei_tier inp" "ei_locks (on_member inp k) = ei_locks inp"
  "ei_grants (on_member inp k) = ei_grants inp" "may_permit (on_member inp k) = may_permit inp"
  "website_failure pf (on_member inp k) = website_failure pf inp"
  by (simp_all add: on_member_def website_failure_def may_permit_def critical_confirmation_def fun_eq_iff Let_def)

lemma applies_on_member:
  assumes r: "ei_resource inp = Some r" and k: "scopeCovers (pf_hostname pf) r k"
  shows "grant_applies pf inp cap g \<Longrightarrow> ag_effect g = Allow \<Longrightarrow> grant_applies pf (on_member inp k) cap g"
    and "comparable (cs_resource g) r \<or> \<not> scopeCovers (pf_hostname pf) (cs_resource g) k \<Longrightarrow>
      ag_effect g = Deny \<Longrightarrow> grant_applies pf (on_member inp k) cap g \<Longrightarrow> grant_applies pf inp cap g"
proof -
  have subjects: "authority_subjects (on_member inp k) = authority_subjects inp"
    by (simp add: authority_subjects_def on_member_def Let_def)
  show "grant_applies pf inp cap g \<Longrightarrow> ag_effect g = Allow \<Longrightarrow> grant_applies pf (on_member inp k) cap g"
    using containment_covers [OF _ k] r subjects
    by (auto simp: grant_applies_def resource_match_def) (simp_all add: on_member_def)
  show "comparable (cs_resource g) r \<or> \<not> scopeCovers (pf_hostname pf) (cs_resource g) k \<Longrightarrow>
      ag_effect g = Deny \<Longrightarrow> grant_applies pf (on_member inp k) cap g \<Longrightarrow> grant_applies pf inp cap g"
    using comparable_contains [OF _ _ k] r subjects
    by (auto simp: grant_applies_def resource_match_def on_member_def)
qed

text \<open>
  Authority over a set of resources is authority over each of its members: a request that
  is allowed for an envelope is allowed for every key the envelope covers, when no deny grant
  that covers the key has a scope of a kind the containment test cannot compare with the envelope.
\<close>

theorem set_authority_covers_members:
  assumes "ei_resource inp = Some r" and "scopeCovers (pf_hostname pf) r k" and "ei_relation inp = None"
    and "\<forall>g \<in> set (ei_grants inp). ag_effect g = Deny \<longrightarrow>
           comparable (cs_resource g) r \<or> \<not> scopeCovers (pf_hostname pf) (cs_resource g) k"
    and "evaluateAuthority pf inp = Inr d" and "de_allowed d"
    and "evaluateAuthority pf (on_member inp k) = Inr d'"
  shows "de_allowed d'"
proof -
  have free: "website_failure pf inp = None" and whole: "authorized pf inp (ei_requirement inp)"
    using authority_meaning [OF assms(5)] assms(6) by simp_all
  have "authorized pf (on_member inp k) (ei_requirement inp)"
  proof (rule authorized_mono [OF _ _ _ _ whole])
    fix kind cap codeOnly assume leaf: "leaf_authorized pf inp kind cap codeOnly"
    have "consents pf (on_member inp k) cap" if consent: "consents pf inp cap"
    proof -
      from consent obtain g where g: "g \<in> set (ei_grants inp)" "grant_applies pf inp cap g" "may_permit inp g"
        and unopposed: "\<forall>g \<in> set (ei_grants inp). grant_applies pf inp cap g \<longrightarrow> ag_effect g \<noteq> Deny"
        unfolding consents_def by blast
      have "grant_applies pf (on_member inp k) cap g"
        by (rule applies_on_member(1) [OF assms(1,2) g(2)]) (use g(3) in \<open>simp add: may_permit_def\<close>)
      moreover have "\<forall>g \<in> set (ei_grants inp). grant_applies pf (on_member inp k) cap g \<longrightarrow> ag_effect g \<noteq> Deny"
        using applies_on_member(2) [OF assms(1,2)] assms(4) unopposed by blast
      ultimately show ?thesis using g unfolding consents_def by auto
    qed
    moreover have "manifest_requests pf inp p cap \<Longrightarrow> manifest_requests pf (on_member inp k) p cap" for p
      using containment_covers [OF _ assms(2)] assms(1)
      by (auto simp: manifest_requests_def requested_scope_def on_member_def list_ex_iff split: option.splits)
    ultimately show "leaf_authorized pf (on_member inp k) kind cap codeOnly"
      using leaf by (auto simp: leaf_authorized_def)
  qed (simp_all add: assms(3) evaluate_relationship_def evaluate_session_def on_member_def Let_def)
  then show ?thesis using authority_meaning [OF assms(7)] free by simp
qed

lemma demo_prefix_allowed:
  "evaluateAuthority demo_platform
     (demo_input [demo_grant ''session:s1'' Allow (PrefixScope ''ctx'')] (Some (PrefixScope ''ctx/''))) =
     Inr (all_allowed demo_requirement None)"
  by (simp add: demo_defs gate_defs leaf_defs grant_matching_defs scopeCovers.simps(2))

lemma demo_member_allowed:
  "evaluateAuthority demo_platform (on_member
     (demo_input [demo_grant ''session:s1'' Allow (PrefixScope ''ctx'')] (Some (PrefixScope ''ctx/''))) ''ctx/a/b'') =
     Inr (all_allowed demo_requirement None)"
  by (simp add: on_member_def demo_defs gate_defs leaf_defs grant_matching_defs scopeCovers.simps(2))

theorem set_authority_covers_members_witness:
  "scopeCovers (pf_hostname demo_platform) (PrefixScope ''ctx/'') ''ctx/a/b''
   \<and> de_allowed (all_allowed demo_requirement None)"
proof -
  have covers: "scopeCovers (pf_hostname demo_platform) (PrefixScope ''ctx/'') ''ctx/a/b''"
    by (simp add: scopeCovers.simps(2) startsWith_def separators_def)
  have inp: "ei_resource (demo_input [demo_grant ''session:s1'' Allow (PrefixScope ''ctx'')] (Some (PrefixScope ''ctx/''))) =
      Some (PrefixScope ''ctx/'')"
    "ei_relation (demo_input [demo_grant ''session:s1'' Allow (PrefixScope ''ctx'')] (Some (PrefixScope ''ctx/''))) = None"
    by (simp_all add: demo_input_def)
  have "de_allowed (all_allowed demo_requirement None)"
    by (rule set_authority_covers_members [OF inp(1) covers inp(2) _ demo_prefix_allowed _ demo_member_allowed])
      (simp_all add: demo_input_def demo_grant_def)
  with covers show ?thesis by blast
qed

text \<open>
  The exception is real. A session with consent for the whole network that is denied one
  host by domain is refused that host when it asks for the key, and yet is allowed the network as
  a set, which covers the key: the containment test compares scopes of one kind only, so a
  denial of another kind inside the envelope is not seen.
\<close>

theorem set_request_misses_denial:
  "let allow = demo_grant ''session:s1'' Allow NetworkScope;
       deny = demo_grant ''session:s1'' Deny (DomainScope ''evil.com'');
       inp = demo_input [allow, deny] (Some NetworkScope);
       key = ''https://api.evil.com/x''
   in evaluateAuthority demo_platform inp = Inr (all_allowed demo_requirement None)
      \<and> scopeCovers (pf_hostname demo_platform) NetworkScope key
      \<and> map_sum id de_code (evaluateAuthority demo_platform (on_member inp key)) = Inr UserDenied"
proof -
  let ?allow = "demo_grant ''session:s1'' Allow NetworkScope"
  let ?deny = "demo_grant ''session:s1'' Deny (DomainScope ''evil.com'')"
  let ?inp = "demo_input [?allow, ?deny] (Some NetworkScope)"
  have 1: "evaluateAuthority demo_platform ?inp = Inr (all_allowed demo_requirement None)"
    by (simp add: demo_defs gate_defs leaf_defs grant_matching_defs)
  have 2: "map_sum id de_code (evaluateAuthority demo_platform (on_member ?inp ''https://api.evil.com/x'')) = Inr UserDenied"
    by (simp add: on_member_def demo_defs gate_defs leaf_defs grant_matching_defs)
  show ?thesis unfolding Let_def using 1 2 by simp
qed

end
