(* ===== verification/GrantStore.thy ===== *)
theory GrantStore
  imports AuthorityEval "HOL-Library.Product_Lexorder" "HOL-Library.List_Lexorder" "HOL-Library.Char_ord"
begin

text \<open>
  The authority grant store of the server (\<^verbatim>\<open>src/server/services/capabilityGrantStore.ts\<close>): its
  three tables (grants, continuing subjects, locks), the live executions, and the transactions
  that deliver live effects only after the outermost commit. A method is a function from the
  store to its result and the store afterwards; a thrown error is \<open>Inl\<close>. The constraint columns
  of a grant row are kept as one group; the SQL tables are lists in insertion order, which is
  the order an unordered query is given here. Time, the random bytes of identifiers, the
  category of a capability (a generated catalogue) and whether a registered execution is still
  current (a closure of the host) are arguments.
\<close>

subsection \<open>Errors and state\<close>

datatype store_error =
    LineageNotArray | BadRequestingRevision | InstallationScopeMissing | VersionConsentWithoutRevision
  | CapabilityRequired | SubjectNotCanonical | BadSubjectGeneration | EmptyDocument | BadConfirmation
  | StaleSubjectBinding | UlidOutOfRange | PrimaryKeyConflict | InvalidSubjectRecord | InvalidGrantSubject
  | LockBindingRequired | InvalidLock | LockCheckFailed
  | InstallationNeedsEvidence | ExecutionNotFresh | RuntimeHasExecution | NotAnInstallation
  | WebsiteFactsInvalid | InstallationFactsInvalid | EffectsNeedTransaction

datatype scope_kind = KExact | KPrefix | KOrigin | KDomain | KNetwork

record grant_row =
  gr_id :: string
  gr_effect :: effect
  gr_capability :: string
  gr_definitionDigest :: "string option"
  gr_resource_key :: string
  gr_resource_scope :: scope_kind
  gr_subject :: string
  gr_constraints :: grant_constraints
  gr_issued_by :: string
  gr_provenance :: string
  gr_created_at :: int
  gr_expires_at :: "int option"
  gr_revoked_at :: "int option"
  gr_consumed_at :: "int option"
  gr_scope :: grant_scope
  gr_suspended_at :: "int option"
  gr_last_used_at :: "int option"
  gr_decided_by :: "string option"
  gr_decision_surface :: "string option"

record subject_row =
  su_subject :: string
  su_kind :: string
  su_user_id :: string
  su_workspace_id :: string
  su_identity_key :: string
  su_generation :: int

record lock_row =
  lr_id :: string
  lr_agent_binding_id :: string
  lr_level :: lock_level
  lr_capability :: "string option"
  lr_resource :: "(scope_kind \<times> string) option"
  lr_domain :: "string option"
  lr_verb :: "string option"
  lr_decided_by :: string
  lr_surface :: lock_surface
  lr_created_at :: int
  lr_revoked_at :: "int option"
  lr_attempt_count :: nat
  lr_last_attempt_at :: "int option"

record authority_db =
  db_grants :: "grant_row list"
  db_subjects :: "subject_row list"
  db_locks :: "lock_row list"

text \<open>A registered execution; the number stands for the identity of the registered object and
  its lifetime signal.\<close>

record execution =
  ex_token :: nat
  ex_binding :: subject_binding
  ex_installation :: "(string \<times> string) option"   \<comment> \<open>runtime id, code principal\<close>

text \<open>Live effects: a listener call for a withdrawn grant, the abort of an execution's signal.\<close>

datatype live_effect = Withdrawn authority_grant int | Aborted nat

record grant_store =
  st_db :: authority_db
  st_executions :: "(string, execution) jsmap"
  st_nextToken :: nat
  st_pending :: "live_effect list option"   \<comment> \<open>\<open>transactionEffects\<close>\<close>
  st_log :: "live_effect list"   \<comment> \<open>effects delivered so far\<close>

definition new_grant_store :: grant_store where
  "new_grant_store = \<lparr>st_db = \<lparr>db_grants = [], db_subjects = [], db_locks = []\<rparr>, st_executions = [],
     st_nextToken = 0, st_pending = None, st_log = []\<rparr>"

type_synonym 'a store_op = "grant_store \<Rightarrow> (store_error, 'a) result \<times> grant_store"

definition update_grants :: "(grant_row list \<Rightarrow> grant_row list) \<Rightarrow> grant_store \<Rightarrow> grant_store" where
  "update_grants f st = st\<lparr>st_db := (st_db st)\<lparr>db_grants := f (db_grants (st_db st))\<rparr>\<rparr>"

definition update_locks :: "(lock_row list \<Rightarrow> lock_row list) \<Rightarrow> grant_store \<Rightarrow> grant_store" where
  "update_locks f st = st\<lparr>st_db := (st_db st)\<lparr>db_locks := f (db_locks (st_db st))\<rparr>\<rparr>"

definition update_subjects :: "(subject_row list \<Rightarrow> subject_row list) \<Rightarrow> grant_store \<Rightarrow> grant_store" where
  "update_subjects f st = st\<lparr>st_db := (st_db st)\<lparr>db_subjects := f (db_subjects (st_db st))\<rparr>\<rparr>"

text \<open>\<open>UPDATE t SET ... WHERE p\<close>: the rows afterwards; the number of changes is \<open>changes\<close>.\<close>

definition sql_update :: "('r \<Rightarrow> bool) \<Rightarrow> ('r \<Rightarrow> 'r) \<Rightarrow> 'r list \<Rightarrow> 'r list" where
  "sql_update p f rows = map (\<lambda>r. if p r then f r else r) rows"

definition changes :: "('r \<Rightarrow> bool) \<Rightarrow> 'r list \<Rightarrow> nat" where
  "changes p rows = length (filter p rows)"

subsection \<open>Rows and grants\<close>

fun resourceKeyOf :: "resource_scope \<Rightarrow> string" where
  "resourceKeyOf (ExactScope k) = k"
| "resourceKeyOf (PrefixScope p) = p"
| "resourceKeyOf (OriginScope origin) = origin"
| "resourceKeyOf (DomainScope domain) = domain"
| "resourceKeyOf NetworkScope = ''*''"

text \<open>\<open>scope.kind\<close>.\<close>

fun scope_kind_of :: "resource_scope \<Rightarrow> scope_kind" where
  "scope_kind_of (ExactScope k) = KExact"
| "scope_kind_of (PrefixScope p) = KPrefix"
| "scope_kind_of (OriginScope origin) = KOrigin"
| "scope_kind_of (DomainScope domain) = KDomain"
| "scope_kind_of NetworkScope = KNetwork"

text \<open>An approval speaks of no prefixes: a prefix is shown as its own key.\<close>

fun approvalScopeForAuthorityResource :: "resource_scope \<Rightarrow> resource_scope" where
  "approvalScopeForAuthorityResource (PrefixScope p) = ExactScope p"
| "approvalScopeForAuthorityResource s = s"

fun scopeFromRow :: "scope_kind \<Rightarrow> string \<Rightarrow> resource_scope" where
  "scopeFromRow KExact key = ExactScope key"
| "scopeFromRow KPrefix key = PrefixScope key"
| "scopeFromRow KOrigin key = OriginScope key"
| "scopeFromRow KDomain key = DomainScope key"
| "scopeFromRow KNetwork key = NetworkScope"

lemma scope_columns [simp]: "scopeFromRow (scope_kind_of s) (resourceKeyOf s) = s"
  by (cases s) simp_all

definition subject_kinds :: "string list" where
  "subject_kinds = [''host'', ''user'', ''code'', ''session'', ''mission'', ''agent'', ''task'', ''website'', ''installation'']"

text \<open>The prefix tests of the subject patterns: \<open>/^kind:/\<close>, \<open>/^kind:.+/\<close> and \<open>/^kind:[^\0]+$/\<close>.\<close>

definition subject_tail :: "string \<Rightarrow> string list" where
  "subject_tail s = map (\<lambda>k. drop (length k + 1) s) (filter (\<lambda>k. startsWith (k @ '':'') s) subject_kinds)"

definition has_subject_kind :: "string \<Rightarrow> bool" where
  "has_subject_kind s \<longleftrightarrow> subject_tail s \<noteq> []"

definition line_terminator :: "char \<Rightarrow> bool" where
  "line_terminator c \<longleftrightarrow> c = CHR 0x0A \<or> c = CHR 0x0D"

definition canonical_subject :: "string \<Rightarrow> bool" where
  "canonical_subject s \<longleftrightarrow> list_ex (\<lambda>t. t \<noteq> [] \<and> \<not> line_terminator (hd t)) (subject_tail s)"

definition stored_subject_ok :: "subject_row \<Rightarrow> bool" where
  "stored_subject_ok r \<longleftrightarrow>
     list_ex (\<lambda>t. t \<noteq> [] \<and> no_nul t) (subject_tail (su_subject r)) \<and>
     takeWhile (\<lambda>c. c \<noteq> CHR '':'') (su_subject r) = su_kind r \<and>
     0 \<le> su_generation r \<and> su_generation r \<le> max_safe_integer"

definition rowToGrant :: "grant_row \<Rightarrow> authority_grant" where
  "rowToGrant r = \<lparr>cs_capability = gr_capability r,
     cs_resource = scopeFromRow (gr_resource_scope r) (gr_resource_key r),
     ag_id = Some (gr_id r), ag_subject = gr_subject r, ag_effect = gr_effect r, ag_issuedBy = gr_issued_by r,
     ag_createdAt = gr_created_at r, ag_expiresAt = gr_expires_at r, ag_revokedAt = gr_revoked_at r,
     ag_consumedAt = gr_consumed_at r, ag_suspendedAt = gr_suspended_at r, ag_lastUsedAt = gr_last_used_at r,
     ag_scope = Some (gr_scope r), ag_constraints = Some (gr_constraints r), ag_provenance = gr_provenance r,
     ag_decidedBy = gr_decided_by r, ag_decisionSurface = gr_decision_surface r,
     ag_capabilityDefinitionDigest = gr_definitionDigest r\<rparr>"

text \<open>\<open>rows.map(rowToGrant)\<close>, which throws on a subject of an unknown kind.\<close>

definition read_grants :: "grant_row list \<Rightarrow> (store_error, authority_grant list) result" where
  "read_grants rows =
     (if list_all (\<lambda>r. has_subject_kind (gr_subject r)) rows then Inr (map rowToGrant rows) else Inl InvalidGrantSubject)"

definition rowToLock :: "lock_row \<Rightarrow> authority_lock" where
  "rowToLock r = \<lparr>al_id = lr_id r, al_agentBindingId = lr_agent_binding_id r, al_level = lr_level r,
     al_capability = lr_capability r, al_resource = map_option (\<lambda>(k, key). scopeFromRow k key) (lr_resource r),
     al_domain = lr_domain r, al_verb = lr_verb r, al_decidedBy = lr_decided_by r, al_surface = lr_surface r,
     al_createdAt = lr_created_at r, al_revokedAt = lr_revoked_at r, al_attemptCount = lr_attempt_count r,
     al_lastAttemptAt = lr_last_attempt_at r\<rparr>"

subsection \<open>Identifiers\<close>

definition CROCKFORD :: string where
  "CROCKFORD = ''0123456789ABCDEFGHJKMNPQRSTVWXYZ''"

text \<open>\<open>n\<close> characters of a number, five bits each, the most significant first.\<close>

fun base32 :: "nat \<Rightarrow> nat \<Rightarrow> string" where
  "base32 0 v = []"
| "base32 (Suc n) v = base32 n (v div 32) @ [CROCKFORD ! (v mod 32)]"

definition bytes_value :: "nat list \<Rightarrow> nat" where
  "bytes_value bytes = fold (\<lambda>b random. random * 256 + b) bytes 0"

definition ulid :: "int \<Rightarrow> nat list \<Rightarrow> (store_error, string) result" where
  "ulid at bytes =
     (if at < 0 \<or> at > 281474976710655 then Inl UlidOutOfRange
      else Inr (base32 10 (nat at) @ base32 16 (bytes_value bytes)))"

subsection \<open>Transactions\<close>

text \<open>
  Nested work uses a savepoint: a failure restores the tables as they were when the work began
  and drops its effects; the effects of finished nested work wait for the outermost commit.
\<close>

definition transaction :: "(grant_store \<Rightarrow> ('e, 'a) result \<times> grant_store) \<Rightarrow> grant_store \<Rightarrow> ('e, 'a) result \<times> grant_store" where
  "transaction work st =
     (case work (st\<lparr>st_pending := Some []\<rparr>) of
        (Inl e, st') \<Rightarrow> (Inl e, st'\<lparr>st_db := st_db st, st_pending := st_pending st\<rparr>)
      | (Inr a, st') \<Rightarrow>
          let effects = (case st_pending st' of None \<Rightarrow> [] | Some es \<Rightarrow> es) in
          (case st_pending st of
             Some parent \<Rightarrow> (Inr a, st'\<lparr>st_pending := Some (parent @ effects)\<rparr>)
           | None \<Rightarrow> (Inr a, st'\<lparr>st_pending := None, st_log := st_log st' @ effects\<rparr>)))"

definition afterCommit :: "live_effect \<Rightarrow> unit store_op" where
  "afterCommit effect st =
     (case st_pending st of
        None \<Rightarrow> (Inl EffectsNeedTransaction, st)
      | Some es \<Rightarrow> (Inr (), st\<lparr>st_pending := Some (es @ [effect])\<rparr>))"

text \<open>A statement followed by the rest of a method: a thrown error skips the rest.\<close>

definition and_then ::
  "(store_error, 'a) result \<times> grant_store \<Rightarrow> ('a \<Rightarrow> 'b store_op) \<Rightarrow> (store_error, 'b) result \<times> grant_store" where
  "and_then r rest = (case r of (Inl e, st) \<Rightarrow> (Inl e, st) | (Inr a, st) \<Rightarrow> rest a st)"

lemma and_then_simps [simp]:
  "and_then (Inl e, st) rest = (Inl e, st)" "and_then (Inr a, st) rest = rest a st"
  by (simp_all add: and_then_def)

definition return :: "'a \<Rightarrow> 'a store_op" where
  "return a st = (Inr a, st)"

lemma and_then_return [simp]:
  "snd (and_then r (\<lambda>_. return c)) = snd r" "return a st = (Inr a, st)"
  by (simp_all add: and_then_def return_def split: prod.split sum.split)

fun afterCommit_all :: "live_effect list \<Rightarrow> unit store_op" where
  "afterCommit_all [] st = return () st"
| "afterCommit_all (e # es) st = and_then (afterCommit e st) (\<lambda>_. afterCommit_all es)"

subsection \<open>Continuing subjects\<close>

definition getAuthoritySubject :: "string \<Rightarrow> subject_row option store_op" where
  "getAuthoritySubject subject st =
     (case find (\<lambda>r. su_subject r = subject) (db_subjects (st_db st)) of
        None \<Rightarrow> (Inr None, st)
      | Some r \<Rightarrow> if stored_subject_ok r then (Inr (Some r), st) else (Inl InvalidSubjectRecord, st))"

text \<open>\<open>/^user:[^\0]+$/\<close>.\<close>

definition user_principal :: "string \<Rightarrow> bool" where
  "user_principal s \<longleftrightarrow> startsWith ''user:'' s \<and> drop 5 s \<noteq> [] \<and> no_nul (drop 5 s)"

text \<open>\<open>fresh\<close> is the hexadecimal text of 24 random bytes.\<close>

definition ensureWebsiteSubject ::
  "url_platform \<Rightarrow> string \<Rightarrow> string \<Rightarrow> string \<Rightarrow> string \<Rightarrow> subject_row store_op" where
  "ensureWebsiteSubject pf fresh userId workspaceId origin st =
     (if \<not> user_principal userId \<or> trim workspaceId = [] \<or> \<not> canonical_origin pf origin
      then (Inl WebsiteFactsInvalid, st)
      else
        let same = (\<lambda>r. su_kind r = ''website'' \<and> su_user_id r = userId \<and> su_workspace_id r = workspaceId
                       \<and> su_identity_key r = origin);
            row = \<lparr>su_subject = ''website:'' @ fresh, su_kind = ''website'', su_user_id = userId,
                   su_workspace_id = workspaceId, su_identity_key = origin, su_generation = 0\<rparr>
        in if \<not> list_ex same (db_subjects (st_db st)) \<and>
              list_ex (\<lambda>r. su_subject r = su_subject row) (db_subjects (st_db st)) then (Inl PrimaryKeyConflict, st)
           else
             let st' = (if list_ex same (db_subjects (st_db st)) then st else update_subjects (\<lambda>rs. rs @ [row]) st) in
             (case find same (db_subjects (st_db st')) of
                None \<Rightarrow> (Inl InvalidSubjectRecord, st')
              | Some r \<Rightarrow>
                  if \<not> stored_subject_ok r \<or> \<not> startsWith ''website:'' (su_subject r) then (Inl InvalidSubjectRecord, st')
                  else (Inr r, st')))"

definition createInstallationSubject :: "string \<Rightarrow> string \<Rightarrow> string \<Rightarrow> subject_row store_op" where
  "createInstallationSubject fresh userId workspaceId st =
     (if \<not> user_principal userId \<or> trim workspaceId = [] then (Inl InstallationFactsInvalid, st)
      else
        let subject = ''installation:'' @ fresh;
            row = \<lparr>su_subject = subject, su_kind = ''installation'', su_user_id = userId,
                   su_workspace_id = workspaceId, su_identity_key = subject, su_generation = 0\<rparr>
        in if list_ex (\<lambda>r. su_subject r = subject \<or> su_kind r = ''installation'' \<and> su_user_id r = userId
                 \<and> su_workspace_id r = workspaceId \<and> su_identity_key r = subject) (db_subjects (st_db st))
           then (Inl PrimaryKeyConflict, st)
           else (Inr row, update_subjects (\<lambda>rs. rs @ [row]) st))"

subsection \<open>Executions\<close>

text \<open>\<open>this.getAuthoritySubject(s)?.generation\<close>, for a comparison with a number.\<close>

definition current_generation :: "string \<Rightarrow> grant_store \<Rightarrow> (store_error, int option) result" where
  "current_generation subject st = map_sum id (map_option su_generation) (fst (getAuthoritySubject subject st))"

definition registerExecution :: "subject_binding \<Rightarrow> (string \<times> string) option \<Rightarrow> nat store_op" where
  "registerExecution binding inst st =
     (case present (sb_documentId binding) of
        None \<Rightarrow> (Inl ExecutionNotFresh, st)
      | Some documentId \<Rightarrow>
          if jhas (st_executions st) documentId then (Inl ExecutionNotFresh, st)
          else (case current_generation (sb_subject binding) st of
                  Inl e \<Rightarrow> (Inl e, st)
                | Inr gen \<Rightarrow>
                    if gen \<noteq> Some (sb_generation binding) then (Inl ExecutionNotFresh, st)
                    else (Inr (st_nextToken st),
                      st\<lparr>st_executions := jset documentId
                           \<lparr>ex_token = st_nextToken st, ex_binding = binding, ex_installation = inst\<rparr> (st_executions st),
                         st_nextToken := st_nextToken st + 1\<rparr>)))"

text \<open>The function a registration returns: it removes only its own registration.\<close>

definition unregisterExecution :: "string \<Rightarrow> nat \<Rightarrow> grant_store \<Rightarrow> grant_store" where
  "unregisterExecution documentId token st =
     (let st' = (case map_of (st_executions st) documentId of
          Some ex \<Rightarrow> if ex_token ex = token then st\<lparr>st_executions := jdel documentId (st_executions st)\<rparr> else st
        | None \<Rightarrow> st)
      in st'\<lparr>st_log := st_log st' @ [Aborted token]\<rparr>)"

definition registerSubjectExecution :: "subject_binding \<Rightarrow> nat store_op" where
  "registerSubjectExecution binding st =
     (if startsWith ''installation:'' (sb_subject binding) then (Inl InstallationNeedsEvidence, st)
      else registerExecution binding None st)"

definition isSubjectExecutionCurrent :: "(nat \<Rightarrow> bool) \<Rightarrow> subject_binding \<Rightarrow> bool store_op" where
  "isSubjectExecutionCurrent isCurrent binding st =
     (case Option.bind (present (sb_documentId binding)) (map_of (st_executions st)) of
        None \<Rightarrow> (Inr False, st)
      | Some live \<Rightarrow>
          if sb_subject (ex_binding live) \<noteq> sb_subject binding \<or>
             sb_generation (ex_binding live) \<noteq> sb_generation binding \<or> \<not> isCurrent (ex_token live)
          then (Inr False, st)
          else (case current_generation (sb_subject binding) st of
                  Inl e \<Rightarrow> (Inl e, st)
                | Inr gen \<Rightarrow> (Inr (gen = Some (sb_generation binding)), st)))"

text \<open>The lifetime signal of an execution; \<open>None\<close> is a signal that is already aborted.\<close>

definition subjectExecutionSignal :: "(nat \<Rightarrow> bool) \<Rightarrow> subject_binding \<Rightarrow> nat option store_op" where
  "subjectExecutionSignal isCurrent binding st =
     and_then (isSubjectExecutionCurrent isCurrent binding st) (\<lambda>current st.
       return (if \<not> current then None
               else map_option ex_token (Option.bind (sb_documentId binding) (map_of (st_executions st)))) st)"

definition close_store :: "grant_store \<Rightarrow> grant_store" where
  "close_store st = st\<lparr>st_log := st_log st @ map (\<lambda>ex. Aborted (ex_token ex)) (jvalues (st_executions st)),
     st_executions := []\<rparr>"

record installation_evidence =
  ie_subject :: string
  ie_generation :: int
  ie_executionId :: string
  ie_runtimeId :: string
  ie_codePrincipal :: string
  ie_userId :: string
  ie_workspaceId :: string

definition registerInstallationExecution :: "bool \<Rightarrow> installation_evidence \<Rightarrow> nat store_op" where
  "registerInstallationExecution isCurrent inp st =
     (case fst (getAuthoritySubject (ie_subject inp) st) of
        Inl e \<Rightarrow> (Inl e, st)
      | Inr stored \<Rightarrow>
          if stored = None \<or> \<not> startsWith ''installation:'' (su_subject (the stored)) \<or>
             trim (ie_executionId inp) = [] \<or> su_user_id (the stored) \<noteq> ie_userId inp \<or>
             su_workspace_id (the stored) \<noteq> ie_workspaceId inp \<or> trim (ie_runtimeId inp) = [] \<or>
             \<not> isCodePrincipal (ie_codePrincipal inp) \<or> \<not> no_nul (ie_codePrincipal inp) \<or> \<not> isCurrent
          then (Inl NotAnInstallation, st)
          else if list_ex (\<lambda>live. map_option fst (ex_installation live) = Some (ie_runtimeId inp)) (jvalues (st_executions st))
          then (Inl RuntimeHasExecution, st)
          else registerExecution \<lparr>sb_subject = ie_subject inp, sb_generation = ie_generation inp,
                 sb_documentId = Some (ie_executionId inp)\<rparr> (Some (ie_runtimeId inp, ie_codePrincipal inp)) st)"

definition installationForCaller ::
  "(nat \<Rightarrow> bool) \<Rightarrow> string \<Rightarrow> string \<Rightarrow> string \<Rightarrow> string \<Rightarrow> installation_fact option store_op" where
  "installationForCaller isCurrent runtimeId code userId workspaceId st =
     (case find (\<lambda>live. map_option fst (ex_installation live) = Some runtimeId) (jvalues (st_executions st)) of
        None \<Rightarrow> (Inr None, st)
      | Some live \<Rightarrow>
          (case fst (getAuthoritySubject (sb_subject (ex_binding live)) st) of
             Inl e \<Rightarrow> (Inl e, st)
           | Inr stored \<Rightarrow>
               (case fst (isSubjectExecutionCurrent isCurrent (ex_binding live) st) of
                  Inl e \<Rightarrow> (Inl e, st)
                | Inr current \<Rightarrow>
                    if \<not> current \<or> map_option snd (ex_installation live) \<noteq> Some code \<or>
                       map_option su_user_id stored \<noteq> Some userId \<or> map_option su_workspace_id stored \<noteq> Some workspaceId
                    then (Inr None, st)
                    else (Inr (Some \<lparr>if_binding = ex_binding live, if_codePrincipal = code\<rparr>), st))))"

subsection \<open>Issuing grants\<close>

record issue_input =
  in_id :: "string option"
  in_effect :: effect
  in_capability :: string
  in_resource :: resource_scope
  in_subject :: string
  in_constraints :: "grant_constraints option"
  in_issuedBy :: string
  in_provenance :: string
  in_createdAt :: "int option"
  in_expiresAt :: "int option"
  in_scope :: "grant_scope option"
  in_suspendedAt :: "int option"
  in_lastUsedAt :: "int option"
  in_decidedBy :: "string option"
  in_decisionSurface :: "string option"
  in_definitionDigest :: "string option"

definition in_cons :: "issue_input \<Rightarrow> grant_constraints" where
  "in_cons inp = (case in_constraints inp of None \<Rightarrow> no_constraints | Some c \<Rightarrow> c)"

text \<open>The type of \<open>lineageAtConsent\<close> leaves its own test nothing to refuse.\<close>

definition validateGrantInput :: "issue_input \<Rightarrow> store_error option" where
  "validateGrantInput inp =
     (let c = in_cons inp in
      if (case gc_requestingCodePrincipal c of None \<Rightarrow> False
          | Some p \<Rightarrow> \<not> isCodePrincipal p \<or> \<not> no_nul p) then Some BadRequestingRevision
      else if startsWith ''installation:'' (in_subject inp) \<and> in_scope inp = None then Some InstallationScopeMissing
      else if startsWith ''installation:'' (in_subject inp) \<and> in_scope inp = Some VersionScope \<and>
              present (gc_requestingCodePrincipal c) = None then Some VersionConsentWithoutRevision
      else if trim (in_capability inp) = [] then Some CapabilityRequired
      else if \<not> canonical_subject (in_subject inp) then Some SubjectNotCanonical
      else if (case gc_subjectGeneration c of None \<Rightarrow> False | Some n \<Rightarrow> n > max_safe_integer \<or> n < 0)
        then Some BadSubjectGeneration
      else if (case gc_documentId c of None \<Rightarrow> False | Some d \<Rightarrow> trim d = []) then Some EmptyDocument
      else if in_provenance inp = ''critical-confirmation'' \<and>
              (in_effect inp \<noteq> Allow \<or> \<not> startsWith ''session:'' (in_subject inp) \<or>
               present (gc_invocationDigest c) = None) then Some BadConfirmation
      else None)"

definition inferGrantScope :: "issue_input \<Rightarrow> grant_scope" where
  "inferGrantScope inp =
     (let c = in_cons inp; subject = in_subject inp in
      if startsWith ''agent:'' subject then AgentScope
      else if startsWith ''mission:'' subject then MissionScope
      else if present (gc_invocationDigest c) \<noteq> None then OnceScope
      else if present (gc_taskAuthority c) \<noteq> None \<or> present (gc_taskRef c) \<noteq> None \<or> startsWith ''task:'' subject
        then TaskScope
      else if present (gc_sessionId c) \<noteq> None then SessionScope
      else if startsWith ''code:'' subject then VersionScope
      else SystemScope)"

definition continuing_input :: "issue_input \<Rightarrow> bool" where
  "continuing_input inp \<longleftrightarrow>
     startsWith ''website:'' (in_subject inp) \<or> startsWith ''installation:'' (in_subject inp) \<or>
     gc_subjectGeneration (in_cons inp) \<noteq> None \<or> gc_documentId (in_cons inp) \<noteq> None"

definition binding_error :: "issue_input \<Rightarrow> grant_store \<Rightarrow> store_error option" where
  "binding_error inp st =
     (if \<not> continuing_input inp then None
      else case fst (getAuthoritySubject (in_subject inp) st) of
             Inl e \<Rightarrow> Some e
           | Inr None \<Rightarrow> Some StaleSubjectBinding
           | Inr (Some b) \<Rightarrow>
               if Some (su_generation b) \<noteq> gc_subjectGeneration (in_cons inp) \<or>
                  Some (su_workspace_id b) \<noteq> gc_sourceWorkspaceId (in_cons inp) then Some StaleSubjectBinding
               else None)"

definition issue_scope :: "issue_input \<Rightarrow> grant_scope" where
  "issue_scope inp = (case in_scope inp of None \<Rightarrow> inferGrantScope inp | Some s \<Rightarrow> s)"

definition issued_row :: "issue_input \<Rightarrow> string \<Rightarrow> int \<Rightarrow> grant_row" where
  "issued_row inp ident createdAt = \<lparr>gr_id = ident, gr_effect = in_effect inp, gr_capability = in_capability inp,
     gr_definitionDigest = in_definitionDigest inp, gr_resource_key = resourceKeyOf (in_resource inp),
     gr_resource_scope = scope_kind_of (in_resource inp), gr_subject = in_subject inp,
     gr_constraints = in_cons inp, gr_issued_by = in_issuedBy inp, gr_provenance = in_provenance inp,
     gr_created_at = createdAt, gr_expires_at = in_expiresAt inp, gr_revoked_at = None, gr_consumed_at = None,
     gr_scope = issue_scope inp, gr_suspended_at = in_suspendedAt inp, gr_last_used_at = in_lastUsedAt inp,
     gr_decided_by = in_decidedBy inp, gr_decision_surface = in_decisionSurface inp\<rparr>"

definition issued_grant :: "issue_input \<Rightarrow> string \<Rightarrow> int \<Rightarrow> authority_grant" where
  "issued_grant inp ident createdAt = \<lparr>cs_capability = in_capability inp, cs_resource = in_resource inp,
     ag_id = Some ident, ag_subject = in_subject inp, ag_effect = in_effect inp, ag_issuedBy = in_issuedBy inp,
     ag_createdAt = createdAt, ag_expiresAt = in_expiresAt inp, ag_revokedAt = None, ag_consumedAt = None,
     ag_suspendedAt = in_suspendedAt inp, ag_lastUsedAt = in_lastUsedAt inp, ag_scope = Some (issue_scope inp),
     ag_constraints = Some (in_cons inp), ag_provenance = in_provenance inp, ag_decidedBy = in_decidedBy inp,
     ag_decisionSurface = in_decisionSurface inp, ag_capabilityDefinitionDigest = in_definitionDigest inp\<rparr>"

definition grant_identity :: "issue_input \<Rightarrow> int \<Rightarrow> nat list \<Rightarrow> (store_error, string) result" where
  "grant_identity inp now bytes =
     (case in_id inp of Some i \<Rightarrow> Inr i
      | None \<Rightarrow> ulid (case in_createdAt inp of None \<Rightarrow> now | Some t \<Rightarrow> t) bytes)"

definition issue :: "int \<Rightarrow> nat list \<Rightarrow> issue_input \<Rightarrow> authority_grant store_op" where
  "issue now bytes inp st =
     (case validateGrantInput inp of
        Some e \<Rightarrow> (Inl e, st)
      | None \<Rightarrow>
          (case binding_error inp st of
             Some e \<Rightarrow> (Inl e, st)
           | None \<Rightarrow>
               (case grant_identity inp now bytes of
                  Inl e \<Rightarrow> (Inl e, st)
                | Inr ident \<Rightarrow>
                    let createdAt = (case in_createdAt inp of None \<Rightarrow> now | Some t \<Rightarrow> t) in
                    if list_ex (\<lambda>r. gr_id r = ident) (db_grants (st_db st)) then (Inl PrimaryKeyConflict, st)
                    else (Inr (issued_grant inp ident createdAt),
                          update_grants (\<lambda>rs. rs @ [issued_row inp ident createdAt]) st))))"

end
