(* ===== verification/GrantStoreOps.thy ===== *)
theory GrantStoreOps
  imports GrantStore
begin

text \<open>
  The life of stored grants and locks (\<^verbatim>\<open>src/server/services/capabilityGrantStore.ts\<close>): reading
  the grants of a set of subjects, consuming single-use ones, revoking, suspending and
  restoring, withdrawing a subject, the user's locks, and the rollback of an install clearance.
\<close>

subsection \<open>Queries\<close>

text \<open>\<open>ORDER BY created_at DESC, id DESC\<close>.\<close>

definition newest_first :: "grant_row list \<Rightarrow> grant_row list" where
  "newest_first rows = rev (sort_key (\<lambda>r. (gr_created_at r, gr_id r)) rows)"

definition listAuthorityGrants :: "grant_store \<Rightarrow> (store_error, authority_grant list) result" where
  "listAuthorityGrants st = read_grants (newest_first (db_grants (st_db st)))"

definition unexpired :: "int \<Rightarrow> grant_row \<Rightarrow> bool" where
  "unexpired now r \<longleftrightarrow> (case gr_expires_at r of None \<Rightarrow> True | Some t \<Rightarrow> t > now)"

definition listActiveAuthorityGrants :: "int \<Rightarrow> grant_store \<Rightarrow> (store_error, authority_grant list) result" where
  "listActiveAuthorityGrants now st =
     read_grants (newest_first (filter (\<lambda>r. gr_revoked_at r = None \<and> gr_consumed_at r = None \<and>
       gr_suspended_at r = None \<and> unexpired now r) (db_grants (st_db st))))"

definition standing_agent_row :: "grant_row \<Rightarrow> bool" where
  "standing_agent_row r \<longleftrightarrow> gr_scope r = AgentScope \<and> gr_revoked_at r = None \<and> gr_consumed_at r = None"

definition listAgentAuthorityGrants :: "string option \<Rightarrow> grant_store \<Rightarrow> (store_error, authority_grant list) result" where
  "listAgentAuthorityGrants agentBindingId st =
     read_grants (newest_first (filter (\<lambda>r. standing_agent_row r \<and>
       (case present agentBindingId of None \<Rightarrow> True | Some b \<Rightarrow> gr_subject r = ''agent:'' @ b))
       (db_grants (st_db st))))"

subsection \<open>Withdrawals\<close>

definition emit_withdrawals :: "authority_grant list \<Rightarrow> int \<Rightarrow> unit store_op" where
  "emit_withdrawals grants at = afterCommit_all (map (\<lambda>g. Withdrawn g at) grants)"

definition revoke_rows :: "(grant_row \<Rightarrow> bool) \<Rightarrow> int \<Rightarrow> grant_store \<Rightarrow> grant_store" where
  "revoke_rows p now = update_grants (sql_update (\<lambda>r. p r \<and> gr_revoked_at r = None) (\<lambda>r. r\<lparr>gr_revoked_at := Some now\<rparr>))"

definition unrevoked :: "(grant_row \<Rightarrow> bool) \<Rightarrow> grant_store \<Rightarrow> nat" where
  "unrevoked p st = changes (\<lambda>r. p r \<and> gr_revoked_at r = None) (db_grants (st_db st))"

definition revoke :: "string \<Rightarrow> int \<Rightarrow> bool store_op" where
  "revoke grantId now = transaction (\<lambda>st.
     (case listAuthorityGrants st of
        Inl e \<Rightarrow> (Inl e, st)
      | Inr grants \<Rightarrow>
          let grant = find (\<lambda>g. ag_id g = Some grantId) grants;
              changed = (unrevoked (\<lambda>r. gr_id r = grantId) st = 1);
              st' = revoke_rows (\<lambda>r. gr_id r = grantId) now st
          in (case (changed, grant) of
                (True, Some g) \<Rightarrow>
                  and_then (emit_withdrawals [g] now st') (\<lambda>_. return changed)
              | _ \<Rightarrow> return changed st')))"

definition revokeSubject :: "string \<Rightarrow> int \<Rightarrow> nat store_op" where
  "revokeSubject subject now = transaction (\<lambda>st.
     (case listAuthorityGrants st of
        Inl e \<Rightarrow> (Inl e, st)
      | Inr all \<Rightarrow>
          let grants = filter (\<lambda>g. ag_subject g = subject \<and> ag_revokedAt g = None) all;
              count = unrevoked (\<lambda>r. gr_subject r = subject) st;
              st' = revoke_rows (\<lambda>r. gr_subject r = subject) now st
          in and_then (emit_withdrawals grants now st') (\<lambda>_. return count)))"

definition invalidateAuthoritySubject :: "string \<Rightarrow> int \<Rightarrow> bool store_op" where
  "invalidateAuthoritySubject subject now = transaction (\<lambda>st.
     (case listAuthorityGrants st of
        Inl e \<Rightarrow> (Inl e, st)
      | Inr all \<Rightarrow>
          let grants = filter (\<lambda>g. ag_subject g = subject \<and> ag_revokedAt g = None) all;
              changed = changes (\<lambda>r. su_subject r = subject) (db_subjects (st_db st));
              st1 = update_subjects (sql_update (\<lambda>r. su_subject r = subject)
                      (\<lambda>r. r\<lparr>su_generation := su_generation r + 1\<rparr>)) st;
              st2 = revoke_rows (\<lambda>r. gr_subject r = subject) now st1;
              aborts = map (\<lambda>ex. Aborted (ex_token ex))
                (filter (\<lambda>ex. sb_subject (ex_binding ex) = subject) (jvalues (st_executions st)))
          in and_then (afterCommit_all (aborts @ map (\<lambda>g. Withdrawn g now) grants) st2) (\<lambda>_. return (changed = 1))))"

definition pruneSession :: "string \<Rightarrow> int \<Rightarrow> nat store_op" where
  "pruneSession sessionId now st =
     (Inr (unrevoked (\<lambda>r. gc_sessionId (gr_constraints r) = Some sessionId) st),
      revoke_rows (\<lambda>r. gc_sessionId (gr_constraints r) = Some sessionId) now st)"

subsection \<open>Use, suspension and restoration\<close>

definition consumable_row :: "string \<Rightarrow> grant_row \<Rightarrow> bool" where
  "consumable_row grantId r \<longleftrightarrow> gr_id r = grantId \<and> gr_consumed_at r = None \<and> gr_revoked_at r = None \<and>
     gc_invocationDigest (gr_constraints r) \<noteq> None"

definition consume_grant :: "string \<Rightarrow> int \<Rightarrow> grant_store \<Rightarrow> bool \<times> grant_store" where
  "consume_grant grantId now st =
     (changes (consumable_row grantId) (db_grants (st_db st)) = 1,
      update_grants (sql_update (consumable_row grantId) (\<lambda>r. r\<lparr>gr_consumed_at := Some now\<rparr>)) st)"

definition touch :: "string \<Rightarrow> int \<Rightarrow> grant_store \<Rightarrow> bool \<times> grant_store" where
  "touch grantId now st =
     (let p = (\<lambda>r. gr_id r = grantId \<and> gr_revoked_at r = None \<and> gr_suspended_at r = None) in
      (changes p (db_grants (st_db st)) = 1,
       update_grants (sql_update p (\<lambda>r. r\<lparr>gr_last_used_at := Some now\<rparr>)) st))"

text \<open>\<open>COALESCE(last_used_at, created_at)\<close>.\<close>

definition last_activity :: "grant_row \<Rightarrow> int" where
  "last_activity r = (case gr_last_used_at r of None \<Rightarrow> gr_created_at r | Some t \<Rightarrow> t)"

definition idle_row :: "int \<Rightarrow> grant_row \<Rightarrow> bool" where
  "idle_row cutoff r \<longleftrightarrow> standing_agent_row r \<and> gr_suspended_at r = None \<and> last_activity r \<le> cutoff"

definition idle_default :: int where
  "idle_default = 90 * 24 * 60 * 60 * 1000"

definition suspendIdleAgentGrants :: "int \<Rightarrow> int \<Rightarrow> nat store_op" where
  "suspendIdleAgentGrants now idleMs = transaction (\<lambda>st.
     let cutoff = now - idleMs in
     (case read_grants (newest_first (filter (idle_row cutoff) (db_grants (st_db st)))) of
        Inl e \<Rightarrow> (Inl e, st)
      | Inr idle \<Rightarrow>
          let changed = changes (idle_row cutoff) (db_grants (st_db st));
              st' = update_grants (sql_update (idle_row cutoff) (\<lambda>r. r\<lparr>gr_suspended_at := Some now\<rparr>)) st
          in and_then (emit_withdrawals idle now st') (\<lambda>_. return changed)))"

definition restore_grant :: "string \<Rightarrow> grant_store \<Rightarrow> bool \<times> grant_store" where
  "restore_grant grantId st =
     (let p = (\<lambda>r. gr_id r = grantId \<and> gr_revoked_at r = None \<and> gr_suspended_at r \<noteq> None) in
      (changes p (db_grants (st_db st)) = 1,
       update_grants (sql_update p (\<lambda>r. r\<lparr>gr_suspended_at := None\<rparr>)) st))"

text \<open>\<open>chunks(values, size)\<close>.\<close>

function chunks :: "'a list \<Rightarrow> nat \<Rightarrow> 'a list list" where
  "chunks values width =
     (if values = [] then [] else if width = 0 then [values] else take width values # chunks (drop width values) width)"
  by pat_completeness auto
termination by (relation "measure (\<lambda>(values, width). length values)") auto

declare chunks.simps [simp del]

definition readable_row :: "int \<Rightarrow> string list \<Rightarrow> grant_row \<Rightarrow> bool" where
  "readable_row now subjects r \<longleftrightarrow>
     gr_subject r \<in> set subjects \<and> gr_revoked_at r = None \<and> gr_suspended_at r = None \<and> unexpired now r"

definition grantsForSubjects :: "string list \<Rightarrow> string \<Rightarrow> int \<Rightarrow> authority_grant list store_op" where
  "grantsForSubjects subjects cap now st =
     (if subjects = [] then (Inr [], st)
      else
        let unique = new_set subjects;
            (swept, st') = (if list_ex (startsWith ''agent:'') unique then suspendIdleAgentGrants now idle_default st
                            else (Inr 0, st))
        in case swept of
             Inl e \<Rightarrow> (Inl e, st')
           | Inr _ \<Rightarrow>
               let rows = concat (map (\<lambda>chunk. filter (readable_row now chunk) (db_grants (st_db st'))) (chunks unique 300))
               in (read_grants (filter (\<lambda>r. capabilityPatternCovers (gr_capability r) cap) rows), st'))"

subsection \<open>Install clearance\<close>

fun revoke_each :: "string list \<Rightarrow> int \<Rightarrow> unit store_op" where
  "revoke_each [] now st = return () st"
| "revoke_each (g # gs) now st = and_then (revoke g now st) (\<lambda>_. revoke_each gs now)"

definition unrevoke_row :: "int option \<Rightarrow> string \<Rightarrow> grant_store \<Rightarrow> grant_store" where
  "unrevoke_row retiredAt grantId =
     update_grants (sql_update (\<lambda>r. gr_id r = grantId \<and>
         (case retiredAt of None \<Rightarrow> True | Some t \<Rightarrow> gr_revoked_at r = Some t)) (\<lambda>r. r\<lparr>gr_revoked_at := None\<rparr>))"

definition rollbackInstallClearance :: "string list \<Rightarrow> string list \<Rightarrow> int option \<Rightarrow> int \<Rightarrow> unit store_op" where
  "rollbackInstallClearance issuedGrantIds restoreRevokedGrantIds retiredAt now st =
     (if issuedGrantIds = [] \<and> restoreRevokedGrantIds = [] then (Inr (), st)
      else transaction (\<lambda>st.
        and_then (revoke_each issuedGrantIds now st)
          (\<lambda>_ st'. return () (fold (unrevoke_row retiredAt) restoreRevokedGrantIds st'))) st)"

subsection \<open>Locks\<close>

record lock_input =
  li_id :: "string option"
  li_agentBindingId :: string
  li_level :: lock_level
  li_capability :: "string option"
  li_resource :: "resource_scope option"
  li_domain :: "string option"
  li_verb :: "string option"
  li_decidedBy :: string
  li_surface :: lock_surface
  li_createdAt :: "int option"

definition invalid_lock :: "lock_input \<Rightarrow> bool" where
  "invalid_lock inp \<longleftrightarrow>
     (case li_level inp of
        ResourceLevel \<Rightarrow> present (li_capability inp) = None \<or> li_resource inp = None
      | CapabilityLevel \<Rightarrow> present (li_capability inp) = None \<or> li_resource inp \<noteq> None
      | CellLevel \<Rightarrow> present (li_domain inp) = None \<or> present (li_verb inp) = None
      | AgentLevel \<Rightarrow> li_agentBindingId inp = ''*'' \<or> li_capability inp \<noteq> None \<or> li_resource inp \<noteq> None \<or>
          li_domain inp \<noteq> None \<or> li_verb inp \<noteq> None
      | WorkspaceLevel \<Rightarrow> li_agentBindingId inp \<noteq> ''*'' \<or> li_capability inp \<noteq> None \<or> li_resource inp \<noteq> None \<or>
          li_domain inp \<noteq> None \<or> li_verb inp \<noteq> None)"

text \<open>The \<open>CHECK\<close> of the table on the columns that each level must and must not have.\<close>

definition lock_check :: "lock_row \<Rightarrow> bool" where
  "lock_check r \<longleftrightarrow>
     (case lr_level r of
        ResourceLevel \<Rightarrow> lr_capability r \<noteq> None \<and> lr_resource r \<noteq> None \<and> lr_domain r = None \<and> lr_verb r = None
      | CapabilityLevel \<Rightarrow> lr_capability r \<noteq> None \<and> lr_resource r = None \<and> lr_domain r = None \<and> lr_verb r = None
      | CellLevel \<Rightarrow> lr_capability r = None \<and> lr_resource r = None \<and> lr_domain r \<noteq> None \<and> lr_verb r \<noteq> None
      | AgentLevel \<Rightarrow> lr_agent_binding_id r \<noteq> ''*'' \<and> lr_capability r = None \<and> lr_resource r = None \<and>
          lr_domain r = None \<and> lr_verb r = None
      | WorkspaceLevel \<Rightarrow> lr_agent_binding_id r = ''*'' \<and> lr_capability r = None \<and> lr_resource r = None \<and>
          lr_domain r = None \<and> lr_verb r = None)"

definition created_lock_row :: "lock_input \<Rightarrow> string \<Rightarrow> int \<Rightarrow> lock_row" where
  "created_lock_row inp ident createdAt = \<lparr>lr_id = ident, lr_agent_binding_id = li_agentBindingId inp,
     lr_level = li_level inp, lr_capability = li_capability inp,
     lr_resource = map_option (\<lambda>s. (scope_kind_of s, resourceKeyOf s)) (li_resource inp),
     lr_domain = li_domain inp, lr_verb = li_verb inp, lr_decided_by = li_decidedBy inp,
     lr_surface = li_surface inp, lr_created_at = createdAt, lr_revoked_at = None, lr_attempt_count = 0,
     lr_last_attempt_at = None\<rparr>"

text \<open>The returned lock drops empty optional strings.\<close>

definition created_lock :: "lock_input \<Rightarrow> string \<Rightarrow> int \<Rightarrow> authority_lock" where
  "created_lock inp ident createdAt = \<lparr>al_id = ident, al_agentBindingId = li_agentBindingId inp,
     al_level = li_level inp, al_capability = present (li_capability inp), al_resource = li_resource inp,
     al_domain = present (li_domain inp), al_verb = present (li_verb inp), al_decidedBy = li_decidedBy inp,
     al_surface = li_surface inp, al_createdAt = createdAt, al_revokedAt = None, al_attemptCount = 0,
     al_lastAttemptAt = None\<rparr>"

definition createLock :: "int \<Rightarrow> nat list \<Rightarrow> lock_input \<Rightarrow> authority_lock store_op" where
  "createLock now bytes inp st =
     (let createdAt = (case li_createdAt inp of None \<Rightarrow> now | Some t \<Rightarrow> t) in
      case (case li_id inp of Some i \<Rightarrow> Inr i | None \<Rightarrow> ulid createdAt bytes) of
        Inl e \<Rightarrow> (Inl e, st)
      | Inr ident \<Rightarrow>
          if trim (li_agentBindingId inp) = [] then (Inl LockBindingRequired, st)
          else if invalid_lock inp then (Inl InvalidLock, st)
          else if \<not> lock_check (created_lock_row inp ident createdAt) then (Inl LockCheckFailed, st)
          else if list_ex (\<lambda>r. lr_id r = ident) (db_locks (st_db st)) then (Inl PrimaryKeyConflict, st)
          else (Inr (created_lock inp ident createdAt),
                update_locks (\<lambda>rs. rs @ [created_lock_row inp ident createdAt]) st))"

text \<open>\<open>category\<close> is the generated capability catalogue: domain and verb of a capability.\<close>

type_synonym capability_catalogue = "string \<Rightarrow> (string \<times> string) option"

definition lock_candidate :: "capability_catalogue \<Rightarrow> string \<Rightarrow> string \<Rightarrow> lock_row \<Rightarrow> bool" where
  "lock_candidate category agentBindingId cap r \<longleftrightarrow>
     (lr_agent_binding_id r = agentBindingId \<or> lr_agent_binding_id r = ''*'') \<and> lr_revoked_at r = None \<and>
     (let (domain, verb) = (case category cap of None \<Rightarrow> (''-'', ''-'') | Some dv \<Rightarrow> dv) in
      case lr_level r of
        WorkspaceLevel \<Rightarrow> True
      | AgentLevel \<Rightarrow> lr_agent_binding_id r = agentBindingId
      | ResourceLevel \<Rightarrow> lr_capability r = Some cap
      | CapabilityLevel \<Rightarrow> lr_capability r = Some cap
      | CellLevel \<Rightarrow> lr_domain r = Some domain \<and> lr_verb r = Some verb)"

definition lock_applies :: "hostname_parser \<Rightarrow> string \<Rightarrow> authority_lock \<Rightarrow> bool" where
  "lock_applies host resourceKey l \<longleftrightarrow>
     al_level l \<noteq> ResourceLevel \<or>
     (case al_resource l of None \<Rightarrow> False | Some s \<Rightarrow> scopeCovers host s resourceKey)"

definition matchingLocks ::
  "hostname_parser \<Rightarrow> capability_catalogue \<Rightarrow> string \<Rightarrow> string \<Rightarrow> string \<Rightarrow> int \<Rightarrow> grant_store \<Rightarrow>
     authority_lock list \<times> grant_store" where
  "matchingLocks host category agentBindingId cap resourceKey now st =
     (let rows = sort_key (\<lambda>r. (lr_created_at r, lr_id r))
            (filter (lock_candidate category agentBindingId cap) (db_locks (st_db st)));
          locks = filter (lock_applies host resourceKey) (map rowToLock rows)
      in case locks of
           [] \<Rightarrow> ([], st)
         | l # ls \<Rightarrow>
             (l\<lparr>al_attemptCount := al_attemptCount l + 1, al_lastAttemptAt := Some now\<rparr> # ls,
              update_locks (sql_update (\<lambda>r. lr_id r = al_id l)
                (\<lambda>r. r\<lparr>lr_attempt_count := lr_attempt_count r + 1, lr_last_attempt_at := Some now\<rparr>)) st))"

text \<open>\<open>ORDER BY created_at DESC\<close>; rows of one time come in reverse order of insertion here.\<close>

definition listLocks :: "string option \<Rightarrow> grant_store \<Rightarrow> authority_lock list" where
  "listLocks agentBindingId st =
     map rowToLock (rev (sort_key lr_created_at (filter
       (\<lambda>r. case present agentBindingId of None \<Rightarrow> True | Some b \<Rightarrow> lr_agent_binding_id r = b)
       (db_locks (st_db st)))))"

definition revokeLock :: "string \<Rightarrow> int \<Rightarrow> grant_store \<Rightarrow> bool \<times> grant_store" where
  "revokeLock lockId now st =
     (let p = (\<lambda>r. lr_id r = lockId \<and> lr_revoked_at r = None) in
      (changes p (db_locks (st_db st)) = 1,
       update_locks (sql_update p (\<lambda>r. r\<lparr>lr_revoked_at := Some now\<rparr>)) st))"

text \<open>The standing lock of a level: what \<open>setAgentPaused\<close>, \<open>setWorkspaceAuthorityLocked\<close> and the
  questions about them look for.\<close>

definition standing_lock :: "lock_level \<Rightarrow> string \<Rightarrow> grant_store \<Rightarrow> authority_lock option" where
  "standing_lock level binding st =
     find (\<lambda>l. al_level l = level \<and> al_revokedAt l = None) (listLocks (Some binding) st)"

definition profile_lock :: "lock_level \<Rightarrow> string \<Rightarrow> string \<Rightarrow> int \<Rightarrow> lock_input" where
  "profile_lock level binding decidedBy now = \<lparr>li_id = None, li_agentBindingId = binding, li_level = level,
     li_capability = None, li_resource = None, li_domain = None, li_verb = None, li_decidedBy = decidedBy,
     li_surface = ProfileSurface, li_createdAt = Some now\<rparr>"

definition set_standing_lock :: "lock_level \<Rightarrow> string \<Rightarrow> nat list \<Rightarrow> bool \<Rightarrow> string \<Rightarrow> int \<Rightarrow> bool store_op" where
  "set_standing_lock level binding bytes on decidedBy now st =
     (case (on, standing_lock level binding st) of
        (True, Some active) \<Rightarrow> (Inr False, st)
      | (True, None) \<Rightarrow>
          and_then (createLock now bytes (profile_lock level binding decidedBy now) st) (\<lambda>_. return True)
      | (False, Some active) \<Rightarrow> (case revokeLock (al_id active) now st of (r, st') \<Rightarrow> (Inr r, st'))
      | (False, None) \<Rightarrow> (Inr False, st))"

definition setAgentPaused :: "string \<Rightarrow> nat list \<Rightarrow> bool \<Rightarrow> string \<Rightarrow> int \<Rightarrow> bool store_op" where
  "setAgentPaused agentBindingId = set_standing_lock AgentLevel agentBindingId"

definition setWorkspaceAuthorityLocked :: "nat list \<Rightarrow> bool \<Rightarrow> string \<Rightarrow> int \<Rightarrow> bool store_op" where
  "setWorkspaceAuthorityLocked = set_standing_lock WorkspaceLevel ''*''"

definition workspaceAuthorityLocked :: "grant_store \<Rightarrow> bool" where
  "workspaceAuthorityLocked st \<longleftrightarrow> standing_lock WorkspaceLevel ''*'' st \<noteq> None"

definition isAgentPaused :: "string \<Rightarrow> grant_store \<Rightarrow> bool" where
  "isAgentPaused agentBindingId st \<longleftrightarrow> standing_lock AgentLevel agentBindingId st \<noteq> None"

definition isRuntimeAuthorityPaused :: "string \<Rightarrow> grant_store \<Rightarrow> bool" where
  "isRuntimeAuthorityPaused runtimeId st \<longleftrightarrow>
     workspaceAuthorityLocked st \<or>
     list_ex (\<lambda>l. al_level l = AgentLevel \<and> al_revokedAt l = None \<and>
                startsWith (runtimeId @ ''@'') (al_agentBindingId l)) (listLocks None st)"

subsection \<open>Reset of an agent\<close>

definition resetAgentAuthority :: "string \<Rightarrow> bool \<Rightarrow> int \<Rightarrow> (nat \<times> nat) store_op" where
  "resetAgentAuthority agentBindingId keepLocks now st =
     (case listAgentAuthorityGrants (Some agentBindingId) st of
        Inl e \<Rightarrow> (Inl e, st)
      | Inr withdrawn \<Rightarrow>
          transaction (\<lambda>st.
            let mine = (\<lambda>r. gr_subject r = ''agent:'' @ agentBindingId \<and> gr_scope r = AgentScope);
                grants = unrevoked mine st;
                st1 = revoke_rows mine now st;
                own_lock = (\<lambda>r. lr_agent_binding_id r = agentBindingId \<and> lr_revoked_at r = None);
                locks = (if keepLocks then 0 else changes own_lock (db_locks (st_db st)));
                st2 = (if keepLocks then st1
                       else update_locks (sql_update own_lock (\<lambda>r. r\<lparr>lr_revoked_at := Some now\<rparr>)) st1)
            in and_then (emit_withdrawals withdrawn now st2) (\<lambda>_. return (grants, locks))) st)"

end
