(* ===== verification/GrantStoreSteps.thy ===== *)
theory GrantStoreSteps
  imports GrantStoreOps
begin

text \<open>
  Every method of the grant store changes its tables by a sequence of elementary changes: one
  row inserted under the checks of its insertion, or one column rewritten on some rows. The
  calls a host can make and their runs; the elementary changes as a step relation.
\<close>

subsection \<open>Elementary changes\<close>

definition with_rows :: "authority_db \<Rightarrow> grant_row list \<Rightarrow> authority_db" where
  "with_rows db rows = db\<lparr>db_grants := rows\<rparr>"

lemma with_rows_simps [simp]:
  "db_grants (with_rows db rows) = rows" "db_subjects (with_rows db rows) = db_subjects db"
  "db_locks (with_rows db rows) = db_locks db"
  by (simp_all add: with_rows_def)

text \<open>The checks \<open>issue\<close> has passed when it inserts a row.\<close>

definition insertable :: "authority_db \<Rightarrow> issue_input \<Rightarrow> string \<Rightarrow> bool" where
  "insertable db inp ident \<longleftrightarrow>
     validateGrantInput inp = None \<and> ident \<notin> gr_id ` set (db_grants db) \<and>
     (continuing_input inp \<longrightarrow>
       (\<exists>b \<in> set (db_subjects db). su_subject b = in_subject inp \<and>
          gc_subjectGeneration (in_cons inp) = Some (su_generation b) \<and>
          gc_sourceWorkspaceId (in_cons inp) = Some (su_workspace_id b)))"

inductive db_change :: "bool \<Rightarrow> authority_db \<Rightarrow> authority_db \<Rightarrow> bool" for u :: bool where
  insert_grant: "insertable db inp ident \<Longrightarrow>
    db_change u db (with_rows db (db_grants db @ [issued_row inp ident at]))"
| revoke_grants: "db_change u db (with_rows db (sql_update (\<lambda>r. p r \<and> gr_revoked_at r = None)
    (\<lambda>r. r\<lparr>gr_revoked_at := Some now\<rparr>) (db_grants db)))"
| unrevoke_grants: "u \<Longrightarrow> db_change u db (with_rows db (sql_update p (\<lambda>r. r\<lparr>gr_revoked_at := None\<rparr>) (db_grants db)))"
| consume_rows: "db_change u db (with_rows db (sql_update (consumable_row ident)
    (\<lambda>r. r\<lparr>gr_consumed_at := Some now\<rparr>) (db_grants db)))"
| touch_rows: "db_change u db (with_rows db (sql_update p (\<lambda>r. r\<lparr>gr_last_used_at := Some now\<rparr>) (db_grants db)))"
| suspend_rows: "db_change u db (with_rows db (sql_update p (\<lambda>r. r\<lparr>gr_suspended_at := t\<rparr>) (db_grants db)))"
| insert_subject: "su_subject b \<notin> su_subject ` set (db_subjects db) \<Longrightarrow> su_generation b = 0 \<Longrightarrow>
    db_change u db (db\<lparr>db_subjects := db_subjects db @ [b]\<rparr>)"
| bump_subject: "db_change u db (db\<lparr>db_subjects := sql_update (\<lambda>r. su_subject r = s)
    (\<lambda>r. r\<lparr>su_generation := su_generation r + 1\<rparr>) (db_subjects db)\<rparr>)"
| change_locks: "db_change u db (db\<lparr>db_locks := ls\<rparr>)"

abbreviation db_changes :: "bool \<Rightarrow> authority_db \<Rightarrow> authority_db \<Rightarrow> bool" where
  "db_changes u \<equiv> (db_change u)\<^sup>*\<^sup>*"

lemma change_once: "db_change u a b \<Longrightarrow> db_changes u a b"
  by (rule r_into_rtranclp)

lemma change_then: "db_change u a b \<Longrightarrow> db_changes u b c \<Longrightarrow> db_changes u a c"
  by (rule converse_rtranclp_into_rtranclp)

lemma db_of_updates [simp]:
  "st_db (update_grants f st) = with_rows (st_db st) (f (db_grants (st_db st)))"
  "st_db (update_locks g st) = (st_db st)\<lparr>db_locks := g (db_locks (st_db st))\<rparr>"
  "st_db (update_subjects h st) = (st_db st)\<lparr>db_subjects := h (db_subjects (st_db st))\<rparr>"
  "st_pending (update_grants f st) = st_pending st" "st_pending (update_locks g st) = st_pending st"
  "st_pending (update_subjects h st) = st_pending st" "st_log (update_grants f st) = st_log st"
  "st_log (update_locks g st) = st_log st" "st_log (update_subjects h st) = st_log st"
  "st_executions (update_grants f st) = st_executions st"
  by (simp_all add: update_grants_def update_locks_def update_subjects_def with_rows_def)

lemma grants_change: "db_change u (st_db st) (with_rows (st_db st) (f (db_grants (st_db st)))) \<Longrightarrow>
    db_change u (st_db st) (st_db (update_grants f st))"
  by simp

lemma revoke_rows_change: "db_change u (st_db st) (st_db (revoke_rows p now st))"
  by (simp add: revoke_rows_def revoke_grants)

lemma revoke_rows_simps [simp]:
  "st_pending (revoke_rows p now st) = st_pending st" "st_log (revoke_rows p now st) = st_log st"
  "st_db (revoke_rows p now st) = with_rows (st_db st)
     (sql_update (\<lambda>r. p r \<and> gr_revoked_at r = None) (\<lambda>r. r\<lparr>gr_revoked_at := Some now\<rparr>) (db_grants (st_db st)))"
  by (simp_all add: revoke_rows_def)

subsection \<open>Transactions\<close>

lemma afterCommit_all_db [simp]: "st_db (snd (afterCommit_all es st)) = st_db st"
  by (induction es arbitrary: st) (simp_all add: afterCommit_def split: option.split)

lemma emit_withdrawals_db [simp]: "st_db (snd (emit_withdrawals gs now st)) = st_db st"
  by (simp add: emit_withdrawals_def)

text \<open>Inside a transaction an effect is always accepted.\<close>

lemma afterCommit_all_pending:
  "st_pending st = Some es \<Longrightarrow> afterCommit_all fx st = (Inr (), st\<lparr>st_pending := Some (es @ fx)\<rparr>)"
proof (induction fx arbitrary: st es)
  case (Cons f fx)
  then show ?case
    by (simp add: afterCommit_def Cons.IH [where es = "es @ [f]"])
qed simp

text \<open>What a transaction does to the tables, and when it fails.\<close>

lemma transaction_db:
  "st_db (snd (transaction work st)) =
     (case fst (work (st\<lparr>st_pending := Some []\<rparr>)) of
        Inl e \<Rightarrow> st_db st | Inr a \<Rightarrow> st_db (snd (work (st\<lparr>st_pending := Some []\<rparr>))))"
  "fst (transaction work st) = fst (work (st\<lparr>st_pending := Some []\<rparr>))"
  by (cases "work (st\<lparr>st_pending := Some []\<rparr>)"; auto simp: transaction_def Let_def split: sum.split option.split)+

lemma transaction_changes:
  assumes "\<And>st'. db_changes u (st_db st') (st_db (snd (work st')))"
  shows "db_changes u (st_db st) (st_db (snd (transaction work st)))"
  using assms [of "st\<lparr>st_pending := Some []\<rparr>"] by (simp add: transaction_db split: sum.split)

subsection \<open>The calls of the store\<close>

datatype store_call =
    Issue int "nat list" issue_input
  | GrantsForSubjects "string list" string int
  | Consume string int
  | Revoke string int
  | RevokeSubject string int
  | Invalidate string int
  | Touch string int
  | SuspendIdle int int
  | Restore string
  | PruneSession string int
  | Rollback "string list" "string list" "int option" int
  | ResetAgent string bool int
  | CreateLock int "nat list" lock_input
  | MatchLocks hostname_parser capability_catalogue string string string int
  | RevokeLock string int
  | PauseAgent string "nat list" bool string int
  | LockWorkspace "nat list" bool string int
  | EnsureWebsite url_platform string string string string
  | CreateInstallation string string string
  | RegisterSubject subject_binding
  | RegisterInstallation bool installation_evidence
  | Unregister string nat

fun exec_call :: "store_call \<Rightarrow> grant_store \<Rightarrow> grant_store" where
  "exec_call (Issue now bytes inp) st = snd (issue now bytes inp st)"
| "exec_call (GrantsForSubjects subjects cap now) st = snd (grantsForSubjects subjects cap now st)"
| "exec_call (Consume i now) st = snd (consume_grant i now st)"
| "exec_call (Revoke i now) st = snd (revoke i now st)"
| "exec_call (RevokeSubject s now) st = snd (revokeSubject s now st)"
| "exec_call (Invalidate s now) st = snd (invalidateAuthoritySubject s now st)"
| "exec_call (Touch i now) st = snd (touch i now st)"
| "exec_call (SuspendIdle now idle) st = snd (suspendIdleAgentGrants now idle st)"
| "exec_call (Restore i) st = snd (restore_grant i st)"
| "exec_call (PruneSession s now) st = snd (pruneSession s now st)"
| "exec_call (Rollback issued restored retired now) st = snd (rollbackInstallClearance issued restored retired now st)"
| "exec_call (ResetAgent b keep now) st = snd (resetAgentAuthority b keep now st)"
| "exec_call (CreateLock now bytes inp) st = snd (createLock now bytes inp st)"
| "exec_call (MatchLocks host category b cap key now) st = snd (matchingLocks host category b cap key now st)"
| "exec_call (RevokeLock i now) st = snd (revokeLock i now st)"
| "exec_call (PauseAgent b bytes on by now) st = snd (setAgentPaused b bytes on by now st)"
| "exec_call (LockWorkspace bytes on by now) st = snd (setWorkspaceAuthorityLocked bytes on by now st)"
| "exec_call (EnsureWebsite pf fresh user ws origin) st = snd (ensureWebsiteSubject pf fresh user ws origin st)"
| "exec_call (CreateInstallation fresh user ws) st = snd (createInstallationSubject fresh user ws st)"
| "exec_call (RegisterSubject b) st = snd (registerSubjectExecution b st)"
| "exec_call (RegisterInstallation live inp) st = snd (registerInstallationExecution live inp st)"
| "exec_call (Unregister d t) st = unregisterExecution d t st"

definition exec_calls :: "store_call list \<Rightarrow> grant_store \<Rightarrow> grant_store" where
  "exec_calls cs st = fold exec_call cs st"

lemma exec_calls_simps [simp]:
  "exec_calls [] st = st" "exec_calls (c # cs) st = exec_calls cs (exec_call c st)"
  by (simp_all add: exec_calls_def)

subsection \<open>Every call is a sequence of elementary changes\<close>

lemma getAuthoritySubject_state [simp]: "snd (getAuthoritySubject s st) = st"
  by (simp add: getAuthoritySubject_def split: option.split)

lemma getAuthoritySubject_Some:
  "fst (getAuthoritySubject s st) = Inr (Some b) \<Longrightarrow> b \<in> set (db_subjects (st_db st)) \<and> su_subject b = s"
  by (auto simp: getAuthoritySubject_def dest: find_SomeD split: option.splits if_splits)

lemma binding_error_None:
  "binding_error inp st = None \<Longrightarrow> continuing_input inp \<Longrightarrow>
     \<exists>b \<in> set (db_subjects (st_db st)). su_subject b = in_subject inp \<and>
        gc_subjectGeneration (in_cons inp) = Some (su_generation b) \<and>
        gc_sourceWorkspaceId (in_cons inp) = Some (su_workspace_id b)"
  unfolding binding_error_def
  by (auto dest!: getAuthoritySubject_Some split: sum.splits option.splits if_splits)

lemma issue_outcome:
  obtains (refused) e where "issue now bytes inp st = (Inl e, st)"
  | (issued) ident at where "insertable (st_db st) inp ident"
      "issue now bytes inp st = (Inr (issued_grant inp ident at), update_grants (\<lambda>rs. rs @ [issued_row inp ident at]) st)"
proof -
  have "(\<exists>e. issue now bytes inp st = (Inl e, st)) \<or>
      (\<exists>ident. validateGrantInput inp = None \<and> binding_error inp st = None \<and>
         grant_identity inp now bytes = Inr ident \<and> \<not> list_ex (\<lambda>r. gr_id r = ident) (db_grants (st_db st)))"
    by (simp add: issue_def Let_def split: option.split sum.split)
  then consider (bad) e where "issue now bytes inp st = (Inl e, st)"
    | (good) ident where "validateGrantInput inp = None" "binding_error inp st = None"
        "grant_identity inp now bytes = Inr ident" "\<not> list_ex (\<lambda>r. gr_id r = ident) (db_grants (st_db st))"
    by blast
  then show thesis
  proof cases
    case (bad e)
    then show thesis by (rule refused)
  next
    case (good ident)
    then have "insertable (st_db st) inp ident"
      using binding_error_None by (auto simp: insertable_def list_ex_iff)
    then show thesis
      by (rule issued) (use good in \<open>simp add: issue_def Let_def\<close>)
  qed
qed

lemma issue_changes: "db_changes u (st_db st) (st_db (snd (issue now bytes inp st)))"
  by (cases rule: issue_outcome [of now bytes inp st]) (auto intro: insert_grant)

lemma consume_changes: "db_changes u (st_db st) (st_db (snd (consume_grant i now st)))"
  by (simp add: consume_grant_def consume_rows r_into_rtranclp)

lemma touch_changes: "db_changes u (st_db st) (st_db (snd (touch i now st)))"
  by (simp add: touch_def Let_def touch_rows r_into_rtranclp)

lemma restore_changes: "db_changes u (st_db st) (st_db (snd (restore_grant i st)))"
  by (simp add: restore_grant_def Let_def suspend_rows r_into_rtranclp)

lemma prune_changes: "db_changes u (st_db st) (st_db (snd (pruneSession s now st)))"
  by (simp add: pruneSession_def revoke_grants r_into_rtranclp)

lemmas elementary = revoke_grants unrevoke_grants consume_rows touch_rows suspend_rows bump_subject change_locks

text \<open>A transaction whose work ends in one elementary change and the effects it announces.\<close>

lemma announced_change:
  assumes "db_changes u (st_db st) (st_db st1)"
  shows "db_changes u (st_db st) (st_db (snd (and_then (emit_withdrawals gs now st1) (\<lambda>_. return c))))"
    and "db_changes u (st_db st) (st_db (snd (and_then (afterCommit_all es st1) (\<lambda>_. return c))))"
  using assms by simp_all

lemma revoke_changes: "db_changes u (st_db st) (st_db (snd (revoke i now st)))"
  unfolding revoke_def
  by (rule transaction_changes) (auto simp: Let_def intro: elementary split: sum.split option.split bool.split)

lemma revokeSubject_changes: "db_changes u (st_db st) (st_db (snd (revokeSubject s now st)))"
  unfolding revokeSubject_def
  by (rule transaction_changes) (auto simp: Let_def intro: elementary split: sum.split)

lemma suspendIdle_changes: "db_changes u (st_db st) (st_db (snd (suspendIdleAgentGrants now idle st)))"
  unfolding suspendIdleAgentGrants_def
  by (rule transaction_changes) (auto simp: Let_def intro: elementary split: sum.split)

lemma invalidate_changes: "db_changes u (st_db st) (st_db (snd (invalidateAuthoritySubject s now st)))"
proof -
  have "db_changes u (st_db st) (st_db (revoke_rows p now (update_subjects
      (sql_update (\<lambda>r. su_subject r = s) (\<lambda>r. r\<lparr>su_generation := su_generation r + 1\<rparr>)) st)))" for p st
    by (rule change_then [OF _ change_once [OF revoke_rows_change]]) (simp add: bump_subject)
  then show ?thesis unfolding invalidateAuthoritySubject_def
    by (intro transaction_changes)
      (auto simp: Let_def simp del: revoke_rows_simps db_of_updates intro: announced_change split: sum.split)
qed

lemma and_then_changes:
  assumes "db_changes u db (st_db (snd r))" and "\<And>a st. db_changes u (st_db st) (st_db (snd (rest a st)))"
  shows "db_changes u db (st_db (snd (and_then r rest)))"
  using assms by (cases r; cases "fst r") (auto intro: rtranclp_trans)

lemma revoke_each_changes: "db_changes u (st_db st) (st_db (snd (revoke_each is now st)))"
  by (induction "is" arbitrary: st) (simp_all add: and_then_changes revoke_changes)

lemma unrevoke_changes: "db_changes True (st_db st) (st_db (fold (unrevoke_row t) is st))"
proof (induction "is" arbitrary: st)
  case (Cons i "is")
  have "db_change True (st_db st) (st_db (unrevoke_row t i st))"
    by (simp add: unrevoke_row_def unrevoke_grants)
  then show ?case using Cons.IH by (simp add: converse_rtranclp_into_rtranclp)
qed simp

lemma rollback_changes: "db_changes True (st_db st) (st_db (snd (rollbackInstallClearance is rs t now st)))"
proof -
  have "db_changes True (st_db st') (st_db (snd (and_then (revoke_each is now st')
      (\<lambda>_ st'. return () (fold (unrevoke_row t) rs st')))))" for st'
    by (rule and_then_changes) (simp_all add: revoke_each_changes unrevoke_changes)
  then have "db_changes True (st_db st) (st_db (snd (transaction (\<lambda>st. and_then (revoke_each is now st)
      (\<lambda>_ st'. return () (fold (unrevoke_row t) rs st'))) st)))"
    by (rule transaction_changes)
  then show ?thesis by (simp add: rollbackInstallClearance_def)
qed

lemma lock_changes [simp]: "db_changes u db (db\<lparr>db_locks := ls\<rparr>)"
  by (rule change_once) (rule change_locks)

lemma reset_changes: "db_changes u (st_db st) (st_db (snd (resetAgentAuthority b keep now st)))"
proof -
  have locks: "db_changes u (st_db st) (st_db (revoke_rows p now st)\<lparr>db_locks := ls\<rparr>)" for st p ls
    by (rule change_then [OF revoke_rows_change [of u st p now] lock_changes])
  show ?thesis
    unfolding resetAgentAuthority_def
    by (auto simp: Let_def simp del: revoke_rows_simps intro!: transaction_changes
        intro: locks change_once [OF revoke_rows_change] split: sum.split)
qed

lemma createLock_changes: "db_changes u (st_db st) (st_db (snd (createLock now bytes inp st)))"
  by (simp add: createLock_def Let_def split: option.split sum.split)

lemma matchingLocks_changes: "db_changes u (st_db st) (st_db (snd (matchingLocks host category b cap key now st)))"
  by (simp add: matchingLocks_def Let_def split: list.split)

lemma revokeLock_changes: "db_changes u (st_db st) (st_db (snd (revokeLock i now st)))"
  by (simp add: revokeLock_def Let_def)

lemma standing_lock_changes: "db_changes u (st_db st) (st_db (snd (set_standing_lock level b bytes on by now st)))"
  using createLock_changes [of u st now bytes "profile_lock level b by now"] revokeLock_changes [of u st _ now]
  by (auto simp: set_standing_lock_def split: bool.split option.split prod.split) (metis snd_conv)

lemma grantsFor_changes: "db_changes u (st_db st) (st_db (snd (grantsForSubjects subjects cap now st)))"
  using suspendIdle_changes [of u st now idle_default]
  by (auto simp: grantsForSubjects_def Let_def split: prod.split sum.split if_split)

lemma insert_subject_changes:
  "\<not> list_ex (\<lambda>r. su_subject r = su_subject b) (db_subjects db) \<Longrightarrow> su_generation b = 0 \<Longrightarrow>
     db_changes u db (db\<lparr>db_subjects := db_subjects db @ [b]\<rparr>)"
  by (auto simp: list_ex_iff intro!: change_once insert_subject)

lemma ensureWebsite_changes: "db_changes u (st_db st) (st_db (snd (ensureWebsiteSubject pf fresh user ws origin st)))"
  by (auto simp: ensureWebsiteSubject_def Let_def intro!: insert_subject_changes split: option.split)

lemma createInstallation_changes:
  "db_changes u (st_db st) (st_db (snd (createInstallationSubject fresh user ws st)))"
  by (auto simp: createInstallationSubject_def Let_def list_ex_iff intro!: insert_subject_changes)

lemma register_db [simp]: "st_db (snd (registerExecution b inst st)) = st_db st"
  by (simp add: registerExecution_def split: option.split sum.split)

lemma registrations_db [simp]:
  "st_db (snd (registerSubjectExecution b st)) = st_db st"
  "st_db (snd (registerInstallationExecution live inp st)) = st_db st"
  "st_db (unregisterExecution d t st) = st_db st"
  by (simp_all add: registerSubjectExecution_def registerInstallationExecution_def unregisterExecution_def Let_def
      split: sum.split option.split)

text \<open>Only the rollback of an install clearance lifts a revocation.\<close>

definition is_rollback :: "store_call \<Rightarrow> bool" where
  "is_rollback c \<longleftrightarrow> (case c of Rollback issued restored retired now \<Rightarrow> True | _ \<Rightarrow> False)"

lemma exec_call_changes: "db_changes (is_rollback c) (st_db st) (st_db (exec_call c st))"
  by (cases c) (simp_all add: is_rollback_def issue_changes grantsFor_changes consume_changes revoke_changes revokeSubject_changes
      invalidate_changes touch_changes suspendIdle_changes restore_changes prune_changes rollback_changes
      reset_changes createLock_changes matchingLocks_changes revokeLock_changes setAgentPaused_def
      setWorkspaceAuthorityLocked_def standing_lock_changes ensureWebsite_changes createInstallation_changes)

lemma db_change_mono: "db_change a db db' \<Longrightarrow> a \<longrightarrow> b \<Longrightarrow> db_change b db db'"
  by (induction rule: db_change.induct) (auto intro: db_change.intros)

lemma db_changes_mono: "db_changes a db db' \<Longrightarrow> a \<longrightarrow> b \<Longrightarrow> db_changes b db db'"
  by (rule rtranclp_mono [THEN predicate2D]) (auto intro: db_change_mono)

lemma exec_calls_changes: "db_changes (list_ex is_rollback cs) (st_db st) (st_db (exec_calls cs st))"
proof (induction cs arbitrary: st)
  case (Cons c cs)
  have "db_changes (list_ex is_rollback (c # cs)) (st_db st) (st_db (exec_call c st))"
    by (rule db_changes_mono [OF exec_call_changes]) simp
  moreover have "db_changes (list_ex is_rollback (c # cs)) (st_db (exec_call c st)) (st_db (exec_calls cs (exec_call c st)))"
    by (rule db_changes_mono [OF Cons.IH]) simp
  ultimately show ?case by simp
qed simp

text \<open>An invariant of the elementary changes is one of every run.\<close>

lemma changes_invariant:
  assumes "db_changes u db db'" and "I db" and "\<And>a b. db_change u a b \<Longrightarrow> I a \<Longrightarrow> I b"
  shows "I db'"
  using assms(1,2) by (induction rule: rtranclp_induct) (auto intro: assms(3))

text \<open>A reflexive and transitive relation that every elementary change respects.\<close>

lemma changes_relation:
  assumes "db_changes u db db'" and "\<And>a. R a a" and "\<And>a b c. R a b \<Longrightarrow> R b c \<Longrightarrow> R a c"
    and "\<And>a b. db_change u a b \<Longrightarrow> R a b"
  shows "R db db'"
  using assms(1) by (induction rule: rtranclp_induct) (auto intro: assms(2-4))

end
