(* ===== verification/GrantStoreLaws.thy ===== *)
theory GrantStoreLaws
  imports GrantStoreSteps "HOL-Library.Multiset"
begin

text \<open>
  What the grant store keeps under every sequence of calls: well-formed tables, the history of
  consent, one use of a single-use grant, the withdrawal of a subject for good, and what a
  stored grant reads back as.
\<close>

subsection \<open>History\<close>

text \<open>What a grant row keeps for ever: everything but its revocation, suspension and last use; a
  consumption once it has happened; and a revocation, unless \<open>u\<close> says that one may be lifted.\<close>

definition row_step :: "bool \<Rightarrow> grant_row \<Rightarrow> grant_row \<Rightarrow> bool" where
  "row_step u r r' \<longleftrightarrow>
     r'\<lparr>gr_revoked_at := None, gr_suspended_at := None, gr_last_used_at := None, gr_consumed_at := None\<rparr> =
     r\<lparr>gr_revoked_at := None, gr_suspended_at := None, gr_last_used_at := None, gr_consumed_at := None\<rparr> \<and>
     (gr_consumed_at r \<noteq> None \<longrightarrow> gr_consumed_at r' = gr_consumed_at r) \<and>
     (gr_revoked_at r \<noteq> None \<longrightarrow> u \<or> gr_revoked_at r' = gr_revoked_at r)"

lemma row_stepD:
  "row_step u r r' \<Longrightarrow> gr_id r' = gr_id r \<and> gr_effect r' = gr_effect r \<and> gr_capability r' = gr_capability r \<and>
     gr_resource_key r' = gr_resource_key r \<and> gr_resource_scope r' = gr_resource_scope r \<and>
     gr_subject r' = gr_subject r \<and> gr_constraints r' = gr_constraints r \<and>
     gr_issued_by r' = gr_issued_by r \<and> gr_provenance r' = gr_provenance r \<and>
     gr_created_at r' = gr_created_at r \<and> gr_expires_at r' = gr_expires_at r \<and> gr_scope r' = gr_scope r"
  by (cases r; cases r') (simp add: row_step_def)

lemma row_step_refl [simp]: "row_step u r r"
  by (simp add: row_step_def)

lemma row_step_trans: "row_step u a b \<Longrightarrow> row_step u b c \<Longrightarrow> row_step u a c"
  by (auto simp: row_step_def)

definition rows_evolve :: "bool \<Rightarrow> grant_row list \<Rightarrow> grant_row list \<Rightarrow> bool" where
  "rows_evolve u xs ys \<longleftrightarrow> length xs \<le> length ys \<and> (\<forall>i < length xs. row_step u (xs ! i) (ys ! i))"

lemma rows_evolve_refl [simp]: "rows_evolve u xs xs"
  by (simp add: rows_evolve_def)

lemma rows_evolve_trans: "rows_evolve u xs ys \<Longrightarrow> rows_evolve u ys zs \<Longrightarrow> rows_evolve u xs zs"
  unfolding rows_evolve_def by (meson le_trans order_less_le_trans row_step_trans)

lemma length_sql_update [simp]: "length (sql_update p f rows) = length rows"
  by (simp add: sql_update_def)

lemma nth_sql_update [simp]:
  "i < length rows \<Longrightarrow> sql_update p f rows ! i = (if p (rows ! i) then f (rows ! i) else rows ! i)"
  by (simp add: sql_update_def)

lemma set_sql_update: "set (sql_update p f rows) = (\<lambda>r. if p r then f r else r) ` set rows"
  by (simp add: sql_update_def)

lemma map_sql_update: "(\<And>r. g (f r) = g r) \<Longrightarrow> map g (sql_update p f rows) = map g rows"
  by (simp add: sql_update_def)

lemma sql_update_evolves:
  "(\<And>r. p r \<Longrightarrow> row_step u r (f r)) \<Longrightarrow> rows_evolve u rows (sql_update p f rows)"
  by (simp add: rows_evolve_def)

lemma change_evolves: "db_change u a b \<Longrightarrow> rows_evolve u (db_grants a) (db_grants b)"
proof (induction rule: db_change.induct)
  case (insert_grant db inp ident at)
  then show ?case by (simp add: rows_evolve_def nth_append)
qed (auto intro!: sql_update_evolves simp: row_step_def consumable_row_def)

lemma calls_evolve: "rows_evolve (list_ex is_rollback cs) (db_grants (st_db st)) (db_grants (st_db (exec_calls cs st)))"
  by (rule changes_relation [OF exec_calls_changes, of "\<lambda>a b. rows_evolve (list_ex is_rollback cs) (db_grants a) (db_grants b)"])
    (auto intro: rows_evolve_trans change_evolves)

subsection \<open>Well-formed tables\<close>

definition continuing_subject :: "string \<Rightarrow> bool" where
  "continuing_subject s \<longleftrightarrow> startsWith ''website:'' s \<or> startsWith ''installation:'' s"

definition row_ok :: "subject_row list \<Rightarrow> grant_row \<Rightarrow> bool" where
  "row_ok subjects r \<longleftrightarrow>
     has_subject_kind (gr_subject r) \<and>
     (gr_provenance r = ''critical-confirmation'' \<longrightarrow>
        gr_effect r = Allow \<and> startsWith ''session:'' (gr_subject r) \<and>
        present (gc_invocationDigest (gr_constraints r)) \<noteq> None) \<and>
     (continuing_subject (gr_subject r) \<longrightarrow>
        (\<exists>b \<in> set subjects. su_subject b = gr_subject r \<and>
           (\<exists>n \<le> su_generation b. gc_subjectGeneration (gr_constraints r) = Some n)))"

definition wf_db :: "authority_db \<Rightarrow> bool" where
  "wf_db db \<longleftrightarrow> distinct (map gr_id (db_grants db)) \<and> distinct (map su_subject (db_subjects db)) \<and>
     (\<forall>r \<in> set (db_grants db). row_ok (db_subjects db) r)"

lemma wf_new [simp]: "wf_db (st_db new_grant_store)"
  by (simp add: wf_db_def new_grant_store_def)

lemma canonical_has_kind: "canonical_subject s \<Longrightarrow> has_subject_kind s"
  by (auto simp: canonical_subject_def has_subject_kind_def list_ex_iff)

lemma validated:
  assumes "validateGrantInput inp = None"
  shows "canonical_subject (in_subject inp)"
    and "in_provenance inp = ''critical-confirmation'' \<Longrightarrow>
      in_effect inp = Allow \<and> startsWith ''session:'' (in_subject inp) \<and> present (gc_invocationDigest (in_cons inp)) \<noteq> None"
  using assms by (auto simp: validateGrantInput_def Let_def split: if_splits)

lemma issued_row_ok:
  assumes "insertable db inp ident"
  shows "row_ok (db_subjects db) (issued_row inp ident at)"
proof -
  have valid: "validateGrantInput inp = None" using assms by (simp add: insertable_def)
  have "continuing_subject (in_subject inp) \<Longrightarrow> continuing_input inp"
    by (auto simp: continuing_subject_def continuing_input_def)
  then show ?thesis
    using assms validated [OF valid] canonical_has_kind
    by (auto simp: row_ok_def issued_row_def insertable_def)
qed

lemma row_ok_step: "row_ok subjects r \<Longrightarrow> row_step u r r' \<Longrightarrow> row_ok subjects r'"
  using row_stepD [of u r r'] by (simp add: row_ok_def)

lemma row_ok_subjects:
  assumes "row_ok subjects r"
    and "\<And>b. b \<in> set subjects \<Longrightarrow> \<exists>b' \<in> set subjects'. su_subject b' = su_subject b \<and> su_generation b \<le> su_generation b'"
  shows "row_ok subjects' r"
  unfolding row_ok_def
proof (intro conjI impI)
  assume "continuing_subject (gr_subject r)"
  with assms(1) obtain b n where b: "b \<in> set subjects" "su_subject b = gr_subject r"
    and n: "n \<le> su_generation b" "gc_subjectGeneration (gr_constraints r) = Some n"
    unfolding row_ok_def by blast
  from assms(2) [OF b(1)] obtain b' where "b' \<in> set subjects'" "su_subject b' = su_subject b"
    "su_generation b \<le> su_generation b'" by blast
  with b n show "\<exists>b \<in> set subjects'. su_subject b = gr_subject r \<and>
      (\<exists>n \<le> su_generation b. gc_subjectGeneration (gr_constraints r) = Some n)" by force
qed (use assms(1) in \<open>simp_all add: row_ok_def\<close>)

lemma ids_of_update: "(\<And>r. gr_id (f r) = gr_id r) \<Longrightarrow> map gr_id (sql_update p f rows) = map gr_id rows"
  by (rule map_sql_update)

lemma wf_rows_update:
  assumes "wf_db db" and "\<And>r. p r \<Longrightarrow> row_step u r (f r)"
  shows "wf_db (with_rows db (sql_update p f (db_grants db)))"
proof -
  have "map gr_id (sql_update p f (db_grants db)) = map gr_id (db_grants db)"
    using assms(2) row_stepD by (auto simp: sql_update_def)
  then show ?thesis
    using assms by (auto simp: wf_db_def set_sql_update intro: row_ok_step)
qed

lemma wf_change: "db_change u a b \<Longrightarrow> wf_db a \<Longrightarrow> wf_db b"
proof (induction rule: db_change.induct)
  case (insert_grant db inp ident at)
  then show ?case
    using issued_row_ok [OF insert_grant.hyps]
    by (auto simp: wf_db_def insertable_def issued_row_def)
next
  case (insert_subject b db)
  have "row_ok (db_subjects db @ [b]) r" if "r \<in> set (db_grants db)" for r
    by (rule row_ok_subjects [of "db_subjects db"]) (use insert_subject that in \<open>auto simp: wf_db_def\<close>)
  then show ?case using insert_subject by (simp add: wf_db_def)
next
  case (bump_subject db s)
  let ?subjects = "sql_update (\<lambda>r. su_subject r = s) (\<lambda>r. r\<lparr>su_generation := su_generation r + 1\<rparr>) (db_subjects db)"
  have "\<exists>b' \<in> set ?subjects. su_subject b' = su_subject b \<and> su_generation b \<le> su_generation b'"
    if "b \<in> set (db_subjects db)" for b
  proof (cases "su_subject b = s")
    case True
    then have "b\<lparr>su_generation := su_generation b + 1\<rparr> \<in> set ?subjects"
      using that by (force simp: set_sql_update)
    then show ?thesis by (rule rev_bexI) simp
  next
    case False
    then have "b \<in> set ?subjects" using that by (force simp: set_sql_update)
    then show ?thesis by (rule rev_bexI) simp
  qed
  then have "row_ok ?subjects r" if "r \<in> set (db_grants db)" for r
    using row_ok_subjects [of "db_subjects db" r ?subjects] bump_subject that unfolding wf_db_def by blast
  then show ?case using bump_subject by (simp add: wf_db_def map_sql_update)
qed (auto intro!: wf_rows_update simp: row_step_def consumable_row_def, simp add: wf_db_def)

lemma wf_calls: "wf_db (st_db st) \<Longrightarrow> wf_db (st_db (exec_calls cs st))"
  by (rule changes_invariant [OF exec_calls_changes]) (auto intro: wf_change)

subsection \<open>A sample store\<close>

definition sample_constraints :: grant_constraints where
  "sample_constraints = no_constraints\<lparr>gc_invocationDigest := Some ''d''\<rparr>"

definition sample_input :: issue_input where
  "sample_input = \<lparr>in_id = Some ''c1'', in_effect = Allow, in_capability = ''fs.write'',
     in_resource = ExactScope ''ctx/a'', in_subject = ''session:s1'', in_constraints = Some sample_constraints,
     in_issuedBy = ''user:u'', in_provenance = ''critical-confirmation'', in_createdAt = Some 5,
     in_expiresAt = None, in_scope = None, in_suspendedAt = None, in_lastUsedAt = None, in_decidedBy = None,
     in_decisionSurface = None, in_definitionDigest = None\<rparr>"

lemmas sample_defs = sample_input_def sample_constraints_def no_constraints_def in_cons_def

lemma sample_issued:
  "issue 5 [] sample_input new_grant_store =
     (Inr (issued_grant sample_input ''c1'' 5), update_grants (\<lambda>rs. rs @ [issued_row sample_input ''c1'' 5]) new_grant_store)"
  by (simp add: issue_def validateGrantInput_def binding_error_def continuing_input_def grant_identity_def sample_defs
      canonical_subject_def subject_tail_def subject_kinds_def startsWith_def line_terminator_def trim_def
      space_char_def present_def Let_def new_grant_store_def)

lemma sample_fields [simp]:
  "in_subject sample_input = ''session:s1''" "in_suspendedAt sample_input = None" "in_expiresAt sample_input = None"
  by (simp_all add: sample_input_def)

definition sample_store :: grant_store where
  "sample_store = exec_call (Issue 5 [] sample_input) new_grant_store"

lemma sample_store_rows [simp]:
  "db_grants (st_db sample_store) = [issued_row sample_input ''c1'' 5]" "db_subjects (st_db sample_store) = []"
  "db_locks (st_db sample_store) = []"
  by (simp_all add: sample_store_def sample_issued) (simp_all add: new_grant_store_def)

lemma sample_row [simp]:
  "gr_id (issued_row sample_input ''c1'' 5) = ''c1''" "gr_consumed_at (issued_row sample_input ''c1'' 5) = None"
  "gr_revoked_at (issued_row sample_input ''c1'' 5) = None"
  "gc_invocationDigest (gr_constraints (issued_row sample_input ''c1'' 5)) = Some ''d''"
  by (simp_all add: issued_row_def sample_defs)

lemma sample_consumed [simp]:
  "db_grants (st_db (exec_call (Consume ''c1'' 7) sample_store)) =
     [(issued_row sample_input ''c1'' 5)\<lparr>gr_consumed_at := Some 7\<rparr>]"
  by (simp add: consume_grant_def sql_update_def consumable_row_def)

subsection \<open>What reading and keeping promise\<close>

lemma mset_newest_first [simp]: "mset (newest_first rows) = mset rows"
  by (simp add: newest_first_def)

lemma set_newest_first [simp]: "set (newest_first rows) = set rows"
  by (metis mset_newest_first set_mset_mset)

lemma wf_list_grants:
  assumes "wf_db (st_db st)"
  shows "listAuthorityGrants st = Inr (map rowToGrant (newest_first (db_grants (st_db st))))"
  using assms by (auto simp: listAuthorityGrants_def read_grants_def wf_db_def row_ok_def list_all_iff)

text \<open>
  C17. The tables stay well typed. After any calls on a fresh store the grants have distinct
  identifiers, each names a subject of a known kind, a critical confirmation is a session's
  allow bound to an invocation digest, and a grant of a website or an installation is bound to a
  recorded subject and a generation that subject has had; so the listing of all grants never
  throws, and lists exactly the stored rows.
\<close>

theorem stored_grants_well_typed:
  "let st = exec_calls cs new_grant_store; rows = db_grants (st_db st) in
     distinct (map gr_id rows) \<and> distinct (map su_subject (db_subjects (st_db st))) \<and>
     list_all (row_ok (db_subjects (st_db st))) rows \<and>
     (\<exists>gs. listAuthorityGrants st = Inr gs \<and> mset gs = mset (map rowToGrant rows))"
proof -
  have "wf_db (st_db (exec_calls cs new_grant_store))" by (rule wf_calls) simp
  then show ?thesis by (simp add: Let_def wf_list_grants wf_db_def list_all_iff)
qed

text \<open>
  C16. The history of consent is kept. Whatever calls are made on a store, each grant row stays
  where it is with its effect, capability, resource, subject, constraints, provenance, issuer
  and expiry; a consumption is never undone, and unless an install clearance is rolled back
  neither is a revocation.
\<close>

theorem consent_history_kept:
  assumes "i < length (db_grants (st_db st))" and "r = db_grants (st_db st) ! i"
    and "r' = db_grants (st_db (exec_calls cs st)) ! i"
  shows "i < length (db_grants (st_db (exec_calls cs st)))
    \<and> rowToGrant r' = (rowToGrant r)\<lparr>ag_revokedAt := gr_revoked_at r', ag_consumedAt := gr_consumed_at r',
          ag_suspendedAt := gr_suspended_at r', ag_lastUsedAt := gr_last_used_at r'\<rparr>
    \<and> (gr_consumed_at r \<noteq> None \<longrightarrow> gr_consumed_at r' = gr_consumed_at r)
    \<and> (gr_revoked_at r \<noteq> None \<longrightarrow> \<not> list_ex is_rollback cs \<longrightarrow> gr_revoked_at r' = gr_revoked_at r)"
proof -
  have step: "row_step (list_ex is_rollback cs) r r'" and len: "i < length (db_grants (st_db (exec_calls cs st)))"
    using calls_evolve [of cs st] assms by (auto simp: rows_evolve_def)
  moreover have "rowToGrant r' = (rowToGrant r)\<lparr>ag_revokedAt := gr_revoked_at r', ag_consumedAt := gr_consumed_at r',
      ag_suspendedAt := gr_suspended_at r', ag_lastUsedAt := gr_last_used_at r'\<rparr>"
    using step by (cases r; cases r') (simp add: row_step_def rowToGrant_def)
  ultimately show ?thesis by (auto simp: row_step_def)
qed

theorem consent_history_kept_witness:
  "gr_consumed_at (db_grants (st_db (exec_calls [Consume ''c1'' 9, Revoke ''c1'' 9]
     (exec_call (Consume ''c1'' 7) sample_store))) ! 0) = Some 7"
proof -
  have "0 < length (db_grants (st_db (exec_call (Consume ''c1'' 7) sample_store)))"
    by (simp del: exec_call.simps)
  from consent_history_kept [OF this refl refl, of "[Consume ''c1'' 9, Revoke ''c1'' 9]"]
  show ?thesis by (simp del: exec_call.simps exec_calls_simps)
qed

text \<open>
  What is issued reads back. Whenever \<open>issue\<close> succeeds, the grant it returns is the grant
  that its new row reads back as, resource columns included, no other row is touched, and the
  grant is found under every subject list that names its subject and every capability its
  pattern covers, unless it is born suspended or expired.
\<close>

lemma issued_reads_back: "rowToGrant (issued_row inp ident at) = issued_grant inp ident at"
  by (simp add: rowToGrant_def issued_row_def issued_grant_def)

theorem issued_grant_roundtrip:
  assumes "issue now bytes inp st = (Inr g, st')"
  shows "\<exists>row. db_grants (st_db st') = db_grants (st_db st) @ [row] \<and> rowToGrant row = g
    \<and> gr_id row \<notin> set (map gr_id (db_grants (st_db st)))
    \<and> cs_resource g = in_resource inp \<and> ag_subject g = in_subject inp \<and> ag_constraints g = Some (in_cons inp)
    \<and> (readable_row t subjects row \<longleftrightarrow> in_subject inp \<in> set subjects \<and> in_suspendedAt inp = None
         \<and> (case in_expiresAt inp of None \<Rightarrow> True | Some e \<Rightarrow> e > t))"
proof (cases rule: issue_outcome [of now bytes inp st])
  case (refused e)
  then show ?thesis using assms by simp
next
  case (issued ident at)
  then have st': "st' = update_grants (\<lambda>rs. rs @ [issued_row inp ident at]) st" and g: "g = issued_grant inp ident at"
    using assms by simp_all
  show ?thesis
  proof (intro exI [of _ "issued_row inp ident at"] conjI)
    show "rowToGrant (issued_row inp ident at) = g" using g issued_reads_back by simp
  qed (use issued(1) in \<open>auto simp: st' g issued_grant_def issued_row_def readable_row_def unexpired_def insertable_def\<close>)
qed

theorem issued_grant_roundtrip_witness:
  "\<exists>row. db_grants (st_db sample_store) = [row] \<and>
     rowToGrant row = issued_grant sample_input ''c1'' 5 \<and> readable_row 6 [''session:s1''] row"
proof -
  have "db_grants (st_db new_grant_store) = []" by (simp add: new_grant_store_def)
  with issued_grant_roundtrip [OF sample_issued, of 6 "[''session:s1'']"]
  show ?thesis by (auto simp: sample_issued sample_store_def)
qed

end
