(* ===== verification/AuthorityUse.thy ===== *)
theory AuthorityUse
  imports AuthorityLaws GrantStoreLaws
begin

text \<open>
  Authority in use: a dispatcher reads the grants of the caller's subjects from the store,
  evaluates the request, and consumes or touches the grant that carried the decision before it
  executes (\<^verbatim>\<open>packages/shared/src/serviceDispatcher.ts\<close>, \<^verbatim>\<open>src/server/services/authorityRuntime.ts\<close>).
  The properties here need the evaluation and the store together.
\<close>

subsection \<open>One attempt\<close>


record attempt =
  at_platform :: url_platform
  at_input :: evaluation_input
  at_extra :: "authority_grant list"   \<comment> \<open>host-provided grants of this call\<close>
  at_subjects :: "string list"   \<comment> \<open>the subjects whose grants the host reads\<close>
  at_capability :: string
  at_now :: int

definition attempt_input :: "attempt \<Rightarrow> authority_grant list \<Rightarrow> evaluation_input" where
  "attempt_input a stored = (at_input a)\<lparr>ei_grants := at_extra a @ stored\<rparr>"








subsection \<open>Spent grants\<close>


text \<open>A row of a store has its successor in every later one.\<close>

lemma later_row:
  assumes "r \<in> set (db_grants (st_db st))"
  obtains r' where "r' \<in> set (db_grants (st_db (exec_calls cs st)))" and "row_step (list_ex is_rollback cs) r r'"
proof -
  from assms obtain i where "i < length (db_grants (st_db st))" and "r = db_grants (st_db st) ! i"
    by (metis in_set_conv_nth)
  moreover then have "i < length (db_grants (st_db (exec_calls cs st)))"
    "row_step (list_ex is_rollback cs) r (db_grants (st_db (exec_calls cs st)) ! i)"
    using calls_evolve [of cs st] by (auto simp: rows_evolve_def)
  ultimately show thesis using that nth_mem by blast
qed




subsection \<open>Critical confirmations\<close>

text \<open>Requirements that no caller meets without some capability.\<close>

fun needs_capability :: "requirement \<Rightarrow> bool" where
  "needs_capability (Capability kind cap codeOnly) = True"
| "needs_capability (All rs) = list_ex needs_capability rs"
| "needs_capability (Any rs) = list_all needs_capability rs"
| "needs_capability r = False"




lemma present_present [simp]: "present (present x) = present x"
  by (cases x) (auto simp: present_def)





text \<open>What is read from a well-formed store is in it.\<close>

lemma chunks_concat: "0 < n \<Longrightarrow> concat (chunks xs n) = xs"
  by (induction xs n rule: chunks.induct) (subst chunks.simps, simp)

lemma set_readable_chunks:
  assumes "r \<in> set (concat (map (\<lambda>chunk. filter (readable_row now chunk) rows) (chunks xs n)))"
  shows "r \<in> set rows"
  using assms by auto



lemma attempt_input_fields [simp]:
  "ei_tier (attempt_input a gs) = ei_tier (at_input a)" "ei_requirement (attempt_input a gs) = ei_requirement (at_input a)"
  "ei_invocationDigest (attempt_input a gs) = ei_invocationDigest (at_input a)"
  "ei_grants (attempt_input a gs) = at_extra a @ gs"
  "authority_subjects (attempt_input a gs) = authority_subjects (at_input a)"
  by (simp_all add: attempt_input_def authority_subjects_def Let_def)














subsection \<open>Pausing an agent\<close>

lemma locked_unauthorized:
  assumes "ei_locks inp \<noteq> []" and "ei_tier inp \<noteq> Some OpenTier"
  shows "needs_capability r \<Longrightarrow> \<not> authorized pf inp r"
proof (induction r)
  case (Capability kind cap codeOnly)
  then show ?case using assms by (simp add: leaf_authorized_def)
qed (auto simp: list_all_iff list_ex_iff)

definition lock_in_force :: "lock_level \<Rightarrow> string \<Rightarrow> grant_store \<Rightarrow> bool" where
  "lock_in_force level binding st \<longleftrightarrow>
     (\<exists>r \<in> set (db_locks (st_db st)). lr_level r = level \<and> lr_agent_binding_id r = binding \<and> lr_revoked_at r = None)"

lemma standing_lock_iff:
  "binding \<noteq> [] \<Longrightarrow> standing_lock level binding st \<noteq> None \<longleftrightarrow> lock_in_force level binding st"
  unfolding standing_lock_def lock_in_force_def find_None_set
  by (auto simp: listLocks_def present_def rowToLock_def)

lemma paused_matching:
  assumes "lock_in_force level binding st"
    and "level = AgentLevel \<and> binding = b \<or> level = WorkspaceLevel \<and> binding = ''*''"
  shows "fst (matchingLocks host category b cap key now st) \<noteq> []"
proof -
  from assms(1) obtain r where r: "r \<in> set (db_locks (st_db st))" "lr_level r = level"
    "lr_agent_binding_id r = binding" "lr_revoked_at r = None" by (auto simp: lock_in_force_def)
  have "lock_candidate category b cap r" using r assms(2) by (auto simp: lock_candidate_def Let_def split: option.split)
  moreover have "lock_applies host key (rowToLock r)" using r assms(2) by (auto simp: lock_applies_def rowToLock_def)
  ultimately have "rowToLock r \<in> set (filter (lock_applies host key) (map rowToLock
      (sort_key (\<lambda>r. (lr_created_at r, lr_id r)) (filter (lock_candidate category b cap) (db_locks (st_db st))))))"
    using r(1) by simp
  then have "filter (lock_applies host key) (map rowToLock
      (sort_key (\<lambda>r. (lr_created_at r, lr_id r)) (filter (lock_candidate category b cap) (db_locks (st_db st))))) \<noteq> []"
    by (metis empty_iff list.set(1))
  then show ?thesis
    by (simp add: matchingLocks_def Let_def split: list.split)
qed

lemma standing_lock_set:
  assumes "set_standing_lock level binding bytes True by now st = (Inr changed, st')" and "binding \<noteq> []"
  shows "lock_in_force level binding st'"
proof (cases "standing_lock level binding st")
  case None
  with assms(1) have "createLock now bytes (profile_lock level binding by now) st \<noteq> (Inl e, st'')" for e st''
    by (auto simp: set_standing_lock_def)
  with None assms(1) have "\<exists>ident. db_locks (st_db st') = db_locks (st_db st) @ [created_lock_row (profile_lock level binding by now) ident now]"
    by (auto simp: set_standing_lock_def createLock_def Let_def profile_lock_def split: sum.splits option.splits if_splits)
  then show ?thesis by (auto simp: lock_in_force_def created_lock_row_def profile_lock_def)
next
  case (Some l)
  then have "lock_in_force level binding st" using standing_lock_iff [OF assms(2)] by auto
  then show ?thesis using assms(1) Some by (simp add: set_standing_lock_def)
qed

text \<open>
  C5. Pausing an agent, or locking the workspace, stops it. Once either call has succeeded, no
  request of that agent binding that needs a capability is allowed at the gated or the critical
  tier, whatever it is granted, when the host passes on the locks that the store reports for
  it; and the store answers that the agent is paused, or the workspace locked.
\<close>

theorem pause_stops_agent:
  assumes "setAgentPaused b bytes True by now st = (Inr changed, st') \<and> b \<noteq> [] \<or>
      setWorkspaceAuthorityLocked bytes True by now st = (Inr changed, st')"
    and "ei_locks inp = fst (matchingLocks host category b cap key t st')"
    and "ei_tier inp \<noteq> Some OpenTier" and "needs_capability (ei_requirement inp)"
    and "evaluateAuthority pf inp = Inr d"
  shows "\<not> de_allowed d \<and> (b \<noteq> [] \<and> isAgentPaused b st' \<or> workspaceAuthorityLocked st')"
proof -
  have force: "b \<noteq> [] \<and> lock_in_force AgentLevel b st' \<or> lock_in_force WorkspaceLevel ''*'' st'"
    using assms(1) standing_lock_set
    by (auto simp: setAgentPaused_def setWorkspaceAuthorityLocked_def)
  then have "ei_locks inp \<noteq> []" using paused_matching assms(2) by metis
  then have "\<not> authorized pf inp (ei_requirement inp)" using locked_unauthorized assms(3,4) by blast
  then have "\<not> de_allowed d" using authority_meaning [OF assms(5)] by blast
  then show ?thesis
    using force standing_lock_iff [of b AgentLevel st'] standing_lock_iff [of "''*''" WorkspaceLevel st']
    by (auto simp: isAgentPaused_def workspaceAuthorityLocked_def)
qed

definition pause_input :: evaluation_input where
  "pause_input = (demo_input [demo_grant ''session:s1'' Allow NetworkScope] None)
     \<lparr>ei_locks := fst (matchingLocks (\<lambda>_. None) (\<lambda>_. None) ''b'' ''fs.write'' ''ctx/a'' 10
       (snd (setAgentPaused ''b'' [] True ''user:u'' 9 new_grant_store)))\<rparr>"

lemma sample_paused:
  "setAgentPaused ''b'' [] True ''user:u'' 9 new_grant_store =
     (Inr True, update_locks (\<lambda>rs. rs @ [created_lock_row (profile_lock AgentLevel ''b'' ''user:u'' 9)
        (base32 10 9 @ base32 16 0) 9]) new_grant_store)"
  by (simp add: setAgentPaused_def set_standing_lock_def standing_lock_def listLocks_def createLock_def
      profile_lock_def ulid_def bytes_value_def invalid_lock_def lock_check_def created_lock_row_def trim_def
      space_char_def Let_def new_grant_store_def)

lemma sample_pause_refused:
  "\<exists>d. evaluateAuthority demo_platform pause_input = Inr d"
  by (simp add: pause_input_def demo_defs gate_defs leaf_defs)

theorem pause_stops_agent_witness:
  "isAgentPaused ''b'' (snd (setAgentPaused ''b'' [] True ''user:u'' 9 new_grant_store))
   \<or> workspaceAuthorityLocked (snd (setAgentPaused ''b'' [] True ''user:u'' 9 new_grant_store))"
proof -
  obtain d where d: "evaluateAuthority demo_platform pause_input = Inr d" using sample_pause_refused by blast
  have paused: "setAgentPaused ''b'' [] True ''user:u'' 9 new_grant_store =
      (Inr True, snd (setAgentPaused ''b'' [] True ''user:u'' 9 new_grant_store)) \<and> ''b'' \<noteq> [] \<or>
      setWorkspaceAuthorityLocked [] True ''user:u'' 9 new_grant_store =
      (Inr True, snd (setAgentPaused ''b'' [] True ''user:u'' 9 new_grant_store))"
    by (simp add: sample_paused)
  have locks: "ei_locks pause_input = fst (matchingLocks (\<lambda>_. None) (\<lambda>_. None) ''b'' ''fs.write'' ''ctx/a'' 10
      (snd (setAgentPaused ''b'' [] True ''user:u'' 9 new_grant_store)))"
    by (simp add: pause_input_def)
  have asks: "ei_tier pause_input \<noteq> Some OpenTier" "needs_capability (ei_requirement pause_input)"
    by (simp_all add: pause_input_def demo_input_def demo_requirement_def)
  from pause_stops_agent [OF paused locks asks d] show ?thesis by blast
qed

subsection \<open>Withdrawing a subject\<close>

definition subjects_advance :: "subject_row list \<Rightarrow> subject_row list \<Rightarrow> bool" where
  "subjects_advance xs ys \<longleftrightarrow> (\<forall>x \<in> set xs. \<exists>y \<in> set ys. su_subject y = su_subject x \<and> su_generation x \<le> su_generation y)"

lemma subjects_advance_refl [simp]: "subjects_advance xs xs"
  by (auto simp: subjects_advance_def)

lemma subjects_advance_trans: "subjects_advance xs ys \<Longrightarrow> subjects_advance ys zs \<Longrightarrow> subjects_advance xs zs"
  unfolding subjects_advance_def by (metis order_trans)

lemma bump_advances:
  "subjects_advance xs (sql_update p (\<lambda>r. r\<lparr>su_generation := su_generation r + 1\<rparr>) xs)"
  unfolding subjects_advance_def
proof
  fix x assume x: "x \<in> set xs"
  let ?y = "if p x then x\<lparr>su_generation := su_generation x + 1\<rparr> else x"
  have "?y \<in> set (sql_update p (\<lambda>r. r\<lparr>su_generation := su_generation r + 1\<rparr>) xs)"
    unfolding set_sql_update using x by (rule imageI)
  moreover have "su_subject ?y = su_subject x \<and> su_generation x \<le> su_generation ?y" by simp
  ultimately show "\<exists>y \<in> set (sql_update p (\<lambda>r. r\<lparr>su_generation := su_generation r + 1\<rparr>) xs).
      su_subject y = su_subject x \<and> su_generation x \<le> su_generation y" by blast
qed

lemma change_advances: "db_change u a b \<Longrightarrow> subjects_advance (db_subjects a) (db_subjects b)"
proof (induction rule: db_change.induct)
  case (insert_subject b db)
  show ?case by (auto simp: subjects_advance_def)
qed (simp_all add: bump_advances)

lemma calls_advance: "subjects_advance (db_subjects (st_db st)) (db_subjects (st_db (exec_calls cs st)))"
  by (rule changes_relation [OF exec_calls_changes, of "\<lambda>a b. subjects_advance (db_subjects a) (db_subjects b)"])
    (auto intro: subjects_advance_trans change_advances)

lemma invalidate_db:
  assumes "wf_db (st_db st)"
  shows "st_db (snd (invalidateAuthoritySubject s now st)) =
    st_db (revoke_rows (\<lambda>r. gr_subject r = s) now (update_subjects
      (sql_update (\<lambda>r. su_subject r = s) (\<lambda>r. r\<lparr>su_generation := su_generation r + 1\<rparr>)) st))"
  using wf_list_grants [of "st\<lparr>st_pending := Some []\<rparr>"] assms
  by (simp add: invalidateAuthoritySubject_def transaction_db Let_def afterCommit_all_pending)

text \<open>
  C4. Withdrawing a website or an installation is for good. After the subject has been
  invalidated, and whatever calls follow, even a rollback that lifts revocations, no grant that
  existed before matches a context bound to the subject's current generation.
\<close>

theorem withdrawn_subject_stays_withdrawn:
  assumes "wf_db (st_db st)" and "continuing_subject s"
    and "st' = exec_calls cs (snd (invalidateAuthoritySubject s now st))"
    and "r \<in> set (db_grants (st_db st'))" and "gr_id r \<in> gr_id ` set (db_grants (st_db st))" and "gr_subject r = s"
    and "b \<in> set (db_subjects (st_db st'))" and "su_subject b = s"
    and "subject_binding_of ctx (rowToGrant r) = Some binding" and "sb_generation binding = su_generation b"
  shows "\<not> grantConstraintsMatch (rowToGrant r) ctx digest provider"
proof -
  have run: "st' = exec_calls (Invalidate s now # cs) st" using assms(3) by simp
  have wf': "wf_db (st_db st')" unfolding run using assms(1) by (rule wf_calls)
  from assms(5) obtain r0 where r0: "r0 \<in> set (db_grants (st_db st))" "gr_id r0 = gr_id r" by auto
  obtain r1 u where r1: "r1 \<in> set (db_grants (st_db st'))" "row_step u r0 r1"
    using later_row [OF r0(1), of "Invalidate s now # cs"] run by metis
  have "r1 = r"
    using wf' r1 r0(2) assms(4) row_stepD [OF r1(2)] unfolding wf_db_def by (metis distinct_map inj_onD)
  then have same: "gr_subject r0 = s" "gr_constraints r0 = gr_constraints r"
    using row_stepD [OF r1(2)] assms(6) by simp_all
  have "row_ok (db_subjects (st_db st)) r0" using assms(1) r0(1) by (simp add: wf_db_def)
  then obtain b0 n where b0: "b0 \<in> set (db_subjects (st_db st))" "su_subject b0 = s"
    and n: "n \<le> su_generation b0" "gc_subjectGeneration (gr_constraints r) = Some n"
    using assms(2) same by (auto simp: row_ok_def)
  have "b0\<lparr>su_generation := su_generation b0 + 1\<rparr> \<in> set (db_subjects (st_db (snd (invalidateAuthoritySubject s now st))))"
    unfolding invalidate_db [OF assms(1)] using b0 by (force simp: set_sql_update)
  then obtain b' where b': "b' \<in> set (db_subjects (st_db st'))" "su_subject b' = s" "su_generation b0 + 1 \<le> su_generation b'"
    using calls_advance [of "snd (invalidateAuthoritySubject s now st)" cs] b0(2) assms(3)
    unfolding subjects_advance_def by fastforce
  have "b' = b"
    using wf' b' assms(7,8) unfolding wf_db_def by (metis distinct_map inj_onD)
  then have "n \<noteq> sb_generation binding" using n(1) b'(3) assms(10) by simp
  then show ?thesis
    using assms(9) n(2) by (auto simp: grantConstraintsMatch_def Let_def effective_constraints_def rowToGrant_def)
qed

definition install_input :: issue_input where
  "install_input = sample_input\<lparr>in_id := Some ''i1'', in_subject := ''installation:f'',
     in_constraints := Some (no_constraints\<lparr>gc_subjectGeneration := Some 0, gc_sourceWorkspaceId := Some ''w''\<rparr>),
     in_provenance := ''install'', in_scope := Some SystemScope\<rparr>"

definition install_subject :: subject_row where
  "install_subject = \<lparr>su_subject = ''installation:f'', su_kind = ''installation'', su_user_id = ''user:u'',
     su_workspace_id = ''w'', su_identity_key = ''installation:f'', su_generation = 0\<rparr>"

definition install_store :: grant_store where
  "install_store = exec_calls [CreateInstallation ''f'' ''user:u'' ''w'', Issue 5 [] install_input] new_grant_store"

lemma install_created:
  "createInstallationSubject ''f'' ''user:u'' ''w'' new_grant_store =
     (Inr install_subject, update_subjects (\<lambda>rs. rs @ [install_subject]) new_grant_store)"
  by (simp add: createInstallationSubject_def install_subject_def user_principal_def startsWith_def no_nul_def
      trim_def space_char_def Let_def new_grant_store_def)

lemma install_issued:
  "issue 5 [] install_input (update_subjects (\<lambda>rs. rs @ [install_subject]) new_grant_store) =
     (Inr (issued_grant install_input ''i1'' 5), update_grants (\<lambda>rs. rs @ [issued_row install_input ''i1'' 5])
        (update_subjects (\<lambda>rs. rs @ [install_subject]) new_grant_store))"
  by (simp add: issue_def install_input_def validateGrantInput_def binding_error_def continuing_input_def
      grant_identity_def sample_defs canonical_subject_def subject_tail_def subject_kinds_def startsWith_def
      line_terminator_def trim_def space_char_def present_def Let_def new_grant_store_def getAuthoritySubject_def
      install_subject_def stored_subject_ok_def no_nul_def max_safe_integer_def)

lemma install_rows [simp]:
  "db_grants (st_db install_store) = [issued_row install_input ''i1'' 5]"
  "db_subjects (st_db install_store) = [install_subject]"
  by (simp_all add: install_store_def install_created install_issued) (simp_all add: new_grant_store_def)

lemma wf_install [simp]: "wf_db (st_db install_store)"
  unfolding install_store_def by (rule wf_calls) simp

definition install_context :: authorization_context where
  "install_context = demo_context\<lparr>ac_installation := Some \<lparr>if_binding = \<lparr>sb_subject = ''installation:f'',
     sb_generation = 1, sb_documentId = None\<rparr>, if_codePrincipal = ''code:a@1''\<rparr>\<rparr>"

theorem withdrawn_subject_stays_withdrawn_witness:
  "\<not> grantConstraintsMatch (rowToGrant ((issued_row install_input ''i1'' 5)\<lparr>gr_revoked_at := Some 9\<rparr>))
     install_context None None"
proof -
  let ?r = "(issued_row install_input ''i1'' 5)\<lparr>gr_revoked_at := Some 9\<rparr>"
  let ?b = "install_subject\<lparr>su_generation := 1\<rparr>"
  let ?st = "exec_calls [] (snd (invalidateAuthoritySubject ''installation:f'' 9 install_store))"
  have subject: "gr_subject (issued_row install_input ''i1'' 5) = ''installation:f''"
    "gr_revoked_at (issued_row install_input ''i1'' 5) = None"
    by (simp_all add: issued_row_def install_input_def)
  have r: "?r \<in> set (db_grants (st_db ?st))"
    by (simp add: invalidate_db sql_update_def subject)
  have b: "?b \<in> set (db_subjects (st_db ?st))" "su_subject ?b = ''installation:f''"
    by (simp_all add: invalidate_db sql_update_def) (simp_all add: install_subject_def)
  have binding: "subject_binding_of install_context (rowToGrant ?r) =
      Some \<lparr>sb_subject = ''installation:f'', sb_generation = 1, sb_documentId = None\<rparr>"
    by (simp add: subject_binding_of_def rowToGrant_def subject startsWith_def install_context_def)
  show ?thesis
    by (rule withdrawn_subject_stays_withdrawn [OF wf_install _ refl r _ _ b binding])
      (simp_all add: continuing_subject_def startsWith_def subject)
qed

end
