(* ===== verification/GrantStoreTx.thy ===== *)
theory GrantStoreTx
  imports GrantStoreLaws
begin

text \<open>
  Nested transactions of the grant store against a flat reading: the rollback of an install
  clearance runs one revocation transaction per issued grant inside its own, and comes out as
  one change of the tables with the withdrawals delivered in order after the commit.
\<close>

definition open_row :: "string \<Rightarrow> grant_row \<Rightarrow> bool" where
  "open_row i r \<longleftrightarrow> gr_id r = i \<and> gr_revoked_at r = None"

text \<open>A revocation on plain rows: the rows afterwards and the withdrawals announced so far.\<close>

definition revoke_flat ::
  "int \<Rightarrow> string \<Rightarrow> grant_row list \<times> live_effect list \<Rightarrow> grant_row list \<times> live_effect list" where
  "revoke_flat now i s =
     (sql_update (open_row i) (\<lambda>r. r\<lparr>gr_revoked_at := Some now\<rparr>) (fst s),
      snd s @ (case find (open_row i) (fst s) of None \<Rightarrow> [] | Some r \<Rightarrow> [Withdrawn (rowToGrant r) now]))"

definition unrevoke_flat :: "int option \<Rightarrow> string \<Rightarrow> grant_row list \<Rightarrow> grant_row list" where
  "unrevoke_flat retiredAt i = sql_update (\<lambda>r. gr_id r = i \<and>
     (case retiredAt of None \<Rightarrow> True | Some t \<Rightarrow> gr_revoked_at r = Some t)) (\<lambda>r. r\<lparr>gr_revoked_at := None\<rparr>)"

lemma open_row_count:
  assumes "distinct (map gr_id rows)"
  shows "changes (open_row i) rows = (case find (open_row i) rows of None \<Rightarrow> 0 | Some r \<Rightarrow> 1)"
proof (cases "find (open_row i) rows")
  case None
  then show ?thesis using find_NoneD [of "open_row i" rows] by (simp add: changes_def filter_empty_conv)
next
  case (Some r)
  have "distinct (map gr_id (filter (open_row i) rows))" using assms by (rule distinct_map_filter)
  moreover have "set (map gr_id (filter (open_row i) rows)) \<subseteq> {i}" by (auto simp: open_row_def)
  ultimately have "length (filter (open_row i) rows) \<le> 1"
    by (metis card_mono distinct_card finite.emptyI finite.insertI is_singletonI is_singleton_altdef length_map)
  moreover have "filter (open_row i) rows \<noteq> []" using find_SomeD [OF Some] by (auto simp: filter_empty_conv)
  ultimately have "length (filter (open_row i) rows) = 1" by (simp add: le_Suc_eq)
  then show ?thesis using Some by (simp add: changes_def)
qed

lemma find_by_id:
  assumes "distinct (map gr_id rows)" and "r \<in> set rows" and "gr_id r = i"
  shows "find (\<lambda>g. ag_id g = Some i) (map rowToGrant (newest_first rows)) = Some (rowToGrant r)"
proof (cases "find (\<lambda>g. ag_id g = Some i) (map rowToGrant (newest_first rows))")
  case None
  then have "\<forall>r \<in> set rows. gr_id r \<noteq> i" by (auto simp: find_NoneD rowToGrant_def)
  with assms show ?thesis by blast
next
  case (Some g)
  then obtain r' where "r' \<in> set rows" "g = rowToGrant r'" "gr_id r' = i"
    by (auto dest!: find_SomeD simp: rowToGrant_def)
  moreover have "r' = r" using assms calculation by (metis distinct_map inj_onD)
  ultimately show ?thesis using Some by simp
qed

text \<open>A revocation nested in a transaction.\<close>

lemma revoke_nested:
  assumes wf: "wf_db (st_db st)" and pending: "st_pending st = Some es"
  shows "revoke i now st = (Inr (find (open_row i) (db_grants (st_db st)) \<noteq> None),
    st\<lparr>st_db := with_rows (st_db st) (fst (revoke_flat now i (db_grants (st_db st), es))),
       st_pending := Some (snd (revoke_flat now i (db_grants (st_db st), es)))\<rparr>)"
proof -
  let ?rows = "db_grants (st_db st)"
  let ?st = "st\<lparr>st_pending := Some []\<rparr>"
  have distinct: "distinct (map gr_id ?rows)" using wf by (simp add: wf_db_def)
  have list: "listAuthorityGrants ?st = Inr (map rowToGrant (newest_first ?rows))"
    using wf_list_grants [of ?st] wf by simp
  have count: "unrevoked (\<lambda>r. gr_id r = i) ?st = changes (open_row i) ?rows"
    by (simp add: unrevoked_def open_row_def [abs_def])
  have rows: "revoke_rows (\<lambda>r. gr_id r = i) now ?st =
      ?st\<lparr>st_db := with_rows (st_db st) (sql_update (open_row i) (\<lambda>r. r\<lparr>gr_revoked_at := Some now\<rparr>) ?rows)\<rparr>"
    by (simp add: revoke_rows_def update_grants_def open_row_def [abs_def] with_rows_def)
  show ?thesis
  proof (cases "find (open_row i) ?rows")
    case None
    then show ?thesis
      using pending list count rows open_row_count [OF distinct, of i]
      by (simp add: revoke_def transaction_def Let_def revoke_flat_def split: option.split)
  next
    case (Some r)
    then have r: "r \<in> set ?rows" "gr_id r = i" by (auto dest: find_SomeD simp: open_row_def)
    show ?thesis
      using pending list count rows open_row_count [OF distinct, of i] find_by_id [OF distinct r] Some
      by (simp add: revoke_def transaction_def Let_def revoke_flat_def emit_withdrawals_def
          afterCommit_def)
  qed
qed

lemma wf_revoke: "wf_db (st_db st) \<Longrightarrow> wf_db (st_db (snd (revoke i now st)))"
  using wf_calls [of st "[Revoke i now]"] by simp

lemma revoke_each_nested:
  assumes "wf_db (st_db st)" and "st_pending st = Some es"
  shows "revoke_each is now st = (Inr (),
    st\<lparr>st_db := with_rows (st_db st) (fst (fold (revoke_flat now) is (db_grants (st_db st), es))),
       st_pending := Some (snd (fold (revoke_flat now) is (db_grants (st_db st), es)))\<rparr>)"
  using assms
proof (induction "is" arbitrary: st es)
  case (Cons i "is")
  note step = revoke_nested [OF Cons.prems, of i now]
  let ?st' = "snd (revoke i now st)"
  have wf': "wf_db (st_db ?st')" using wf_revoke Cons.prems(1) by blast
  have "revoke_each is now ?st' = (Inr (),
      ?st'\<lparr>st_db := with_rows (st_db ?st') (fst (fold (revoke_flat now) is (db_grants (st_db ?st'), snd (revoke_flat now i (db_grants (st_db st), es))))),
         st_pending := Some (snd (fold (revoke_flat now) is (db_grants (st_db ?st'), snd (revoke_flat now i (db_grants (st_db st), es)))))\<rparr>)"
    by (rule Cons.IH [OF wf']) (simp add: step)
  then show ?case by (simp add: step with_rows_def)
qed (simp add: with_rows_def)

lemma unrevoke_row_flat:
  "fold (unrevoke_row t) is st =
     st\<lparr>st_db := with_rows (st_db st) (fold (unrevoke_flat t) is (db_grants (st_db st)))\<rparr>"
  by (induction "is" arbitrary: st)
    (simp_all add: unrevoke_row_def unrevoke_flat_def update_grants_def with_rows_def)

text \<open>
  C15. The rollback of an install clearance is one atomic change. On a well-formed store outside
  any transaction it never fails; the nested revocation transactions and the restorations come
  out as their flat sequence on the rows, nothing else in the tables changes, and the
  withdrawals are delivered in the order of the issued grants, one for each that was in force.
  A transaction whose work fails leaves the tables and the pending effects as they were.
\<close>

theorem install_rollback_atomic:
  assumes "wf_db (st_db st)" and "st_pending st = None"
  shows "(let res = fold (revoke_flat now) issued (db_grants (st_db st), []) in
     rollbackInstallClearance issued restored retiredAt now st =
       (Inr (), st\<lparr>st_db := with_rows (st_db st) (fold (unrevoke_flat retiredAt) restored (fst res)),
                 st_log := st_log st @ snd res\<rparr>))
   \<and> (fst (transaction work st') = Inl e \<longrightarrow>
        st_db (snd (transaction work st')) = st_db st' \<and> st_pending (snd (transaction work st')) = st_pending st')"
proof (intro conjI impI)
  let ?res = "fold (revoke_flat now) issued (db_grants (st_db st), [])"
  have "revoke_each issued now (st\<lparr>st_pending := Some []\<rparr>) =
      (Inr (), st\<lparr>st_db := with_rows (st_db st) (fst ?res), st_pending := Some (snd ?res)\<rparr>)"
    using revoke_each_nested [of "st\<lparr>st_pending := Some []\<rparr>" "[]" issued now] assms(1) by simp
  then show "let res = ?res in rollbackInstallClearance issued restored retiredAt now st =
       (Inr (), st\<lparr>st_db := with_rows (st_db st) (fold (unrevoke_flat retiredAt) restored (fst res)),
                 st_log := st_log st @ snd res\<rparr>)"
    using assms(2)
    by (cases "issued = [] \<and> restored = []")
      (auto simp: rollbackInstallClearance_def transaction_def Let_def unrevoke_row_flat with_rows_def)
next
  assume "fst (transaction work st') = Inl e"
  then show "st_db (snd (transaction work st')) = st_db st'" and "st_pending (snd (transaction work st')) = st_pending st'"
    by (auto simp: transaction_def Let_def split: prod.splits sum.splits option.splits)
qed

theorem install_rollback_atomic_witness:
  "rollbackInstallClearance [''c1'', ''c1''] [] None 9 sample_store =
     (Inr (), sample_store\<lparr>st_db := with_rows (st_db sample_store)
        [(issued_row sample_input ''c1'' 5)\<lparr>gr_revoked_at := Some 9\<rparr>],
        st_log := st_log sample_store @ [Withdrawn (issued_grant sample_input ''c1'' 5) 9]\<rparr>)"
proof -
  have wf: "wf_db (st_db sample_store)"
    using wf_calls [of new_grant_store "[Issue 5 [] sample_input]"] by (simp add: sample_store_def)
  have idle: "st_pending sample_store = None"
    by (simp add: sample_store_def sample_issued) (simp add: new_grant_store_def)
  have "fold (revoke_flat 9) [''c1'', ''c1''] (db_grants (st_db sample_store), []) =
      ([(issued_row sample_input ''c1'' 5)\<lparr>gr_revoked_at := Some 9\<rparr>], [Withdrawn (issued_grant sample_input ''c1'' 5) 9])"
    by (simp add: revoke_flat_def open_row_def sql_update_def issued_reads_back)
  with install_rollback_atomic [OF wf idle, of 9 "[''c1'', ''c1'']" "[]" None, THEN conjunct1] show ?thesis
    by (simp add: Let_def)
qed

end
