(* ===== verification/AcquisitionStore.thy ===== *)
theory AcquisitionStore
  imports SharedJson Sha256 GrantStore "HOL-Library.Product_Lexorder" "HOL-Library.List_Lexorder"
begin

text \<open>
  Authority acquisitions (\<^verbatim>\<open>src/server/services/authorityAcquisitionStore.ts\<close>): asks for authority
  that an owner (a runtime in an execution session) keeps open until they are decided, with
  content digests over what was asked and what was answered. The two tables share the database
  and the transaction of the grant store. A column of text holds a JavaScript string as SQLite
  keeps it, in UTF-8; a column of JSON holds the value that \<open>JSON.parse\<close> gives back; the columns of
  a receipt are written together and are one group.
\<close>

subsection \<open>Rows and records\<close>

datatype continuation = InBand | OwnerRedrive

datatype outcome = Decided | Closed | Failed

datatype acq_state = Pending | Settled outcome

record acq_owner =
  ow_runtime :: ustring
  ow_session :: ustring

record 'n admission = acq_owner +
  am_requestKey :: ustring
  am_facts :: "'n json"

type_synonym 'n resolution = "outcome \<times> 'n json"

record 'n receipt =
  rc_decision :: "'n json"
  rc_decisionDigest :: ustring
  rc_resolution :: "'n resolution"
  rc_resolutionDigest :: ustring
  rc_settledAt :: int

record 'n acq_row =
  aq_id :: ustring
  aq_requestKey :: ustring
  aq_runtime :: ustring
  aq_session :: ustring
  aq_binding :: "'n admission"
  aq_bindingDigest :: ustring
  aq_delivery :: continuation
  aq_state :: acq_state
  aq_receipt :: "'n receipt option"
  aq_createdAt :: int
  aq_acknowledgedAt :: "int option"
  aq_supersededAt :: "int option"

type_synonym owner_key = "ustring \<times> ustring"

text \<open>The owners with their \<open>retired_at\<close>.\<close>

record 'n acq_db =
  ad_owners :: "(owner_key, int option) jsmap"
  ad_rows :: "'n acq_row list"

text \<open>A record as it is read; the receipt is present unless the ask is pending.\<close>

record 'n acq_record =
  ac_id :: ustring
  ac_admission :: "'n admission"
  ac_bindingDigest :: ustring
  ac_delivery :: continuation
  ac_createdAt :: int
  ac_state :: acq_state
  ac_receipt :: "'n receipt option"
  ac_acknowledgedAt :: "int option"
  ac_supersededAt :: "int option"

datatype acq_error =
    OwnerNotExact | BadRequestKey | NotJson | Json json_error | OwnerAbsentOrRetired
  | ReplayChangedFacts | BindingMismatch | DifferentDecision | UnknownAcquisition
  | AcknowledgementMismatch | NotOwned | AdmissionUnverified | ReceiptUnverified | BadResolution
  | BadPageLimit | BadPageCursor | BadSession | BadRuntime | DuplicateAcquisition
  | WriteFailed store_error

text \<open>What a text column gives back: a lone surrogate has become \<open>U+FFFD\<close>.\<close>

definition sql_text :: "ustring \<Rightarrow> ustring" where
  "sql_text s = concat (map scalar_units (scalar_values s))"

definition owner_key :: "'z acq_owner_scheme \<Rightarrow> owner_key" where
  "owner_key ow = (sql_text (ow_runtime ow), sql_text (ow_session ow))"

definition row_owner :: "'n acq_row \<Rightarrow> acq_owner" where
  "row_owner r = \<lparr>ow_runtime = aq_runtime r, ow_session = aq_session r\<rparr>"

definition row_key :: "'n acq_row \<Rightarrow> owner_key" where
  "row_key r = (aq_runtime r, aq_session r)"

subsection \<open>Content digests\<close>

text \<open>\<open>!s?.trim() || s.includes("\0")\<close>.\<close>

definition blank_or_nul :: "ustring \<Rightarrow> bool" where
  "blank_or_nul s \<longleftrightarrow> js_trim s = [] \<or> 0 \<in> set s"

definition exact_owner :: "'z acq_owner_scheme \<Rightarrow> bool" where
  "exact_owner ow \<longleftrightarrow> \<not> blank_or_nul (ow_runtime ow) \<and> \<not> blank_or_nul (ow_session ow)"

definition canonical :: "'n json_env \<Rightarrow> 'n json \<Rightarrow> acq_error + ustring" where
  "canonical env v = (case sharedCanonicalJson env v of Inl e \<Rightarrow> Inl (Json e) | Inr t \<Rightarrow> Inr t)"

definition acquisition_digest :: "'n json_env \<Rightarrow> string \<Rightarrow> 'n json \<Rightarrow> acq_error + ustring" where
  "acquisition_digest env kind v =
     (case canonical env v of
        Inl e \<Rightarrow> Inl e
      | Inr t \<Rightarrow> Inr (sha256Hex (utf8 (ascii (''authority-acquisition-'' @ kind @ ''-v1'') @ [0]) @ utf8 t)))"

definition admission_json :: "'n admission \<Rightarrow> 'n json" where
  "admission_json a = JObject [(ascii ''ownerRuntimeId'', JString (ow_runtime a)), (ascii ''sessionId'', JString (ow_session a)),
     (ascii ''requestKey'', JString (am_requestKey a)), (ascii ''facts'', am_facts a)]"

definition binding_digest :: "'n json_env \<Rightarrow> ustring \<Rightarrow> int \<Rightarrow> 'n admission \<Rightarrow> acq_error + ustring" where
  "binding_digest env i at a = acquisition_digest env ''binding''
     (JObject [(ascii ''acquisitionId'', JString i), (ascii ''createdAt'', JNumber (je_int env at)),
       (ascii ''admission'', admission_json a)])"

fun outcome_text :: "outcome \<Rightarrow> ustring" where
  "outcome_text Decided = ascii ''decided''"
| "outcome_text Closed = ascii ''closed''"
| "outcome_text Failed = ascii ''failed''"

definition resolution_json :: "'n resolution \<Rightarrow> 'n json" where
  "resolution_json r = JObject [(ascii ''state'', JString (outcome_text (fst r))), (ascii ''value'', snd r)]"

definition decision_digest :: "'n json_env \<Rightarrow> ustring \<Rightarrow> ustring \<Rightarrow> 'n json \<Rightarrow> acq_error + ustring" where
  "decision_digest env i binding d = acquisition_digest env ''decision''
     (JObject [(ascii ''acquisitionId'', JString i), (ascii ''bindingDigest'', JString binding), (ascii ''decision'', d)])"

definition resolution_digest :: "'n json_env \<Rightarrow> ustring \<Rightarrow> ustring \<Rightarrow> ustring \<Rightarrow> 'n resolution \<Rightarrow> acq_error + ustring" where
  "resolution_digest env i binding dd r = acquisition_digest env ''resolution''
     (JObject [(ascii ''acquisitionId'', JString i), (ascii ''bindingDigest'', JString binding),
       (ascii ''decisionDigest'', JString dd), (ascii ''resolution'', resolution_json r)])"

text \<open>\<open>JSON.parse(canonicalJson(v))\<close>, what a canonical column gives back.\<close>

definition canonical_value :: "'n json_env \<Rightarrow> 'n json \<Rightarrow> acq_error + 'n json" where
  "canonical_value env v =
     (case normalize_json env v of
        Inl e \<Rightarrow> Inl (Json e)
      | Inr w \<Rightarrow> if w = JUndefined then Inl (Json UndefinedRoot) else Inr (reparse env w))"

text \<open>\<open>requireResolution\<close>; the three states are the type's.\<close>

definition requireResolution :: "'n json_env \<Rightarrow> 'n resolution \<Rightarrow> acq_error + unit" where
  "requireResolution env r =
     (if snd r = JUndefined then Inl BadResolution
      else if \<not> json_value env (snd r) then Inl NotJson
      else case canonical env (resolution_json r) of Inl e \<Rightarrow> Inl e | Inr _ \<Rightarrow> Inr ())"

subsection \<open>Reading\<close>

text \<open>The part of \<open>owned\<close> that checks a receipt.\<close>

definition verified_receipt :: "'n json_env \<Rightarrow> 'n acq_row \<Rightarrow> outcome \<Rightarrow> acq_error + 'n receipt" where
  "verified_receipt env row oc =
     (case aq_receipt row of
        None \<Rightarrow> Inl BadResolution
      | Some rc \<Rightarrow>
          (case requireResolution env (rc_resolution rc) of
             Inl e \<Rightarrow> Inl e
           | Inr _ \<Rightarrow>
               (case decision_digest env (aq_id row) (aq_bindingDigest row) (rc_decision rc) of
                  Inl e \<Rightarrow> Inl e
                | Inr dd \<Rightarrow>
                    (case resolution_digest env (aq_id row) (aq_bindingDigest row) dd (rc_resolution rc) of
                       Inl e \<Rightarrow> Inl e
                     | Inr rd \<Rightarrow>
                         if dd \<noteq> rc_decisionDigest rc \<or> rd \<noteq> rc_resolutionDigest rc \<or> fst (rc_resolution rc) \<noteq> oc
                         then Inl ReceiptUnverified else Inr rc))))"

definition record_of :: "'n acq_row \<Rightarrow> 'n receipt option \<Rightarrow> 'n acq_record" where
  "record_of row receipt = \<lparr>ac_id = aq_id row, ac_admission = aq_binding row, ac_bindingDigest = aq_bindingDigest row,
     ac_delivery = aq_delivery row, ac_createdAt = aq_createdAt row, ac_state = aq_state row, ac_receipt = receipt,
     ac_acknowledgedAt = aq_acknowledgedAt row, ac_supersededAt = aq_supersededAt row\<rparr>"

definition owned :: "'n json_env \<Rightarrow> 'n acq_row \<Rightarrow> 'z acq_owner_scheme \<Rightarrow> acq_error + 'n acq_record" where
  "owned env row ow =
     (if \<not> exact_owner ow then Inl OwnerNotExact
      else if aq_runtime row \<noteq> ow_runtime ow \<or> aq_session row \<noteq> ow_session ow then Inl NotOwned
      else case binding_digest env (aq_id row) (aq_createdAt row) (aq_binding row) of
        Inl e \<Rightarrow> Inl e
      | Inr d \<Rightarrow>
          if d \<noteq> aq_bindingDigest row \<or> am_requestKey (aq_binding row) \<noteq> aq_requestKey row \<or>
             ow_runtime (aq_binding row) \<noteq> ow_runtime ow \<or> ow_session (aq_binding row) \<noteq> ow_session ow
          then Inl AdmissionUnverified
          else case aq_state row of
            Pending \<Rightarrow> Inr (record_of row None)
          | Settled oc \<Rightarrow>
              (case verified_receipt env row oc of
                 Inl e \<Rightarrow> Inl e
               | Inr rc \<Rightarrow> Inr (record_of row (Some rc))))"

definition owned_option :: "'n json_env \<Rightarrow> 'z acq_owner_scheme \<Rightarrow> 'n acq_row option \<Rightarrow> acq_error + 'n acq_record option" where
  "owned_option env ow row =
     (case row of
        None \<Rightarrow> Inr None
      | Some r \<Rightarrow> (case owned env r ow of Inl e \<Rightarrow> Inl e | Inr a \<Rightarrow> Inr (Some a)))"

definition is_current :: "ustring \<Rightarrow> 'n acq_row \<Rightarrow> bool" where
  "is_current key r \<longleftrightarrow> aq_requestKey r = sql_text key \<and> aq_supersededAt r = None"

definition current_acquisition :: "'n json_env \<Rightarrow> ustring \<Rightarrow> 'z acq_owner_scheme \<Rightarrow> 'n acq_db \<Rightarrow> acq_error + 'n acq_record option" where
  "current_acquisition env key ow db = owned_option env ow (List.find (is_current key) (ad_rows db))"

definition get_acquisition :: "'n json_env \<Rightarrow> ustring \<Rightarrow> 'z acq_owner_scheme \<Rightarrow> 'n acq_db \<Rightarrow> acq_error + 'n acq_record option" where
  "get_acquisition env i ow db = owned_option env ow (List.find (\<lambda>r. aq_id r = sql_text i) (ad_rows db))"

definition require_acquisition :: "'n json_env \<Rightarrow> ustring \<Rightarrow> 'z acq_owner_scheme \<Rightarrow> 'n acq_db \<Rightarrow> acq_error + 'n acq_record" where
  "require_acquisition env i ow db =
     (case get_acquisition env i ow db of
        Inl e \<Rightarrow> Inl e
      | Inr None \<Rightarrow> Inl UnknownAcquisition
      | Inr (Some a) \<Rightarrow> Inr a)"

definition requireActiveOwner :: "'z acq_owner_scheme \<Rightarrow> 'n acq_db \<Rightarrow> acq_error + unit" where
  "requireActiveOwner ow db =
     (if \<not> exact_owner ow then Inl OwnerNotExact
      else if map_of (ad_owners db) (owner_key ow) = Some None then Inr () else Inl OwnerAbsentOrRetired)"

end
