(* ===== verification/AcquisitionOps.thy ===== *)
theory AcquisitionOps
  imports AcquisitionStore
begin

text \<open>
  The methods of the acquisition store (\<^verbatim>\<open>src/server/services/authorityAcquisitionStore.ts\<close>). A
  method that writes runs in the transaction of the grant store: a thrown error leaves both
  stores as they were. The clock, the fresh UUID and what a decision writes are arguments.
\<close>

record 'n acq_store =
  as_db :: "'n acq_db"
  as_grants :: grant_store

type_synonym ('n, 'a) acq_op = "'n acq_store \<Rightarrow> (acq_error + 'a) \<times> 'n acq_store"

text \<open>\<open>this.transaction\<close>: the grant store's, over both tables.\<close>

definition acq_transaction :: "('n, 'a) acq_op \<Rightarrow> ('n, 'a) acq_op" where
  "acq_transaction work st =
     (case transaction (\<lambda>g.
             (case work (st\<lparr>as_grants := g\<rparr>) of
                (Inl e, st') \<Rightarrow> (Inl e, as_grants st')
              | (Inr a, st') \<Rightarrow> (Inr (a, as_db st'), as_grants st'))) (as_grants st) of
        (Inl e, g) \<Rightarrow> (Inl e, st\<lparr>as_grants := g\<rparr>)
      | (Inr (a, db), g) \<Rightarrow> (Inr a, \<lparr>as_db = db, as_grants = g\<rparr>))"

text \<open>A method that reads or writes only the tables of acquisitions.\<close>

definition on_db :: "('n acq_db \<Rightarrow> acq_error + 'a \<times> 'n acq_db) \<Rightarrow> ('n, 'a) acq_op" where
  "on_db f st =
     (case f (as_db st) of
        Inl e \<Rightarrow> (Inl e, st)
      | Inr (a, db) \<Rightarrow> (Inr a, st\<lparr>as_db := db\<rparr>))"

definition update_rows :: "('n acq_row \<Rightarrow> bool) \<Rightarrow> ('n acq_row \<Rightarrow> 'n acq_row) \<Rightarrow> 'n acq_db \<Rightarrow> 'n acq_db" where
  "update_rows p f db = db\<lparr>ad_rows := sql_update p f (ad_rows db)\<rparr>"

subsection \<open>Asking\<close>

definition insert_owner :: "owner_key \<Rightarrow> 'n acq_db \<Rightarrow> 'n acq_db" where
  "insert_owner k db = (if jhas (ad_owners db) k then db else db\<lparr>ad_owners := ad_owners db @ [(k, None)]\<rparr>)"

definition admit_row :: "ustring \<Rightarrow> 'n admission \<Rightarrow> 'n json_env \<Rightarrow> ustring \<Rightarrow> int \<Rightarrow> continuation \<Rightarrow> 'n acq_row" where
  "admit_row i inp env d now delivery =
     \<lparr>aq_id = sql_text i, aq_requestKey = sql_text (am_requestKey inp), aq_runtime = sql_text (ow_runtime inp),
      aq_session = sql_text (ow_session inp), aq_binding = inp\<lparr>am_facts := reparse env (am_facts inp)\<rparr>,
      aq_bindingDigest = d, aq_delivery = delivery, aq_state = Pending, aq_receipt = None, aq_createdAt = now,
      aq_acknowledgedAt = None, aq_supersededAt = None\<rparr>"

definition admit_new :: "'n json_env \<Rightarrow> ustring \<Rightarrow> 'n admission \<Rightarrow> int \<Rightarrow> continuation \<Rightarrow> 'n acq_db \<Rightarrow>
    acq_error + 'n acq_record \<times> 'n acq_db" where
  "admit_new env uuid inp now delivery db =
     (let i = ascii ''acq:'' @ uuid in
      case binding_digest env i now inp of
        Inl e \<Rightarrow> Inl e
      | Inr d \<Rightarrow>
          if sql_text i \<in> aq_id ` set (ad_rows db) then Inl DuplicateAcquisition
          else
            let db' = db\<lparr>ad_rows := ad_rows db @ [admit_row i inp env d now delivery]\<rparr>
            in case require_acquisition env i inp db' of
                 Inl e \<Rightarrow> Inl e
               | Inr a \<Rightarrow> Inr (a, db'))"

definition admit_in :: "'n json_env \<Rightarrow> ustring \<Rightarrow> 'n admission \<Rightarrow> int \<Rightarrow> continuation \<Rightarrow> ustring \<Rightarrow> 'n acq_db \<Rightarrow>
    acq_error + 'n acq_record \<times> 'n acq_db" where
  "admit_in env uuid inp now delivery binding db0 =
     (let db = insert_owner (owner_key inp) db0 in
      case requireActiveOwner inp db of
        Inl e \<Rightarrow> Inl e
      | Inr _ \<Rightarrow>
          (case current_acquisition env (am_requestKey inp) inp db of
             Inl e \<Rightarrow> Inl e
           | Inr (Some existing) \<Rightarrow>
               (case canonical env (admission_json (ac_admission existing)) of
                  Inl e \<Rightarrow> Inl e
                | Inr t \<Rightarrow> if t \<noteq> binding then Inl ReplayChangedFacts else Inr (existing, db))
           | Inr None \<Rightarrow> admit_new env uuid inp now delivery db))"

definition admit :: "'n json_env \<Rightarrow> ustring \<Rightarrow> 'n admission \<Rightarrow> int \<Rightarrow> continuation \<Rightarrow> ('n, 'n acq_record) acq_op" where
  "admit env uuid inp now delivery st =
     (if \<not> exact_owner inp then (Inl OwnerNotExact, st)
      else if blank_or_nul (am_requestKey inp) then (Inl BadRequestKey, st)
      else if \<not> json_value env (am_facts inp) then (Inl NotJson, st)
      else case canonical env (admission_json inp) of
        Inl e \<Rightarrow> (Inl e, st)
      | Inr binding \<Rightarrow> acq_transaction (on_db (admit_in env uuid inp now delivery binding)) st)"

subsection \<open>Deciding\<close>

definition settled_row :: "outcome \<Rightarrow> 'n receipt \<Rightarrow> 'n acq_row \<Rightarrow> 'n acq_row" where
  "settled_row oc rc r = r\<lparr>aq_state := Settled oc, aq_receipt := Some rc\<rparr>"

definition storeResolution :: "'n json_env \<Rightarrow> 'n acq_record \<Rightarrow> 'n json \<Rightarrow> 'n resolution \<Rightarrow> int \<Rightarrow> 'n acq_db \<Rightarrow>
    acq_error + 'n acq_db" where
  "storeResolution env a decision resolution now db =
     (case decision_digest env (ac_id a) (ac_bindingDigest a) decision of
        Inl e \<Rightarrow> Inl e
      | Inr dd \<Rightarrow>
          (case resolution_digest env (ac_id a) (ac_bindingDigest a) dd resolution of
             Inl e \<Rightarrow> Inl e
           | Inr rd \<Rightarrow>
               (case canonical_value env decision of
                  Inl e \<Rightarrow> Inl e
                | Inr d \<Rightarrow>
                    (case canonical_value env (snd resolution) of
                       Inl e \<Rightarrow> Inl e
                     | Inr v \<Rightarrow>
                         Inr (update_rows (\<lambda>r. aq_id r = ac_id a \<and> aq_state r = Pending)
                           (settled_row (fst resolution) \<lparr>rc_decision = d, rc_decisionDigest = dd,
                             rc_resolution = (fst resolution, v), rc_resolutionDigest = rd, rc_settledAt = now\<rparr>) db)))))"

text \<open>The part of \<open>resolve\<close> before the decision is written: the receipt there is already, or the
  pending record.\<close>

definition resolve_check :: "'n json_env \<Rightarrow> ustring \<Rightarrow> 'z acq_owner_scheme \<Rightarrow> ustring \<Rightarrow> 'n json \<Rightarrow> 'n acq_db \<Rightarrow>
    acq_error + 'n acq_record" where
  "resolve_check env i ow bindingDigest decision db =
     (case requireActiveOwner ow db of
        Inl e \<Rightarrow> Inl e
      | Inr _ \<Rightarrow>
          (case require_acquisition env i ow db of
             Inl e \<Rightarrow> Inl e
           | Inr a \<Rightarrow>
               if ac_bindingDigest a \<noteq> bindingDigest then Inl BindingMismatch
               else case canonical env decision of
                 Inl e \<Rightarrow> Inl e
               | Inr decisionJson \<Rightarrow>
                   (case ac_receipt a of
                      None \<Rightarrow> Inr a
                    | Some rc \<Rightarrow>
                        (case canonical env (rc_decision rc) of
                           Inl e \<Rightarrow> Inl e
                         | Inr t \<Rightarrow> if t \<noteq> decisionJson then Inl DifferentDecision else Inr a))))"

definition resolve_in :: "'n json_env \<Rightarrow> ustring \<Rightarrow> 'z acq_owner_scheme \<Rightarrow> ustring \<Rightarrow> 'n json \<Rightarrow>
    'n resolution store_op \<Rightarrow> int \<Rightarrow> ('n, 'n acq_record) acq_op" where
  "resolve_in env i ow bindingDigest decision write now st =
     (case resolve_check env i ow bindingDigest decision (as_db st) of
        Inl e \<Rightarrow> (Inl e, st)
      | Inr a \<Rightarrow>
          if ac_state a \<noteq> Pending then (Inr a, st)
          else case write (as_grants st) of
            (Inl e, g) \<Rightarrow> (Inl (WriteFailed e), st\<lparr>as_grants := g\<rparr>)
          | (Inr resolution, g) \<Rightarrow>
              (case requireResolution env resolution of
                 Inl e \<Rightarrow> (Inl e, st\<lparr>as_grants := g\<rparr>)
               | Inr _ \<Rightarrow>
                   (case storeResolution env a decision resolution now (as_db st) of
                      Inl e \<Rightarrow> (Inl e, st\<lparr>as_grants := g\<rparr>)
                    | Inr db \<Rightarrow> (require_acquisition env i ow db, \<lparr>as_db = db, as_grants = g\<rparr>))))"

definition resolve :: "'n json_env \<Rightarrow> ustring \<Rightarrow> 'z acq_owner_scheme \<Rightarrow> ustring \<Rightarrow> 'n json \<Rightarrow>
    'n resolution store_op \<Rightarrow> int \<Rightarrow> ('n, 'n acq_record) acq_op" where
  "resolve env i ow bindingDigest decision write now =
     acq_transaction (resolve_in env i ow bindingDigest decision write now)"

definition kind_json :: "string \<Rightarrow> 'n json" where
  "kind_json k = JObject [(ascii ''kind'', JString (ascii k))]"

definition withdraw_in :: "'n json_env \<Rightarrow> ustring \<Rightarrow> 'z acq_owner_scheme \<Rightarrow> ustring \<Rightarrow> int \<Rightarrow> 'n acq_db \<Rightarrow>
    acq_error + 'n acq_record \<times> 'n acq_db" where
  "withdraw_in env i ow bindingDigest now db =
     (case require_acquisition env i ow db of
        Inl e \<Rightarrow> Inl e
      | Inr a \<Rightarrow>
          if ac_bindingDigest a \<noteq> bindingDigest then Inl BindingMismatch
          else if ac_state a \<noteq> Pending then Inr (a, db)
          else case requireActiveOwner ow db of
            Inl e \<Rightarrow> Inl e
          | Inr _ \<Rightarrow>
              (case storeResolution env a (kind_json ''owner-withdrawal'')
                      (Closed, JObject [(ascii ''state'', JString (ascii ''closed'')),
                         (ascii ''reason'', JString (ascii ''operation-ended''))]) now db of
                 Inl e \<Rightarrow> Inl e
               | Inr db' \<Rightarrow>
                   (case require_acquisition env i ow db' of
                      Inl e \<Rightarrow> Inl e
                    | Inr a' \<Rightarrow> Inr (a', db'))))"

definition withdraw :: "'n json_env \<Rightarrow> ustring \<Rightarrow> 'z acq_owner_scheme \<Rightarrow> ustring \<Rightarrow> int \<Rightarrow> ('n, 'n acq_record) acq_op" where
  "withdraw env i ow bindingDigest now = acq_transaction (on_db (withdraw_in env i ow bindingDigest now))"

subsection \<open>Delivering\<close>

definition acknowledge_in :: "'n json_env \<Rightarrow> ustring \<Rightarrow> 'z acq_owner_scheme \<Rightarrow> ustring \<Rightarrow> int \<Rightarrow> 'n acq_db \<Rightarrow>
    acq_error + unit \<times> 'n acq_db" where
  "acknowledge_in env i ow digest now db =
     (case require_acquisition env i ow db of
        Inl e \<Rightarrow> Inl e
      | Inr a \<Rightarrow>
          if ac_state a = Pending \<or> map_option rc_resolutionDigest (ac_receipt a) \<noteq> Some digest
          then Inl AcknowledgementMismatch
          else Inr ((), update_rows (\<lambda>r. aq_id r = sql_text i \<and> aq_acknowledgedAt r = None)
                 (\<lambda>r. r\<lparr>aq_acknowledgedAt := Some now\<rparr>) db))"

definition acknowledge :: "'n json_env \<Rightarrow> ustring \<Rightarrow> 'z acq_owner_scheme \<Rightarrow> ustring \<Rightarrow> int \<Rightarrow> ('n, unit) acq_op" where
  "acknowledge env i ow digest now = acq_transaction (on_db (acknowledge_in env i ow digest now))"

definition setDeliveryOwner_in :: "'n json_env \<Rightarrow> ustring \<Rightarrow> 'z acq_owner_scheme \<Rightarrow> continuation \<Rightarrow> 'n acq_db \<Rightarrow>
    acq_error + unit \<times> 'n acq_db" where
  "setDeliveryOwner_in env i ow delivery db =
     (case require_acquisition env i ow db of
        Inl e \<Rightarrow> Inl e
      | Inr a \<Rightarrow> Inr ((), update_rows (\<lambda>r. aq_id r = sql_text i) (\<lambda>r. r\<lparr>aq_delivery := delivery\<rparr>) db))"

definition setDeliveryOwner :: "'n json_env \<Rightarrow> ustring \<Rightarrow> 'z acq_owner_scheme \<Rightarrow> continuation \<Rightarrow> ('n, unit) acq_op" where
  "setDeliveryOwner env i ow delivery = acq_transaction (on_db (setDeliveryOwner_in env i ow delivery))"

definition supersede_in :: "'n json_env \<Rightarrow> ustring \<Rightarrow> 'z acq_owner_scheme \<Rightarrow> int \<Rightarrow> 'n acq_db \<Rightarrow>
    acq_error + bool \<times> 'n acq_db" where
  "supersede_in env key ow now db =
     (case requireActiveOwner ow db of
        Inl e \<Rightarrow> Inl e
      | Inr _ \<Rightarrow>
          (case current_acquisition env key ow db of
             Inl e \<Rightarrow> Inl e
           | Inr None \<Rightarrow> Inr (False, db)
           | Inr (Some a) \<Rightarrow>
               if ac_state a = Pending then Inr (False, db)
               else Inr (True, update_rows (\<lambda>r. aq_id r = ac_id a) (\<lambda>r. r\<lparr>aq_supersededAt := Some now\<rparr>) db)))"

definition supersede :: "'n json_env \<Rightarrow> ustring \<Rightarrow> 'z acq_owner_scheme \<Rightarrow> int \<Rightarrow> ('n, bool) acq_op" where
  "supersede env key ow now = acq_transaction (on_db (supersede_in env key ow now))"

end
