(* ===== verification/AcquisitionLife.thy ===== *)
theory AcquisitionLife
  imports AcquisitionOps
begin

text \<open>
  Traversals and retirement in the acquisition store
  (\<^verbatim>\<open>src/server/services/authorityAcquisitionStore.ts\<close>): the pages of the delivery reads, the decision
  of a shared target, the retirement of owners, sessions and runtimes. The loops over batches of
  64 rows are functions with their termination proofs.
\<close>

subsection \<open>Pages\<close>

text \<open>\<open>ORDER BY created_at, acquisition_id\<close> and the cursor of a page.\<close>

definition row_order :: "'n acq_row \<Rightarrow> int \<times> byte list" where
  "row_order r = (aq_createdAt r, utf8 (aq_id r))"

type_synonym cursor = "int \<times> ustring"

definition beyond :: "cursor option \<Rightarrow> 'n acq_row \<Rightarrow> bool" where
  "beyond after r \<longleftrightarrow> (case after of None \<Rightarrow> True | Some (at, i) \<Rightarrow> (at, utf8 i) < row_order r)"

text \<open>The join with the owners that are not retired.\<close>

definition live_owner :: "'n acq_db \<Rightarrow> 'n acq_row \<Rightarrow> bool" where
  "live_owner db r \<longleftrightarrow> map_of (ad_owners db) (row_key r) = Some None"

definition read_page :: "'n json_env \<Rightarrow> ('n acq_row \<Rightarrow> 'k :: linorder) \<Rightarrow> nat \<Rightarrow> ('n acq_row \<Rightarrow> bool) \<Rightarrow>
    ('n acq_row \<Rightarrow> 'z acq_owner_scheme) \<Rightarrow> 'n acq_db \<Rightarrow> acq_error + 'n acq_record list" where
  "read_page env order limit p ow db =
     all_ok (map (\<lambda>r. owned env r (ow r)) (take limit (sort_key order (filter p (ad_rows db)))))"

definition scan :: "'n json_env \<Rightarrow> bool \<Rightarrow> cursor option \<Rightarrow> 'n acq_db \<Rightarrow> acq_error + 'n acq_record list" where
  "scan env pendingOnly after db =
     read_page env row_order 64
       (\<lambda>r. live_owner db r \<and> (\<not> pendingOnly \<or> aq_state r = Pending) \<and> beyond after r) row_owner db"

definition is_outstanding :: "'z acq_owner_scheme \<Rightarrow> 'n acq_db \<Rightarrow> 'n acq_row \<Rightarrow> bool" where
  "is_outstanding ow db r \<longleftrightarrow> row_key r = owner_key ow \<and> aq_acknowledgedAt r = None \<and> live_owner db r"

definition safe_integer :: "int \<Rightarrow> bool" where
  "safe_integer n \<longleftrightarrow> \<bar>n\<bar> < 2 ^ 53"

definition outstanding :: "'n json_env \<Rightarrow> 'z acq_owner_scheme \<Rightarrow> int option \<Rightarrow> cursor option \<Rightarrow> 'n acq_db \<Rightarrow>
    acq_error + 'n acq_record list" where
  "outstanding env ow limit after db =
     (let n = (case limit of None \<Rightarrow> 64 | Some n \<Rightarrow> n) in
      if \<not> exact_owner ow then Inl OwnerNotExact
      else if n < 1 \<or> 256 < n then Inl BadPageLimit
      else if (case after of None \<Rightarrow> False | Some (at, i) \<Rightarrow> \<not> safe_integer at \<or> i = []) then Inl BadPageCursor
      else read_page env row_order (nat n) (\<lambda>r. is_outstanding ow db r \<and> beyond after r) (\<lambda>_. ow) db)"

text \<open>\<open>ORDER BY owner_runtime_id, session_id, created_at, acquisition_id\<close>.\<close>

definition delivery_order :: "'n acq_row \<Rightarrow> byte list \<times> byte list \<times> int \<times> byte list" where
  "delivery_order r = (utf8 (aq_runtime r), utf8 (aq_session r), row_order r)"

text \<open>\<open>AcquisitionDeliveryCursor\<close>: an owner and a cursor.\<close>

definition scanOutstandingTerminal :: "'n json_env \<Rightarrow> (acq_owner \<times> cursor) option \<Rightarrow> 'n acq_db \<Rightarrow>
    acq_error + 'n acq_record list" where
  "scanOutstandingTerminal env after db =
     (if (case after of None \<Rightarrow> False | Some (ow, _) \<Rightarrow> \<not> exact_owner ow) then Inl OwnerNotExact
      else if (case after of None \<Rightarrow> False | Some (_, at, i) \<Rightarrow> \<not> safe_integer at \<or> js_trim i = []) then Inl BadPageCursor
      else read_page env delivery_order 64
        (\<lambda>r. aq_acknowledgedAt r = None \<and> aq_state r \<noteq> Pending \<and> aq_delivery r = OwnerRedrive \<and> live_owner db r \<and>
          (case after of None \<Rightarrow> True
           | Some (ow, at, i) \<Rightarrow> (utf8 (ow_runtime ow), utf8 (ow_session ow), at, utf8 i) < delivery_order r))
        row_owner db)"

subsection \<open>Deciding a target\<close>

text \<open>\<open>json_extract(binding_json, '$.facts.<key>')\<close> as text: a string is itself, an object or an
  array is its JSON text, anything else is no text.\<close>

definition extract_fact :: "'n json_env \<Rightarrow> ustring \<Rightarrow> 'n acq_row \<Rightarrow> ustring option" where
  "extract_fact env key r =
     (case am_facts (aq_binding r) of
        JObject fs \<Rightarrow>
          (case map_of fs key of
             Some (JString s) \<Rightarrow> Some s
           | Some (JObject gs) \<Rightarrow> stringify (number_text_of env) (JObject gs)
           | Some (JArray vs) \<Rightarrow> stringify (number_text_of env) (JArray vs)
           | _ \<Rightarrow> None)
      | _ \<Rightarrow> None)"

definition joins_target :: "'n json_env \<Rightarrow> ustring \<Rightarrow> 'n acq_row \<Rightarrow> bool" where
  "joins_target env requestId r \<longleftrightarrow>
     extract_fact env (ascii ''targetRequestId'') r = Some (sql_text requestId) \<and>
     extract_fact env (ascii ''kind'') r = Some (ascii ''target-join'')"

definition pending_rows :: "('n acq_row \<Rightarrow> bool) \<Rightarrow> 'n acq_db \<Rightarrow> 'n acq_row list" where
  "pending_rows p db = filter (\<lambda>r. p r \<and> aq_state r = Pending) (ad_rows db)"

definition pending_batch :: "('n acq_row \<Rightarrow> bool) \<Rightarrow> 'n acq_db \<Rightarrow> 'n acq_row list" where
  "pending_batch p db = take 64 (sort_key row_order (pending_rows p db))"

fun settle_target_rows :: "'n json_env \<Rightarrow> 'n json \<Rightarrow> 'n resolution \<Rightarrow> int \<Rightarrow> 'n acq_row list \<Rightarrow> 'n acq_db \<Rightarrow>
    acq_error + 'n acq_db" where
  "settle_target_rows env decision resolution now [] db = Inr db"
| "settle_target_rows env decision resolution now (r # rs) db =
     (case owned env r (row_owner r) of
        Inl e \<Rightarrow> Inl e
      | Inr a \<Rightarrow>
          (case requireActiveOwner (ac_admission a) db of
             Inl e \<Rightarrow> Inl e
           | Inr _ \<Rightarrow>
               (case storeResolution env a decision resolution now db of
                  Inl e \<Rightarrow> Inl e
                | Inr db' \<Rightarrow> settle_target_rows env decision resolution now rs db')))"

fun store_records :: "'n json_env \<Rightarrow> 'n json \<Rightarrow> 'n resolution \<Rightarrow> int \<Rightarrow> 'n acq_record list \<Rightarrow> 'n acq_db \<Rightarrow>
    acq_error + 'n acq_db" where
  "store_records env decision resolution now [] db = Inr db"
| "store_records env decision resolution now (a # as) db =
     (case storeResolution env a decision resolution now db of
        Inl e \<Rightarrow> Inl e
      | Inr db' \<Rightarrow> store_records env decision resolution now as db')"

definition retire_batch :: "'n json_env \<Rightarrow> 'z acq_owner_scheme \<Rightarrow> int \<Rightarrow> 'n acq_row list \<Rightarrow> 'n acq_db \<Rightarrow>
    acq_error + 'n acq_db" where
  "retire_batch env ow now rs db =
     (case all_ok (map (\<lambda>r. owned env r ow) rs) of
        Inl e \<Rightarrow> Inl e
      | Inr as \<Rightarrow> store_records env (kind_json ''owner-retired'')
          (Closed, JObject [(ascii ''reason'', JString (ascii ''owner-retired''))]) now as db)"

text \<open>A stored resolution removes its row from the pending ones and adds none: each round of a
  loop over batches leaves fewer pending rows.\<close>

definition on_binding :: "('n acq_row \<Rightarrow> bool) \<Rightarrow> bool" where
  "on_binding p \<longleftrightarrow> (\<forall>r oc rc. p (settled_row oc rc r) = p r)"

lemma storeResolution_rows:
  "storeResolution env a decision resolution now db = Inr db' \<Longrightarrow>
     \<exists>rc. db' = update_rows (\<lambda>r. aq_id r = ac_id a \<and> aq_state r = Pending) (settled_row (fst resolution) rc) db"
  by (auto simp: storeResolution_def split: sum.splits)

lemma pending_settled:
  assumes "on_binding p"
  shows "pending_rows p (update_rows (\<lambda>r. aq_id r = i \<and> aq_state r = Pending) (settled_row oc rc) db) =
     filter (\<lambda>r. aq_id r \<noteq> i) (pending_rows p db)"
proof -
  have "filter (\<lambda>r. p r \<and> aq_state r = Pending)
      (sql_update (\<lambda>r. aq_id r = i \<and> aq_state r = Pending) (settled_row oc rc) rows) =
      filter (\<lambda>r. aq_id r \<noteq> i) (filter (\<lambda>r. p r \<and> aq_state r = Pending) rows)" for rows
    by (induction rows) (auto simp: sql_update_def settled_row_def)
  then show ?thesis by (simp add: pending_rows_def update_rows_def)
qed

lemma storeResolution_pending:
  assumes "on_binding p" and "storeResolution env a decision resolution now db = Inr db'"
  shows "pending_rows p db' = filter (\<lambda>r. aq_id r \<noteq> ac_id a) (pending_rows p db)"
  using storeResolution_rows [OF assms(2)] pending_settled [OF assms(1)] by auto

lemma owned_id: "owned env r ow = Inr a \<Longrightarrow> ac_id a = aq_id r"
  by (auto simp: owned_def record_of_def split: if_splits sum.splits acq_state.splits)

lemma store_records_pending:
  "on_binding p \<Longrightarrow> store_records env decision resolution now as db = Inr db' \<Longrightarrow>
     pending_rows p db' = filter (\<lambda>r. aq_id r \<notin> ac_id ` set as) (pending_rows p db)"
proof (induction as arbitrary: db)
  case (Cons a as)
  obtain d where d: "storeResolution env a decision resolution now db = Inr d" "store_records env decision resolution now as d = Inr db'"
    using Cons.prems(2) by (auto split: sum.splits)
  show ?case
    using Cons.IH [OF Cons.prems(1) d(2)] storeResolution_pending [OF Cons.prems(1) d(1)]
    by (auto intro: filter_cong)
qed simp

lemma settle_target_pending:
  "on_binding p \<Longrightarrow> settle_target_rows env decision resolution now rs db = Inr db' \<Longrightarrow>
     pending_rows p db' = filter (\<lambda>r. aq_id r \<notin> aq_id ` set rs) (pending_rows p db)"
proof (induction rs arbitrary: db)
  case (Cons r rs)
  obtain a d where d: "owned env r (row_owner r) = Inr a" "storeResolution env a decision resolution now db = Inr d"
      "settle_target_rows env decision resolution now rs d = Inr db'"
    using Cons.prems(2) by (auto split: sum.splits)
  show ?case
    using Cons.IH [OF Cons.prems(1) d(3)] storeResolution_pending [OF Cons.prems(1) d(2)] owned_id [OF d(1)]
    by (auto intro: filter_cong)
qed simp

lemma retire_batch_pending:
  assumes "on_binding p" and "retire_batch env ow now rs db = Inr db'"
  shows "pending_rows p db' = filter (\<lambda>r. aq_id r \<notin> aq_id ` set rs) (pending_rows p db)"
proof -
  obtain as where as: "map (\<lambda>r. owned env r ow) rs = map Inr as"
      "store_records env (kind_json ''owner-retired'')
          (Closed, JObject [(ascii ''reason'', JString (ascii ''owner-retired''))]) now as db = Inr db'"
    using assms(2) by (auto simp: retire_batch_def all_ok_Inr split: sum.splits)
  have "map ac_id as = map aq_id rs"
    using as(1) by (induction rs arbitrary: as) (auto simp: owned_id Cons_eq_map_conv)
  then have "ac_id ` set as = aq_id ` set rs" by (metis set_map)
  then show ?thesis using store_records_pending [OF assms(1) as(2)] by simp
qed

lemma batch_in: "r \<in> set (pending_batch p db) \<Longrightarrow> r \<in> set (pending_rows p db)"
  by (auto simp: pending_batch_def dest: in_set_takeD)

lemma sort_key_empty: "sort_key f xs = [] \<longleftrightarrow> xs = []"
  by (metis length_0_conv length_sort)

lemma batch_empty [simp]: "pending_batch p db = [] \<longleftrightarrow> pending_rows p db = []"
  by (simp add: pending_batch_def sort_key_empty)

lemma batch_shrinks:
  assumes "pending_batch p db \<noteq> []"
    and "pending_rows p db' = filter (\<lambda>r. aq_id r \<notin> aq_id ` set (pending_batch p db)) (pending_rows p db)"
  shows "length (pending_rows p db') < length (pending_rows p db)"
proof -
  obtain r where "r \<in> set (pending_batch p db)" using assms(1) by (cases "pending_batch p db") auto
  then show ?thesis using assms(2) batch_in [of r p db] by (auto intro!: length_filter_less)
qed

lemma on_binding_joins [simp]: "on_binding (joins_target env requestId)"
  by (simp add: on_binding_def joins_target_def extract_fact_def settled_row_def)

lemma on_binding_key [simp]: "on_binding (\<lambda>r. row_key r = k)"
  by (simp add: on_binding_def row_key_def settled_row_def)

function target_rounds :: "'n json_env \<Rightarrow> ustring \<Rightarrow> 'n json \<Rightarrow> 'n resolution \<Rightarrow> int \<Rightarrow> 'n acq_db \<Rightarrow>
    acq_error + unit \<times> 'n acq_db" where
  "target_rounds env requestId decision resolution now db =
     (let rs = pending_batch (joins_target env requestId) db in
      if rs = [] then Inr ((), db)
      else case settle_target_rows env decision resolution now rs db of
        Inl e \<Rightarrow> Inl e
      | Inr db' \<Rightarrow> target_rounds env requestId decision resolution now db')"
  by pat_completeness auto

termination
  by (relation "measure (\<lambda>(env, q, _, _, _, db). length (pending_rows (joins_target env q) db))")
    (auto intro!: batch_shrinks simp del: batch_empty dest!: settle_target_pending [OF on_binding_joins])

declare target_rounds.simps [simp del]

definition resolveTarget :: "'n json_env \<Rightarrow> ustring \<Rightarrow> 'n json \<Rightarrow> 'n resolution \<Rightarrow> int \<Rightarrow> ('n, unit) acq_op" where
  "resolveTarget env requestId decision resolution now st =
     (case requireResolution env resolution of
        Inl e \<Rightarrow> (Inl e, st)
      | Inr _ \<Rightarrow>
          if \<not> json_value env decision then (Inl NotJson, st)
          else acq_transaction (on_db (target_rounds env requestId decision resolution now)) st)"

subsection \<open>Retirement\<close>

text \<open>\<open>INSERT ... ON CONFLICT DO UPDATE SET retired_at = COALESCE(retired_at, excluded.retired_at)\<close>.\<close>

definition retire_entry :: "owner_key \<Rightarrow> int \<Rightarrow> 'n acq_db \<Rightarrow> 'n acq_db" where
  "retire_entry k now db =
     (case map_of (ad_owners db) k of
        Some (Some at) \<Rightarrow> db
      | _ \<Rightarrow> db\<lparr>ad_owners := jset k (Some now) (ad_owners db)\<rparr>)"

function retire_rounds :: "'n json_env \<Rightarrow> acq_owner \<Rightarrow> int \<Rightarrow> 'n acq_db \<Rightarrow> acq_error + 'n acq_db" where
  "retire_rounds env ow now db =
     (let rs = pending_batch (\<lambda>r. row_key r = owner_key ow) db in
      if rs = [] then Inr db
      else case retire_batch env ow now rs db of
        Inl e \<Rightarrow> Inl e
      | Inr db' \<Rightarrow> retire_rounds env ow now db')"
  by pat_completeness auto

termination
  by (relation "measure (\<lambda>(env, ow, _, db). length (pending_rows (\<lambda>r. row_key r = owner_key ow) db))")
    (auto intro!: batch_shrinks simp del: batch_empty dest!: retire_batch_pending [OF on_binding_key])

declare retire_rounds.simps [simp del]

definition retireOwner :: "'n json_env \<Rightarrow> acq_owner \<Rightarrow> int \<Rightarrow> 'n acq_db \<Rightarrow> acq_error + 'n acq_db" where
  "retireOwner env ow now db = retire_rounds env ow now (retire_entry (owner_key ow) now db)"

fun retire_owners :: "'n json_env \<Rightarrow> acq_owner list \<Rightarrow> int \<Rightarrow> 'n acq_db \<Rightarrow> acq_error + 'n acq_db" where
  "retire_owners env [] now db = Inr db"
| "retire_owners env (ow # ows) now db =
     (case retireOwner env ow now db of
        Inl e \<Rightarrow> Inl e
      | Inr db' \<Rightarrow> retire_owners env ows now db')"

definition no_result :: "acq_error + 'n acq_db \<Rightarrow> acq_error + unit \<times> 'n acq_db" where
  "no_result r = (case r of Inl e \<Rightarrow> Inl e | Inr db \<Rightarrow> Inr ((), db))"

definition retire :: "'n json_env \<Rightarrow> acq_owner \<Rightarrow> int \<Rightarrow> ('n, unit) acq_op" where
  "retire env ow now st =
     (if \<not> exact_owner ow then (Inl OwnerNotExact, st)
      else acq_transaction (on_db (\<lambda>db. no_result (retireOwner env ow now db))) st)"

definition session_owners :: "ustring \<Rightarrow> 'n acq_db \<Rightarrow> acq_owner list" where
  "session_owners sessionId db =
     map (\<lambda>e. \<lparr>ow_runtime = fst (fst e), ow_session = sessionId\<rparr>)
       (filter (\<lambda>e. snd (fst e) = sql_text sessionId \<and> snd e = None) (ad_owners db))"

definition retireSession :: "'n json_env \<Rightarrow> ustring \<Rightarrow> int \<Rightarrow> ('n, unit) acq_op" where
  "retireSession env sessionId now st =
     (if blank_or_nul sessionId then (Inl BadSession, st)
      else acq_transaction (on_db (\<lambda>db. no_result (retire_owners env (session_owners sessionId db) now db))) st)"

text \<open>The sessions of a runtime that are not retired, after the last one seen.\<close>

definition later_sessions :: "ustring \<Rightarrow> ustring option \<Rightarrow> 'n acq_db \<Rightarrow> ustring list" where
  "later_sessions runtimeId after db =
     map (\<lambda>e. snd (fst e)) (filter (\<lambda>e. fst (fst e) = sql_text runtimeId \<and> snd e = None \<and>
       (case after of None \<Rightarrow> True | Some s \<Rightarrow> utf8 s < utf8 (snd (fst e)))) (ad_owners db))"

definition session_batch :: "ustring \<Rightarrow> ustring option \<Rightarrow> 'n acq_db \<Rightarrow> ustring list" where
  "session_batch runtimeId after db = take 64 (sort_key utf8 (later_sessions runtimeId after db))"

lemma storeResolution_owners: "storeResolution env a decision resolution now db = Inr db' \<Longrightarrow> ad_owners db' = ad_owners db"
  by (auto simp: update_rows_def dest!: storeResolution_rows)

lemma store_records_owners:
  "store_records env decision resolution now as db = Inr db' \<Longrightarrow> ad_owners db' = ad_owners db"
  by (induction as arbitrary: db) (auto simp: storeResolution_owners split: sum.splits)

lemma retire_rounds_owners: "retire_rounds env ow now db = Inr db' \<Longrightarrow> ad_owners db' = ad_owners db"
proof (induction env ow now db rule: retire_rounds.induct)
  case (1 env ow now db)
  let ?rs = "pending_batch (\<lambda>r. row_key r = owner_key ow) db"
  show ?case
  proof (cases "?rs = []")
    case True
    then show ?thesis using "1.prems" by (simp add: retire_rounds.simps [of env ow now db])
  next
    case False
    then obtain d where d: "retire_batch env ow now ?rs db = Inr d" "retire_rounds env ow now d = Inr db'"
      using "1.prems" by (auto simp: retire_rounds.simps [of env ow now db] Let_def simp del: batch_empty split: sum.splits)
    then have "ad_owners d = ad_owners db"
      by (auto simp: retire_batch_def store_records_owners split: sum.splits)
    then show ?thesis using "1.IH" [OF refl False d] by simp
  qed
qed

lemma length_filter_jset:
  "\<not> Q (k, v) \<Longrightarrow> length (filter Q (jset k v m)) \<le> length (filter Q m)"
  by (induction m) auto

lemma later_sessions_retired:
  "length (later_sessions rt after (retire_entry k now db)) \<le> length (later_sessions rt after db)"
  by (auto simp: later_sessions_def retire_entry_def intro!: length_filter_jset split: option.splits)

lemma later_sessions_owners: "ad_owners db' = ad_owners db \<Longrightarrow> later_sessions rt after db' = later_sessions rt after db"
  by (simp add: later_sessions_def)

lemma retire_owners_sessions:
  "retire_owners env ows now db = Inr db' \<Longrightarrow> length (later_sessions rt after db') \<le> length (later_sessions rt after db)"
proof (induction ows arbitrary: db)
  case (Cons ow ows)
  obtain d where d: "retireOwner env ow now db = Inr d" "retire_owners env ows now d = Inr db'"
    using Cons.prems by (auto split: sum.splits)
  have "later_sessions rt after d = later_sessions rt after (retire_entry (owner_key ow) now db)"
    using d(1) by (intro later_sessions_owners) (auto simp: retireOwner_def dest: retire_rounds_owners)
  then show ?case using Cons.IH [OF d(2)] later_sessions_retired [of rt after "owner_key ow" now db] by simp
qed simp

lemma later_sessions_less:
  assumes "session_batch rt after db \<noteq> []"
  shows "length (later_sessions rt (Some (last (session_batch rt after db))) db) < length (later_sessions rt after db)"
proof -
  let ?s = "last (session_batch rt after db)"
  let ?P = "\<lambda>after e. fst (fst e) = sql_text rt \<and> snd e = None \<and>
      (case after of None \<Rightarrow> True | Some s \<Rightarrow> utf8 s < utf8 (snd (fst e)))"
  have "?s \<in> set (session_batch rt after db)" using assms by (rule last_in_set)
  then have "?s \<in> set (later_sessions rt after db)"
    by (auto simp: session_batch_def dest: in_set_takeD)
  then obtain e where e: "e \<in> set (ad_owners db)" "?P after e" "snd (fst e) = ?s"
    by (auto simp: later_sessions_def)
  have "filter (?P (Some ?s)) (ad_owners db) = filter (?P (Some ?s)) (filter (?P after) (ad_owners db))"
    using e(2,3) by (auto intro!: filter_cong split: option.splits)
  moreover have "length (filter (?P (Some ?s)) (filter (?P after) (ad_owners db))) < length (filter (?P after) (ad_owners db))"
    using e by (intro length_filter_less [of e]) auto
  ultimately show ?thesis by (simp add: later_sessions_def)
qed

function runtime_rounds :: "'n json_env \<Rightarrow> ustring \<Rightarrow> int \<Rightarrow> ustring option \<Rightarrow> 'n acq_db \<Rightarrow> acq_error + 'n acq_db" where
  "runtime_rounds env runtimeId now after db =
     (let ss = session_batch runtimeId after db in
      if ss = [] then Inr db
      else case retire_owners env (map (\<lambda>s. \<lparr>ow_runtime = runtimeId, ow_session = s\<rparr>) ss) now db of
        Inl e \<Rightarrow> Inl e
      | Inr db' \<Rightarrow> runtime_rounds env runtimeId now (Some (last ss)) db')"
  by pat_completeness auto

termination
  by (relation "measure (\<lambda>(_, rt, _, after, db). length (later_sessions rt after db))")
    (auto intro: le_less_trans [OF retire_owners_sessions later_sessions_less])

declare runtime_rounds.simps [simp del]

definition retireRuntime :: "'n json_env \<Rightarrow> ustring \<Rightarrow> int \<Rightarrow> ('n, unit) acq_op" where
  "retireRuntime env runtimeId now st =
     (if blank_or_nul runtimeId then (Inl BadRuntime, st)
      else acq_transaction (on_db (\<lambda>db. no_result (runtime_rounds env runtimeId now None db))) st)"

end
