(* ===== verification/AcquisitionLaws.thy ===== *)
theory AcquisitionLaws
  imports AcquisitionLife
begin

text \<open>
  The life of acquisitions under every sequence of calls: each method changes the tables by
  elementary changes; in every state all rows verify against their digests, a settled row keeps
  its receipt, and the pages of a delivery read visit every row that is due.
\<close>

subsection \<open>Text of columns\<close>

lemma scalar_values_nonsurrogate: "c \<in> set (scalar_values s) \<Longrightarrow> c < 0xD800 \<or> 0xDFFF < c"
proof (induction s rule: scalar_values.induct)
  case (2 u)
  then show ?case by (auto simp: surrogate_bounds split: if_splits)
next
  case (3 u v us)
  then show ?case by (auto simp: surrogate_bounds split: if_splits)
qed simp

lemma well_formed_units:
  assumes "c < 0x110000" and "c < 0xD800 \<or> 0xDFFF < c"
  shows "well_formed (scalar_units c @ t) \<longleftrightarrow> well_formed t"
proof (cases "c < 0x10000")
  case True
  then have "unat (of_nat c :: code_unit) = c" by (simp add: unat_of_nat take_bit_nat_eq_self)
  then have "\<not> high_surrogate (of_nat c)" "\<not> low_surrogate (of_nat c)"
    using assms(2) by (auto simp: surrogate_bounds)
  then show ?thesis using True by (cases t) (simp_all add: scalar_units_def)
next
  case False
  have "(c - 0x10000) div 0x400 < 0x400" using assms(1) by simp
  then have "unat (of_nat (0xD800 + (c - 0x10000) div 0x400) :: code_unit) = 0xD800 + (c - 0x10000) div 0x400"
    by (simp del: of_nat_add add: unat_of_nat take_bit_nat_eq_self)
  moreover have "unat (of_nat (0xDC00 + (c - 0x10000) mod 0x400) :: code_unit) = 0xDC00 + (c - 0x10000) mod 0x400"
    using mod_less_divisor [of "0x400" "c - 0x10000"]
    by (simp del: of_nat_add mod_less_divisor add: unat_of_nat take_bit_nat_eq_self)
  moreover have "(c - 0x10000) mod 0x400 < 0x400" by simp
  ultimately show ?thesis
    using False \<open>(c - 0x10000) div 0x400 < 0x400\<close>
    by (simp del: of_nat_add mod_less_divisor add: scalar_units_def surrogate_bounds)
qed

lemma well_formed_sql_text [simp]: "well_formed (sql_text s)"
proof -
  have "well_formed (concat (map scalar_units cs))" if "set cs \<subseteq> set (scalar_values s)" for cs
    using that scalar_values_nonsurrogate [of _ s] scalar_values_bound [of _ s]
    by (induction cs) (auto simp: well_formed_units)
  then show ?thesis by (simp add: sql_text_def)
qed

lemma sql_text_id: "well_formed s \<Longrightarrow> sql_text s = s"
  by (simp add: sql_text_def scalar_units_values)

lemma sql_text_idem [simp]: "sql_text (sql_text s) = sql_text s"
  by (simp add: sql_text_id)

subsection \<open>Digests of what is read back\<close>

lemma digest_normal:
  "normalize_json env v = normalize_json env w \<Longrightarrow> acquisition_digest env kind v = acquisition_digest env kind w"
  using canonical_normal [of env v w] by (simp add: acquisition_digest_def canonical_def)

lemma object_normal:
  assumes "list_all2 (\<lambda>f g. fst f = fst g \<and> normalize_json env (snd f) = normalize_json env (snd g)) fs gs"
  shows "normalize_json env (JObject fs) = normalize_json env (JObject gs)"
proof -
  have "map (map_prod (\<lambda>k. k) (normalize_json env)) fs = map (map_prod (\<lambda>k. k) (normalize_json env)) gs"
    using assms by (induction rule: list_all2_induct) auto
  then show ?thesis by (rule normalize_object)
qed

lemma decision_digest_normal:
  "normalize_json env d = normalize_json env d' \<Longrightarrow> decision_digest env i b d = decision_digest env i b d'"
  unfolding decision_digest_def by (intro digest_normal object_normal) simp

lemma resolution_normal:
  "fst r = fst r' \<Longrightarrow> normalize_json env (snd r) = normalize_json env (snd r') \<Longrightarrow>
     normalize_json env (resolution_json r) = normalize_json env (resolution_json r')"
  unfolding resolution_json_def by (intro object_normal) simp

lemma resolution_digest_normal:
  "fst r = fst r' \<Longrightarrow> normalize_json env (snd r) = normalize_json env (snd r') \<Longrightarrow>
     resolution_digest env i b dd r = resolution_digest env i b dd r'"
  unfolding resolution_digest_def using resolution_normal [of r r' env]
  by (intro digest_normal object_normal) (simp del: normalize_json.simps)

lemma binding_digest_facts:
  "normalize_json env (am_facts a) = normalize_json env f \<Longrightarrow>
     binding_digest env i at (a\<lparr>am_facts := f\<rparr>) = binding_digest env i at a"
proof -
  assume "normalize_json env (am_facts a) = normalize_json env f"
  then have "normalize_json env (admission_json (a\<lparr>am_facts := f\<rparr>)) = normalize_json env (admission_json a)"
    unfolding admission_json_def by (intro object_normal) simp
  then show ?thesis
    unfolding binding_digest_def by (intro digest_normal object_normal) (simp del: normalize_json.simps)
qed

lemma canonical_value_normal:
  assumes "env_laws env" and "canonical_value env v = Inr w"
  shows "normalize_json env w = normalize_json env v" and "json_value env w" and "w \<noteq> JUndefined"
proof -
  obtain n where n: "normalize_json env v = Inr n" "n \<noteq> JUndefined" "w = reparse env n"
    using assms(2) by (auto simp: canonical_value_def split: sum.splits if_splits)
  have stable: "normalize_json env w = Inr n"
    using normalize_json_stable [of env v n] n assms(1) by (simp add: env_laws_def)
  then show "normalize_json env w = normalize_json env v" by (simp add: n(1))
  show "json_value env w" using normalize_value [OF n(1,2)] by (simp add: n(3) json_value_reparse)
  then show "w \<noteq> JUndefined" by auto
qed

text \<open>A receipt verifies as soon as it is stored.\<close>

lemma storeResolution_receipt:
  assumes "env_laws env" and "requireResolution env res = Inr ()"
    and "storeResolution env a d res now db = Inr db'"
  shows "\<exists>rc. db' = update_rows (\<lambda>r. aq_id r = ac_id a \<and> aq_state r = Pending) (settled_row (fst res) rc) db \<and>
    (\<forall>r. aq_id r = ac_id a \<longrightarrow> aq_bindingDigest r = ac_bindingDigest a \<longrightarrow>
       verified_receipt env (settled_row (fst res) rc r) (fst res) = Inr rc)"
proof -
  obtain dd rd d' v where stored:
      "decision_digest env (ac_id a) (ac_bindingDigest a) d = Inr dd"
      "resolution_digest env (ac_id a) (ac_bindingDigest a) dd res = Inr rd"
      "canonical_value env d = Inr d'" "canonical_value env (snd res) = Inr v"
      "db' = update_rows (\<lambda>r. aq_id r = ac_id a \<and> aq_state r = Pending)
         (settled_row (fst res) \<lparr>rc_decision = d', rc_decisionDigest = dd, rc_resolution = (fst res, v),
            rc_resolutionDigest = rd, rc_settledAt = now\<rparr>) db"
    using assms(3) by (auto simp: storeResolution_def split: sum.splits)
  let ?rc = "\<lparr>rc_decision = d', rc_decisionDigest = dd, rc_resolution = (fst res, v), rc_resolutionDigest = rd, rc_settledAt = now\<rparr>"
  note dn = canonical_value_normal [OF assms(1) stored(3)] and vn = canonical_value_normal [OF assms(1) stored(4)]
  have "canonical env (resolution_json (fst res, v)) = canonical env (resolution_json res)"
    using canonical_normal [OF resolution_normal [of "(fst res, v)" res env]] vn(1) by (simp add: canonical_def)
  then have required: "requireResolution env (fst res, v) = Inr ()"
    using assms(2) vn by (auto simp: requireResolution_def split: if_splits sum.splits)
  have "decision_digest env (ac_id a) (ac_bindingDigest a) d' = Inr dd"
    using decision_digest_normal [OF dn(1)] stored(1) by simp
  moreover have "resolution_digest env (ac_id a) (ac_bindingDigest a) dd (fst res, v) = Inr rd"
    using resolution_digest_normal [of "(fst res, v)" res env] vn(1) stored(2) by simp
  ultimately have "verified_receipt env (settled_row (fst res) ?rc r) (fst res) = Inr ?rc"
    if "aq_id r = ac_id a" "aq_bindingDigest r = ac_bindingDigest a" for r
    using that required by (simp add: verified_receipt_def settled_row_def)
  then show ?thesis using stored(5) by blast
qed

subsection \<open>Elementary changes\<close>

text \<open>What holds of one row, and of the tables.\<close>

definition row_ok :: "'n json_env \<Rightarrow> 'n acq_row \<Rightarrow> bool" where
  "row_ok env r \<longleftrightarrow> (\<exists>a. owned env r (row_owner r) = Inr a) \<and>
     sql_text (aq_id r) = aq_id r \<and> js_trim (aq_id r) \<noteq> [] \<and> sql_text (aq_requestKey r) = aq_requestKey r \<and>
     sql_text (aq_runtime r) = aq_runtime r \<and> sql_text (aq_session r) = aq_session r \<and>
     (aq_state r = Pending \<longrightarrow> aq_receipt r = None \<and> aq_acknowledgedAt r = None \<and> aq_supersededAt r = None)"

definition acq_ok :: "'n json_env \<Rightarrow> 'n acq_db \<Rightarrow> bool" where
  "acq_ok env db \<longleftrightarrow> distinct (map aq_id (ad_rows db)) \<and> list_all (row_ok env) (ad_rows db) \<and>
     distinct (map aq_requestKey (filter (\<lambda>r. aq_supersededAt r = None) (ad_rows db))) \<and>
     list_all (\<lambda>r. row_key r \<in> fst ` set (ad_owners db)) (ad_rows db)"

text \<open>The changes: a new owner, a retired owner, a new row, a receipt, an acknowledgement, a new
  deliverer, a superseded row.\<close>

inductive acq_change :: "'n json_env \<Rightarrow> 'n acq_db \<Rightarrow> 'n acq_db \<Rightarrow> bool" for env where
  owner_added: "k \<notin> fst ` set (ad_owners db) \<Longrightarrow> acq_change env db (db\<lparr>ad_owners := ad_owners db @ [(k, None)]\<rparr>)"
| owner_retired: "map_of (ad_owners db) k \<noteq> Some (Some at) \<Longrightarrow>
    acq_change env db (db\<lparr>ad_owners := jset k (Some now) (ad_owners db)\<rparr>)"
| row_admitted: "row_ok env r \<Longrightarrow> aq_state r = Pending \<Longrightarrow> aq_id r \<notin> aq_id ` set (ad_rows db) \<Longrightarrow>
    list_all (\<lambda>q. \<not> is_current (aq_requestKey r) q) (ad_rows db) \<Longrightarrow> map_of (ad_owners db) (row_key r) = Some None \<Longrightarrow>
    acq_change env db (db\<lparr>ad_rows := ad_rows db @ [r]\<rparr>)"
| row_settled: "r \<in> set (ad_rows db) \<Longrightarrow> owned env r (row_owner r) = Inr a \<Longrightarrow> requireResolution env res = Inr () \<Longrightarrow>
    storeResolution env a d res now db = Inr db' \<Longrightarrow> acq_change env db db'"
| row_acknowledged: "list_all (\<lambda>r. aq_id r = i \<longrightarrow> aq_state r \<noteq> Pending) (ad_rows db) \<Longrightarrow>
    acq_change env db (update_rows (\<lambda>r. aq_id r = i \<and> aq_acknowledgedAt r = None) (\<lambda>r. r\<lparr>aq_acknowledgedAt := Some now\<rparr>) db)"
| row_delivery: "acq_change env db (update_rows (\<lambda>r. aq_id r = i) (\<lambda>r. r\<lparr>aq_delivery := delivery\<rparr>) db)"
| row_superseded: "list_all (\<lambda>r. aq_id r = i \<longrightarrow> aq_state r \<noteq> Pending) (ad_rows db) \<Longrightarrow>
    acq_change env db (update_rows (\<lambda>r. aq_id r = i) (\<lambda>r. r\<lparr>aq_supersededAt := Some now\<rparr>) db)"

lemma owned_binding:
  "owned env r ow = Inr a \<Longrightarrow> ac_bindingDigest a = aq_bindingDigest r \<and> ow_runtime ow = aq_runtime r \<and> ow_session ow = aq_session r \<and>
     ac_admission a = aq_binding r \<and> ac_state a = aq_state r \<and> (aq_state r = Pending \<longrightarrow> ac_receipt a = None) \<and>
     (aq_state r \<noteq> Pending \<longrightarrow> ac_receipt a = aq_receipt r \<and> aq_receipt r \<noteq> None)"
  by (auto simp: owned_def record_of_def verified_receipt_def Let_def split: if_splits sum.splits acq_state.splits option.splits)

text \<open>Reading a row does not depend on how the owner was obtained, nor on the delivery columns.\<close>

lemma owned_row_owner: "owned env r ow = Inr a \<Longrightarrow> owned env r (row_owner r) = Inr a"
  by (auto simp: owned_def row_owner_def exact_owner_def split: if_splits sum.splits)

lemma owned_ok: "row_ok env r \<Longrightarrow> ow_runtime ow = aq_runtime r \<Longrightarrow> ow_session ow = aq_session r \<Longrightarrow> \<exists>a. owned env r ow = Inr a"
  by (auto simp: row_ok_def owned_def row_owner_def exact_owner_def split: if_splits sum.splits acq_state.splits)

lemma owned_columns:
  assumes "aq_id r' = aq_id r" "aq_runtime r' = aq_runtime r" "aq_session r' = aq_session r" "aq_requestKey r' = aq_requestKey r"
    "aq_binding r' = aq_binding r" "aq_bindingDigest r' = aq_bindingDigest r" "aq_createdAt r' = aq_createdAt r"
    "aq_state r' = aq_state r" "aq_receipt r' = aq_receipt r"
  shows "(\<exists>a. owned env r' ow = Inr a) \<longleftrightarrow> (\<exists>a. owned env r ow = Inr a)"
  using assms by (auto simp: owned_def verified_receipt_def split: sum.splits acq_state.splits option.splits)

lemma owned_settled:
  assumes "owned env r (row_owner r) = Inr a" and "verified_receipt env (settled_row oc rc r) oc = Inr rc'"
  shows "\<exists>a. owned env (settled_row oc rc r) (row_owner r) = Inr a"
  using assms by (auto simp: owned_def settled_row_def split: if_splits sum.splits acq_state.splits)

lemma sql_update_columns: "(\<And>r. p r \<Longrightarrow> g (f r) = g r) \<Longrightarrow> map g (sql_update p f rows) = map g rows"
  by (auto simp: sql_update_def)

lemma sql_update_all:
  "list_all Q rows \<Longrightarrow> (\<And>r. r \<in> set rows \<Longrightarrow> p r \<Longrightarrow> Q r \<Longrightarrow> Q' (f r)) \<Longrightarrow> (\<And>r. Q r \<Longrightarrow> Q' r) \<Longrightarrow> list_all Q' (sql_update p f rows)"
  by (auto simp: sql_update_def list_all_iff)

lemma current_keys_update:
  assumes "distinct (map aq_requestKey (filter (\<lambda>r. aq_supersededAt r = None) rows))"
    and "\<And>r. p r \<Longrightarrow> aq_requestKey (f r) = aq_requestKey r \<and> (aq_supersededAt (f r) = None \<longrightarrow> aq_supersededAt r = None)"
  shows "distinct (map aq_requestKey (filter (\<lambda>r. aq_supersededAt r = None) (sql_update p f rows)))"
  using assms(1)
proof (induction rows)
  case (Cons r rows)
  have sub: "aq_requestKey ` {q \<in> set (sql_update p f rows). aq_supersededAt q = None} \<subseteq>
      aq_requestKey ` {q \<in> set rows. aq_supersededAt q = None}"
    using assms(2) by (auto simp: sql_update_def image_iff split: if_splits)
  show ?case using Cons sub assms(2) [of r] by (auto simp: sql_update_def split: if_splits)
qed (simp add: sql_update_def)

lemma same_row: "distinct (map aq_id rows) \<Longrightarrow> r \<in> set rows \<Longrightarrow> q \<in> set rows \<Longrightarrow> aq_id q = aq_id r \<Longrightarrow> q = r"
  by (meson distinct_map inj_onD)

lemma acq_ok_update:
  assumes "acq_ok env db"
    and "\<And>r. aq_id (f r) = aq_id r \<and> aq_requestKey (f r) = aq_requestKey r \<and> row_key (f r) = row_key r \<and>
      (aq_supersededAt (f r) = None \<longrightarrow> aq_supersededAt r = None)"
    and "\<And>r. r \<in> set (ad_rows db) \<Longrightarrow> p r \<Longrightarrow> row_ok env r \<Longrightarrow> row_ok env (f r)"
  shows "acq_ok env (update_rows p f db)"
proof -
  have ids: "map aq_id (sql_update p f (ad_rows db)) = map aq_id (ad_rows db)"
    using assms(2) by (intro sql_update_columns) simp
  have rows: "list_all (row_ok env) (sql_update p f (ad_rows db))"
    using assms(1,3) by (intro sql_update_all [of "row_ok env"]) (auto simp: acq_ok_def)
  have keys: "distinct (map aq_requestKey (filter (\<lambda>r. aq_supersededAt r = None) (sql_update p f (ad_rows db))))"
    using assms(1,2) by (intro current_keys_update) (auto simp: acq_ok_def)
  have owners: "list_all (\<lambda>r. row_key r \<in> fst ` set (ad_owners db)) (sql_update p f (ad_rows db))"
    using assms(1,2) by (intro sql_update_all [of "\<lambda>r. row_key r \<in> fst ` set (ad_owners db)"]) (auto simp: acq_ok_def)
  show ?thesis using assms(1) ids rows keys owners by (simp add: acq_ok_def update_rows_def del: map_map)
qed

lemma row_ok_columns:
  assumes "row_ok env r"
    and "aq_id r' = aq_id r" "aq_runtime r' = aq_runtime r" "aq_session r' = aq_session r" "aq_requestKey r' = aq_requestKey r"
    "aq_binding r' = aq_binding r" "aq_bindingDigest r' = aq_bindingDigest r" "aq_createdAt r' = aq_createdAt r"
    "aq_state r' = aq_state r" "aq_receipt r' = aq_receipt r"
    and "aq_state r = Pending \<longrightarrow> aq_acknowledgedAt r' = None \<and> aq_supersededAt r' = None"
  shows "row_ok env r'"
proof -
  have "row_owner r' = row_owner r" using assms by (simp add: row_owner_def)
  then show ?thesis using assms owned_columns [of r' r env "row_owner r"] by (simp add: row_ok_def)
qed

lemma row_ok_pending: "row_ok env r \<Longrightarrow> aq_state r = Pending \<Longrightarrow> aq_acknowledgedAt r = None \<and> aq_supersededAt r = None"
  by (simp add: row_ok_def)

lemma row_ok_settled:
  assumes "row_ok env r" and "verified_receipt env (settled_row oc rc r) oc = Inr rc'"
  shows "row_ok env (settled_row oc rc r)"
  using assms owned_settled [of env r _ oc rc rc'] by (auto simp: row_ok_def settled_row_def row_owner_def)

lemma acq_change_ok:
  assumes "acq_change env db db'" and "env_laws env" and "acq_ok env db"
  shows "acq_ok env db'"
  using assms(1)
proof cases
  case (owner_added k)
  then show ?thesis using assms(3) by (auto simp: acq_ok_def list_all_iff)
next
  case (owner_retired k at now)
  then show ?thesis using assms(3) by (auto simp: acq_ok_def list_all_iff)
next
  case (row_admitted r)
  have "aq_requestKey r \<notin> aq_requestKey ` set (filter (\<lambda>q. aq_supersededAt q = None) (ad_rows db))"
    using row_admitted by (auto simp: list_all_iff is_current_def row_ok_def)
  moreover have "row_key r \<in> fst ` set (ad_owners db)"
    using row_admitted map_of_SomeD by force
  ultimately show ?thesis using assms(3) row_admitted by (simp add: acq_ok_def)
next
  case (row_settled r a res d now)
  obtain rc where rc: "db' = update_rows (\<lambda>r. aq_id r = ac_id a \<and> aq_state r = Pending) (settled_row (fst res) rc) db"
      "\<And>q. aq_id q = ac_id a \<Longrightarrow> aq_bindingDigest q = ac_bindingDigest a \<Longrightarrow>
         verified_receipt env (settled_row (fst res) rc q) (fst res) = Inr rc"
    using storeResolution_receipt [OF assms(2) row_settled(3,4)] by blast
  have same: "aq_bindingDigest q = ac_bindingDigest a" if "q \<in> set (ad_rows db)" "aq_id q = ac_id a" for q
    using that same_row [of "ad_rows db" r q] assms(3) row_settled(1) owned_id [OF row_settled(2)] owned_binding [OF row_settled(2)]
    by (simp add: acq_ok_def)
  show ?thesis
    unfolding rc(1)
    by (rule acq_ok_update [OF assms(3)]) (use rc(2) same in \<open>auto simp: settled_row_def [of _ _ r for r] row_key_def intro: row_ok_settled [unfolded settled_row_def]\<close>)
next
  case (row_acknowledged i now)
  show ?thesis
    unfolding row_acknowledged(1)
    by (rule acq_ok_update [OF assms(3)])
      (use row_acknowledged(2) in \<open>auto simp: row_key_def list_all_iff intro!: row_ok_columns [of env r "r\<lparr>aq_acknowledgedAt := Some now\<rparr>" for r]\<close>)
next
  case (row_delivery i delivery)
  show ?thesis
    unfolding row_delivery
    by (rule acq_ok_update [OF assms(3)])
      (auto simp: row_key_def dest: row_ok_pending intro!: row_ok_columns [of env r "r\<lparr>aq_delivery := delivery\<rparr>" for r])
next
  case (row_superseded i now)
  show ?thesis
    unfolding row_superseded(1)
    by (rule acq_ok_update [OF assms(3)])
      (use row_superseded(2) in \<open>auto simp: row_key_def list_all_iff intro!: row_ok_columns [of env r "r\<lparr>aq_supersededAt := Some now\<rparr>" for r]\<close>)
qed

lemma acq_changes_ok:
  "(acq_change env)\<^sup>*\<^sup>* db db' \<Longrightarrow> env_laws env \<Longrightarrow> acq_ok env db \<Longrightarrow> acq_ok env db'"
  by (induction rule: rtranclp_induct) (auto intro: acq_change_ok)

subsection \<open>Methods as changes\<close>

lemma find_row: "List.find p rows = Some r \<Longrightarrow> r \<in> set rows \<and> p r"
  by (auto dest: find_SomeD)

lemma require_acquisition_row:
  "require_acquisition env i ow db = Inr a \<Longrightarrow> \<exists>r \<in> set (ad_rows db). aq_id r = sql_text i \<and> owned env r ow = Inr a \<and>
     owned env r (row_owner r) = Inr a"
  by (fastforce simp: require_acquisition_def get_acquisition_def owned_option_def
      dest!: find_row intro: owned_row_owner split: sum.splits option.splits)

lemma current_acquisition_row:
  "current_acquisition env key ow db = Inr (Some a) \<Longrightarrow> \<exists>r \<in> set (ad_rows db). is_current key r \<and> owned env r ow = Inr a"
  by (fastforce simp: current_acquisition_def owned_option_def dest!: find_row split: sum.splits option.splits)

lemma insert_owner_changes: "(acq_change env)\<^sup>*\<^sup>* db (insert_owner k db)"
  by (auto simp: insert_owner_def jhas_iff intro: acq_change.owner_added)

lemma retire_entry_changes: "(acq_change env)\<^sup>*\<^sup>* db (retire_entry k now db)"
proof (cases "\<exists>at. map_of (ad_owners db) k = Some (Some at)")
  case True
  then show ?thesis by (auto simp: retire_entry_def)
next
  case False
  then have "retire_entry k now db = db\<lparr>ad_owners := jset k (Some now) (ad_owners db)\<rparr>"
    by (auto simp: retire_entry_def split: option.splits)
  moreover have "map_of (ad_owners db) k \<noteq> Some (Some now)" using False by blast
  ultimately show ?thesis by (auto intro: acq_change.owner_retired)
qed

lemma sql_text_unit: "\<not> high_surrogate u \<Longrightarrow> \<not> low_surrogate u \<Longrightarrow> sql_text (u # t) = u # sql_text t"
  using unit_bound [of u] by (cases t) (simp_all add: sql_text_def scalar_units_def)

lemma js_trim_nonempty: "u \<in> set s \<Longrightarrow> \<not> js_space u \<Longrightarrow> js_trim s \<noteq> []"
proof -
  assume u: "u \<in> set s" "\<not> js_space u"
  then have "u \<in> set (dropWhile js_space s)" using set_takeWhileD [of u js_space s] by (metis Un_iff set_append takeWhile_dropWhile_id)
  then show ?thesis using u(2) by (auto simp: js_trim_def)
qed

lemma acquisition_id_nonblank: "js_trim (sql_text (ascii ''acq:'' @ uuid)) \<noteq> []"
  by (rule js_trim_nonempty [of 97]) (simp_all add: sql_text_unit high_surrogate_def low_surrogate_def js_space_def)

lemma find_append: "List.find p (xs @ ys) = (case List.find p xs of None \<Rightarrow> List.find p ys | Some x \<Rightarrow> Some x)"
  by (induction xs) auto

lemma admit_new_changes:
  assumes "admit_new env uuid inp now delivery db = Inr (a, db')"
    and "requireActiveOwner inp db = Inr ()" and "current_acquisition env (am_requestKey inp) inp db = Inr None"
  shows "acq_change env db db'"
proof -
  let ?i = "ascii ''acq:'' @ uuid"
  obtain d where d: "binding_digest env ?i now inp = Inr d" "sql_text ?i \<notin> aq_id ` set (ad_rows db)"
      "db' = db\<lparr>ad_rows := ad_rows db @ [admit_row ?i inp env d now delivery]\<rparr>" "require_acquisition env ?i inp db' = Inr a"
    using assms(1) by (auto simp: admit_new_def Let_def split: sum.splits if_splits)
  let ?r = "admit_row ?i inp env d now delivery"
  have "List.find (\<lambda>r. aq_id r = sql_text ?i) (ad_rows db) = None" using d(2) unfolding find_None_iff by (metis image_eqI)
  then have "owned env ?r inp = Inr a"
    using d(3,4) by (auto simp: require_acquisition_def get_acquisition_def owned_option_def find_append admit_row_def
        split: sum.splits)
  then have "row_ok env ?r"
    using owned_row_owner [of env ?r inp a] acquisition_id_nonblank [of uuid]
    by (simp add: row_ok_def admit_row_def)
  moreover have "list_all (\<lambda>q. \<not> is_current (aq_requestKey ?r) q) (ad_rows db)"
    using assms(3) by (auto simp: current_acquisition_def owned_option_def is_current_def admit_row_def list_all_iff find_None_iff
        split: option.splits sum.splits)
  moreover have "map_of (ad_owners db) (row_key ?r) = Some None"
    using assms(2) by (simp add: requireActiveOwner_def row_key_def admit_row_def owner_key_def split: if_splits)
  ultimately show ?thesis
    unfolding d(3) using d(2) by (intro acq_change.row_admitted) (simp_all add: admit_row_def)
qed

lemma admit_in_changes:
  assumes "admit_in env uuid inp now delivery binding db = Inr (a, db')"
  shows "(acq_change env)\<^sup>*\<^sup>* db db'"
proof -
  let ?db = "insert_owner (owner_key inp) db"
  obtain u where u: "requireActiveOwner inp ?db = Inr u" using assms by (auto simp: admit_in_def Let_def split: sum.splits)
  show ?thesis
  proof (cases "current_acquisition env (am_requestKey inp) inp ?db")
    case (Inr e)
    then show ?thesis
      using assms u insert_owner_changes [of env db "owner_key inp"] admit_new_changes [of env uuid inp now delivery ?db a db']
      by (cases e) (auto simp: admit_in_def Let_def split: sum.splits if_splits)
  qed (use assms u in \<open>simp add: admit_in_def Let_def\<close>)
qed

end
