(* ===== verification/AcquisitionRuns.thy ===== *)
theory AcquisitionRuns
  imports AcquisitionLaws
begin

text \<open>
  Runs of the acquisition store: every method is a sequence of the elementary changes, so the
  invariant, the receipts and the fence of a retired owner hold along every run, whatever the
  grant store does in between.
\<close>

subsection \<open>Internal resolutions\<close>

lemma normalize_fields_ok:
  "distinct (map fst rs) \<Longrightarrow> fst ` set acc \<inter> fst ` set rs = {} \<Longrightarrow> list_all (\<lambda>f. ok (snd f)) rs \<Longrightarrow>
     \<exists>gs. normalize_fields rs acc = Inr gs"
proof (induction rs acc rule: normalize_fields.induct)
  case (2 f rs acc)
  obtain v where v: "snd f = Inr v" "fst f \<notin> fst ` set acc" using "2.prems" by (auto simp: ok_iff)
  let ?acc = "if v = JUndefined then acc else assign acc (fst f, v)"
  have gen: "A \<subseteq> insert x B \<Longrightarrow> x \<notin> C \<Longrightarrow> B \<inter> C = {} \<Longrightarrow> A \<inter> C = {}" for A B C :: "ustring set" and x by blast
  have "fst ` set ?acc \<inter> fst ` set rs = {}"
  proof (rule gen)
    show "fst ` set ?acc \<subseteq> insert (fst f) (fst ` set acc)" by (auto simp: assign_def)
    show "fst f \<notin> fst ` set rs" using "2.prems"(1) by simp
    show "fst ` set acc \<inter> fst ` set rs = {}" using "2.prems"(2) by auto
  qed
  moreover have "distinct (map fst rs)" using "2.prems"(1) by simp
  ultimately have "\<exists>gs. normalize_fields rs ?acc = Inr gs" using "2.prems"(3) by (intro "2.IH" [OF v(2,1)]) simp_all
  then show ?case using v by simp
qed simp

lemma normalize_object_ok:
  assumes "distinct (map (\<lambda>f. je_nfc env (fst f)) fs)" and "list_all (\<lambda>f. ok (normalize_json env (snd f))) fs"
  shows "\<exists>gs. normalize_json env (JObject fs) = Inr (JObject gs)"
proof -
  define rs where "rs = sort_bytes (map (map_prod (je_nfc env) (\<lambda>r. r)) (own_order (map (map_prod (\<lambda>k. k) (normalize_json env)) fs)))"
  have perm: "mset rs = mset (map (\<lambda>f. (je_nfc env (fst f), normalize_json env (snd f))) fs)"
    by (simp add: rs_def sort_bytes_def image_mset.compositionality comp_def map_prod_def split_beta)
  have "mset (map fst rs) = mset (map (\<lambda>f. je_nfc env (fst f)) fs)"
    by (simp add: perm image_mset.compositionality comp_def)
  then have "distinct (map fst rs)" using assms(1) mset_eq_imp_distinct_iff by blast
  moreover have "list_all (\<lambda>f. ok (snd f)) rs"
    using mset_eq_setD [OF perm] assms(2) by (auto simp: list_all_iff)
  ultimately obtain gs where "normalize_fields rs [] = Inr gs" using normalize_fields_ok [of rs "[]"] by auto
  then show ?thesis by (simp add: rs_def)
qed

lemma internal_resolutions:
  assumes "env_laws env"
  shows "requireResolution env (Closed, JObject [(ascii ''reason'', JString (ascii ''owner-retired''))]) = Inr ()"
    and "requireResolution env (Closed, JObject [(ascii ''state'', JString (ascii ''closed'')),
       (ascii ''reason'', JString (ascii ''operation-ended''))]) = Inr ()"
proof -
  have nfc: "je_nfc env (ascii s) = ascii s" for s using assms by (simp add: env_laws_def)
  note keys = nfc ascii_inject
  have "requireResolution env (Closed, v) = Inr ()"
    if v: "v = JObject gs" "json_value env v" "ok (normalize_json env v)" for v gs
  proof -
    have "\<exists>fs. normalize_json env (resolution_json (Closed, v)) = Inr (JObject fs)"
      unfolding resolution_json_def using v(3) by (intro normalize_object_ok) (simp_all add: keys del: ascii_simps)
    then show ?thesis using v by (auto simp: requireResolution_def canonical_def sharedCanonicalJson_def)
  qed
  moreover have "ok (normalize_json env (JObject [(ascii ''reason'', JString (ascii ''owner-retired''))]))"
    using normalize_object_ok [of env "[(ascii ''reason'', JString (ascii ''owner-retired''))]"]
    by (auto simp: ok_iff keys simp del: ascii_simps normalize_json.simps(7))
  moreover have "ok (normalize_json env (JObject [(ascii ''state'', JString (ascii ''closed'')), (ascii ''reason'', JString (ascii ''operation-ended''))]))"
    using normalize_object_ok [of env "[(ascii ''state'', JString (ascii ''closed'')), (ascii ''reason'', JString (ascii ''operation-ended''))]"]
    by (auto simp: ok_iff keys simp del: ascii_simps normalize_json.simps(7))
  ultimately show "requireResolution env (Closed, JObject [(ascii ''reason'', JString (ascii ''owner-retired''))]) = Inr ()"
    "requireResolution env (Closed, JObject [(ascii ''state'', JString (ascii ''closed'')), (ascii ''reason'', JString (ascii ''operation-ended''))]) = Inr ()"
    by simp_all
qed

subsection \<open>Batches as changes\<close>

lemma other_rows_kept:
  "storeResolution env a d res now db = Inr db' \<Longrightarrow> q \<in> set (ad_rows db) \<Longrightarrow> aq_id q \<noteq> ac_id a \<Longrightarrow> q \<in> set (ad_rows db')"
  by (force simp: update_rows_def sql_update_def dest!: storeResolution_rows)

lemma tail_kept:
  assumes "storeResolution env a d res now db = Inr db1" and "ac_id a = aq_id r"
    and "distinct (map aq_id (r # rs))" and "set (r # rs) \<subseteq> set (ad_rows db)"
  shows "set rs \<subseteq> set (ad_rows db1)"
proof
  fix q assume q: "q \<in> set rs"
  then have "aq_id q \<noteq> ac_id a" using assms(2,3) by (metis distinct.simps(2) image_eqI list.simps(9) set_map)
  moreover have "q \<in> set (ad_rows db)" using q assms(4) by auto
  ultimately show "q \<in> set (ad_rows db1)" using other_rows_kept [OF assms(1)] by blast
qed

lemma settle_target_changes:
  assumes "requireResolution env res = Inr ()"
  shows "settle_target_rows env d res now rs db = Inr db' \<Longrightarrow> set rs \<subseteq> set (ad_rows db) \<Longrightarrow> distinct (map aq_id rs) \<Longrightarrow>
    (acq_change env)\<^sup>*\<^sup>* db db'"
proof (induction rs arbitrary: db)
  case (Cons r rs)
  obtain a db1 where d: "owned env r (row_owner r) = Inr a" "storeResolution env a d res now db = Inr db1"
      "settle_target_rows env d res now rs db1 = Inr db'"
    using Cons.prems(1) by (auto split: sum.splits)
  have "acq_change env db db1" using Cons.prems(2) d by (intro acq_change.row_settled [OF _ d(1) assms d(2)]) simp
  moreover have "set rs \<subseteq> set (ad_rows db1)"
    by (rule tail_kept [OF d(2) owned_id [OF d(1)] Cons.prems(3,2)])
  ultimately show ?case using Cons.IH [OF d(3)] Cons.prems(3) by (simp add: converse_rtranclp_into_rtranclp)
qed simp

lemma store_records_changes:
  assumes "requireResolution env res = Inr ()"
  shows "store_records env d res now as db = Inr db' \<Longrightarrow> list_all2 (\<lambda>r a. owned env r (row_owner r) = Inr a) rs as \<Longrightarrow>
    set rs \<subseteq> set (ad_rows db) \<Longrightarrow> distinct (map aq_id rs) \<Longrightarrow> (acq_change env)\<^sup>*\<^sup>* db db'"
proof (induction as arbitrary: db rs)
  case (Cons a as)
  obtain r qs where rs: "rs = r # qs" "owned env r (row_owner r) = Inr a" "list_all2 (\<lambda>r a. owned env r (row_owner r) = Inr a) qs as"
    using Cons.prems(2) by (auto simp: list_all2_Cons2)
  obtain db1 where d: "storeResolution env a d res now db = Inr db1" "store_records env d res now as db1 = Inr db'"
    using Cons.prems(1) by (auto split: sum.splits)
  have "acq_change env db db1" using Cons.prems(3) rs by (intro acq_change.row_settled [OF _ rs(2) assms d(1)]) simp
  moreover have "set qs \<subseteq> set (ad_rows db1)"
    by (rule tail_kept [OF d(1) owned_id [OF rs(2)] Cons.prems(4,3) [unfolded rs(1)]])
  ultimately show ?case using Cons.IH [OF d(2) rs(3)] Cons.prems(4) rs(1) by (simp add: converse_rtranclp_into_rtranclp)
qed simp

lemma batch_distinct: "distinct (map aq_id (ad_rows db)) \<Longrightarrow> distinct (map aq_id (pending_batch p db))"
proof -
  have "set (pending_batch p db) \<subseteq> set (ad_rows db)" using batch_in [of _ p db] by (auto simp: pending_rows_def)
  then show "distinct (map aq_id (ad_rows db)) \<Longrightarrow> distinct (map aq_id (pending_batch p db))"
    by (auto simp: distinct_map pending_batch_def pending_rows_def intro: inj_on_subset)
qed

lemma acq_ok_ids: "acq_ok env db \<Longrightarrow> distinct (map aq_id (ad_rows db))"
  by (simp add: acq_ok_def)

lemma batch_rows: "set (pending_batch p db) \<subseteq> set (ad_rows db)"
  using batch_in [of _ p db] by (auto simp: pending_rows_def)

lemma target_rounds_changes:
  "target_rounds env q d res now db = Inr (u, db') \<Longrightarrow> acq_ok env db \<Longrightarrow> env_laws env \<Longrightarrow> requireResolution env res = Inr () \<Longrightarrow>
     (acq_change env)\<^sup>*\<^sup>* db db'"
proof (induction env q d res now db rule: target_rounds.induct)
  case (1 env q d res now db)
  let ?rs = "pending_batch (joins_target env q) db"
  show ?case
  proof (cases "?rs = []")
    case True
    then show ?thesis using "1.prems" by (simp add: target_rounds.simps [of env q d res now db])
  next
    case False
    then obtain db1 where d: "settle_target_rows env d res now ?rs db = Inr db1" "target_rounds env q d res now db1 = Inr (u, db')"
      using "1.prems"(1) by (auto simp: target_rounds.simps [of env q d res now db] Let_def simp del: batch_empty split: sum.splits)
    have "(acq_change env)\<^sup>*\<^sup>* db db1"
      by (rule settle_target_changes [OF "1.prems"(4) d(1) batch_rows batch_distinct [OF acq_ok_ids [OF "1.prems"(2)]]])
    then show ?thesis
      using "1.IH" [OF refl False d(1,2) _ "1.prems"(3,4)] acq_changes_ok "1.prems"(2,3) by (meson rtranclp_trans)
  qed
qed

lemma retire_batch_changes:
  assumes "retire_batch env ow now rs db = Inr db'" and "env_laws env" and "set rs \<subseteq> set (ad_rows db)" and "distinct (map aq_id rs)"
  shows "(acq_change env)\<^sup>*\<^sup>* db db'"
proof -
  obtain as where as: "map (\<lambda>r. owned env r ow) rs = map Inr as"
      "store_records env (kind_json ''owner-retired'')
          (Closed, JObject [(ascii ''reason'', JString (ascii ''owner-retired''))]) now as db = Inr db'"
    using assms(1) by (auto simp: retire_batch_def all_ok_Inr split: sum.splits)
  have "list_all2 (\<lambda>r a. owned env r (row_owner r) = Inr a) rs as"
    using as(1) by (induction rs arbitrary: as) (auto simp: Cons_eq_map_conv dest: owned_row_owner)
  then show ?thesis
    by (rule store_records_changes [OF internal_resolutions(1) [OF assms(2)] as(2) _ assms(3,4)])
qed

lemma retire_rounds_changes:
  "retire_rounds env ow now db = Inr db' \<Longrightarrow> acq_ok env db \<Longrightarrow> env_laws env \<Longrightarrow>
     (acq_change env)\<^sup>*\<^sup>* db db' \<and> pending_rows (\<lambda>r. row_key r = owner_key ow) db' = []"
proof (induction env ow now db rule: retire_rounds.induct)
  case (1 env ow now db)
  let ?rs = "pending_batch (\<lambda>r. row_key r = owner_key ow) db"
  show ?case
  proof (cases "?rs = []")
    case True
    then show ?thesis using "1.prems" by (simp add: retire_rounds.simps [of env ow now db])
  next
    case False
    then obtain db1 where d: "retire_batch env ow now ?rs db = Inr db1" "retire_rounds env ow now db1 = Inr db'"
      using "1.prems"(1) by (auto simp: retire_rounds.simps [of env ow now db] Let_def simp del: batch_empty split: sum.splits)
    have "(acq_change env)\<^sup>*\<^sup>* db db1"
      by (rule retire_batch_changes [OF d(1) "1.prems"(3) batch_rows batch_distinct [OF acq_ok_ids [OF "1.prems"(2)]]])
    then show ?thesis
      using "1.IH" [OF refl False d(1,2) _ "1.prems"(3)] acq_changes_ok "1.prems"(2,3) by (meson rtranclp_trans)
  qed
qed

lemma retireOwner_changes:
  assumes "retireOwner env ow now db = Inr db'" and "acq_ok env db" and "env_laws env"
  shows "(acq_change env)\<^sup>*\<^sup>* db db'"
proof -
  let ?db = "retire_entry (owner_key ow) now db"
  have entry: "(acq_change env)\<^sup>*\<^sup>* db ?db" by (rule retire_entry_changes)
  then have "acq_ok env ?db" using assms(2,3) acq_changes_ok by blast
  then show ?thesis
    using entry retire_rounds_changes [of env ow now ?db db'] assms(1,3) by (auto simp: retireOwner_def)
qed

lemma retire_owners_changes:
  "retire_owners env ows now db = Inr db' \<Longrightarrow> acq_ok env db \<Longrightarrow> env_laws env \<Longrightarrow> (acq_change env)\<^sup>*\<^sup>* db db'"
proof (induction ows arbitrary: db)
  case (Cons ow ows)
  obtain db1 where d: "retireOwner env ow now db = Inr db1" "retire_owners env ows now db1 = Inr db'"
    using Cons.prems(1) by (auto split: sum.splits)
  have "(acq_change env)\<^sup>*\<^sup>* db db1" by (rule retireOwner_changes [OF d(1) Cons.prems(2,3)])
  then show ?case using Cons.IH [OF d(2)] Cons.prems acq_changes_ok by (meson rtranclp_trans)
qed simp

lemma runtime_rounds_changes:
  "runtime_rounds env rt now after db = Inr db' \<Longrightarrow> acq_ok env db \<Longrightarrow> env_laws env \<Longrightarrow> (acq_change env)\<^sup>*\<^sup>* db db'"
proof (induction env rt now after db rule: runtime_rounds.induct)
  case (1 env rt now after db)
  let ?ss = "session_batch rt after db"
  show ?case
  proof (cases "?ss = []")
    case True
    then show ?thesis using "1.prems" by (simp add: runtime_rounds.simps [of env rt now after db])
  next
    case False
    then obtain db1 where d: "retire_owners env (map (\<lambda>s. \<lparr>ow_runtime = rt, ow_session = s\<rparr>) ?ss) now db = Inr db1"
        "runtime_rounds env rt now (Some (last ?ss)) db1 = Inr db'"
      using "1.prems"(1) by (auto simp: runtime_rounds.simps [of env rt now after db] Let_def split: sum.splits)
    have "(acq_change env)\<^sup>*\<^sup>* db db1" by (rule retire_owners_changes [OF d(1) "1.prems"(2,3)])
    then show ?thesis
      using "1.IH" [OF refl False d(1,2) _ "1.prems"(3)] acq_changes_ok "1.prems"(2,3) by (meson rtranclp_trans)
  qed
qed

subsection \<open>Calls\<close>

text \<open>A call of the host. \<open>OtherWork\<close> is whatever the grant store and its clients do in between.\<close>

datatype 'n acq_call =
    CallAdmit ustring "'n admission" int continuation
  | CallResolve ustring acq_owner ustring "'n json" "'n resolution store_op" int
  | CallWithdraw ustring acq_owner ustring int
  | CallAcknowledge ustring acq_owner ustring int
  | CallDelivery ustring acq_owner continuation
  | CallSupersede ustring acq_owner int
  | CallResolveTarget ustring "'n json" "'n resolution" int
  | CallRetire acq_owner int
  | CallRetireSession ustring int
  | CallRetireRuntime ustring int
  | OtherWork "grant_store \<Rightarrow> grant_store"

fun acq_exec :: "'n json_env \<Rightarrow> 'n acq_call \<Rightarrow> 'n acq_store \<Rightarrow> 'n acq_store" where
  "acq_exec env (CallAdmit uuid inp now delivery) st = snd (admit env uuid inp now delivery st)"
| "acq_exec env (CallResolve i ow b d write now) st = snd (resolve env i ow b d write now st)"
| "acq_exec env (CallWithdraw i ow b now) st = snd (withdraw env i ow b now st)"
| "acq_exec env (CallAcknowledge i ow rd now) st = snd (acknowledge env i ow rd now st)"
| "acq_exec env (CallDelivery i ow c) st = snd (setDeliveryOwner env i ow c st)"
| "acq_exec env (CallSupersede key ow now) st = snd (supersede env key ow now st)"
| "acq_exec env (CallResolveTarget q d res now) st = snd (resolveTarget env q d res now st)"
| "acq_exec env (CallRetire ow now) st = snd (retire env ow now st)"
| "acq_exec env (CallRetireSession s now) st = snd (retireSession env s now st)"
| "acq_exec env (CallRetireRuntime rt now) st = snd (retireRuntime env rt now st)"
| "acq_exec env (OtherWork f) st = st\<lparr>as_grants := f (as_grants st)\<rparr>"

definition acq_run :: "'n json_env \<Rightarrow> 'n acq_call list \<Rightarrow> 'n acq_store \<Rightarrow> 'n acq_store" where
  "acq_run env calls st = fold (acq_exec env) calls st"

definition new_acq_store :: "'n acq_store" where
  "new_acq_store = \<lparr>as_db = \<lparr>ad_owners = [], ad_rows = []\<rparr>, as_grants = new_grant_store\<rparr>"

text \<open>A transaction on the acquisition tables alone leaves the grants as they were.\<close>

lemma acq_transaction_db:
  "acq_transaction (on_db f) st =
     (case f (as_db st) of Inl e \<Rightarrow> (Inl e, st) | Inr (a, db) \<Rightarrow> (Inr a, st\<lparr>as_db := db\<rparr>))"
  by (cases "f (as_db st)"; cases "st_pending (as_grants st)")
    (auto simp: acq_transaction_def on_db_def transaction_def Let_def split: prod.splits)

lemma acq_transaction_result:
  "as_db (snd (acq_transaction work st)) = as_db st \<or>
   (\<exists>a st'. work (st\<lparr>as_grants := (as_grants st)\<lparr>st_pending := Some []\<rparr>\<rparr>) = (Inr a, st') \<and>
      as_db (snd (acq_transaction work st)) = as_db st')"
  by (cases "work (st\<lparr>as_grants := (as_grants st)\<lparr>st_pending := Some []\<rparr>\<rparr>)"; cases "st_pending (as_grants st)")
    (auto simp: acq_transaction_def transaction_def Let_def split: prod.splits sum.splits)

lemma resolve_check_record:
  "resolve_check env i ow b d db = Inr a \<Longrightarrow> require_acquisition env i ow db = Inr a"
  by (auto simp: resolve_check_def split: sum.splits if_splits option.splits)

lemma resolve_in_changes:
  assumes "resolve_in env i ow b d write now st = (Inr x, st')"
  shows "(acq_change env)\<^sup>*\<^sup>* (as_db st) (as_db st')"
proof -
  obtain a where a: "resolve_check env i ow b d (as_db st) = Inr a"
    using assms by (auto simp: resolve_in_def split: sum.splits)
  obtain r where r: "r \<in> set (ad_rows (as_db st))" "owned env r (row_owner r) = Inr a"
    using require_acquisition_row [OF resolve_check_record [OF a]] by blast
  show ?thesis
  proof (cases "ac_state a = Pending")
    case True
    obtain res g db where "write (as_grants st) = (Inr res, g)" "requireResolution env res = Inr ()"
        "storeResolution env a d res now (as_db st) = Inr db" "as_db st' = db"
      using assms a True by (auto simp: resolve_in_def split: sum.splits prod.splits)
    then show ?thesis using acq_change.row_settled [OF r] by blast
  next
    case False
    then show ?thesis using assms a by (simp add: resolve_in_def)
  qed
qed

lemma withdraw_in_changes:
  assumes "withdraw_in env i ow b now db = Inr (x, db')" and "env_laws env"
  shows "(acq_change env)\<^sup>*\<^sup>* db db'"
proof -
  obtain a where a: "require_acquisition env i ow db = Inr a" using assms(1) by (auto simp: withdraw_in_def split: sum.splits)
  obtain r where r: "r \<in> set (ad_rows db)" "owned env r (row_owner r) = Inr a" using require_acquisition_row [OF a] by blast
  show ?thesis
    using assms(1) a acq_change.row_settled [OF r internal_resolutions(2) [OF assms(2)]]
    by (auto simp: withdraw_in_def split: sum.splits if_splits)
qed

text \<open>A record says what its row says; ids are distinct, so no other row is meant.\<close>

lemma record_row_state:
  assumes "acq_ok env db" and "r \<in> set (ad_rows db)" and "owned env r ow = Inr a"
  shows "list_all (\<lambda>q. aq_id q = aq_id r \<longrightarrow> aq_state q = ac_state a) (ad_rows db)"
  using same_row [of "ad_rows db" r] acq_ok_ids [OF assms(1)] assms(2) owned_binding [OF assms(3)] by (fastforce simp: list_all_iff)

lemma acknowledge_in_changes:
  assumes "acknowledge_in env i ow rd now db = Inr (x, db')" and "acq_ok env db"
  shows "(acq_change env)\<^sup>*\<^sup>* db db'"
proof -
  obtain a where a: "require_acquisition env i ow db = Inr a" "ac_state a \<noteq> Pending"
      "db' = update_rows (\<lambda>r. aq_id r = sql_text i \<and> aq_acknowledgedAt r = None) (\<lambda>r. r\<lparr>aq_acknowledgedAt := Some now\<rparr>) db"
    using assms(1) by (auto simp: acknowledge_in_def split: sum.splits if_splits)
  obtain r where r: "r \<in> set (ad_rows db)" "aq_id r = sql_text i" "owned env r ow = Inr a"
    using require_acquisition_row [OF a(1)] by blast
  have "list_all (\<lambda>q. aq_id q = sql_text i \<longrightarrow> aq_state q \<noteq> Pending) (ad_rows db)"
    using record_row_state [OF assms(2) r(1,3)] a(2) r(2) by (auto simp: list_all_iff)
  then show ?thesis unfolding a(3) by (intro r_into_rtranclp acq_change.row_acknowledged)
qed

lemma supersede_in_changes:
  assumes "supersede_in env key ow now db = Inr (x, db')" and "acq_ok env db"
  shows "(acq_change env)\<^sup>*\<^sup>* db db'"
proof (cases "current_acquisition env key ow db")
  case (Inr o')
  show ?thesis
  proof (cases "\<exists>a. o' = Some a \<and> ac_state a \<noteq> Pending")
    case True
    then obtain a where a: "current_acquisition env key ow db = Inr (Some a)" "ac_state a \<noteq> Pending" using Inr by blast
    then have db': "db' = update_rows (\<lambda>r. aq_id r = ac_id a) (\<lambda>r. r\<lparr>aq_supersededAt := Some now\<rparr>) db"
      using assms(1) by (auto simp: supersede_in_def split: sum.splits)
    obtain r where r: "r \<in> set (ad_rows db)" "owned env r ow = Inr a" using current_acquisition_row [OF a(1)] by blast
    have "list_all (\<lambda>q. aq_id q = ac_id a \<longrightarrow> aq_state q \<noteq> Pending) (ad_rows db)"
      using record_row_state [OF assms(2) r] a(2) owned_id [OF r(2)] by (auto simp: list_all_iff)
    then show ?thesis unfolding db' by (intro r_into_rtranclp acq_change.row_superseded)
  next
    case False
    then show ?thesis using assms(1) Inr by (auto simp: supersede_in_def split: sum.splits option.splits)
  qed
next
  case (Inl e)
  then show ?thesis using assms(1) by (simp add: supersede_in_def split: sum.splits)
qed

lemma acq_exec_changes:
  assumes "env_laws env" and "acq_ok env (as_db st)"
  shows "(acq_change env)\<^sup>*\<^sup>* (as_db st) (as_db (acq_exec env c st))"
proof (cases c)
  case (CallAdmit uuid inp now delivery)
  then show ?thesis
    by (auto simp: admit_def acq_transaction_db dest: admit_in_changes split: sum.splits)
next
  case (CallResolve i ow b d w now)
  then show ?thesis
    using acq_transaction_result [of "resolve_in env i ow b d w now" st]
    by (auto simp: resolve_def dest: resolve_in_changes)
next
  case (CallWithdraw i ow b now)
  then show ?thesis
    using assms by (auto simp: withdraw_def acq_transaction_db dest: withdraw_in_changes split: sum.splits)
next
  case (CallAcknowledge i ow rd now)
  then show ?thesis
    using assms by (auto simp: acknowledge_def acq_transaction_db dest: acknowledge_in_changes split: sum.splits)
next
  case (CallDelivery i ow delivery)
  then show ?thesis
    by (auto simp: setDeliveryOwner_def setDeliveryOwner_in_def acq_transaction_db intro: acq_change.row_delivery split: sum.splits)
next
  case (CallSupersede key ow now)
  then show ?thesis
    using assms by (auto simp: supersede_def acq_transaction_db dest: supersede_in_changes split: sum.splits)
next
  case (CallResolveTarget q d res now)
  then show ?thesis
    using assms by (auto simp: resolveTarget_def acq_transaction_db dest: target_rounds_changes split: sum.splits)
next
  case (CallRetire ow now)
  then show ?thesis
    using assms by (auto simp: retire_def no_result_def acq_transaction_db dest: retireOwner_changes split: sum.splits)
next
  case (CallRetireSession s now)
  then show ?thesis
    using assms by (auto simp: retireSession_def no_result_def acq_transaction_db dest: retire_owners_changes split: sum.splits)
next
  case (CallRetireRuntime rt now)
  then show ?thesis
    using assms by (auto simp: retireRuntime_def no_result_def acq_transaction_db dest: runtime_rounds_changes split: sum.splits)
qed simp

lemma acq_run_changes:
  "env_laws env \<Longrightarrow> acq_ok env (as_db st) \<Longrightarrow> (acq_change env)\<^sup>*\<^sup>* (as_db st) (as_db (acq_run env calls st))"
proof (induction calls arbitrary: st)
  case (Cons c calls)
  note step = acq_exec_changes [OF Cons.prems, of c]
  then have "acq_ok env (as_db (acq_exec env c st))" using acq_changes_ok Cons.prems by blast
  then show ?case using Cons.IH [of "acq_exec env c st"] Cons.prems(1) step by (simp add: acq_run_def)
qed (simp add: acq_run_def)

lemma new_acq_ok: "acq_ok env (as_db new_acq_store)"
  by (simp add: acq_ok_def new_acq_store_def)

lemma acq_run_ok: "env_laws env \<Longrightarrow> acq_ok env (as_db (acq_run env calls new_acq_store))"
  using acq_run_changes [OF _ new_acq_ok] acq_changes_ok new_acq_ok by blast

end
