(* ===== verification/AcquisitionFinal.thy ===== *)
theory AcquisitionFinal
  imports AcquisitionRuns
begin

text \<open>
  What callers of the acquisition store rely on: a decision is written once and its receipt is
  final, a retired owner is fenced for good, and in every reachable state the stored rows verify.
\<close>

subsection \<open>Receipts are final\<close>

text \<open>How a row goes on.\<close>

definition row_follows :: "'n acq_row \<Rightarrow> 'n acq_row \<Rightarrow> bool" where
  "row_follows r r' \<longleftrightarrow> aq_id r' = aq_id r \<and> aq_requestKey r' = aq_requestKey r \<and> row_key r' = row_key r \<and>
     aq_binding r' = aq_binding r \<and> aq_bindingDigest r' = aq_bindingDigest r \<and> aq_createdAt r' = aq_createdAt r \<and>
     (aq_state r \<noteq> Pending \<longrightarrow> aq_state r' = aq_state r \<and> aq_receipt r' = aq_receipt r)"

lemma row_follows_refl [simp]: "row_follows r r"
  by (simp add: row_follows_def)

lemma row_follows_trans: "row_follows r s \<Longrightarrow> row_follows s t \<Longrightarrow> row_follows r t"
  by (auto simp: row_follows_def)

lemma follows_update:
  assumes "r \<in> set (ad_rows db)" and "\<And>r. p r \<Longrightarrow> row_follows r (f r)"
  shows "\<exists>r' \<in> set (ad_rows (update_rows p f db)). row_follows r r'"
proof (cases "p r")
  case True
  then have "f r \<in> set (ad_rows (update_rows p f db))" using assms(1) by (force simp: update_rows_def sql_update_def)
  then show ?thesis using assms(2) True by blast
next
  case False
  then have "r \<in> set (ad_rows (update_rows p f db))" using assms(1) by (force simp: update_rows_def sql_update_def)
  then show ?thesis using row_follows_refl by blast
qed

lemma change_follows:
  "acq_change env db db' \<Longrightarrow> r \<in> set (ad_rows db) \<Longrightarrow> \<exists>r' \<in> set (ad_rows db'). row_follows r r'"
proof (induction rule: acq_change.induct)
  case (row_settled q db a res d now db')
  obtain rc where "db' = update_rows (\<lambda>r. aq_id r = ac_id a \<and> aq_state r = Pending) (settled_row (fst res) rc) db"
    using storeResolution_rows [OF row_settled(4)] by blast
  then show ?case
    using follows_update [OF row_settled.prems, of "\<lambda>r. aq_id r = ac_id a \<and> aq_state r = Pending" "settled_row (fst res) rc"]
    by (simp add: row_follows_def settled_row_def row_key_def)
next
  case (row_acknowledged i db now)
  then show ?case by (intro follows_update) (auto simp: row_follows_def row_key_def)
next
  case (row_delivery i delivery db)
  then show ?case by (intro follows_update) (auto simp: row_follows_def row_key_def)
next
  case (row_superseded i db now)
  then show ?case by (intro follows_update) (auto simp: row_follows_def row_key_def)
qed (use row_follows_refl in \<open>auto intro!: bexI\<close>)

lemma changes_follow:
  "(acq_change env)\<^sup>*\<^sup>* db db' \<Longrightarrow> r \<in> set (ad_rows db) \<Longrightarrow> \<exists>r' \<in> set (ad_rows db'). row_follows r r'"
proof (induction rule: rtranclp_induct)
  case (step db1 db2)
  then obtain s where "s \<in> set (ad_rows db1)" "row_follows r s" by blast
  then show ?case using change_follows [OF step(2)] row_follows_trans by blast
qed (use row_follows_refl in blast)

lemma find_row_id:
  "distinct (map aq_id rows) \<Longrightarrow> r \<in> set rows \<Longrightarrow> List.find (\<lambda>q. aq_id q = aq_id r) rows = Some r"
  by (induction rows) auto

lemma get_row:
  assumes "acq_ok env db" and "r \<in> set (ad_rows db)" and "aq_id r = sql_text i"
  shows "get_acquisition env i ow db = owned_option env ow (Some r)"
  using find_row_id [OF acq_ok_ids [OF assms(1)] assms(2)] assms(3) by (simp add: get_acquisition_def)

text \<open>The record of a row that goes on reads the same, the delivery columns apart.\<close>

lemma record_follows:
  assumes "acq_ok env db" and "(acq_change env)\<^sup>*\<^sup>* db db'" and "env_laws env"
    and "require_acquisition env i ow db = Inr a" and "ac_state a \<noteq> Pending"
  shows "\<exists>a'. require_acquisition env i ow db' = Inr a' \<and> ac_admission a' = ac_admission a \<and>
    ac_bindingDigest a' = ac_bindingDigest a \<and> ac_state a' = ac_state a \<and> ac_receipt a' = ac_receipt a"
proof -
  obtain r where r: "r \<in> set (ad_rows db)" "aq_id r = sql_text i" "owned env r ow = Inr a"
    using require_acquisition_row [OF assms(4)] by blast
  obtain r' where r': "r' \<in> set (ad_rows db')" "row_follows r r'" using changes_follow [OF assms(2) r(1)] by blast
  have ok': "acq_ok env db'" using acq_changes_ok [OF assms(2,3,1)] .
  note b = owned_binding [OF r(3)]
  have "row_ok env r'" using ok' r'(1) by (simp add: acq_ok_def list_all_iff)
  then obtain a' where a': "owned env r' ow = Inr a'"
    using owned_ok [of env r' ow] r'(2) b by (auto simp: row_follows_def row_key_def)
  have "aq_id r' = sql_text i" using r'(2) r(2) by (simp add: row_follows_def)
  then have "require_acquisition env i ow db' = Inr a'"
    using get_row [OF ok' r'(1), of i ow] a' by (simp add: require_acquisition_def owned_option_def)
  moreover have "aq_state r \<noteq> Pending" using b assms(5) by simp
  ultimately show ?thesis
    using owned_binding [OF a'] b r'(2) by (auto simp: row_follows_def)
qed

text \<open>A transaction whose work changes nothing changes nothing.\<close>

lemma acq_transaction_same:
  assumes "work (st\<lparr>as_grants := (as_grants st)\<lparr>st_pending := Some []\<rparr>\<rparr>) = (r, st\<lparr>as_grants := (as_grants st)\<lparr>st_pending := Some []\<rparr>\<rparr>)"
  shows "acq_transaction work st = (r, st)"
  using assms by (cases r; cases "st_pending (as_grants st)") (auto simp: acq_transaction_def transaction_def Let_def)

lemma resolve_unchanged:
  assumes "\<And>a. resolve_check env i ow b d (as_db st) = Inr a \<Longrightarrow> ac_state a \<noteq> Pending"
  shows "snd (resolve env i ow b d w now st) = st"
proof -
  let ?st = "st\<lparr>as_grants := (as_grants st)\<lparr>st_pending := Some []\<rparr>\<rparr>"
  obtain r where "resolve_in env i ow b d w now ?st = (r, ?st)"
    using assms by (cases "resolve_check env i ow b d (as_db st)") (auto simp: resolve_in_def)
  then show ?thesis by (simp add: resolve_def acq_transaction_same)
qed

text \<open>What a decision returns.\<close>

lemma storeResolution_decision:
  assumes "env_laws env" and "storeResolution env a d res now db = Inr db'"
  shows "\<exists>rc. db' = update_rows (\<lambda>r. aq_id r = ac_id a \<and> aq_state r = Pending) (settled_row (fst res) rc) db \<and>
    canonical env (rc_decision rc) = canonical env d"
proof -
  obtain dd rd d' v where stored: "canonical_value env d = Inr d'"
      "db' = update_rows (\<lambda>r. aq_id r = ac_id a \<and> aq_state r = Pending)
         (settled_row (fst res) \<lparr>rc_decision = d', rc_decisionDigest = dd, rc_resolution = (fst res, v),
            rc_resolutionDigest = rd, rc_settledAt = now\<rparr>) db"
    using assms(2) by (auto simp: storeResolution_def split: sum.splits)
  have "canonical env d' = canonical env d"
    using canonical_normal [OF canonical_value_normal(1) [OF assms(1) stored(1)]] by (simp add: canonical_def)
  then show ?thesis using stored(2) by (intro exI [of _ "\<lparr>rc_decision = d', rc_decisionDigest = dd, rc_resolution = (fst res, v),
            rc_resolutionDigest = rd, rc_settledAt = now\<rparr>"]) simp
qed

lemma resolve_decided:
  assumes "env_laws env" and "acq_ok env (as_db st)" and "resolve env i ow b d w now st = (Inr a, st')"
  shows "require_acquisition env i ow (as_db st') = Inr a \<and>
    (\<exists>rc. ac_receipt a = Some rc \<and> canonical env (rc_decision rc) = canonical env d) \<and> ac_state a \<noteq> Pending"
proof -
  let ?st = "st\<lparr>as_grants := (as_grants st)\<lparr>st_pending := Some []\<rparr>\<rparr>"
  obtain st1 where st1: "resolve_in env i ow b d w now ?st = (Inr a, st1)" "as_db st' = as_db st1"
    using assms(3) by (cases "resolve_in env i ow b d w now ?st"; cases "st_pending (as_grants st)")
      (auto simp: resolve_def acq_transaction_def transaction_def Let_def split: sum.splits prod.splits)
  obtain a0 where a0: "resolve_check env i ow b d (as_db st) = Inr a0"
    using st1(1) by (auto simp: resolve_in_def split: sum.splits)
  have req: "require_acquisition env i ow (as_db st) = Inr a0" by (rule resolve_check_record [OF a0])
  then obtain r where r: "r \<in> set (ad_rows (as_db st))" "aq_id r = sql_text i" "owned env r ow = Inr a0"
    using require_acquisition_row by blast
  note b0 = owned_binding [OF r(3)]
  show ?thesis
  proof (cases "ac_state a0 = Pending")
    case False
    then have "a = a0" "as_db st1 = as_db st" using st1(1) a0 by (auto simp: resolve_in_def)
    moreover have "\<exists>rc. ac_receipt a0 = Some rc \<and> canonical env (rc_decision rc) = canonical env d"
      using a0 False b0 by (auto simp: resolve_check_def split: sum.splits if_splits option.splits)
    ultimately show ?thesis using req False st1(2) by simp
  next
    case True
    obtain res g db where db: "requireResolution env res = Inr ()"
        "storeResolution env a0 d res now (as_db st) = Inr db" "st1 = \<lparr>as_db = db, as_grants = g\<rparr>"
        "require_acquisition env i ow db = Inr a"
      using st1(1) a0 True by (auto simp: resolve_in_def split: sum.splits prod.splits)
    obtain rc where rc: "db = update_rows (\<lambda>r. aq_id r = ac_id a0 \<and> aq_state r = Pending) (settled_row (fst res) rc) (as_db st)"
        "canonical env (rc_decision rc) = canonical env d"
      using storeResolution_decision [OF assms(1) db(2)] by blast
    have "acq_change env (as_db st) db"
      by (rule acq_change.row_settled [OF r(1) owned_row_owner [OF r(3)] db(1,2)])
    then have ok': "acq_ok env db" using acq_change_ok assms(1,2) by blast
    have "settled_row (fst res) rc r \<in> set (ad_rows db)"
      using r(1) b0 True owned_id [OF r(3)] by (force simp: rc(1) update_rows_def sql_update_def)
    then have "require_acquisition env i ow db = (case owned env (settled_row (fst res) rc r) ow of Inl e \<Rightarrow> Inl e | Inr a \<Rightarrow> Inr a)"
      using get_row [OF ok', of "settled_row (fst res) rc r" i ow] r(2)
      by (simp add: require_acquisition_def owned_option_def settled_row_def split: sum.splits)
    then have "owned env (settled_row (fst res) rc r) ow = Inr a" using db(4) by (auto split: sum.splits)
    then have "ac_receipt a = Some rc" "ac_state a \<noteq> Pending"
      using owned_binding by (fastforce simp: settled_row_def)+
    then show ?thesis using db(3,4) rc(2) st1(2) by simp
  qed
qed

lemma acq_run_append: "acq_run env (cs @ ds) st = acq_run env ds (acq_run env cs st)"
  by (simp add: acq_run_def)

subsection \<open>A retired owner\<close>

definition fenced :: "owner_key \<Rightarrow> 'n acq_db \<Rightarrow> bool" where
  "fenced k db \<longleftrightarrow> (\<exists>at. map_of (ad_owners db) k = Some (Some at)) \<and>
     list_all (\<lambda>r. row_key r = k \<longrightarrow> aq_state r \<noteq> Pending) (ad_rows db)"

lemma fenced_update:
  assumes "fenced k db" and "\<And>r. row_key (f r) = row_key r \<and> (aq_state r \<noteq> Pending \<longrightarrow> aq_state (f r) \<noteq> Pending)"
  shows "fenced k (update_rows p f db)"
  using assms by (fastforce simp: fenced_def update_rows_def sql_update_def list_all_iff)

lemma change_fenced: "acq_change env db db' \<Longrightarrow> fenced k db \<Longrightarrow> fenced k db'"
proof (induction rule: acq_change.induct)
  case (owner_added k' db)
  then show ?case by (auto simp: fenced_def map_of_eq_None_iff [symmetric] map_add_def split: option.splits)
next
  case (owner_retired db k' at now)
  then show ?case by (auto simp: fenced_def)
next
  case (row_admitted r db)
  then show ?case by (auto simp: fenced_def)
next
  case (row_settled q db a res d now db')
  then show ?case using storeResolution_rows [OF row_settled(4)]
    by (auto simp: settled_row_def row_key_def intro: fenced_update)
qed (auto simp: row_key_def intro: fenced_update)

lemma changes_fenced: "(acq_change env)\<^sup>*\<^sup>* db db' \<Longrightarrow> fenced k db \<Longrightarrow> fenced k db'"
  by (induction rule: rtranclp_induct) (auto intro: change_fenced)

lemma retire_fences:
  assumes "retireOwner env ow now db = Inr db'" and "acq_ok env db" and "env_laws env"
  shows "fenced (owner_key ow) db'"
proof -
  let ?db = "retire_entry (owner_key ow) now db"
  have rounds: "retire_rounds env ow now ?db = Inr db'" using assms(1) by (simp add: retireOwner_def)
  have "acq_ok env ?db" using acq_changes_ok [OF retire_entry_changes assms(3,2)] .
  then have "pending_rows (\<lambda>r. row_key r = owner_key ow) db' = []"
    using retire_rounds_changes [OF rounds] assms(3) by blast
  moreover have "\<exists>at. map_of (ad_owners ?db) (owner_key ow) = Some (Some at)"
    by (auto simp: retire_entry_def split: option.splits)
  ultimately show ?thesis
    using retire_rounds_owners [OF rounds] by (auto simp: fenced_def pending_rows_def filter_empty_conv list_all_iff)
qed

lemma fenced_inactive: "fenced (owner_key ow) db \<Longrightarrow> \<exists>e. requireActiveOwner ow db = Inl e"
  by (auto simp: fenced_def requireActiveOwner_def)

end
