(* ===== verification/AcquisitionProps.thy ===== *)
theory AcquisitionProps
  imports AcquisitionFinal
begin

text \<open>
  Progress and the properties of the acquisition store: a valid ask is admitted and decided, a
  decision is written once, a retired owner is fenced, every stored row verifies.
\<close>

subsection \<open>Progress\<close>

lemma canonical_object_ok:
  assumes "distinct (map (\<lambda>f. je_nfc env (fst f)) fs)" and "list_all (\<lambda>f. ok (normalize_json env (snd f))) fs"
  shows "\<exists>t. canonical env (JObject fs) = Inr t"
  using normalize_object_ok [OF assms] by (auto simp: canonical_def sharedCanonicalJson_def)

lemma digest_object_ok:
  assumes "distinct (map (\<lambda>f. je_nfc env (fst f)) fs)" and "list_all (\<lambda>f. ok (normalize_json env (snd f))) fs"
  shows "\<exists>d. acquisition_digest env kind (JObject fs) = Inr d"
  using canonical_object_ok [OF assms] by (auto simp: acquisition_digest_def)

lemma admission_json_ok:
  assumes "env_laws env" and "ok (normalize_json env (am_facts a))"
  shows "ok (normalize_json env (admission_json a))" and "\<exists>t. canonical env (admission_json a) = Inr t"
proof -
  have nfc: "je_nfc env (ascii s) = ascii s" for s using assms(1) by (simp add: env_laws_def)
  let ?fs = "[(ascii ''ownerRuntimeId'', JString (ow_runtime a)), (ascii ''sessionId'', JString (ow_session a)),
     (ascii ''requestKey'', JString (am_requestKey a)), (ascii ''facts'', am_facts a)]"
  have "distinct (map (\<lambda>f. je_nfc env (fst f)) ?fs)" "list_all (\<lambda>f. ok (normalize_json env (snd f))) ?fs"
    using assms(2) by (simp_all add: nfc ascii_inject del: ascii_simps)
  from normalize_object_ok [OF this] canonical_object_ok [OF this]
  show "ok (normalize_json env (admission_json a))" "\<exists>t. canonical env (admission_json a) = Inr t"
    by (auto simp: admission_json_def ok_iff simp del: ascii_simps normalize_json.simps)
qed

lemma binding_digest_ok:
  assumes "env_laws env" and "ok (normalize_json env (am_facts a))"
  shows "\<exists>d. binding_digest env i at a = Inr d"
  unfolding binding_digest_def
  by (rule digest_object_ok)
    (use assms admission_json_ok [OF assms] in \<open>auto simp: env_laws_def ascii_inject ok_iff simp del: ascii_simps\<close>)

lemma decision_digests_ok:
  assumes "env_laws env" and "ok (normalize_json env d)" and "ok (normalize_json env (snd res))"
  shows "\<exists>dd. decision_digest env i b d = Inr dd" and "\<exists>rd. resolution_digest env i b dd res = Inr rd"
proof -
  have nfc: "je_nfc env (ascii s) = ascii s" for s using assms(1) by (simp add: env_laws_def)
  show "\<exists>dd. decision_digest env i b d = Inr dd"
    unfolding decision_digest_def using assms(2)
    by (intro digest_object_ok) (simp_all add: nfc ascii_inject del: ascii_simps)
  have "ok (normalize_json env (resolution_json res))"
    using normalize_object_ok [of env "[(ascii ''state'', JString (outcome_text (fst res))), (ascii ''value'', snd res)]"] assms(3)
    by (auto simp: resolution_json_def ok_iff nfc ascii_inject simp del: ascii_simps normalize_json.simps(7))
  then show "\<exists>rd. resolution_digest env i b dd res = Inr rd"
    unfolding resolution_digest_def
    by (intro digest_object_ok) (simp_all add: nfc ascii_inject del: ascii_simps)
qed

text \<open>A valid ask: exact owner and key, facts that JSON can say, no lone surrogates.\<close>

definition valid_ask :: "'n json_env \<Rightarrow> 'n admission \<Rightarrow> bool" where
  "valid_ask env inp \<longleftrightarrow> exact_owner inp \<and> \<not> blank_or_nul (am_requestKey inp) \<and> json_value env (am_facts inp) \<and>
     ok (normalize_json env (am_facts inp)) \<and> well_formed (ow_runtime inp) \<and> well_formed (ow_session inp) \<and>
     well_formed (am_requestKey inp)"

lemma well_formed_unit: "\<not> high_surrogate u \<Longrightarrow> \<not> low_surrogate u \<Longrightarrow> well_formed (u # t) = well_formed t"
  by (cases t) simp_all

lemma acquisition_id_text: "well_formed uuid \<Longrightarrow> sql_text (ascii ''acq:'' @ uuid) = ascii ''acq:'' @ uuid"
  by (rule sql_text_id) (simp add: well_formed_unit high_surrogate_def low_surrogate_def)

lemma owned_admitted:
  assumes "env_laws env" and "valid_ask env inp" and "well_formed i" and "binding_digest env i now inp = Inr d"
  shows "owned env (admit_row i inp env d now delivery) inp = Inr (record_of (admit_row i inp env d now delivery) None)"
proof -
  have "normalize_json env (am_facts inp) = normalize_json env (reparse env (am_facts inp))"
    using normalize_reparse [of env "am_facts inp"] assms(2) by (simp add: valid_ask_def)
  then have "binding_digest env i now (inp\<lparr>am_facts := reparse env (am_facts inp)\<rparr>) = Inr d"
    using binding_digest_facts [of env inp] assms(4) by simp
  then show ?thesis
    using assms(2) sql_text_id [OF assms(3)] by (simp add: owned_def admit_row_def valid_ask_def sql_text_id)
qed

lemma admit_fresh:
  assumes "env_laws env" and "valid_ask env inp" and "well_formed uuid"
    and "map_of (ad_owners (as_db st)) (owner_key inp) \<in> {None, Some None}"
    and "List.find (is_current (am_requestKey inp)) (ad_rows (as_db st)) = None"
    and "ascii ''acq:'' @ uuid \<notin> aq_id ` set (ad_rows (as_db st))"
    and "binding_digest env (ascii ''acq:'' @ uuid) now inp = Inr d"
    and r_def: "r = admit_row (ascii ''acq:'' @ uuid) inp env d now delivery"
  shows "admit env uuid inp now delivery st = (Inr (record_of r None), st\<lparr>as_db := (insert_owner (owner_key inp) (as_db st))
      \<lparr>ad_rows := ad_rows (as_db st) @ [r]\<rparr>\<rparr>)"
proof -
  let ?i = "ascii ''acq:'' @ uuid" and ?db = "insert_owner (owner_key inp) (as_db st)"
  have i: "sql_text ?i = ?i" by (rule acquisition_id_text [OF assms(3)])
  then have "well_formed ?i" by (metis well_formed_sql_text)
  then have own: "owned env r inp = Inr (record_of r None)"
    unfolding r_def by (rule owned_admitted [OF assms(1,2) _ assms(7)])
  obtain t where t: "canonical env (admission_json inp) = Inr t"
    using admission_json_ok(2) [OF assms(1)] assms(2) by (auto simp: valid_ask_def)
  have rows: "ad_rows ?db = ad_rows (as_db st)" by (simp add: insert_owner_def)
  have "map_of (ad_owners ?db) (owner_key inp) = Some None"
    using assms(4) by (auto simp: insert_owner_def jhas_def map_add_def)
  then have active: "requireActiveOwner inp ?db = Inr ()"
    using assms(2) by (simp add: requireActiveOwner_def valid_ask_def)
  have current: "current_acquisition env (am_requestKey inp) inp ?db = Inr None"
    using assms(5) by (simp add: current_acquisition_def owned_option_def rows)
  have "List.find (\<lambda>q. aq_id q = sql_text ?i) (ad_rows (as_db st)) = None"
    using assms(6) unfolding i find_None_iff by (metis image_eqI)
  then have "require_acquisition env ?i inp (?db\<lparr>ad_rows := ad_rows ?db @ [r]\<rparr>) = Inr (record_of r None)"
    using own by (simp add: require_acquisition_def get_acquisition_def owned_option_def find_append rows)
      (simp add: r_def admit_row_def)
  then have "admit_new env uuid inp now delivery ?db = Inr (record_of r None, ?db\<lparr>ad_rows := ad_rows ?db @ [r]\<rparr>)"
    using assms(6,7) i by (simp add: admit_new_def Let_def rows r_def del: ascii_simps)
  then show ?thesis
    using assms(2) active current t
    by (simp add: admit_def admit_in_def Let_def acq_transaction_db valid_ask_def rows del: ascii_simps)
qed

lemma normalize_child:
  assumes "normalize_json env (JObject fs) = Inr w" and "f \<in> set fs"
  shows "ok (normalize_json env (snd f))"
proof -
  let ?rs = "sort_bytes (map (map_prod (je_nfc env) (\<lambda>r. r)) (own_order (map (map_prod (\<lambda>k. k) (normalize_json env)) fs)))"
  obtain gs where "normalize_fields ?rs [] = Inr gs" using assms(1) by (auto split: sum.splits)
  from normalize_fields_result [OF this] obtain hs where "?rs = map (map_prod (\<lambda>k. k) Inr) hs" by blast
  moreover have "(je_nfc env (fst f), normalize_json env (snd f)) \<in> set ?rs"
    using assms(2) by (force simp: sort_bytes_def)
  ultimately show ?thesis by auto
qed

lemma normalize_undefined: "normalize_json env v = Inr JUndefined \<longleftrightarrow> v = JUndefined"
  by (cases v) (auto split: sum.splits)

lemma canonical_Inr: "canonical env v = Inr t \<Longrightarrow> ok (normalize_json env v) \<and> (\<exists>w. canonical_value env v = Inr w)"
  by (auto simp: canonical_def sharedCanonicalJson_def canonical_value_def ok_iff split: sum.splits option.splits)

lemma resolve_pending:
  assumes "env_laws env" and "acq_ok env (as_db st)" and "require_acquisition env i ow (as_db st) = Inr a"
    and "ac_state a = Pending" and "requireActiveOwner ow (as_db st) = Inr ()" and "canonical env d = Inr t"
    and "w ((as_grants st)\<lparr>st_pending := Some []\<rparr>) = (Inr res, g)" and "requireResolution env res = Inr ()"
  shows "\<exists>a' st'. resolve env i ow (ac_bindingDigest a) d w now st = (Inr a', st')"
proof -
  let ?st = "st\<lparr>as_grants := (as_grants st)\<lparr>st_pending := Some []\<rparr>\<rparr>"
  obtain r where r: "r \<in> set (ad_rows (as_db st))" "aq_id r = sql_text i" "owned env r ow = Inr a"
    using require_acquisition_row [OF assms(3)] by blast
  have "snd res \<noteq> JUndefined" "\<exists>t. canonical env (resolution_json res) = Inr t"
    using assms(8) by (auto simp: requireResolution_def split: if_splits sum.splits)
  then have val: "ok (normalize_json env (snd res))" "\<exists>v. canonical_value env (snd res) = Inr v"
    using normalize_child [of env "[(ascii ''state'', JString (outcome_text (fst res))), (ascii ''value'', snd res)]" _ "(ascii ''value'', snd res)"]
      canonical_Inr [of env "resolution_json res"] normalize_undefined [of env "snd res"]
    by (auto simp: resolution_json_def ok_iff canonical_value_def simp del: ascii_simps normalize_json.simps)
  note dec = canonical_Inr [OF assms(6)]
  obtain dd where dd: "decision_digest env (ac_id a) (ac_bindingDigest a) d = Inr dd"
    using decision_digests_ok(1) [OF assms(1)] dec val(1) by blast
  obtain rd where rd: "resolution_digest env (ac_id a) (ac_bindingDigest a) dd res = Inr rd"
    using decision_digests_ok(2) [OF assms(1)] dec val(1) by blast
  obtain db where db: "storeResolution env a d res now (as_db st) = Inr db"
    using dd rd dec val(2) by (auto simp: storeResolution_def)
  have change: "acq_change env (as_db st) db"
    by (rule acq_change.row_settled [OF r(1) owned_row_owner [OF r(3)] assms(8) db])
  have ok': "acq_ok env db" by (rule acq_change_ok [OF change assms(1,2)])
  obtain r' where r': "r' \<in> set (ad_rows db)" "row_follows r r'" using change_follows [OF change r(1)] by blast
  have "row_ok env r'" using ok' r'(1) by (simp add: acq_ok_def list_all_iff)
  then obtain a' where "owned env r' ow = Inr a'"
    using owned_ok [of env r' ow] r'(2) owned_binding [OF r(3)] by (auto simp: row_follows_def row_key_def)
  moreover have "aq_id r' = sql_text i" using r'(2) r(2) by (simp add: row_follows_def)
  ultimately have "require_acquisition env i ow db = Inr a'"
    using get_row [OF ok' r'(1), of i ow] by (simp add: require_acquisition_def owned_option_def)
  then have "resolve_in env i ow (ac_bindingDigest a) d w now ?st = (Inr a', \<lparr>as_db = db, as_grants = g\<rparr>)"
    using assms(3-8) db owned_binding [OF r(3)] by (simp add: resolve_in_def resolve_check_def)
  then show ?thesis
    by (cases "st_pending (as_grants st)") (simp_all add: resolve_def acq_transaction_def transaction_def Let_def)
qed

lemma owned_owner:
  "ow_runtime ow = ow_runtime ow' \<Longrightarrow> ow_session ow = ow_session ow' \<Longrightarrow> owned env r ow = owned env r ow'"
  by (simp add: owned_def exact_owner_def cong: sum.case_cong if_cong)

lemma ask_decided:
  assumes "env_laws env" and "acq_ok env (as_db st)" and "valid_ask env inp" and "well_formed uuid"
    and "map_of (ad_owners (as_db st)) (owner_key inp) \<in> {None, Some None}"
    and "List.find (is_current (am_requestKey inp)) (ad_rows (as_db st)) = None"
    and "ascii ''acq:'' @ uuid \<notin> aq_id ` set (ad_rows (as_db st))"
    and "canonical env d = Inr t" and "\<And>g. \<exists>g'. w g = (Inr res, g')" and "requireResolution env res = Inr ()"
    and ow: "ow_runtime ow = ow_runtime inp" "ow_session ow = ow_session inp"
  shows "\<exists>a st1 a' st2. admit env uuid inp at delivery st = (Inr a, st1) \<and> ac_id a = ascii ''acq:'' @ uuid \<and>
    resolve env (ac_id a) ow (ac_bindingDigest a) d w now st1 = (Inr a', st2)"
proof -
  let ?i = "ascii ''acq:'' @ uuid"
  obtain e where e: "binding_digest env ?i at inp = Inr e"
    using binding_digest_ok [OF assms(1)] assms(3) unfolding valid_ask_def by blast
  let ?r = "admit_row ?i inp env e at delivery" and ?db = "insert_owner (owner_key inp) (as_db st)"
  let ?st = "st\<lparr>as_db := ?db\<lparr>ad_rows := ad_rows (as_db st) @ [?r]\<rparr>\<rparr>"
  have admitted: "admit env uuid inp at delivery st = (Inr (record_of ?r None), ?st)"
    by (rule admit_fresh [OF assms(1,3,4,5,6,7) e refl])
  have ok': "acq_ok env (as_db ?st)"
    using acq_changes_ok [OF acq_exec_changes [OF assms(1,2), of "CallAdmit uuid inp at delivery"] assms(1,2)] admitted by simp
  have i: "sql_text ?i = ?i" by (rule acquisition_id_text [OF assms(4)])
  then have wf: "well_formed ?i" by (metis well_formed_sql_text)
  have "owned env ?r ow = owned env ?r inp" using ow by (rule owned_owner)
  then have "require_acquisition env ?i ow (as_db ?st) = Inr (record_of ?r None)"
    using get_row [OF ok', of ?r ?i ow] owned_admitted [OF assms(1,3) wf e]
    by (simp add: require_acquisition_def owned_option_def) (simp add: admit_row_def)
  moreover have "requireActiveOwner ow (as_db ?st) = Inr ()"
    using assms(3,5) ow by (auto simp: exact_owner_def owner_key_def requireActiveOwner_def valid_ask_def insert_owner_def jhas_def map_add_def)
  moreover obtain g' where "w ((as_grants ?st)\<lparr>st_pending := Some []\<rparr>) = (Inr res, g')" using assms(9) by blast
  moreover have "ac_state (record_of ?r None) = Pending" "ac_id (record_of ?r None) = ?i"
    using i by (simp_all add: record_of_def admit_row_def)
  ultimately have "\<exists>a' st2. resolve env ?i ow (ac_bindingDigest (record_of ?r None)) d w now ?st = (Inr a', st2)"
    by (intro resolve_pending [OF assms(1) ok' _ _ _ assms(8) _ assms(10)])
  then show ?thesis using admitted \<open>ac_id (record_of ?r None) = ?i\<close> by auto
qed

lemma owned_errors: "row_ok env r \<Longrightarrow> owned env r ow = Inl e \<Longrightarrow> e \<in> {OwnerNotExact, NotOwned}"
  using owned_ok [of env r ow] by (auto simp: owned_def split: if_splits)

lemma all_rows_ok: "list_all (row_ok env) rs \<Longrightarrow> ok (all_ok (map (\<lambda>r. owned env r (row_owner r)) rs))"
  by (induction rs) (auto simp: row_ok_def ok_iff)

lemma page_ok:
  assumes "acq_ok env db"
  shows "ok (read_page env order n p row_owner db)"
proof -
  have "list_all (row_ok env) (take n (sort_key order (filter p (ad_rows db))))"
    using assms by (auto simp: acq_ok_def list_all_iff dest!: in_set_takeD)
  then show ?thesis unfolding read_page_def by (rule all_rows_ok)
qed

section \<open>Properties\<close>

text \<open>
  C6. A decision is written once. Once a decision of an acquisition has returned, its receipt
  says that decision up to the spelling of canonical JSON; whatever is called afterwards on either store, a
  read by the owner gives the same outcome and the same receipt, and a further decision of the
  acquisition, the same or another one, changes neither the acquisitions nor the grants: its write
  is not run.
\<close>

theorem decision_written_once:
  fixes ow ow' :: acq_owner
  assumes "env_laws env" and "st = acq_run env calls new_acq_store"
    and "resolve env i ow b d w now st = (Inr a, st')"
  shows "\<exists>rc. ac_receipt a = Some rc \<and> canonical env (rc_decision rc) = canonical env d \<and>
    (\<exists>a'. require_acquisition env i ow (as_db (acq_run env later st')) = Inr a' \<and>
       ac_receipt a' = Some rc \<and> ac_state a' = ac_state a \<and> ac_admission a' = ac_admission a) \<and>
    snd (resolve env i ow b' d' w' now' (acq_run env later st')) = acq_run env later st'"
proof -
  let ?fin = "acq_run env later st'"
  have ok1: "acq_ok env (as_db st)" unfolding assms(2) by (rule acq_run_ok [OF assms(1)])
  have ok2: "acq_ok env (as_db st')"
    using acq_changes_ok [OF acq_exec_changes [OF assms(1) ok1, of "CallResolve i ow b d w now"] assms(1) ok1] assms(3) by simp
  have changes: "(acq_change env)\<^sup>*\<^sup>* (as_db st') (as_db ?fin)" by (rule acq_run_changes [OF assms(1) ok2])
  note decided = resolve_decided [OF assms(1) ok1 assms(3)]
  then obtain rc where rc: "ac_receipt a = Some rc" "canonical env (rc_decision rc) = canonical env d" "ac_state a \<noteq> Pending" by blast
  obtain a' where a': "require_acquisition env i ow (as_db ?fin) = Inr a'" "ac_admission a' = ac_admission a"
      "ac_state a' = ac_state a" "ac_receipt a' = ac_receipt a"
    using record_follows [OF ok2 changes assms(1), of i ow a] decided by blast
  have "snd (resolve env i ow b' d' w' now' ?fin) = ?fin"
    by (rule resolve_unchanged) (use a' rc(3) resolve_check_record in \<open>fastforce dest!: resolve_check_record\<close>)
  then show ?thesis using rc(1,2) a' by auto
qed

definition some_owner :: acq_owner where
  "some_owner = \<lparr>ow_runtime = ascii ''r'', ow_session = ascii ''s''\<rparr>"

definition some_ask :: "int admission" where
  "some_ask = \<lparr>ow_runtime = ascii ''r'', ow_session = ascii ''s'', am_requestKey = ascii ''k'', am_facts = JNull\<rparr>"

lemma some_ask_valid: "valid_ask plain_env some_ask" "exact_owner some_owner"
  by (simp_all add: valid_ask_def exact_owner_def some_ask_def some_owner_def blank_or_nul_def js_trim_def js_space_def
      high_surrogate_def low_surrogate_def ok_iff)

lemma some_decision:
  "\<exists>a st1 a' st2. admit plain_env (ascii ''1'') some_ask 1 delivery new_acq_store = (Inr a, st1) \<and>
     resolve plain_env (ac_id a) some_owner (ac_bindingDigest a) (JBool True) (\<lambda>g. (Inr (Decided, JNull), g)) 2 st1 = (Inr a', st2)"
proof -
  have valid: "requireResolution plain_env (Decided, JNull) = Inr ()"
    using canonical_object_ok [of plain_env "[(ascii ''state'', JString (ascii ''decided'')), (ascii ''value'', JNull)]"]
    by (auto simp: requireResolution_def resolution_json_def plain_env_def ok_iff ascii_inject simp del: ascii_simps)
  have "canonical plain_env (JBool True) = Inr (ascii ''true'')"
    by (simp add: canonical_def sharedCanonicalJson_def)
  from ask_decided [OF plain_env_laws new_acq_ok some_ask_valid(1) _ _ _ _ this _ valid, of "ascii ''1''" "\<lambda>g. (Inr (Decided, JNull), g)" some_owner 1 delivery 2]
  show ?thesis
    by (auto simp: new_acq_store_def some_owner_def some_ask_def high_surrogate_def low_surrogate_def)
qed

theorem decision_written_once_witness:
  "\<exists>(a :: int acq_record) st a' st' rc. resolve plain_env (ac_id a) some_owner (ac_bindingDigest a) (JBool True) (\<lambda>g. (Inr (Decided, JNull), g)) 2 st = (Inr a', st') \<and>
     ac_receipt a' = Some rc \<and> canonical plain_env (rc_decision rc) = canonical plain_env (JBool True) \<and>
     snd (resolve plain_env (ac_id a) some_owner (ac_bindingDigest a) (JBool True) (\<lambda>g. (Inr (Decided, JNull), g)) 3 st') = st'"
proof -
  obtain a st a' st' where ask: "admit plain_env (ascii ''1'') some_ask 1 InBand new_acq_store = (Inr a, st)"
    and dec: "resolve plain_env (ac_id a) some_owner (ac_bindingDigest a) (JBool True) (\<lambda>g. (Inr (Decided, JNull), g)) 2 st = (Inr a', st')"
    using some_decision [of InBand] by blast
  have "st = acq_run plain_env [CallAdmit (ascii ''1'') some_ask 1 InBand] new_acq_store"
    using ask by (simp add: acq_run_def del: ascii_simps)
  from decision_written_once [OF plain_env_laws this dec, of "[]" "ac_bindingDigest a" "JBool True" "\<lambda>g. (Inr (Decided, JNull), g)" 3]
  have "\<exists>rc. ac_receipt a' = Some rc \<and> canonical plain_env (rc_decision rc) = canonical plain_env (JBool True) \<and>
      snd (resolve plain_env (ac_id a) some_owner (ac_bindingDigest a) (JBool True) (\<lambda>g. (Inr (Decided, JNull), g)) 3 st') = st'"
    by (auto simp: acq_run_def)
  with dec show ?thesis by blast
qed

text \<open>
  C7. A retired owner is fenced for good. After an owner has been retired, whatever is called on
  either store, no acquisition of it is pending, every admission for it is refused and every
  decision of any acquisition in its name leaves both stores as they are.
\<close>

theorem retired_owner_fenced:
  fixes ow :: acq_owner
  assumes "env_laws env" and "retire env ow now (acq_run env calls new_acq_store) = (Inr (), st')"
  shows "filter (\<lambda>r. row_key r = owner_key ow \<and> aq_state r = Pending) (ad_rows (as_db (acq_run env later st'))) = [] \<and>
    \<not> ok (fst (admit env uuid (inp\<lparr>ow_runtime := ow_runtime ow, ow_session := ow_session ow\<rparr>) at delivery (acq_run env later st'))) \<and>
    snd (admit env uuid (inp\<lparr>ow_runtime := ow_runtime ow, ow_session := ow_session ow\<rparr>) at delivery (acq_run env later st')) = acq_run env later st' \<and>
    snd (resolve env i ow b d w at (acq_run env later st')) = acq_run env later st'"
proof -
  let ?st = "acq_run env calls new_acq_store" and ?fin = "acq_run env later st'"
    and ?inp = "inp\<lparr>ow_runtime := ow_runtime ow, ow_session := ow_session ow\<rparr>"
  have ok1: "acq_ok env (as_db ?st)" by (rule acq_run_ok [OF assms(1)])
  have ok2: "acq_ok env (as_db st')"
    using acq_changes_ok [OF acq_exec_changes [OF assms(1) ok1, of "CallRetire ow now"] assms(1) ok1] assms(2) by simp
  have "retireOwner env ow now (as_db ?st) = Inr (as_db st')"
    using assms(2) by (auto simp: retire_def acq_transaction_db no_result_def split: if_splits sum.splits)
  then have "fenced (owner_key ow) (as_db st')" by (rule retire_fences [OF _ ok1 assms(1)])
  then have fence: "fenced (owner_key ow) (as_db ?fin)"
    using acq_run_changes [OF assms(1) ok2] changes_fenced by blast
  have key: "owner_key ?inp = owner_key ow" by (simp add: owner_key_def)
  then have "insert_owner (owner_key ?inp) (as_db ?fin) = as_db ?fin" "\<exists>e. requireActiveOwner ?inp (as_db ?fin) = Inl e"
    using fence fenced_inactive [of ?inp] by (auto simp: insert_owner_def jhas_def fenced_def)
  then have "\<exists>e. admit env uuid ?inp at delivery ?fin = (Inl e, ?fin)"
    by (auto simp: admit_def admit_in_def Let_def acq_transaction_db split: sum.splits)
  moreover have "snd (resolve env i ow b d w at ?fin) = ?fin"
    using fenced_inactive [OF fence] by (intro resolve_unchanged) (auto simp: resolve_check_def)
  ultimately show ?thesis
    using fence by (auto simp: fenced_def filter_empty_conv list_all_iff)
qed

theorem retired_owner_fenced_witness:
  "\<exists>st. retire plain_env some_owner 1 new_acq_store = (Inr (), st) \<and>
     \<not> ok (fst (admit plain_env (ascii ''1'') (some_ask\<lparr>ow_runtime := ow_runtime some_owner, ow_session := ow_session some_owner\<rparr>) 2 InBand st))"
proof -
  have "\<exists>st. retire plain_env some_owner 1 (acq_run plain_env [] new_acq_store) = (Inr (), st)"
    using some_ask_valid(2)
    by (simp add: retire_def acq_transaction_db no_result_def retireOwner_def retire_entry_def new_acq_store_def
        acq_run_def retire_rounds.simps pending_rows_def)
  then obtain st where st: "retire plain_env some_owner 1 (acq_run plain_env [] new_acq_store) = (Inr (), st)" by blast
  from retired_owner_fenced [OF plain_env_laws st, of "[]" "ascii ''1''" some_ask 2 InBand]
  show ?thesis using st by (simp add: acq_run_def del: ascii_simps)
qed

text \<open>
  C9. What is stored verifies. After any calls on a fresh store a read of an acquisition can
  only fail because the reader is not its exact owner, never because a digest, an admission or a
  receipt does not match; the host's scans succeed; and at most one acquisition of a request key
  is current.
\<close>

theorem stored_acquisitions_verify:
  assumes "env_laws env" and "db = as_db (acq_run env calls new_acq_store)"
  shows "get_acquisition env i ow db \<in> range Inr \<union> {Inl OwnerNotExact, Inl NotOwned} \<and>
    current_acquisition env key ow db \<in> range Inr \<union> {Inl OwnerNotExact, Inl NotOwned} \<and>
    ok (scan env pendingOnly after db) \<and> ok (scanOutstandingTerminal env None db) \<and>
    distinct (map aq_requestKey (filter (\<lambda>r. aq_supersededAt r = None) (ad_rows db)))"
proof -
  have ok1: "acq_ok env db" unfolding assms(2) by (rule acq_run_ok [OF assms(1)])
  have read: "owned_option env ow row \<in> range Inr \<union> {Inl OwnerNotExact, Inl NotOwned}"
    if "row \<in> insert None (Some ` set (ad_rows db))" for row
    using that ok1 owned_errors [of env _ ow]
    by (fastforce simp: owned_option_def acq_ok_def list_all_iff split: sum.splits)
  have found: "List.find p (ad_rows db) \<in> insert None (Some ` set (ad_rows db))" for p
    by (cases "List.find p (ad_rows db)") (auto dest: find_row)
  have "get_acquisition env i ow db \<in> range Inr \<union> {Inl OwnerNotExact, Inl NotOwned}"
    "current_acquisition env key ow db \<in> range Inr \<union> {Inl OwnerNotExact, Inl NotOwned}"
    unfolding get_acquisition_def current_acquisition_def by (rule read [OF found])+
  then show ?thesis
    using ok1 by (simp add: page_ok [OF ok1] scan_def scanOutstandingTerminal_def acq_ok_def)
qed

theorem stored_acquisitions_verify_witness:
  "ok (scan plain_env True None (as_db (acq_run plain_env [CallAdmit (ascii ''1'') some_ask 1 InBand] new_acq_store)))"
  using stored_acquisitions_verify [OF plain_env_laws refl,
      of "[]" some_owner "[CallAdmit (ascii ''1'') some_ask 1 InBand]" "[]" True None] by simp

end
