(* ===== verification/AcquisitionDelivery.thy ===== *)
theory AcquisitionDelivery
  imports AcquisitionProps
begin

text \<open>
  The recovery of deliveries (\<^verbatim>\<open>src/server/services/acquisitionCoordinator.ts\<close>): a host that starts
  again visits every receipt that its owner has not acknowledged, page by page. The loop waits
  for each delivery, and during a wait anything may be called on the stores: a run is cut into the
  pieces of code between two waits, and each page is read from the tables as they are then. How a
  delivery ends is an argument, and so is the moment at which the host stops deliveries.
\<close>

subsection \<open>The visit\<close>

definition delivery_due :: "'n acq_db \<Rightarrow> 'n acq_row \<Rightarrow> bool" where
  "delivery_due db r \<longleftrightarrow> aq_acknowledgedAt r = None \<and> aq_state r \<noteq> Pending \<and> aq_delivery r = OwnerRedrive \<and> live_owner db r"

type_synonym delivery_cursor = "acq_owner \<times> cursor"

definition cursor_order :: "delivery_cursor \<Rightarrow> byte list \<times> byte list \<times> int \<times> byte list" where
  "cursor_order c = (utf8 (ow_runtime (fst c)), utf8 (ow_session (fst c)), fst (snd c), utf8 (snd (snd c)))"

definition past :: "delivery_cursor option \<Rightarrow> 'n acq_row \<Rightarrow> bool" where
  "past after r \<longleftrightarrow> (case after of None \<Rightarrow> True | Some c \<Rightarrow> cursor_order c < delivery_order r)"

definition record_cursor :: "'n acq_record \<Rightarrow> delivery_cursor" where
  "record_cursor a = (\<lparr>ow_runtime = ow_runtime (ac_admission a), ow_session = ow_session (ac_admission a)\<rparr>,
     ac_createdAt a, ac_id a)"

lemma owned_cursor: "owned env r (row_owner r) = Inr a \<Longrightarrow> cursor_order (record_cursor a) = delivery_order r"
  by (auto simp: owned_def record_of_def record_cursor_def cursor_order_def delivery_order_def row_order_def row_owner_def
      split: if_splits sum.splits acq_state.splits)

definition due_page :: "'n acq_db \<Rightarrow> delivery_cursor option \<Rightarrow> 'n acq_row list" where
  "due_page db after = take 64 (sort_key delivery_order (filter (\<lambda>r. delivery_due db r \<and> past after r) (ad_rows db)))"

lemma scan_page:
  "scanOutstandingTerminal env after db =
     (if (case after of None \<Rightarrow> False | Some (ow, _) \<Rightarrow> \<not> exact_owner ow) then Inl OwnerNotExact
      else if (case after of None \<Rightarrow> False | Some (_, at, i) \<Rightarrow> \<not> safe_integer at \<or> js_trim i = []) then Inl BadPageCursor
      else all_ok (map (\<lambda>r. owned env r (row_owner r)) (due_page db after)))"
  by (cases after)
    (auto simp: scanOutstandingTerminal_def read_page_def due_page_def delivery_due_def past_def cursor_order_def conj_assoc
      split: prod.splits)

datatype delivery_failure = ScanFailed acq_error | DeliveriesFailed nat | DeliveryStopped

datatype 'n recovery_phase =
    Delivering "'n acq_record" "'n acq_record list"   \<comment> \<open>the record under delivery, the rest of its page\<close>
  | Finished "delivery_failure + unit"

text \<open>\<open>ry_done\<close> is the history of deliveries that were waited for, with how each ended.\<close>

record 'n recovery =
  ry_store :: "'n acq_store"
  ry_stopped :: bool
  ry_failureCount :: nat
  ry_done :: "('n acq_record \<times> bool) list"
  ry_phase :: "'n recovery_phase"

text \<open>The head of the loop: the checks before a page, the page, and the start of its first delivery.\<close>

definition next_page :: "'n json_env \<Rightarrow> delivery_cursor option \<Rightarrow> 'n recovery \<Rightarrow> 'n recovery" where
  "next_page env after st = st\<lparr>ry_phase :=
     (if ry_stopped st then Finished (Inl DeliveryStopped)
      else case scanOutstandingTerminal env after (as_db (ry_store st)) of
        Inl e \<Rightarrow> Finished (Inl (ScanFailed e))
      | Inr [] \<Rightarrow> Finished (if ry_failureCount st > 0 then Inl (DeliveriesFailed (ry_failureCount st)) else Inr ())
      | Inr (a # rest) \<Rightarrow> Delivering a rest)\<rparr>"

text \<open>A delivery has ended: what the loop does until it waits again.\<close>

definition delivery_ended :: "'n json_env \<Rightarrow> bool \<Rightarrow> 'n recovery \<Rightarrow> 'n recovery" where
  "delivery_ended env delivered st =
     (case ry_phase st of
        Finished res \<Rightarrow> st
      | Delivering a rest \<Rightarrow>
          (let st1 = st\<lparr>ry_done := ry_done st @ [(a, delivered)]\<rparr> in
           if \<not> delivered \<and> ry_stopped st then st1\<lparr>ry_phase := Finished (Inl DeliveryStopped)\<rparr>
           else
             (let st2 = (if delivered then st1 else st1\<lparr>ry_failureCount := ry_failureCount st + 1\<rparr>) in
              case rest of
                [] \<Rightarrow> next_page env (Some (record_cursor a)) st2
              | b # bs \<Rightarrow>
                  st2\<lparr>ry_phase := (if ry_stopped st then Finished (Inl DeliveryStopped) else Delivering b bs)\<rparr>)))"

definition reprojectCanonicalOwnerDelivery :: "'n json_env \<Rightarrow> bool \<Rightarrow> 'n acq_store \<Rightarrow> 'n recovery" where
  "reprojectCanonicalOwnerDelivery env aborted st =
     next_page env None \<lparr>ry_store = st, ry_stopped = aborted, ry_failureCount = 0, ry_done = [],
       ry_phase = Finished (Inr ())\<rparr>"

text \<open>What happens while it waits: a call on the stores, \<open>quiesceOwnerDelivery\<close>, the end of the delivery.\<close>

datatype 'n recovery_event = Called "'n acq_call" | StopDelivery | DeliveryEnded bool

fun recovery_exec :: "'n json_env \<Rightarrow> 'n recovery_event \<Rightarrow> 'n recovery \<Rightarrow> 'n recovery" where
  "recovery_exec env (Called c) st = st\<lparr>ry_store := acq_exec env c (ry_store st)\<rparr>"
| "recovery_exec env StopDelivery st = st\<lparr>ry_stopped := True\<rparr>"
| "recovery_exec env (DeliveryEnded delivered) st = delivery_ended env delivered st"

definition recovery_run :: "'n json_env \<Rightarrow> 'n recovery_event list \<Rightarrow> 'n recovery \<Rightarrow> 'n recovery" where
  "recovery_run env es st = fold (recovery_exec env) es st"

subsection \<open>What is visited\<close>

lemma sorted_after:
  fixes f :: "'a \<Rightarrow> 'b :: linorder"
  assumes "sorted_wrt (<) (map f xs)" and "n < length xs"
  shows "filter (\<lambda>x. f (xs ! n) < f x) xs = drop (Suc n) xs"
  using assms
proof (induction xs arbitrary: n)
  case (Cons x xs)
  show ?case
  proof (cases n)
    case 0
    then show ?thesis using Cons.prems(1) by (auto simp: filter_id_conv)
  next
    case (Suc k)
    then have "f x < f (xs ! k)" using Cons.prems by auto
    then show ?thesis using Cons.IH [of k] Cons.prems Suc by (simp add: order_less_not_sym)
  qed
qed simp

definition due_rows :: "'n acq_db \<Rightarrow> 'n acq_row list" where
  "due_rows db = sort_key delivery_order (filter (delivery_due db) (ad_rows db))"

text \<open>Rows have distinct places in the order.\<close>

lemma due_sorted:
  assumes "acq_ok env db"
  shows "sorted_wrt (<) (map delivery_order (due_rows db))"
proof -
  have ids: "distinct (map aq_id (ad_rows db))" by (rule acq_ok_ids [OF assms])
  have "well_formed (aq_id r)" if "r \<in> set (ad_rows db)" for r
    using assms that well_formed_sql_text [of "aq_id r"] by (auto simp: acq_ok_def list_all_iff row_ok_def)
  then have "inj_on delivery_order (set (ad_rows db))"
    using ids by (auto intro!: inj_onI simp: delivery_order_def row_order_def utf8_inject distinct_map dest: inj_onD)
  then have "inj_on delivery_order (set (due_rows db))" by (rule inj_on_subset) (auto simp: due_rows_def)
  moreover have "distinct (due_rows db)" using ids by (auto simp: due_rows_def distinct_map)
  moreover have "sorted (map delivery_order (due_rows db))" by (simp add: due_rows_def)
  ultimately show ?thesis by (simp add: strict_sorted_iff distinct_map)
qed

lemma due_page_take: "due_page db after = take 64 (filter (past after) (due_rows db))"
  by (simp add: due_page_def due_rows_def filter_sort conj_commute)

definition row_record :: "'n json_env \<Rightarrow> 'n acq_row \<Rightarrow> 'n acq_record" where
  "row_record env r = (case owned env r (row_owner r) of Inl e \<Rightarrow> undefined | Inr a \<Rightarrow> a)"

lemma row_record: "row_ok env r \<Longrightarrow> owned env r (row_owner r) = Inr (row_record env r)"
  by (auto simp: row_ok_def row_record_def)

definition good_cursor :: "delivery_cursor option \<Rightarrow> bool" where
  "good_cursor after \<longleftrightarrow> (case after of None \<Rightarrow> True
     | Some (ow, at, i) \<Rightarrow> exact_owner ow \<and> safe_integer at \<and> js_trim i \<noteq> [])"

lemma owned_exact:
  "owned env r (row_owner r) = Inr a \<Longrightarrow> ac_createdAt a = aq_createdAt r \<and>
     exact_owner \<lparr>ow_runtime = ow_runtime (ac_admission a), ow_session = ow_session (ac_admission a)\<rparr>"
  by (auto simp: owned_def record_of_def row_owner_def exact_owner_def split: if_splits sum.splits acq_state.splits)

lemma good_record_cursor:
  "row_ok env r \<Longrightarrow> safe_integer (aq_createdAt r) \<Longrightarrow> good_cursor (Some (record_cursor (row_record env r)))"
  using owned_exact [OF row_record, of env r] owned_id [OF row_record, of env r]
  by (simp add: record_cursor_def good_cursor_def row_ok_def)

lemma scan_spec:
  assumes "acq_ok env db" and "after = None \<or> (\<exists>ow at i. after = Some (ow, at, i) \<and> exact_owner ow \<and> js_trim i \<noteq> [])"
  shows "scanOutstandingTerminal env after db =
     (if good_cursor after then Inr (map (row_record env) (due_page db after)) else Inl BadPageCursor)"
proof -
  have rows: "row_ok env r" if "r \<in> set (due_rows db)" for r
    using that assms(1) by (auto simp: due_rows_def acq_ok_def list_all_iff)
  have "map (\<lambda>r. owned env r (row_owner r)) (due_page db after) = map Inr (map (row_record env) (due_page db after))"
    using rows by (auto simp: due_page_take row_record dest!: in_set_takeD)
  then have "all_ok (map (\<lambda>r. owned env r (row_owner r)) (due_page db after)) = Inr (map (row_record env) (due_page db after))"
    by (simp add: all_ok_Inr)
  then show ?thesis using assms(2) by (auto simp: scan_page good_cursor_def)
qed

subsection \<open>Places in the delivery index\<close>

definition place :: "'n acq_record \<Rightarrow> byte list \<times> byte list \<times> int \<times> byte list" where
  "place a = cursor_order (record_cursor a)"

definition due_places :: "'n acq_db \<Rightarrow> (byte list \<times> byte list \<times> int \<times> byte list) set" where
  "due_places db = delivery_order ` {r \<in> set (ad_rows db). delivery_due db r}"

lemma due_places_rows: "due_places db = delivery_order ` set (due_rows db)"
  by (simp add: due_places_def due_rows_def)

definition well_placed :: "'n acq_record \<Rightarrow> bool" where
  "well_placed a \<longleftrightarrow> js_trim (ac_id a) \<noteq> [] \<and>
     exact_owner \<lparr>ow_runtime = ow_runtime (ac_admission a), ow_session = ow_session (ac_admission a)\<rparr>"

lemma record_placed:
  assumes "row_ok env r"
  shows "place (row_record env r) = delivery_order r" and "well_placed (row_record env r)"
  using owned_cursor [OF row_record [OF assms]] owned_exact [OF row_record [OF assms]] owned_id [OF row_record [OF assms]] assms
  by (simp_all add: place_def well_placed_def row_ok_def)

lemma sorted_take_cover:
  fixes p :: "'a :: linorder"
  assumes "sorted_wrt (<) xs" and "p \<in> set xs" and "0 < n"
  shows "take n xs \<noteq> [] \<and> (p \<le> last (take n xs) \<longrightarrow> p \<in> set (take n xs))"
proof -
  obtain i where i: "i < length xs" "p = xs ! i" using assms(2) by (metis in_set_conv_nth)
  show ?thesis
  proof (cases "i < n")
    case True
    then have "take n xs ! i = p" "i < length (take n xs)" using i by simp_all
    then show ?thesis by (metis length_greater_0_conv not_less_zero nth_mem gr_implies_not_zero list.size(3))
  next
    case False
    have "take n xs \<noteq> []" using i assms(3) by auto
    moreover from this have "last (take n xs) = xs ! (n - 1)" using i assms(3) False by (subst last_conv_nth) auto
    moreover have "xs ! (n - 1) < p" using sorted_wrt_nth_less [OF assms(1), of "n - 1" i] i assms(3) False by simp
    ultimately show ?thesis by (auto dest: leD)
  qed
qed

text \<open>A page: the next records in the order of the index, and nothing due is skipped.\<close>

lemma page_spec:
  assumes "acq_ok env db" and "as = map (row_record env) (due_page db after)"
    and "past_place = (\<lambda>p. case after of None \<Rightarrow> True | Some c \<Rightarrow> cursor_order c < p)"
  shows "sorted_wrt (<) (map place as)" and "list_all well_placed as"
    and "place ` set as \<subseteq> due_places db" and "\<forall>a \<in> set as. past_place (place a)"
    and "p \<in> due_places db \<Longrightarrow> past_place p \<Longrightarrow> as \<noteq> [] \<and> (p \<le> place (last as) \<longrightarrow> p \<in> place ` set as)"
proof -
  let ?rest = "filter (past after) (due_rows db)"
  have rows: "row_ok env r" if "r \<in> set (due_rows db)" for r
    using that assms(1) by (auto simp: due_rows_def acq_ok_def list_all_iff)
  have page: "due_page db after = take 64 ?rest" by (rule due_page_take)
  have placed: "map place (map (row_record env) rs) = map delivery_order rs" if "set rs \<subseteq> set (due_rows db)" for rs
    using that rows record_placed(1) by auto
  have sub: "set (take 64 ?rest) \<subseteq> set (due_rows db)" by (auto dest!: in_set_takeD)
  have places: "map place as = take 64 (map delivery_order ?rest)"
    using placed [OF sub] by (simp add: assms(2) page take_map)
  have sorted: "sorted_wrt (<) (map delivery_order ?rest)"
    using due_sorted [OF assms(1)] by (simp add: sorted_wrt_map sorted_wrt_filter)
  show "sorted_wrt (<) (map place as)" unfolding places by (rule sorted_wrt_take [OF sorted])
  show "list_all well_placed as" using sub rows record_placed(2) by (auto simp: list_all_iff assms(2) page)
  have "set (map place as) \<subseteq> set (map delivery_order ?rest)" unfolding places by (rule set_take_subset)
  then show "place ` set as \<subseteq> due_places db" "\<forall>a \<in> set as. past_place (place a)"
    by (auto simp: due_places_rows past_def assms(3) split: option.splits)
  show "as \<noteq> [] \<and> (p \<le> place (last as) \<longrightarrow> p \<in> place ` set as)" if "p \<in> due_places db" "past_place p"
  proof -
    have p: "p \<in> set (map delivery_order ?rest)"
      using that by (auto simp: due_places_rows past_def assms(3) split: option.splits)
    note cover = sorted_take_cover [OF sorted p, of 64]
    then have "as \<noteq> []" unfolding places [symmetric] by simp
    then show ?thesis using cover unfolding places [symmetric] by (simp add: last_map)
  qed
qed

subsection \<open>What a run keeps\<close>

text \<open>
  \<open>D\<close> are places that have been due at every moment so far, \<open>E\<close> the places that were due at some
  moment: everything in \<open>D\<close> up to the end of the current page has been delivered or is on the page.
\<close>

definition page_left :: "'n recovery \<Rightarrow> 'n acq_record list" where
  "page_left st = (case ry_phase st of Delivering a rest \<Rightarrow> a # rest | Finished res \<Rightarrow> [])"

definition attempted :: "'n recovery \<Rightarrow> 'n acq_record list" where
  "attempted st = map fst (ry_done st)"

definition recovery_outcome :: "(byte list \<times> byte list \<times> int \<times> byte list) set \<Rightarrow> 'n recovery \<Rightarrow> bool" where
  "recovery_outcome D st \<longleftrightarrow>
     (case ry_phase st of
        Delivering a rest \<Rightarrow> True
      | Finished (Inr _) \<Rightarrow> list_all snd (ry_done st) \<and> D \<subseteq> place ` set (attempted st)
      | Finished (Inl (DeliveriesFailed n)) \<Rightarrow>
          n = length (filter (Not \<circ> snd) (ry_done st)) \<and> 0 < n \<and> D \<subseteq> place ` set (attempted st)
      | Finished (Inl DeliveryStopped) \<Rightarrow> ry_stopped st
      | Finished (Inl (ScanFailed e)) \<Rightarrow>
          e = BadPageCursor \<and> (\<exists>a \<in> set (attempted st). \<not> safe_integer (ac_createdAt a)))"

definition recovering :: "'n json_env \<Rightarrow> (byte list \<times> byte list \<times> int \<times> byte list) set \<Rightarrow>
    (byte list \<times> byte list \<times> int \<times> byte list) set \<Rightarrow> 'n recovery \<Rightarrow> bool" where
  "recovering env D E st \<longleftrightarrow> acq_ok env (as_db (ry_store st)) \<and>
     sorted_wrt (<) (map place (attempted st @ page_left st)) \<and> place ` set (attempted st @ page_left st) \<subseteq> E \<and>
     list_all well_placed (page_left st) \<and>
     (page_left st \<noteq> [] \<longrightarrow> ry_failureCount st = length (filter (Not \<circ> snd) (ry_done st)) \<and>
        (\<forall>p \<in> D. p \<le> place (last (page_left st)) \<longrightarrow> p \<in> place ` set (attempted st @ page_left st))) \<and>
     recovery_outcome D st"

lemma store_irrelevant [simp]:
  "page_left (st\<lparr>ry_store := s\<rparr>) = page_left st" "attempted (st\<lparr>ry_store := s\<rparr>) = attempted st"
  "recovery_outcome D (st\<lparr>ry_store := s\<rparr>) = recovery_outcome D st"
  by (cases "ry_phase st"; simp add: page_left_def attempted_def recovery_outcome_def split: sum.split delivery_failure.split)+

lemma recovering_mono: "recovering env D E st \<Longrightarrow> D' \<subseteq> D \<Longrightarrow> E \<subseteq> E' \<Longrightarrow> recovering env D' E' st"
  unfolding recovering_def recovery_outcome_def
  by (cases "ry_phase st") (auto split: sum.splits delivery_failure.splits; blast)+

lemma record_cursor_parts:
  "record_cursor a = (\<lparr>ow_runtime = ow_runtime (ac_admission a), ow_session = ow_session (ac_admission a)\<rparr>, ac_createdAt a, ac_id a)"
  by (simp add: record_cursor_def)

lemma next_page_recovering:
  assumes "acq_ok env (as_db (ry_store st))" and "sorted_wrt (<) (map place (attempted st))"
    and "D \<subseteq> due_places (as_db (ry_store st))" and "due_places (as_db (ry_store st)) \<subseteq> E"
    and "place ` set (attempted st) \<subseteq> E" and "ry_failureCount st = length (filter (Not \<circ> snd) (ry_done st))"
    and "after = None \<and> attempted st = [] \<or>
      attempted st \<noteq> [] \<and> (let a = last (attempted st) in after = Some (record_cursor a) \<and> well_placed a \<and>
        (\<forall>p \<in> D. p \<le> place a \<longrightarrow> p \<in> place ` set (attempted st)))"
  shows "recovering env D E (next_page env after st)"
proof (cases "ry_stopped st")
  case True
  then show ?thesis using assms by (simp add: recovering_def next_page_def page_left_def attempted_def recovery_outcome_def)
next
  case running: False
  let ?db = "as_db (ry_store st)"
  have cursor: "after = None \<or> (\<exists>ow at i. after = Some (ow, at, i) \<and> exact_owner ow \<and> js_trim i \<noteq> [])"
    using assms(7) by (auto simp: Let_def record_cursor_def well_placed_def)
  note scan = scan_spec [OF assms(1) cursor]
  define as where "as = map (row_record env) (due_page ?db after)"
  define past_place where "past_place = (\<lambda>p. case after of None \<Rightarrow> True | Some c \<Rightarrow> cursor_order c < p)"
  note page = page_spec [OF assms(1) as_def past_place_def]
  have gone: "p \<in> place ` set (attempted st)" if "p \<in> D" "\<not> past_place p" for p
    using that assms(7) by (auto simp: past_place_def Let_def place_def split: option.splits)
  have before: "\<forall>a \<in> set (attempted st). \<forall>p. past_place p \<longrightarrow> place a < p"
  proof -
    have "place a \<le> place (last (attempted st))" if "a \<in> set (attempted st)" for a
    proof -
      have "attempted st = butlast (attempted st) @ [last (attempted st)]" using that by (cases "attempted st" rule: rev_cases) auto
      then have "sorted_wrt (<) (map place (butlast (attempted st)) @ [place (last (attempted st))])"
        using assms(2) by (metis list.simps(8,9) map_append)
      moreover have "a \<in> set (butlast (attempted st)) \<or> a = last (attempted st)"
        using that by (cases "attempted st" rule: rev_cases) auto
      ultimately show ?thesis by (auto simp: sorted_wrt_append intro: less_imp_le)
    qed
    then show ?thesis using assms(7) by (fastforce simp: past_place_def Let_def place_def)
  qed
  show ?thesis
  proof (cases "good_cursor after")
    case False
    then have "\<exists>a \<in> set (attempted st). \<not> safe_integer (ac_createdAt a)"
      using assms(7) by (auto simp: good_cursor_def Let_def record_cursor_def well_placed_def intro!: bexI [OF _ last_in_set])
    then show ?thesis using assms running scan False
      by (simp add: recovering_def next_page_def page_left_def attempted_def recovery_outcome_def)
  next
    case True
    then have scanned: "scanOutstandingTerminal env after ?db = Inr as" using scan by (simp add: as_def)
    show ?thesis
    proof (cases as)
      case Nil
      then have "D \<subseteq> place ` set (attempted st)" using page(5) gone assms(3) by blast
      then show ?thesis using assms running scanned Nil
        by (auto simp: recovering_def next_page_def page_left_def attempted_def recovery_outcome_def filter_empty_conv list_all_iff)
    next
      case (Cons a rest)
      have left: "page_left (next_page env after st) = as" "attempted (next_page env after st) = attempted st"
        using running scanned Cons by (simp_all add: next_page_def page_left_def attempted_def)
      have "sorted_wrt (<) (map place (attempted st @ as))"
        using assms(2) page(1) by (simp add: sorted_wrt_append) (use page(4) before in blast)
      moreover have "\<forall>p \<in> D. p \<le> place (last as) \<longrightarrow> p \<in> place ` set (attempted st @ as)"
      proof (intro ballI impI)
        fix p assume p: "p \<in> D" "p \<le> place (last as)"
        have "p \<in> place ` set as" if "past_place p" using page(5) [of p] that p assms(3) by blast
        then show "p \<in> place ` set (attempted st @ as)" using gone [OF p(1)] by (cases "past_place p") auto
      qed
      moreover have "place ` set (attempted st @ as) \<subseteq> E" using page(3) assms(4,5) by auto
      ultimately show ?thesis
        unfolding recovering_def left using assms(1,6) page(2) running scanned Cons
        by (simp add: next_page_def recovery_outcome_def)
    qed
  qed
qed

lemma delivery_ended_recovering:
  assumes "recovering env D E st" and "D \<subseteq> due_places (as_db (ry_store st))" and "due_places (as_db (ry_store st)) \<subseteq> E"
  shows "recovering env D E (delivery_ended env delivered st)"
proof (cases "ry_phase st")
  case (Finished res)
  then show ?thesis using assms(1) by (simp add: delivery_ended_def)
next
  case (Delivering a rest)
  let ?done = "ry_done st @ [(a, delivered)]"
  have left: "page_left st = a # rest" using Delivering by (simp add: page_left_def)
  note inv = assms(1) [unfolded recovering_def left]
  have order: "sorted_wrt (<) (map place (map fst ?done @ rest))" "place ` set (map fst ?done @ rest) \<subseteq> E"
    using inv by (simp_all add: attempted_def)
  have count: "(if delivered then ry_failureCount st else ry_failureCount st + 1) = length (filter (Not \<circ> snd) ?done)"
    using inv by simp
  have covered: "\<forall>p \<in> D. p \<le> place (last (a # rest)) \<longrightarrow> p \<in> place ` set (map fst ?done @ rest)"
    using inv by (simp add: attempted_def)
  show ?thesis
  proof (cases rest)
    case Nil
    define st2 where "st2 = st\<lparr>ry_done := ?done, ry_failureCount := (if delivered then ry_failureCount st else ry_failureCount st + 1)\<rparr>"
    have next_one: "delivery_ended env delivered st =
        (if \<not> delivered \<and> ry_stopped st then st\<lparr>ry_done := ?done, ry_phase := Finished (Inl DeliveryStopped)\<rparr>
         else next_page env (Some (record_cursor a)) st2)"
      by (simp add: delivery_ended_def Delivering Nil Let_def st2_def)
    have "recovering env D E (next_page env (Some (record_cursor a)) st2)"
      by (rule next_page_recovering)
        (use inv order count covered assms(2,3) Nil in \<open>simp_all add: st2_def attempted_def Let_def\<close>)
    moreover have "recovering env D E (st\<lparr>ry_done := ?done, ry_phase := Finished (Inl DeliveryStopped)\<rparr>)" if "ry_stopped st"
      using inv order that Nil by (simp add: recovering_def page_left_def attempted_def recovery_outcome_def)
    ultimately show ?thesis unfolding next_one by auto
  next
    case (Cons b bs)
    let ?fin = "delivery_ended env delivered st"
    have fin: "attempted ?fin = map fst ?done" "ry_store ?fin = ry_store st" "ry_done ?fin = ?done" "ry_stopped ?fin = ry_stopped st"
      by (simp_all add: attempted_def delivery_ended_def Delivering Cons Let_def)
    have past: "sorted_wrt (<) (map place (map fst ?done))" "place ` set (map fst ?done) \<subseteq> E"
      using order unfolding map_append sorted_wrt_append by auto
    show ?thesis
    proof (cases "ry_stopped st")
      case True
      then have "ry_phase ?fin = Finished (Inl DeliveryStopped)" by (simp add: delivery_ended_def Delivering Cons Let_def)
      then show ?thesis using inv past fin True by (simp add: recovering_def page_left_def recovery_outcome_def)
    next
      case False
      then have phase: "ry_phase ?fin = Delivering b bs"
        and counted: "ry_failureCount ?fin = (if delivered then ry_failureCount st else ry_failureCount st + 1)"
        by (simp_all add: delivery_ended_def Delivering Cons Let_def)
      have "page_left ?fin = rest" using phase Cons by (simp add: page_left_def)
      moreover have "list_all well_placed rest" "last (a # rest) = last rest" using inv Cons by simp_all
      ultimately show ?thesis unfolding recovering_def fin(1,2)
        using inv order covered count phase counted fin(3) by (simp add: recovery_outcome_def)
    qed
  qed
qed

definition recovery_start :: "'n json_env \<Rightarrow> bool \<Rightarrow> 'n acq_store \<Rightarrow> 'n recovery_event list \<Rightarrow> 'n recovery" where
  "recovery_start env aborted st es = recovery_run env es (reprojectCanonicalOwnerDelivery env aborted st)"

text \<open>The places due at every, and at some, moment of a run.\<close>

definition always_due :: "'n json_env \<Rightarrow> bool \<Rightarrow> 'n acq_store \<Rightarrow> 'n recovery_event list \<Rightarrow> (byte list \<times> byte list \<times> int \<times> byte list) set" where
  "always_due env aborted st es = (\<Inter>n \<in> {..length es}. due_places (as_db (ry_store (recovery_start env aborted st (take n es)))))"

definition sometime_due :: "'n json_env \<Rightarrow> bool \<Rightarrow> 'n acq_store \<Rightarrow> 'n recovery_event list \<Rightarrow> (byte list \<times> byte list \<times> int \<times> byte list) set" where
  "sometime_due env aborted st es = (\<Union>n \<in> {..length es}. due_places (as_db (ry_store (recovery_start env aborted st (take n es)))))"

lemma recovery_snoc: "recovery_start env aborted st (es @ [e]) = recovery_exec env e (recovery_start env aborted st es)"
  by (simp add: recovery_start_def recovery_run_def)

lemma due_snoc:
  "always_due env aborted st (es @ [e]) = always_due env aborted st es \<inter> due_places (as_db (ry_store (recovery_start env aborted st (es @ [e]))))"
  "sometime_due env aborted st (es @ [e]) = sometime_due env aborted st es \<union> due_places (as_db (ry_store (recovery_start env aborted st (es @ [e]))))"
  by (auto simp: always_due_def sometime_due_def atMost_Suc)

lemma due_now:
  "always_due env aborted st es \<subseteq> due_places (as_db (ry_store (recovery_start env aborted st es)))"
  "due_places (as_db (ry_store (recovery_start env aborted st es))) \<subseteq> sometime_due env aborted st es"
  by (auto simp: always_due_def sometime_due_def intro: bexI [of _ "length es"])

lemma recovery_store: "ry_store (next_page env after st) = ry_store st" "ry_store (delivery_ended env delivered st) = ry_store st"
  by (auto simp: next_page_def delivery_ended_def Let_def split: recovery_phase.split list.split)

lemma recovery_recovering:
  assumes "env_laws env" and "acq_ok env (as_db st)"
  shows "recovering env (always_due env aborted st es) (sometime_due env aborted st es) (recovery_start env aborted st es)"
proof (induction es rule: rev_induct)
  case Nil
  show ?case unfolding recovery_start_def recovery_run_def reprojectCanonicalOwnerDelivery_def
    using due_now [of env aborted st "[]"] assms(2)
    by simp (rule next_page_recovering; simp add: attempted_def recovery_start_def recovery_run_def reprojectCanonicalOwnerDelivery_def recovery_store)
next
  case (snoc e es)
  let ?st = "recovery_start env aborted st es"
  show ?case
  proof (cases e)
    case (Called c)
    have "acq_ok env (as_db (ry_store ?st))" using snoc by (simp add: recovering_def)
    then have "acq_ok env (as_db (acq_exec env c (ry_store ?st)))"
      using acq_exec_changes acq_changes_ok assms(1) by blast
    then have "recovering env (always_due env aborted st es) (sometime_due env aborted st es) (recovery_exec env e ?st)"
      using snoc by (simp add: Called recovering_def)
    then show ?thesis unfolding recovery_snoc due_snoc by (rule recovering_mono) auto
  next
    case StopDelivery
    then have "recovering env (always_due env aborted st es) (sometime_due env aborted st es) (recovery_exec env e ?st)"
      using snoc by (auto simp: recovering_def recovery_outcome_def page_left_def attempted_def split: recovery_phase.splits sum.splits delivery_failure.splits)
    then show ?thesis unfolding recovery_snoc due_snoc by (rule recovering_mono) auto
  next
    case (DeliveryEnded delivered)
    have "recovering env (always_due env aborted st es) (sometime_due env aborted st es) (recovery_exec env e ?st)"
      unfolding DeliveryEnded using delivery_ended_recovering [OF snoc due_now] by simp
    then show ?thesis unfolding recovery_snoc due_snoc by (rule recovering_mono) auto
  qed
qed

text \<open>A decided ask that its owner has not acknowledged.\<close>

lemma resolve_updates:
  assumes "resolve env i ow b d w now st = (Inr a, st')"
  shows "as_db st' = as_db st \<or> (\<exists>p oc rc. as_db st' = update_rows p (settled_row oc rc) (as_db st))"
proof -
  let ?st = "st\<lparr>as_grants := (as_grants st)\<lparr>st_pending := Some []\<rparr>\<rparr>"
  obtain st1 where st1: "resolve_in env i ow b d w now ?st = (Inr a, st1)" "as_db st' = as_db st1"
    using assms by (cases "resolve_in env i ow b d w now ?st"; cases "st_pending (as_grants st)")
      (auto simp: resolve_def acq_transaction_def transaction_def Let_def split: sum.splits prod.splits)
  then show ?thesis
    by (auto simp: resolve_in_def split: sum.splits prod.splits if_splits dest!: storeResolution_rows) blast
qed

lemma some_due:
  "\<exists>b. let db = as_db (acq_run plain_env [CallAdmit (ascii ''1'') some_ask 1 OwnerRedrive,
        CallResolve (ascii ''acq:1'') some_owner b (JBool True) (\<lambda>g. (Inr (Decided, JNull), g)) 2] new_acq_store)
     in list_all (\<lambda>r. safe_integer (aq_createdAt r)) (ad_rows db) \<and> (\<exists>r. filter (delivery_due db) (ad_rows db) = [r])"
proof -
  obtain a st a' st' where ask: "admit plain_env (ascii ''1'') some_ask 1 OwnerRedrive new_acq_store = (Inr a, st)"
    and dec: "resolve plain_env (ac_id a) some_owner (ac_bindingDigest a) (JBool True) (\<lambda>g. (Inr (Decided, JNull), g)) 2 st = (Inr a', st')"
    using some_decision [of OwnerRedrive] by blast
  obtain e where e: "binding_digest plain_env (ascii ''acq:'' @ ascii ''1'') 1 some_ask = Inr e"
    using binding_digest_ok [OF plain_env_laws] some_ask_valid(1) unfolding valid_ask_def by blast
  let ?r = "admit_row (ascii ''acq:'' @ ascii ''1'') some_ask plain_env e 1 OwnerRedrive"
  have admitted: "a = record_of ?r None" "as_db st = \<lparr>ad_owners = [(owner_key some_ask, None)], ad_rows = [?r]\<rparr>"
    using admit_fresh [OF plain_env_laws some_ask_valid(1) _ _ _ _ e refl, of new_acq_store OwnerRedrive] ask
    by (auto simp: new_acq_store_def insert_owner_def jhas_def high_surrogate_def low_surrogate_def)
  have id: "ac_id a = ascii ''acq:1''"
    using acquisition_id_text [of "ascii ''1''"] by (simp add: admitted(1) record_of_def admit_row_def high_surrogate_def low_surrogate_def)
  have run: "acq_run plain_env [CallAdmit (ascii ''1'') some_ask 1 OwnerRedrive,
        CallResolve (ascii ''acq:1'') some_owner (ac_bindingDigest a) (JBool True) (\<lambda>g. (Inr (Decided, JNull), g)) 2] new_acq_store = st'"
    using ask dec id by (simp add: acq_run_def del: ascii_simps)
  have ok1: "acq_ok plain_env (as_db st)"
    using acq_run_ok [OF plain_env_laws, of "[CallAdmit (ascii ''1'') some_ask 1 OwnerRedrive]"] ask by (simp add: acq_run_def del: ascii_simps)
  obtain r' where r': "r' \<in> set (ad_rows (as_db st'))" "aq_state r' \<noteq> Pending"
    using resolve_decided [OF plain_env_laws ok1 dec] require_acquisition_row owned_binding by metis
  have rows: "ad_owners (as_db st') = [(owner_key some_ask, None)] \<and> (\<exists>r2. ad_rows (as_db st') = [r2] \<and> aq_createdAt r2 = 1 \<and>
      aq_acknowledgedAt r2 = None \<and> aq_delivery r2 = OwnerRedrive \<and> row_key r2 = owner_key some_ask)"
    using resolve_updates [OF dec] by (auto simp: admitted(2) update_rows_def sql_update_def settled_row_def admit_row_def row_key_def owner_key_def)
  then have "list_all (\<lambda>r. safe_integer (aq_createdAt r)) (ad_rows (as_db st'))" "\<exists>r. filter (delivery_due (as_db st')) (ad_rows (as_db st')) = [r]"
    using r' by (auto simp: safe_integer_def delivery_due_def live_owner_def)
  then show ?thesis using run by (metis (no_types, lifting))
qed

text \<open>A run does not stall: while it waits, every delivery it started before has ended.\<close>

lemma recovery_progress:
  "page_left (recovery_start env aborted st es) \<noteq> [] \<Longrightarrow>
     length (ry_done (recovery_start env aborted st es)) = length (filter (\<lambda>e. \<exists>b. e = DeliveryEnded b) es)"
proof (induction es rule: rev_induct)
  case Nil
  show ?case by (simp add: recovery_start_def recovery_run_def reprojectCanonicalOwnerDelivery_def next_page_def)
next
  case (snoc e es)
  then show ?case unfolding recovery_snoc
    by (cases e) (auto simp: page_left_def delivery_ended_def next_page_def Let_def split: recovery_phase.splits list.splits if_splits)
qed

lemma some_recovery:
  assumes "acq_ok env db" and "list_all (\<lambda>r. safe_integer (aq_createdAt r)) (ad_rows db)" and "filter (delivery_due db) (ad_rows db) = [r]"
    and "as_db st = db"
  shows "ry_phase (recovery_start env False st [DeliveryEnded True]) = Finished (Inr ()) \<and>
    attempted (recovery_start env False st [DeliveryEnded True]) = [row_record env r]"
proof -
  have "r \<in> set (filter (delivery_due db) (ad_rows db))" by (simp add: assms(3))
  then have r: "r \<in> set (ad_rows db)" by simp
  then have ok: "row_ok env r" "safe_integer (aq_createdAt r)" using assms(1,2) by (auto simp: acq_ok_def list_all_iff)
  have due: "due_rows db = [r]" by (simp add: due_rows_def assms(3))
  let ?a = "row_record env r"
  have good: "good_cursor (Some (record_cursor ?a))" using good_record_cursor ok by blast
  have c: "cursor_order (record_cursor ?a) = delivery_order r" by (rule owned_cursor [OF row_record [OF ok(1)]])
  have first: "scanOutstandingTerminal env None db = Inr [?a]"
    using scan_spec [OF assms(1), of None] by (simp add: good_cursor_def due_page_take due past_def)
  have second: "scanOutstandingTerminal env (Some (record_cursor ?a)) db = Inr []"
    using scan_spec [OF assms(1), of "Some (record_cursor ?a)"] good
    by (auto simp: due_page_take due past_def c) (auto simp: good_cursor_def record_cursor_def)
  show ?thesis using first second assms(4)
    by (simp add: recovery_start_def recovery_run_def reprojectCanonicalOwnerDelivery_def delivery_ended_def next_page_def attempted_def Let_def)
qed

section \<open>Properties\<close>

text \<open>
  C8. Recovery reaches every owner. Let the host recover its deliveries, on any reachable
  store, while other calls change the stores during every wait, deliveries end either way and the host
  may stop them at any time. The receipts are attempted strictly in the order of the
  delivery index, so none of them twice, and each was due at some moment of the run. When the visit ends by itself, every
  receipt that stayed due throughout has been attempted, and it succeeds exactly when all attempts did,
  else it reports how many did not. It ends early only when it was stopped, or when it cannot page past a receipt
  whose time is not a safe integer. While it has not ended, every delivery it started before the current one has ended.
\<close>

theorem delivery_recovery_complete:
  assumes "env_laws env" and "st = acq_run env calls new_acq_store"
    and "fin = recovery_start env aborted st es"
  shows "sorted_wrt (<) (map place (attempted fin)) \<and> place ` set (attempted fin) \<subseteq> sometime_due env aborted st es \<and>
    (case ry_phase fin of
       Delivering a rest \<Rightarrow> length (ry_done fin) = length (filter (\<lambda>e. \<exists>b. e = DeliveryEnded b) es)
     | Finished (Inr _) \<Rightarrow> list_all snd (ry_done fin) \<and> always_due env aborted st es \<subseteq> place ` set (attempted fin)
     | Finished (Inl (DeliveriesFailed n)) \<Rightarrow>
         0 < n \<and> n = length (filter (Not \<circ> snd) (ry_done fin)) \<and> always_due env aborted st es \<subseteq> place ` set (attempted fin)
     | Finished (Inl DeliveryStopped) \<Rightarrow> ry_stopped fin
     | Finished (Inl (ScanFailed e)) \<Rightarrow> e = BadPageCursor \<and> list_ex (\<lambda>a. \<not> safe_integer (ac_createdAt a)) (attempted fin))"
proof -
  have "acq_ok env (as_db st)" unfolding assms(2) by (rule acq_run_ok [OF assms(1)])
  then have run: "recovering env (always_due env aborted st es) (sometime_due env aborted st es) fin"
    unfolding assms(3) by (rule recovery_recovering [OF assms(1)])
  have "sorted_wrt (<) (map place (attempted fin))" "place ` set (attempted fin) \<subseteq> sometime_due env aborted st es"
    using run by (auto simp: recovering_def sorted_wrt_append)
  moreover have "recovery_outcome (always_due env aborted st es) fin" using run by (simp add: recovering_def)
  ultimately show ?thesis
    using recovery_progress [of env aborted st es, folded assms(3)]
    by (auto simp: recovery_outcome_def page_left_def list_ex_iff split: recovery_phase.splits sum.splits delivery_failure.splits)
qed

theorem delivery_recovery_complete_witness:
  "\<exists>st fin. fin = recovery_start plain_env False st [DeliveryEnded True] \<and> ry_phase fin = Finished (Inr ()) \<and> attempted fin \<noteq> [] \<and>
     always_due plain_env False st [DeliveryEnded True] \<subseteq> place ` set (attempted fin)"
proof -
  obtain calls r where due: "list_all (\<lambda>r. safe_integer (aq_createdAt r)) (ad_rows (as_db (acq_run plain_env calls new_acq_store)))"
      "filter (delivery_due (as_db (acq_run plain_env calls new_acq_store))) (ad_rows (as_db (acq_run plain_env calls new_acq_store))) = [r]"
    using some_due by (auto simp: Let_def simp del: ascii_simps)
  let ?st = "acq_run plain_env calls new_acq_store"
  note run = some_recovery [OF acq_run_ok [OF plain_env_laws] due refl]
  from delivery_recovery_complete [OF plain_env_laws refl refl, of False calls "[DeliveryEnded True]"] run
  have "always_due plain_env False ?st [DeliveryEnded True] \<subseteq> place ` set (attempted (recovery_start plain_env False ?st [DeliveryEnded True]))"
    by simp
  then show ?thesis
    using run by (intro exI [of _ ?st] exI [of _ "recovery_start plain_env False ?st [DeliveryEnded True]"]) simp
qed

end
