(* ===== verification/WorkspacePaths.thy ===== *)
theory WorkspacePaths
  imports Worktree
begin

text \<open>
  Names of the repositories and units of a workspace
  (\<^verbatim>\<open>packages/shared/src/runtime/entitySpec.ts\<close> and
  \<^verbatim>\<open>packages/workspace-contracts/src/sourceDirs.ts\<close>): which paths name a repository, how a path
  falls into its repository and the rest, and the package name that a unit's location gives it.
\<close>

subsection \<open>Sections\<close>

definition WORKSPACE_SOURCE_DIRS :: "ustring list" where
  "WORKSPACE_SOURCE_DIRS = map ascii [''meta'', ''panels'', ''clients'', ''packages'', ''agents'', ''workers'',
     ''extensions'', ''skills'', ''about'', ''terminal-apps'', ''templates'', ''projects'']"

definition FLAT_SECTIONS :: "ustring list" where
  "FLAT_SECTIONS = [ascii ''meta'']"

definition NON_REPO_SECTIONS :: "ustring list" where
  "NON_REPO_SECTIONS = [ascii ''agents'']"

definition CONTAINER_SECTIONS :: "ustring list" where
  "CONTAINER_SECTIONS =
     filter (\<lambda>d. d \<notin> set FLAT_SECTIONS \<and> d \<notin> set NON_REPO_SECTIONS) WORKSPACE_SOURCE_DIRS"

definition isFlatSection :: "ustring \<Rightarrow> bool" where
  "isFlatSection s \<longleftrightarrow> s \<in> set FLAT_SECTIONS"

subsection \<open>Repository paths\<close>

definition MAX_REPO_PATH_LENGTH :: nat where "MAX_REPO_PATH_LENGTH = 256"

definition alphanumeric :: "code_unit \<Rightarrow> bool" where
  "alphanumeric u \<longleftrightarrow> 65 \<le> u \<and> u \<le> 90 \<or> 97 \<le> u \<and> u \<le> 122 \<or> 48 \<le> u \<and> u \<le> 57"

text \<open>The class of letters, digits and \<open>._@-\<close>, one or more.\<close>

definition safe_repo_segment :: "ustring \<Rightarrow> bool" where
  "safe_repo_segment s \<longleftrightarrow> s \<noteq> [] \<and> (\<forall>u \<in> set s. alphanumeric u \<or> u = 46 \<or> u = 95 \<or> u = 64 \<or> u = 45)"

datatype repo_path_error =
    EmptyRepoPath
  | RepoPathTooLong
  | BadRepoPath ustring
  | NotAFlatRepo ustring
  | NotARepoPath ustring

definition normalizeWorkspaceRepoPath :: "ustring \<Rightarrow> repo_path_error + ustring" where
  "normalizeWorkspaceRepoPath repoPath =
     (if length repoPath = 0 then Inl EmptyRepoPath
      else if length repoPath > MAX_REPO_PATH_LENGTH then Inl RepoPathTooLong
      else if 92 \<in> set repoPath \<or> 0 \<in> set repoPath then Inl (BadRepoPath repoPath)
      else if list_ex (\<lambda>s. s = [] \<or> s = ascii ''.'' \<or> s = ascii ''..'' \<or> \<not> safe_repo_segment s) (split_slash repoPath)
      then Inl (BadRepoPath repoPath)
      else case split_slash repoPath of
        [s] \<Rightarrow> if s \<in> set FLAT_SECTIONS then Inr s else Inl (NotAFlatRepo repoPath)
      | [s, n] \<Rightarrow> if s \<in> set CONTAINER_SECTIONS then Inr (s @ slash # n) else Inl (NotARepoPath repoPath)
      | _ \<Rightarrow> Inl (NotARepoPath repoPath))"

definition isWorkspaceRepoPath :: "ustring \<Rightarrow> bool" where
  "isWorkspaceRepoPath repoPath = ok (normalizeWorkspaceRepoPath repoPath)"

subsection \<open>Paths inside a repository\<close>

definition strip_slashes :: "ustring \<Rightarrow> ustring" where
  "strip_slashes p = dropWhile (\<lambda>u. u = slash) p"

definition forward_slashes :: "ustring \<Rightarrow> ustring" where
  "forward_slashes p = map (\<lambda>u. if u = 92 then slash else u) p"

definition taxonomyRepoForPath :: "ustring \<Rightarrow> ustring option" where
  "taxonomyRepoForPath editPath =
     (case split_slash (strip_slashes editPath) of
        [] \<Rightarrow> None
      | s # rest \<Rightarrow>
          if s = [] then None
          else if s \<in> set FLAT_SECTIONS then Some s
          else if s \<in> set CONTAINER_SECTIONS then
            (case rest of
               [] \<Rightarrow> None
             | n # _ \<Rightarrow> if n = [] then None else Some (s @ slash # n))
          else None)"

record repo_split =
  rp_repoPath :: ustring
  rp_repoRelPath :: ustring

definition splitRepoPath :: "ustring \<Rightarrow> repo_split option" where
  "splitRepoPath wsRelPath =
     (let normalized = strip_slashes (forward_slashes wsRelPath) in
      case taxonomyRepoForPath normalized of
        None \<Rightarrow> None
      | Some repoPath \<Rightarrow> Some \<lparr>rp_repoPath = repoPath,
          rp_repoRelPath = (if normalized = repoPath then [] else drop (length repoPath + 1) normalized)\<rparr>)"

text \<open>
  The match of a leaf against \<open>(.+)\<close>, a dot and a suffix: the suffix has no dot, so that the dot
  is the last one; \<open>(.+)\<close> does not cross a line terminator.
\<close>

definition dot :: code_unit where "dot = 46"

definition line_terminator :: "code_unit \<Rightarrow> bool" where
  "line_terminator u \<longleftrightarrow> u \<in> {10, 13, 0x2028, 0x2029}"

definition file_suffix :: "ustring \<Rightarrow> bool" where
  "file_suffix s \<longleftrightarrow> s \<noteq> [] \<and> alphanumeric (hd s) \<and> (\<forall>u \<in> set (tl s). alphanumeric u \<or> u = 95 \<or> u = 45)"

definition file_stem :: "ustring \<Rightarrow> ustring option" where
  "file_stem leaf =
     (let suffix = rev (takeWhile (\<lambda>u. u \<noteq> dot) (rev leaf));
          stem = take (length leaf - length suffix - 1) leaf in
      if dot \<in> set leaf \<and> stem \<noteq> [] \<and> \<not> list_ex line_terminator stem \<and> file_suffix suffix then Some stem else None)"

definition canonicalizeWorkspaceFilePath :: "ustring \<Rightarrow> ustring" where
  "canonicalizeWorkspaceFilePath wsRelPath =
     (let normalized = strip_slashes (forward_slashes wsRelPath) in
      case splitRepoPath normalized of
        None \<Rightarrow> normalized
      | Some sp \<Rightarrow>
          if rp_repoRelPath sp \<noteq> [] then normalized
          else (case split_slash (rp_repoPath sp) of
                  [s, leaf] \<Rightarrow>
                    if startsWith [dot] leaf then normalized
                    else (case file_stem leaf of
                            None \<Rightarrow> normalized
                          | Some stem \<Rightarrow> s @ slash # stem @ slash # leaf)
                | _ \<Rightarrow> normalized))"

subsection \<open>Units\<close>

datatype unit_kind = PackageUnit | PanelUnit | WorkerUnit | ExtensionUnit | ClientUnit | TemplateUnit

record unit_dir =
  ud_dir :: ustring
  ud_kind :: unit_kind
  ud_scope :: "ustring option"

definition unit_dir_of :: "string \<times> unit_kind \<times> string option \<Rightarrow> unit_dir" where
  "unit_dir_of d = \<lparr>ud_dir = ascii (fst d), ud_kind = fst (snd d), ud_scope = map_option ascii (snd (snd d))\<rparr>"

definition BUILDABLE_UNIT_DIRS :: "unit_dir list" where
  "BUILDABLE_UNIT_DIRS = map unit_dir_of [
     (''packages'', PackageUnit, Some ''@workspace/''),
     (''panels'', PanelUnit, Some ''@workspace-panels/''),
     (''clients'', ClientUnit, Some ''@workspace-clients/''),
     (''about'', PanelUnit, Some ''@workspace-about/''),
     (''terminal-apps'', PanelUnit, Some ''@workspace-terminal-apps/''),
     (''workers'', WorkerUnit, Some ''@workspace-workers/''),
     (''extensions'', ExtensionUnit, Some ''@workspace-extensions/''),
     (''skills'', PackageUnit, Some ''@workspace-skills/''),
     (''templates'', TemplateUnit, None)]"

definition WORKSPACE_PACKAGE_SCOPES :: "ustring list" where
  "WORKSPACE_PACKAGE_SCOPES = concat (map (\<lambda>d. case ud_scope d of Some s \<Rightarrow> if s = [] then [] else [s] | None \<Rightarrow> [])
     BUILDABLE_UNIT_DIRS)"

definition isTerminalAppLocation :: "ustring \<Rightarrow> bool" where
  "isTerminalAppLocation relativePath \<longleftrightarrow>
     hd (split_slash (strip_slashes (forward_slashes relativePath))) = ascii ''terminal-apps''"

text \<open>The location with the slashes at both ends cut off.\<close>

definition unit_location :: "ustring \<Rightarrow> ustring" where
  "unit_location relativePath = rev (strip_slashes (rev (strip_slashes (forward_slashes relativePath))))"

definition expectedBuildUnitName :: "ustring \<Rightarrow> ustring option" where
  "expectedBuildUnitName relativePath =
     (case split_slash (unit_location relativePath) of
        [s, name] \<Rightarrow>
          if s = [] \<or> name = [] then None
          else (case find (\<lambda>d. ud_dir d = s) BUILDABLE_UNIT_DIRS of
                  None \<Rightarrow> None
                | Some d \<Rightarrow>
                    if ud_kind d = TemplateUnit then Some (ascii ''template:'' @ name)
                    else Some ((case ud_scope d of Some t \<Rightarrow> t | None \<Rightarrow> ascii ''null'') @ name))
      | _ \<Rightarrow> None)"

subsection \<open>Facts\<close>

definition repo_name :: "ustring \<Rightarrow> bool" where
  "repo_name n \<longleftrightarrow> safe_repo_segment n \<and> n \<noteq> ascii ''.'' \<and> n \<noteq> ascii ''..''"

lemma section_names: "s \<in> set WORKSPACE_SOURCE_DIRS \<Longrightarrow> repo_name s"
proof -
  have "list_all repo_name WORKSPACE_SOURCE_DIRS" by code_simp
  then show "s \<in> set WORKSPACE_SOURCE_DIRS \<Longrightarrow> repo_name s" by (simp add: list_all_iff)
qed

lemma container_names: "s \<in> set CONTAINER_SECTIONS \<Longrightarrow> repo_name s \<and> s \<notin> set FLAT_SECTIONS"
  by (auto simp: CONTAINER_SECTIONS_def intro: section_names)

lemma flat_names: "s \<in> set FLAT_SECTIONS \<Longrightarrow> repo_name s"
proof -
  have "list_all repo_name FLAT_SECTIONS" by code_simp
  then show "s \<in> set FLAT_SECTIONS \<Longrightarrow> repo_name s" by (simp add: list_all_iff)
qed

lemma repo_name_units: "repo_name n \<Longrightarrow> n \<noteq> [] \<and> slash \<notin> set n \<and> 92 \<notin> set n \<and> 0 \<notin> set n"
  by (auto simp: repo_name_def safe_repo_segment_def alphanumeric_def slash_def)

lemma split_two: "slash \<notin> set s \<Longrightarrow> slash \<notin> set n \<Longrightarrow> split_slash (s @ slash # n) = [s, n]"
  by (simp add: split_append split_no_slash)

lemma split_no_slashes: "t \<in> set (split_slash p) \<Longrightarrow> slash \<notin> set t"
proof -
  have "list_all (\<lambda>t. slash \<notin> set t) (split_slash p)"
    by (induction p rule: split_slash.induct) (auto split: list.splits)
  then show "t \<in> set (split_slash p) \<Longrightarrow> slash \<notin> set t" by (simp add: list_all_iff)
qed

lemma split_pair: "split_slash p = [s, n] \<longleftrightarrow> p = s @ slash # n \<and> slash \<notin> set s \<and> slash \<notin> set n"
proof
  assume h: "split_slash p = [s, n]"
  then have "p = s @ slash # n" using join_split [of p] by simp
  then show "p = s @ slash # n \<and> slash \<notin> set s \<and> slash \<notin> set n" using h split_no_slashes [of _ p] by simp
qed (auto simp: split_two)

lemma split_single: "split_slash p = [s] \<longleftrightarrow> p = s \<and> slash \<notin> set s"
proof
  assume h: "split_slash p = [s]"
  then have "p = s" using join_split [of p] by simp
  then show "p = s \<and> slash \<notin> set s" using h split_no_slashes [of _ p] by simp
qed (auto simp: split_no_slash)

lemma normalize_Inr:
  "normalizeWorkspaceRepoPath p = Inr r \<longleftrightarrow> r = p \<and> length p \<le> MAX_REPO_PATH_LENGTH \<and>
     (p \<in> set FLAT_SECTIONS \<or> (\<exists>s n. p = s @ slash # n \<and> s \<in> set CONTAINER_SECTIONS \<and> repo_name n))"
  (is "?l \<longleftrightarrow> r = p \<and> ?len \<and> ?shape")
proof
  assume l: ?l
  then have names: "repo_name t" if "t \<in> set (split_slash p)" for t
    using that by (fastforce simp: normalizeWorkspaceRepoPath_def list_ex_iff repo_name_def split: if_splits)
  have len: ?len using l by (auto simp: normalizeWorkspaceRepoPath_def split: if_splits)
  consider s where "split_slash p = [s]" "s \<in> set FLAT_SECTIONS" "r = s"
    | s n where "split_slash p = [s, n]" "s \<in> set CONTAINER_SECTIONS" "r = s @ slash # n"
    using l by (auto simp: normalizeWorkspaceRepoPath_def split: if_splits list.splits)
  then show "r = p \<and> ?len \<and> ?shape"
  proof cases
    case 1
    then show ?thesis using len by (simp add: split_single)
  next
    case 2
    then show ?thesis using len names [of n] split_pair [of p s n] by auto
  qed
next
  assume h: "r = p \<and> ?len \<and> ?shape"
  then consider "p \<in> set FLAT_SECTIONS" | s n where "p = s @ slash # n" "s \<in> set CONTAINER_SECTIONS" "repo_name n"
    by blast
  then show ?l
  proof cases
    case 1
    with flat_names [OF 1] repo_name_units [of p] h show ?thesis
      by (auto simp: normalizeWorkspaceRepoPath_def split_no_slash repo_name_def)
  next
    case 2
    have s: "repo_name s" using container_names [OF 2(2)] by simp
    have "split_slash p = [s, n]" using repo_name_units [OF s] repo_name_units [OF 2(3)] 2(1) by (simp add: split_two)
    moreover have "p \<noteq> []" "92 \<notin> set p" "0 \<notin> set p"
      using repo_name_units [OF s] repo_name_units [OF 2(3)] 2(1) by (auto simp: slash_def)
    moreover have "s \<noteq> []" "n \<noteq> []" using repo_name_units [OF s] repo_name_units [OF 2(3)] by simp_all
    ultimately show ?thesis using h 2 s by (simp add: normalizeWorkspaceRepoPath_def repo_name_def)
  qed
qed

lemma normalized_units:
  assumes "normalizeWorkspaceRepoPath p = Inr r"
  shows "p \<noteq> []" "hd p \<noteq> slash" "92 \<notin> set p"
proof -
  have "p \<noteq> [] \<and> hd p \<noteq> slash \<and> 92 \<notin> set p"
  proof (cases "p \<in> set FLAT_SECTIONS")
    case True
    then show ?thesis using repo_name_units [OF flat_names] hd_in_set [of p] by metis
  next
    case False
    then obtain s n where p: "p = s @ slash # n" "s \<in> set CONTAINER_SECTIONS" "repo_name n"
      using assms by (auto simp: normalize_Inr)
    have s: "s \<noteq> []" "slash \<notin> set s" "92 \<notin> set s" "92 \<notin> set n"
      using container_names [OF p(2)] repo_name_units [of s] repo_name_units [OF p(3)] by auto
    then have "hd p \<noteq> slash" using hd_in_set [of s] p(1) by (metis hd_append2)
    then show ?thesis using s p(1) by (simp add: slash_def)
  qed
  then show "p \<noteq> []" "hd p \<noteq> slash" "92 \<notin> set p" by simp_all
qed

lemma forward_id [simp]: "92 \<notin> set p \<Longrightarrow> forward_slashes p = p"
  by (induction p) (auto simp: forward_slashes_def)

lemma no_backslash_forward [simp]: "92 \<notin> set (forward_slashes p)"
  by (auto simp: forward_slashes_def slash_def)

lemma strip_id: "p = [] \<or> hd p \<noteq> slash \<Longrightarrow> strip_slashes p = p"
  by (cases p) (auto simp: strip_slashes_def)

lemma strip_hd: "strip_slashes p = [] \<or> hd (strip_slashes p) \<noteq> slash"
  using hd_dropWhile [of "\<lambda>u. u = slash" p] by (auto simp: strip_slashes_def)

lemma set_strip: "set (strip_slashes p) \<subseteq> set p"
  by (auto simp: strip_slashes_def dest: set_dropWhileD)

lemma strip_idem [simp]: "strip_slashes (strip_slashes p) = strip_slashes p"
  using strip_hd by (rule strip_id)

lemma normal_idem [simp]: "forward_slashes (strip_slashes (forward_slashes p)) = strip_slashes (forward_slashes p)"
  using set_strip [of "forward_slashes p"] no_backslash_forward [of p] by (intro forward_id) blast

lemma taxonomy_repo:
  assumes "normalizeWorkspaceRepoPath r = Inr r"
  shows "taxonomyRepoForPath r = Some r" "taxonomyRepoForPath (r @ slash # rel) = Some r"
proof -
  have strip: "strip_slashes r = r" "strip_slashes (r @ slash # rel) = r @ slash # rel"
    using normalized_units [OF assms] by (auto intro!: strip_id)
  consider "r \<in> set FLAT_SECTIONS" | s n where "r = s @ slash # n" "s \<in> set CONTAINER_SECTIONS" "repo_name n"
    using assms by (auto simp: normalize_Inr)
  then show "taxonomyRepoForPath r = Some r" "taxonomyRepoForPath (r @ slash # rel) = Some r"
  proof (atomize (full), cases)
    case 1
    then show "taxonomyRepoForPath r = Some r \<and> taxonomyRepoForPath (r @ slash # rel) = Some r"
      using flat_names [OF 1] repo_name_units [of r] by (auto simp: taxonomyRepoForPath_def strip split_append split_no_slash)
  next
    case 2
    have "split_slash (s @ slash # n @ slash # rel) = [s, n] @ split_slash rel"
      using container_names [OF 2(2)] repo_name_units [of s] repo_name_units [OF 2(3)]
      by (simp add: split_append split_no_slash)
    then show "taxonomyRepoForPath r = Some r \<and> taxonomyRepoForPath (r @ slash # rel) = Some r"
      using 2 container_names [OF 2(2)] repo_name_units [of s] repo_name_units [OF 2(3)] strip
      by (auto simp: taxonomyRepoForPath_def split_two)
  qed
qed

lemma split_repo:
  assumes "normalizeWorkspaceRepoPath r = Inr r" and "92 \<notin> set rel"
  shows "splitRepoPath (r @ slash # rel) = Some \<lparr>rp_repoPath = r, rp_repoRelPath = rel\<rparr>"
    "splitRepoPath r = Some \<lparr>rp_repoPath = r, rp_repoRelPath = []\<rparr>"
  using normalized_units [OF assms(1)] assms(2) taxonomy_repo [OF assms(1)]
  by (auto simp: splitRepoPath_def strip_id slash_def Let_def)

subsection \<open>Files at the place of a repository\<close>

lemma stem_parts: "file_stem leaf = Some stem \<Longrightarrow> stem \<noteq> [] \<and> set stem \<subseteq> set leaf"
  by (auto simp: file_stem_def Let_def split: if_splits dest: in_set_takeD)

lemma taxonomy_container:
  assumes "taxonomyRepoForPath p = Some rp" and "rp \<notin> set FLAT_SECTIONS"
  shows "\<exists>s n ns. split_slash (strip_slashes p) = s # n # ns \<and> s \<in> set CONTAINER_SECTIONS \<and> n \<noteq> [] \<and> rp = s @ slash # n"
proof (cases "split_slash (strip_slashes p)")
  case Nil
  then show ?thesis using assms by (simp add: taxonomyRepoForPath_def)
next
  case (Cons s rest)
  then show ?thesis using assms by (cases rest) (simp_all add: taxonomyRepoForPath_def split: if_split_asm)
qed

lemma split_repo_container:
  assumes "splitRepoPath p = Some sp" and "split_slash (rp_repoPath sp) = [s, leaf]"
  shows "s \<in> set CONTAINER_SECTIONS" "rp_repoPath sp = s @ slash # leaf"
    "leaf \<noteq> []" "set leaf \<subseteq> set (strip_slashes (forward_slashes p))" "slash \<notin> set leaf"
proof -
  let ?q = "strip_slashes (forward_slashes p)"
  obtain rp where rp: "taxonomyRepoForPath ?q = Some rp" and [simp]: "rp_repoPath sp = rp"
    using assms(1) by (auto simp: splitRepoPath_def Let_def split: option.splits)
  have eq: "rp = s @ slash # leaf" and s: "slash \<notin> set s" "slash \<notin> set leaf" using assms(2) by (simp_all add: split_pair)
  then have "rp \<notin> set FLAT_SECTIONS" using flat_names repo_name_units [of rp] by auto
  then obtain t n ns where q: "split_slash ?q = t # n # ns" and t: "t \<in> set CONTAINER_SECTIONS" "n \<noteq> []" "rp = t @ slash # n"
    using taxonomy_container [OF rp] by auto
  have "slash \<notin> set t" "slash \<notin> set n" using split_no_slashes [of _ ?q] q by simp_all
  then have "split_slash rp = [t, n]" using t(3) by (simp add: split_two)
  then have [simp]: "t = s" "n = leaf" using assms(2) by simp_all
  have "join_slash (t # n # ns) = ?q" using q join_split [of ?q] by simp
  moreover have "set leaf \<subseteq> set (join_slash (t # n # ns))" by (cases ns) auto
  ultimately have "set leaf \<subseteq> set ?q" by simp
  then show "s \<in> set CONTAINER_SECTIONS" "rp_repoPath sp = s @ slash # leaf" "leaf \<noteq> []"
    "set leaf \<subseteq> set (strip_slashes (forward_slashes p))" "slash \<notin> set leaf"
    using t eq s by simp_all
qed

lemma canonical_cases:
  obtains (same) "canonicalizeWorkspaceFilePath p = strip_slashes (forward_slashes p)"
  | (expanded) s leaf stem where "canonicalizeWorkspaceFilePath p = s @ slash # stem @ slash # leaf"
      "s \<in> set CONTAINER_SECTIONS" "file_stem leaf = Some stem" "leaf \<noteq> []" "92 \<notin> set leaf" "slash \<notin> set leaf"
proof (cases "splitRepoPath (strip_slashes (forward_slashes p))")
  case None
  then show thesis using same by (simp add: canonicalizeWorkspaceFilePath_def)
next
  case (Some sp)
  let ?q = "strip_slashes (forward_slashes p)"
  show thesis
  proof (cases "canonicalizeWorkspaceFilePath p = ?q")
    case False
    then obtain s leaf stem where sp: "split_slash (rp_repoPath sp) = [s, leaf]" "file_stem leaf = Some stem"
      "canonicalizeWorkspaceFilePath p = s @ slash # stem @ slash # leaf"
      using Some by (auto simp: canonicalizeWorkspaceFilePath_def Let_def split: if_splits list.splits option.splits)
    note parts = split_repo_container [OF Some sp(1)]
    have "92 \<notin> set ?q" using no_backslash_forward [of p] set_strip [of "forward_slashes p"] by blast
    then have "92 \<notin> set leaf" using parts(4) by auto
    then show thesis using expanded [OF sp(3) parts(1) sp(2) parts(3) _ parts(5)] by simp
  qed (rule same)
qed

lemma canonicalize_file:
  assumes "s \<in> set CONTAINER_SECTIONS" "stem \<noteq> []" "slash \<notin> set stem" "92 \<notin> set stem" "leaf \<noteq> []" "92 \<notin> set leaf"
  shows "canonicalizeWorkspaceFilePath (s @ slash # stem @ slash # leaf) = s @ slash # stem @ slash # leaf"
proof -
  let ?p = "s @ slash # stem @ slash # leaf"
  have s: "s \<noteq> []" "slash \<notin> set s" "92 \<notin> set s" "s \<notin> set FLAT_SECTIONS"
    using container_names [OF assms(1)] repo_name_units [of s] by auto
  have [simp]: "forward_slashes ?p = ?p" using s assms by (intro forward_id) (auto simp: slash_def)
  have "hd ?p \<noteq> slash" using hd_in_set [OF s(1)] s by (metis hd_append2)
  then have [simp]: "strip_slashes ?p = ?p" by (intro strip_id) simp
  have "split_slash ?p = s # stem # split_slash leaf"
    using s assms(3) by (simp add: split_append split_no_slash)
  then have "taxonomyRepoForPath ?p = Some (s @ slash # stem)" using s assms by (simp add: taxonomyRepoForPath_def)
  then have "splitRepoPath ?p = Some \<lparr>rp_repoPath = s @ slash # stem, rp_repoRelPath = leaf\<rparr>"
    by (simp add: splitRepoPath_def)
  then show ?thesis using assms by (simp add: canonicalizeWorkspaceFilePath_def Let_def)
qed

lemma canonicalize_idem [simp]:
  "canonicalizeWorkspaceFilePath (canonicalizeWorkspaceFilePath p) = canonicalizeWorkspaceFilePath p"
proof (cases p rule: canonical_cases)
  case same
  then show ?thesis by (simp add: canonicalizeWorkspaceFilePath_def Let_def)
next
  case (expanded s leaf stem)
  then show ?thesis using stem_parts [OF expanded(3)] canonicalize_file [of s stem leaf] by auto
qed

subsection \<open>Names of units\<close>

definition unit_prefix :: "unit_dir \<Rightarrow> ustring" where
  "unit_prefix d = (if ud_kind d = TemplateUnit then ascii ''template:'' else case ud_scope d of Some t \<Rightarrow> t | None \<Rightarrow> ascii ''null'')"

text \<open>Every prefix but that of the templates has one slash, at its end.\<close>

definition prefix_head :: "unit_dir \<Rightarrow> ustring list" where
  "prefix_head d = butlast (split_slash (unit_prefix d))"

lemma unit_dirs_table:
  assumes "d \<in> set BUILDABLE_UNIT_DIRS" and "e \<in> set BUILDABLE_UNIT_DIRS"
  shows "prefix_head d = prefix_head e \<longleftrightarrow> d = e"
    "last (split_slash (unit_prefix d)) = (if ud_kind d = TemplateUnit then ascii ''template:'' else [])"
proof -
  have "list_all (\<lambda>d. list_all (\<lambda>e. (prefix_head d = prefix_head e) = (d = e)) BUILDABLE_UNIT_DIRS) BUILDABLE_UNIT_DIRS"
    by code_simp
  then show "prefix_head d = prefix_head e \<longleftrightarrow> d = e" using assms by (simp add: list_all_iff)
  have "list_all (\<lambda>d. last (split_slash (unit_prefix d)) = (if ud_kind d = TemplateUnit then ascii ''template:'' else []))
      BUILDABLE_UNIT_DIRS" by code_simp
  then show "last (split_slash (unit_prefix d)) = (if ud_kind d = TemplateUnit then ascii ''template:'' else [])"
    using assms by (simp add: list_all_iff)
qed

lemma split_suffix_name: "slash \<notin> set m \<Longrightarrow> split_slash (p @ m) = butlast (split_slash p) @ [last (split_slash p) @ m]"
  by (induction p rule: split_slash.induct) (auto simp: split_no_slash split: list.splits)

lemma unit_name_Some:
  "expectedBuildUnitName p = Some n \<longleftrightarrow>
     (\<exists>d m. d \<in> set BUILDABLE_UNIT_DIRS \<and> unit_location p = ud_dir d @ slash # m \<and> m \<noteq> [] \<and> slash \<notin> set m \<and>
        find (\<lambda>e. ud_dir e = ud_dir d) BUILDABLE_UNIT_DIRS = Some d \<and> n = unit_prefix d @ m)" (is "_ \<longleftrightarrow> ?r")
proof
  assume "expectedBuildUnitName p = Some n"
  then obtain s m d where h: "split_slash (unit_location p) = [s, m]" "m \<noteq> []"
    "find (\<lambda>d. ud_dir d = s) BUILDABLE_UNIT_DIRS = Some d" "n = unit_prefix d @ m"
    by (auto simp: expectedBuildUnitName_def unit_prefix_def split: list.splits if_splits option.splits)
  then show ?r using find_SomeD [OF h(3)] by (auto simp: split_pair)
next
  assume ?r
  then obtain d m where h: "d \<in> set BUILDABLE_UNIT_DIRS" "unit_location p = ud_dir d @ slash # m" "m \<noteq> []" "slash \<notin> set m"
    "find (\<lambda>e. ud_dir e = ud_dir d) BUILDABLE_UNIT_DIRS = Some d" "n = unit_prefix d @ m" by blast
  have "list_all (\<lambda>d. ud_dir d \<noteq> [] \<and> slash \<notin> set (ud_dir d)) BUILDABLE_UNIT_DIRS" by code_simp
  then have "ud_dir d \<noteq> []" "slash \<notin> set (ud_dir d)" using h(1) by (simp_all add: list_all_iff)
  then show "expectedBuildUnitName p = Some n"
    using h by (simp add: expectedBuildUnitName_def split_two unit_prefix_def)
qed

lemma unit_names_inject:
  assumes "expectedBuildUnitName p = Some n" and "expectedBuildUnitName q = Some n"
  shows "unit_location p = unit_location q"
proof -
  obtain d m where d: "d \<in> set BUILDABLE_UNIT_DIRS" "unit_location p = ud_dir d @ slash # m" "slash \<notin> set m" "n = unit_prefix d @ m"
    using assms(1) by (auto simp: unit_name_Some)
  obtain e k where e: "e \<in> set BUILDABLE_UNIT_DIRS" "unit_location q = ud_dir e @ slash # k" "slash \<notin> set k" "n = unit_prefix e @ k"
    using assms(2) by (auto simp: unit_name_Some)
  have "split_slash n = prefix_head d @ [last (split_slash (unit_prefix d)) @ m]"
    "split_slash n = prefix_head e @ [last (split_slash (unit_prefix e)) @ k]"
    using split_suffix_name [OF d(3), of "unit_prefix d"] split_suffix_name [OF e(3), of "unit_prefix e"]
    by (simp_all add: prefix_head_def d(4) [symmetric] e(4) [symmetric])
  then have "prefix_head d = prefix_head e" by simp
  then have "d = e" using unit_dirs_table(1) [OF d(1) e(1)] by simp
  then show ?thesis using d e by simp
qed

lemma repo_path_shape:
  "isWorkspaceRepoPath r \<longleftrightarrow> length r \<le> 256 \<and>
     (r = ascii ''meta'' \<or> (\<exists>s n. r = s @ slash # n \<and> s \<in> set CONTAINER_SECTIONS \<and> repo_name n))"
proof -
  have "set FLAT_SECTIONS = {ascii ''meta''}" by (simp only: FLAT_SECTIONS_def list.set)
  then show ?thesis by (simp only: isWorkspaceRepoPath_def ok_iff normalize_Inr MAX_REPO_PATH_LENGTH_def) auto
qed

text \<open>
  C36. A path is put back together from the repository that owns it and the rest: for every canonical
  repository path \<open>r\<close>, which is the flat repository or a container section with a safe name,
  and every path \<open>rel\<close> below it, \<open>splitRepoPath\<close> gives the two parts of \<open>r/rel\<close>, and \<open>r\<close> itself is
  the repository with nothing below.
\<close>

theorem repo_path_roundtrip:
  assumes "isWorkspaceRepoPath r" and "92 \<notin> set rel"
  shows "length r \<le> 256 \<and> (r = ascii ''meta'' \<or> (\<exists>s n. r = s @ slash # n \<and> s \<in> set CONTAINER_SECTIONS \<and> repo_name n)) \<and>
    splitRepoPath (r @ slash # rel) = Some \<lparr>rp_repoPath = r, rp_repoRelPath = rel\<rparr> \<and>
    splitRepoPath r = Some \<lparr>rp_repoPath = r, rp_repoRelPath = []\<rparr>"
proof -
  have "normalizeWorkspaceRepoPath r = Inr r" using assms(1) by (auto simp: isWorkspaceRepoPath_def ok_iff normalize_Inr)
  then have "splitRepoPath (r @ slash # rel) = Some \<lparr>rp_repoPath = r, rp_repoRelPath = rel\<rparr>"
    "splitRepoPath r = Some \<lparr>rp_repoPath = r, rp_repoRelPath = []\<rparr>"
    using assms(2) by (simp_all add: split_repo)
  then show ?thesis using assms(1) repo_path_shape by blast
qed

theorem repo_path_roundtrip_witness:
  "splitRepoPath (ascii ''panels/chat'' @ slash # ascii ''src/a.ts'') =
     Some \<lparr>rp_repoPath = ascii ''panels/chat'', rp_repoRelPath = ascii ''src/a.ts''\<rparr>"
proof -
  have "isWorkspaceRepoPath (ascii ''panels/chat'')" by code_simp
  moreover have "92 \<notin> set (ascii ''src/a.ts'')" by code_simp
  ultimately show ?thesis using repo_path_roundtrip by blast
qed

end
