(* ===== verification/RefStore.thy ===== *)
theory RefStore
  imports WorkspacePaths SharedJson SnapshotDigest
begin

text \<open>
  The protected main references of a workspace
  (\<^verbatim>\<open>src/server/services/protectedRefStore.ts\<close>, with
  \<^verbatim>\<open>src/server/hostCore/versionedJsonStore.ts\<close> and \<^verbatim>\<open>packages/shared/src/vcs/publication.ts\<close>):
  the records, the exact schema of the stored file, and the store's operations between two awaits.
  A number of the file is a value of the runtime, read as an integer where it is one.
\<close>

subsection \<open>Data\<close>

record main_ref =
  mr_repoPath :: ustring
  mr_contentRoot :: ustring
  mr_updatedAt :: int

record update_entry =
  ue_repoPath :: ustring
  ue_expectedOld :: "ustring option"
  ue_next :: "ustring option"

record applied =
  ap_publicationId :: ustring
  ap_previousEventId :: ustring
  ap_publishedEventId :: ustring
  ap_basis :: ustring
  ap_resultBasis :: ustring
  ap_entries :: "update_entry list"
  ap_appliedAt :: int
  ap_observersAppliedAt :: "int option"
  ap_acknowledgedAt :: "int option"

record evidence_input =
  ei_publicationId :: ustring
  ei_previousEventId :: ustring
  ei_publishedEventId :: ustring
  ei_basis :: ustring

record update_input =
  ui_entries :: "update_entry list"
  ui_evidence :: evidence_input

record update_result =
  ur_updated :: "(ustring \<times> ustring option) list"
  ur_replayed :: bool

record ref_change =
  rc_repoPath :: ustring
  rc_previous :: "ustring option"
  rc_next :: "ustring option"

record publication =
  pb_publicationId :: ustring
  pb_previousEventId :: ustring
  pb_publishedEventId :: ustring
  pb_resultBasis :: ustring
  pb_appliedAt :: int
  pb_changes :: "ref_change list"

record ref_conflict =
  cf_repoPath :: ustring
  cf_expectedOld :: "ustring option"
  cf_actual :: "ustring option"

datatype ref_error =
    InvalidRepository repo_path_error
  | NotCanonical ustring
  | InvalidValue ustring ustring
  | EvidenceRequired
  | DuplicateRepository ustring
  | PublicationReused ustring
  | ObserversPending ustring
  | HeadEvidenceMissing
  | BatchConflict "ref_conflict list"
  | BasisConflict ustring ustring "ustring option"
  | EventConflict ustring "ustring option" "ustring option"
  | CallbackFailed      \<comment> \<open>a callback of the caller threw\<close>
  | WriteFailed         \<comment> \<open>the file could not be written\<close>

subsection \<open>Digest of the references\<close>

definition ref_json :: "ustring \<times> ustring \<Rightarrow> 'n json" where
  "ref_json r = JObject [(ascii ''repoPath'', JString (fst r)), (ascii ''contentRoot'', JString (snd r))]"

definition basis_json :: "(ustring \<times> ustring) list \<Rightarrow> 'n json" where
  "basis_json ordered = JObject
     [(ascii ''domain'', JString (ascii ''protected-ref-basis'')),
      (ascii ''protocol'', JString (ascii ''vibestudio.vcs.protected-refs.v2'')),
      (ascii ''payload'', JArray (map ref_json ordered))]"

definition hostRefBasisDigest :: "(ustring \<times> ustring) list \<Rightarrow> ustring" where
  "hostRefBasisDigest refs =
     ascii ''protected-ref-basis:'' @ stableSha256Hex (basis_json (sort_utf16 fst refs))"

definition ref_pair :: "main_ref \<Rightarrow> ustring \<times> ustring" where
  "ref_pair m = (mr_repoPath m, mr_contentRoot m)"

subsection \<open>Checks\<close>

text \<open>A prefix and 64 hexadecimal digits, as both patterns of the code ask.\<close>

definition hex64_after :: "ustring \<Rightarrow> ustring \<Rightarrow> bool" where
  "hex64_after p s \<longleftrightarrow> startsWith p s \<and> SHA256_HEX (drop (length p) s)"

definition ref_value :: "ustring \<Rightarrow> bool" where
  "ref_value s \<longleftrightarrow> hex64_after (ascii ''state:'') s"

definition basis_digest :: "ustring \<Rightarrow> bool" where
  "basis_digest s \<longleftrightarrow> hex64_after (ascii ''protected-ref-basis:'') s"

definition validateRepoPath :: "ustring \<Rightarrow> ref_error + unit" where
  "validateRepoPath repoPath =
     (case normalizeWorkspaceRepoPath repoPath of
        Inl e \<Rightarrow> Inl (InvalidRepository e)
      | Inr canonical \<Rightarrow> if canonical \<noteq> repoPath then Inl (NotCanonical repoPath) else Inr ())"

definition validateValue :: "ustring \<Rightarrow> ustring \<Rightarrow> ref_error + unit" where
  "validateValue label v = (if \<not> ref_value v then Inl (InvalidValue label v) else Inr ())"

definition validate_option :: "ustring \<Rightarrow> ustring option \<Rightarrow> ref_error + unit" where
  "validate_option label v = (case v of None \<Rightarrow> Inr () | Some s \<Rightarrow> validateValue label s)"

definition validateEntry :: "update_entry \<Rightarrow> ref_error + unit" where
  "validateEntry e =
     (case validateRepoPath (ue_repoPath e) of
        Inl x \<Rightarrow> Inl x
      | Inr _ \<Rightarrow> (case validate_option (ascii ''expectedOld'') (ue_expectedOld e) of
          Inl x \<Rightarrow> Inl x
        | Inr _ \<Rightarrow> validate_option (ascii ''next'') (ue_next e)))"

subsection \<open>The stored file\<close>

text \<open>The values of JSON as the runtime has them, and the integer that a number is.\<close>

record 'n ref_env =
  re_json :: "'n json_env"
  re_integral :: "'n \<Rightarrow> int option"

definition MAX_SAFE :: int where "MAX_SAFE = 2 ^ 53 - 1"

definition safe_time :: "int \<Rightarrow> bool" where
  "safe_time t \<longleftrightarrow> 0 \<le> t \<and> t \<le> MAX_SAFE"

definition hasExactKeys :: "(ustring \<times> 'v) list \<Rightarrow> ustring list \<Rightarrow> bool" where
  "hasExactKeys fs expected \<longleftrightarrow> length fs = length expected \<and> list_all (\<lambda>k. k \<in> set (map fst fs)) expected"

fun string_of :: "'n json option \<Rightarrow> ustring option" where
  "string_of (Some (JString s)) = Some s"
| "string_of _ = None"

fun time_of :: "'n ref_env \<Rightarrow> 'n json option \<Rightarrow> int option" where
  "time_of env (Some (JNumber n)) =
     (case re_integral env n of None \<Rightarrow> None | Some t \<Rightarrow> if safe_time t then Some t else None)"
| "time_of env _ = None"

text \<open>A field that is null or something: \<open>None\<close> when it is neither.\<close>

definition nullable :: "('n json option \<Rightarrow> 'a option) \<Rightarrow> 'n json option \<Rightarrow> 'a option option" where
  "nullable f v = (if v = Some JNull then Some None else map_option Some (f v))"

definition nonempty :: "'a list option \<Rightarrow> 'a list option" where
  "nonempty s = (case s of Some (x # xs) \<Rightarrow> Some (x # xs) | _ \<Rightarrow> None)"

definition matching :: "('a \<Rightarrow> bool) \<Rightarrow> 'a option \<Rightarrow> 'a option" where
  "matching P x = (case x of Some a \<Rightarrow> if P a then Some a else None | None \<Rightarrow> None)"

definition all_some :: "'a option list \<Rightarrow> 'a list option" where
  "all_some xs = (if None \<in> set xs then None else Some (map the xs))"

fun array_of :: "('n json \<Rightarrow> 'a option) \<Rightarrow> 'n json option \<Rightarrow> 'a list option" where
  "array_of f (Some (JArray vs)) = all_some (map f vs)"
| "array_of f _ = None"

text \<open>The type guards, with the record that the cast gives.\<close>

fun isMainRefRecord :: "'n ref_env \<Rightarrow> 'n json \<Rightarrow> main_ref option" where
  "isMainRefRecord env (JObject fs) =
     (if hasExactKeys fs (map ascii [''repoPath'', ''contentRoot'', ''updatedAt'']) then
        (case (string_of (map_of fs (ascii ''repoPath'')), string_of (map_of fs (ascii ''contentRoot'')),
            time_of env (map_of fs (ascii ''updatedAt''))) of
           (Some p, Some c, Some t) \<Rightarrow> Some \<lparr>mr_repoPath = p, mr_contentRoot = c, mr_updatedAt = t\<rparr>
         | _ \<Rightarrow> None)
      else None)"
| "isMainRefRecord env _ = None"

fun isUpdateEntry :: "'n json \<Rightarrow> update_entry option" where
  "isUpdateEntry (JObject fs) =
     (if hasExactKeys fs (map ascii [''repoPath'', ''expectedOld'', ''next'']) then
        (case (string_of (map_of fs (ascii ''repoPath'')), nullable string_of (map_of fs (ascii ''expectedOld'')),
            nullable string_of (map_of fs (ascii ''next''))) of
           (Some p, Some a, Some b) \<Rightarrow> Some \<lparr>ue_repoPath = p, ue_expectedOld = a, ue_next = b\<rparr>
         | _ \<Rightarrow> None)
      else None)"
| "isUpdateEntry _ = None"

definition applied_keys :: "ustring list" where
  "applied_keys = map ascii [''publicationId'', ''previousEventId'', ''publishedEventId'', ''hostRefsBasisDigest'',
     ''resultHostRefsBasisDigest'', ''entries'', ''appliedAt'', ''observersAppliedAt'', ''semanticAcknowledgedAt'']"

fun isAppliedPublication :: "'n ref_env \<Rightarrow> 'n json \<Rightarrow> applied option" where
  "isAppliedPublication env (JObject fs) =
     (if hasExactKeys fs applied_keys then
        (case (nonempty (string_of (map_of fs (ascii ''publicationId''))),
            nonempty (string_of (map_of fs (ascii ''previousEventId''))),
            nonempty (string_of (map_of fs (ascii ''publishedEventId''))),
            matching basis_digest (string_of (map_of fs (ascii ''hostRefsBasisDigest''))),
            matching basis_digest (string_of (map_of fs (ascii ''resultHostRefsBasisDigest''))),
            array_of isUpdateEntry (map_of fs (ascii ''entries'')),
            time_of env (map_of fs (ascii ''appliedAt'')),
            nullable (time_of env) (map_of fs (ascii ''observersAppliedAt'')),
            nullable (time_of env) (map_of fs (ascii ''semanticAcknowledgedAt''))) of
           (Some i, Some p, Some q, Some b, Some r, Some es, Some t, Some ob, Some ack) \<Rightarrow>
             Some \<lparr>ap_publicationId = i, ap_previousEventId = p, ap_publishedEventId = q, ap_basis = b,
               ap_resultBasis = r, ap_entries = es, ap_appliedAt = t, ap_observersAppliedAt = ob, ap_acknowledgedAt = ack\<rparr>
         | _ \<Rightarrow> None)
      else None)"
| "isAppliedPublication env _ = None"

record stored_refs =
  sr_head :: "ustring option"
  sr_event :: "ustring option"
  sr_mains :: "main_ref list"
  sr_publications :: "applied list"

definition STORE_VERSION :: int where "STORE_VERSION = 6"

datatype store_error =
    NoVersion
  | WrongVersion
  | ViolatesSchema
  | StoredValue ref_error
  | DuplicateMain
  | DuplicateInPublication ustring
  | DuplicatePublication
  | UnknownHead
  | HeadDisagreement
  | RefsWithoutHead
  | EventDisagreement
  | BasisDisagreement

definition store_keys :: "ustring list" where
  "store_keys = map ascii [''version'', ''headPublicationId'', ''mainEventId'', ''mains'', ''appliedPublications'']"

definition version_is :: "'n ref_env \<Rightarrow> 'n json option \<Rightarrow> bool" where
  "version_is env v = (case v of Some (JNumber n) \<Rightarrow> re_integral env n = Some STORE_VERSION | _ \<Rightarrow> False)"

fun stored_fields :: "'n ref_env \<Rightarrow> 'n json \<Rightarrow> stored_refs option" where
  "stored_fields env (JObject fs) =
     (if hasExactKeys fs store_keys \<and> version_is env (map_of fs (ascii ''version'')) then
        (case (nullable string_of (map_of fs (ascii ''headPublicationId'')), nullable string_of (map_of fs (ascii ''mainEventId'')),
            array_of (isMainRefRecord env) (map_of fs (ascii ''mains'')),
            array_of (isAppliedPublication env) (map_of fs (ascii ''appliedPublications''))) of
           (Some h, Some e, Some ms, Some ps) \<Rightarrow>
             Some \<lparr>sr_head = h, sr_event = e, sr_mains = ms, sr_publications = ps\<rparr>
         | _ \<Rightarrow> None)
      else None)"
| "stored_fields env _ = None"

text \<open>The first error of a loop of checks.\<close>

fun check_each :: "('a \<Rightarrow> 'e + unit) \<Rightarrow> 'a list \<Rightarrow> 'e + unit" where
  "check_each f [] = Inr ()"
| "check_each f (x # xs) = (case f x of Inl e \<Rightarrow> Inl e | Inr _ \<Rightarrow> check_each f xs)"

definition check_main :: "main_ref \<Rightarrow> ref_error + unit" where
  "check_main m =
     (case validateRepoPath (mr_repoPath m) of
        Inl e \<Rightarrow> Inl e
      | Inr _ \<Rightarrow> validateValue (ascii ''contentRoot'') (mr_contentRoot m))"

definition check_publication :: "applied \<Rightarrow> store_error + unit" where
  "check_publication p =
     (case check_each validateEntry (ap_entries p) of
        Inl e \<Rightarrow> Inl (StoredValue e)
      | Inr _ \<Rightarrow>
          if \<not> distinct (map ue_repoPath (ap_entries p)) then Inl (DuplicateInPublication (ap_publicationId p))
          else Inr ())"

definition check_head :: "stored_refs \<Rightarrow> store_error + unit" where
  "check_head s =
     (case sr_head s of
        None \<Rightarrow> Inr ()
      | Some h \<Rightarrow>
          (case find (\<lambda>p. ap_publicationId p = h) (sr_publications s) of
             None \<Rightarrow> Inl UnknownHead
           | Some p \<Rightarrow>
               if Some (ap_publishedEventId p) \<noteq> sr_event s then Inl EventDisagreement
               else if ap_resultBasis p \<noteq> hostRefBasisDigest (map ref_pair (sr_mains s)) then Inl BasisDisagreement
               else Inr ()))"

definition check_stored :: "stored_refs \<Rightarrow> store_error + unit" where
  "check_stored s =
     (case check_each check_main (sr_mains s) of
        Inl e \<Rightarrow> Inl (StoredValue e)
      | Inr _ \<Rightarrow>
      if \<not> distinct (map mr_repoPath (sr_mains s)) then Inl DuplicateMain
      else (case check_each check_publication (sr_publications s) of
        Inl e \<Rightarrow> Inl e
      | Inr _ \<Rightarrow>
      if \<not> distinct (map ap_publicationId (sr_publications s)) then Inl DuplicatePublication
      else if (case sr_head s of None \<Rightarrow> False | Some h \<Rightarrow> \<not> list_ex (\<lambda>p. ap_publicationId p = h) (sr_publications s))
      then Inl UnknownHead
      else if (sr_head s = None) \<noteq> (sr_event s = None) then Inl HeadDisagreement
      else if sr_head s = None \<and> sr_mains s \<noteq> [] then Inl RefsWithoutHead
      else check_head s))"

definition decodeStoredRefStore :: "'n ref_env \<Rightarrow> 'n json \<Rightarrow> store_error + stored_refs" where
  "decodeStoredRefStore env v =
     (case stored_fields env v of
        None \<Rightarrow> Inl ViolatesSchema
      | Some s \<Rightarrow> (case check_stored s of Inl e \<Rightarrow> Inl e | Inr _ \<Rightarrow> Inr s))"

text \<open>\<open>loadVersionedJsonFile\<close>, on what \<open>JSON.parse\<close> gives.\<close>

definition loadVersionedJsonFile :: "'n ref_env \<Rightarrow> 'n json \<Rightarrow> store_error + stored_refs" where
  "loadVersionedJsonFile env v =
     (case v of
        JObject fs \<Rightarrow>
          if ascii ''version'' \<notin> set (map fst fs) then Inl NoVersion
          else if \<not> version_is env (map_of fs (ascii ''version'')) then Inl WrongVersion
          else decodeStoredRefStore env v
      | _ \<Rightarrow> Inl NoVersion)"

end
