(* ===== verification/RefStoreOps.thy ===== *)
theory RefStoreOps
  imports RefStore
begin

text \<open>
  The state of the store of protected references and its operations
  (\<^verbatim>\<open>src/server/services/protectedRefStore.ts\<close>), each as one function from a state to a result
  and a state, up to the next await. The file holds what \<open>JSON.parse\<close> gives back for what was written;
  a write either takes effect or throws and leaves the file (\<^verbatim>\<open>src/server/hostCore/atomicFile.ts\<close>
  renames a complete copy).
\<close>

record 'n ref_store =
  rs_mains :: "(ustring, main_ref) jsmap"
  rs_publications :: "(ustring, applied) jsmap"
  rs_head :: "ustring option"
  rs_event :: "ustring option"
  rs_file :: "'n json option"

subsection \<open>Writing\<close>

definition option_json :: "('a \<Rightarrow> 'n json) \<Rightarrow> 'a option \<Rightarrow> 'n json" where
  "option_json f v = (case v of None \<Rightarrow> JNull | Some a \<Rightarrow> f a)"

definition time_json :: "'n ref_env \<Rightarrow> int \<Rightarrow> 'n json" where
  "time_json env t = JNumber (je_int (re_json env) t)"

definition main_json :: "'n ref_env \<Rightarrow> main_ref \<Rightarrow> 'n json" where
  "main_json env m = JObject [(ascii ''repoPath'', JString (mr_repoPath m)),
     (ascii ''contentRoot'', JString (mr_contentRoot m)), (ascii ''updatedAt'', time_json env (mr_updatedAt m))]"

definition update_entry_json :: "update_entry \<Rightarrow> 'n json" where
  "update_entry_json e = JObject [(ascii ''repoPath'', JString (ue_repoPath e)),
     (ascii ''expectedOld'', option_json JString (ue_expectedOld e)), (ascii ''next'', option_json JString (ue_next e))]"

definition applied_json :: "'n ref_env \<Rightarrow> applied \<Rightarrow> 'n json" where
  "applied_json env p = JObject
     [(ascii ''publicationId'', JString (ap_publicationId p)),
      (ascii ''previousEventId'', JString (ap_previousEventId p)),
      (ascii ''publishedEventId'', JString (ap_publishedEventId p)),
      (ascii ''hostRefsBasisDigest'', JString (ap_basis p)),
      (ascii ''resultHostRefsBasisDigest'', JString (ap_resultBasis p)),
      (ascii ''entries'', JArray (map update_entry_json (ap_entries p))),
      (ascii ''appliedAt'', time_json env (ap_appliedAt p)),
      (ascii ''observersAppliedAt'', option_json (time_json env) (ap_observersAppliedAt p)),
      (ascii ''semanticAcknowledgedAt'', option_json (time_json env) (ap_acknowledgedAt p))]"

text \<open>\<open>encodeStoredRefStore\<close> under the version that \<open>saveVersionedJsonFile\<close> puts first.\<close>

definition encodeStoredRefStore :: "'n ref_env \<Rightarrow> stored_refs \<Rightarrow> 'n json" where
  "encodeStoredRefStore env s = JObject
     [(ascii ''version'', JNumber (je_int (re_json env) STORE_VERSION)),
      (ascii ''headPublicationId'', option_json JString (sr_head s)),
      (ascii ''mainEventId'', option_json JString (sr_event s)),
      (ascii ''mains'', JArray (map (main_json env) (sr_mains s))),
      (ascii ''appliedPublications'', JArray (map (applied_json env) (sr_publications s)))]"

definition stored_of :: "(ustring, main_ref) jsmap \<Rightarrow> (ustring, applied) jsmap \<Rightarrow> ustring option \<Rightarrow> ustring option \<Rightarrow> stored_refs" where
  "stored_of mains publications head event =
     \<lparr>sr_head = head, sr_event = event, sr_mains = sort_utf16 mr_repoPath (jvalues mains),
      sr_publications = sort_utf16 ap_publicationId (jvalues publications)\<rparr>"

definition persist :: "'n ref_env \<Rightarrow> (ustring, main_ref) jsmap \<Rightarrow> (ustring, applied) jsmap \<Rightarrow> ustring option \<Rightarrow> ustring option \<Rightarrow>
    'n ref_store \<Rightarrow> 'n ref_store" where
  "persist env mains publications head event st =
     st\<lparr>rs_file := Some (reparse (re_json env) (encodeStoredRefStore env (stored_of mains publications head event)))\<rparr>"

text \<open>\<open>createProtectedRefStore\<close>: a missing file is the empty store.\<close>

definition createProtectedRefStore :: "'n ref_env \<Rightarrow> 'n json option \<Rightarrow> store_error + 'n ref_store" where
  "createProtectedRefStore env file =
     (case (case file of None \<Rightarrow> Inr \<lparr>sr_head = None, sr_event = None, sr_mains = [], sr_publications = []\<rparr>
            | Some v \<Rightarrow> loadVersionedJsonFile env v) of
        Inl e \<Rightarrow> Inl e
      | Inr s \<Rightarrow> Inr \<lparr>rs_mains = jset_all (map (\<lambda>m. (mr_repoPath m, m)) (sr_mains s)) [],
          rs_publications = jset_all (map (\<lambda>p. (ap_publicationId p, p)) (sr_publications s)) [],
          rs_head = sr_head s, rs_event = sr_event s, rs_file = file\<rparr>)"

subsection \<open>Reading\<close>

definition readMainSemanticState :: "'n ref_store \<Rightarrow> ustring option" where
  "readMainSemanticState st = nonempty (rs_event st)"

definition readMain :: "'n ref_store \<Rightarrow> ustring \<Rightarrow> ref_error + main_ref option" where
  "readMain st repoPath =
     (case validateRepoPath repoPath of Inl e \<Rightarrow> Inl e | Inr _ \<Rightarrow> Inr (map_of (rs_mains st) repoPath))"

definition listMains :: "'n ref_store \<Rightarrow> main_ref list" where
  "listMains st = sort_utf16 mr_repoPath (jvalues (rs_mains st))"

definition readHeadPublication :: "'n ref_store \<Rightarrow> ref_error + applied option" where
  "readHeadPublication st =
     (case nonempty (rs_head st) of
        None \<Rightarrow> Inr None
      | Some h \<Rightarrow> (case map_of (rs_publications st) h of None \<Rightarrow> Inl HeadEvidenceMissing | Some p \<Rightarrow> Inr (Some p)))"

definition readAppliedPublication :: "'n ref_store \<Rightarrow> ustring \<Rightarrow> applied option" where
  "readAppliedPublication st publicationId = map_of (rs_publications st) publicationId"

subsection \<open>Acknowledgement\<close>

text \<open>The loop that drops acknowledged evidence other than the head's.\<close>

definition compact :: "ustring option \<Rightarrow> (ustring, applied) jsmap \<Rightarrow> (ustring, applied) jsmap" where
  "compact head ps = filter (\<lambda>(i, p). Some i = head \<or> ap_acknowledgedAt p = None) ps"

text \<open>Whether the file can be written is an argument.\<close>

definition acknowledgePublication :: "'n ref_env \<Rightarrow> ustring \<Rightarrow> int \<Rightarrow> bool \<Rightarrow> 'n ref_store \<Rightarrow>
    (ref_error + unit) \<times> 'n ref_store" where
  "acknowledgePublication env publicationId now writes st =
     (case map_of (rs_publications st) publicationId of
        None \<Rightarrow> (Inr (), st)
      | Some p \<Rightarrow>
          if ap_observersAppliedAt p = None then (Inl (ObserversPending publicationId), st)
          else if \<not> writes then (Inl WriteFailed, st)
          else
            (let nextPublications = compact (rs_head st)
                   (jset publicationId (p\<lparr>ap_acknowledgedAt := Some now\<rparr>) (rs_publications st)) in
             (Inr (), (persist env (rs_mains st) nextPublications (rs_head st) (rs_event st) st)
                \<lparr>rs_publications := nextPublications\<rparr>)))"

subsection \<open>Updates\<close>

definition publicationFromEvidence :: "applied \<Rightarrow> publication" where
  "publicationFromEvidence p = \<lparr>pb_publicationId = ap_publicationId p, pb_previousEventId = ap_previousEventId p,
     pb_publishedEventId = ap_publishedEventId p, pb_resultBasis = ap_resultBasis p, pb_appliedAt = ap_appliedAt p,
     pb_changes = map (\<lambda>e. \<lparr>rc_repoPath = ue_repoPath e, rc_previous = ue_expectedOld e, rc_next = ue_next e\<rparr>) (ap_entries p)\<rparr>"

text \<open>The part before the serializer: the batch in the order of its repositories, or an error.\<close>

fun check_entries :: "update_entry list \<Rightarrow> ustring list \<Rightarrow> ref_error + unit" where
  "check_entries [] seen = Inr ()"
| "check_entries (e # es) seen =
     (case validateEntry e of
        Inl x \<Rightarrow> Inl x
      | Inr _ \<Rightarrow>
          if ue_repoPath e \<in> set seen then Inl (DuplicateRepository (ue_repoPath e))
          else check_entries es (set_add (ue_repoPath e) seen))"

definition submit_check :: "update_input \<Rightarrow> ref_error + update_entry list" where
  "submit_check inp =
     (let ev = ui_evidence inp in
      if ei_publicationId ev = [] \<or> ei_previousEventId ev = [] \<or> ei_publishedEventId ev = [] \<or> ei_basis ev = []
      then Inl EvidenceRequired
      else case check_entries (ui_entries inp) [] of
        Inl e \<Rightarrow> Inl e
      | Inr _ \<Rightarrow> Inr (sort_utf16 ue_repoPath (ui_entries inp)))"

definition actual_basis :: "'n ref_store \<Rightarrow> ustring" where
  "actual_basis st = hostRefBasisDigest (map ref_pair (jvalues (rs_mains st)))"

definition same_entries :: "update_entry list \<Rightarrow> update_entry list \<Rightarrow> bool" where
  "same_entries a b \<longleftrightarrow>
     canonicalJson decimal (JArray (map update_entry_json a)) = canonicalJson decimal (JArray (map update_entry_json b))"

definition updated_of :: "update_entry list \<Rightarrow> (ustring \<times> ustring option) list" where
  "updated_of es = map (\<lambda>e. (ue_repoPath e, ue_next e)) es"

definition actual_root :: "'n ref_store \<Rightarrow> ustring \<Rightarrow> ustring option" where
  "actual_root st repoPath = map_option mr_contentRoot (map_of (rs_mains st) repoPath)"

definition conflicts_of :: "'n ref_store \<Rightarrow> update_entry list \<Rightarrow> ref_conflict list" where
  "conflicts_of st es =
     map (\<lambda>e. \<lparr>cf_repoPath = ue_repoPath e, cf_expectedOld = ue_expectedOld e, cf_actual = actual_root st (ue_repoPath e)\<rparr>)
       (filter (\<lambda>e. actual_root st (ue_repoPath e) \<noteq> ue_expectedOld e) es)"

text \<open>The task up to its first await: a replay with its result, or a new publication to be gated.\<close>

datatype checked = Replay update_result "publication option" | Proceed

definition replay_of :: "applied \<Rightarrow> checked" where
  "replay_of p = Replay \<lparr>ur_updated = updated_of (ap_entries p), ur_replayed = True\<rparr>
     (if ap_observersAppliedAt p = None then Some (publicationFromEvidence p) else None)"

definition start_update :: "'n ref_store \<Rightarrow> evidence_input \<Rightarrow> update_entry list \<Rightarrow> ref_error + checked" where
  "start_update st ev es =
     (case map_of (rs_publications st) (ei_publicationId ev) of
        Some p \<Rightarrow>
          if ap_previousEventId p \<noteq> ei_previousEventId ev \<or> ap_publishedEventId p \<noteq> ei_publishedEventId ev \<or>
             ap_basis p \<noteq> ei_basis ev \<or> \<not> same_entries (ap_entries p) es
          then Inl (PublicationReused (ei_publicationId ev))
          else if actual_basis st \<noteq> ap_resultBasis p
          then Inl (BasisConflict (ap_resultBasis p) (actual_basis st) (rs_head st))
          else Inr (replay_of p)
      | None \<Rightarrow>
          if (case rs_event st of Some e \<Rightarrow> e \<noteq> ei_previousEventId ev | None \<Rightarrow> rs_mains st \<noteq> [])
          then Inl (EventConflict (ei_previousEventId ev) (rs_event st) (rs_head st))
          else if actual_basis st \<noteq> ei_basis ev
          then Inl (BasisConflict (ei_basis ev) (actual_basis st) (rs_head st))
          else if conflicts_of st es \<noteq> [] then Inl (BatchConflict (conflicts_of st es))
          else Inr Proceed)"

text \<open>What the gate prepared is written and published in one step.\<close>

definition apply_entries :: "int \<Rightarrow> update_entry list \<Rightarrow> (ustring, main_ref) jsmap \<Rightarrow> (ustring, main_ref) jsmap" where
  "apply_entries appliedAt es mains = foldl (\<lambda>m e. case ue_next e of
       None \<Rightarrow> jdel (ue_repoPath e) m
     | Some c \<Rightarrow> jset (ue_repoPath e) \<lparr>mr_repoPath = ue_repoPath e, mr_contentRoot = c, mr_updatedAt = appliedAt\<rparr> m) mains es"

definition evidence_of :: "'n ref_store \<Rightarrow> evidence_input \<Rightarrow> update_entry list \<Rightarrow> int \<Rightarrow> applied" where
  "evidence_of st ev es appliedAt = \<lparr>ap_publicationId = ei_publicationId ev, ap_previousEventId = ei_previousEventId ev,
     ap_publishedEventId = ei_publishedEventId ev, ap_basis = ei_basis ev,
     ap_resultBasis = hostRefBasisDigest (map ref_pair (jvalues (apply_entries appliedAt es (rs_mains st)))),
     ap_entries = es, ap_appliedAt = appliedAt, ap_observersAppliedAt = None, ap_acknowledgedAt = None\<rparr>"

definition commit_update :: "'n ref_env \<Rightarrow> evidence_input \<Rightarrow> update_entry list \<Rightarrow> int \<Rightarrow> 'n ref_store \<Rightarrow> applied \<times> 'n ref_store" where
  "commit_update env ev es appliedAt st =
     (let nextMains = apply_entries appliedAt es (rs_mains st);
          evidence = evidence_of st ev es appliedAt;
          head = Some (ei_publicationId ev);
          nextPublications = compact head (jset (ei_publicationId ev) evidence (rs_publications st)) in
      (evidence, (persist env nextMains nextPublications head (Some (ei_publishedEventId ev)) st)
         \<lparr>rs_mains := nextMains, rs_publications := nextPublications, rs_head := head, rs_event := Some (ei_publishedEventId ev)\<rparr>))"

text \<open>The second task, after every listener returned.\<close>

definition mark_observed :: "'n ref_env \<Rightarrow> ustring \<Rightarrow> int \<Rightarrow> bool \<Rightarrow> 'n ref_store \<Rightarrow> (ref_error + unit) \<times> 'n ref_store" where
  "mark_observed env publicationId now writes st =
     (case map_of (rs_publications st) publicationId of
        None \<Rightarrow> (Inr (), st)
      | Some p \<Rightarrow>
          if ap_observersAppliedAt p \<noteq> None then (Inr (), st)
          else if \<not> writes then (Inl WriteFailed, st)
          else
            (let observed = p\<lparr>ap_observersAppliedAt := Some now\<rparr>;
                 nextPublications = jset (ap_publicationId p) observed (rs_publications st) in
             (Inr (), (persist env (rs_mains st) nextPublications (rs_head st) (rs_event st) st)
                \<lparr>rs_publications := nextPublications\<rparr>)))"

end
