(* ===== verification/RefStoreLaws.thy ===== *)
theory RefStoreLaws
  imports RefStoreOps
begin

text \<open>
  What a loaded store of protected references satisfies, that the written file is read back as it
  was, and that every operation keeps both.
\<close>

subsection \<open>Well-formed records\<close>

definition main_ok :: "main_ref \<Rightarrow> bool" where
  "main_ok m \<longleftrightarrow> check_main m = Inr () \<and> safe_time (mr_updatedAt m)"

definition time_option_ok :: "int option \<Rightarrow> bool" where
  "time_option_ok t \<longleftrightarrow> (case t of None \<Rightarrow> True | Some n \<Rightarrow> safe_time n)"

definition entries_ok :: "update_entry list \<Rightarrow> bool" where
  "entries_ok es \<longleftrightarrow> (\<forall>e \<in> set es. validateEntry e = Inr ()) \<and> distinct (map ue_repoPath es)"

definition applied_ok :: "applied \<Rightarrow> bool" where
  "applied_ok p \<longleftrightarrow> ap_publicationId p \<noteq> [] \<and> ap_previousEventId p \<noteq> [] \<and> ap_publishedEventId p \<noteq> [] \<and>
     basis_digest (ap_basis p) \<and> basis_digest (ap_resultBasis p) \<and> entries_ok (ap_entries p) \<and>
     safe_time (ap_appliedAt p) \<and> time_option_ok (ap_observersAppliedAt p) \<and> time_option_ok (ap_acknowledgedAt p)"

definition head_ok :: "ustring option \<Rightarrow> ustring option \<Rightarrow> main_ref set \<Rightarrow> main_ref list \<Rightarrow> applied set \<Rightarrow> bool" where
  "head_ok head event M ms P \<longleftrightarrow>
     (case head of
        None \<Rightarrow> event = None \<and> M = {}
      | Some h \<Rightarrow> \<exists>p \<in> P. ap_publicationId p = h \<and> event = Some (ap_publishedEventId p) \<and>
          ap_resultBasis p = hostRefBasisDigest (map ref_pair ms))"

definition stored_ok :: "stored_refs \<Rightarrow> bool" where
  "stored_ok s \<longleftrightarrow> (\<forall>m \<in> set (sr_mains s). main_ok m) \<and> distinct (map mr_repoPath (sr_mains s)) \<and>
     (\<forall>p \<in> set (sr_publications s). applied_ok p) \<and> distinct (map ap_publicationId (sr_publications s)) \<and>
     head_ok (sr_head s) (sr_event s) (set (sr_mains s)) (sr_mains s) (set (sr_publications s))"

lemma check_each_Inr: "check_each f xs = Inr () \<longleftrightarrow> (\<forall>x \<in> set xs. f x = Inr ())"
  by (induction xs) (auto split: sum.splits)

lemma check_publication_Inr: "check_publication p = Inr () \<longleftrightarrow> entries_ok (ap_entries p)"
  by (auto simp: check_publication_def entries_ok_def check_each_Inr [symmetric] split: sum.splits)

lemma find_unique:
  "distinct (map f xs) \<Longrightarrow> find (\<lambda>x. f x = k) xs = Some x \<longleftrightarrow> x \<in> set xs \<and> f x = k"
  by (induction xs) auto

lemma check_head_Inr:
  assumes "distinct (map ap_publicationId (sr_publications s))"
  shows "check_head s = Inr () \<and> (sr_head s = None) = (sr_event s = None) \<and> (sr_head s = None \<longrightarrow> sr_mains s = []) \<longleftrightarrow>
    head_ok (sr_head s) (sr_event s) (set (sr_mains s)) (sr_mains s) (set (sr_publications s))"
proof (cases "sr_head s")
  case None
  then show ?thesis by (auto simp: check_head_def head_ok_def)
next
  case (Some h)
  show ?thesis
  proof (cases "find (\<lambda>p. ap_publicationId p = h) (sr_publications s)")
    case None
    then show ?thesis using Some find_NoneD [THEN iffD1, OF None] by (auto simp: check_head_def head_ok_def)
  next
    case found: (Some a)
    have uniq: "p \<in> set (sr_publications s) \<and> ap_publicationId p = h \<longleftrightarrow> p = a" for p
      using find_unique [OF assms, of h p] found by auto
    have "head_ok (sr_head s) (sr_event s) (set (sr_mains s)) (sr_mains s) (set (sr_publications s)) \<longleftrightarrow>
        (\<exists>p. (p \<in> set (sr_publications s) \<and> ap_publicationId p = h) \<and> sr_event s = Some (ap_publishedEventId p) \<and>
           ap_resultBasis p = hostRefBasisDigest (map ref_pair (sr_mains s)))"
      by (auto simp: head_ok_def Some)
    also have "\<dots> \<longleftrightarrow> sr_event s = Some (ap_publishedEventId a) \<and>
        ap_resultBasis a = hostRefBasisDigest (map ref_pair (sr_mains s))"
      unfolding uniq by simp
    finally have "head_ok (sr_head s) (sr_event s) (set (sr_mains s)) (sr_mains s) (set (sr_publications s)) \<longleftrightarrow>
        sr_event s = Some (ap_publishedEventId a) \<and> ap_resultBasis a = hostRefBasisDigest (map ref_pair (sr_mains s))" .
    then show ?thesis using Some found by (auto simp: check_head_def)
  qed
qed

lemma check_stored_Inr:
  "check_stored s = Inr () \<longleftrightarrow>
     (\<forall>m \<in> set (sr_mains s). check_main m = Inr ()) \<and> distinct (map mr_repoPath (sr_mains s)) \<and>
     (\<forall>p \<in> set (sr_publications s). entries_ok (ap_entries p)) \<and> distinct (map ap_publicationId (sr_publications s)) \<and>
     head_ok (sr_head s) (sr_event s) (set (sr_mains s)) (sr_mains s) (set (sr_publications s))"
proof -
  have known: "check_head s = Inr () \<Longrightarrow>
      \<not> (case sr_head s of None \<Rightarrow> False | Some h \<Rightarrow> \<not> list_ex (\<lambda>p. ap_publicationId p = h) (sr_publications s))"
    by (auto simp: check_head_def list_ex_iff split: option.splits dest!: find_SomeD)
  have "check_stored s = Inr () \<longleftrightarrow> check_each check_main (sr_mains s) = Inr () \<and> distinct (map mr_repoPath (sr_mains s)) \<and>
      check_each check_publication (sr_publications s) = Inr () \<and> distinct (map ap_publicationId (sr_publications s)) \<and>
      check_head s = Inr () \<and> (sr_head s = None) = (sr_event s = None) \<and> (sr_head s = None \<longrightarrow> sr_mains s = [])"
    using known by (auto simp: check_stored_def split: sum.splits if_splits)
  then show ?thesis using check_head_Inr [of s] by (auto simp: check_each_Inr check_publication_Inr)
qed

subsection \<open>The file\<close>

text \<open>Safe integers are numbers that read as themselves and have a text.\<close>

definition ref_env_laws :: "'n ref_env \<Rightarrow> bool" where
  "ref_env_laws env \<longleftrightarrow> (\<forall>n. safe_time n \<longrightarrow> re_integral env (je_int (re_json env) n) = Some n \<and>
     je_text (re_json env) (je_int (re_json env) n) \<noteq> None)"

lemma own_order_id: "(\<And>f. f \<in> set fs \<Longrightarrow> \<not> array_index (fst f)) \<Longrightarrow> own_order fs = fs"
  unfolding own_order_def by (subst filter_False, blast, subst filter_True, blast) simp

lemma reparse_object:
  assumes "\<And>f. f \<in> set fs \<Longrightarrow> \<not> array_index (fst f) \<and> snd f \<noteq> JUndefined \<and> reparse env (snd f) = snd f"
  shows "reparse env (JObject fs) = JObject fs"
proof -
  have "map (map_prod (\<lambda>k. k) (reparse env)) fs = fs" using assms by (intro map_idI) (auto simp: map_prod_def split: prod.splits)
  moreover have "filter (\<lambda>f. snd f \<noteq> JUndefined) fs = fs" using assms by simp
  ultimately show ?thesis using assms by (simp add: own_order_id)
qed

lemma defined_id [simp]: "v \<noteq> JUndefined \<Longrightarrow> defined_or_null v = v"
  by (simp add: defined_or_null_def)

lemma reparse_array: "(\<And>v. v \<in> set vs \<Longrightarrow> v \<noteq> JUndefined \<and> reparse env v = v) \<Longrightarrow> reparse env (JArray vs) = JArray vs"
  by (simp add: comp_def, intro map_idI) simp

lemma reparse_time:
  "ref_env_laws env \<Longrightarrow> safe_time t \<Longrightarrow> reparse (re_json env) (time_json env t) = time_json env t"
  by (simp add: time_json_def ref_env_laws_def)

lemma reparse_option:
  "(\<And>a. v = Some a \<Longrightarrow> reparse env (f a) = f a) \<Longrightarrow> reparse env (option_json f v) = option_json f v"
  by (simp add: option_json_def split: option.splits)

lemma json_defined [simp]:
  "time_json env t \<noteq> JUndefined" "(\<And>a. f a \<noteq> JUndefined) \<Longrightarrow> option_json f v \<noteq> JUndefined"
  "main_json env m \<noteq> JUndefined" "update_entry_json e \<noteq> JUndefined" "applied_json env p \<noteq> JUndefined"
  by (simp_all add: time_json_def option_json_def main_json_def update_entry_json_def applied_json_def split: option.splits)

lemma letter_key [simp]: "57 < u \<Longrightarrow> \<not> array_index (u # s)"
  by (auto simp: array_index_def)

lemma reparse_main:
  "ref_env_laws env \<Longrightarrow> main_ok m \<Longrightarrow> reparse (re_json env) (main_json env m) = main_json env m"
  unfolding main_json_def by (rule reparse_object) (auto simp: main_ok_def reparse_time)

lemma reparse_entry: "reparse env (update_entry_json e) = update_entry_json e"
  unfolding update_entry_json_def by (rule reparse_object) (auto simp: reparse_option)

lemma reparse_applied:
  "ref_env_laws env \<Longrightarrow> applied_ok p \<Longrightarrow> reparse (re_json env) (applied_json env p) = applied_json env p"
  unfolding applied_json_def
  by (rule reparse_object)
    (auto simp: applied_ok_def time_option_ok_def reparse_time reparse_entry intro!: reparse_option reparse_array)

lemma reparse_stored:
  assumes "ref_env_laws env" and "stored_ok s"
  shows "reparse (re_json env) (encodeStoredRefStore env s) = encodeStoredRefStore env s"
proof -
  have "safe_time STORE_VERSION" by (simp add: safe_time_def STORE_VERSION_def MAX_SAFE_def)
  then have "je_text (re_json env) (je_int (re_json env) STORE_VERSION) \<noteq> None"
    using assms(1) by (simp add: ref_env_laws_def)
  then show ?thesis
    using assms unfolding encodeStoredRefStore_def stored_ok_def
    by (intro reparse_object) (auto simp: reparse_main reparse_applied intro!: reparse_option reparse_array)
qed

lemma time_of_json [simp]: "ref_env_laws env \<Longrightarrow> safe_time t \<Longrightarrow> time_of env (Some (time_json env t)) = Some t"
  by (simp add: time_json_def ref_env_laws_def)

lemma nullable_string [simp]: "nullable string_of (Some (option_json JString v)) = Some v"
  by (simp add: nullable_def option_json_def split: option.splits)

lemma nullable_time [simp]:
  "ref_env_laws env \<Longrightarrow> time_option_ok t \<Longrightarrow> nullable (time_of env) (Some (option_json (time_json env) t)) = Some t"
proof (cases t)
  case (Some n)
  moreover have "time_json env n \<noteq> JNull" by (simp add: time_json_def)
  ultimately show "ref_env_laws env \<Longrightarrow> time_option_ok t \<Longrightarrow> ?thesis"
    by (simp add: nullable_def option_json_def time_option_ok_def)
qed (simp add: nullable_def option_json_def)

lemma nonempty_Some [simp]: "nonempty (Some s) = (if s = [] then None else Some s)"
  by (cases s) (simp_all add: nonempty_def)

lemma matching_Some [simp]: "matching P (Some a) = (if P a then Some a else None)"
  by (simp add: matching_def)

lemma all_some_map: "(\<And>x. x \<in> set xs \<Longrightarrow> g (f x) = Some x) \<Longrightarrow> all_some (map g (map f xs)) = Some xs"
  by (auto simp: all_some_def comp_def image_iff intro!: map_idI)

lemma array_of_json [simp]:
  "(\<And>x. x \<in> set xs \<Longrightarrow> g (f x) = Some x) \<Longrightarrow> array_of g (Some (JArray (map f xs))) = Some xs"
  using all_some_map [of xs g f] by simp

lemma isMainRefRecord_json: "ref_env_laws env \<Longrightarrow> main_ok m \<Longrightarrow> isMainRefRecord env (main_json env m) = Some m"
  by (simp add: main_json_def hasExactKeys_def main_ok_def)

lemma isUpdateEntry_json [simp]: "isUpdateEntry (update_entry_json e) = Some e"
  by (simp add: update_entry_json_def hasExactKeys_def)

lemma isAppliedPublication_json:
  "ref_env_laws env \<Longrightarrow> applied_ok p \<Longrightarrow> isAppliedPublication env (applied_json env p) = Some p"
  by (simp add: applied_json_def hasExactKeys_def applied_keys_def applied_ok_def del: array_of.simps)

lemma stored_fields_json:
  assumes "ref_env_laws env" and "stored_ok s"
  shows "stored_fields env (encodeStoredRefStore env s) = Some s"
proof -
  have "safe_time STORE_VERSION" by (simp add: safe_time_def STORE_VERSION_def MAX_SAFE_def)
  then have "re_integral env (je_int (re_json env) STORE_VERSION) = Some STORE_VERSION"
    using assms(1) by (simp add: ref_env_laws_def)
  moreover have "array_of (isMainRefRecord env) (Some (JArray (map (main_json env) (sr_mains s)))) = Some (sr_mains s)"
    "array_of (isAppliedPublication env) (Some (JArray (map (applied_json env) (sr_publications s)))) = Some (sr_publications s)"
    using assms by (auto simp: stored_ok_def isMainRefRecord_json isAppliedPublication_json simp del: array_of.simps intro!: array_of_json)
  ultimately show ?thesis
    by (simp add: encodeStoredRefStore_def hasExactKeys_def store_keys_def version_is_def del: array_of.simps)
qed

lemma load_stored:
  assumes "ref_env_laws env" and "stored_ok s"
  shows "loadVersionedJsonFile env (reparse (re_json env) (encodeStoredRefStore env s)) = Inr s"
proof -
  have f: "stored_fields env (encodeStoredRefStore env s) = Some s" using assms by (rule stored_fields_json)
  obtain fs where fs: "encodeStoredRefStore env s = JObject fs" "ascii ''version'' \<in> set (map fst fs)"
    by (simp add: encodeStoredRefStore_def)
  moreover have "version_is env (map_of fs (ascii ''version''))"
    using f by (simp add: fs(1) split: if_splits)
  moreover have "check_stored s = Inr ()"
    using assms(2) by (auto simp: check_stored_Inr stored_ok_def main_ok_def applied_ok_def)
  ultimately show ?thesis
    using f unfolding reparse_stored [OF assms]
    by (simp add: loadVersionedJsonFile_def decodeStoredRefStore_def del: stored_fields.simps ascii_simps)
qed

text \<open>Conversely, what is loaded is well formed.\<close>

lemma time_of_Some: "time_of env v = Some t \<Longrightarrow> safe_time t"
  by (cases "(env, v)" rule: time_of.cases) (auto split: option.splits if_splits)

lemma nullable_time_Some: "nullable (time_of env) v = Some t \<Longrightarrow> time_option_ok t"
  by (auto simp: nullable_def time_option_ok_def dest: time_of_Some split: if_splits)

lemma all_some_Some: "all_some xs = Some ys \<longleftrightarrow> xs = map Some ys"
  by (auto simp: all_some_def comp_def split: if_splits intro!: nth_equalityI) (metis nth_mem option.collapse)

lemma array_of_Some: "array_of f v = Some ys \<Longrightarrow> y \<in> set ys \<Longrightarrow> \<exists>w. f w = Some y"
proof (cases "(f, v)" rule: array_of.cases)
  case (1 g vs)
  assume "array_of f v = Some ys" "y \<in> set ys"
  then have "map g vs = map Some ys" using 1 by (simp add: all_some_Some)
  then have "Some y \<in> set (map g vs)" using \<open>y \<in> set ys\<close> by simp
  then show ?thesis using 1 by auto
qed auto

lemma guard_main: "isMainRefRecord env v = Some m \<Longrightarrow> safe_time (mr_updatedAt m)"
  by (cases "(env, v)" rule: isMainRefRecord.cases) (auto split: if_splits option.splits dest: time_of_Some)

lemma nonempty_SomeD: "nonempty s = Some t \<Longrightarrow> t \<noteq> []"
  by (auto simp: nonempty_def split: option.splits list.splits)

lemma matching_SomeD: "matching P x = Some a \<Longrightarrow> P a"
  by (auto simp: matching_def split: option.splits if_splits)

lemma guard_applied:
  "isAppliedPublication env v = Some p \<Longrightarrow> entries_ok (ap_entries p) \<Longrightarrow> applied_ok p"
  by (cases "(env, v)" rule: isAppliedPublication.cases)
    (auto simp: applied_ok_def split: if_splits option.splits
      dest: time_of_Some nullable_time_Some nonempty_SomeD matching_SomeD)

lemma load_ok:
  assumes "loadVersionedJsonFile env v = Inr s"
  shows "stored_ok s"
proof -
  obtain fs where v: "v = JObject fs" using assms by (cases v) (auto simp: loadVersionedJsonFile_def)
  then have f: "stored_fields env v = Some s" and c: "check_stored s = Inr ()"
    using assms by (auto simp: loadVersionedJsonFile_def decodeStoredRefStore_def simp del: stored_fields.simps
        split: if_splits option.splits sum.splits)
  have "array_of (isMainRefRecord env) (map_of fs (ascii ''mains'')) = Some (sr_mains s)"
    "array_of (isAppliedPublication env) (map_of fs (ascii ''appliedPublications'')) = Some (sr_publications s)"
    using f by (auto simp: v split: if_splits option.splits)
  note guards = this
  have "main_ok m" if "m \<in> set (sr_mains s)" for m
    using array_of_Some [OF guards(1) that] guard_main c that by (auto simp: check_stored_Inr main_ok_def)
  moreover have "applied_ok p" if p: "p \<in> set (sr_publications s)" for p
  proof -
    obtain w where "isAppliedPublication env w = Some p" using array_of_Some [OF guards(2) p] by blast
    moreover have "entries_ok (ap_entries p)" using c p by (simp add: check_stored_Inr)
    ultimately show "applied_ok p" by (rule guard_applied)
  qed
  ultimately show ?thesis using c by (simp add: stored_ok_def check_stored_Inr)
qed

subsection \<open>The store\<close>

definition keyed :: "('a \<Rightarrow> ustring) \<Rightarrow> ('a \<Rightarrow> bool) \<Rightarrow> (ustring, 'a) jsmap \<Rightarrow> bool" where
  "keyed key P m \<longleftrightarrow> jwf m \<and> (\<forall>(k, a) \<in> set m. key a = k \<and> P a)"

definition refs_ok :: "'n ref_store \<Rightarrow> bool" where
  "refs_ok st \<longleftrightarrow> keyed mr_repoPath main_ok (rs_mains st) \<and> keyed ap_publicationId applied_ok (rs_publications st) \<and>
     head_ok (rs_head st) (rs_event st) (set (jvalues (rs_mains st))) (jvalues (rs_mains st)) (set (jvalues (rs_publications st)))"

lemma keyed_get: "keyed key P m \<Longrightarrow> map_of m k = Some a \<Longrightarrow> key a = k \<and> P a"
  by (auto simp: keyed_def dest: map_of_SomeD)

lemma keyed_keys: "keyed key P m \<Longrightarrow> map key (jvalues m) = jkeys m"
  by (auto simp: keyed_def)

lemma keyed_distinct: "keyed key P m \<Longrightarrow> distinct (map key (jvalues m))"
  by (simp add: keyed_keys del: map_map) (simp add: keyed_def jwf_def)

lemma keyed_set: "keyed key P m \<Longrightarrow> k = key a \<Longrightarrow> P a \<Longrightarrow> keyed key P (jset k a m)"
  by (auto simp: keyed_def set_jset)

lemma keyed_filter: "keyed key P m \<Longrightarrow> keyed key P (filter Q m)"
  by (auto simp: keyed_def)

lemma keyed_del: "keyed key P m \<Longrightarrow> keyed key P (jdel k m)"
  by (auto simp: keyed_def)

lemma keyed_in: "keyed key P m \<Longrightarrow> a \<in> set (jvalues m) \<longleftrightarrow> map_of m (key a) = Some a"
  by (auto simp: keyed_def jget_mem [symmetric] image_iff) force

lemma jset_all_fresh: "distinct (map fst m @ map fst kvs) \<Longrightarrow> jset_all kvs m = m @ kvs"
proof (induction kvs arbitrary: m)
  case (Cons p kvs)
  then have "jset (fst p) (snd p) m = m @ [p]" by (simp add: jset_fresh)
  then show ?case using Cons by simp
qed simp

lemma basis_perm:
  assumes "mset ms = mset ns" and "distinct (map mr_repoPath ms)"
  shows "hostRefBasisDigest (map ref_pair ms) = hostRefBasisDigest (map ref_pair ns)"
proof -
  have "inj_on fst (set (map ref_pair ms))"
    using assms(2) by (auto simp: distinct_map ref_pair_def inj_on_def)
  moreover have "mset (map ref_pair ms) = mset (map ref_pair ns)" using assms(1) by simp
  ultimately have "sort_utf16 fst (map ref_pair ms) = sort_utf16 fst (map ref_pair ns)" by (rule sort_utf16_unique)
  then show ?thesis by (simp only: hostRefBasisDigest_def)
qed

lemma set_sorted_mset: "mset (sort_utf16 f xs) = mset xs"
  by (rule sort_utf16_perm)

lemma stored_of_ok: "refs_ok st \<Longrightarrow> stored_ok (stored_of (rs_mains st) (rs_publications st) (rs_head st) (rs_event st))"
proof -
  assume ok: "refs_ok st"
  let ?ms = "jvalues (rs_mains st)" and ?ps = "jvalues (rs_publications st)"
  have k: "keyed mr_repoPath main_ok (rs_mains st)" "keyed ap_publicationId applied_ok (rs_publications st)"
    and h: "head_ok (rs_head st) (rs_event st) (set ?ms) ?ms (set ?ps)"
    using ok by (simp_all add: refs_ok_def)
  have "hostRefBasisDigest (map ref_pair ?ms) = hostRefBasisDigest (map ref_pair (sort_utf16 mr_repoPath ?ms))"
    using keyed_distinct [OF k(1)] by (intro basis_perm) (simp_all add: sort_utf16_perm)
  then have "head_ok (rs_head st) (rs_event st) (set ?ms) (sort_utf16 mr_repoPath ?ms) (set ?ps)"
    using h unfolding head_ok_def by (simp only:)
  moreover have "\<forall>m \<in> set ?ms. main_ok m" "\<forall>p \<in> set ?ps. applied_ok p"
    using k by (auto simp: keyed_def)
  ultimately show ?thesis
    using keyed_distinct [OF k(1)] keyed_distinct [OF k(2)] by (simp add: stored_ok_def stored_of_def del: set_map map_map)
qed

lemma create_loaded:
  assumes "stored_ok s"
  shows "jset_all (map (\<lambda>m. (mr_repoPath m, m)) (sr_mains s)) [] = map (\<lambda>m. (mr_repoPath m, m)) (sr_mains s)"
    "jset_all (map (\<lambda>p. (ap_publicationId p, p)) (sr_publications s)) [] = map (\<lambda>p. (ap_publicationId p, p)) (sr_publications s)"
  using assms by (simp_all add: stored_ok_def jset_all_fresh comp_def)

lemma create_ok:
  assumes "createProtectedRefStore env f = Inr st"
  shows "refs_ok st" "rs_file st = f"
proof -
  obtain s where s: "stored_ok s" and st: "rs_mains st = map (\<lambda>m. (mr_repoPath m, m)) (sr_mains s)"
    "rs_publications st = map (\<lambda>p. (ap_publicationId p, p)) (sr_publications s)" "rs_head st = sr_head s" "rs_event st = sr_event s"
    "rs_file st = f"
  proof (cases f)
    case None
    then show thesis using assms that [of "\<lparr>sr_head = None, sr_event = None, sr_mains = [], sr_publications = []\<rparr>"]
      by (auto simp: createProtectedRefStore_def stored_ok_def head_ok_def)
  next
    case (Some v)
    then obtain s where "loadVersionedJsonFile env v = Inr s"
      using assms by (auto simp: createProtectedRefStore_def split: sum.splits)
    moreover from this have "stored_ok s" by (rule load_ok)
    ultimately show thesis using assms Some that [of s] create_loaded [of s]
      by (auto simp: createProtectedRefStore_def)
  qed
  then show "refs_ok st" "rs_file st = f"
    by (auto simp: refs_ok_def keyed_def jwf_def stored_ok_def comp_def)
qed

text \<open>Two states of the store that no reader tells apart.\<close>

definition same_refs :: "'n ref_store \<Rightarrow> 'n ref_store \<Rightarrow> bool" where
  "same_refs a b \<longleftrightarrow> map_of (rs_mains a) = map_of (rs_mains b) \<and> map_of (rs_publications a) = map_of (rs_publications b) \<and>
     rs_head a = rs_head b \<and> rs_event a = rs_event b"

definition durable :: "'n ref_env \<Rightarrow> 'n ref_store \<Rightarrow> bool" where
  "durable env st \<longleftrightarrow> (\<exists>st'. createProtectedRefStore env (rs_file st) = Inr st' \<and> same_refs st' st)"

lemma map_of_sorted:
  assumes "keyed key P m"
  shows "map_of (map (\<lambda>a. (key a, a)) (sort_utf16 key (jvalues m))) = map_of m"
proof -
  let ?l = "map (\<lambda>a. (key a, a)) (sort_utf16 key (jvalues m))"
  have "distinct (map fst ?l)" using keyed_distinct [OF assms] distinct_sort_utf16 [of key key "jvalues m"] by (simp add: comp_def)
  moreover have "distinct (map fst m)" using assms by (simp add: keyed_def jwf_def)
  moreover have "set ?l = set m" using assms by (force simp: keyed_def)
  ultimately show ?thesis by (simp only: map_of_inject_set)
qed

lemma written_durable:
  assumes "ref_env_laws env" and "refs_ok st"
    and "rs_file st = Some (reparse (re_json env)
      (encodeStoredRefStore env (stored_of (rs_mains st) (rs_publications st) (rs_head st) (rs_event st))))"
  shows "durable env st"
proof -
  note s = stored_of_ok [OF assms(2)]
  have k: "keyed mr_repoPath main_ok (rs_mains st)" "keyed ap_publicationId applied_ok (rs_publications st)"
    using assms(2) by (simp_all add: refs_ok_def)
  show ?thesis
    unfolding durable_def assms(3)
    by (simp add: createProtectedRefStore_def load_stored [OF assms(1) s] create_loaded [OF s] same_refs_def)
      (simp add: stored_of_def map_of_sorted [OF k(1)] map_of_sorted [OF k(2)])
qed

end
