(* ===== verification/RefStoreRuns.thy ===== *)
theory RefStoreRuns
  imports RefStoreLaws
begin

text \<open>
  What every operation of the store of protected references keeps, and its runs: calls of many
  clients, cut at their awaits, between which acknowledgements and restarts of the process happen.
\<close>

subsection \<open>Operations\<close>

definition job_ok :: "evidence_input \<Rightarrow> update_entry list \<Rightarrow> bool" where
  "job_ok ev es \<longleftrightarrow> ei_publicationId ev \<noteq> [] \<and> ei_previousEventId ev \<noteq> [] \<and> ei_publishedEventId ev \<noteq> [] \<and> entries_ok es"

lemma check_entries_Inr:
  "check_entries es seen = Inr () \<longleftrightarrow> entries_ok es \<and> ue_repoPath ` set es \<inter> set seen = {}"
  by (induction es seen rule: check_entries.induct) (auto simp: entries_ok_def split: sum.splits)

lemma entries_ok_perm: "mset es = mset fs \<Longrightarrow> entries_ok es \<longleftrightarrow> entries_ok fs"
  unfolding entries_ok_def by (metis distinct_map_mset set_mset_mset)

lemma submit_ok: "submit_check inp = Inr es \<Longrightarrow> job_ok (ui_evidence inp) es \<and> mset es = mset (ui_entries inp)"
  by (auto simp: submit_check_def job_ok_def Let_def check_entries_Inr sort_utf16_perm
      entries_ok_perm [OF sort_utf16_perm] split: if_splits sum.splits)

lemma entry_main_ok:
  "validateEntry e = Inr () \<Longrightarrow> ue_next e = Some c \<Longrightarrow> safe_time t \<Longrightarrow>
     main_ok \<lparr>mr_repoPath = ue_repoPath e, mr_contentRoot = c, mr_updatedAt = t\<rparr>"
  by (auto simp: validateEntry_def main_ok_def check_main_def validate_option_def validateValue_def split: sum.splits if_splits)

lemma apply_entries_Cons:
  "apply_entries t (e # es) m = apply_entries t es (case ue_next e of
       None \<Rightarrow> jdel (ue_repoPath e) m
     | Some c \<Rightarrow> jset (ue_repoPath e) \<lparr>mr_repoPath = ue_repoPath e, mr_contentRoot = c, mr_updatedAt = t\<rparr> m)"
  by (simp add: apply_entries_def)

lemma apply_entries_keyed:
  "keyed mr_repoPath main_ok m \<Longrightarrow> \<forall>e \<in> set es. validateEntry e = Inr () \<Longrightarrow> safe_time t \<Longrightarrow>
     keyed mr_repoPath main_ok (apply_entries t es m)"
proof (induction es arbitrary: m)
  case (Cons e es)
  then show ?case
    by (cases "ue_next e") (auto simp: apply_entries_Cons keyed_del entry_main_ok intro!: Cons.IH keyed_set)
qed (simp add: apply_entries_def)

text \<open>The content of the references as a map, which an update overrides at the repositories of its batch.\<close>

lemma apply_entries_roots:
  "distinct (map ue_repoPath es) \<Longrightarrow>
     map_option mr_contentRoot (map_of (apply_entries t es m) r) =
       (case map_of (updated_of es) r of None \<Rightarrow> map_option mr_contentRoot (map_of m r) | Some n \<Rightarrow> n)"
proof (induction es arbitrary: m)
  case (Cons e es)
  have "map_of (updated_of es) (ue_repoPath e) = None"
    using Cons.prems by (force simp: updated_of_def map_of_eq_None_iff)
  then show ?case
    using Cons by (cases "ue_next e") (auto simp: apply_entries_Cons updated_of_def cong: option.case_cong)
qed (simp add: apply_entries_def updated_of_def)

lemma basis_digest_host [simp]: "basis_digest (hostRefBasisDigest refs)"
  by (simp add: basis_digest_def hex64_after_def hostRefBasisDigest_def startsWith_def stableSha256Hex_def
      sha256HexSyncText_def hash_is_hex del: ascii_simps)

lemma keyed_compact: "keyed key P ps \<Longrightarrow> keyed key P (compact head ps)" for ps :: "(ustring, applied) jsmap"
  by (simp add: compact_def keyed_filter)

lemma compact_get:
  "jwf ps \<Longrightarrow> map_of (compact head ps) i =
     (case map_of ps i of None \<Rightarrow> None | Some p \<Rightarrow> if Some i = head \<or> ap_acknowledgedAt p = None then Some p else None)"
  unfolding compact_def by (subst map_of_filter) (auto split: option.splits)

lemma head_get:
  "keyed ap_publicationId Q ps \<Longrightarrow> head_ok head event M ms (set (jvalues ps)) \<longleftrightarrow>
     (case head of
        None \<Rightarrow> event = None \<and> M = {}
      | Some h \<Rightarrow> \<exists>p. map_of ps h = Some p \<and> event = Some (ap_publishedEventId p) \<and>
          ap_resultBasis p = hostRefBasisDigest (map ref_pair ms))"
proof (cases head)
  case (Some h)
  assume k: "keyed ap_publicationId Q ps"
  have "(p \<in> set (jvalues ps) \<and> ap_publicationId p = h) \<longleftrightarrow> map_of ps h = Some p" for p
    using keyed_in [OF k, of p] keyed_get [OF k, of h p] by metis
  then have "(\<exists>p. (p \<in> set (jvalues ps) \<and> ap_publicationId p = h) \<and> R p) \<longleftrightarrow> (\<exists>p. map_of ps h = Some p \<and> R p)" for R
    by simp
  then show ?thesis by (simp only: head_ok_def Some option.case Bex_def conj_assoc)
qed (simp add: head_ok_def)

lemma refs_okD:
  assumes "refs_ok st"
  shows "keyed mr_repoPath main_ok (rs_mains st)" "keyed ap_publicationId applied_ok (rs_publications st)"
    "jwf (rs_publications st)"
  using assms by (simp_all add: refs_ok_def keyed_def)

lemma refs_okI:
  assumes "keyed mr_repoPath main_ok (rs_mains st)" and "keyed ap_publicationId applied_ok (rs_publications st)"
    and "case rs_head st of
        None \<Rightarrow> rs_event st = None \<and> rs_mains st = []
      | Some h \<Rightarrow> \<exists>p. map_of (rs_publications st) h = Some p \<and> rs_event st = Some (ap_publishedEventId p) \<and>
          ap_resultBasis p = actual_basis st"
  shows "refs_ok st"
  unfolding refs_ok_def head_get [OF assms(2)] using assms
  by (auto simp: actual_basis_def split: option.splits)

lemma refs_ok_head:
  assumes "refs_ok st"
  shows "case rs_head st of
        None \<Rightarrow> rs_event st = None \<and> rs_mains st = []
      | Some h \<Rightarrow> \<exists>p. map_of (rs_publications st) h = Some p \<and> rs_event st = Some (ap_publishedEventId p) \<and>
          ap_resultBasis p = actual_basis st"
  using assms head_get [OF refs_okD(2) [OF assms]] unfolding refs_ok_def
  by (auto simp: actual_basis_def split: option.splits)

definition store_ok :: "'n ref_env \<Rightarrow> 'n ref_store \<Rightarrow> bool" where
  "store_ok env st \<longleftrightarrow> refs_ok st \<and> durable env st"

lemma store_okI:
  "ref_env_laws env \<Longrightarrow> refs_ok st \<Longrightarrow> rs_file st = Some (reparse (re_json env)
     (encodeStoredRefStore env (stored_of (rs_mains st) (rs_publications st) (rs_head st) (rs_event st)))) \<Longrightarrow> store_ok env st"
  by (simp add: store_ok_def written_durable)

lemma proceed_iff:
  "start_update st ev es = Inr Proceed \<longleftrightarrow> map_of (rs_publications st) (ei_publicationId ev) = None \<and>
     (case rs_event st of Some e \<Rightarrow> e = ei_previousEventId ev | None \<Rightarrow> rs_mains st = []) \<and>
     actual_basis st = ei_basis ev \<and> (\<forall>e \<in> set es. actual_root st (ue_repoPath e) = ue_expectedOld e)"
  by (auto simp: start_update_def replay_of_def conflicts_of_def filter_empty_conv split: option.splits if_splits)

lemma commit_ok:
  assumes "ref_env_laws env" and "refs_ok st" and "job_ok ev es" and "start_update st ev es = Inr Proceed" and "safe_time now"
    and "commit_update env ev es now st = (p, st')"
  shows "store_ok env st'"
proof (rule store_okI [OF assms(1)])
  have st': "rs_mains st' = apply_entries now es (rs_mains st)" "rs_head st' = Some (ei_publicationId ev)"
    "rs_event st' = Some (ei_publishedEventId ev)" "p = evidence_of st ev es now"
    "rs_publications st' = compact (Some (ei_publicationId ev)) (jset (ei_publicationId ev) p (rs_publications st))"
    and f: "rs_file st' = Some (reparse (re_json env)
      (encodeStoredRefStore env (stored_of (rs_mains st') (rs_publications st') (rs_head st') (rs_event st'))))"
    using assms(6) by (auto simp: commit_update_def Let_def persist_def)
  show "rs_file st' = Some (reparse (re_json env)
      (encodeStoredRefStore env (stored_of (rs_mains st') (rs_publications st') (rs_head st') (rs_event st'))))" by (rule f)
  have "basis_digest (ei_basis ev)" using assms(4) basis_digest_host by (metis proceed_iff actual_basis_def)
  then have p: "applied_ok p" "ap_publicationId p = ei_publicationId ev" "ap_publishedEventId p = ei_publishedEventId ev"
    "ap_resultBasis p = actual_basis st'"
    using assms(3,5) by (auto simp: st' evidence_of_def applied_ok_def job_ok_def time_option_ok_def actual_basis_def)
  have pubs: "keyed ap_publicationId applied_ok (jset (ei_publicationId ev) p (rs_publications st))"
    using refs_okD(2) [OF assms(2)] p by (intro keyed_set) simp_all
  then have "map_of (rs_publications st') (ei_publicationId ev) = Some p"
    by (simp add: st' compact_get keyed_def)
  then show "refs_ok st'"
    using apply_entries_keyed [OF refs_okD(1) [OF assms(2)]] keyed_compact [OF pubs] assms(3,5) p
    by (intro refs_okI) (auto simp: st'(1,2,3,5) job_ok_def entries_ok_def)
qed

text \<open>The two operations that write into the evidence only.\<close>

lemma touch_ok:
  assumes "ref_env_laws env" and "refs_ok st" and "map_of (rs_publications st) i = Some p" and "applied_ok q"
    and "ap_publicationId q = i" and "ap_publishedEventId q = ap_publishedEventId p" and "ap_resultBasis q = ap_resultBasis p"
    and "ps = jset i q (rs_publications st) \<or> ps = compact (rs_head st) (jset i q (rs_publications st))"
  shows "store_ok env ((persist env (rs_mains st) ps (rs_head st) (rs_event st) st)\<lparr>rs_publications := ps\<rparr>)" (is "store_ok env ?st")
proof (rule store_okI [OF assms(1)])
  have k: "keyed ap_publicationId applied_ok (jset i q (rs_publications st))"
    using refs_okD(2) [OF assms(2)] assms(4,5) by (intro keyed_set) simp_all
  then have ps: "keyed ap_publicationId applied_ok ps" using assms(8) keyed_compact by blast
  have "map_of ps h = map_of (jset i q (rs_publications st)) h" if "rs_head st = Some h" for h
    using assms(8) compact_get [of "jset i q (rs_publications st)" "rs_head st" h] k that
    by (auto simp: keyed_def split: option.splits)
  then show "refs_ok ?st"
    using refs_ok_head [OF assms(2)] assms(3,6,7) refs_okD(1) [OF assms(2)] ps
    by (intro refs_okI) (auto simp: persist_def actual_basis_def split: option.splits)
qed (simp add: persist_def)

lemma acknowledge_ok:
  assumes "ref_env_laws env" and "store_ok env st" and "safe_time now" and "acknowledgePublication env i now writes st = (x, st')"
  shows "store_ok env st'"
proof (cases "st' = st")
  case False
  then obtain p where p: "map_of (rs_publications st) i = Some p"
    "st' = (persist env (rs_mains st) (compact (rs_head st) (jset i (p\<lparr>ap_acknowledgedAt := Some now\<rparr>) (rs_publications st)))
       (rs_head st) (rs_event st) st)\<lparr>rs_publications :=
         compact (rs_head st) (jset i (p\<lparr>ap_acknowledgedAt := Some now\<rparr>) (rs_publications st))\<rparr>"
    using assms(4) by (auto simp: acknowledgePublication_def Let_def split: option.splits if_splits)
  have "applied_ok p \<and> ap_publicationId p = i"
    using keyed_get [OF refs_okD(2) p(1)] assms(2) by (simp add: store_ok_def)
  then have "applied_ok (p\<lparr>ap_acknowledgedAt := Some now\<rparr>)" "ap_publicationId (p\<lparr>ap_acknowledgedAt := Some now\<rparr>) = i"
    using assms(3) by (auto simp: applied_ok_def time_option_ok_def)
  then show ?thesis
    unfolding p(2) using assms(1,2) by (intro touch_ok [OF _ _ p(1), where q = "p\<lparr>ap_acknowledgedAt := Some now\<rparr>"]) (auto simp: store_ok_def)
qed (use assms in simp)

lemma mark_ok:
  assumes "ref_env_laws env" and "store_ok env st" and "safe_time now" and "mark_observed env i now writes st = (x, st')"
  shows "store_ok env st'"
proof (cases "st' = st")
  case False
  have key: "ap_publicationId p = i \<and> applied_ok p" if "map_of (rs_publications st) i = Some p" for p
    using keyed_get [OF refs_okD(2) that] assms(2) by (simp add: store_ok_def)
  obtain p where p: "map_of (rs_publications st) i = Some p"
    "st' = (persist env (rs_mains st) (jset i (p\<lparr>ap_observersAppliedAt := Some now\<rparr>) (rs_publications st))
       (rs_head st) (rs_event st) st)\<lparr>rs_publications := jset i (p\<lparr>ap_observersAppliedAt := Some now\<rparr>) (rs_publications st)\<rparr>"
    using assms(4) False key by (auto simp: mark_observed_def Let_def split: option.splits if_splits)
  then have "applied_ok (p\<lparr>ap_observersAppliedAt := Some now\<rparr>)" "ap_publicationId (p\<lparr>ap_observersAppliedAt := Some now\<rparr>) = i"
    using key [OF p(1)] assms(3) by (auto simp: applied_ok_def time_option_ok_def)
  then show ?thesis
    unfolding p(2) using assms(1,2) by (intro touch_ok [OF _ _ p(1), where q = "p\<lparr>ap_observersAppliedAt := Some now\<rparr>"]) (auto simp: store_ok_def)
qed (use assms in simp)

lemma create_store_ok: "createProtectedRefStore env f = Inr st \<Longrightarrow> store_ok env st"
  using create_ok [of env f st] by (auto simp: store_ok_def durable_def same_refs_def)

subsection \<open>Runs\<close>

text \<open>
  Tasks of the one serializer (\<^verbatim>\<open>packages/shared/src/keyedSerializer.ts\<close>): each runs when the one
  before has settled. The completeness check, the gate and its preparation are awaited in one phase,
  since nothing of the store is touched between them; the report of a commit is awaited in another.
  A call is named by a number of its caller.
\<close>

datatype ref_job =
    UpdateJob nat evidence_input "update_entry list"
  | ObservedJob nat ustring update_result

datatype ref_phase =
    Gating nat evidence_input "update_entry list"
  | Reporting nat update_result publication

record 'n ref_system =
  sy_store :: "'n ref_store"
  sy_queue :: "ref_job list"
  sy_phase :: "ref_phase option"
  sy_delivering :: "(nat \<times> update_result \<times> publication) list"
  sy_answers :: "(nat \<times> (ref_error + update_result)) list"

definition answer :: "nat \<Rightarrow> ref_error + update_result \<Rightarrow> 'n ref_system \<Rightarrow> 'n ref_system" where
  "answer t r s = s\<lparr>sy_answers := sy_answers s @ [(t, r)]\<rparr>"

definition committed_result :: "update_entry list \<Rightarrow> update_result" where
  "committed_result es = \<lparr>ur_updated = updated_of es, ur_replayed = False\<rparr>"

definition start_system :: "'n ref_store \<Rightarrow> 'n ref_system" where
  "start_system st = \<lparr>sy_store = st, sy_queue = [], sy_phase = None, sy_delivering = [], sy_answers = []\<rparr>"

inductive ref_step :: "'n ref_env \<Rightarrow> 'n ref_system \<Rightarrow> 'n ref_system \<Rightarrow> bool" for env where
  rejected: "submit_check inp = Inl e \<Longrightarrow> ref_step env s (answer t (Inl e) s)"
| submitted: "submit_check inp = Inr es \<Longrightarrow>
    ref_step env s (s\<lparr>sy_queue := sy_queue s @ [UpdateJob t (ui_evidence inp) es]\<rparr>)"
| refused: "sy_phase s = None \<Longrightarrow> sy_queue s = UpdateJob t ev es # q \<Longrightarrow> start_update (sy_store s) ev es = Inl e \<Longrightarrow>
    ref_step env s (answer t (Inl e) (s\<lparr>sy_queue := q\<rparr>))"
| replayed: "sy_phase s = None \<Longrightarrow> sy_queue s = UpdateJob t ev es # q \<Longrightarrow>
    start_update (sy_store s) ev es = Inr (Replay r None) \<Longrightarrow> ref_step env s (answer t (Inr r) (s\<lparr>sy_queue := q\<rparr>))"
| redelivered: "sy_phase s = None \<Longrightarrow> sy_queue s = UpdateJob t ev es # q \<Longrightarrow>
    start_update (sy_store s) ev es = Inr (Replay r (Some p)) \<Longrightarrow>
    ref_step env s (s\<lparr>sy_queue := q, sy_delivering := sy_delivering s @ [(t, r, p)]\<rparr>)"
| gated: "sy_phase s = None \<Longrightarrow> sy_queue s = UpdateJob t ev es # q \<Longrightarrow> start_update (sy_store s) ev es = Inr Proceed \<Longrightarrow>
    ref_step env s (s\<lparr>sy_queue := q, sy_phase := Some (Gating t ev es)\<rparr>)"
| gate_failed: "sy_phase s = Some (Gating t ev es) \<Longrightarrow> e \<in> {CallbackFailed, WriteFailed} \<Longrightarrow>
    ref_step env s (answer t (Inl e) (s\<lparr>sy_phase := None\<rparr>))"
| committed: "sy_phase s = Some (Gating t ev es) \<Longrightarrow> safe_time now \<Longrightarrow> commit_update env ev es now (sy_store s) = (p, st) \<Longrightarrow>
    ref_step env s (s\<lparr>sy_store := st, sy_phase := Some (Reporting t (committed_result es) (publicationFromEvidence p))\<rparr>)"
| reported: "sy_phase s = Some (Reporting t r p) \<Longrightarrow>
    ref_step env s (s\<lparr>sy_phase := None, sy_delivering := sy_delivering s @ [(t, r, p)]\<rparr>)"
| report_failed: "sy_phase s = Some (Reporting t r p) \<Longrightarrow> ref_step env s (answer t (Inl CallbackFailed) (s\<lparr>sy_phase := None\<rparr>))"
| delivered: "sy_delivering s = ds @ (t, r, p) # ds' \<Longrightarrow>
    ref_step env s (s\<lparr>sy_delivering := ds @ ds', sy_queue := sy_queue s @ [ObservedJob t (pb_publicationId p) r]\<rparr>)"
| delivery_failed: "sy_delivering s = ds @ (t, r, p) # ds' \<Longrightarrow>
    ref_step env s (answer t (Inl CallbackFailed) (s\<lparr>sy_delivering := ds @ ds'\<rparr>))"
| observed: "sy_phase s = None \<Longrightarrow> sy_queue s = ObservedJob t i r # q \<Longrightarrow> safe_time now \<Longrightarrow>
    mark_observed env i now writes (sy_store s) = (x, st) \<Longrightarrow>
    ref_step env s (answer t (case x of Inl e \<Rightarrow> Inl e | Inr _ \<Rightarrow> Inr r) (s\<lparr>sy_store := st, sy_queue := q\<rparr>))"
| acknowledged: "safe_time now \<Longrightarrow> acknowledgePublication env i now writes (sy_store s) = (x, st) \<Longrightarrow>
    ref_step env s (s\<lparr>sy_store := st\<rparr>)"
| restarted: "createProtectedRefStore env (rs_file (sy_store s)) = Inr st \<Longrightarrow>
    ref_step env s ((start_system st)\<lparr>sy_answers := sy_answers s\<rparr>)"

inductive ref_run :: "'n ref_env \<Rightarrow> 'n ref_system \<Rightarrow> bool" for env where
  opened: "createProtectedRefStore env f = Inr st \<Longrightarrow> ref_run env (start_system st)"
| stepped: "ref_run env s \<Longrightarrow> ref_step env s s' \<Longrightarrow> ref_run env s'"

text \<open>The task at the gate still passes the check that let it in.\<close>

definition phase_ok :: "'n ref_store \<Rightarrow> ref_phase option \<Rightarrow> bool" where
  "phase_ok st ph \<longleftrightarrow> (case ph of
      Some (Gating t ev es) \<Rightarrow> job_ok ev es \<and> start_update st ev es = Inr Proceed
    | _ \<Rightarrow> True)"

lemma phase_ok_simps [simp]:
  "phase_ok st None" "phase_ok st (Some (Reporting t r p))"
  "phase_ok st (Some (Gating t ev es)) \<longleftrightarrow> job_ok ev es \<and> start_update st ev es = Inr Proceed"
  by (simp_all add: phase_ok_def)

definition queue_ok :: "ref_job list \<Rightarrow> bool" where
  "queue_ok q \<longleftrightarrow> (\<forall>t ev es. UpdateJob t ev es \<in> set q \<longrightarrow> job_ok ev es)"

lemma queue_ok_simps [simp]:
  "queue_ok []" "queue_ok (ObservedJob t i r # q) \<longleftrightarrow> queue_ok q"
  "queue_ok (UpdateJob t ev es # q) \<longleftrightarrow> job_ok ev es \<and> queue_ok q" "queue_ok (q @ q') \<longleftrightarrow> queue_ok q \<and> queue_ok q'"
  by (auto simp: queue_ok_def)

definition system_ok :: "'n ref_env \<Rightarrow> 'n ref_system \<Rightarrow> bool" where
  "system_ok env s \<longleftrightarrow> store_ok env (sy_store s) \<and> phase_ok (sy_store s) (sy_phase s) \<and> queue_ok (sy_queue s)"

lemma acknowledge_keeps:
  assumes "acknowledgePublication env i now writes st = (x, st')"
  shows "rs_mains st' = rs_mains st" "rs_head st' = rs_head st" "rs_event st' = rs_event st"
  using assms by (auto simp: acknowledgePublication_def persist_def Let_def split: option.splits if_splits)

lemma mark_keeps:
  assumes "mark_observed env i now writes st = (x, st')"
  shows "rs_mains st' = rs_mains st" "rs_head st' = rs_head st" "rs_event st' = rs_event st"
  using assms by (auto simp: mark_observed_def persist_def Let_def split: option.splits if_splits)

lemma acknowledge_proceed:
  assumes "acknowledgePublication env i now writes st = (x, st')" and "jwf (rs_publications st)"
    and "start_update st ev es = Inr Proceed"
  shows "start_update st' ev es = Inr Proceed"
proof -
  have "map_of (rs_publications st') j = None" if "map_of (rs_publications st) j = None" for j
    using assms(1,2) that
    by (auto simp: acknowledgePublication_def Let_def compact_get split: option.splits if_splits)
  then show ?thesis
    using assms(3) acknowledge_keeps [OF assms(1)]
    by (auto simp: proceed_iff actual_basis_def actual_root_def split: option.splits)
qed

lemma answer_simps [simp]:
  "sy_store (answer t r s) = sy_store s" "sy_phase (answer t r s) = sy_phase s" "sy_queue (answer t r s) = sy_queue s"
  "sy_delivering (answer t r s) = sy_delivering s"
  by (simp_all add: answer_def)

lemma system_step:
  assumes "ref_env_laws env" and "ref_step env s s'" and "system_ok env s"
  shows "system_ok env s'"
  using assms(2,3)
proof cases
  case (submitted inp es t)
  then show ?thesis using assms(3) submit_ok [of inp es] by (simp add: system_ok_def)
next
  case (committed t ev es now p st)
  then have "job_ok ev es" "start_update (sy_store s) ev es = Inr Proceed" "refs_ok (sy_store s)"
    using assms(3) by (simp_all add: system_ok_def store_ok_def)
  then have "store_ok env st" using commit_ok [OF assms(1)] committed by blast
  then show ?thesis using assms(3) committed by (simp add: system_ok_def)
next
  case (acknowledged now i writes x st)
  have ok: "store_ok env st" using acknowledge_ok [OF assms(1)] assms(3) acknowledged by (auto simp: system_ok_def)
  have "jwf (rs_publications (sy_store s))" using assms(3) refs_okD(3) by (auto simp: system_ok_def store_ok_def)
  then have "phase_ok st (sy_phase s)"
    using assms(3) acknowledge_proceed [OF acknowledged(3)]
    by (auto simp: system_ok_def phase_ok_def split: option.splits ref_phase.splits)
  then show ?thesis using ok assms(3) acknowledged by (simp add: system_ok_def)
next
  case (observed t i r q now writes x st)
  then have "store_ok env st" using mark_ok [OF assms(1)] assms(3) by (auto simp: system_ok_def)
  then show ?thesis using assms(3) observed by (simp add: system_ok_def)
next
  case (restarted st)
  then show ?thesis using create_store_ok by (auto simp: system_ok_def start_system_def)
qed (simp_all add: system_ok_def)

lemma ref_run_ok: "ref_run env s \<Longrightarrow> ref_env_laws env \<Longrightarrow> system_ok env s"
proof (induction rule: ref_run.induct)
  case (opened f st)
  then show ?case using create_store_ok by (auto simp: system_ok_def start_system_def)
qed (rule system_step)

end
