(* ===== verification/RefStoreProps.thy ===== *)
theory RefStoreProps
  imports RefStoreRuns
begin

text \<open>
  The properties of the store of protected references over all its runs: references advance by
  compare-and-set only, a restart loses nothing, replays are recognised exactly, evidence stays until
  it is acknowledged.
\<close>

subsection \<open>Readers\<close>

lemma same_refs_roots: "same_refs a b \<Longrightarrow> actual_root a r = actual_root b r"
  by (simp add: same_refs_def actual_root_def)

lemma keyed_sorted_unique:
  assumes "keyed key P m" and "keyed key P n" and "map_of m = map_of n"
  shows "sort_utf16 key (jvalues m) = sort_utf16 key (jvalues n)"
proof -
  have d: "distinct (map fst m)" "distinct (map fst n)" using assms(1,2) by (simp_all add: keyed_def jwf_def)
  then have "set m = set n" using map_of_inject_set [OF d] assms(3) by simp
  then have "mset m = mset n" using d by (simp add: set_eq_iff_mset_eq_distinct distinct_map)
  then have "mset (jvalues m) = mset (jvalues n)" by simp
  moreover have "inj_on key (set (jvalues m))"
    using keyed_distinct [OF assms(1)] unfolding distinct_map by simp
  ultimately show ?thesis by (intro sort_utf16_unique)
qed

lemma same_refs_readers:
  assumes "same_refs a b" and "refs_ok a" and "refs_ok b"
  shows "listMains a = listMains b" "readMain a = readMain b" "readMainSemanticState a = readMainSemanticState b"
    "readHeadPublication a = readHeadPublication b" "readAppliedPublication a = readAppliedPublication b"
    "actual_basis a = actual_basis b"
proof -
  have m: "map_of (rs_mains a) = map_of (rs_mains b)" using assms(1) by (simp add: same_refs_def)
  show l: "listMains a = listMains b"
    unfolding listMains_def by (rule keyed_sorted_unique [OF refs_okD(1) [OF assms(2)] refs_okD(1) [OF assms(3)] m])
  show "readMain a = readMain b" unfolding readMain_def [abs_def] m ..
  have h: "map_of (rs_publications a) = map_of (rs_publications b)" "rs_head a = rs_head b" "rs_event a = rs_event b"
    using assms(1) by (simp_all add: same_refs_def)
  show "readMainSemanticState a = readMainSemanticState b" unfolding readMainSemanticState_def h ..
  show "readHeadPublication a = readHeadPublication b" unfolding readHeadPublication_def h ..
  show "readAppliedPublication a = readAppliedPublication b" unfolding readAppliedPublication_def [abs_def] h ..
  have "mset (jvalues (rs_mains a)) = mset (jvalues (rs_mains b))"
    using l unfolding listMains_def by (metis sort_utf16_perm)
  then show "actual_basis a = actual_basis b"
    unfolding actual_basis_def by (rule basis_perm) (rule keyed_distinct [OF refs_okD(1) [OF assms(2)]])
qed

lemma listed_basis: "refs_ok st \<Longrightarrow> hostRefBasisDigest (map ref_pair (listMains st)) = actual_basis st"
  unfolding actual_basis_def listMains_def
  by (intro basis_perm) (simp_all add: sort_utf16_perm keyed_distinct [OF refs_okD(1)] del: map_map)

subsection \<open>Same input\<close>

lemma update_entry_inject: "same_json (update_entry_json e) (update_entry_json f) \<Longrightarrow> e = f"
proof -
  assume "same_json (update_entry_json e) (update_entry_json f)"
  note all = this [unfolded update_entry_json_def same_json_simps(4)]
  have "ue_repoPath e = ue_repoPath f" using spec [OF all, of "ascii ''repoPath''"] by simp
  moreover have "ue_expectedOld e = ue_expectedOld f"
    using spec [OF all, of "ascii ''expectedOld''"] by (auto simp: option_json_def elim: same_jsonE split: option.splits)
  moreover have "ue_next e = ue_next f"
    using spec [OF all, of "ascii ''next''"] by (auto simp: option_json_def elim: same_jsonE split: option.splits)
  ultimately show "e = f" by simp
qed

lemma clean_update_entry: "clean (update_entry_json e)"
  by (auto simp: update_entry_json_def option_json_def proto_key_def split: option.splits)

lemma same_entries_iff [simp]: "same_entries a b \<longleftrightarrow> a = b"
proof -
  have "same_entries a b \<longleftrightarrow> same_json (JArray (map update_entry_json a) :: int json) (JArray (map update_entry_json b))"
    unfolding same_entries_def by (rule decimal.canonical_iff) (auto simp: clean_update_entry)
  also have "\<dots> \<longleftrightarrow> list_all2 (\<lambda>e f. same_json (update_entry_json e :: int json) (update_entry_json f)) a b"
    by (simp add: list.rel_map)
  also have "\<dots> \<longleftrightarrow> a = b"
  proof
    assume "list_all2 (\<lambda>e f. same_json (update_entry_json e :: int json) (update_entry_json f)) a b"
    then show "a = b" by (induction rule: list_all2_induct) (auto dest: update_entry_inject)
  qed (simp add: list.rel_refl same_leaf)
  finally show ?thesis .
qed

lemma start_known:
  assumes "map_of (rs_publications st) (ei_publicationId ev) = Some p"
  shows "start_update st ev es = Inr c \<longleftrightarrow> c = replay_of p \<and> ap_previousEventId p = ei_previousEventId ev \<and>
    ap_publishedEventId p = ei_publishedEventId ev \<and> ap_basis p = ei_basis ev \<and> ap_entries p = es \<and>
    actual_basis st = ap_resultBasis p"
  using assms by (auto simp: start_update_def)

subsection \<open>Steps of a run\<close>

definition cas_applied :: "evidence_input \<Rightarrow> update_entry list \<Rightarrow> 'n ref_store \<Rightarrow> 'n ref_store \<Rightarrow> bool" where
  "cas_applied ev es st st' \<longleftrightarrow>
     (\<forall>e \<in> set es. actual_root st (ue_repoPath e) = ue_expectedOld e) \<and> actual_basis st = ei_basis ev \<and>
     (rs_event st = Some (ei_previousEventId ev) \<or> rs_event st = None \<and> rs_mains st = []) \<and>
     actual_root st' = (\<lambda>r. case map_of (updated_of es) r of None \<Rightarrow> actual_root st r | Some n \<Rightarrow> n) \<and>
     rs_event st' = Some (ei_publishedEventId ev) \<and> rs_head st' = Some (ei_publicationId ev)"

lemma commit_cas:
  assumes "job_ok ev es" and "start_update st ev es = Inr Proceed" and "commit_update env ev es now st = (p, st')"
  shows "cas_applied ev es st st'"
proof -
  have "rs_mains st' = apply_entries now es (rs_mains st)" "rs_event st' = Some (ei_publishedEventId ev)"
    "rs_head st' = Some (ei_publicationId ev)"
    using assms(3) by (auto simp: commit_update_def Let_def persist_def)
  moreover have "distinct (map ue_repoPath es)" using assms(1) by (simp add: job_ok_def entries_ok_def)
  ultimately show ?thesis
    using assms(2) apply_entries_roots [of es now "rs_mains st"]
    by (auto simp: cas_applied_def proceed_iff actual_root_def fun_eq_iff split: option.splits)
qed

lemma durable_restart:
  "store_ok env st \<Longrightarrow> createProtectedRefStore env (rs_file st) = Inr st' \<Longrightarrow> same_refs st' st \<and> refs_ok st'"
  using create_ok by (auto simp: store_ok_def durable_def)

text \<open>Evidence without the two times that are filled in later.\<close>

definition base_of :: "applied \<Rightarrow> applied" where
  "base_of p = p\<lparr>ap_observersAppliedAt := None, ap_acknowledgedAt := None\<rparr>"

definition kept :: "ustring \<Rightarrow> applied \<Rightarrow> 'n ref_store \<Rightarrow> bool" where
  "kept i p st \<longleftrightarrow> (\<exists>q. map_of (rs_publications st) i = Some q \<and> base_of q = base_of p \<and>
     ap_acknowledgedAt q = ap_acknowledgedAt p)"

text \<open>An acknowledgement of the publication itself went through: its observers had all completed.\<close>

definition acknowledges :: "'n ref_env \<Rightarrow> ustring \<Rightarrow> applied \<Rightarrow> 'n ref_store \<Rightarrow> 'n ref_store \<Rightarrow> bool" where
  "acknowledges env i p st st' \<longleftrightarrow> ap_observersAppliedAt p \<noteq> None \<and>
     (\<exists>now. acknowledgePublication env i now True st = (Inr (), st'))"

lemma acknowledge_kept:
  assumes "acknowledgePublication env j now writes st = (x, st')" and "refs_ok st" and "map_of (rs_publications st) i = Some p"
  shows "kept i p st' \<or> rs_head st \<noteq> Some i \<and> ap_acknowledgedAt p \<noteq> None \<or>
    acknowledges env i p st st' \<and> (rs_head st = Some i \<longrightarrow> (\<exists>q. map_of (rs_publications st') i = Some q \<and> base_of q = base_of p))"
proof (cases "j = i \<and> st' \<noteq> st")
  case True
  then have w: "writes" "x = Inr ()" "ap_observersAppliedAt p \<noteq> None"
    using assms by (auto simp: acknowledgePublication_def Let_def split: if_splits)
  then have "acknowledges env i p st st'" using assms(1) True by (auto simp: acknowledges_def)
  moreover have "\<exists>q. map_of (rs_publications st') i = Some q \<and> base_of q = base_of p" if "rs_head st = Some i"
    using assms True w that refs_okD(3) [OF assms(2)]
    by (auto simp: acknowledgePublication_def Let_def compact_get base_of_def split: if_splits)
  ultimately show ?thesis by blast
next
  case False
  then show ?thesis
    using assms refs_okD(3) [OF assms(2)]
    by (auto simp: acknowledgePublication_def Let_def compact_get kept_def base_of_def split: option.splits if_splits)
qed

lemma mark_kept:
  assumes "mark_observed env j now writes st = (x, st')" and "refs_ok st" and "map_of (rs_publications st) i = Some p"
  shows "kept i p st'"
proof -
  have "ap_publicationId q = j" if "map_of (rs_publications st) j = Some q" for q
    using keyed_get [OF refs_okD(2) [OF assms(2)] that] by simp
  then show ?thesis
    using assms by (auto simp: mark_observed_def Let_def kept_def base_of_def split: option.splits if_splits)
qed

lemma commit_kept:
  assumes "commit_update env ev es now st = (q, st')" and "refs_ok st" and "map_of (rs_publications st) i = Some p"
    and "start_update st ev es = Inr Proceed"
  shows "kept i p st' \<or> rs_head st' \<noteq> Some i \<and> ap_acknowledgedAt p \<noteq> None"
proof -
  have "i \<noteq> ei_publicationId ev" using assms(3,4) by (auto simp: proceed_iff)
  then show ?thesis
    using assms refs_okD(3) [OF assms(2)]
    by (auto simp: commit_update_def Let_def compact_get kept_def split: option.splits)
qed

subsection \<open>A first publication\<close>

definition plain_refs :: "int ref_env" where
  "plain_refs = \<lparr>re_json = \<lparr>je_text = (\<lambda>n. Some (decimal n)), je_nfc = (\<lambda>s. s), je_int = (\<lambda>n. n)\<rparr>, re_integral = Some\<rparr>"

definition first_entry :: update_entry where
  "first_entry = \<lparr>ue_repoPath = ascii ''meta'', ue_expectedOld = None, ue_next = Some (ascii ''state:'' @ replicate 64 48)\<rparr>"

definition first_evidence :: evidence_input where
  "first_evidence = \<lparr>ei_publicationId = ascii ''p'', ei_previousEventId = ascii ''e0'', ei_publishedEventId = ascii ''e1'',
     ei_basis = hostRefBasisDigest []\<rparr>"

definition no_refs :: "int ref_store" where
  "no_refs = \<lparr>rs_mains = [], rs_publications = [], rs_head = None, rs_event = None, rs_file = None\<rparr>"

lemma plain_refs_laws: "ref_env_laws plain_refs"
  by (simp add: ref_env_laws_def plain_refs_def)

lemma first_submit: "submit_check \<lparr>ui_entries = [first_entry], ui_evidence = first_evidence\<rparr> = Inr [first_entry]"
proof -
  have "validateEntry first_entry = Inr ()" by code_simp
  moreover have "ei_basis first_evidence \<noteq> []" by (simp add: first_evidence_def hostRefBasisDigest_def)
  ultimately show ?thesis by (simp add: submit_check_def sort_utf16_def first_evidence_def)
qed

lemma first_start: "start_update no_refs first_evidence [first_entry] = Inr Proceed"
  by (simp add: proceed_iff no_refs_def first_evidence_def first_entry_def actual_basis_def actual_root_def)

definition gating_first :: "int ref_system" where
  "gating_first = (start_system no_refs)\<lparr>sy_phase := Some (Gating 0 first_evidence [first_entry])\<rparr>"

definition committed_first :: "int ref_system" where
  "committed_first = (let (p, st) = commit_update plain_refs first_evidence [first_entry] 7 no_refs in
     gating_first\<lparr>sy_store := st, sy_phase := Some (Reporting 0 (committed_result [first_entry]) (publicationFromEvidence p))\<rparr>)"

lemma first_run: "ref_run plain_refs gating_first" "ref_step plain_refs gating_first committed_first"
  "ref_run plain_refs committed_first"
proof -
  have "ref_run plain_refs (start_system no_refs)"
    by (rule ref_run.opened [of _ None]) (simp add: createProtectedRefStore_def no_refs_def)
  moreover have "ref_step plain_refs (start_system no_refs)
      ((start_system no_refs)\<lparr>sy_queue := sy_queue (start_system no_refs) @ [UpdateJob 0 first_evidence [first_entry]]\<rparr>)" (is "ref_step _ _ ?s")
    using ref_step.submitted [OF first_submit, of plain_refs "start_system no_refs" 0] by simp
  ultimately have "ref_run plain_refs ?s" by (rule ref_run.stepped)
  moreover have "ref_step plain_refs ?s gating_first"
    using ref_step.gated [of ?s 0 first_evidence "[first_entry]" "[]" plain_refs] first_start
    by (simp add: start_system_def gating_first_def)
  ultimately show g: "ref_run plain_refs gating_first" by (rule ref_run.stepped)
  obtain p st where c: "commit_update plain_refs first_evidence [first_entry] 7 no_refs = (p, st)" by fastforce
  show step: "ref_step plain_refs gating_first committed_first"
    using ref_step.committed [of gating_first 0 first_evidence "[first_entry]" 7 plain_refs p st] c
    by (simp add: gating_first_def committed_first_def start_system_def safe_time_def MAX_SAFE_def)
  show "ref_run plain_refs committed_first" using g step by (rule ref_run.stepped)
qed

subsection \<open>Properties\<close>

text \<open>
  C10. References change by compare-and-set only. In every run, a step leaves the content of all
  references, the main event and the head as they were, or it commits the update at the gate: every
  repository of its batch had the content that the update expected, at the moment of the write and
  not only when it was checked, the digest of all references and the event were the ones it was based on, and
  afterwards exactly the repositories of the batch have the new content. So no update is lost between the
  awaits of another one, and a failed gate, a failed write or a restart changes nothing.
\<close>

theorem refs_change_by_cas:
  assumes "ref_env_laws env" and "ref_run env s" and "ref_step env s s'"
  shows "(actual_root (sy_store s') = actual_root (sy_store s) \<and> rs_event (sy_store s') = rs_event (sy_store s) \<and>
      rs_head (sy_store s') = rs_head (sy_store s)) \<or>
    (\<exists>t ev es. sy_phase s = Some (Gating t ev es) \<and> cas_applied ev es (sy_store s) (sy_store s'))"
proof -
  have ok: "system_ok env s" using ref_run_ok assms(1,2) by blast
  show ?thesis
    using assms(3)
  proof cases
    case (committed t ev es now p st)
    then show ?thesis using ok commit_cas by (fastforce simp: system_ok_def)
  next
    case (acknowledged now i writes x st)
    then show ?thesis using acknowledge_keeps [OF acknowledged(3)] by (simp add: actual_root_def fun_eq_iff)
  next
    case (observed t i r q now writes x st)
    then show ?thesis using mark_keeps [OF observed(5)] by (simp add: actual_root_def fun_eq_iff)
  next
    case (restarted st)
    then have "same_refs st (sy_store s)" using ok durable_restart by (auto simp: system_ok_def)
    then show ?thesis using restarted same_refs_roots by (auto simp: start_system_def same_refs_def)
  qed simp_all
qed

theorem refs_change_by_cas_witness:
  "\<exists>t ev es. sy_phase gating_first = Some (Gating t ev es) \<and> cas_applied ev es (sy_store gating_first) (sy_store committed_first)"
proof -
  have "rs_head (sy_store committed_first) \<noteq> rs_head (sy_store gating_first)"
    by (simp add: committed_first_def gating_first_def commit_update_def Let_def start_system_def no_refs_def first_evidence_def)
  then show ?thesis using refs_change_by_cas [OF plain_refs_laws first_run(1,2)] by blast
qed

text \<open>
  C11. A restart recovers everything. In every state that a run reaches, also right after any write,
  loading the file succeeds (no check of its exact schema fails), and every reader of the
  loaded store answers as the store in memory did.
\<close>

theorem restart_recovers_refs:
  assumes "ref_env_laws env" and "ref_run env s"
  shows "\<exists>st. createProtectedRefStore env (rs_file (sy_store s)) = Inr st \<and>
    listMains st = listMains (sy_store s) \<and> readMain st = readMain (sy_store s) \<and>
    readMainSemanticState st = readMainSemanticState (sy_store s) \<and> readHeadPublication st = readHeadPublication (sy_store s) \<and>
    readAppliedPublication st = readAppliedPublication (sy_store s)"
proof -
  have ok: "store_ok env (sy_store s)" using ref_run_ok [OF assms(2,1)] by (simp add: system_ok_def)
  then obtain st where "createProtectedRefStore env (rs_file (sy_store s)) = Inr st" "same_refs st (sy_store s)"
    by (auto simp: store_ok_def durable_def)
  then show ?thesis
    using same_refs_readers [of st "sy_store s"] create_ok(1) [of env "rs_file (sy_store s)" st] ok by (auto simp: store_ok_def)
qed

theorem restart_recovers_refs_witness:
  "\<exists>st. createProtectedRefStore plain_refs (rs_file (sy_store committed_first)) = Inr st \<and>
     readMainSemanticState st = Some (ascii ''e1'')"
proof -
  have "readMainSemanticState (sy_store committed_first) = Some (ascii ''e1'')"
    by (simp add: committed_first_def gating_first_def commit_update_def Let_def start_system_def no_refs_def
        first_evidence_def readMainSemanticState_def)
  then show ?thesis using restart_recovers_refs [OF plain_refs_laws first_run(3)] by auto
qed

text \<open>
  C12. The head's evidence describes the references. In every state that a run reaches either nothing
  was ever published and there are no references, or the head publication is there, it published the main event,
  and its result digest is the digest of the references as they are listed.
\<close>

theorem head_evidence_describes_refs:
  assumes "ref_env_laws env" and "ref_run env s" and "st = sy_store s"
  shows "readHeadPublication st = Inr None \<and> readMainSemanticState st = None \<and> listMains st = [] \<or>
    (\<exists>p. readHeadPublication st = Inr (Some p) \<and> readMainSemanticState st = Some (ap_publishedEventId p) \<and>
       ap_resultBasis p = hostRefBasisDigest (map ref_pair (listMains st)))"
proof -
  have ok: "refs_ok st" using ref_run_ok [OF assms(2,1)] assms(3) by (simp add: system_ok_def store_ok_def)
  show ?thesis
  proof (cases "rs_head st")
    case None
    then show ?thesis using refs_ok_head [OF ok]
      by (simp add: readHeadPublication_def readMainSemanticState_def nonempty_def listMains_def sort_utf16_def)
  next
    case (Some h)
    then obtain p where p: "map_of (rs_publications st) h = Some p" "rs_event st = Some (ap_publishedEventId p)"
      "ap_resultBasis p = actual_basis st" using refs_ok_head [OF ok] by auto
    then have "h \<noteq> []" "ap_publishedEventId p \<noteq> []"
      using keyed_get [OF refs_okD(2) [OF ok] p(1)] by (auto simp: applied_ok_def)
    then show ?thesis
      using p Some listed_basis [OF ok] by (simp add: readHeadPublication_def readMainSemanticState_def)
  qed
qed

theorem head_evidence_describes_refs_witness:
  "\<exists>p. readHeadPublication (sy_store committed_first) = Inr (Some p) \<and>
     ap_resultBasis p = hostRefBasisDigest (map ref_pair (listMains (sy_store committed_first)))"
proof -
  have "readMainSemanticState (sy_store committed_first) \<noteq> None"
    by (simp add: committed_first_def gating_first_def commit_update_def Let_def start_system_def no_refs_def
        first_evidence_def readMainSemanticState_def)
  then show ?thesis using head_evidence_describes_refs [OF plain_refs_laws first_run(3) refl] by auto
qed

text \<open>
  C13. Evidence is kept until it is acknowledged. A step of a run keeps the evidence of a publication with
  its acknowledgement, up to the time of observation that is filled in later. There are two exceptions:
  evidence that is already acknowledged may go when it is not the head, and the step may be the acknowledgement
  of just this publication, which needs that its observers have completed and keeps the evidence of the head.
\<close>

theorem evidence_kept_until_acknowledged:
  assumes "ref_env_laws env" and "ref_run env s" and "ref_step env s s'"
    and "readAppliedPublication (sy_store s) i = Some p"
  shows "(\<exists>q. readAppliedPublication (sy_store s') i = Some q \<and> base_of q = base_of p \<and> ap_acknowledgedAt q = ap_acknowledgedAt p) \<or>
    rs_head (sy_store s') \<noteq> Some i \<and> ap_acknowledgedAt p \<noteq> None \<or>
    acknowledges env i p (sy_store s) (sy_store s') \<and>
      (rs_head (sy_store s') = Some i \<longrightarrow> (\<exists>q. readAppliedPublication (sy_store s') i = Some q \<and> base_of q = base_of p))"
proof -
  have ok: "system_ok env s" using ref_run_ok assms(1,2) by blast
  then have refs: "refs_ok (sy_store s)" by (simp add: system_ok_def store_ok_def)
  have p: "map_of (rs_publications (sy_store s)) i = Some p" using assms(4) by (simp add: readAppliedPublication_def)
  have same: "kept i p (sy_store s)" using p by (simp add: kept_def)
  have "kept i p (sy_store s') \<or> rs_head (sy_store s') \<noteq> Some i \<and> ap_acknowledgedAt p \<noteq> None \<or>
    acknowledges env i p (sy_store s) (sy_store s') \<and>
      (rs_head (sy_store s') = Some i \<longrightarrow> (\<exists>q. map_of (rs_publications (sy_store s')) i = Some q \<and> base_of q = base_of p))"
    using assms(3)
  proof cases
    case (committed t ev es now q st)
    then have "start_update (sy_store s) ev es = Inr Proceed" using ok by (simp add: system_ok_def)
    then show ?thesis using commit_kept [OF committed(4) refs p] committed(1) by auto
  next
    case (acknowledged now j writes x st)
    then have "rs_head st = rs_head (sy_store s)" using acknowledge_keeps(2) by blast
    then show ?thesis using acknowledge_kept [OF acknowledged(3) refs p] acknowledged(1) by auto
  next
    case (observed t j r q now writes x st)
    then show ?thesis using mark_kept [OF observed(5) refs p] by simp
  next
    case (restarted st)
    then have "same_refs st (sy_store s)" using ok durable_restart by (auto simp: system_ok_def)
    then show ?thesis using restarted same by (auto simp: start_system_def same_refs_def kept_def)
  qed (simp_all add: same)
  then show ?thesis by (simp add: kept_def readAppliedPublication_def)
qed

theorem evidence_kept_until_acknowledged_witness:
  "\<exists>q. readAppliedPublication (sy_store (committed_first\<lparr>sy_phase := None,
     sy_delivering := [(0, committed_result [first_entry], publicationFromEvidence (evidence_of no_refs first_evidence [first_entry] 7))]\<rparr>))
     (ascii ''p'') = Some q \<and> base_of q = evidence_of no_refs first_evidence [first_entry] 7"
proof -
  have c: "sy_phase committed_first = Some (Reporting 0 (committed_result [first_entry])
      (publicationFromEvidence (evidence_of no_refs first_evidence [first_entry] 7)))" "sy_delivering committed_first = []"
    "readAppliedPublication (sy_store committed_first) (ascii ''p'') = Some (evidence_of no_refs first_evidence [first_entry] 7)"
    by (simp_all add: committed_first_def gating_first_def commit_update_def Let_def start_system_def no_refs_def
        readAppliedPublication_def compact_def first_evidence_def)
  have b: "base_of (evidence_of no_refs first_evidence [first_entry] 7) = evidence_of no_refs first_evidence [first_entry] 7"
    by (simp add: base_of_def evidence_of_def)
  have times: "ap_acknowledgedAt (evidence_of no_refs first_evidence [first_entry] 7) = None"
    "ap_observersAppliedAt (evidence_of no_refs first_evidence [first_entry] 7) = None"
    by (simp_all add: evidence_of_def)
  show ?thesis
    using evidence_kept_until_acknowledged [OF plain_refs_laws first_run(3) ref_step.reported [OF c(1)] c(3)] b c(2) times
    by (auto simp: acknowledges_def simp del: ascii_simps)
qed

text \<open>
  C14. Replays are recognised exactly. In every run, a call under the id of a publication whose evidence is
  there never reaches the gate: it is answered with the stored result, and the listeners are called again
  unless they all completed, exactly when its events, its basis and its batch are the stored ones and the
  references still have the digest that the publication left; the head always qualifies. Every other call is an error.
\<close>

theorem replay_recognised:
  assumes "ref_env_laws env" and "ref_run env s" and "st = sy_store s"
    and "readAppliedPublication st (ei_publicationId ev) = Some p"
  shows "start_update st ev es \<noteq> Inr Proceed \<and>
    (start_update st ev es = Inr (replay_of p) \<longleftrightarrow> ap_previousEventId p = ei_previousEventId ev \<and>
      ap_publishedEventId p = ei_publishedEventId ev \<and> ap_basis p = ei_basis ev \<and> ap_entries p = es \<and>
      actual_basis st = ap_resultBasis p) \<and>
    (ok (start_update st ev es) \<longleftrightarrow> start_update st ev es = Inr (replay_of p)) \<and>
    actual_basis st \<in> (if rs_head st = Some (ei_publicationId ev) then {ap_resultBasis p} else UNIV)"
proof -
  have refs: "refs_ok st" using ref_run_ok [OF assms(2,1)] assms(3) by (simp add: system_ok_def store_ok_def)
  have p: "map_of (rs_publications st) (ei_publicationId ev) = Some p"
    using assms(4) by (simp add: readAppliedPublication_def)
  note known = start_known [OF p, of es]
  have "rs_head st = Some (ei_publicationId ev) \<Longrightarrow> actual_basis st = ap_resultBasis p"
    using refs_ok_head [OF refs] p by auto
  moreover have "start_update st ev es \<noteq> Inr Proceed" using known [of Proceed] by (auto simp: replay_of_def)
  ultimately show ?thesis using known by (auto simp: ok_iff)
qed

theorem replay_recognised_witness:
  "start_update (sy_store committed_first) first_evidence [first_entry] =
     Inr (replay_of (evidence_of no_refs first_evidence [first_entry] 7))"
proof -
  have i: "ei_publicationId first_evidence = ascii ''p''" by (simp add: first_evidence_def)
  have "readAppliedPublication (sy_store committed_first) (ei_publicationId first_evidence) =
      Some (evidence_of no_refs first_evidence [first_entry] 7)" "rs_head (sy_store committed_first) = Some (ei_publicationId first_evidence)"
    by (simp_all add: committed_first_def gating_first_def commit_update_def Let_def start_system_def no_refs_def
        readAppliedPublication_def compact_def)
  then show ?thesis
    using replay_recognised [OF plain_refs_laws first_run(3) refl, of first_evidence _ "[first_entry]"]
    by (simp add: evidence_of_def)
qed

text \<open>
  What a superseded publication loses: once the references have another digest, the publication that no
  listener has completed can neither be replayed, so that it is never delivered again, nor be acknowledged.
\<close>

theorem superseded_unobserved_stuck:
  assumes "readAppliedPublication st i = Some p" and "ap_observersAppliedAt p = None" and "actual_basis st \<noteq> ap_resultBasis p"
  shows "ei_publicationId ev = i \<Longrightarrow> \<not> ok (start_update st ev es)"
    and "acknowledgePublication env i now writes st = (Inl (ObserversPending i), st)"
  using assms start_known [of st ev p es]
  by (auto simp: ok_iff readAppliedPublication_def acknowledgePublication_def)

end
