(* ===== verification/SessionRegistry.thy ===== *)
theory SessionRegistry
  imports PrincipalKinds
begin

text \<open>
  The sessions of reconnecting callers (\<^verbatim>\<open>src/server/rpcServer/sessionRegistry.ts\<close>): what a server keeps
  for a caller between two connections, how long, and the bounded inbox. Timers are armed in the state with
  their due time; firing one is a call of the runtime. The clock is an argument, and the callback
  of an expiry is a list in the state.
\<close>

subsection \<open>State\<close>

record call_context =
  rc_callerId :: string
  rc_connectionId :: string

record 'm caller_session =
  cs_callerId :: string
  cs_callerKind :: caller_kind
  cs_createdAt :: int
  cs_lastConnectedAt :: int
  cs_disconnectedAt :: "int option"
  cs_live :: nat
  cs_dirty :: bool
  cs_timer :: "nat option"
  cs_inbox :: "'m list"
  cs_pending :: "(string, call_context) jsmap"

record 'm session_registry =
  sg_sessions :: "(string, 'm caller_session) jsmap"
  sg_capacity :: int
  sg_ttl :: "caller_kind \<Rightarrow> int"
  sg_timers :: "(nat, string \<times> int) jsmap"    \<comment> \<open>caller and due time of the armed timers\<close>
  sg_nextTimer :: nat
  sg_expired :: "(string \<times> caller_kind) list"

fun DEFAULT_TTL_MS :: "caller_kind \<Rightarrow> int" where
  "DEFAULT_TTL_MS CkPanel = 5 * 60000"
| "DEFAULT_TTL_MS CkClient = 15 * 60000"
| "DEFAULT_TTL_MS CkShell = 15 * 60000"
| "DEFAULT_TTL_MS CkServer = 30 * 60000"
| "DEFAULT_TTL_MS CkWorker = 5 * 60000"
| "DEFAULT_TTL_MS CkDO = 5 * 60000"
| "DEFAULT_TTL_MS CkExtension = 15 * 60000"
| "DEFAULT_TTL_MS CkAgent = 15 * 60000"

definition new_registry :: "int option \<Rightarrow> (caller_kind \<Rightarrow> int option) \<Rightarrow> 'm session_registry" where
  "new_registry capacity ttl = \<lparr>sg_sessions = [], sg_capacity = (case capacity of None \<Rightarrow> 256 | Some c \<Rightarrow> c),
     sg_ttl = (\<lambda>k. case ttl k of None \<Rightarrow> DEFAULT_TTL_MS k | Some t \<Rightarrow> t), sg_timers = [], sg_nextTimer = 0, sg_expired = []\<rparr>"

definition new_session :: "string \<Rightarrow> caller_kind \<Rightarrow> int \<Rightarrow> 'm caller_session" where
  "new_session callerId callerKind now = \<lparr>cs_callerId = callerId, cs_callerKind = callerKind, cs_createdAt = now,
     cs_lastConnectedAt = now, cs_disconnectedAt = None, cs_live = 0, cs_dirty = False, cs_timer = None, cs_inbox = [], cs_pending = []\<rparr>"

definition put_session :: "string \<Rightarrow> 'm caller_session \<Rightarrow> 'm session_registry \<Rightarrow> 'm session_registry" where
  "put_session c s g = g\<lparr>sg_sessions := jset c s (sg_sessions g)\<rparr>"

definition clearTimeout :: "nat option \<Rightarrow> 'm session_registry \<Rightarrow> 'm session_registry" where
  "clearTimeout t g = (case t of None \<Rightarrow> g | Some i \<Rightarrow> g\<lparr>sg_timers := jdel i (sg_timers g)\<rparr>)"

subsection \<open>Operations\<close>

definition hasSession :: "string \<Rightarrow> 'm session_registry \<Rightarrow> bool" where
  "hasSession c g = jhas (sg_sessions g) c"

definition getOrCreate :: "string \<Rightarrow> caller_kind \<Rightarrow> int \<Rightarrow> 'm session_registry \<Rightarrow> 'm caller_session \<times> 'm session_registry" where
  "getOrCreate c kind now g =
     (let s = (case map_of (sg_sessions g) c of None \<Rightarrow> new_session c kind now | Some s \<Rightarrow> s\<lparr>cs_callerKind := kind\<rparr>)
      in (s, put_session c s g))"

definition markConnected :: "string \<Rightarrow> caller_kind \<Rightarrow> int \<Rightarrow> 'm session_registry \<Rightarrow> bool \<times> 'm session_registry" where
  "markConnected c kind now g =
     (let (s, g1) = getOrCreate c kind now g;
          s' = s\<lparr>cs_timer := None, cs_live := cs_live s + 1, cs_lastConnectedAt := now, cs_disconnectedAt := None\<rparr>
      in (cs_dirty s', put_session c s' (clearTimeout (cs_timer s) g1)))"

definition markDisconnected :: "string \<Rightarrow> caller_kind \<Rightarrow> int \<Rightarrow> 'm session_registry \<Rightarrow> 'm session_registry" where
  "markDisconnected c kind now g =
     (let (s, g1) = getOrCreate c kind now g;
          s1 = s\<lparr>cs_live := cs_live s - 1\<rparr>
      in if cs_live s1 > 0 then put_session c s1 g1
         else (let i = sg_nextTimer g1;
                   g2 = clearTimeout (cs_timer s1) g1
               in put_session c (s1\<lparr>cs_disconnectedAt := Some now, cs_timer := Some i\<rparr>)
                 (g2\<lparr>sg_timers := jset i (c, now + sg_ttl g kind) (sg_timers g2), sg_nextTimer := i + 1\<rparr>)))"

text \<open>The callback of a timer, which fires when it is due.\<close>

definition fire_timer :: "nat \<Rightarrow> int \<Rightarrow> 'm session_registry \<Rightarrow> 'm session_registry" where
  "fire_timer i now g =
     (case map_of (sg_timers g) i of
        None \<Rightarrow> g
      | Some (c, due) \<Rightarrow>
          if now < due then g
          else (let g1 = g\<lparr>sg_timers := jdel i (sg_timers g)\<rparr> in
                case map_of (sg_sessions g) c of
                  None \<Rightarrow> g1
                | Some current \<Rightarrow>
                    if cs_live current > 0 then g1
                    else g1\<lparr>sg_sessions := jdel c (sg_sessions g1), sg_expired := sg_expired g1 @ [(c, cs_callerKind current)]\<rparr>))"

definition enqueue :: "string \<Rightarrow> 'm \<Rightarrow> 'm session_registry \<Rightarrow> bool \<times> 'm session_registry" where
  "enqueue c m g =
     (case map_of (sg_sessions g) c of
        None \<Rightarrow> (False, g)
      | Some s \<Rightarrow>
          if int (length (cs_inbox s)) \<ge> sg_capacity g
          then (False, put_session c (s\<lparr>cs_inbox := drop 1 (cs_inbox s), cs_dirty := True\<rparr>) g)
          else (True, put_session c (s\<lparr>cs_inbox := cs_inbox s @ [m]\<rparr>) g))"

text \<open>The envelope of a response; its two caller records are \<open>fromId\<close> with the kind \<open>unknown\<close>.\<close>

record 'r response_envelope =
  re_from :: string
  re_target :: string
  re_caller :: "string \<times> string"
  re_provenance :: "(string \<times> string) list"
  re_message :: 'r

definition enqueueResponse :: "string \<Rightarrow> string \<Rightarrow> 'r \<Rightarrow> 'r response_envelope session_registry \<Rightarrow>
    bool \<times> 'r response_envelope session_registry" where
  "enqueueResponse c fromId response g =
     enqueue c \<lparr>re_from = fromId, re_target = c, re_caller = (fromId, ''unknown''),
       re_provenance = [(fromId, ''unknown'')], re_message = response\<rparr> g"

definition takeInbox :: "string \<Rightarrow> 'm session_registry \<Rightarrow> 'm list \<times> 'm session_registry" where
  "takeInbox c g =
     (case map_of (sg_sessions g) c of
        None \<Rightarrow> ([], g)
      | Some s \<Rightarrow> if cs_inbox s = [] then ([], g) else (cs_inbox s, put_session c (s\<lparr>cs_inbox := []\<rparr>) g))"

definition clearInbox :: "string \<Rightarrow> 'm session_registry \<Rightarrow> 'm session_registry" where
  "clearInbox c g =
     (case map_of (sg_sessions g) c of
        None \<Rightarrow> g
      | Some s \<Rightarrow> put_session c (s\<lparr>cs_inbox := [], cs_dirty := False\<rparr>) g)"

definition recordPendingResponse :: "string \<Rightarrow> caller_kind \<Rightarrow> string \<Rightarrow> call_context \<Rightarrow> int \<Rightarrow> 'm session_registry \<Rightarrow> 'm session_registry" where
  "recordPendingResponse c kind requestId origin now g =
     (let (s, g1) = getOrCreate c kind now g in put_session c (s\<lparr>cs_pending := jset requestId origin (cs_pending s)\<rparr>) g1)"

definition takePendingResponse :: "string \<Rightarrow> string \<Rightarrow> 'm session_registry \<Rightarrow> call_context option \<times> 'm session_registry" where
  "takePendingResponse c requestId g =
     (case map_of (sg_sessions g) c of
        None \<Rightarrow> (None, g)
      | Some s \<Rightarrow>
          (case map_of (cs_pending s) requestId of
             None \<Rightarrow> (None, g)
           | Some origin \<Rightarrow> (Some origin, put_session c (s\<lparr>cs_pending := jdel requestId (cs_pending s)\<rparr>) g)))"

definition retire_session :: "string \<Rightarrow> 'm session_registry \<Rightarrow> caller_kind option \<times> 'm session_registry" where
  "retire_session c g =
     (case map_of (sg_sessions g) c of
        None \<Rightarrow> (None, g)
      | Some s \<Rightarrow> (let g1 = clearTimeout (cs_timer s) g in
          (Some (cs_callerKind s), g1\<lparr>sg_sessions := jdel c (sg_sessions g1)\<rparr>)))"

definition clear_sessions :: "'m session_registry \<Rightarrow> 'm session_registry" where
  "clear_sessions g = (fold (\<lambda>s. clearTimeout (cs_timer s)) (jvalues (sg_sessions g)) g)\<lparr>sg_sessions := []\<rparr>"

subsection \<open>Runs\<close>

datatype 'm registry_call =
    Connect string caller_kind int
  | Disconnect string caller_kind int
  | Fire nat int
  | Enqueue string 'm
  | TakeInbox string
  | ClearInbox string
  | RecordPending string caller_kind string call_context int
  | TakePending string string
  | Retire string
  | Clear

fun perform_call :: "'m registry_call \<Rightarrow> 'm session_registry \<Rightarrow> 'm session_registry" where
  "perform_call (Connect c k now) g = snd (markConnected c k now g)"
| "perform_call (Disconnect c k now) g = markDisconnected c k now g"
| "perform_call (Fire i now) g = fire_timer i now g"
| "perform_call (Enqueue c m) g = snd (enqueue c m g)"
| "perform_call (TakeInbox c) g = snd (takeInbox c g)"
| "perform_call (ClearInbox c) g = clearInbox c g"
| "perform_call (RecordPending c k r ctx now) g = recordPendingResponse c k r ctx now g"
| "perform_call (TakePending c r) g = snd (takePendingResponse c r g)"
| "perform_call (Retire c) g = snd (retire_session c g)"
| "perform_call Clear g = clear_sessions g"

definition registry_run :: "'m registry_call list \<Rightarrow> 'm session_registry \<Rightarrow> 'm session_registry" where
  "registry_run calls g = fold perform_call calls g"

text \<open>The messages of a caller that were accepted, in order.\<close>

fun accepted :: "string \<Rightarrow> 'm registry_call list \<Rightarrow> 'm session_registry \<Rightarrow> 'm list" where
  "accepted c [] g = []"
| "accepted c (x # xs) g =
     (case x of Enqueue d m \<Rightarrow> if d = c \<and> fst (enqueue d m g) then [m] else [] | _ \<Rightarrow> []) @
     accepted c xs (perform_call x g)"

subsection \<open>Invariant\<close>

text \<open>
  An armed timer belongs to the one session that holds it, which has no connection and is due after
  the time to live of its last disconnection; the inbox is within its capacity.
\<close>

definition session_ok :: "'m session_registry \<Rightarrow> string \<Rightarrow> 'm caller_session \<Rightarrow> bool" where
  "session_ok g c s \<longleftrightarrow> int (length (cs_inbox s)) \<le> max 0 (sg_capacity g) \<and>
     (\<forall>i. cs_timer s = Some i \<longrightarrow> cs_live s = 0 \<and>
        (\<exists>d k. cs_disconnectedAt s = Some d \<and> map_of (sg_timers g) i = Some (c, d + sg_ttl g k)))"

definition timer_ok :: "'m session_registry \<Rightarrow> nat \<Rightarrow> string \<Rightarrow> bool" where
  "timer_ok g i c \<longleftrightarrow> i < sg_nextTimer g \<and> (\<exists>s. map_of (sg_sessions g) c = Some s \<and> cs_timer s = Some i)"

definition registry_ok :: "'m session_registry \<Rightarrow> bool" where
  "registry_ok g \<longleftrightarrow> jwf (sg_sessions g) \<and>
     (\<forall>c s. map_of (sg_sessions g) c = Some s \<longrightarrow> session_ok g c s) \<and>
     (\<forall>i c due. map_of (sg_timers g) i = Some (c, due) \<longrightarrow> timer_ok g i c)"

lemma registry_okD:
  assumes "registry_ok g"
  shows "jwf (sg_sessions g)" "map_of (sg_sessions g) c = Some s \<Longrightarrow> session_ok g c s"
    "map_of (sg_timers g) i = Some (c, due) \<Longrightarrow> timer_ok g i c"
  using assms by (auto simp: registry_ok_def)

lemma registry_okI:
  assumes "jwf (sg_sessions g)" and "\<And>c s. map_of (sg_sessions g) c = Some s \<Longrightarrow> session_ok g c s"
    and "\<And>i c due. map_of (sg_timers g) i = Some (c, due) \<Longrightarrow> timer_ok g i c"
  shows "registry_ok g"
  using assms by (auto simp: registry_ok_def)

lemma put_simps [simp]:
  "sg_sessions (put_session c s g) = jset c s (sg_sessions g)" "sg_timers (put_session c s g) = sg_timers g"
  "sg_capacity (put_session c s g) = sg_capacity g" "sg_ttl (put_session c s g) = sg_ttl g"
  "sg_nextTimer (put_session c s g) = sg_nextTimer g"
  by (simp_all add: put_session_def)

lemma clear_timeout_simps [simp]:
  "sg_sessions (clearTimeout t g) = sg_sessions g" "sg_capacity (clearTimeout t g) = sg_capacity g"
  "sg_ttl (clearTimeout t g) = sg_ttl g" "sg_nextTimer (clearTimeout t g) = sg_nextTimer g"
  "map_of (sg_timers (clearTimeout t g)) i = (if t = Some i then None else map_of (sg_timers g) i)"
  by (simp_all add: clearTimeout_def split: option.splits)

text \<open>A session that is written back with its timer, or that is new and has none.\<close>

lemma put_ok:
  assumes "registry_ok g" and "session_ok g c s"
    and "case map_of (sg_sessions g) c of None \<Rightarrow> cs_timer s = None | Some r \<Rightarrow> cs_timer s = cs_timer r"
  shows "registry_ok (put_session c s g)"
proof (rule registry_okI)
  fix d r
  assume "map_of (sg_sessions (put_session c s g)) d = Some r"
  then show "session_ok (put_session c s g) d r"
    using assms(2) registry_okD(2) [OF assms(1), of d r] by (auto simp: session_ok_def split: if_splits)
next
  fix i d due
  assume "map_of (sg_timers (put_session c s g)) i = Some (d, due)"
  then have "timer_ok g i d" using registry_okD(3) [OF assms(1)] by simp
  then show "timer_ok (put_session c s g) i d" using assms(3) by (auto simp: timer_ok_def)
qed (simp add: registry_okD(1) [OF assms(1)])

lemma create_session_ok:
  assumes "registry_ok g" and "getOrCreate c k now g = (s, g')"
  shows "registry_ok g'" "map_of (sg_sessions g') c = Some s" "session_ok g' c s" "sg_ttl g' = sg_ttl g" "sg_timers g' = sg_timers g"
    "sg_nextTimer g' = sg_nextTimer g" "sg_capacity g' = sg_capacity g"
proof -
  have g': "g' = put_session c s g" and
    s: "s = (case map_of (sg_sessions g) c of None \<Rightarrow> new_session c k now | Some r \<Rightarrow> r\<lparr>cs_callerKind := k\<rparr>)"
    using assms(2) by (auto simp: getOrCreate_def Let_def)
  have "session_ok g c s"
    using registry_okD(2) [OF assms(1), of c] by (auto simp: s session_ok_def new_session_def split: option.splits)
  moreover have "case map_of (sg_sessions g) c of None \<Rightarrow> cs_timer s = None | Some r \<Rightarrow> cs_timer s = cs_timer r"
    by (simp add: s new_session_def split: option.splits)
  ultimately show "registry_ok g'" unfolding g' using assms(1) by (intro put_ok)
  show "session_ok g' c s" using \<open>session_ok g c s\<close> by (simp add: session_ok_def g')
qed (use assms(2) in \<open>auto simp: getOrCreate_def Let_def\<close>)

text \<open>A session whose timer is cleared.\<close>

lemma untimed_ok:
  assumes "registry_ok g" and "map_of (sg_sessions g) c = Some s" and "cs_timer s' = None" and "cs_inbox s' = cs_inbox s"
  shows "registry_ok (put_session c s' (clearTimeout (cs_timer s) g))"
proof -
  have armed: "\<exists>due. map_of (sg_timers g) i = Some (d, due)" if "map_of (sg_sessions g) d = Some r" "cs_timer r = Some i" for d r i
    using registry_okD(2) [OF assms(1) that(1)] that(2) by (auto simp: session_ok_def)
  show ?thesis
  proof (rule registry_okI)
    fix d r
    assume r: "map_of (sg_sessions (put_session c s' (clearTimeout (cs_timer s) g))) d = Some r"
    show "session_ok (put_session c s' (clearTimeout (cs_timer s) g)) d r"
    proof (cases "d = c")
      case True
      then show ?thesis using r assms(3,4) registry_okD(2) [OF assms(1,2)] by (simp add: session_ok_def)
    next
      case False
      then have "map_of (sg_sessions g) d = Some r" using r by simp
      moreover from this have "cs_timer r \<noteq> cs_timer s" if "cs_timer r \<noteq> None"
        using armed [of d r] armed [OF assms(2)] that False by fastforce
      ultimately show ?thesis using registry_okD(2) [OF assms(1), of d r] by (auto simp: session_ok_def)
    qed
  next
    fix i d due
    assume "map_of (sg_timers (put_session c s' (clearTimeout (cs_timer s) g))) i = Some (d, due)"
    then have i: "cs_timer s \<noteq> Some i" "timer_ok g i d"
      using registry_okD(3) [OF assms(1)] by (auto split: if_splits)
    then have "d \<noteq> c" using assms(2) by (auto simp: timer_ok_def)
    then show "timer_ok (put_session c s' (clearTimeout (cs_timer s) g)) i d" using i(2) by (simp add: timer_ok_def)
  qed (simp add: registry_okD(1) [OF assms(1)])
qed

lemma connected_ok: "registry_ok g \<Longrightarrow> registry_ok (snd (markConnected c k now g))"
proof -
  assume ok: "registry_ok g"
  obtain s g1 where c: "getOrCreate c k now g = (s, g1)" by fastforce
  note g1 = create_session_ok [OF ok c]
  show ?thesis using untimed_ok [OF g1(1,2)] by (simp add: markConnected_def c Let_def)
qed

lemma disconnected_ok: "registry_ok g \<Longrightarrow> registry_ok (markDisconnected c k now g)"
proof -
  assume ok: "registry_ok g"
  obtain s g1 where c: "getOrCreate c k now g = (s, g1)" by fastforce
  note g1 = create_session_ok [OF ok c]
  show ?thesis
  proof (cases "cs_live s - 1 > 0")
    case True
    then have "cs_timer s = None" using g1(3) by (auto simp: session_ok_def)
    then show ?thesis using True g1(1,2,3) by (simp add: markDisconnected_def c Let_def put_ok session_ok_def)
  next
    case False
    let ?s = "s\<lparr>cs_live := cs_live s - 1, cs_timer := None\<rparr>" and ?i = "sg_nextTimer g1"
    let ?g = "put_session c ?s (clearTimeout (cs_timer s) g1)"
    let ?t = "s\<lparr>cs_live := cs_live s - 1, cs_disconnectedAt := Some now, cs_timer := Some ?i\<rparr>"
    let ?h = "put_session c ?t ((clearTimeout (cs_timer s) g1)\<lparr>
        sg_timers := jset ?i (c, now + sg_ttl g k) (sg_timers (clearTimeout (cs_timer s) g1)), sg_nextTimer := ?i + 1\<rparr>)"
    have h: "markDisconnected c k now g = ?h" using False by (simp add: markDisconnected_def c Let_def)
    have ok': "registry_ok ?g" by (rule untimed_ok [OF g1(1,2)]) simp_all
    have fresh: "map_of (sg_timers ?g) ?i = None"
      using registry_okD(3) [OF ok', of ?i] by (cases "map_of (sg_timers ?g) ?i") (auto simp: timer_ok_def)
    show ?thesis unfolding h
    proof (rule registry_okI)
      fix d r
      assume r: "map_of (sg_sessions ?h) d = Some r"
      show "session_ok ?h d r"
      proof (cases "d = c")
        case True
        then show ?thesis using r False g1(3) by (auto simp: session_ok_def g1(4,7))
      next
        case False
        then have "session_ok ?g d r" using r registry_okD(2) [OF ok', of d r] by simp
        then show ?thesis using fresh by (fastforce simp: session_ok_def)
      qed
    next
      fix i d due
      assume i: "map_of (sg_timers ?h) i = Some (d, due)"
      show "timer_ok ?h i d"
      proof (cases "i = ?i")
        case False
        then have "timer_ok ?g i d" using i registry_okD(3) [OF ok', of i d due] by simp
        then show ?thesis by (auto simp: timer_ok_def split: if_splits)
      qed (use i in \<open>auto simp: timer_ok_def\<close>)
    qed (use registry_okD(1) [OF g1(1)] in simp)
  qed
qed

text \<open>A session that goes with its timer.\<close>

lemma dropped_ok:
  assumes "registry_ok g" and "map_of (sg_sessions g) c = Some s"
  shows "registry_ok ((clearTimeout (cs_timer s) g)\<lparr>sg_sessions := jdel c (sg_sessions g)\<rparr>)" (is "registry_ok ?h")
proof -
  let ?g = "put_session c (s\<lparr>cs_timer := None\<rparr>) (clearTimeout (cs_timer s) g)"
  have ok: "registry_ok ?g" by (rule untimed_ok [OF assms]) simp_all
  show ?thesis
  proof (rule registry_okI)
    fix d r assume "map_of (sg_sessions ?h) d = Some r"
    then show "session_ok ?h d r" using registry_okD(2) [OF ok, of d r] by (auto simp: session_ok_def split: if_splits)
  next
    fix i d due assume "map_of (sg_timers ?h) i = Some (d, due)"
    then have "timer_ok ?g i d" using registry_okD(3) [OF ok, of i d due] by simp
    then show "timer_ok ?h i d" by (auto simp: timer_ok_def split: if_splits)
  qed (simp add: registry_okD(1) [OF assms(1)])
qed

lemma retired_ok: "registry_ok g \<Longrightarrow> registry_ok (snd (retire_session c g))"
  using dropped_ok by (auto simp: retire_session_def Let_def split: option.splits)

lemma registry_ok_expired [simp]: "registry_ok (g\<lparr>sg_expired := e\<rparr>) \<longleftrightarrow> registry_ok g"
  by (simp add: registry_ok_def session_ok_def timer_ok_def)

lemma timer_session:
  assumes "registry_ok g" and "map_of (sg_timers g) i = Some (c, due)"
  obtains s d k where "map_of (sg_sessions g) c = Some s" "cs_timer s = Some i" "cs_live s = 0"
    "cs_disconnectedAt s = Some d" "due = d + sg_ttl g k"
  using registry_okD(3) [OF assms] registry_okD(2) [OF assms(1), of c] assms(2) by (auto simp: timer_ok_def session_ok_def)

lemma fired_ok: "registry_ok g \<Longrightarrow> registry_ok (fire_timer i now g)"
proof (cases "map_of (sg_timers g) i")
  case (Some p)
  assume ok: "registry_ok g"
  obtain c due where p: "p = (c, due)" by (cases p)
  obtain s where s: "map_of (sg_sessions g) c = Some s" "cs_timer s = Some i" "cs_live s = 0"
    using timer_session [OF ok] Some p by metis
  have "g\<lparr>sg_timers := jdel i (sg_timers g), sg_sessions := jdel c (sg_sessions g)\<rparr> =
      (clearTimeout (cs_timer s) g)\<lparr>sg_sessions := jdel c (sg_sessions g)\<rparr>"
    by (simp add: clearTimeout_def s(2))
  then show ?thesis
    using Some p s dropped_ok [OF ok s(1)] ok by (simp add: fire_timer_def Let_def)
qed (simp add: fire_timer_def)

lemma enqueued_ok: "registry_ok g \<Longrightarrow> registry_ok (snd (enqueue c m g))"
  using registry_okD(2) [of g c]
  by (auto simp: enqueue_def session_ok_def split: option.splits intro!: put_ok)

lemma taken_ok: "registry_ok g \<Longrightarrow> registry_ok (snd (takeInbox c g))"
  using registry_okD(2) [of g c] by (auto simp: takeInbox_def session_ok_def split: option.splits intro!: put_ok)

lemma cleared_inbox_ok: "registry_ok g \<Longrightarrow> registry_ok (clearInbox c g)"
  using registry_okD(2) [of g c] by (auto simp: clearInbox_def session_ok_def split: option.splits intro!: put_ok)

lemma recorded_ok: "registry_ok g \<Longrightarrow> registry_ok (recordPendingResponse c k r ctx now g)"
proof -
  assume ok: "registry_ok g"
  obtain s g1 where c: "getOrCreate c k now g = (s, g1)" by fastforce
  note g1 = create_session_ok [OF ok c]
  show ?thesis using g1(1,2,3) by (auto simp: recordPendingResponse_def c session_ok_def intro!: put_ok)
qed

lemma taken_pending_ok: "registry_ok g \<Longrightarrow> registry_ok (snd (takePendingResponse c r g))"
  using registry_okD(2) [of g c] by (auto simp: takePendingResponse_def session_ok_def split: option.splits intro!: put_ok)

lemma fold_clear_timers:
  "map_of (sg_timers (fold (\<lambda>s. clearTimeout (cs_timer s)) ss g)) i =
     (if Some i \<in> cs_timer ` set ss then None else map_of (sg_timers g) i)"
  by (induction ss arbitrary: g) auto

lemma cleared_ok: "registry_ok g \<Longrightarrow> registry_ok (clear_sessions g)"
proof -
  assume ok: "registry_ok g"
  have "map_of (sg_timers (clear_sessions g)) i = None" for i
  proof (cases "map_of (sg_timers g) i")
    case (Some p)
    then obtain c due s where "p = (c, due)" "map_of (sg_sessions g) c = Some s" "cs_timer s = Some i"
      using timer_session [OF ok] by (metis surj_pair)
    then have "Some i \<in> cs_timer ` set (jvalues (sg_sessions g))" by (metis image_eqI map_of_SomeD set_map snd_conv)
    then show ?thesis by (simp add: clear_sessions_def fold_clear_timers)
  qed (simp add: clear_sessions_def fold_clear_timers)
  then show ?thesis by (intro registry_okI) (auto simp: clear_sessions_def)
qed

lemma new_registry_ok: "registry_ok (new_registry capacity ttl)"
  by (simp add: registry_ok_def new_registry_def)

lemma perform_ok: "registry_ok g \<Longrightarrow> registry_ok (perform_call x g)"
  by (cases x) (simp_all add: connected_ok disconnected_ok fired_ok enqueued_ok taken_ok cleared_inbox_ok recorded_ok
      taken_pending_ok retired_ok cleared_ok)

lemma registry_run_ok: "registry_ok g \<Longrightarrow> registry_ok (registry_run calls g)"
  unfolding registry_run_def by (induction calls arbitrary: g) (simp_all add: perform_ok)

subsection \<open>Properties\<close>

text \<open>The calls that hand out or drop what is queued for a caller.\<close>

definition empties :: "string \<Rightarrow> 'm registry_call \<Rightarrow> bool" where
  "empties c x \<longleftrightarrow> (case x of TakeInbox d \<Rightarrow> d = c | ClearInbox d \<Rightarrow> d = c | Retire d \<Rightarrow> d = c | Clear \<Rightarrow> True | Fire _ _ \<Rightarrow> True | _ \<Rightarrow> False)"

lemma perform_inbox:
  assumes "map_of (sg_sessions g) c = Some s" and "\<not> empties c x"
  shows "\<exists>s'. map_of (sg_sessions (perform_call x g)) c = Some s' \<and> (cs_dirty s \<longrightarrow> cs_dirty s') \<and>
    (cs_dirty s' \<or> cs_inbox s' = cs_inbox s @ accepted c [x] g)"
proof (cases x)
  case (Connect d k now)
  then show ?thesis using assms by (auto simp: markConnected_def getOrCreate_def Let_def)
next
  case (Disconnect d k now)
  then show ?thesis using assms by (auto simp: markDisconnected_def getOrCreate_def Let_def)
next
  case (Enqueue d m)
  then show ?thesis using assms by (auto simp: enqueue_def split: option.splits)
next
  case (TakeInbox d)
  then show ?thesis using assms by (auto simp: empties_def takeInbox_def split: option.splits)
next
  case (ClearInbox d)
  then show ?thesis using assms by (auto simp: empties_def clearInbox_def split: option.splits)
next
  case (RecordPending d k r ctx now)
  then show ?thesis using assms by (auto simp: recordPendingResponse_def getOrCreate_def Let_def)
next
  case (TakePending d r)
  then show ?thesis using assms by (auto simp: takePendingResponse_def split: option.splits)
next
  case (Retire d)
  then show ?thesis using assms by (auto simp: empties_def retire_session_def Let_def split: option.splits)
qed (use assms in \<open>simp_all add: empties_def\<close>)

lemma run_inbox:
  "map_of (sg_sessions g) c = Some s \<Longrightarrow> \<forall>x \<in> set calls. \<not> empties c x \<Longrightarrow>
     \<exists>s'. map_of (sg_sessions (registry_run calls g)) c = Some s' \<and> (cs_dirty s \<longrightarrow> cs_dirty s') \<and>
       (cs_dirty s' \<or> cs_inbox s' = cs_inbox s @ accepted c calls g)"
proof (induction calls arbitrary: g s)
  case (Cons x calls)
  obtain s1 where s1: "map_of (sg_sessions (perform_call x g)) c = Some s1" "cs_dirty s \<longrightarrow> cs_dirty s1"
    "cs_dirty s1 \<or> cs_inbox s1 = cs_inbox s @ accepted c [x] g"
    using perform_inbox [OF Cons.prems(1), of x] Cons.prems(2) by auto
  from Cons.IH [OF s1(1)] Cons.prems(2) s1(2,3) show ?case by (fastforce simp: registry_run_def)
qed (simp add: registry_run_def)

text \<open>
  C29. No message is lost unnoticed. Between two calls that empty it, the inbox of a caller hands out exactly the
  messages that were accepted for it, in order, or the session is marked dirty, which the next connection
  is told; it never grows over its capacity.
\<close>

theorem session_inbox_exact:
  assumes "g = registry_run earlier (new_registry capacity ttl)" and "map_of (sg_sessions g) c = Some s"
    and "\<forall>x \<in> set calls. \<not> empties c x"
  shows "\<exists>s'. map_of (sg_sessions (registry_run calls g)) c = Some s' \<and>
    (cs_dirty s' \<and> fst (markConnected c k now (registry_run calls g)) \<or>
     fst (takeInbox c (registry_run calls g)) = cs_inbox s @ accepted c calls g) \<and>
    int (length (cs_inbox s')) \<le> max 0 (sg_capacity (registry_run calls g))"
proof -
  have "registry_ok (registry_run calls g)"
    unfolding assms(1) by (intro registry_run_ok new_registry_ok)
  moreover obtain s' where "map_of (sg_sessions (registry_run calls g)) c = Some s'"
    "cs_dirty s' \<or> cs_inbox s' = cs_inbox s @ accepted c calls g"
    using run_inbox [OF assms(2,3)] by blast
  ultimately show ?thesis
    using registry_okD(2) [of "registry_run calls g" c s']
    by (auto simp: session_ok_def takeInbox_def markConnected_def getOrCreate_def Let_def)
qed

theorem session_inbox_exact_witness:
  "let g = registry_run [Connect ''c'' CkShell 1] (new_registry None (\<lambda>_. None));
       h = registry_run [Enqueue ''c'' 7, Enqueue ''c'' (8 :: int)] g
   in fst (takeInbox ''c'' h) = [7, 8] \<or> fst (markConnected ''c'' CkShell 2 h)"
proof -
  let ?g = "registry_run [Connect ''c'' CkShell 1] (new_registry None (\<lambda>_. None)) :: int session_registry"
  have s: "map_of (sg_sessions ?g) ''c'' = Some ((new_session ''c'' CkShell 1)\<lparr>cs_live := 1\<rparr>)"
    and a: "accepted ''c'' [Enqueue ''c'' 7, Enqueue ''c'' 8] ?g = [7, 8]"
    by (simp_all add: registry_run_def new_registry_def markConnected_def getOrCreate_def new_session_def clearTimeout_def
        put_session_def enqueue_def Let_def)
  have "cs_inbox ((new_session ''c'' CkShell 1)\<lparr>cs_live := 1\<rparr>) = ([] :: int list)" by (simp add: new_session_def)
  then show ?thesis
    using session_inbox_exact [OF refl s, of "[Enqueue ''c'' 7, Enqueue ''c'' 8]" CkShell 2] a
    unfolding Let_def by (auto simp: empties_def)
qed

text \<open>
  A session outlives its connections by its time to live. After any calls, a session goes away only when
  its caller is retired, when the registry is cleared, or when its timer fires: then it has no connection
  and the time to live of a kind has passed since its last one was closed.
\<close>

theorem session_lives_until_ttl:
  assumes "g = registry_run earlier (new_registry capacity ttl)" and "map_of (sg_sessions g) c = Some s"
    and "\<not> hasSession c (perform_call x g)"
  shows "x = Retire c \<or> x = Clear \<or> (\<exists>i now d k. x = Fire i now \<and> cs_live s = 0 \<and> cs_disconnectedAt s = Some d \<and>
    d + sg_ttl g k \<le> now)"
proof (cases "\<exists>i now. x = Fire i now")
  case True
  then obtain i now where x: "x = Fire i now" by blast
  have ok: "registry_ok g" unfolding assms(1) by (intro registry_run_ok new_registry_ok)
  obtain due where t: "map_of (sg_timers g) i = Some (c, due)" "due \<le> now"
    using assms(2,3) by (auto simp: x hasSession_def jhas_def fire_timer_def Let_def split: option.splits if_splits)
  obtain r d k where "map_of (sg_sessions g) c = Some r" "cs_live r = 0" "cs_disconnectedAt r = Some d" "due = d + sg_ttl g k"
    using t(1) by (rule timer_session [OF ok])
  then show ?thesis using t(2) assms(2) x by auto
next
  case False
  have "empties c x"
    using perform_inbox [OF assms(2), of x] assms(3) by (auto simp: hasSession_def jhas_def)
  then consider "x = Retire c" | "x = Clear" | "x = TakeInbox c" | "x = ClearInbox c"
    using False by (auto simp: empties_def split: registry_call.splits)
  then show ?thesis
    using assms(2,3) by cases (auto simp: hasSession_def jhas_def takeInbox_def clearInbox_def split: if_splits)
qed

end
