(* ===== verification/Spec2Isabelle.thy ===== *)
theory Spec2Isabelle
  imports EntityCache PrincipalKinds TokenManager ConnectionGrants LeaseTracker LeaseContracts
    IrohFraming StreamMux RecoveryCoordinator SnapshotDigest Worktree LineDiff TaskAuthority TemplateTree TemplateDeps
    AuthorityLaws AuthorityUse GrantStoreTx AcquisitionDelivery
    WorkspacePaths RefStoreProps SessionRegistry
begin

text \<open>
  Verification of the core of Vibestudio, a host for workspaces of panels, agents and services.
  Definitions are translated from the TypeScript under \<^verbatim>\<open>src/\<close>; paths below are relative to it.

  \<^bold>\<open>The program and how its parts meet.\<close> A server process holds the runtime entities of a workspace
  and decides which host shows which panel; clients reach it over one framed transport; every
  call is authorized against stored grants; trees of files are content-addressed and composed from
  templates.

  \<^item> Runtime entities. \<open>EntityCache\<close> mirrors the entity records (\<^verbatim>\<open>packages/shared/src/runtime/entityCache.ts\<close>,
    \<^verbatim>\<open>entitySpec.ts\<close>), with the kinds of principals in \<open>PrincipalKinds\<close>. Three services read it:
    \<open>TokenManager\<close> (bearer tokens), \<open>ConnectionGrants\<close> (one-time connection credentials) and
    \<open>TaskAuthority\<close> (\<^verbatim>\<open>src/server/services/taskAuthorityRegistry.ts\<close>, with the hash of
    \<^verbatim>\<open>packages/trajectory-identity\<close>).
  \<^item> Panels. \<open>PanelTypes\<close> holds ids, leases and attempts; \<open>PanelAttempts\<close>, \<open>PanelLeases\<close>, \<open>PanelRoutes\<close> and
    \<open>PanelViews\<close> are the operations of \<^verbatim>\<open>src/server/panelRuntimeCoordinator.ts\<close> over one state record;
    \<open>AttemptLife\<close>, \<open>PanelRuns\<close>, \<open>LeaseLife\<close> and \<open>LeaseContracts\<close> prove what every run keeps. \<open>LeaseTracker\<close>
    is the other end, the panel host that follows the leases
    (\<^verbatim>\<open>packages/shared/src/panel/leaseTracker.ts\<close>).
  \<^item> Transport. \<open>Bytes\<close> (big-endian words and the locale of self-delimiting frame formats),
    \<open>IrohFraming\<close> (\<^verbatim>\<open>packages/iroh-transport/src/framing.ts\<close>), \<open>StreamCodec\<close>, \<open>FramedStream\<close> and
    \<open>StreamMux\<close> (\<^verbatim>\<open>packages/rpc/src/protocol/streamCodec.ts\<close>), \<open>RecoveryCoordinator\<close>
    (\<^verbatim>\<open>packages/rpc/src/protocol/recoveryCoordinator.ts\<close>), \<open>SessionRegistry\<close> (what the server keeps for a
    caller between two connections, \<^verbatim>\<open>src/server/rpcServer/sessionRegistry.ts\<close>).
  \<^item> Authority. \<open>AuthorityScopes\<close> and \<open>AuthorityTypes\<close> are the vocabulary, \<open>AuthorityEval\<close> the decision
    (\<^verbatim>\<open>packages/shared/src/authorization.ts\<close>, \<^verbatim>\<open>authorityRequirements.ts\<close>, \<^verbatim>\<open>packages/rpc/src/authority.ts\<close>),
    \<open>AuthorityLaws\<close> its meaning. \<open>GrantStore\<close>, \<open>GrantStoreOps\<close>, \<open>GrantStoreSteps\<close>, \<open>GrantStoreLaws\<close> and
    \<open>GrantStoreTx\<close> are the tables of consent (\<^verbatim>\<open>src/server/services/capabilityGrantStore.ts\<close>) and the
    nested transactions over them; \<open>AuthorityUse\<close> joins both as the dispatcher does.
    \<open>SharedJson\<close> (\<^verbatim>\<open>packages/shared/src/canonicalJson.ts\<close>, \<^verbatim>\<open>wireValues.ts\<close>) is the text under authority
    digests. \<open>AcquisitionStore\<close>, \<open>AcquisitionOps\<close> and \<open>AcquisitionLife\<close> are the asks for authority that
    wait for a decision (\<^verbatim>\<open>src/server/services/authorityAcquisitionStore.ts\<close>), in the database and the
    transactions of the grant store; \<open>AcquisitionLaws\<close>, \<open>AcquisitionRuns\<close>, \<open>AcquisitionFinal\<close> and
    \<open>AcquisitionProps\<close> hold their invariant and properties, and \<open>AcquisitionDelivery\<close> the visit of due
    receipts after a restart (\<^verbatim>\<open>acquisitionCoordinator.ts\<close>).
  \<^item> Content. \<open>Utf16\<close> (strings, sort keys, UTF-8), \<open>CanonicalJson\<close>, \<open>Sha256\<close>, \<open>SnapshotDigest\<close> and
    \<open>Worktree\<close> are \<^verbatim>\<open>packages/content-addressing\<close>; \<open>LineDiff\<close> is \<^verbatim>\<open>packages/shared/src/lineDiff.ts\<close>;
    \<open>TemplateTree\<close> and \<open>TemplateDeps\<close> are the closure, composition and dependency resolution of
    templates (\<^verbatim>\<open>packages/workspace\<close>).
  \<^item> Workspace. \<open>WorkspacePaths\<close> has the names of repositories and units
    (\<^verbatim>\<open>packages/shared/src/runtime/entitySpec.ts\<close>, \<^verbatim>\<open>packages/workspace-contracts/src/sourceDirs.ts\<close>).
    \<open>RefStore\<close> and \<open>RefStoreOps\<close> are the protected references (\<^verbatim>\<open>src/server/services/protectedRefStore.ts\<close>),
    whose batches name such repositories and whose digests are canonical JSON under SHA-256;
    \<open>RefStoreLaws\<close> reads the written file back, \<open>RefStoreRuns\<close> interleaves the serialized updates
    (\<^verbatim>\<open>packages/shared/src/keyedSerializer.ts\<close>) with acknowledgements and restarts, \<open>RefStoreProps\<close> has the
    properties.

  \<^bold>\<open>Conventions.\<close> \<open>Prelude\<close> has the insertion-ordered map of the language, results of code that throws
  (\<open>Inl\<close> is the error) and the shared lemmas. A class or table is a record, a method a function from
  the state to its result and the state afterwards; a thrown error is a value, and what it leaves
  changed is in the state it returns. Clocks, random identifiers and callbacks of the embedding
  process are arguments; listener calls and emitted events are lists in the state. Asynchronous
  methods are split at their awaits into steps, and a run interleaves the steps of all calls.
  Integers of the wire are words, JavaScript's bit operators are written over \<open>32 word\<close> with their
  sign, and counters and times are \<open>int\<close>, since the code keeps them below \<open>2 ^ 53\<close>. A string is a list of
  16-bit code units where its bytes, order or escapes matter and a \<open>string\<close> where it is only compared.

  \<^bold>\<open>What the lemmas show.\<close> For each stateful part there is an inductive step relation or a type of
  calls with a fold over them, an invariant that every call keeps, and properties of whole runs:
  attempts only move forward, a pinned lease stays, a grant redeems once, a withdrawn subject stays
  withdrawn, a confirmation is used by one execution, references advance by compare-and-set. For the wire formats there are round trips
  for any chunking, for hashes the agreement with the standard and the injectivity of the hashed
  text, for the authority decision the equality with a declarative reading, for the template walks
  termination with the set of results. Interfaces are locales (\<open>frame_format\<close>, \<open>number_text\<close> and the
  like), each interpreted on the model's own definitions.

  \<^bold>\<open>Loops and bounds.\<close> Loops over data are structural or have a termination proof by a measure: the
  unread bytes of a buffer, the urls not yet placed, the rows still pending. Three loops whose end depends
  on their input are \<open>partial_function (option)\<close>: the reader of chunks (\<open>read_chunks\<close>) returns because a stream ends, the two
  walks over templates (\<open>drain_repos\<close>, \<open>drain_queue\<close>) because what is reachable is finite, and that they
  return is part of their properties. No definition uses fuel.

  \<^bold>\<open>Parameters.\<close> Code that is not in the repository, or that the host closes over, is an argument:
  URL parsing and Unicode normalization of the runtime, the text of floating-point numbers, Git
  remotes, physical streams, JSON payload readers, build and boot probes. The hypotheses about
  them are named in the statements that use them.

  \<^bold>\<open>Not modelled.\<close> The desktop, mobile and terminal hosts and the panel front ends (user interface
  over platform APIs); the build pipeline, type checker and extension host (processes, bundlers and
  file systems); workerd and durable-object management, gateways and sockets (input and output);
  credential and browser-import services (external protocols and formats); the remaining server
  services, which wire calls to the parts above; wire schemas and generated catalogues (data).
  Their share of the repository is large and most of it has no meaning apart from the systems it
  drives. Where a modelled class logs, formats messages for people or measures time, that is left
  out and its component says so.
\<close>

end
